(* ===== verification/Prelude.thy ===== *)
theory Prelude
  imports Main "HOL-Library.Word"
begin

text \<open>
  Shared vocabulary of the development: the machine integers of the C++ sources, the exceptions
  the sources throw, results that are either an exception or a value, the classification of
  characters the C library provides, and generic lemmas on slices of lists.

  A C++ \<^verbatim>\<open>char\<close> is a byte: \<^verbatim>\<open>std::string\<close> and \<^verbatim>\<open>std::vector<char>\<close> are \<^typ>\<open>string\<close>, a list of
  8-bit characters. The target is the platform the build files name (Linux, GCC, x86-64), so plain
  \<^verbatim>\<open>char\<close> is signed, \<^verbatim>\<open>std::uint64_t\<close> is stored little-endian, and the C library runs in
  the ``C'' locale.
\<close>

section \<open>Machine integers and exceptions\<close>

type_synonym u16 = "16 word"
type_synonym u32 = "32 word"
type_synonym u64 = "64 word"

datatype cpp_error =
    RuntimeError string
  | LogicError string
  | OutOfRange string
  | LengthError string
  | InvalidArgument string
  | NullPointer
  | OutOfBounds
  | Diverges

text \<open>
  The last three are no exceptions: a null pointer is dereferenced, memory outside of an object is
  accessed (both undefined behaviour), or a loop does not end.
\<close>

type_synonym 'a result = "cpp_error + 'a"

text \<open>Sequencing of two fallible computations: an exception of the first one propagates.\<close>

definition rbind :: "'e + 'a \<Rightarrow> ('a \<Rightarrow> 'e + 'b) \<Rightarrow> 'e + 'b" where
  "rbind m f = (case m of Inl e \<Rightarrow> Inl e | Inr x \<Rightarrow> f x)"

named_theorems result_simps \<open>evaluation of sequenced fallible computations\<close>

lemma rbind_Inr [simp, result_simps]: "rbind (Inr x) f = f x"
  by (simp add: rbind_def)

lemma rbind_Inl [simp, result_simps]: "rbind (Inl e) f = Inl e"
  by (simp add: rbind_def)

lemma rbind_eq_Inr_conv:
  "rbind m f = Inr y \<longleftrightarrow> (\<exists>x. m = Inr x \<and> f x = Inr y)"
  by (cases m) auto

lemma rbind_split:
  "P (rbind m f) \<longleftrightarrow> (\<forall>e. m = Inl e \<longrightarrow> P (Inl e)) \<and> (\<forall>x. m = Inr x \<longrightarrow> P (f x))"
  by (cases m) auto

section \<open>Characters\<close>

text \<open>
  The value of a \<^verbatim>\<open>char\<close> when the code promotes it to \<^verbatim>\<open>int\<close> (signed), and as an unsigned byte.
\<close>

definition schar :: "char \<Rightarrow> int" where
  "schar c = (let n = int (of_char c) in if n < 128 then n else n - 256)"

abbreviation byte :: "char \<Rightarrow> nat" where
  "byte c \<equiv> of_char c"

definition isspace :: "char \<Rightarrow> bool" where
  "isspace c \<longleftrightarrow> byte c = 32 \<or> (9 \<le> byte c \<and> byte c \<le> 13)"

definition isdigit :: "char \<Rightarrow> bool" where
  "isdigit c \<longleftrightarrow> 48 \<le> byte c \<and> byte c \<le> 57"

definition isupper :: "char \<Rightarrow> bool" where
  "isupper c \<longleftrightarrow> 65 \<le> byte c \<and> byte c \<le> 90"

definition islower :: "char \<Rightarrow> bool" where
  "islower c \<longleftrightarrow> 97 \<le> byte c \<and> byte c \<le> 122"

definition isalnum :: "char \<Rightarrow> bool" where
  "isalnum c \<longleftrightarrow> isdigit c \<or> isupper c \<or> islower c"

definition tolower :: "char \<Rightarrow> char" where
  "tolower c = (if isupper c then char_of (byte c + 32) else c)"

definition toupper :: "char \<Rightarrow> char" where
  "toupper c = (if islower c then char_of (byte c - 32) else c)"

named_theorems ctype_defs \<open>definitions of the character classes\<close>

lemmas ctype_defs_base [ctype_defs] =
  isspace_def isdigit_def isupper_def islower_def isalnum_def tolower_def toupper_def

lemma byte_eq_iff_char_of: "n < 256 \<Longrightarrow> byte c = n \<longleftrightarrow> c = char_of n"
  by (metis char_of_char mod_less of_char_of)

lemma int_of_char_less_256 [simp]: "(of_char c :: int) < 256"
  by (metis nat_of_char_less_256 of_nat_less_numeral_iff of_nat_of_char)

lemma int_of_char_nonneg [simp]: "0 \<le> (of_char c :: int)"
  by (metis of_nat_0_le_iff of_nat_of_char)

lemma schar_range: "-128 \<le> schar c" "schar c < 128"
  using nat_of_char_less_256 [of c]
  by (auto simp: schar_def Let_def simp del: nat_of_char_less_256)

lemma schar_mod_256: "nat (schar c mod 256) = byte c"
  by (auto simp: schar_def Let_def minus_mod_self2)

lemma tolower_idem [simp]: "tolower (tolower c) = tolower c"
  by (auto simp: ctype_defs)

section \<open>Slices of lists\<close>

definition slice :: "nat \<Rightarrow> nat \<Rightarrow> 'a list \<Rightarrow> 'a list" where
  "slice b n xs = take n (drop b xs)"

text \<open>Copying a block over a part of an array, as \<^verbatim>\<open>memcpy\<close> does.\<close>

definition overwrite :: "nat \<Rightarrow> 'a list \<Rightarrow> 'a list \<Rightarrow> 'a list" where
  "overwrite b ys xs = take b xs @ ys @ drop (b + length ys) xs"

named_theorems slice_simps \<open>rules about slices and overwritten blocks\<close>

lemma length_slice [simp]: "length (slice b n xs) = min n (length xs - b)"
  by (simp add: slice_def)

lemma slice_0 [simp, slice_simps]: "slice b 0 xs = []"
  by (simp add: slice_def)

lemma slice_Suc [slice_simps]:
  "b < length xs \<Longrightarrow> slice b (Suc n) xs = xs ! b # slice (Suc b) n xs"
  by (simp add: slice_def Cons_nth_drop_Suc [symmetric])

lemma slice_Suc_end [slice_simps]:
  "b + n < length xs \<Longrightarrow> slice b (Suc n) xs = slice b n xs @ [xs ! (b + n)]"
  by (simp add: slice_def take_Suc_conv_app_nth)

lemma nth_slice: "i < n \<Longrightarrow> b + n \<le> length xs \<Longrightarrow> slice b n xs ! i = xs ! (b + i)"
  by (simp add: slice_def)

lemma slice_slice [slice_simps]:
  "c + m \<le> n \<Longrightarrow> slice c m (slice b n xs) = slice (b + c) m xs"
  by (simp add: slice_def take_drop add.commute min_absorb2)

lemma slice_append_split:
  "slice b (m + n) xs = slice b m xs @ slice (b + m) n xs"
  by (simp add: slice_def take_add add.commute)

lemma slice_all [simp]: "slice 0 (length xs) xs = xs"
  by (simp add: slice_def)

lemma slice_left_append: "b + n \<le> length xs \<Longrightarrow> slice b n (xs @ ys) = slice b n xs"
  by (simp add: slice_def)

lemma slice_mid_append: "slice (length xs) (length ys) (xs @ ys @ zs) = ys"
  by (simp add: slice_def)

lemma length_overwrite [simp]:
  "b + length ys \<le> length xs \<Longrightarrow> length (overwrite b ys xs) = length xs"
  by (simp add: overwrite_def)

lemma slice_overwrite_same [slice_simps]:
  "b + length ys \<le> length xs \<Longrightarrow> slice b (length ys) (overwrite b ys xs) = ys"
  by (simp add: slice_def overwrite_def)

lemma slice_overwrite_before [slice_simps]:
  "c + n \<le> b \<Longrightarrow> b \<le> length xs \<Longrightarrow> slice c n (overwrite b ys xs) = slice c n xs"
  by (simp add: slice_def overwrite_def take_drop min_absorb2 add.commute)

lemma slice_overwrite_after [slice_simps]:
  "b + length ys \<le> c \<Longrightarrow> b \<le> length xs \<Longrightarrow> slice c n (overwrite b ys xs) = slice c n xs"
  by (simp add: slice_def overwrite_def)

lemma nth_overwrite:
  "b + length ys \<le> length xs \<Longrightarrow> i < length xs \<Longrightarrow>
   overwrite b ys xs ! i = (if i < b \<or> b + length ys \<le> i then xs ! i else ys ! (i - b))"
  by (auto simp: overwrite_def nth_append)

lemma slice_overwrite_inside [slice_simps]:
  assumes "c + length ys \<le> n" "b + n \<le> length xs"
  shows "slice b n (overwrite (b + c) ys xs) = overwrite c ys (slice b n xs)"
proof (rule nth_equalityI)
  fix i
  assume "i < length (slice b n (overwrite (b + c) ys xs))"
  then have i: "i < n" by simp
  then show "slice b n (overwrite (b + c) ys xs) ! i = overwrite c ys (slice b n xs) ! i"
    using assms by (simp add: nth_slice nth_overwrite)
qed (use assms in simp)

lemma overwrite_Nil [simp]: "overwrite b [] xs = xs"
  by (simp add: overwrite_def)

lemma overwrite_append:
  "b + length ys + length zs \<le> length xs \<Longrightarrow>
   overwrite (b + length ys) zs (overwrite b ys xs) = overwrite b (ys @ zs) xs"
  by (simp add: overwrite_def ac_simps)

lemma list_update_overwrite: "b < length xs \<Longrightarrow> overwrite b [y] xs = xs[b := y]"
  by (simp add: overwrite_def upd_conv_take_nth_drop)

section \<open>Word arithmetic without wrap-around\<close>

lemma unat_add_u64:
  fixes a b :: u64
  shows "unat a + unat b < 2 ^ 64 \<Longrightarrow> unat (a + b) = unat a + unat b"
  by (simp add: unat_word_ariths)

lemma unat_sub_u64:
  fixes a b :: u64
  shows "unat b \<le> unat a \<Longrightarrow> unat (a - b) = unat a - unat b"
  by (simp add: unat_sub word_le_nat_alt)

lemma unat_mult_u64:
  fixes a b :: u64
  shows "unat a * unat b < 2 ^ 64 \<Longrightarrow> unat (a * b) = unat a * unat b"
  by (simp add: unat_word_ariths)

lemma unat_div_u64:
  fixes a b :: u64
  shows "unat (a div b) = unat a div unat b"
  by (rule unat_div_distrib)

lemma unat_mod_u64:
  fixes a b :: u64
  shows "unat (a mod b) = unat a mod unat b"
  by (rule unat_mod_distrib)

lemma unat_less_u64 [simp]: "unat (a :: u64) < 18446744073709551616"
  using unsigned_less [of a, where ?'a = nat] by simp

lemma unat_of_nat_u64 [simp]: "n < 2 ^ 64 \<Longrightarrow> unat (of_nat n :: u64) = n"
  by (simp add: unat_of_nat)

end
