(* ===== verification/OMaps.thy ===== *)
theory OMaps
  imports Prelude
begin

text \<open>
  The ordered containers of the C++ standard library the sources use (\<^verbatim>\<open>std::map\<close>,
  \<^verbatim>\<open>std::set\<close>, \<^verbatim>\<open>std::multimap\<close>) as association lists sorted by their comparison object. The
  order is kept because the serialised form of a request and the header block of a response list
  the entries in iteration order.

  The locale states what the standard requires of a \<^verbatim>\<open>Compare\<close> object (a strict weak order);
  every law of the containers is proved once inside it and used through the interpretations for
  the comparison objects of the program: the order of \<^verbatim>\<open>std::string\<close> (variables, cookies, files)
  and \<^verbatim>\<open>StringCILess\<close> (headers).
\<close>

section \<open>Operations\<close>

fun om_find :: "('k \<Rightarrow> 'k \<Rightarrow> bool) \<Rightarrow> 'k \<Rightarrow> ('k \<times> 'v) list \<Rightarrow> 'v option" where
  "om_find lt k [] = None"
| "om_find lt k ((k', v) # m) =
     (if lt k' k then om_find lt k m else if lt k k' then None else Some v)"

text \<open>\<^verbatim>\<open>insert\<close>: an equivalent key already there keeps its value; the flag says whether it was new.\<close>

fun om_insert :: "('k \<Rightarrow> 'k \<Rightarrow> bool) \<Rightarrow> 'k \<Rightarrow> 'v \<Rightarrow> ('k \<times> 'v) list \<Rightarrow> ('k \<times> 'v) list \<times> bool" where
  "om_insert lt k v [] = ([(k, v)], True)"
| "om_insert lt k v ((k', v') # m) =
     (if lt k' k then (let (m', b) = om_insert lt k v m in ((k', v') # m', b))
      else if lt k k' then ((k, v) # (k', v') # m, True)
      else ((k', v') # m, False))"

text \<open>\<^verbatim>\<open>m[k] = v\<close>: an equivalent key keeps its spelling and gets the new value.\<close>

fun om_assign :: "('k \<Rightarrow> 'k \<Rightarrow> bool) \<Rightarrow> 'k \<Rightarrow> 'v \<Rightarrow> ('k \<times> 'v) list \<Rightarrow> ('k \<times> 'v) list" where
  "om_assign lt k v [] = [(k, v)]"
| "om_assign lt k v ((k', v') # m) =
     (if lt k' k then (k', v') # om_assign lt k v m
      else if lt k k' then (k, v) # (k', v') # m
      else (k', v) # m)"

fun om_erase :: "('k \<Rightarrow> 'k \<Rightarrow> bool) \<Rightarrow> 'k \<Rightarrow> ('k \<times> 'v) list \<Rightarrow> ('k \<times> 'v) list" where
  "om_erase lt k [] = []"
| "om_erase lt k ((k', v') # m) =
     (if lt k' k then (k', v') # om_erase lt k m
      else if lt k k' then (k', v') # m
      else m)"

text \<open>\<^verbatim>\<open>std::multimap::insert\<close>: after every entry whose key is not greater.\<close>

fun mm_insert :: "('k \<Rightarrow> 'k \<Rightarrow> bool) \<Rightarrow> 'k \<Rightarrow> 'v \<Rightarrow> ('k \<times> 'v) list \<Rightarrow> ('k \<times> 'v) list" where
  "mm_insert lt k v [] = [(k, v)]"
| "mm_insert lt k v ((k', v') # m) =
     (if lt k k' then (k, v) # (k', v') # m else (k', v') # mm_insert lt k v m)"

definition om_sorted :: "('k \<Rightarrow> 'k \<Rightarrow> bool) \<Rightarrow> ('k \<times> 'v) list \<Rightarrow> bool" where
  "om_sorted lt m = sorted_wrt (\<lambda>a b. lt (fst a) (fst b)) m"

lemma om_sorted_Nil [simp]: "om_sorted lt []"
  by (simp add: om_sorted_def)

lemma om_sorted_Cons [simp]:
  "om_sorted lt ((k, v) # m) \<longleftrightarrow> (\<forall>k' v'. (k', v') \<in> set m \<longrightarrow> lt k k') \<and> om_sorted lt m"
  by (auto simp: om_sorted_def)

lemma set_om_insert: "set (fst (om_insert lt k v m)) \<subseteq> insert (k, v) (set m)"
  by (induction lt k v m rule: om_insert.induct) (auto simp: Let_def split: prod.splits)

lemma set_om_assign: "set (om_assign lt k v m) \<subseteq> insert (k, v) (set m \<union> {(k', v) | k' v'. (k', v') \<in> set m})"
  by (induction lt k v m rule: om_assign.induct) auto

lemma fst_set_om_assign: "(k', v') \<in> set (om_assign lt k v m) \<Longrightarrow> k' = k \<or> (\<exists>v''. (k', v'') \<in> set m)"
  using set_om_assign [of lt k v m] by auto

lemma set_om_erase: "set (om_erase lt k m) \<subseteq> set m"
  by (induction lt k m rule: om_erase.induct) auto

section \<open>The contract of a comparison object\<close>

locale strict_weak_order =
  fixes lt :: "'k \<Rightarrow> 'k \<Rightarrow> bool"
  assumes asym: "lt x y \<Longrightarrow> \<not> lt y x"
    and cotrans: "lt x z \<Longrightarrow> lt x y \<or> lt y z"
begin

definition eqv :: "'k \<Rightarrow> 'k \<Rightarrow> bool" where
  "eqv x y \<longleftrightarrow> \<not> lt x y \<and> \<not> lt y x"

lemma irrefl: "\<not> lt x x"
  using asym by blast

lemma trans: "lt x y \<Longrightarrow> lt y z \<Longrightarrow> lt x z"
  using asym cotrans by blast

lemma eqv_refl [simp]: "eqv x x"
  by (simp add: eqv_def irrefl)

lemma eqv_sym: "eqv x y \<longleftrightarrow> eqv y x"
  by (auto simp: eqv_def)

lemma eqv_trans: "eqv x y \<Longrightarrow> eqv y z \<Longrightarrow> eqv x z"
  using cotrans unfolding eqv_def by blast

lemma eqv_lt_left: "eqv x y \<Longrightarrow> lt x z \<longleftrightarrow> lt y z"
  using cotrans unfolding eqv_def by blast

lemma eqv_lt_right: "eqv x y \<Longrightarrow> lt z x \<longleftrightarrow> lt z y"
  using cotrans unfolding eqv_def by blast

lemma find_above: "om_sorted lt m \<Longrightarrow> \<forall>(k', v') \<in> set m. lt k k' \<Longrightarrow> om_find lt k m = None"
  by (cases m) (auto simp: asym split: if_splits)

lemma sorted_insert: "om_sorted lt m \<Longrightarrow> om_sorted lt (fst (om_insert lt k v m))"
proof (induction m)
  case (Cons e m)
  obtain k' v' where e: "e = (k', v')" by (cases e)
  with Cons have IH: "om_sorted lt (fst (om_insert lt k v m))" by simp
  show ?case
    using Cons.prems IH set_om_insert [of lt k v m] trans
    by (auto simp: e Let_def split: prod.splits) blast+
qed simp

lemma sorted_assign: "om_sorted lt m \<Longrightarrow> om_sorted lt (om_assign lt k v m)"
proof (induction m)
  case (Cons e m)
  obtain k' v' where e: "e = (k', v')" by (cases e)
  with Cons have IH: "om_sorted lt (om_assign lt k v m)" by simp
  consider "lt k' k" | "\<not> lt k' k" "lt k k'" | "\<not> lt k' k" "\<not> lt k k'"
    by blast
  then show ?case
  proof cases
    case 1
    with Cons.prems IH show ?thesis by (fastforce simp: e dest: fst_set_om_assign)
  next
    case 2
    with Cons.prems show ?thesis by (auto simp: e intro: trans [of k k'])
  next
    case 3
    with Cons.prems show ?thesis by (simp add: e)
  qed
qed simp

lemma sorted_erase: "om_sorted lt m \<Longrightarrow> om_sorted lt (om_erase lt k m)"
  by (induction lt k m rule: om_erase.induct) (use set_om_erase in fastforce)+

lemma find_assign:
  "om_sorted lt m \<Longrightarrow>
   om_find lt q (om_assign lt k v m) = (if eqv q k then Some v else om_find lt q m)"
proof (induction m)
  case Nil
  show ?case by (auto simp: eqv_def)
next
  case (Cons e m)
  obtain k' v' where e: "e = (k', v')" by (cases e)
  from Cons have IH: "om_find lt q (om_assign lt k v m) = (if eqv q k then Some v else om_find lt q m)"
    by (simp add: e)
  consider "lt k' k" | "\<not> lt k' k" "lt k k'" | "eqv k k'"
    unfolding eqv_def by blast
  then show ?case
  proof cases
    case 1
    then show ?thesis using eqv_lt_right [of q k k'] by (cases "eqv q k") (auto simp: e IH)
  next
    case 2
    then show ?thesis using trans [of q k k'] asym [of q k'] by (auto simp: e eqv_def)
  next
    case 3
    then show ?thesis using eqv_lt_left [of k k' q] eqv_lt_right [of k k' q]
      by (auto simp: e eqv_def)
  qed
qed

lemma find_eqv: "eqv q k \<Longrightarrow> om_find lt q m = om_find lt k m"
  by (induction m) (auto simp: eqv_lt_left eqv_lt_right)

lemma insert_absent: "om_find lt k m = None \<Longrightarrow> om_sorted lt m \<Longrightarrow>
  om_insert lt k v m = (om_assign lt k v m, True)"
  by (induction lt k v m rule: om_insert.induct) (auto split: if_splits)

lemma insert_present: "om_find lt k m = Some w \<Longrightarrow> om_insert lt k v m = (m, False)"
  by (induction lt k v m rule: om_insert.induct) (auto split: if_splits)

lemma find_insert:
  "om_sorted lt m \<Longrightarrow>
   om_find lt q (fst (om_insert lt k v m)) =
     (if eqv q k then (case om_find lt k m of None \<Rightarrow> Some v | Some w \<Rightarrow> Some w)
      else om_find lt q m)"
  by (cases "om_find lt k m")
    (simp_all add: insert_absent insert_present find_assign find_eqv)

lemma find_erase:
  "om_sorted lt m \<Longrightarrow>
   om_find lt q (om_erase lt k m) = (if eqv q k then None else om_find lt q m)"
proof (induction m)
  case (Cons e m)
  obtain k' v' where e: "e = (k', v')" by (cases e)
  from Cons have IH: "om_find lt q (om_erase lt k m) = (if eqv q k then None else om_find lt q m)"
    by (simp add: e)
  from Cons.prems have above: "\<forall>(a, b) \<in> set m. lt k' a" "om_sorted lt m"
    by (auto simp: e)
  consider "lt k' k" | "\<not> lt k' k" "lt k k'" | "eqv k k'"
    unfolding eqv_def by blast
  then show ?case
  proof cases
    case 1
    then show ?thesis using eqv_lt_right [of q k k'] by (cases "eqv q k") (auto simp: e IH)
  next
    case 2
    then show ?thesis using eqv_lt_left [of q k k'] asym [of q k']
      by (cases "eqv q k") (auto simp: e)
  next
    case 3
    have "lt q k' \<Longrightarrow> \<forall>(a, b) \<in> set m. lt q a" "eqv q k' \<Longrightarrow> \<forall>(a, b) \<in> set m. lt q a"
      using above(1) trans [of q k'] eqv_lt_left [of q k'] by auto
    then have "lt q k' \<or> eqv q k' \<Longrightarrow> om_find lt q m = None"
      using find_above [OF above(2)] by blast
    then show ?thesis using 3 eqv_lt_left [of k k' q] eqv_lt_right [of k k' q] asym [of q k']
      by (auto simp: e eqv_def)
  qed
qed simp

text \<open>
  A sorted list is rebuilt by inserting its entries one after the other: iterating over a map and
  inserting what was visited gives the same map.
\<close>

lemma insert_last:
  "\<forall>(k', v') \<in> set m. lt k' k \<Longrightarrow> om_insert lt k v m = (m @ [(k, v)], True)"
  by (induction lt k v m rule: om_insert.induct) auto

lemma rebuild_append:
  "om_sorted lt (m @ es) \<Longrightarrow> foldl (\<lambda>m (k, v). fst (om_insert lt k v m)) m es = m @ es"
proof (induction es arbitrary: m)
  case (Cons e es)
  obtain k v where e: "e = (k, v)" by (cases e)
  from Cons.prems have "\<forall>(k', v') \<in> set m. lt k' k"
    by (auto simp: om_sorted_def sorted_wrt_append e)
  then have "om_insert lt k v m = (m @ [(k, v)], True)"
    by (rule insert_last)
  moreover have "om_sorted lt ((m @ [(k, v)]) @ es)"
    using Cons.prems by (simp add: e)
  ultimately show ?case using Cons.IH [of "m @ [(k, v)]"] by (simp add: e)
qed simp

lemma rebuild: "om_sorted lt m \<Longrightarrow> foldl (\<lambda>m (k, v). fst (om_insert lt k v m)) [] m = m"
  using rebuild_append [of "[]" m] by simp

end

section \<open>Lexicographic comparison\<close>

text \<open>\<^verbatim>\<open>std::lexicographical_compare\<close> with a comparison of the elements.\<close>

fun lex_lt :: "('a \<Rightarrow> 'a \<Rightarrow> bool) \<Rightarrow> 'a list \<Rightarrow> 'a list \<Rightarrow> bool" where
  "lex_lt lt xs [] = False"
| "lex_lt lt [] (y # ys) = True"
| "lex_lt lt (x # xs) (y # ys) =
     (if lt x y then True else if lt y x then False else lex_lt lt xs ys)"

context strict_weak_order
begin

lemma lex_asym: "lex_lt lt xs ys \<Longrightarrow> \<not> lex_lt lt ys xs"
proof (induction xs arbitrary: ys)
  case (Cons x xs)
  then show ?case by (cases ys) (auto dest: asym split: if_splits)
qed simp

lemma lex_cotrans: "lex_lt lt xs zs \<Longrightarrow> lex_lt lt xs ys \<or> lex_lt lt ys zs"
proof (induction xs arbitrary: ys zs)
  case Nil
  then show ?case by (cases zs; cases ys) auto
next
  case (Cons x xs)
  from Cons.prems obtain z zs' where zs: "zs = z # zs'" by (cases zs) auto
  show ?case
  proof (cases ys)
    case Nil
    then show ?thesis by (simp add: zs)
  next
    case ys: (Cons y ys')
    have IH: "lex_lt lt xs zs' \<Longrightarrow> lex_lt lt xs ys' \<or> lex_lt lt ys' zs'" by (rule Cons.IH)
    from Cons.prems consider (less) "lt x z" | (eqv) "eqv x z" "lex_lt lt xs zs'"
      by (auto simp: zs eqv_def split: if_splits)
    then show ?thesis
    proof cases
      case less
      then have "lt x y \<or> lt y z" by (rule cotrans)
      then show ?thesis by (auto simp: zs ys)
    next
      case eqv
      then show ?thesis using IH eqv_lt_right [of x z y] eqv_lt_left [of x z y]
        by (auto simp: zs ys eqv_def)
    qed
  qed
qed

lemma lex_swo: "strict_weak_order (lex_lt lt)"
  using lex_asym lex_cotrans by unfold_locales

lemma lex_incomparable:
  "\<not> lex_lt lt xs ys \<and> \<not> lex_lt lt ys xs \<longleftrightarrow> list_all2 eqv xs ys"
proof (induction xs arbitrary: ys)
  case Nil
  show ?case by (cases ys) auto
next
  case (Cons x xs)
  show ?case
  proof (cases ys)
    case Nil
    then show ?thesis by simp
  next
    case c: (Cons y ys')
    show ?thesis using Cons.IH [of ys'] by (auto simp: c eqv_def)
  qed
qed

end

section \<open>The comparison objects of the program\<close>

text \<open>
  \<^verbatim>\<open>operator<\<close> of \<^verbatim>\<open>std::string\<close> compares bytes as unsigned values. \<open>CharCILess\<close> and
  \<open>StringCILess\<close> (\<^verbatim>\<open>fastcgi3/functors.h\<close>) compare lower-cased characters, as signed values.
\<close>

definition byte_lt :: "char \<Rightarrow> char \<Rightarrow> bool" where
  "byte_lt c d \<longleftrightarrow> byte c < byte d"

definition string_lt :: "string \<Rightarrow> string \<Rightarrow> bool" where
  "string_lt = lex_lt byte_lt"

definition CharCILess :: "char \<Rightarrow> char \<Rightarrow> bool" where
  "CharCILess c target \<longleftrightarrow> schar (tolower c) < schar (tolower target)"

definition StringCILess :: "string \<Rightarrow> string \<Rightarrow> bool" where
  "StringCILess str target = lex_lt CharCILess str target"

interpretation byte_order: strict_weak_order byte_lt
  by unfold_locales (auto simp: byte_lt_def)

interpretation ci_char_order: strict_weak_order CharCILess
  by unfold_locales (auto simp: CharCILess_def)

interpretation string_order: strict_weak_order string_lt
  unfolding string_lt_def by (rule byte_order.lex_swo)

interpretation ci_order: strict_weak_order StringCILess
  using ci_char_order.lex_swo by (simp add: StringCILess_def [abs_def])

definition eq_ci :: "string \<Rightarrow> string \<Rightarrow> bool" where
  "eq_ci s t \<longleftrightarrow> map tolower s = map tolower t"

lemma schar_eq_iff [simp]: "schar c = schar d \<longleftrightarrow> c = d"
  by (metis char_of_char schar_mod_256)

lemma string_eqv_eq [simp]: "string_order.eqv s t \<longleftrightarrow> s = t"
proof -
  have "byte_order.eqv = (=)"
    by (intro ext) (auto simp: byte_order.eqv_def byte_lt_def)
  then show ?thesis
    unfolding string_order.eqv_def
    using byte_order.lex_incomparable [of s t] by (simp add: string_lt_def list.rel_eq)
qed

lemma ci_eqv_eq_ci [simp]: "ci_order.eqv s t \<longleftrightarrow> eq_ci s t"
proof -
  have "ci_char_order.eqv = (\<lambda>c d. tolower c = tolower d)"
    by (intro ext) (auto simp: ci_char_order.eqv_def CharCILess_def)
  moreover have "list_all2 (\<lambda>c d. tolower c = tolower d) s t \<longleftrightarrow> eq_ci s t"
    by (simp add: eq_ci_def list_all2_map1 list_all2_map2 flip: list.rel_eq)
  ultimately show ?thesis
    unfolding ci_order.eqv_def
    using ci_char_order.lex_incomparable [of s t] by (simp add: StringCILess_def)
qed

lemma eq_ci_refl [simp]: "eq_ci s s"
  by (simp add: eq_ci_def)

text \<open>With string keys, finding an entry of a sorted list is membership.\<close>

lemma string_lt_cases: "\<not> string_lt s t \<Longrightarrow> \<not> string_lt t s \<Longrightarrow> s = t"
  using string_eqv_eq [of s t] unfolding string_order.eqv_def by simp

lemma string_find_mem: "om_find string_lt k m = Some v \<Longrightarrow> (k, v) \<in> set m"
  by (induction string_lt k m rule: om_find.induct) (auto split: if_splits dest: string_lt_cases)

lemma string_find_iff: "om_sorted string_lt m \<Longrightarrow> om_find string_lt k m = Some v \<longleftrightarrow> (k, v) \<in> set m"
proof
  show "om_sorted string_lt m \<Longrightarrow> (k, v) \<in> set m \<Longrightarrow> om_find string_lt k m = Some v"
    by (induction m) (auto simp: string_order.irrefl, blast+)
qed (rule string_find_mem)

end
