(* ===== verification/Ranges.thy ===== *)
theory Ranges
  imports OMaps
begin

text \<open>
  The class \<^verbatim>\<open>Range\<close> (\<^verbatim>\<open>include/fastcgi3/range.h\<close>): a pair of pointers into memory owned by
  someone else. A range is the memory it points into, the offset of \<^verbatim>\<open>begin_\<close> and the distance
  \<^verbatim>\<open>end_ - begin_\<close>, which the constructor's assertion makes non-negative. Pointer loops become
  recursion on that distance.

  \<open>range_ok\<close> says that the range lies inside its memory, so that none of the reads below leaves it;
  every operation keeps it. \<open>rg_str\<close> is the text of a range, and the lemmas of the last section
  describe each operation on that text.
\<close>

section \<open>The class and its operations\<close>

record range =
  rg_mem :: string
  rg_begin :: nat
  rg_len :: nat

definition rg_end :: "range \<Rightarrow> nat" where
  "rg_end r = rg_begin r + rg_len r"

definition rg_empty :: "range \<Rightarrow> bool" where
  "rg_empty r \<longleftrightarrow> rg_len r = 0"

definition rg_size :: "range \<Rightarrow> nat" where
  "rg_size r = rg_len r"

text \<open>The characters from \<^verbatim>\<open>begin_\<close> to \<^verbatim>\<open>end_\<close> (what \<^verbatim>\<open>toString\<close> copies).\<close>

definition rg_str :: "range \<Rightarrow> string" where
  "rg_str r = slice (rg_begin r) (rg_len r) (rg_mem r)"

definition rg_null :: range where
  "rg_null = \<lparr>rg_mem = [], rg_begin = 0, rg_len = 0\<rparr>"

definition rg_fromString :: "string \<Rightarrow> range" where
  "rg_fromString s = \<lparr>rg_mem = s, rg_begin = 0, rg_len = length s\<rparr>"

text \<open>
  The two loops of \<^verbatim>\<open>trim\<close>: the first moves \<^verbatim>\<open>begin\<close> forward and returns it with the remaining
  distance, the second moves \<^verbatim>\<open>end\<close> backward and returns the remaining distance.
\<close>

fun trim_front :: "string \<Rightarrow> nat \<Rightarrow> nat \<Rightarrow> nat \<times> nat" where
  "trim_front m b 0 = (b, 0)"
| "trim_front m b (Suc n) = (if isspace (m ! b) then trim_front m (Suc b) n else (b, Suc n))"

fun trim_back :: "string \<Rightarrow> nat \<Rightarrow> nat \<Rightarrow> nat" where
  "trim_back m b 0 = 0"
| "trim_back m b (Suc n) = (if isspace (m ! (b + n)) then trim_back m b n else Suc n)"

definition rg_trim :: "range \<Rightarrow> range" where
  "rg_trim r =
     (let (b, n) = trim_front (rg_mem r) (rg_begin r) (rg_len r)
      in r\<lparr>rg_begin := b, rg_len := trim_back (rg_mem r) b n\<rparr>)"

text \<open>
  The loops of \<^verbatim>\<open>trimn(b, e)\<close>; \<^verbatim>\<open>b--\<close> is tested against zero before it is decremented, so a
  negative count runs until the range is empty.
\<close>

fun trimn_front :: "nat \<Rightarrow> nat \<Rightarrow> int \<Rightarrow> nat \<times> nat" where
  "trimn_front bg 0 b = (bg, 0)"
| "trimn_front bg (Suc n) b = (if b \<noteq> 0 then trimn_front (Suc bg) n (b - 1) else (bg, Suc n))"

fun trimn_back :: "nat \<Rightarrow> int \<Rightarrow> nat" where
  "trimn_back 0 e = 0"
| "trimn_back (Suc n) e = (if e \<noteq> 0 then trimn_back n (e - 1) else Suc n)"

definition rg_trimn :: "range \<Rightarrow> int \<Rightarrow> int \<Rightarrow> range" where
  "rg_trimn r b e =
     (let (bg, n) = trimn_front (rg_begin r) (rg_len r) b
      in r\<lparr>rg_begin := bg, rg_len := trimn_back n e\<rparr>)"

text \<open>
  \<^verbatim>\<open>std::find\<close> and \<^verbatim>\<open>std::search\<close> over \<open>n\<close> characters from offset \<open>b\<close>; the result is an offset, and
  the end of the searched part when there is no match.
\<close>

fun std_find :: "string \<Rightarrow> nat \<Rightarrow> nat \<Rightarrow> char \<Rightarrow> nat" where
  "std_find m b 0 ch = b"
| "std_find m b (Suc n) ch = (if m ! b = ch then b else std_find m (Suc b) n ch)"

fun std_search :: "string \<Rightarrow> nat \<Rightarrow> nat \<Rightarrow> string \<Rightarrow> nat" where
  "std_search m b 0 pat = b"
| "std_search m b (Suc n) pat =
     (if length pat \<le> Suc n \<and> slice b (length pat) m = pat then b
      else std_search m (Suc b) n pat)"

definition rg_find_char :: "range \<Rightarrow> char \<Rightarrow> nat" where
  "rg_find_char r ch = std_find (rg_mem r) (rg_begin r) (rg_len r) ch"

definition rg_find :: "range \<Rightarrow> string \<Rightarrow> nat" where
  "rg_find r pat =
     (if length pat = 1 then rg_find_char r (hd pat)
      else std_search (rg_mem r) (rg_begin r) (rg_len r) pat)"

definition doSplit :: "range \<Rightarrow> nat \<Rightarrow> nat \<Rightarrow> bool \<times> range \<times> range" where
  "doSplit r e sz =
     (let first = r\<lparr>rg_len := e - rg_begin r\<rparr>
      in if e \<noteq> rg_end r
         then (True, first, r\<lparr>rg_begin := e + sz, rg_len := rg_end r - (e + sz)\<rparr>)
         else (False, first, r\<lparr>rg_begin := rg_end r, rg_len := 0\<rparr>))"

definition rg_split :: "range \<Rightarrow> string \<Rightarrow> bool \<times> range \<times> range" where
  "rg_split r delim = doSplit r (rg_find r delim) (length delim)"

definition rg_split_char :: "range \<Rightarrow> char \<Rightarrow> bool \<times> range \<times> range" where
  "rg_split_char r delim = doSplit r (rg_find_char r delim) 1"

definition rg_startsWith :: "range \<Rightarrow> string \<Rightarrow> bool" where
  "rg_startsWith r s \<longleftrightarrow>
     (if length s \<le> rg_size r then slice (rg_begin r) (length s) (rg_mem r) = s else False)"

definition rg_endsWith :: "range \<Rightarrow> string \<Rightarrow> bool" where
  "rg_endsWith r s \<longleftrightarrow>
     (if length s \<le> rg_size r then slice (rg_end r - length s) (length s) (rg_mem r) = s else False)"

definition rg_eq :: "range \<Rightarrow> string \<Rightarrow> bool" where
  "rg_eq r s \<longleftrightarrow>
     (if rg_size r = length s then slice (rg_begin r) (rg_size r) (rg_mem r) = s else False)"

text \<open>\<^verbatim>\<open>operator[]\<close> asserts that the index is below the size.\<close>

definition rg_at :: "range \<Rightarrow> nat \<Rightarrow> char option" where
  "rg_at r i = (if i < rg_size r then Some (rg_mem r ! (rg_begin r + i)) else None)"

lemmas range_defs = rg_end_def rg_empty_def rg_size_def

section \<open>Memory safety\<close>

definition range_ok :: "range \<Rightarrow> bool" where
  "range_ok r \<longleftrightarrow> rg_end r \<le> length (rg_mem r)"

text \<open>\<open>r'\<close> is a part of \<open>r\<close>: the same memory, between the same bounds.\<close>

definition subrange :: "range \<Rightarrow> range \<Rightarrow> bool" where
  "subrange r' r \<longleftrightarrow>
     rg_mem r' = rg_mem r \<and> rg_begin r \<le> rg_begin r' \<and> rg_end r' \<le> rg_end r"

named_theorems range_simps \<open>the text of a range under each operation\<close>

lemma subrange_ok: "subrange r' r \<Longrightarrow> range_ok r \<Longrightarrow> range_ok r'"
  by (auto simp: subrange_def range_ok_def)

lemma subrange_refl [simp]: "subrange r r"
  by (simp add: subrange_def)

lemma subrange_trans: "subrange a b \<Longrightarrow> subrange b c \<Longrightarrow> subrange a c"
  by (auto simp: subrange_def)

lemma subrange_len: "subrange r' r \<Longrightarrow> rg_len r' \<le> rg_len r"
  by (auto simp: subrange_def rg_end_def)

lemma range_ok_fromString [simp]: "range_ok (rg_fromString s)"
  by (simp add: range_ok_def rg_fromString_def rg_end_def)

lemma rg_str_fromString [simp]: "rg_str (rg_fromString s) = s"
  by (simp add: rg_str_def rg_fromString_def)

lemma length_rg_str [simp]: "range_ok r \<Longrightarrow> length (rg_str r) = rg_len r"
  by (simp add: rg_str_def range_ok_def rg_end_def)

lemma rg_empty_str: "range_ok r \<Longrightarrow> rg_empty r \<longleftrightarrow> rg_str r = []"
  by (simp add: rg_empty_def flip: length_rg_str)

lemma trim_front_bounds:
  "trim_front m b n = (b', n') \<Longrightarrow> b' + n' = b + n \<and> n' \<le> n"
  by (induction m b n rule: trim_front.induct) (auto split: if_splits)

lemma trim_back_le: "trim_back m b n \<le> n"
  by (induction m b n rule: trim_back.induct) auto

lemma trimn_front_bounds:
  "trimn_front b n k = (b', n') \<Longrightarrow> b' + n' = b + n \<and> n' \<le> n"
  by (induction b n k rule: trimn_front.induct) (auto split: if_splits)

lemma trimn_back_le: "trimn_back n e \<le> n"
  by (induction n e rule: trimn_back.induct) auto

lemma std_find_bounds: "b \<le> std_find m b n ch \<and> std_find m b n ch \<le> b + n"
  by (induction m b n ch rule: std_find.induct) auto

lemma std_search_bounds: "b \<le> std_search m b n pat \<and> std_search m b n pat \<le> b + n"
  by (induction m b n pat rule: std_search.induct) auto

lemma std_search_found:
  "std_search m b n pat \<noteq> b + n \<Longrightarrow> std_search m b n pat + length pat \<le> b + n"
  by (induction m b n pat rule: std_search.induct) (auto split: if_splits)

lemma std_find_found: "std_find m b n ch \<noteq> b + n \<Longrightarrow> std_find m b n ch + 1 \<le> b + n"
  using std_find_bounds [of b m n ch] by linarith

lemma rg_find_bounds:
  "rg_begin r \<le> rg_find r pat \<and> rg_find r pat \<le> rg_end r"
  "rg_find r pat \<noteq> rg_end r \<Longrightarrow> rg_find r pat + length pat \<le> rg_end r"
  using std_find_bounds std_find_found std_search_bounds std_search_found
  by (auto simp: rg_find_def rg_find_char_def rg_end_def)

lemma subrange_trim [simp]: "subrange (rg_trim r) r"
proof -
  obtain b n where "trim_front (rg_mem r) (rg_begin r) (rg_len r) = (b, n)"
    by (cases "trim_front (rg_mem r) (rg_begin r) (rg_len r)")
  then show ?thesis
    using trim_front_bounds [of "rg_mem r" "rg_begin r" "rg_len r" b n]
      trim_back_le [of "rg_mem r" b n]
    by (simp add: rg_trim_def subrange_def rg_end_def)
qed

lemma subrange_trimn [simp]: "subrange (rg_trimn r i j) r"
proof -
  obtain b n where "trimn_front (rg_begin r) (rg_len r) i = (b, n)"
    by (cases "trimn_front (rg_begin r) (rg_len r) i")
  then show ?thesis
    using trimn_front_bounds [of "rg_begin r" "rg_len r" i b n] trimn_back_le [of n j]
    by (simp add: rg_trimn_def subrange_def rg_end_def)
qed

lemma subrange_doSplit:
  assumes "rg_begin r \<le> e" "e \<le> rg_end r" "e \<noteq> rg_end r \<Longrightarrow> e + k \<le> rg_end r"
    and "doSplit r e k = (found, first, second)"
  shows "subrange first r \<and> subrange second r"
  using assms by (auto simp: doSplit_def subrange_def rg_end_def Let_def split: if_splits)

lemma subrange_split:
  "rg_split r d = (found, first, second) \<Longrightarrow> subrange first r \<and> subrange second r"
  unfolding rg_split_def by (rule subrange_doSplit) (use rg_find_bounds [of r d] in auto)

lemma subrange_split_char:
  "rg_split_char r c = (found, first, second) \<Longrightarrow> subrange first r \<and> subrange second r"
  using subrange_split [of r "[c]"] by (simp add: rg_split_def rg_split_char_def rg_find_def)

section \<open>Operations on the text of a range\<close>

definition trim_str :: "string \<Rightarrow> string" where
  "trim_str s = rev (dropWhile isspace (rev (dropWhile isspace s)))"

lemma trim_front_str:
  "b + n \<le> length m \<Longrightarrow> trim_front m b n = (b', n') \<Longrightarrow>
   slice b' n' m = dropWhile isspace (slice b n m)"
  by (induction m b n rule: trim_front.induct) (auto simp: slice_Suc split: if_splits)

lemma trim_back_str:
  "b + n \<le> length m \<Longrightarrow>
   slice b (trim_back m b n) m = rev (dropWhile isspace (rev (slice b n m)))"
  by (induction m b n rule: trim_back.induct) (auto simp: slice_Suc_end)

lemma rg_str_trim [range_simps]: "range_ok r \<Longrightarrow> rg_str (rg_trim r) = trim_str (rg_str r)"
proof -
  assume ok: "range_ok r"
  obtain b n where tf: "trim_front (rg_mem r) (rg_begin r) (rg_len r) = (b, n)"
    by (cases "trim_front (rg_mem r) (rg_begin r) (rg_len r)")
  then show ?thesis
    using ok trim_front_bounds [OF tf] trim_front_str [OF _ tf] trim_back_str [of b n "rg_mem r"]
    by (simp add: rg_trim_def rg_str_def trim_str_def range_ok_def rg_end_def)
qed

lemma trimn_front_eq: "0 \<le> k \<Longrightarrow> trimn_front b n k = (b + min (nat k) n, n - nat k)"
proof (induction b n k rule: trimn_front.induct)
  case (2 bg n b)
  show ?case
  proof (cases "b = 0")
    case False
    with 2 have "trimn_front (Suc bg) n (b - 1) = (Suc bg + min (nat (b - 1)) n, n - nat (b - 1))"
      by simp
    moreover have "nat b = Suc (nat (b - 1))" using False 2(2) by simp
    ultimately show ?thesis using False by simp
  qed simp
qed simp

lemma trimn_back_eq: "0 \<le> e \<Longrightarrow> trimn_back n e = n - nat e"
proof (induction n e rule: trimn_back.induct)
  case (2 n e)
  show ?case
  proof (cases "e = 0")
    case False
    with 2 have "trimn_back n (e - 1) = n - nat (e - 1)" by simp
    moreover have "nat e = Suc (nat (e - 1))" using False 2(2) by simp
    ultimately show ?thesis using False by simp
  qed simp
qed simp

lemma rg_str_trimn [range_simps]:
  "range_ok r \<Longrightarrow> 0 \<le> b \<Longrightarrow> 0 \<le> e \<Longrightarrow>
   rg_str (rg_trimn r b e) = take (rg_len r - nat b - nat e) (drop (nat b) (rg_str r))"
  by (auto simp: rg_trimn_def trimn_front_eq trimn_back_eq rg_str_def slice_def range_ok_def
      rg_end_def min_def add.commute take_drop)

lemma std_find_str:
  "b + n \<le> length m \<Longrightarrow>
   std_find m b n ch = b + length (takeWhile (\<lambda>x. x \<noteq> ch) (slice b n m))"
  by (induction m b n ch rule: std_find.induct) (auto simp: slice_Suc)

lemma takeWhile_length_eq:
  "length (takeWhile (\<lambda>x. x \<noteq> c) s) = length s \<longleftrightarrow> c \<notin> set s"
  by (metis (mono_tags, lifting) takeWhile_eq_all_conv takeWhile_eq_take take_all_iff
      length_takeWhile_le le_antisym order_refl)

text \<open>
  Splitting at a character: the text before its first occurrence, and the text after it (empty
  when it does not occur).
\<close>

lemma rg_split_char_str:
  assumes "range_ok r" "rg_split_char r c = (found, first, second)"
  shows "found \<longleftrightarrow> c \<in> set (rg_str r)"
    and "rg_str first = takeWhile (\<lambda>x. x \<noteq> c) (rg_str r)"
    and "rg_str second = drop 1 (dropWhile (\<lambda>x. x \<noteq> c) (rg_str r))"
    and "range_ok first" "range_ok second"
    and "rg_len second \<le> rg_len r" "rg_len r \<noteq> 0 \<Longrightarrow> rg_len second < rg_len r"
proof -
  let ?s = "rg_str r" and ?k = "length (takeWhile (\<lambda>x. x \<noteq> c) (rg_str r))"
  have e: "rg_find_char r c = rg_begin r + ?k"
    using assms(1) std_find_str [of "rg_begin r" "rg_len r" "rg_mem r" c]
    by (simp add: rg_find_char_def rg_str_def range_ok_def rg_end_def)
  have len: "length ?s = rg_len r" using assms(1) by simp
  have k: "?k \<le> rg_len r" using length_takeWhile_le [of "\<lambda>x. x \<noteq> c" ?s] len by simp
  have tw: "takeWhile (\<lambda>x. x \<noteq> c) ?s = take ?k ?s" by (rule takeWhile_eq_take)
  have dw: "dropWhile (\<lambda>x. x \<noteq> c) ?s = drop ?k ?s" by (rule dropWhile_eq_drop)
  have ds: "rg_split_char r c = doSplit r (rg_begin r + ?k) 1"
    by (simp add: rg_split_char_def e)
  show "found \<longleftrightarrow> c \<in> set ?s"
    using assms(2) takeWhile_length_eq [of c ?s] len
    by (auto simp: ds doSplit_def rg_end_def Let_def split: if_splits)
  have f: "first = r\<lparr>rg_len := ?k\<rparr>"
    using assms(2) by (auto simp: ds doSplit_def Let_def split: if_splits)
  have "rg_str (r\<lparr>rg_len := j\<rparr>) = take j ?s" if "j \<le> rg_len r" for j
    using that by (simp add: rg_str_def slice_def min_absorb1)
  then have "rg_str first = take ?k ?s" using k by (simp add: f)
  then show "rg_str first = takeWhile (\<lambda>x. x \<noteq> c) ?s" using tw by simp
  have "rg_str (r\<lparr>rg_begin := rg_begin r + j, rg_len := rg_len r - j\<rparr>) = drop j ?s" for j
    by (simp add: rg_str_def slice_def drop_take add.commute)
  from this [of "?k + 1"] this [of "rg_len r"]
  have "rg_str second = drop (?k + 1) ?s"
    using assms(2) k len by (auto simp: ds doSplit_def rg_end_def Let_def split: if_splits)
  then show "rg_str second = drop 1 (dropWhile (\<lambda>x. x \<noteq> c) ?s)" using dw by simp
  show "range_ok first" "range_ok second"
    using subrange_split_char [OF assms(2)] assms(1) by (auto intro: subrange_ok)
  show "rg_len second \<le> rg_len r"
    using subrange_split_char [OF assms(2)] by (auto intro: subrange_len)
  show "rg_len r \<noteq> 0 \<Longrightarrow> rg_len second < rg_len r"
    using assms(2) k by (auto simp: ds doSplit_def rg_end_def Let_def split: if_splits)
qed

text \<open>
  The loops of the parsers stop because the second part of a split is shorter than the range that
  was split; this needs no well-formedness.
\<close>

lemma rg_split_char_less:
  "rg_split_char r c = (found, first, second) \<Longrightarrow> rg_len r \<noteq> 0 \<Longrightarrow> rg_len second < rg_len r"
  using std_find_bounds [of "rg_begin r" "rg_mem r" "rg_len r" c]
  by (auto simp: rg_split_char_def rg_find_char_def doSplit_def rg_end_def Let_def split: if_splits)

lemma rg_split_less:
  "rg_split r d = (found, first, second) \<Longrightarrow> d \<noteq> [] \<Longrightarrow> rg_len r \<noteq> 0 \<Longrightarrow>
   rg_len second < rg_len r"
  using rg_find_bounds [of r d]
  by (cases d) (auto simp: rg_split_def doSplit_def rg_end_def Let_def split: if_splits)

lemma rg_startsWith_str [range_simps]:
  "range_ok r \<Longrightarrow> rg_startsWith r s \<longleftrightarrow> take (length s) (rg_str r) = s"
  by (auto simp: rg_startsWith_def rg_str_def slice_def rg_size_def min_absorb1)

lemma rg_eq_str [range_simps]: "range_ok r \<Longrightarrow> rg_eq r s \<longleftrightarrow> rg_str r = s"
  using length_rg_str [of r] by (auto simp: rg_eq_def rg_str_def rg_size_def)

section \<open>The order of ranges\<close>

definition RangeCILess :: "range \<Rightarrow> range \<Rightarrow> bool" where
  "RangeCILess r target = lex_lt CharCILess (rg_str r) (rg_str target)"

text \<open>It is the order of the header names on the texts of the ranges, wherever these are in memory.\<close>

lemma RangeCILess_str: "RangeCILess r t = StringCILess (rg_str r) (rg_str t)"
  by (simp add: RangeCILess_def StringCILess_def)

interpretation range_order: strict_weak_order RangeCILess
  by unfold_locales (use ci_order.asym ci_order.cotrans in \<open>auto simp: RangeCILess_str\<close>)

end
