(* ===== verification/StringUtils.thy ===== *)
theory StringUtils
  imports Ranges
begin

text \<open>
  The string functions of \<^verbatim>\<open>library/util.cpp\<close> and \<^verbatim>\<open>include/fastcgi3/util.h\<close>: URL encoding and
  decoding, parsing of form data, escaping for XML, trimming, splitting, and the path functions of
  \<^verbatim>\<open>FileSystemUtils\<close>.
\<close>

unbundle bit_operations_syntax

section \<open>URL encoding\<close>

definition hex_digit :: "nat \<Rightarrow> char" where
  "hex_digit n = char_of (n + (if n > 9 then 65 - 10 else 48))"

definition url_unreserved :: "char \<Rightarrow> bool" where
  "url_unreserved c \<longleftrightarrow> isalnum c \<or> c \<in> set ''-_.!~*()'' \<or> c = CHR 0x27"

definition urlencode_char :: "char \<Rightarrow> string" where
  "urlencode_char symbol =
     (if url_unreserved symbol then [symbol]
      else [CHR ''%'', hex_digit (byte symbol div 16), hex_digit (byte symbol mod 16)])"

definition urlencode :: "range \<Rightarrow> string" where
  "urlencode r = concat (map urlencode_char (rg_str r))"

definition urlencode_string :: "string \<Rightarrow> string" where
  "urlencode_string str = urlencode (rg_fromString str)"

text \<open>
  One hexadecimal digit as the decoder reads it. No check is made: a character below \<^verbatim>\<open>'A'\<close>
  counts from \<^verbatim>\<open>'0'\<close>, any other from \<^verbatim>\<open>'A'\<close> after its lower-case bit is cleared.
\<close>

definition url_digit :: "char \<Rightarrow> int" where
  "url_digit f = (if schar f \<ge> 65 then ((schar f AND 0xDF) - 65) + 10 else schar f - 48)"

definition url_octet :: "char \<Rightarrow> char \<Rightarrow> char" where
  "url_octet f s = char_of (nat ((url_digit f * 16 + url_digit s) mod 256))"

fun urldecode_loop :: "string \<Rightarrow> string" where
  "urldecode_loop [] = []"
| "urldecode_loop (c # cs) =
     (if c = CHR ''+'' then CHR '' '' # urldecode_loop cs
      else if c = CHR ''%'' then
        (case cs of
           f # s # rest \<Rightarrow> url_octet f s # urldecode_loop rest
         | _ \<Rightarrow> CHR ''%'' # urldecode_loop cs)
      else c # urldecode_loop cs)"

definition urldecode :: "range \<Rightarrow> string" where
  "urldecode r = urldecode_loop (rg_str r)"

definition urldecode_string :: "string \<Rightarrow> string" where
  "urldecode_string str = urldecode (rg_fromString str)"

section \<open>Form data\<close>

text \<open>\<^verbatim>\<open>StringUtils::parse(const Range&, std::vector<NamedValue>&)\<close>: appends the pairs to \<open>v\<close>.\<close>

function parse_args :: "range \<Rightarrow> (string \<times> string) list \<Rightarrow> (string \<times> string) list" where
  "parse_args tmp v =
     (if rg_empty tmp then v
      else
        let (_, head, tail) = rg_split_char tmp (CHR ''&'');
            (_, key, value) = rg_split_char head (CHR ''='');
            v' = (if \<not> rg_empty key then v @ [(urldecode key, urldecode value)] else v)
        in parse_args tail v')"
  by pat_completeness auto
termination
  by (relation "measure (\<lambda>(r, v). rg_len r)") (auto simp: rg_empty_def dest: rg_split_char_less [OF sym])

declare parse_args.simps [simp del]

definition parse_args_string :: "string \<Rightarrow> (string \<times> string) list \<Rightarrow> (string \<times> string) list" where
  "parse_args_string str v = parse_args (rg_fromString str) v"

section \<open>Escaping, trimming, splitting\<close>

definition escapeXml_char :: "char \<Rightarrow> string" where
  "escapeXml_char c =
     (if c = CHR ''&'' then ''&amp;''
      else if c = CHR 0x22 then ''&quot;''
      else if c = CHR 0x27 then ''&apos;''
      else if c = CHR ''<'' then ''&lt;''
      else if c = CHR ''>'' then ''&gt;''
      else [c])"

definition escapeXml :: "string \<Rightarrow> string" where
  "escapeXml data = concat (map escapeXml_char data)"

text \<open>
  \<^verbatim>\<open>res.erase(0, find_first_not_of(space))\<close> erases everything when only separators are there, and
  \<^verbatim>\<open>res.erase(find_last_not_of(space) + 1)\<close> cuts after the last other character.
\<close>

definition trim :: "string \<Rightarrow> string \<Rightarrow> string" where
  "trim str space =
     (if length str > 0 then
        let res = dropWhile (\<lambda>c. c \<in> set space) str
        in rev (dropWhile (\<lambda>c. c \<in> set space) (rev res))
      else str)"

text \<open>
  The loop of \<^verbatim>\<open>split\<close> runs over the C string: a separator is skipped, anything else up to the
  next separator or the end is a token, and reaching the terminator right after a separator
  produces an empty token.
\<close>

function split_tokens :: "char \<Rightarrow> string \<Rightarrow> string list" where
  "split_tokens c [] = (if c = CHR 0x00 then [] else [[]])"
| "split_tokens c (x # xs) =
     (if x = c then split_tokens c xs
      else takeWhile (\<lambda>y. y \<noteq> c) (x # xs) #
        (case dropWhile (\<lambda>y. y \<noteq> c) (x # xs) of [] \<Rightarrow> [] | _ # rest \<Rightarrow> split_tokens c rest))"
  by pat_completeness auto
termination
proof (relation "measure (\<lambda>(c, s). length s)")
  fix c x :: char and xs y rest
  assume "dropWhile (\<lambda>y. y \<noteq> c) (x # xs) = y # rest"
  then have "Suc (length rest) \<le> length (x # xs)"
    by (metis length_Cons length_dropWhile_le)
  then show "((c, rest), c, x # xs) \<in> measure (\<lambda>(c, s). length s)" by simp
qed auto

definition c_str :: "string \<Rightarrow> string" where
  "c_str s = takeWhile (\<lambda>x. x \<noteq> CHR 0x00) s"

definition split :: "string \<Rightarrow> char \<Rightarrow> string list \<Rightarrow> string list" where
  "split str c v = (if str = [] then v else v @ split_tokens c (c_str str))"

definition beginsWith :: "string \<Rightarrow> string \<Rightarrow> bool" where
  "beginsWith s prefx \<longleftrightarrow> (if length prefx > length s then False else take (length prefx) s = prefx)"

definition endsWith :: "string \<Rightarrow> string \<Rightarrow> bool" where
  "endsWith s sufx \<longleftrightarrow>
     (if length sufx > length s then False else take (length sufx) (rev s) = rev sufx)"

section \<open>Paths\<close>

definition matchPathSeparator :: "char \<Rightarrow> bool" where
  "matchPathSeparator ch \<longleftrightarrow> ch = CHR 0x5C \<or> ch = CHR ''/''"

definition basename :: "string \<Rightarrow> string" where
  "basename path = rev (takeWhile (\<lambda>ch. \<not> matchPathSeparator ch) (rev path))"

definition removeExtension :: "string \<Rightarrow> string" where
  "removeExtension filename =
     (if CHR ''.'' \<notin> set filename then filename
      else rev (drop 1 (dropWhile (\<lambda>ch. ch \<noteq> CHR ''.'') (rev filename))))"

definition pathToFile :: "string \<Rightarrow> string" where
  "pathToFile path = take (length path - length (basename path)) path"

section \<open>Decoding inverts encoding\<close>

lemma schar_char_of: "n < 128 \<Longrightarrow> schar (char_of n) = int n"
  by (simp add: schar_def)

lemma url_digit_hex [simp]: "n < 16 \<Longrightarrow> url_digit (hex_digit n) = int n"
proof (cases "n > 9")
  case True
  moreover assume "n < 16"
  ultimately have "n = 10 \<or> n = 11 \<or> n = 12 \<or> n = 13 \<or> n = 14 \<or> n = 15" by linarith
  then show ?thesis by (elim disjE) (simp_all add: hex_digit_def url_digit_def schar_char_of)
next
  case False
  then show ?thesis by (simp add: hex_digit_def url_digit_def schar_char_of)
qed

lemma url_octet_hex [simp]: "url_octet (hex_digit (byte c div 16)) (hex_digit (byte c mod 16)) = c"
proof -
  have lt: "byte c div 16 < 16" using nat_of_char_less_256 [of c] by linarith
  have "int (byte c div 16) * 16 + int (byte c mod 16) = int (byte c)"
    by (metis div_mult_mod_eq of_nat_add of_nat_mult of_nat_numeral)
  then have "url_octet (hex_digit (byte c div 16)) (hex_digit (byte c mod 16))
      = char_of (nat (int (byte c) mod 256))"
    unfolding url_octet_def using lt by (subst (1 2) url_digit_hex) auto
  also have "\<dots> = c" by (metis char_of_char nat_int nat_of_char_less_256 mod_less of_nat_mod of_nat_numeral)
  finally show ?thesis .
qed

lemma urldecode_urlencode_char:
  "urldecode_loop (urlencode_char c @ s) = c # urldecode_loop s"
proof (cases "url_unreserved c")
  case True
  then have "c \<noteq> CHR ''+''" "c \<noteq> CHR ''%''"
    by (auto simp: url_unreserved_def isalnum_def isdigit_def isupper_def islower_def)
  with True show ?thesis by (simp add: urlencode_char_def)
next
  case False
  then show ?thesis by (simp add: urlencode_char_def)
qed

lemma urldecode_concat: "urldecode_loop (concat (map urlencode_char s)) = s"
  by (induction s) (simp_all add: urldecode_urlencode_char)

lemma urldecode_urlencode_string [simp]: "urldecode_string (urlencode_string s) = s"
  by (simp add: urldecode_string_def urlencode_string_def urldecode_def urlencode_def urldecode_concat)

lemma urlencode_char_safe:
  "x \<in> set (urlencode_char c) \<Longrightarrow> url_unreserved x \<or> x = CHR ''%''"
proof -
  have hex: "url_unreserved (hex_digit n)" if "n < 16" for n
    using that by (auto simp: hex_digit_def url_unreserved_def isalnum_def isdigit_def isupper_def)
  have "byte c div 16 < 16" using nat_of_char_less_256 [of c] by linarith
  then show "x \<in> set (urlencode_char c) \<Longrightarrow> url_unreserved x \<or> x = CHR ''%''"
    by (auto simp: urlencode_char_def hex split: if_splits)
qed

lemma urlencode_safe: "x \<in> set (urlencode_string s) \<Longrightarrow> url_unreserved x \<or> x = CHR ''%''"
  by (auto simp: urlencode_string_def urlencode_def dest: urlencode_char_safe)

lemma urlencode_no_separator:
  "CHR ''&'' \<notin> set (urlencode_string s)" "CHR ''='' \<notin> set (urlencode_string s)"
  using urlencode_safe [of "CHR ''&''" s] urlencode_safe [of "CHR ''=''" s]
  by (auto simp: url_unreserved_def isalnum_def isdigit_def isupper_def islower_def)

lemma urlencode_string_Nil_iff [simp]: "urlencode_string s = [] \<longleftrightarrow> s = []"
  by (cases s) (auto simp: urlencode_string_def urlencode_def urlencode_char_def)

section \<open>Form data on its text\<close>

definition cut_first :: "char \<Rightarrow> string \<Rightarrow> string \<times> string" where
  "cut_first c s = (takeWhile (\<lambda>x. x \<noteq> c) s, drop 1 (dropWhile (\<lambda>x. x \<noteq> c) s))"

lemma cut_first_append: "c \<notin> set k \<Longrightarrow> cut_first c (k @ c # s) = (k, s)"
  by (induction k) (auto simp: cut_first_def)

lemma cut_first_absent: "c \<notin> set k \<Longrightarrow> cut_first c k = (k, [])"
  by (induction k) (auto simp: cut_first_def)

function form_pairs :: "string \<Rightarrow> (string \<times> string) list" where
  "form_pairs s =
     (if s = [] then []
      else let (head, tail) = cut_first (CHR ''&'') s; (key, val) = cut_first (CHR ''='') head
        in (if key = [] then [] else [(urldecode_loop key, urldecode_loop val)]) @ form_pairs tail)"
  by pat_completeness auto
termination
proof (relation "measure length")
  fix s head tail key val :: string and x y
  assume "s \<noteq> []" "x = cut_first (CHR ''&'') s" "(head, tail) = x"
  then show "(tail, s) \<in> measure length"
    using length_dropWhile_le [of "\<lambda>x. x \<noteq> CHR ''&''" s] by (cases s) (auto simp: cut_first_def)
qed simp

declare form_pairs.simps [simp del]

lemma parse_args_text:
  "range_ok r \<Longrightarrow> parse_args r v = v @ form_pairs (rg_str r)"
proof (induction r v rule: parse_args.induct)
  case (1 tmp v)
  show ?case
  proof (cases "rg_empty tmp")
    case True
    with 1(2) show ?thesis
      by (subst parse_args.simps, subst form_pairs.simps) (simp add: rg_empty_str)
  next
    case False
    obtain f1 head tail where h: "rg_split_char tmp (CHR ''&'') = (f1, head, tail)"
      by (metis prod_cases3)
    obtain f2 key val where k: "rg_split_char head (CHR ''='') = (f2, key, val)"
      by (metis prod_cases3)
    note hs = rg_split_char_str [OF 1(2) h]
    note ks = rg_split_char_str [OF hs(4) k]
    define v' where "v' = (if \<not> rg_empty key then v @ [(urldecode key, urldecode val)] else v)"
    have IH: "parse_args tail v' = v' @ form_pairs (rg_str tail)"
      using 1(1) [OF False h [symmetric] refl refl k [symmetric] refl refl v'_def] hs(5)
      by simp
    have step: "parse_args tmp v = parse_args tail v'"
      using False by (subst parse_args.simps) (simp add: h k v'_def)
    have "rg_str tmp \<noteq> []" using False 1(2) by (simp add: rg_empty_str)
    moreover have "cut_first (CHR ''&'') (rg_str tmp) = (rg_str head, rg_str tail)"
      "cut_first (CHR ''='') (rg_str head) = (rg_str key, rg_str val)"
      by (simp_all only: cut_first_def hs(2,3) ks(2,3))
    ultimately have "form_pairs (rg_str tmp) = (if rg_str key = [] then []
        else [(urldecode_loop (rg_str key), urldecode_loop (rg_str val))]) @ form_pairs (rg_str tail)"
      by (subst form_pairs.simps) simp
    then show ?thesis
      unfolding step IH by (simp add: v'_def rg_empty_str [OF ks(4)] urldecode_def)
  qed
qed

text \<open>The query string a browser sends for a list of fields.\<close>

fun query_string :: "(string \<times> string) list \<Rightarrow> string" where
  "query_string [] = []"
| "query_string [(k, v)] = urlencode_string k @ ''='' @ urlencode_string v"
| "query_string ((k, v) # e # es) =
     urlencode_string k @ ''='' @ urlencode_string v @ ''&'' @ query_string (e # es)"

lemma urldecode_loop_urlencode [simp]: "urldecode_loop (urlencode_string s) = s"
  by (simp add: urlencode_string_def urlencode_def urldecode_concat)

lemma form_pairs_single:
  "k \<noteq> [] \<Longrightarrow> form_pairs (urlencode_string k @ ''='' @ urlencode_string v) = [(k, v)]"
  by (subst form_pairs.simps)
    (simp add: cut_first_absent cut_first_append urlencode_no_separator form_pairs.simps [of "[]"])

lemma form_pairs_more:
  assumes "k \<noteq> []"
  shows "form_pairs (urlencode_string k @ ''='' @ urlencode_string v @ ''&'' @ s) = (k, v) # form_pairs s"
proof -
  have "cut_first (CHR ''&'') ((urlencode_string k @ ''='' @ urlencode_string v) @ CHR ''&'' # s)
      = (urlencode_string k @ ''='' @ urlencode_string v, s)"
    by (rule cut_first_append) (simp add: urlencode_no_separator)
  then show ?thesis using assms
    by (subst form_pairs.simps) (simp add: cut_first_append urlencode_no_separator)
qed

lemma form_pairs_query_string: "\<forall>(k, v) \<in> set fs. k \<noteq> [] \<Longrightarrow> form_pairs (query_string fs) = fs"
  by (induction fs rule: query_string.induct)
    (simp_all add: form_pairs_single form_pairs_more form_pairs.simps [of "[]"] del: append.simps(2))

section \<open>Escaping is reversible\<close>

text \<open>What an XML reader does with the five predefined entities.\<close>

fun xml_unescape :: "string \<Rightarrow> string" where
  "xml_unescape [] = []"
| "xml_unescape (c # s) =
     (if c \<noteq> CHR ''&'' then c # xml_unescape s
      else if take 4 s = ''amp;'' then CHR ''&'' # xml_unescape (drop 4 s)
      else if take 5 s = ''quot;'' then CHR 0x22 # xml_unescape (drop 5 s)
      else if take 5 s = ''apos;'' then CHR 0x27 # xml_unescape (drop 5 s)
      else if take 3 s = ''lt;'' then CHR ''<'' # xml_unescape (drop 3 s)
      else if take 3 s = ''gt;'' then CHR ''>'' # xml_unescape (drop 3 s)
      else c # xml_unescape s)"

lemma xml_unescape_char [simp]: "xml_unescape (escapeXml_char c @ s) = c # xml_unescape s"
  by (auto simp: escapeXml_char_def)

lemma escapeXml_char_safe:
  "set (escapeXml_char c) \<inter> {CHR ''<'', CHR ''>'', CHR 0x22, CHR 0x27} = {}"
  by (auto simp: escapeXml_char_def)

section \<open>Trimming and splitting\<close>

lemma dropWhile_id_hd: "(s \<noteq> [] \<Longrightarrow> \<not> P (hd s)) \<Longrightarrow> dropWhile P s = s"
  by (cases s) auto

lemma trim_middle:
  obtains pre post where "s = pre @ trim s sp @ post" "set pre \<subseteq> set sp" "set post \<subseteq> set sp"
proof -
  let ?P = "\<lambda>c. c \<in> set sp"
  define t where "t = dropWhile ?P s"
  have s: "s = takeWhile ?P s @ t" by (simp add: t_def)
  have t: "t = rev (dropWhile ?P (rev t)) @ rev (takeWhile ?P (rev t))"
    by (metis rev_append rev_rev_ident takeWhile_dropWhile_id)
  have "trim s sp = rev (dropWhile ?P (rev t))" by (simp add: trim_def t_def)
  with s t have "s = takeWhile ?P s @ trim s sp @ rev (takeWhile ?P (rev t))" by simp
  moreover have "set (takeWhile ?P s) \<subseteq> set sp" "set (rev (takeWhile ?P (rev t))) \<subseteq> set sp"
    by (auto dest: set_takeWhileD)
  ultimately show ?thesis by (rule that)
qed

lemma trim_last: "trim s sp \<noteq> [] \<Longrightarrow> last (trim s sp) \<notin> set sp"
  using hd_dropWhile [of "\<lambda>c. c \<in> set sp" "rev (dropWhile (\<lambda>c. c \<in> set sp) s)"]
  by (auto simp: trim_def Let_def last_rev split: if_splits)

lemma split_tokens_last: "c \<notin> set t \<Longrightarrow> t \<noteq> [] \<Longrightarrow> split_tokens c t = [t]"
proof -
  assume c: "c \<notin> set t" and "t \<noteq> []"
  then obtain x xs where t: "t = x # xs" by (cases t) auto
  have w: "takeWhile (\<lambda>y. y \<noteq> c) xs = xs" "dropWhile (\<lambda>y. y \<noteq> c) xs = []"
    using c by (auto simp: t takeWhile_eq_all_conv dropWhile_eq_Nil_conv)
  show ?thesis using c unfolding t by (simp add: w del: takeWhile_eq_all_conv dropWhile_eq_Nil_conv) metis
qed

lemma split_tokens_more:
  "c \<notin> set t \<Longrightarrow> t \<noteq> [] \<Longrightarrow> split_tokens c (t @ c # s) = t # split_tokens c s"
proof -
  assume c: "c \<notin> set t" and "t \<noteq> []"
  then obtain x xs where t: "t = x # xs" by (cases t) auto
  have "cut_first c (t @ c # s) = (t, s)" using c by (rule cut_first_append)
  then have "takeWhile (\<lambda>y. y \<noteq> c) (t @ c # s) = t" "drop 1 (dropWhile (\<lambda>y. y \<noteq> c) (t @ c # s)) = s"
    by (simp_all add: cut_first_def)
  moreover have "dropWhile (\<lambda>y. y \<noteq> c) (t @ c # s) \<noteq> []"
    by (simp add: dropWhile_eq_Nil_conv)
  ultimately show ?thesis using c
    by (cases "dropWhile (\<lambda>y. y \<noteq> c) (t @ c # s)") (auto simp: t)
qed

text \<open>Every string is, at its first separator, one of the four forms the loop distinguishes.\<close>

lemma split_tokens_induct [case_names Nil Sep Last More]:
  assumes "P []" "\<And>s. P s \<Longrightarrow> P (c # s)" "\<And>t. c \<notin> set t \<Longrightarrow> t \<noteq> [] \<Longrightarrow> P t"
    "\<And>t s. c \<notin> set t \<Longrightarrow> t \<noteq> [] \<Longrightarrow> P s \<Longrightarrow> P (t @ c # s)"
  shows "P s"
proof (induction s rule: length_induct)
  case (1 s)
  show ?case
  proof (cases "c \<in> set s")
    case True
    then obtain t r where s: "s = t @ c # r" "c \<notin> set t" by (meson split_list_first)
    moreover have "P r" using 1 s by simp
    ultimately show ?thesis using assms(2,4) by (cases "t = []") auto
  next
    case False
    then show ?thesis using assms(1,3) by (cases "s = []") auto
  qed
qed

lemma filter_neq_id: "c \<notin> set t \<Longrightarrow> filter (\<lambda>x. x \<noteq> c) t = t"
  by (induction t) auto

lemma split_tokens_concat:
  "c \<noteq> CHR 0x00 \<Longrightarrow> concat (split_tokens c s) = filter (\<lambda>x. x \<noteq> c) s"
  by (induction s rule: split_tokens_induct [of _ c])
    (simp_all add: split_tokens_last split_tokens_more filter_neq_id)

lemma split_tokens_no_sep: "t \<in> set (split_tokens c s) \<Longrightarrow> c \<notin> set t"
  by (induction s rule: split_tokens_induct [of _ c])
    (auto simp: split_tokens_last split_tokens_more split: if_splits)

section \<open>Path functions\<close>

lemma path_decompose: "pathToFile path @ basename path = path"
proof -
  let ?b = "takeWhile (\<lambda>ch. \<not> matchPathSeparator ch) (rev path)"
  have "path = rev (dropWhile (\<lambda>ch. \<not> matchPathSeparator ch) (rev path)) @ basename path"
    unfolding basename_def by (metis rev_append rev_rev_ident takeWhile_dropWhile_id)
  then show ?thesis unfolding pathToFile_def
    by (metis append_eq_conv_conj append_take_drop_id length_append add_diff_cancel_right')
qed

lemma basename_no_separator: "ch \<in> set (basename path) \<Longrightarrow> \<not> matchPathSeparator ch"
  by (auto simp: basename_def dest: set_takeWhileD)

lemma pathToFile_ends:
  assumes "pathToFile path \<noteq> []" shows "matchPathSeparator (last (pathToFile path))"
proof -
  let ?P = "\<lambda>ch. \<not> matchPathSeparator ch"
  have "path = rev (dropWhile ?P (rev path)) @ basename path"
    unfolding basename_def by (metis rev_append rev_rev_ident takeWhile_dropWhile_id)
  then have "pathToFile path = rev (dropWhile ?P (rev path))"
    using path_decompose [of path] by (metis append_same_eq)
  then show ?thesis using assms hd_dropWhile [of ?P "rev path"] by (simp add: last_rev)
qed

section \<open>Properties\<close>

text \<open>
  URL decoding inverts URL encoding on every byte string, and the encoded text consists of
  letters, digits, the unreserved marks and the percent sign, so it contains none of the
  separators of a query string.
\<close>

theorem urlencode_roundtrip:
  "urldecode_string (urlencode_string s) = s \<and>
   set (urlencode_string s) \<subseteq> {c. url_unreserved c \<or> c = CHR ''%''} \<and>
   set (urlencode_string s) \<inter> {CHR ''&'', CHR ''='', CHR ''+'', CHR '' ''} = {}"
proof (intro conjI)
  show "set (urlencode_string s) \<subseteq> {c. url_unreserved c \<or> c = CHR ''%''}"
    using urlencode_safe by auto
  moreover have "\<not> url_unreserved c" if "c \<in> {CHR ''&'', CHR ''='', CHR ''+'', CHR '' ''}" for c
    using that by (auto simp: url_unreserved_def isalnum_def isdigit_def isupper_def islower_def)
  ultimately show "set (urlencode_string s) \<inter> {CHR ''&'', CHR ''='', CHR ''+'', CHR '' ''} = {}"
    by fastforce
qed simp

text \<open>
  Parsing form data: the pairs read from the query string of a list of fields with non-empty
  names are these fields, in their order, appended to the pairs already there; and the loop over
  any range whatever terminates with the pairs of its text.
\<close>

theorem parse_query_string:
  assumes "\<forall>(k, val) \<in> set fs. k \<noteq> []"
  shows "parse_args_string (query_string fs) v = v @ fs"
  using assms by (simp add: parse_args_string_def parse_args_text form_pairs_query_string)

theorem parse_query_string_witness:
  "parse_args_string (query_string [(''a b'', ''1&2''), (''x'', [])]) [(''k'', ''v'')] =
     [(''k'', ''v''), (''a b'', ''1&2''), (''x'', [])]"
  using parse_query_string [of "[(''a b'', ''1&2''), (''x'', [])]" "[(''k'', ''v'')]"] by simp

text \<open>
  Escaping for XML: the output contains no markup or quoting character, and replacing the
  predefined entities gives the input back, so no two texts are escaped to the same one.
\<close>

theorem escapeXml_safe_roundtrip:
  "set (escapeXml data) \<inter> {CHR ''<'', CHR ''>'', CHR 0x22, CHR 0x27} = {} \<and>
   xml_unescape (escapeXml data) = data"
proof
  show "set (escapeXml data) \<inter> {CHR ''<'', CHR ''>'', CHR 0x22, CHR 0x27} = {}"
    using escapeXml_char_safe by (auto simp: escapeXml_def)
  show "xml_unescape (escapeXml data) = data"
    by (induction data) (simp_all add: escapeXml_def)
qed

text \<open>
  Splitting: for a separator that is not the terminator, the tokens of a string without
  terminators contain no separator and are, one after the other, the string without its separators.
\<close>

theorem split_correct:
  assumes "c \<noteq> CHR 0x00" "CHR 0x00 \<notin> set str"
  shows "concat (split str c []) = filter (\<lambda>x. x \<noteq> c) str \<and>
    set (split str c []) \<subseteq> {t. c \<notin> set t}"
proof -
  have "c_str str = str" using assms(2) by (auto simp: c_str_def takeWhile_eq_all_conv)
  then show ?thesis
    using assms(1) split_tokens_no_sep [of _ c str] by (auto simp: split_def split_tokens_concat)
qed

theorem split_correct_witness:
  "concat (split ''a//b/c'' (CHR ''/'') []) = ''abc'' \<and>
   set (split ''a//b/c'' (CHR ''/'') []) \<subseteq> {t. CHR ''/'' \<notin> set t}"
  using split_correct [of "CHR ''/''" "''a//b/c''"] by simp

text \<open>
  A path is its directory part followed by its base name; the base name has no separator,
  and a directory part that is not empty ends with one.
\<close>

theorem path_split:
  "pathToFile path @ basename path = path \<and>
   (\<forall>ch. matchPathSeparator ch \<longrightarrow> ch \<notin> set (basename path)) \<and>
   (pathToFile path = [] \<or> matchPathSeparator (last (pathToFile path)))"
  using path_decompose basename_no_separator pathToFile_ends by blast

theorem path_split_witness:
  "pathToFile ''/var/x.conf'' @ basename ''/var/x.conf'' = ''/var/x.conf'' \<and>
   CHR ''/'' \<notin> set (basename ''/var/x.conf'')"
  using path_split [of "''/var/x.conf''"] by (simp add: matchPathSeparator_def)

end
