(* ===== verification/HashUtils.thy ===== *)
theory HashUtils
  imports StringUtils
begin

text \<open>
  \<^verbatim>\<open>HashUtils\<close> of \<^verbatim>\<open>library/util.cpp\<close>: base64 and the hexadecimal form of an MD5 digest. The
  accumulator of the base64 loops is a 32-bit \<^verbatim>\<open>unsigned int\<close> that is shifted left for every
  character and overflows on long inputs; the theorems show that the bits that are read back are
  never among those that were shifted out.
\<close>

unbundle bit_operations_syntax

section \<open>Base64\<close>

definition b64_table :: string where
  "b64_table = ''ABCDEFGHIJKLMNOPQRSTUVWXYZabcdefghijklmnopqrstuvwxyz0123456789+/''"

definition reverse_table :: "nat list" where
  "reverse_table =
    [64, 64, 64, 64, 64, 64, 64, 64, 64, 64, 64, 64, 64, 64, 64, 64,
     64, 64, 64, 64, 64, 64, 64, 64, 64, 64, 64, 64, 64, 64, 64, 64,
     64, 64, 64, 64, 64, 64, 64, 64, 64, 64, 64, 62, 64, 64, 64, 63,
     52, 53, 54, 55, 56, 57, 58, 59, 60, 61, 64, 64, 64, 64, 64, 64,
     64,  0,  1,  2,  3,  4,  5,  6,  7,  8,  9, 10, 11, 12, 13, 14,
     15, 16, 17, 18, 19, 20, 21, 22, 23, 24, 25, 64, 64, 64, 64, 64,
     64, 26, 27, 28, 29, 30, 31, 32, 33, 34, 35, 36, 37, 38, 39, 40,
     41, 42, 43, 44, 45, 46, 47, 48, 49, 50, 51, 64, 64, 64, 64, 64]"

text \<open>
  The inner \<^verbatim>\<open>while\<close> loop of the encoder, the loop over the input, and the padding. The output
  string is allocated full of padding and written from the front.
\<close>

function encode_emit :: "u32 \<Rightarrow> nat \<Rightarrow> string \<Rightarrow> nat \<Rightarrow> nat \<times> string \<times> nat" where
  "encode_emit accumulator bits_collected retval outpos =
     (if bits_collected \<ge> 6 then
        let bits_collected = bits_collected - 6
        in encode_emit accumulator bits_collected
             (retval[outpos := b64_table ! unat (drop_bit bits_collected accumulator AND 0x3f)])
             (outpos + 1)
      else (bits_collected, retval, outpos))"
  by pat_completeness auto
termination
  by (relation "measure (\<lambda>(a, b, r, p). b)") auto

declare encode_emit.simps [simp del]

fun encode_loop :: "string \<Rightarrow> u32 \<Rightarrow> nat \<Rightarrow> string \<Rightarrow> nat \<Rightarrow> u32 \<times> nat \<times> string \<times> nat" where
  "encode_loop [] accumulator bits_collected retval outpos =
     (accumulator, bits_collected, retval, outpos)"
| "encode_loop (c # cs) accumulator bits_collected retval outpos =
     (let accumulator = push_bit 8 accumulator OR of_char c;
          (bits_collected, retval, outpos) = encode_emit accumulator (bits_collected + 8) retval outpos
      in encode_loop cs accumulator bits_collected retval outpos)"

definition base64_encode :: "string \<Rightarrow> string result" where
  "base64_encode bindata =
     (if length bindata > ((2 ^ 64 - 1) div 4) * 3
      then Inl (LengthError ''Converting too large a string to base64.'')
      else
        let (accumulator, bits_collected, retval, outpos) =
              encode_loop bindata 0 0 (replicate (((length bindata + 2) div 3) * 4) (CHR ''='')) 0
        in Inr (if bits_collected > 0
             then retval[outpos := b64_table ! unat (push_bit (6 - bits_collected) accumulator AND 0x3f)]
             else retval))"

fun decode_loop :: "string \<Rightarrow> u32 \<Rightarrow> nat \<Rightarrow> string \<Rightarrow> string result" where
  "decode_loop [] accumulator bits_collected retval = Inr retval"
| "decode_loop (c # cs) accumulator bits_collected retval =
     (if isspace c \<or> c = CHR ''='' then decode_loop cs accumulator bits_collected retval
      else if schar c > 127 \<or> schar c < 0 \<or> reverse_table ! nat (schar c) > 63
      then Inl (InvalidArgument ''This contains characters not legal in a base64 encoded string.'')
      else
        let accumulator = push_bit 6 accumulator OR of_nat (reverse_table ! nat (schar c));
            bits_collected = bits_collected + 6
        in if bits_collected \<ge> 8
           then decode_loop cs accumulator (bits_collected - 8)
             (retval @ [char_of (unat (drop_bit (bits_collected - 8) accumulator AND 0xff))])
           else decode_loop cs accumulator bits_collected retval)"

definition base64_decode :: "string \<Rightarrow> string result" where
  "base64_decode ascdata = decode_loop ascdata 0 0 []"

section \<open>The hexadecimal form of a digest\<close>

text \<open>
  \<^verbatim>\<open>hexMD5\<close> prints the digest that the \<^verbatim>\<open>MD5\<close> function of OpenSSL computes; the digest function
  is a parameter.
\<close>

definition alpha :: string where
  "alpha = ''0123456789abcdef''"

definition hexMD5 :: "(string \<Rightarrow> string) \<Rightarrow> string \<Rightarrow> string" where
  "hexMD5 md5 key =
     concat (map (\<lambda>i. let b = byte (md5 key ! i) in [alpha ! drop_bit 4 (b AND 0xf0), alpha ! (b AND 0xf)])
       [0..<16])"

section \<open>The accumulator\<close>

lemma u32_of_char: "(of_char c :: u32) = of_nat (byte c)"
  by (rule of_nat_of_char [symmetric])

lemma bit_nat_below: "w < 2 ^ k \<Longrightarrow> k \<le> n \<Longrightarrow> \<not> bit (w :: nat) n"
proof -
  assume "w < 2 ^ k" "k \<le> n"
  then have "w < 2 ^ n" by (meson le_trans not_le power_increasing one_le_numeral)
  then show ?thesis by (simp add: bit_iff_odd)
qed

lemma push_or_eq:
  fixes a :: u32
  assumes "w < 2 ^ k" "k < 32"
  shows "push_bit k a OR of_nat w = a * 2 ^ k + of_nat w"
proof -
  have "push_bit k a AND of_nat w = 0"
  proof (rule bit_eqI)
    fix n
    show "bit (push_bit k a AND of_nat w) n = bit (0 :: u32) n"
      using bit_nat_below [OF assms(1), of n] by (auto simp: bit_simps)
  qed
  then show ?thesis by (simp add: push_bit_eq_mult flip: disjunctive_add_eq_or)
qed

lemma unat_push_or:
  fixes a :: u32
  assumes "w < 2 ^ k" "k < 32"
  shows "unat (push_bit k a OR of_nat w) = (unat a * 2 ^ k + w) mod 2 ^ 32"
proof -
  have "push_bit k a OR of_nat w = of_nat (unat a * 2 ^ k + w)"
    using assms by (simp add: push_or_eq)
  then show ?thesis by (simp only: unat_of_nat take_bit_eq_mod len_num0 len_num1 len_bit0 len_num1) simp
qed

lemma unat_bits:
  fixes a :: u32
  assumes "unat a = x mod 2 ^ 32" "i + k \<le> 32"
  shows "unat (take_bit k (drop_bit i a)) = x div 2 ^ i mod 2 ^ k"
proof -
  have "unat a = take_bit 32 x" by (simp add: assms(1) take_bit_eq_mod)
  then have "unat (take_bit k (drop_bit i a)) = take_bit k (drop_bit i (take_bit 32 x))"
    by (simp add: unsigned_take_bit_eq unat_drop_bit_eq)
  also have "\<dots> = take_bit k (drop_bit i x)"
    using assms(2) by (simp add: drop_bit_take_bit)
  finally show ?thesis by (simp add: take_bit_eq_mod drop_bit_eq_div)
qed

lemma and_mask_6: "(a :: u32) AND 0x3f = take_bit 6 a"
  by (simp add: take_bit_eq_mask mask_eq_exp_minus_1)

lemma and_mask_8: "(a :: u32) AND 0xff = take_bit 8 a"
  by (simp add: take_bit_eq_mask mask_eq_exp_minus_1)

text \<open>
  \<open>acc_is a x\<close>: the accumulator holds the number \<open>x\<close>, less what was shifted out.
\<close>

definition acc_is :: "u32 \<Rightarrow> nat \<Rightarrow> bool" where
  "acc_is a x \<longleftrightarrow> unat a = x mod 2 ^ 32"

lemma acc_is_unat [simp]: "acc_is a (unat a)"
  using unsigned_less [of a, where ?'a = nat] by (simp add: acc_is_def)

lemma acc_is_push:
  assumes "acc_is a x" "w < 2 ^ k" "k < 32"
  shows "acc_is (push_bit k a OR of_nat w) (x * 2 ^ k + w)"
proof -
  have "(unat a * 2 ^ k + w) mod 2 ^ 32 = (x * 2 ^ k + w) mod 2 ^ 32"
    using assms(1) unfolding acc_is_def by (metis mod_add_cong mod_mult_left_eq)
  then show ?thesis unfolding acc_is_def using unat_push_or [OF assms(2,3)] by simp
qed

lemma acc_is_sextet: "acc_is a x \<Longrightarrow> i \<le> 26 \<Longrightarrow> unat (drop_bit i a AND 0x3f) = x div 2 ^ i mod 64"
  unfolding acc_is_def and_mask_6 by (simp add: unat_bits [where k = 6, simplified])

lemma acc_is_octet: "acc_is a x \<Longrightarrow> i \<le> 24 \<Longrightarrow> unat (drop_bit i a AND 0xff) = x div 2 ^ i mod 256"
  unfolding acc_is_def and_mask_8 by (simp add: unat_bits [where k = 8, simplified])

lemma acc_is_char:
  "acc_is a x \<Longrightarrow> acc_is (push_bit 8 a OR of_char c) (x * 256 + byte c)"
  using acc_is_push [of a x "byte c" 8] by (simp add: u32_of_char)

section \<open>Base64 in groups of three bytes\<close>

text \<open>The encoding as RFC 4648 defines it: three bytes are four digits, the rest is padded.\<close>

abbreviation b64 :: "nat \<Rightarrow> char" where
  "b64 n \<equiv> b64_table ! n"

fun rfc4648 :: "string \<Rightarrow> string" where
  "rfc4648 [] = []"
| "rfc4648 [a] = [b64 (byte a div 4), b64 (byte a mod 4 * 16), CHR ''='', CHR ''='']"
| "rfc4648 [a, b] =
     [b64 (byte a div 4), b64 (byte a mod 4 * 16 + byte b div 16), b64 (byte b mod 16 * 4), CHR ''='']"
| "rfc4648 (a # b # c # s) =
     [b64 (byte a div 4), b64 (byte a mod 4 * 16 + byte b div 16),
      b64 (byte b mod 16 * 4 + byte c div 64), b64 (byte c mod 64)] @ rfc4648 s"

lemma emit_one:
  assumes "acc_is a x" "b < 6" "k = b + 6" "x div 2 ^ b mod 64 = n"
  shows "encode_emit a k r p = (b, r[p := b64 n], p + 1)"
  using assms by (subst encode_emit.simps, subst encode_emit.simps) (simp add: acc_is_sextet)

lemma emit_two:
  assumes "acc_is a x" "x div 64 mod 64 = n" "x mod 64 = m"
  shows "encode_emit a 12 r p = (0, r[p := b64 n, p + 1 := b64 m], p + 2)"
  using assms acc_is_sextet [of a x 0]
  by (subst encode_emit.simps, subst encode_emit.simps, subst encode_emit.simps) (simp add: acc_is_sextet)

lemma digit_at:
  assumes "(N :: nat) = d * (b * K + m) + u" "u < d" "m < b"
  shows "N div d mod b = m"
proof -
  have "N div d = b * K + m" using assms(1,2) by simp
  then show ?thesis using assms(3) by simp
qed

lemma sextet_arith:
  assumes "A < 256" "B < 256" "C < 256"
  shows "(x * 256 + A) div 4 mod 64 = A div (4 :: nat)"
    and "((x * 256 + A) * 256 + B) div 16 mod 64 = A mod 4 * 16 + B div (16 :: nat)"
    and "(((x * 256 + A) * 256 + B) * 256 + C) div 64 mod 64 = B mod 16 * 4 + C div (64 :: nat)"
    and "(((x * 256 + A) * 256 + B) * 256 + C) mod 64 = C mod (64 :: nat)"
proof -
  obtain a b c where q: "a = A div 4" "b = B div 16" "c = C div 64" by blast
  obtain a' b' c' where r: "a' = A mod 4" "b' = B mod 16" "c' = C mod 64" by blast
  have eq: "A = 4 * a + a'" "B = 16 * b + b'" "C = 64 * c + c'" by (simp_all add: q r)
  have lt: "a' < 4" "b' < 16" "c' < 64" "a < 64" "b < 16" "c < 4"
    using assms by (simp_all add: q r less_mult_imp_div_less)
  show "(x * 256 + A) div 4 mod 64 = A div (4 :: nat)"
    unfolding q [symmetric] by (rule digit_at [of _ _ _ x _ a']) (use eq lt in simp_all)
  show "((x * 256 + A) * 256 + B) div 16 mod 64 = A mod 4 * 16 + B div (16 :: nat)"
    unfolding q [symmetric] r [symmetric]
    by (rule digit_at [of _ _ _ "x * 64 + a" _ b']) (use eq lt in simp_all)
  show "(((x * 256 + A) * 256 + B) * 256 + C) div 64 mod 64 = B mod 16 * 4 + C div (64 :: nat)"
    unfolding q [symmetric] r [symmetric]
    by (rule digit_at [of _ _ _ "(x * 256 + A) * 16 + b" _ c']) (use eq lt in simp_all)
  have "((x * 256 + A) * 256 + B) * 256 + C = C + ((x * 256 + A) * 256 + B) * 4 * 64" by simp
  then show "(((x * 256 + A) * 256 + B) * 256 + C) mod 64 = C mod (64 :: nat)"
    by (metis mod_mult_self1)
qed

lemmas byte_sextets = sextet_arith [OF nat_of_char_less_256 nat_of_char_less_256 nat_of_char_less_256]

lemma emit_char1:
  "encode_emit (push_bit 8 acc OR of_char a) 8 r p = (2, r[p := b64 (byte a div 4)], p + 1)"
  by (rule emit_one, rule acc_is_char, rule acc_is_unat) (simp_all add: byte_sextets)

lemma emit_char2:
  "encode_emit (push_bit 8 (push_bit 8 acc OR of_char a) OR of_char b) 10 r p =
     (4, r[p := b64 (byte a mod 4 * 16 + byte b div 16)], p + 1)"
  by (rule emit_one, (rule acc_is_char)+, rule acc_is_unat)
    (use byte_sextets(2) [of "unat acc" a b] in simp_all)

lemma emit_char3:
  "encode_emit (push_bit 8 (push_bit 8 (push_bit 8 acc OR of_char a) OR of_char b) OR of_char c) 12 r p =
     (0, r[p := b64 (byte b mod 16 * 4 + byte c div 64), p + 1 := b64 (byte c mod 64)], p + 2)"
  by (rule emit_two, (rule acc_is_char)+, rule acc_is_unat)
    (use byte_sextets(3,4) [of "unat acc" a b c] in simp_all)

definition encode_final :: "u32 \<times> nat \<times> string \<times> nat \<Rightarrow> string" where
  "encode_final = (\<lambda>(accumulator, bits_collected, retval, outpos).
     if bits_collected > 0
     then retval[outpos := b64_table ! unat (push_bit (6 - bits_collected) accumulator AND 0x3f)]
     else retval)"

lemma encode_three:
  "\<exists>acc'. encode_loop (a # b # c # s) acc 0 r p =
     encode_loop s acc' 0
       (r[p := b64 (byte a div 4), p + 1 := b64 (byte a mod 4 * 16 + byte b div 16),
          p + 2 := b64 (byte b mod 16 * 4 + byte c div 64), p + 3 := b64 (byte c mod 64)]) (p + 4)"
  by (intro exI)
    (simp only: encode_loop.simps Let_def prod.case emit_char1 emit_char2 emit_char3 add.assoc
      add_0 arith_simps one_add_one numeral_One [symmetric])

lemma push_and_3f:
  fixes a :: u32
  assumes "acc_is a x" "k \<le> 6" "(x * 2 ^ k) mod 64 = n"
  shows "unat (push_bit k a AND 0x3f) = n"
proof -
  have "acc_is (push_bit k a) (x * 2 ^ k)"
    using acc_is_push [OF assms(1), of 0 k] assms(2) by simp
  then show ?thesis using acc_is_sextet [of "push_bit k a" "x * 2 ^ k" 0] assms(3) by simp
qed

lemma pad_four [simp]: "replicate 4 x = [x, x, x, x]"
  by (simp add: numeral_eq_Suc)

lemma pad_group: "replicate ((Suc (Suc (Suc n)) + 2) div 3 * 4) x = [x, x, x, x] @ replicate ((n + 2) div 3 * 4) x"
proof -
  have "(Suc (Suc (Suc n)) + 2) div 3 = ((n + 2) + 3) div 3" by simp
  also have "\<dots> = (n + 2) div 3 + 1" by (rule div_add_self2) simp
  finally have "(Suc (Suc (Suc n)) + 2) div 3 * 4 = Suc (Suc (Suc (Suc ((n + 2) div 3 * 4))))" by simp
  then show ?thesis by (simp only: replicate_Suc append.simps)
qed

lemma shifted_digit:
  "(x * 256 + y) * 16 mod 64 = y mod 4 * (16 :: nat)" "(x * 256 + y) * 4 mod 64 = y mod 16 * (4 :: nat)"
proof -
  have "(x * 256 + y) mod 4 = y mod 4" "(x * 256 + y) mod 16 = y mod 16"
    using mod_mult_self1 [of y "x * 64" 4] mod_mult_self1 [of y "x * 16" 16] by (simp_all add: ac_simps)
  then show "(x * 256 + y) * 16 mod 64 = y mod 4 * 16" "(x * 256 + y) * 4 mod 64 = y mod 16 * 4"
    using mod_mult_mult2 [of "x * 256 + y" 16 4] mod_mult_mult2 [of "x * 256 + y" 4 16] by simp_all
qed

lemma final_one:
  "encode_final (encode_loop [a] acc 0 (pre @ replicate 4 (CHR ''='')) (length pre)) = pre @ rfc4648 [a]"
proof -
  have acc: "acc_is (push_bit 8 acc OR of_char a) (unat acc * 256 + byte a)"
    by (intro acc_is_char acc_is_unat)
  have d: "unat (push_bit 4 (push_bit 8 acc OR of_char a) AND 0x3f) = byte a mod 4 * 16"
    by (rule push_and_3f [OF acc]) (use shifted_digit(1) [of "unat acc" "byte a"] in simp_all)
  have "encode_loop [a] acc 0 r p =
      (push_bit 8 acc OR of_char a, 2, r[p := b64 (byte a div 4)], p + 1)" for r p
    by (simp only: encode_loop.simps Let_def prod.case emit_char1 add_0)
  moreover have "encode_final (acc', 2, r, p) = r[p := b64 (unat (push_bit 4 acc' AND 0x3f))]" for acc' r p
    by (simp add: encode_final_def)
  ultimately show ?thesis by (simp only: d) (simp add: list_update_append)
qed

lemma final_two:
  "encode_final (encode_loop [a, b] acc 0 (pre @ replicate 4 (CHR ''='')) (length pre)) = pre @ rfc4648 [a, b]"
proof -
  let ?acc = "push_bit 8 (push_bit 8 acc OR of_char a) OR of_char b"
  have acc: "acc_is ?acc ((unat acc * 256 + byte a) * 256 + byte b)"
    by (intro acc_is_char acc_is_unat)
  have d: "unat (push_bit 2 ?acc AND 0x3f) = byte b mod 16 * 4"
    by (rule push_and_3f [OF acc]) (use shifted_digit(2) [of "unat acc * 256 + byte a" "byte b"] in simp_all)
  have "encode_loop [a, b] acc 0 r p =
      (?acc, 4, r[p := b64 (byte a div 4), p + 1 := b64 (byte a mod 4 * 16 + byte b div 16)], p + 1 + 1)" for r p
    by (simp only: encode_loop.simps Let_def prod.case emit_char1 emit_char2 add_0 arith_simps)
  moreover have "encode_final (acc', 4, r, p) = r[p := b64 (unat (push_bit 2 acc' AND 0x3f))]" for acc' r p
    by (simp add: encode_final_def)
  ultimately show ?thesis by (simp only: d) (simp add: list_update_append)
qed

lemma write_group:
  "(pre @ [a, b, c, d] @ r)[length pre := w, length pre + 1 := x, length pre + 2 := y, length pre + 3 := z] =
     (pre @ [w, x, y, z]) @ r"
  by (simp add: list_update_append numeral_eq_Suc)

lemma encode_loop_rfc4648:
  "encode_final (encode_loop s acc 0 (pre @ replicate ((length s + 2) div 3 * 4) (CHR ''='')) (length pre))
     = pre @ rfc4648 s"
proof (induction s arbitrary: acc pre rule: rfc4648.induct)
  case 1
  show ?case by (simp add: encode_final_def)
next
  case (2 a)
  have "(length [a] + 2) div 3 * 4 = 4" by simp
  then show ?case using final_one [of a acc pre] by metis
next
  case (3 a b)
  have "(length [a, b] + 2) div 3 * 4 = 4" by simp
  then show ?case using final_two [of a b acc pre] by metis
next
  case (4 a b c s)
  let ?g = "[b64 (byte a div 4), b64 (byte a mod 4 * 16 + byte b div 16),
    b64 (byte b mod 16 * 4 + byte c div 64), b64 (byte c mod 64)]"
  let ?r = "replicate ((length s + 2) div 3 * 4) (CHR ''='')"
  obtain acc' where step: "encode_loop (a # b # c # s) acc 0
      (pre @ replicate ((length (a # b # c # s) + 2) div 3 * 4) (CHR ''='')) (length pre) =
      encode_loop s acc' 0 ((pre @ ?g) @ ?r) (length (pre @ ?g))"
  proof -
    have pads: "replicate ((length (a # b # c # s) + 2) div 3 * 4) (CHR ''='') =
        [CHR ''='', CHR ''='', CHR ''='', CHR ''=''] @ ?r"
      by (simp only: list.size add_0_right add_Suc_right pad_group)
    have len: "length (pre @ ?g) = length pre + 4" by simp
    show ?thesis
      using encode_three [of a b c s acc "pre @ [CHR ''='', CHR ''='', CHR ''='', CHR ''=''] @ ?r" "length pre"]
      by (elim exE) (rule that, simp only: pads len write_group)
  qed
  show ?case unfolding step using 4 [of acc' "pre @ ?g"] by simp
qed

section \<open>Decoding\<close>

definition b64_digit_ok :: "nat \<Rightarrow> bool" where
  "b64_digit_ok n \<longleftrightarrow> (let c = b64 n in byte c < 128 \<and> reverse_table ! byte c = n \<and>
     \<not> isspace c \<and> c \<noteq> CHR ''='')"

lemma b64_digits_ok: "list_all b64_digit_ok [0..<64]"
proof -
  have "[0..<64] = 0 # Suc 0 # [2..<64]" by (simp add: upt_conv_Cons numeral_2_eq_2)
  then show ?thesis by (simp add: b64_digit_ok_def b64_table_def reverse_table_def isspace_def)
qed

lemma decode_digit:
  assumes "i < 64"
  shows "decode_loop (b64 i # cs) acc bits r =
    (let acc = push_bit 6 acc OR of_nat i
     in if bits + 6 \<ge> 8
        then decode_loop cs acc (bits + 6 - 8) (r @ [char_of (unat (drop_bit (bits + 6 - 8) acc AND 0xff))])
        else decode_loop cs acc (bits + 6) r)"
proof -
  have "byte (b64 i) < 128" "reverse_table ! byte (b64 i) = i" "\<not> isspace (b64 i)" "b64 i \<noteq> CHR ''=''"
    using b64_digits_ok assms(1) by (auto simp: list_all_iff b64_digit_ok_def Let_def)
  moreover from this have "schar (b64 i) = int (byte (b64 i))" by (simp add: schar_def)
  ultimately show ?thesis
    using assms by (simp add: Let_def del: nat_of_char_less_256)
qed

lemma decode_keep:
  "i < 64 \<Longrightarrow> bits < 2 \<Longrightarrow>
   decode_loop (b64 i # cs) acc bits r = decode_loop cs (push_bit 6 acc OR of_nat i) (bits + 6) r"
  unfolding decode_digit Let_def by simp

lemma decode_emit:
  assumes "i < 64" "acc_is acc x" "bits = k + 2" "k \<le> 24" "(x * 64 + i) div 2 ^ k mod 256 = y"
  shows "decode_loop (b64 i # cs) acc bits r =
    decode_loop cs (push_bit 6 acc OR of_nat i) k (r @ [char_of y])"
proof -
  have "acc_is (push_bit 6 acc OR of_nat i) (x * 64 + i)"
    using acc_is_push [OF assms(2), of i 6] assms(1) by simp
  from acc_is_octet [OF this assms(4)] show ?thesis
    unfolding decode_digit [OF assms(1)] Let_def assms(3,5) by simp
qed

lemma acc_is_digit: "acc_is a x \<Longrightarrow> i < 64 \<Longrightarrow> acc_is (push_bit 6 a OR of_nat i) (x * 64 + i)"
  using acc_is_push [of a x i 6] by simp

lemma sextet_bounds:
  assumes "A < 256" "B < 256" "C < (256 :: nat)"
  shows "A div 4 < 64" "A mod 4 * 16 + B div 16 < 64" "B mod 16 * 4 + C div 64 < 64" "C mod 64 < 64"
    "A mod 4 * 16 < 64" "B mod 16 * 4 < 64"
proof -
  have sum: "a < 4 \<Longrightarrow> b < 16 \<Longrightarrow> a * 16 + b < 64" "b < 16 \<Longrightarrow> a < 4 \<Longrightarrow> b * 4 + a < 64" for a b :: nat
    by simp_all
  show "A div 4 < 64" "C mod 64 < 64" "A mod 4 * 16 < 64" "B mod 16 * 4 < 64"
    using assms sum(1) [of "A mod 4" 0] sum(2) [of "B mod 16" 0] by (simp_all add: less_mult_imp_div_less)
  show "A mod 4 * 16 + B div 16 < 64" "B mod 16 * 4 + C div 64 < 64"
    using assms by (auto intro!: sum simp: less_mult_imp_div_less)
qed

lemma octet_arith:
  fixes A B C x :: nat
  assumes "A < 256" "B < 256" "C < 256"
  defines "x1 \<equiv> (x * 64 + A div 4) * 64 + (A mod 4 * 16 + B div 16)"
  defines "x2 \<equiv> x1 * 64 + (B mod 16 * 4 + C div 64)"
  shows "x1 div 16 mod 256 = A" "x2 div 4 mod 256 = B" "(x2 * 64 + C mod 64) mod 256 = C"
    and "((x * 64 + A div 4) * 64 + A mod 4 * 16) div 16 mod 256 = A"
    and "(x1 * 64 + B mod 16 * 4) div 4 mod 256 = B"
proof -
  obtain a b c where q: "a = A div 4" "b = B div 16" "c = C div 64" by blast
  obtain a' b' c' where r: "a' = A mod 4" "b' = B mod 16" "c' = C mod 64" by blast
  have eq: "A = 4 * a + a'" "B = 16 * b + b'" "C = 64 * c + c'" by (simp_all add: q r)
  have lt: "a' < 4" "b' < 16" "c' < 64" "a < 64" "b < 16" "c < 4"
    using assms by (simp_all add: q r less_mult_imp_div_less)
  have x1: "x1 = 16 * (256 * x + A) + b" unfolding x1_def q [symmetric] r [symmetric] using eq by simp
  have x2: "x2 = 4 * (256 * (256 * x + A) + B) + c"
    unfolding x2_def x1 q [symmetric] r [symmetric] using eq by simp
  show "x1 div 16 mod 256 = A" by (rule digit_at [OF x1]) (use lt assms in simp_all)
  show "x2 div 4 mod 256 = B" by (rule digit_at [OF x2]) (use lt assms in simp_all)
  have "x2 * 64 + C mod 64 = 1 * (256 * (256 * (256 * x + A) + B) + C) + 0"
    unfolding x2 r [symmetric] using eq by simp
  from digit_at [OF this] show "(x2 * 64 + C mod 64) mod 256 = C" using assms by simp
  show "((x * 64 + A div 4) * 64 + A mod 4 * 16) div 16 mod 256 = A"
    by (rule digit_at [of _ _ _ x _ 0]) (use eq lt assms in \<open>simp_all add: q [symmetric] r [symmetric]\<close>)
  show "(x1 * 64 + B mod 16 * 4) div 4 mod 256 = B"
    by (rule digit_at [of _ _ _ "256 * x + A" _ 0])
      (use eq lt assms in \<open>simp_all add: q [symmetric] r [symmetric] x1\<close>)
qed

lemma decode_digits2:
  assumes "i < 64" "j < 64" "((unat acc * 64 + i) * 64 + j) div 16 mod 256 = y"
  obtains acc' where "acc_is acc' ((unat acc * 64 + i) * 64 + j)"
    "\<And>cs r. decode_loop (b64 i # b64 j # cs) acc 0 r = decode_loop cs acc' 4 (r @ [char_of y])"
proof -
  have a1: "acc_is (push_bit 6 acc OR of_nat i) (unat acc * 64 + i)"
    by (rule acc_is_digit [OF acc_is_unat assms(1)])
  have "decode_loop (b64 i # b64 j # cs) acc 0 r =
      decode_loop (b64 j # cs) (push_bit 6 acc OR of_nat i) 6 r" for cs r
    by (subst decode_keep [OF assms(1)]) simp_all
  moreover have "decode_loop (b64 j # cs) (push_bit 6 acc OR of_nat i) 6 r =
      decode_loop cs (push_bit 6 (push_bit 6 acc OR of_nat i) OR of_nat j) 4 (r @ [char_of y])" for cs r
    by (rule decode_emit [OF assms(2) a1]) (use assms(3) in simp_all)
  ultimately show ?thesis by (intro that [OF acc_is_digit [OF a1 assms(2)]]) simp
qed

lemma decode_digits3:
  assumes "acc_is acc x" "k < 64" "(x * 64 + k) div 4 mod 256 = y"
  shows "decode_loop (b64 k # cs) acc 4 r = decode_loop cs (push_bit 6 acc OR of_nat k) 2 (r @ [char_of y])"
  by (rule decode_emit [OF assms(2,1)]) (use assms(3) in simp_all)

lemma decode_digits4:
  assumes "acc_is acc x" "l < 64" "(x * 64 + l) mod 256 = y"
  shows "decode_loop (b64 l # cs) acc 2 r = decode_loop cs (push_bit 6 acc OR of_nat l) 0 (r @ [char_of y])"
  by (rule decode_emit [OF assms(2,1)]) (use assms(3) in simp_all)

lemma decode_rfc4648: "decode_loop (rfc4648 s) acc 0 r = Inr (r @ s)"
proof (induction s arbitrary: acc r rule: rfc4648.induct)
  case (2 a)
  note o = octet_arith(4) [OF nat_of_char_less_256 nat_of_char_less_256 nat_of_char_less_256, of "unat acc" a]
  note b = sextet_bounds [OF nat_of_char_less_256 [of a] nat_of_char_less_256 nat_of_char_less_256]
  show ?case by (rule decode_digits2 [OF b(1,5) o]) (simp add: isspace_def)
next
  case (3 a b)
  let ?A = "byte a" and ?B = "byte b"
  note o = octet_arith [OF nat_of_char_less_256 [of a] nat_of_char_less_256 [of b] nat_of_char_less_256, of "unat acc"]
  note lt = sextet_bounds [OF nat_of_char_less_256 [of a] nat_of_char_less_256 [of b] nat_of_char_less_256]
  obtain acc1 where 1: "acc_is acc1 ((unat acc * 64 + ?A div 4) * 64 + (?A mod 4 * 16 + ?B div 16))"
    "\<And>cs r. decode_loop (b64 (?A div 4) # b64 (?A mod 4 * 16 + ?B div 16) # cs) acc 0 r =
       decode_loop cs acc1 4 (r @ [a])"
    by (rule decode_digits2 [OF lt(1,2) o(1)]) simp
  show ?case
    unfolding rfc4648.simps 1(2) decode_digits3 [OF 1(1) lt(6) o(5)] by (simp add: isspace_def)
next
  case (4 a b c s)
  let ?A = "byte a" and ?B = "byte b" and ?C = "byte c"
  note o = octet_arith [OF nat_of_char_less_256 [of a] nat_of_char_less_256 [of b] nat_of_char_less_256 [of c],
      of "unat acc"]
  note lt = sextet_bounds [OF nat_of_char_less_256 [of a] nat_of_char_less_256 [of b] nat_of_char_less_256 [of c]]
  obtain acc1 where 1: "acc_is acc1 ((unat acc * 64 + ?A div 4) * 64 + (?A mod 4 * 16 + ?B div 16))"
    "\<And>cs r. decode_loop (b64 (?A div 4) # b64 (?A mod 4 * 16 + ?B div 16) # cs) acc 0 r =
       decode_loop cs acc1 4 (r @ [a])"
    by (rule decode_digits2 [OF lt(1,2) o(1)]) simp
  have acc2: "acc_is (push_bit 6 acc1 OR of_nat (?B mod 16 * 4 + ?C div 64))
      (((unat acc * 64 + ?A div 4) * 64 + (?A mod 4 * 16 + ?B div 16)) * 64 + (?B mod 16 * 4 + ?C div 64))"
    by (rule acc_is_digit [OF 1(1) lt(3)])
  show ?case
    unfolding rfc4648.simps append.simps 1(2) decode_digits3 [OF 1(1) lt(3) o(2)]
      decode_digits4 [OF acc2 lt(4) o(3)] 4 by simp
qed simp

lemma base64_encode_eq:
  "length s \<le> (2 ^ 64 - 1) div 4 * 3 \<Longrightarrow> base64_encode s = Inr (rfc4648 s)"
  using encode_loop_rfc4648 [of s 0 "[]"]
  by (cases "encode_loop s 0 0 (replicate ((length s + 2) div 3 * 4) (CHR ''='')) 0")
    (simp add: base64_encode_def encode_final_def)

section \<open>Properties\<close>

text \<open>
  C37. The bit-accumulator loop of the base64 encoder computes the encoding RFC 4648 defines, for
  every input the length check admits, although the 32-bit accumulator overflows; a longer input
  is refused with \<^verbatim>\<open>std::length_error\<close>.
\<close>

theorem base64_encode_correct:
  "base64_encode s =
     (if length s > (2 ^ 64 - 1) div 4 * 3
      then Inl (LengthError ''Converting too large a string to base64.'')
      else Inr (rfc4648 s))"
proof (cases "length s > (2 ^ 64 - 1) div 4 * 3")
  case False
  then show ?thesis using base64_encode_eq [of s] by simp
qed (simp add: base64_encode_def)

text \<open>
  Decoding inverts encoding: what the encoder returns is decoded without error to the input.
\<close>

theorem base64_roundtrip:
  assumes "base64_encode s = Inr e"
  shows "base64_decode e = Inr s"
proof -
  have "e = rfc4648 s"
    using assms base64_encode_eq [of s] by (auto simp: base64_encode_def not_less split: if_splits)
  then show ?thesis by (simp add: base64_decode_def decode_rfc4648)
qed

theorem base64_roundtrip_witness: "base64_decode ''QWxhZGRpbjpvcGVu'' = Inr ''Aladdin:open''"
proof -
  have "base64_encode ''Aladdin:open'' = Inr ''QWxhZGRpbjpvcGVu''"
    by (subst base64_encode_eq) (simp_all add: b64_table_def)
  then show ?thesis by (rule base64_roundtrip)
qed

end
