(* ===== verification/Dates.thy ===== *)
theory Dates
  imports StringUtils
begin

text \<open>
  Numbers as text (\<^verbatim>\<open>std::to_string\<close>, \<^verbatim>\<open>std::stoi\<close>) and dates as text (\<^verbatim>\<open>HttpDateUtils\<close> of
  \<^verbatim>\<open>library/util.cpp\<close>), with the calendar function \<^verbatim>\<open>gmtime_r\<close> and the conversions of \<^verbatim>\<open>strftime\<close> the
  code uses.
\<close>

section \<open>Numbers\<close>

fun show_nat :: "nat \<Rightarrow> string" where
  "show_nat n = (if n < 10 then [char_of (48 + n)] else show_nat (n div 10) @ [char_of (48 + n mod 10)])"

declare show_nat.simps [simp del]

definition show_int :: "int \<Rightarrow> string" where
  "show_int z = (if z < 0 then CHR ''-'' # show_nat (nat (- z)) else show_nat (nat z))"

fun digits_value :: "string \<Rightarrow> int \<Rightarrow> int" where
  "digits_value [] acc = acc"
| "digits_value (c # s) acc = (if isdigit c then digits_value s (acc * 10 + (int (byte c) - 48)) else acc)"

text \<open>
  \<^verbatim>\<open>std::stoi\<close>: leading white space and a sign are skipped, the digits that follow are the number,
  and the rest is ignored. No digit is \<^verbatim>\<open>std::invalid_argument\<close>, a number that is no \<^verbatim>\<open>int\<close> is
  \<^verbatim>\<open>std::out_of_range\<close>.
\<close>

definition stoi :: "string \<Rightarrow> int result" where
  "stoi s =
     (let t = dropWhile isspace s;
          (neg, u) = (case t of c # r \<Rightarrow> if c = CHR ''-'' then (True, r)
                                     else if c = CHR ''+'' then (False, r) else (False, t)
                      | [] \<Rightarrow> (False, t))
      in case u of
           [] \<Rightarrow> Inl (InvalidArgument ''stoi'')
         | c # _ \<Rightarrow>
             if \<not> isdigit c then Inl (InvalidArgument ''stoi'')
             else
               let v = (if neg then - digits_value u 0 else digits_value u 0)
               in if v < - (2 ^ 31) \<or> v \<ge> 2 ^ 31 then Inl (OutOfRange ''stoi'') else Inr v)"

section \<open>Calendar\<close>

record tm =
  tm_sec :: int
  tm_min :: int
  tm_hour :: int
  tm_mday :: int
  tm_mon :: int
  tm_year :: int
  tm_wday :: int

text \<open>
  The date of a day counted from 1970-01-01 in the proleptic Gregorian calendar: eras of 400 years
  that begin on the first of March.
\<close>

definition civil_from_days :: "int \<Rightarrow> int \<times> int \<times> int" where
  "civil_from_days days =
     (let z = days + 719468;
          era = z div 146097;
          doe = z mod 146097;
          yoe = (doe - doe div 1460 + doe div 36524 - doe div 146096) div 365;
          doy = doe - (365 * yoe + yoe div 4 - yoe div 100);
          mp = (5 * doy + 2) div 153;
          d = doy - (153 * mp + 2) div 5 + 1;
          m = (if mp < 10 then mp + 3 else mp - 9);
          y = yoe + era * 400 + (if m \<le> 2 then 1 else 0)
      in (y, m, d))"

text \<open>\<^verbatim>\<open>gmtime_r\<close> fails when the year does not fit into an \<^verbatim>\<open>int\<close>.\<close>

definition gmtime :: "int \<Rightarrow> tm option" where
  "gmtime t =
     (let days = t div 86400; rest = t mod 86400; (y, m, d) = civil_from_days days
      in if y - 1900 < - (2 ^ 31) \<or> y - 1900 \<ge> 2 ^ 31 then None
         else Some \<lparr>tm_sec = rest mod 60, tm_min = rest div 60 mod 60, tm_hour = rest div 3600,
                    tm_mday = d, tm_mon = m - 1, tm_year = y - 1900, tm_wday = (days + 4) mod 7\<rparr>)"

definition day_names :: "string list" where
  "day_names = [''Sun'', ''Mon'', ''Tue'', ''Wed'', ''Thu'', ''Fri'', ''Sat'']"

definition month_names :: "string list" where
  "month_names = [''Jan'', ''Feb'', ''Mar'', ''Apr'', ''May'', ''Jun'', ''Jul'', ''Aug'', ''Sep'',
     ''Oct'', ''Nov'', ''Dec'']"

definition pad2 :: "int \<Rightarrow> string" where
  "pad2 n = (if n < 10 then CHR ''0'' # show_int n else show_int n)"

text \<open>\<^verbatim>\<open>HttpDateUtils::format\<close>: \<^verbatim>\<open>strftime\<close> with the format \<^verbatim>\<open>%a, %d %b %Y %T GMT\<close>.\<close>

definition format_date :: "int \<Rightarrow> string result" where
  "format_date t =
     (case gmtime t of
        None \<Rightarrow> Inl (RuntimeError ''failed to format date'')
      | Some ts \<Rightarrow>
          Inr (day_names ! nat (tm_wday ts) @ '', '' @ pad2 (tm_mday ts) @ '' '' @
            month_names ! nat (tm_mon ts) @ '' '' @ show_int (tm_year ts + 1900) @ '' '' @
            pad2 (tm_hour ts) @ '':'' @ pad2 (tm_min ts) @ '':'' @ pad2 (tm_sec ts) @ '' GMT''))"

section \<open>Reading a number back\<close>

lemma isdigit_digit: "n < 10 \<Longrightarrow> isdigit (char_of (48 + n)) \<and> int (byte (char_of (48 + n))) - 48 = int n"
  by (simp add: isdigit_def)

lemma show_nat_digits: "c \<in> set (show_nat n) \<Longrightarrow> isdigit c"
proof (induction n rule: show_nat.induct)
  case (1 n)
  then show ?case using isdigit_digit [of n] isdigit_digit [of "n mod 10"]
    by (cases "n < 10") (auto simp: show_nat.simps [of n])
qed

lemma digits_value_append:
  "\<forall>c \<in> set s. isdigit c \<Longrightarrow> digits_value (s @ t) acc = digits_value t (digits_value s acc)"
  by (induction s arbitrary: acc) auto

lemma digits_value_show: "digits_value (show_nat n) 0 = int n"
proof (induction n rule: show_nat.induct)
  case (1 n)
  show ?case
  proof (cases "n < 10")
    case True
    then show ?thesis using isdigit_digit [of n] by (subst show_nat.simps) simp
  next
    case False
    then have "digits_value (show_nat n) 0 = digits_value [char_of (48 + n mod 10)] (int (n div 10))"
      using 1 show_nat_digits by (subst show_nat.simps) (simp add: digits_value_append)
    also have "\<dots> = int (n div 10) * 10 + int (n mod 10)"
      using isdigit_digit [of "n mod 10"] by simp
    also have "\<dots> = int (n div 10 * 10 + n mod 10)" by (simp only: of_nat_add of_nat_mult of_nat_numeral)
    also have "n div 10 * 10 + n mod 10 = n" by simp
    finally show ?thesis .
  qed
qed

lemma show_nat_Cons: obtains c s where "show_nat n = c # s" "isdigit c"
proof -
  have "show_nat n \<noteq> []" by (subst show_nat.simps) simp
  then obtain c s where "show_nat n = c # s" by (cases "show_nat n") auto
  with that show_nat_digits [of c n] show ?thesis by simp
qed

lemma stoi_show_nat: "n < 2 ^ 31 \<Longrightarrow> stoi (show_nat n) = Inr (int n)"
proof -
  assume n: "n < 2 ^ 31"
  obtain c s where cs: "show_nat n = c # s" "isdigit c" by (rule show_nat_Cons)
  then have "\<not> isspace c" "c \<noteq> CHR ''-''" "c \<noteq> CHR ''+''" by (auto simp: isdigit_def isspace_def)
  moreover have "digits_value (c # s) 0 = int n" using digits_value_show [of n] cs(1) by simp
  ultimately show ?thesis using cs n by (simp add: stoi_def Let_def del: digits_value.simps)
qed

end
