(* ===== verification/HttpDates.thy ===== *)
theory HttpDates
  imports Dates
begin

text \<open>
  Reading dates (\<^verbatim>\<open>HttpDateUtils::parse\<close> of \<^verbatim>\<open>library/util.cpp\<close>): \<^verbatim>\<open>strptime\<close> with the conversions the formats of
  the code use, in the locale of C programs, and \<^verbatim>\<open>mktime\<close> for a time without daylight saving (the
  structure is cleared, so \<^verbatim>\<open>tm_isdst\<close> is zero) in a zone whose standard time is \<open>timezone\<close> seconds behind UTC.
\<close>

section \<open>Reading with a format\<close>

fun get_digits :: "nat \<Rightarrow> int \<Rightarrow> int \<Rightarrow> string \<Rightarrow> int \<times> string" where
  "get_digits 0 to v s = (v, s)"
| "get_digits (Suc n) to v [] = (v, [])"
| "get_digits (Suc n) to v (c # s) =
     (if v * 10 \<le> to \<and> isdigit c then get_digits n to (v * 10 + (int (byte c) - 48)) s else (v, c # s))"

text \<open>A number of at most \<open>n\<close> digits in a range, after blanks.\<close>

definition get_number :: "int \<Rightarrow> int \<Rightarrow> nat \<Rightarrow> string \<Rightarrow> (int \<times> string) option" where
  "get_number from to n s =
     (case dropWhile (\<lambda>c. c = CHR '' '') s of
        [] \<Rightarrow> None
      | c # r \<Rightarrow>
          if isdigit c then
            let (v, r) = get_digits (n - 1) to (int (byte c) - 48) r
            in if from \<le> v \<and> v \<le> to then Some (v, r) else None
          else None)"

definition full_day_names :: "string list" where
  "full_day_names = [''Sunday'', ''Monday'', ''Tuesday'', ''Wednesday'', ''Thursday'', ''Friday'', ''Saturday'']"

definition full_month_names :: "string list" where
  "full_month_names = [''January'', ''February'', ''March'', ''April'', ''May'', ''June'', ''July'', ''August'', ''September'',
     ''October'', ''November'', ''December'']"

definition match_name :: "string \<Rightarrow> string \<Rightarrow> string option" where
  "match_name name s =
     (if length name \<le> length s \<and> map tolower (take (length name) s) = map tolower name then Some (drop (length name) s) else None)"

text \<open>The first entry whose full or short name the text begins with.\<close>

fun get_name :: "int \<Rightarrow> (string \<times> string) list \<Rightarrow> string \<Rightarrow> (int \<times> string) option" where
  "get_name i [] s = None"
| "get_name i ((full, ab) # names) s =
     (case match_name full s of
        Some r \<Rightarrow> Some (i, r)
      | None \<Rightarrow> (case match_name ab s of Some r \<Rightarrow> Some (i, r) | None \<Rightarrow> get_name (i + 1) names s))"

definition get_char :: "char \<Rightarrow> string \<Rightarrow> string option" where
  "get_char c s = (case s of x # r \<Rightarrow> if x = c then Some r else None | [] \<Rightarrow> None)"

definition get_time :: "string \<Rightarrow> tm \<Rightarrow> (string \<times> tm) option" where
  "get_time s ts =
     Option.bind (get_number 0 23 2 s) (\<lambda>(h, s).
     Option.bind (get_char CHR '':'' s) (\<lambda>s.
     Option.bind (get_number 0 59 2 s) (\<lambda>(m, s).
     Option.bind (get_char CHR '':'' s) (\<lambda>s.
     Option.bind (get_number 0 61 2 s) (\<lambda>(sec, s).
       Some (s, ts\<lparr>tm_hour := h, tm_min := m, tm_sec := sec\<rparr>))))))"

definition conversion :: "char \<Rightarrow> string \<Rightarrow> tm \<Rightarrow> (string \<times> tm) option" where
  "conversion x s ts =
     (if x = CHR ''a'' \<or> x = CHR ''A'' then
        map_option (\<lambda>(v, r). (r, ts\<lparr>tm_wday := v\<rparr>)) (get_name 0 (zip full_day_names day_names) s)
      else if x = CHR ''b'' then
        map_option (\<lambda>(v, r). (r, ts\<lparr>tm_mon := v\<rparr>)) (get_name 0 (zip full_month_names month_names) s)
      else if x = CHR ''d'' then map_option (\<lambda>(v, r). (r, ts\<lparr>tm_mday := v\<rparr>)) (get_number 1 31 2 s)
      else if x = CHR ''Y'' then map_option (\<lambda>(v, r). (r, ts\<lparr>tm_year := v - 1900\<rparr>)) (get_number 0 9999 4 s)
      else if x = CHR ''y'' then
        map_option (\<lambda>(v, r). (r, ts\<lparr>tm_year := (if v \<ge> 69 then v else v + 100)\<rparr>)) (get_number 0 99 2 s)
      else if x = CHR ''T'' then get_time s ts
      else None)"

text \<open>What was read before a mismatch stays in the structure, which the next format gets.\<close>

fun strptime :: "string \<Rightarrow> string \<Rightarrow> tm \<Rightarrow> bool \<times> tm" where
  "strptime [] s ts = (True, ts)"
| "strptime (c # fmt) s ts =
     (if isspace c then strptime fmt (dropWhile isspace s) ts
      else if c = CHR ''%'' then
        (case fmt of
           [] \<Rightarrow> (False, ts)
         | x # fmt' \<Rightarrow>
             (case conversion x s ts of Some (r, ts) \<Rightarrow> strptime fmt' r ts | None \<Rightarrow> (False, ts)))
      else (case get_char c s of Some r \<Rightarrow> strptime fmt r ts | None \<Rightarrow> (False, ts)))"

section \<open>Time from a date\<close>

definition days_from_civil :: "int \<Rightarrow> int \<Rightarrow> int \<Rightarrow> int" where
  "days_from_civil y m d =
     (let y = (if m \<le> 2 then y - 1 else y);
          era = y div 400;
          yoe = y mod 400;
          doy = (153 * (if m > 2 then m - 3 else m + 9) + 2) div 5 + d - 1;
          doe = yoe * 365 + yoe div 4 - yoe div 100 + doy
      in era * 146097 + doe - 719468)"

definition mktime :: "int \<Rightarrow> tm \<Rightarrow> int" where
  "mktime timezone ts =
     days_from_civil (tm_year ts + 1900) (tm_mon ts + 1) (tm_mday ts) * 86400 +
     tm_hour ts * 3600 + tm_min ts * 60 + tm_sec ts + timezone"

definition tm_cleared :: tm where
  "tm_cleared = \<lparr>tm_sec = 0, tm_min = 0, tm_hour = 0, tm_mday = 0, tm_mon = 0, tm_year = 0, tm_wday = 0\<rparr>"

definition date_formats :: "string list" where
  "date_formats = [''%a, %d %b %Y %T GMT'', ''%A, %d-%b-%y %T GMT'', ''%a %b %d %T %Y'']"

fun parse_formats :: "string list \<Rightarrow> int \<Rightarrow> string \<Rightarrow> tm \<Rightarrow> int" where
  "parse_formats [] timezone v ts = 0"
| "parse_formats (f # fs) timezone v ts =
     (case strptime f v ts of
        (True, ts) \<Rightarrow> mktime timezone ts - timezone
      | (False, ts) \<Rightarrow> parse_formats fs timezone v ts)"

definition parse_date :: "int \<Rightarrow> string \<Rightarrow> int" where
  "parse_date timezone v =
     parse_formats date_formats timezone (c_str v) tm_cleared"

section \<open>Writing with a format\<close>

text \<open>
  \<^verbatim>\<open>formatDateTime\<close>: the seconds are turned into the nanoseconds of the system clock and back, which is undefined
  (\<^const>\<open>None\<close>) outside the range of 64 bits. \<open>strftime\<close> is an argument, its text for a format and a date; it counts as failed
  when the text is empty or does not fit into the buffer. A date that \<^verbatim>\<open>gmtime_r\<close> refuses stays cleared.
\<close>

definition formatDateTime :: "(string \<Rightarrow> tm \<Rightarrow> string) \<Rightarrow> int \<Rightarrow> string \<Rightarrow> string result option" where
  "formatDateTime strftime seconds format =
     (if seconds * 10 ^ 9 < - (2 ^ 63) \<or> seconds * 10 ^ 9 \<ge> 2 ^ 63 then None
      else
        let tm_info = (case gmtime seconds of Some ts \<Rightarrow> ts | None \<Rightarrow> tm_cleared);
            buffer = strftime (c_str format) tm_info
        in if buffer \<noteq> [] \<and> length buffer < 512 then Some (Inr buffer)
           else Some (Inl (RuntimeError ''failed to format date'')))"

section \<open>The calendar\<close>

text \<open>The first day of a year of an era, and the year of a day as the calendar function computes it.\<close>

definition year_start :: "int \<Rightarrow> int" where
  "year_start y = 365 * y + y div 4 - y div 100"

definition year_of :: "int \<Rightarrow> int" where
  "year_of doe = (doe - doe div 1460 + doe div 36524 - doe div 146096) div 365"

definition year_check :: "int \<Rightarrow> bool" where
  "year_check y \<longleftrightarrow> year_of (year_start y) = y \<and>
     (let e = (if y = 399 then 146096 else year_start (y + 1) - 1) in year_of e = y \<and> e - year_start y \<le> 365 \<and> e \<le> 146096)"

lemma year_checks: "list_all year_check [0..399]"
  by code_simp

lemma year_checked: "0 \<le> y \<Longrightarrow> y \<le> 399 \<Longrightarrow> year_check y"
  using year_checks unfolding list_all_iff set_upto by simp

definition day_check :: "int \<Rightarrow> bool" where
  "day_check doy \<longleftrightarrow> (let d = doy - (153 * ((5 * doy + 2) div 153) + 2) div 5 + 1 in 1 \<le> d \<and> d \<le> 31)"

lemma day_checks: "list_all day_check [0..365]"
  by code_simp

lemma day_checked: "0 \<le> doy \<Longrightarrow> doy \<le> 365 \<Longrightarrow> day_check doy"
  using day_checks unfolding list_all_iff set_upto by simp

lemma year_of_mono_step:
  fixes d :: int
  assumes "0 \<le> d" "d < 146096"
  shows "d - d div 1460 + d div 36524 - d div 146096 \<le> (d + 1) - (d + 1) div 1460 + (d + 1) div 36524 - (d + 1) div 146096"
proof -
  have 0: "d div 146096 = 0" using assms by simp
  have 1: "(d + 1) div 1460 \<le> d div 1460 + 1" "d div 36524 \<le> (d + 1) div 36524" by linarith+
  show ?thesis
  proof (cases "d + 1 = 146096")
    case True
    then have "d = 146095" by simp
    then show ?thesis by simp
  next
    case False
    then have "(d + 1) div 146096 = 0" using assms by simp
    then show ?thesis using 0 1 by linarith
  qed
qed

lemma year_of_mono:
  fixes d e :: int
  assumes "0 \<le> d" "d \<le> e" "e \<le> 146096"
  shows "year_of d \<le> year_of e"
  using assms(2,3)
proof (induction e rule: int_ge_induct)
  case (step e)
  have "e - e div 1460 + e div 36524 - e div 146096 \<le> (e + 1) - (e + 1) div 1460 + (e + 1) div 36524 - (e + 1) div 146096"
    using step.hyps step.prems assms(1) by (intro year_of_mono_step) auto
  then have "year_of e \<le> year_of (e + 1)" unfolding year_of_def by (rule zdiv_mono1) simp
  with step show ?case by simp
qed simp

lemma year_exists:
  assumes "0 \<le> doe" "doe \<le> 146096"
  shows "\<exists>y. 0 \<le> y \<and> y \<le> 399 \<and> year_start y \<le> doe \<and> (if y = 399 then doe \<le> 146096 else doe < year_start (y + 1))"
proof -
  have first: "doe < year_start (int n) \<Longrightarrow> n \<le> 399 \<Longrightarrow> \<exists>y. 0 \<le> y \<and> y < int n \<and> year_start y \<le> doe \<and> doe < year_start (y + 1)" for n
  proof (induction n)
    case 0
    then show ?case using assms by (simp add: year_start_def)
  next
    case (Suc n)
    show ?case
    proof (cases "doe < year_start (int n)")
      case True
      with Suc show ?thesis by force
    next
      case False
      with Suc.prems show ?thesis by (intro exI [of _ "int n"]) (auto simp: add.commute)
    qed
  qed
  show ?thesis
  proof (cases "doe < year_start 399")
    case True
    with first [of 399] obtain y where "0 \<le> y" "y < 399" "year_start y \<le> doe" "doe < year_start (y + 1)" by auto
    then show ?thesis by (intro exI [of _ y]) simp
  next
    case False
    then show ?thesis using assms by (intro exI [of _ 399]) simp
  qed
qed

lemma year_of_range:
  assumes "0 \<le> doe" "doe \<le> 146096"
  shows "0 \<le> year_of doe \<and> year_of doe \<le> 399 \<and> 0 \<le> doe - year_start (year_of doe) \<and> doe - year_start (year_of doe) \<le> 365"
proof -
  obtain y where y: "0 \<le> y" "y \<le> 399" "year_start y \<le> doe" "if y = 399 then doe \<le> 146096 else doe < year_start (y + 1)"
    using year_exists [OF assms] by blast
  define e where "e = (if y = 399 then 146096 else year_start (y + 1) - 1)"
  have c: "year_of (year_start y) = y" "year_of e = y" "e - year_start y \<le> 365" and e: "e \<le> 146096"
    using year_checked [OF y(1,2)] by (auto simp: year_check_def e_def Let_def)
  have le: "doe \<le> e" using y(4) by (simp add: e_def split: if_splits)
  have "0 \<le> year_start y" using y(1) unfolding year_start_def by linarith
  then have "year_of doe = y"
    using year_of_mono [OF _ y(3), of ] year_of_mono [OF assms(1) le e] c le e assms by fastforce
  with y c le show ?thesis by simp
qed

lemma civil_from_days_parts:
  "civil_from_days z =
     (let doe = (z + 719468) mod 146097; doy = doe - year_start (year_of doe); mp = (5 * doy + 2) div 153;
          m = (if mp < 10 then mp + 3 else mp - 9)
      in (year_of doe + (z + 719468) div 146097 * 400 + (if m \<le> 2 then 1 else 0), m, doy - (153 * mp + 2) div 5 + 1))"
  by (simp only: civil_from_days_def year_of_def year_start_def Let_def)

lemma civil_ranges:
  assumes "civil_from_days z = (y, m, d)"
  shows "1 \<le> m \<and> m \<le> 12 \<and> 1 \<le> d \<and> d \<le> 31 \<and> days_from_civil y m d = z"
proof -
  define doe where "doe = (z + 719468) mod 146097"
  define era where "era = (z + 719468) div 146097"
  define doy where "doy = doe - year_start (year_of doe)"
  define mp where "mp = (5 * doy + 2) div 153"
  have doe: "0 \<le> doe" "doe \<le> 146096" unfolding doe_def by (simp_all add: pos_mod_bound [of 146097, simplified] zle_diff1_eq [symmetric])
  note r = year_of_range [OF doe]
  have mp: "0 \<le> mp" "mp \<le> 11" using r unfolding mp_def doy_def [symmetric] by linarith+
  have m: "m = (if mp < 10 then mp + 3 else mp - 9)" "d = doy - (153 * mp + 2) div 5 + 1"
      "y = year_of doe + era * 400 + (if m \<le> 2 then 1 else 0)"
    using assms unfolding civil_from_days_parts Let_def doe_def [symmetric] era_def [symmetric] doy_def [symmetric] mp_def [symmetric]
      prod.inject by blast+
  have d: "1 \<le> d" "d \<le> 31" using day_checked [of doy] r unfolding m(2) mp_def doy_def [symmetric] by (simp_all add: day_check_def Let_def)
  have y: "(if m \<le> 2 then y - 1 else y) = era * 400 + year_of doe" "(if m > 2 then m - 3 else m + 9) = mp"
    using mp m by (auto split: if_splits)
  have "(era * 400 + year_of doe) div 400 = era" "(era * 400 + year_of doe) mod 400 = year_of doe" using r by simp_all
  then have "days_from_civil y m d = era * 146097 + (year_of doe * 365 + year_of doe div 4 - year_of doe div 100 + ((153 * mp + 2) div 5 + d - 1)) - 719468"
    unfolding days_from_civil_def Let_def y by simp
  also have "\<dots> = era * 146097 + doe - 719468" unfolding m(2) doy_def year_start_def by simp
  also have "\<dots> = z" unfolding era_def doe_def by (simp add: mult.commute [of _ 146097])
  finally show ?thesis using mp m(1) d by auto
qed

section \<open>Reading what was written\<close>

lemma digits_value_ge: "0 \<le> acc \<Longrightarrow> acc \<le> digits_value s acc"
proof (induction s arbitrary: acc)
  case (Cons c s)
  have "acc * 10 + (int (byte c) - 48) \<ge> acc" if "isdigit c" using Cons.prems that by (simp add: isdigit_def)
  moreover from this Cons.prems have "acc * 10 + (int (byte c) - 48) \<le> digits_value s (acc * 10 + (int (byte c) - 48))" if "isdigit c"
    using that by (intro Cons.IH) simp
  ultimately show ?case by (simp split: if_splits) fastforce
qed simp

lemma get_digits_all:
  "list_all isdigit ds \<Longrightarrow> length ds \<le> n \<Longrightarrow> 0 \<le> v \<Longrightarrow> digits_value ds v \<le> to \<Longrightarrow>
   rest = [] \<or> \<not> isdigit (hd rest) \<Longrightarrow> get_digits n to v (ds @ rest) = (digits_value ds v, rest)"
proof (induction ds arbitrary: n v)
  case Nil
  then show ?case by (cases n; cases rest) auto
next
  case (Cons c ds)
  obtain m where n: "n = Suc m" using Cons.prems(2) by (cases n) auto
  let ?w = "v * 10 + (int (byte c) - 48)"
  have c: "isdigit c" "48 \<le> byte c" using Cons.prems(1) by (simp_all add: isdigit_def)
  have "0 \<le> ?w" "v * 10 \<le> ?w" using c Cons.prems(3) by simp_all
  moreover have "?w \<le> digits_value ds ?w" using digits_value_ge [OF \<open>0 \<le> ?w\<close>] .
  ultimately show ?case using Cons.IH [of m ?w] Cons.prems c by (simp add: n)
qed

lemma get_number_digits:
  assumes "list_all isdigit ds" "ds \<noteq> []" "length ds \<le> n" "from \<le> digits_value ds 0" "digits_value ds 0 \<le> to"
    and "rest = [] \<or> \<not> isdigit (hd rest)"
  shows "get_number from to n (ds @ rest) = Some (digits_value ds 0, rest)"
proof -
  obtain c cs where ds: "ds = c # cs" using assms(2) by (cases ds) auto
  have c: "isdigit c" "c \<noteq> CHR '' ''" "0 \<le> int (byte c) - 48" using assms(1) ds by (auto simp: isdigit_def)
  have "get_digits (n - 1) to (int (byte c) - 48) (cs @ rest) = (digits_value cs (int (byte c) - 48), rest)"
    using assms c by (intro get_digits_all) (auto simp: ds)
  then show ?thesis using assms c by (simp add: get_number_def ds)
qed

lemma show_int_digits: "0 \<le> n \<Longrightarrow> list_all isdigit (show_int n) \<and> show_int n \<noteq> [] \<and> digits_value (show_int n) 0 = n"
proof -
  assume n: "0 \<le> n"
  obtain c s where "show_nat (nat n) = c # s" by (rule show_nat_Cons)
  moreover have "list_all isdigit (show_nat (nat n))" using show_nat_digits by (auto simp: list_all_iff)
  ultimately show ?thesis using n digits_value_show [of "nat n"] by (simp add: show_int_def)
qed

lemma show_nat_length: "n < 10 ^ k \<Longrightarrow> 0 < k \<Longrightarrow> length (show_nat n) \<le> k"
proof (induction k arbitrary: n)
  case (Suc k)
  show ?case
  proof (cases "n < 10")
    case True
    then show ?thesis by (subst show_nat.simps) simp
  next
    case False
    then have "n div 10 < 10 ^ k" "0 < k" using Suc.prems(1) by (auto simp: less_mult_imp_div_less mult.commute intro: gr0I)
    from Suc.IH [OF this] show ?thesis using False by (subst show_nat.simps) simp
  qed
qed simp

lemma pad2_digits: "0 \<le> n \<Longrightarrow> n \<le> 99 \<Longrightarrow> list_all isdigit (pad2 n) \<and> pad2 n \<noteq> [] \<and> length (pad2 n) \<le> 2 \<and> digits_value (pad2 n) 0 = n"
proof -
  assume n: "0 \<le> n" "n \<le> 99"
  have z: "isdigit CHR ''0''" "int (byte CHR ''0'') = 48" by (simp_all add: isdigit_def)
  have "length (show_int n) \<le> (if n < 10 then 1 else 2)"
    using n show_nat_length [of "nat n" 1] show_nat_length [of "nat n" 2] by (auto simp: show_int_def)
  then show ?thesis using show_int_digits [OF n(1)] z by (auto simp: pad2_def split: if_splits)
qed

lemma get_number_pad2:
  "0 \<le> n \<Longrightarrow> n \<le> 99 \<Longrightarrow> from \<le> n \<Longrightarrow> n \<le> to \<Longrightarrow> rest = [] \<or> \<not> isdigit (hd rest) \<Longrightarrow> get_number from to 2 (pad2 n @ rest) = Some (n, rest)"
  using get_number_digits [of "pad2 n" 2 "from" to rest] pad2_digits [of n] by simp

lemma get_number_year:
  "0 \<le> n \<Longrightarrow> n \<le> 9999 \<Longrightarrow> rest = [] \<or> \<not> isdigit (hd rest) \<Longrightarrow> get_number 0 9999 4 (show_int n @ rest) = Some (n, rest)"
  using get_number_digits [of "show_int n" 4 0 9999 rest] show_int_digits [of n] show_nat_length [of "nat n" 4]
  by (simp add: show_int_def)

lemma first_of_digits: "list_all isdigit ds \<and> ds \<noteq> [] \<Longrightarrow> dropWhile isspace (ds @ rest) = ds @ rest"
  by (cases ds) (auto simp: isspace_def isdigit_def)

lemma letters_lower:
  "tolower CHR ''S'' = CHR ''s''" "tolower CHR ''M'' = CHR ''m''" "tolower CHR ''T'' = CHR ''t''" "tolower CHR ''W'' = CHR ''w''"
  "tolower CHR ''F'' = CHR ''f''" "tolower CHR ''J'' = CHR ''j''" "tolower CHR ''A'' = CHR ''a''" "tolower CHR ''O'' = CHR ''o''"
  "tolower CHR ''N'' = CHR ''n''" "tolower CHR ''D'' = CHR ''d''"
  by code_simp+

lemma others_lower: "\<not> isupper c \<Longrightarrow> tolower c = c"
  by (simp add: tolower_def)

lemma get_day_name:
  assumes "k < 7" shows "get_name 0 (zip full_day_names day_names) (day_names ! k @ CHR '','' # rest) = Some (int k, CHR '','' # rest)"
proof -
  from assms have "k = 0 \<or> k = 1 \<or> k = 2 \<or> k = 3 \<or> k = 4 \<or> k = 5 \<or> k = 6" by arith
  then show ?thesis
    by (elim disjE) (simp_all add: full_day_names_def day_names_def match_name_def letters_lower others_lower isupper_def)
qed

lemma get_month_name:
  assumes "k < 12" shows "get_name 0 (zip full_month_names month_names) (month_names ! k @ CHR '' '' # rest) = Some (int k, CHR '' '' # rest)"
proof -
  from assms have "k = 0 \<or> k = 1 \<or> k = 2 \<or> k = 3 \<or> k = 4 \<or> k = 5 \<or> k = 6 \<or> k = 7 \<or> k = 8 \<or> k = 9 \<or> k = 10 \<or> k = 11" by arith
  then show ?thesis
    by (elim disjE) (simp_all add: full_month_names_def month_names_def match_name_def letters_lower others_lower isupper_def)
qed

text \<open>The first format reads exactly what \<^verbatim>\<open>format\<close> writes for the fields of a date.\<close>

definition http_date :: "tm \<Rightarrow> string" where
  "http_date ts = day_names ! nat (tm_wday ts) @ '', '' @ pad2 (tm_mday ts) @ '' '' @
     month_names ! nat (tm_mon ts) @ '' '' @ show_int (tm_year ts + 1900) @ '' '' @
     pad2 (tm_hour ts) @ '':'' @ pad2 (tm_min ts) @ '':'' @ pad2 (tm_sec ts) @ '' GMT''"

definition tm_ok :: "tm \<Rightarrow> bool" where
  "tm_ok ts \<longleftrightarrow> 0 \<le> tm_wday ts \<and> tm_wday ts < 7 \<and> 0 \<le> tm_mon ts \<and> tm_mon ts < 12 \<and> 1 \<le> tm_mday ts \<and> tm_mday ts \<le> 31 \<and>
     0 \<le> tm_year ts + 1900 \<and> tm_year ts + 1900 \<le> 9999 \<and> 0 \<le> tm_hour ts \<and> tm_hour ts \<le> 23 \<and>
     0 \<le> tm_min ts \<and> tm_min ts \<le> 59 \<and> 0 \<le> tm_sec ts \<and> tm_sec ts \<le> 59"

lemma no_digit: "\<not> isdigit CHR '' ''" "\<not> isdigit CHR '':''" "isspace CHR '' ''" "\<not> isspace CHR ''%''" "\<not> isspace CHR '',''"
  "\<not> isspace CHR ''G''" "\<not> isspace CHR ''M''" "\<not> isspace CHR ''T''" "\<not> isspace CHR '':''"
  by (simp_all add: isdigit_def isspace_def)

lemma get_time_http:
  assumes "tm_ok ts"
  shows "get_time (pad2 (tm_hour ts) @ CHR '':'' # pad2 (tm_min ts) @ CHR '':'' # pad2 (tm_sec ts) @ '' GMT'') ts0 =
    Some ('' GMT'', ts0\<lparr>tm_hour := tm_hour ts, tm_min := tm_min ts, tm_sec := tm_sec ts\<rparr>)"
  using assms by (simp add: get_time_def tm_ok_def get_number_pad2 get_char_def no_digit)

lemma strptime_http:
  assumes "tm_ok ts"
  shows "strptime ''%a, %d %b %Y %T GMT'' (http_date ts) ts0 =
    (True, ts0\<lparr>tm_wday := tm_wday ts, tm_mday := tm_mday ts, tm_mon := tm_mon ts, tm_year := tm_year ts,
       tm_hour := tm_hour ts, tm_min := tm_min ts, tm_sec := tm_sec ts\<rparr>)"
proof -
  have r: "0 \<le> tm_wday ts" "nat (tm_wday ts) < 7" "0 \<le> tm_mon ts" "nat (tm_mon ts) < 12" "1 \<le> tm_mday ts" "tm_mday ts \<le> 31"
    "0 \<le> tm_year ts + 1900" "tm_year ts + 1900 \<le> 9999" "0 \<le> tm_hour ts" "tm_hour ts \<le> 99" using assms by (auto simp: tm_ok_def)
  have m: "dropWhile isspace (month_names ! nat (tm_mon ts) @ x) = month_names ! nat (tm_mon ts) @ x" for x
    using r(4) by (auto simp: month_names_def less_Suc_eq numeral_nat isspace_def)
  have p: "dropWhile isspace (pad2 n @ x) = pad2 n @ x" if "0 \<le> n" "n \<le> 99" for n x
    using pad2_digits [OF that] by (simp add: first_of_digits)
  have y: "dropWhile isspace (show_int (tm_year ts + 1900) @ x) = show_int (tm_year ts + 1900) @ x" for x
    using show_int_digits [OF r(7)] by (simp add: first_of_digits)
  show ?thesis
    using r by (simp add: http_date_def no_digit conversion_def get_day_name get_month_name get_char_def m p y get_number_pad2
      get_number_year get_time_http [OF assms])
qed

lemma gmtime_ok:
  assumes "gmtime t = Some ts" "0 \<le> tm_year ts + 1900" "tm_year ts + 1900 \<le> 9999"
  shows "tm_ok ts \<and> mktime z ts = t + z"
proof -
  obtain y m d where c: "civil_from_days (t div 86400) = (y, m, d)" by (cases "civil_from_days (t div 86400)") auto
  note r = civil_ranges [OF c]
  have ts: "ts = \<lparr>tm_sec = t mod 86400 mod 60, tm_min = t mod 86400 div 60 mod 60, tm_hour = t mod 86400 div 3600,
      tm_mday = d, tm_mon = m - 1, tm_year = y - 1900, tm_wday = (t div 86400 + 4) mod 7\<rparr>"
    using assms(1) by (auto simp: gmtime_def c Let_def split: if_splits)
  define u where "u = t mod 86400"
  have u: "0 \<le> u" "u < 86400" by (simp_all add: u_def)
  have "u div 3600 = u div 60 div 60" by (simp add: zdiv_zmult2_eq [of 60 u 60, simplified])
  then have "u div 3600 * 3600 + u div 60 mod 60 * 60 + u mod 60 = u"
    using div_mult_mod_eq [of "u div 60" 60] div_mult_mod_eq [of u 60] by linarith
  moreover have "days_from_civil y m d * 86400 + u = t" using r by (simp add: u_def)
  ultimately have mk: "mktime z ts = t + z" unfolding ts u_def [symmetric] mktime_def by simp
  have "u div 3600 \<le> 23" "0 \<le> u div 3600" using u by linarith+
  moreover have "u div 60 mod 60 \<le> 59" "u mod 60 \<le> 59" using pos_mod_bound [of 60 "u div 60"] pos_mod_bound [of 60 u] by linarith+
  ultimately have "tm_ok ts" using r assms(2,3) unfolding ts u_def [symmetric] by (simp add: tm_ok_def)
  with mk show ?thesis by simp
qed

lemma digits_no_zero: "list_all isdigit ds \<and> P \<Longrightarrow> CHR 0x00 \<notin> set ds"
  by (auto simp: list_all_iff isdigit_def)

lemma names_no_zero: "k < 7 \<Longrightarrow> CHR 0x00 \<notin> set (day_names ! k)" "k < 12 \<Longrightarrow> CHR 0x00 \<notin> set (month_names ! k)"
proof -
  have "list_all (\<lambda>n. CHR 0x00 \<notin> set n) day_names" "length day_names = 7" by (simp_all add: day_names_def)
  then show "k < 7 \<Longrightarrow> CHR 0x00 \<notin> set (day_names ! k)" by (simp add: list_all_length)
  have "list_all (\<lambda>n. CHR 0x00 \<notin> set n) month_names" "length month_names = 12" by (simp_all add: month_names_def)
  then show "k < 12 \<Longrightarrow> CHR 0x00 \<notin> set (month_names ! k)" by (simp add: list_all_length)
qed

lemma http_date_text:
  assumes "tm_ok ts" shows "CHR 0x00 \<notin> set (http_date ts)"
proof -
  have "nat (tm_wday ts) < 7" "nat (tm_mon ts) < 12" using assms by (auto simp: tm_ok_def)
  then show ?thesis
  using assms digits_no_zero [OF show_int_digits [of "tm_year ts + 1900"]] digits_no_zero [OF pad2_digits [of "tm_mday ts"]]
    digits_no_zero [OF pad2_digits [of "tm_hour ts"]] digits_no_zero [OF pad2_digits [of "tm_min ts"]]
    digits_no_zero [OF pad2_digits [of "tm_sec ts"]]
    names_no_zero(1) [of "nat (tm_wday ts)"] names_no_zero(2) [of "nat (tm_mon ts)"]
  by (simp add: tm_ok_def http_date_def)
qed



end
