(* ===== verification/PageReaders.thy ===== *)
theory PageReaders
  imports StringUtils OMaps
begin

text \<open>
  The reader of the page compiler (\<^verbatim>\<open>page-compiler/page_reader.cpp\<close>): the text of a server page is cut into
  tokens, and a state machine over the tokens collects the C++ code of the page. A text between the
  blocks becomes statements that write string literals, the blocks are copied, and the attributes of
  a page directive are stored or make the reader include another page.

  The files are a map from paths to contents. The reader of an included page calls itself; the depth
  of this recursion is bounded by fuel, and \<open>IncludeLoop\<close> is the outcome when the fuel is
  used up. The errors are the strings that the code throws. The member \<^verbatim>\<open>_line\<close> is never assigned after
  its initialisation, so that every message names line 0.
\<close>

section \<open>Pages\<close>

record page =
  pg_headerDecls :: string
  pg_implDecls :: string
  pg_handler :: string
  pg_preHandler :: string
  pg_methods :: string
  pg_functions :: string
  pg_attributes :: "(string \<times> string) list"

definition page_new :: page where
  "page_new = \<lparr>pg_headerDecls = [], pg_implDecls = [], pg_handler = [], pg_preHandler = [], pg_methods = [], pg_functions = [],
     pg_attributes = []\<rparr>"

definition page_hasAttribute :: "string \<Rightarrow> page \<Rightarrow> bool" where
  "page_hasAttribute name pg \<longleftrightarrow> om_find string_lt name (pg_attributes pg) \<noteq> None"

definition page_setAttribute :: "string \<Rightarrow> string \<Rightarrow> page \<Rightarrow> page" where
  "page_setAttribute name v pg = pg\<lparr>pg_attributes := om_assign string_lt name v (pg_attributes pg)\<rparr>"

definition page_getAttribute :: "page \<Rightarrow> string \<Rightarrow> string \<Rightarrow> string" where
  "page_getAttribute pg name dflt = (case om_find string_lt name (pg_attributes pg) of Some v \<Rightarrow> v | None \<Rightarrow> dflt)"

text \<open>The output operators of the streams of a page.\<close>

definition to_handler :: "string \<Rightarrow> page \<Rightarrow> page" where
  "to_handler s pg = pg\<lparr>pg_handler := pg_handler pg @ s\<rparr>"

definition to_headerDecls :: "string \<Rightarrow> page \<Rightarrow> page" where
  "to_headerDecls s pg = pg\<lparr>pg_headerDecls := pg_headerDecls pg @ s\<rparr>"

definition to_implDecls :: "string \<Rightarrow> page \<Rightarrow> page" where
  "to_implDecls s pg = pg\<lparr>pg_implDecls := pg_implDecls pg @ s\<rparr>"

definition to_preHandler :: "string \<Rightarrow> page \<Rightarrow> page" where
  "to_preHandler s pg = pg\<lparr>pg_preHandler := pg_preHandler pg @ s\<rparr>"

definition to_methods :: "string \<Rightarrow> page \<Rightarrow> page" where
  "to_methods s pg = pg\<lparr>pg_methods := pg_methods pg @ s\<rparr>"

definition to_functions :: "string \<Rightarrow> page \<Rightarrow> page" where
  "to_functions s pg = pg\<lparr>pg_functions := pg_functions pg @ s\<rparr>"

section \<open>Tokens\<close>

datatype parsing_state =
    STATE_MARKUP | STATE_IMPLDECL | STATE_HDRDECL | STATE_METHODS | STATE_FUNCTIONS | STATE_PREHANDLER
  | STATE_BLOCK | STATE_EXPR | STATE_COMMENT | STATE_ATTR

definition MARKUP_BEGIN :: string where
  "MARKUP_BEGIN = [CHR 0x09] @ ''responseStream << '' @ [CHR 0x22]"

definition MARKUP_END :: string where
  "MARKUP_END = [CHR 0x22, CHR '';'', CHR 0x0A]"

definition EXPR_BEGIN :: string where
  "EXPR_BEGIN = [CHR 0x09] @ ''responseStream << (''"

definition EXPR_END :: string where
  "EXPR_END = '');'' @ [CHR 0x0A]"

definition peek :: "string \<Rightarrow> char option" where
  "peek s = (case s of [] \<Rightarrow> None | c # _ \<Rightarrow> Some c)"

text \<open>The token after an opening \<^verbatim>\<open><%\<close>, and the token at the front of the stream with the rest of the stream.\<close>

definition open_token :: "string \<Rightarrow> string \<times> string" where
  "open_token s =
     (case s of
        [] \<Rightarrow> (''<%'', [])
      | c # t \<Rightarrow>
          if c = CHR ''%'' \<or> c = CHR ''@'' \<or> c = CHR ''='' then (''<%'' @ [c], t)
          else if c = CHR ''!'' \<or> c = CHR ''-'' then
            (if peek t = Some c then (''<%'' @ [c, c], tl t) else (''<%'' @ [c], t))
          else (''<%'', s))"

definition nextToken :: "string \<Rightarrow> string \<times> string" where
  "nextToken s =
     (case s of
        [] \<Rightarrow> ([], [])
      | c # t \<Rightarrow>
          if c = CHR ''<'' \<and> peek t = Some (CHR ''%'') then open_token (tl t)
          else if c = CHR ''%'' \<and> peek t = Some (CHR ''>'') then (''%>'', tl t)
          else ([c], t))"

text \<open>The state that an opening token leads to.\<close>

definition open_state :: "string \<Rightarrow> parsing_state option" where
  "open_state token =
     (if token = ''<%'' then Some STATE_BLOCK
      else if token = ''<%%'' then Some STATE_PREHANDLER
      else if token = ''<%!'' then Some STATE_FUNCTIONS
      else if token = ''<%!!'' then Some STATE_METHODS
      else if token = ''<%--'' then Some STATE_COMMENT
      else if token = ''<%@'' then Some STATE_ATTR
      else if token = ''<%='' then Some STATE_EXPR
      else None)"

section \<open>Errors\<close>

datatype page_error = PageError string | IncludeLoop

text \<open>A reader is its path and the paths of the pages that include it, the innermost first.\<close>

type_synonym reader = "string list"

definition where_text :: "reader \<Rightarrow> string" where
  "where_text rd =
     ''in file '' @ [CHR 0x27] @ hd rd @ [CHR 0x27] @ '', line 0'' @
     concat (map (\<lambda>p. [CHR 0x0A, CHR 0x09] @ ''included from file '' @ [CHR 0x27] @ p @ [CHR 0x27] @ '', line 0'') (tl rd))"

section \<open>Attributes\<close>

text \<open>The operation \<open>include\<close> is an argument: it depends on the reader.\<close>

definition handleAttribute :: "(string \<Rightarrow> page \<Rightarrow> page_error + page) \<Rightarrow> string \<Rightarrow> string \<Rightarrow> page \<Rightarrow> page_error + page" where
  "handleAttribute inc name v pg =
     (if name = ''include.page'' then inc v pg
      else if name = ''include.path'' then
        Inr (to_handler ([CHR 0x09] @ ''response->includePath('' @ [CHR 0x22] @ v @ [CHR 0x22] @ '');'') pg)
      else if name = ''include.component'' then
        Inr (to_handler ([CHR 0x09] @ ''response->includeComponent('' @ [CHR 0x22] @ v @ [CHR 0x22] @ '');'') pg)
      else if name = ''header.include'' then
        Inr (to_headerDecls (''#include '' @ [CHR 0x22] @ v @ [CHR 0x22, CHR 0x0A]) pg)
      else if name = ''header.sinclude'' then
        Inr (to_headerDecls (''#include <'' @ v @ ''>'' @ [CHR 0x0A]) pg)
      else if name = ''impl.include'' then
        Inr (to_implDecls (''#include '' @ [CHR 0x22] @ v @ [CHR 0x22, CHR 0x0A]) pg)
      else if name = ''impl.sinclude'' then
        Inr (to_implDecls (''#include <'' @ v @ ''>'' @ [CHR 0x0A]) pg)
      else Inr (if page_hasAttribute name pg then pg else page_setAttribute name v pg))"

text \<open>The value of an attribute: the text between quotes of one kind, with the rest after them.\<close>

definition quoted :: "reader \<Rightarrow> string \<Rightarrow> page_error + string \<times> string" where
  "quoted rd s =
     (case s of
        [] \<Rightarrow> Inl (PageError (''bad attribute syntax: '' @ [CHR 0x27, CHR 0x22, CHR 0x27] @ '' or '' @ [CHR 0x27, CHR 0x27, CHR 0x27] @
                '' expected'' @ where_text rd))
      | q # t \<Rightarrow>
          if q = CHR 0x22 \<or> q = CHR 0x27 then
            (case dropWhile (\<lambda>c. c \<noteq> q) t of
               [] \<Rightarrow> Inl (PageError (''bad attribute syntax: '' @ [CHR 0x27, q, CHR 0x27] @ '' expected '' @ where_text rd))
             | _ # u \<Rightarrow> Inr (takeWhile (\<lambda>c. c \<noteq> q) t, u))
          else Inl (PageError (''bad attribute syntax: '' @ [CHR 0x27, CHR 0x22, CHR 0x27] @ '' or '' @ [CHR 0x27, CHR 0x27, CHR 0x27] @
                '' expected'' @ where_text rd)))"

lemma length_quoted: "quoted rd s = Inr (v, u) \<Longrightarrow> length u < length s"
  using length_dropWhile_le [of "\<lambda>c. c \<noteq> hd s" "tl s"]
  by (auto simp: quoted_def split: list.splits if_splits)

lemma length_attribute:
  assumes "s1 = dropWhile isspace (dropWhile isalnum s)" "s1 \<noteq> []" "quoted rd (dropWhile isspace (tl s1)) = Inr (v, u)"
  shows "length (dropWhile isspace u) < length s"
proof -
  have "length (dropWhile isspace u) \<le> length u" by (rule length_dropWhile_le)
  also have "\<dots> < length (dropWhile isspace (tl s1))" by (rule length_quoted [OF assms(3)])
  also have "\<dots> \<le> length (tl s1)" by (rule length_dropWhile_le)
  also have "\<dots> \<le> length s1" by simp
  also have "\<dots> \<le> length (dropWhile isalnum s)" unfolding assms(1) by (rule length_dropWhile_le)
  also have "\<dots> \<le> length s" by (rule length_dropWhile_le)
  finally show ?thesis .
qed

function parse_attributes ::
    "(string \<Rightarrow> page \<Rightarrow> page_error + page) \<Rightarrow> reader \<Rightarrow> string \<Rightarrow> string \<Rightarrow> page \<Rightarrow> page_error + page" where
  "parse_attributes inc rd base s pg =
     (if s = [] then Inr pg
      else
        let name = base @ ''.'' @ takeWhile isalnum s;
            s1 = dropWhile isspace (dropWhile isalnum s)
        in if s1 = [] \<or> hd s1 \<noteq> CHR ''='' then
             Inl (PageError (''bad attribute syntax: '' @ [CHR 0x27, CHR ''='', CHR 0x27] @ '' expected '' @ where_text rd))
           else
             (case quoted rd (dropWhile isspace (tl s1)) of
                Inl e \<Rightarrow> Inl e
              | Inr (v, u) \<Rightarrow>
                  rbind (handleAttribute inc name v pg) (parse_attributes inc rd base (dropWhile isspace u))))"
  by pat_completeness auto

termination
  by (relation "measure (\<lambda>(inc, rd, base, s, pg). length s)")
    (auto simp del: dropWhile_eq_Nil_conv intro: length_attribute)

declare parse_attributes.simps [simp del]

definition parseAttributes :: "(string \<Rightarrow> page \<Rightarrow> page_error + page) \<Rightarrow> reader \<Rightarrow> string \<Rightarrow> page \<Rightarrow> page_error + page" where
  "parseAttributes inc rd attrs pg =
     (let s = dropWhile isspace attrs
      in parse_attributes inc rd (takeWhile isalnum s) (dropWhile isspace (dropWhile isalnum s)) pg)"

section \<open>The state machine\<close>

text \<open>The code of a character of the markup.\<close>

definition markup_code :: "string \<Rightarrow> string" where
  "markup_code token =
     (if token = [CHR 0x0A] then [CHR 0x5C, CHR ''n''] @ MARKUP_END @ MARKUP_BEGIN
      else if token = [CHR 0x09] then [CHR 0x5C, CHR ''t'']
      else if token = [CHR 0x22] then [CHR 0x5C, CHR 0x22]
      else if token \<noteq> [CHR 0x0D] then token
      else [])"

text \<open>Any other token, by the state. The text of a directive is collected in \<open>attrs\<close>.\<close>

definition other_token :: "parsing_state \<Rightarrow> string \<Rightarrow> string \<times> page \<Rightarrow> string \<times> page" where
  "other_token state token = (\<lambda>(attrs, pg).
     case state of
       STATE_MARKUP \<Rightarrow> (attrs, to_handler (markup_code token) pg)
     | STATE_IMPLDECL \<Rightarrow> (attrs, to_implDecls token pg)
     | STATE_FUNCTIONS \<Rightarrow> (attrs, to_functions token pg)
     | STATE_HDRDECL \<Rightarrow> (attrs, to_headerDecls token pg)
     | STATE_METHODS \<Rightarrow> (attrs, to_methods token pg)
     | STATE_PREHANDLER \<Rightarrow> (attrs, to_preHandler token pg)
     | STATE_BLOCK \<Rightarrow> (attrs, to_handler token pg)
     | STATE_EXPR \<Rightarrow> (attrs, to_handler token pg)
     | STATE_COMMENT \<Rightarrow> (attrs, pg)
     | STATE_ATTR \<Rightarrow> (attrs @ token, pg))"

definition close_token ::
    "(string \<Rightarrow> page \<Rightarrow> page_error + page) \<Rightarrow> reader \<Rightarrow> parsing_state \<Rightarrow> string \<times> page \<Rightarrow> page_error + parsing_state \<times> string \<times> page" where
  "close_token inc rd state = (\<lambda>(attrs, pg).
     if state = STATE_EXPR then Inr (STATE_MARKUP, attrs, to_handler MARKUP_BEGIN (to_handler EXPR_END pg))
     else if state = STATE_ATTR then
       rbind (parseAttributes inc rd attrs pg) (\<lambda>pg. Inr (STATE_MARKUP, [], to_handler MARKUP_BEGIN pg))
     else if state \<noteq> STATE_MARKUP then Inr (STATE_MARKUP, attrs, to_handler MARKUP_BEGIN pg)
     else Inr (STATE_MARKUP, attrs, to_handler ''%>'' pg))"

definition parse_token ::
    "(string \<Rightarrow> page \<Rightarrow> page_error + page) \<Rightarrow> reader \<Rightarrow> string \<Rightarrow> parsing_state \<times> string \<times> page \<Rightarrow> page_error + parsing_state \<times> string \<times> page" where
  "parse_token inc rd token = (\<lambda>(state, attrs, pg).
     case open_state token of
       Some new_state \<Rightarrow>
         if state = STATE_MARKUP then
           Inr (new_state, if new_state = STATE_ATTR then [] else attrs,
                (if new_state = STATE_EXPR then to_handler EXPR_BEGIN else id) (to_handler MARKUP_END pg))
         else Inr (state, attrs, to_handler token pg)
     | None \<Rightarrow>
         if token = ''%>'' then close_token inc rd state (attrs, pg)
         else Inr (state, other_token state token (attrs, pg)))"

lemma nextToken_shorter: "s \<noteq> [] \<Longrightarrow> length (snd (nextToken s)) < length s"
  by (auto simp: nextToken_def open_token_def peek_def split: list.splits)

function parse_loop ::
    "(string \<Rightarrow> page \<Rightarrow> page_error + page) \<Rightarrow> reader \<Rightarrow> string \<Rightarrow> parsing_state \<times> string \<times> page \<Rightarrow> page_error + parsing_state \<times> string \<times> page" where
  "parse_loop inc rd s x =
     (if s = [] then Inr x
      else rbind (parse_token inc rd (fst (nextToken s)) x) (parse_loop inc rd (snd (nextToken s))))"
  by pat_completeness auto
termination
  by (relation "measure (\<lambda>(inc, rd, s, x). length s)") (use nextToken_shorter in auto)

declare parse_loop.simps [simp del]

definition parse_page :: "(string \<Rightarrow> page \<Rightarrow> page_error + page) \<Rightarrow> reader \<Rightarrow> string \<Rightarrow> page \<Rightarrow> page_error + page" where
  "parse_page inc rd s pg =
     rbind (parse_loop inc rd s (STATE_MARKUP, [], to_handler MARKUP_BEGIN pg)) (\<lambda>(state, attrs, pg).
       if state = STATE_MARKUP then Inr (to_handler MARKUP_END pg)
       else Inl (PageError (''unclosed meta or code block: '' @ where_text rd)))"

text \<open>Reading a page, with the pages it includes.\<close>

fun read_page :: "nat \<Rightarrow> (string \<Rightarrow> string option) \<Rightarrow> reader \<Rightarrow> string \<Rightarrow> page \<Rightarrow> page_error + page" where
  "read_page 0 files rd s pg = Inl IncludeLoop"
| "read_page (Suc n) files rd s pg =
     parse_page (\<lambda>path pg.
       let includePath = pathToFile (hd rd) @ ''/'' @ path;
           pg = to_handler ([CHR 0x09] @ ''// begin include '' @ includePath @ [CHR 0x0A]) pg
       in case files includePath of
            None \<Rightarrow> Inl (PageError (''could not open file  '' @ includePath @ '' for inclusion '' @ where_text rd))
          | Some content \<Rightarrow>
              rbind (read_page n files (includePath # rd) content pg) (\<lambda>pg.
                Inr (to_handler ([CHR 0x09] @ ''// end include '' @ includePath @ [CHR 0x0A]) pg)))
       rd s pg"

section \<open>The pieces of a page\<close>

text \<open>
  A page as its author sees it: markup, and blocks of a kind with their code. A block must not hold the
  opening or closing marks, or end with a \<^verbatim>\<open><\<close>, and its first character must not extend its opening mark.
\<close>

definition open_mark :: "parsing_state \<Rightarrow> string" where
  "open_mark st = (case st of STATE_BLOCK \<Rightarrow> ''<%'' | STATE_PREHANDLER \<Rightarrow> ''<%%'' | STATE_FUNCTIONS \<Rightarrow> ''<%!'' | STATE_METHODS \<Rightarrow> ''<%!!''
     | STATE_COMMENT \<Rightarrow> ''<%--'' | STATE_ATTR \<Rightarrow> ''<%@'' | STATE_EXPR \<Rightarrow> ''<%='' | _ \<Rightarrow> [])"

fun plain_code :: "string \<Rightarrow> bool" where
  "plain_code [] \<longleftrightarrow> True"
| "plain_code [c] \<longleftrightarrow> c \<noteq> CHR ''<''"
| "plain_code (c # d # s) \<longleftrightarrow>
     \<not> (c = CHR ''<'' \<and> d = CHR ''%'') \<and> \<not> (c = CHR ''%'' \<and> d = CHR ''>'') \<and> plain_code (d # s)"

fun no_opening :: "string \<Rightarrow> bool" where
  "no_opening (c # d # s) \<longleftrightarrow> \<not> (c = CHR ''<'' \<and> d = CHR ''%'') \<and> no_opening (d # s)"
| "no_opening _ \<longleftrightarrow> True"

definition piece_ok :: "parsing_state \<times> string \<Rightarrow> bool" where
  "piece_ok = (\<lambda>(st, c). open_mark st \<noteq> [] \<and> plain_code c \<and>
     (st = STATE_BLOCK \<longrightarrow> c \<noteq> [] \<and> hd c \<notin> set ''%@=!-'') \<and> (st = STATE_FUNCTIONS \<longrightarrow> c = [] \<or> hd c \<noteq> CHR ''!''))"

definition page_text :: "(string \<times> parsing_state \<times> string) list \<Rightarrow> string \<Rightarrow> string" where
  "page_text ps m = concat (map (\<lambda>(m, st, c). m @ open_mark st @ c @ ''%>'') ps) @ m"

text \<open>What the pieces mean for the page.\<close>

definition markup_text :: "string \<Rightarrow> string" where
  "markup_text m = concat (map (\<lambda>c. markup_code [c]) m)"

definition piece_effect ::
    "(string \<Rightarrow> page \<Rightarrow> page_error + page) \<Rightarrow> reader \<Rightarrow> parsing_state \<times> string \<Rightarrow> page \<Rightarrow> page_error + page" where
  "piece_effect inc rd = (\<lambda>(st, c) pg.
     case st of
       STATE_BLOCK \<Rightarrow> Inr (to_handler c pg)
     | STATE_EXPR \<Rightarrow> Inr (to_handler (EXPR_BEGIN @ c @ EXPR_END) pg)
     | STATE_PREHANDLER \<Rightarrow> Inr (to_preHandler c pg)
     | STATE_FUNCTIONS \<Rightarrow> Inr (to_functions c pg)
     | STATE_METHODS \<Rightarrow> Inr (to_methods c pg)
     | STATE_ATTR \<Rightarrow> parseAttributes inc rd c pg
     | _ \<Rightarrow> Inr pg)"

definition markup_statements :: "string \<Rightarrow> string" where
  "markup_statements m = MARKUP_BEGIN @ markup_text m @ MARKUP_END"

fun page_effect ::
    "(string \<Rightarrow> page \<Rightarrow> page_error + page) \<Rightarrow> reader \<Rightarrow> (string \<times> parsing_state \<times> string) list \<Rightarrow> page \<Rightarrow> page_error + page" where
  "page_effect inc rd [] pg = Inr pg"
| "page_effect inc rd ((m, p) # ps) pg =
     rbind (piece_effect inc rd p (to_handler (markup_statements m) pg)) (page_effect inc rd ps)"

section \<open>The state machine follows the pieces\<close>

lemma to_handler_append [simp]: "to_handler t (to_handler s pg) = to_handler (s @ t) pg"
  by (simp add: to_handler_def)

lemma to_handler_Nil [simp]: "to_handler [] pg = pg"
  by (simp add: to_handler_def)

lemma parse_loop_step: "nextToken s = (t, u) \<Longrightarrow> s \<noteq> [] \<Longrightarrow> parse_loop inc rd s x = rbind (parse_token inc rd t x) (parse_loop inc rd u)"
  by (simp add: parse_loop.simps [of inc rd s])

lemma parse_loop_Nil [simp]: "parse_loop inc rd [] x = Inr x"
  by (simp add: parse_loop.simps)

lemma open_state_char [simp]: "open_state [c] = None"
  by (simp add: open_state_def)

lemma other_token_append: "st \<noteq> STATE_MARKUP \<Longrightarrow> other_token st (x @ y) z = other_token st y (other_token st x z)"
  by (cases z; cases st) (simp_all add: other_token_def to_handler_def to_functions_def to_methods_def to_preHandler_def
    to_implDecls_def to_headerDecls_def)

lemma other_token_Nil: "st \<noteq> STATE_MARKUP \<Longrightarrow> other_token st [] z = z"
  by (cases z; cases st) (simp_all add: other_token_def to_handler_def to_functions_def to_methods_def to_preHandler_def
    to_implDecls_def to_headerDecls_def)

lemma parse_loop_char:
  "nextToken (c # s) = ([c], s) \<Longrightarrow>
   parse_loop inc rd (c # s) (st, x) = parse_loop inc rd s (st, other_token st [c] x)"
  by (cases x) (simp add: parse_loop_step parse_token_def)

lemma nextToken_code: "plain_code (c # s) \<Longrightarrow> nextToken (c # s @ ''%>'' @ t) = ([c], s @ ''%>'' @ t)"
  by (cases s) (auto simp: nextToken_def peek_def)

lemma parse_loop_code:
  "plain_code c \<Longrightarrow> st \<noteq> STATE_MARKUP \<Longrightarrow>
   parse_loop inc rd (c @ ''%>'' @ t) (st, x) = parse_loop inc rd (''%>'' @ t) (st, other_token st c x)"
proof (induction c arbitrary: x)
  case Nil
  then show ?case by (simp add: other_token_Nil)
next
  case (Cons d c)
  then have "plain_code c" by (cases c) simp_all
  then show ?case
    using Cons parse_loop_char [OF nextToken_code [OF Cons.prems(1), of t], of inc rd st x]
      other_token_append [of st "[d]" c x] by simp
qed

lemma parse_loop_close:
  "parse_loop inc rd (''%>'' @ t) (st, x) = rbind (close_token inc rd st x) (parse_loop inc rd t)"
proof -
  have "nextToken (''%>'' @ t) = (''%>'', t)" by (simp add: nextToken_def peek_def)
  then show ?thesis by (simp add: parse_loop_step parse_token_def open_state_def)
qed

text \<open>The first token of a block is its opening mark.\<close>

lemma nextToken_opening:
  assumes "piece_ok (st, c)" shows "nextToken (open_mark st @ c @ ''%>'' @ t) = (open_mark st, c @ ''%>'' @ t)"
  using assms by (cases st; cases c)
    (auto simp: piece_ok_def open_mark_def nextToken_def open_token_def peek_def)

lemma open_state_opening: "open_mark st \<noteq> [] \<Longrightarrow> open_state (open_mark st) = Some st"
  by (cases st) (simp_all add: open_mark_def open_state_def)

lemma parse_loop_piece:
  assumes "piece_ok (st, c)"
  shows "parse_loop inc rd (open_mark st @ c @ ''%>'' @ t) (STATE_MARKUP, [], pg) =
    rbind (piece_effect inc rd (st, c) (to_handler MARKUP_END pg)) (\<lambda>pg.
      parse_loop inc rd t (STATE_MARKUP, [], to_handler MARKUP_BEGIN pg))"
proof -
  let ?pg = "(if st = STATE_EXPR then to_handler EXPR_BEGIN else id) (to_handler MARKUP_END pg)"
  have ok: "open_mark st \<noteq> []" "plain_code c" "st \<noteq> STATE_MARKUP" using assms by (auto simp: piece_ok_def open_mark_def)
  have "parse_loop inc rd (open_mark st @ c @ ''%>'' @ t) (STATE_MARKUP, [], pg) = parse_loop inc rd (c @ ''%>'' @ t) (st, [], ?pg)"
    using parse_loop_step [OF nextToken_opening [OF assms, of t], of inc rd] ok(1)
    by (simp add: parse_token_def open_state_opening [OF ok(1)])
  also have "\<dots> = rbind (close_token inc rd st (other_token st c ([], ?pg))) (parse_loop inc rd t)"
    by (simp only: parse_loop_code [OF ok(2,3)] parse_loop_close)
  also have "\<dots> = rbind (piece_effect inc rd (st, c) (to_handler MARKUP_END pg)) (\<lambda>pg.
      parse_loop inc rd t (STATE_MARKUP, [], to_handler MARKUP_BEGIN pg))"
    using ok(1) by (cases st) (auto simp: open_mark_def close_token_def other_token_def piece_effect_def rbind_def split: sum.split)
  finally show ?thesis .
qed

text \<open>Markup, up to the next block or the end of the page.\<close>

definition at_mark :: "string \<Rightarrow> bool" where
  "at_mark t \<longleftrightarrow> t = [] \<or> (\<exists>u. t = ''<%'' @ u)"

lemma at_mark_piece: "piece_ok (st, c) \<Longrightarrow> at_mark (open_mark st @ t)"
  by (cases st) (simp_all add: at_mark_def open_mark_def piece_ok_def)

lemma nextToken_markup:
  assumes "no_opening (c # m)" "at_mark t"
  shows "nextToken (c # m @ t) = ([c], m @ t) \<or> (\<exists>m'. c = CHR ''%'' \<and> m = CHR ''>'' # m' \<and> nextToken (c # m @ t) = (''%>'', m' @ t))"
  using assms by (cases m) (auto simp: nextToken_def peek_def at_mark_def)

lemma markup_text_simps [simp]: "markup_text [] = []" "markup_text (c # m) = markup_code [c] @ markup_text m"
  by (simp_all add: markup_text_def)

lemma no_opening_tl: "no_opening (c # m) \<Longrightarrow> no_opening m"
  by (cases m) auto

lemma parse_loop_markup:
  "no_opening m \<Longrightarrow> at_mark t \<Longrightarrow>
   parse_loop inc rd (m @ t) (STATE_MARKUP, a, pg) = parse_loop inc rd t (STATE_MARKUP, a, to_handler (markup_text m) pg)"
proof (induction m arbitrary: pg rule: length_induct)
  case (1 m)
  show ?case
  proof (cases m)
    case Nil
    then show ?thesis by simp
  next
    case (Cons c n)
    have n: "no_opening n" using 1 Cons no_opening_tl by blast
    from nextToken_markup [of c n t] 1 Cons consider "nextToken (c # n @ t) = ([c], n @ t)"
      | m' where "c = CHR ''%''" "n = CHR ''>'' # m'" "nextToken (c # n @ t) = (''%>'', m' @ t)" by blast
    then show ?thesis
    proof cases
      case 1
      then show ?thesis using "1.IH" "1.prems" Cons n by (simp add: parse_loop_char other_token_def)
    next
      case 2
      have "parse_loop inc rd (m @ t) (STATE_MARKUP, a, pg) = parse_loop inc rd (m' @ t) (STATE_MARKUP, a, to_handler ''%>'' pg)"
        using 2 Cons parse_loop_close [of inc rd "m' @ t" STATE_MARKUP "(a, pg)"] by (simp add: close_token_def)
      moreover have "no_opening m'" using n 2(2) no_opening_tl by blast
      ultimately show ?thesis using "1.IH" "1.prems" Cons 2(1,2) by (simp add: markup_code_def)
    qed
  qed
qed

lemma parse_loop_page:
  "\<forall>(m, p) \<in> set ps. no_opening m \<and> piece_ok p \<Longrightarrow> no_opening m \<Longrightarrow>
   parse_loop inc rd (page_text ps m) (STATE_MARKUP, [], to_handler MARKUP_BEGIN pg) =
   rbind (page_effect inc rd ps pg) (\<lambda>pg. Inr (STATE_MARKUP, [], to_handler (MARKUP_BEGIN @ markup_text m) pg))"
proof (induction ps arbitrary: pg)
  case Nil
  then show ?case using parse_loop_markup [of m "[]" inc rd "[]" "to_handler MARKUP_BEGIN pg"]
    by (simp add: page_text_def at_mark_def)
next
  case (Cons q ps)
  obtain m1 st c where q: "q = (m1, st, c)" by (cases q)
  have ok: "no_opening m1" "piece_ok (st, c)" using Cons q by auto
  have t: "page_text (q # ps) m = m1 @ open_mark st @ c @ ''%>'' @ page_text ps m" by (simp add: page_text_def q)
  have "parse_loop inc rd (page_text (q # ps) m) (STATE_MARKUP, [], to_handler MARKUP_BEGIN pg) =
    rbind (piece_effect inc rd (st, c) (to_handler (markup_statements m1) pg)) (\<lambda>pg.
      parse_loop inc rd (page_text ps m) (STATE_MARKUP, [], to_handler MARKUP_BEGIN pg))"
    unfolding t parse_loop_markup [OF ok(1) at_mark_piece [OF ok(2)]] parse_loop_piece [OF ok(2)]
    by (simp add: markup_statements_def)
  also have "\<dots> = rbind (page_effect inc rd (q # ps) pg) (\<lambda>pg. Inr (STATE_MARKUP, [], to_handler (MARKUP_BEGIN @ markup_text m) pg))"
    using Cons by (simp add: q rbind_def split: sum.split)
  finally show ?case .
qed

lemma parse_page_pieces:
  assumes "\<forall>(m, p) \<in> set ps. no_opening m \<and> piece_ok p" "no_opening m"
  shows "parse_page inc rd (page_text ps m) pg = rbind (page_effect inc rd ps pg) (\<lambda>pg. Inr (to_handler (markup_statements m) pg))"
  unfolding parse_page_def parse_loop_page [OF assms] by (simp add: rbind_def markup_statements_def split: sum.split)

text \<open>
  A page is compiled piece by piece: for a page of markup and blocks, the reader adds to the handler
  the statements that write the markup, the code of the blocks and the expressions, in the order of
  the page; it collects the declarations of the other blocks, drops the comments and obeys the
  directives, whose errors are its errors.
\<close>

theorem page_compiled:
  assumes "\<forall>(m, p) \<in> set ps. no_opening m \<and> piece_ok p" "no_opening m"
  shows "parse_page inc rd (page_text ps m) pg = rbind (page_effect inc rd ps pg) (\<lambda>pg. Inr (to_handler (markup_statements m) pg))"
  by (rule parse_page_pieces [OF assms])

theorem page_compiled_witness:
  "parse_page (\<lambda>path. Inr) [''/p/a.cpsp''] (''Hi <%=name%>, <%-- todo --%>bye'') page_new =
    Inr (page_new\<lparr>pg_handler := markup_statements ''Hi '' @ EXPR_BEGIN @ ''name'' @ EXPR_END @ markup_statements '', '' @ markup_statements ''bye''\<rparr>)"
  using page_compiled [of "[(''Hi '', STATE_EXPR, ''name''), ('', '', STATE_COMMENT, '' todo --'')]" "''bye''" "\<lambda>path. Inr"
    "[''/p/a.cpsp'']" page_new]
  by (simp add: page_text_def open_mark_def piece_ok_def piece_effect_def to_handler_def page_new_def)

section \<open>Directives\<close>

text \<open>A directive with its attributes, in the form an author writes it, and its effect.\<close>

definition attributes_text :: "(string \<times> string) list \<Rightarrow> string" where
  "attributes_text avs = concat (map (\<lambda>(a, v). a @ [CHR ''='', CHR 0x22] @ v @ [CHR 0x22, CHR '' '']) avs)"

fun attributes_effect ::
    "(string \<Rightarrow> page \<Rightarrow> page_error + page) \<Rightarrow> string \<Rightarrow> (string \<times> string) list \<Rightarrow> page \<Rightarrow> page_error + page" where
  "attributes_effect inc base [] pg = Inr pg"
| "attributes_effect inc base ((a, v) # avs) pg = rbind (handleAttribute inc (base @ ''.'' @ a) v pg) (attributes_effect inc base avs)"

definition attribute_ok :: "string \<times> string \<Rightarrow> bool" where
  "attribute_ok = (\<lambda>(a, v). list_all isalnum a \<and> CHR 0x22 \<notin> set v)"

lemma alnum_prefix: "list_all isalnum a \<Longrightarrow> \<not> isalnum c \<Longrightarrow> takeWhile isalnum (a @ c # s) = a \<and> dropWhile isalnum (a @ c # s) = c # s"
  by (auto simp: list_all_iff takeWhile_append dropWhile_append)

lemma quoted_text: "CHR 0x22 \<notin> set v \<Longrightarrow> quoted rd (CHR 0x22 # v @ CHR 0x22 # s) = Inr (v, s)"
proof -
  assume "CHR 0x22 \<notin> set v"
  then have "\<forall>c \<in> set v. c \<noteq> CHR 0x22" by auto
  then show ?thesis by (simp add: quoted_def takeWhile_append2 dropWhile_append2)
qed

lemma space_eq: "\<not> isspace (CHR ''='')"
  by (simp add: ctype_defs)

lemma not_isspace_alnum: "isalnum c \<Longrightarrow> \<not> isspace c"
  by (auto simp: ctype_defs)

lemma skip_space_attributes: "list_all attribute_ok avs \<Longrightarrow> dropWhile isspace (attributes_text avs) = attributes_text avs"
proof (cases avs)
  case (Cons q rest)
  assume ok: "list_all attribute_ok avs"
  obtain a v where "q = (a, v)" by (cases q)
  then show ?thesis using ok Cons by (cases a) (auto simp: attributes_text_def attribute_ok_def not_isspace_alnum space_eq)
qed (simp add: attributes_text_def)

lemma parse_attributes_text:
  "list_all attribute_ok avs \<Longrightarrow> parse_attributes inc rd base (attributes_text avs) pg = attributes_effect inc base avs pg"
proof (induction avs arbitrary: pg)
  case Nil
  then show ?case by (simp add: attributes_text_def parse_attributes.simps)
next
  case (Cons q avs)
  obtain a v where q: "q = (a, v)" by (cases q)
  let ?t = "attributes_text avs"
  have ok: "list_all isalnum a" "CHR 0x22 \<notin> set v" "list_all attribute_ok avs" using Cons q by (simp_all add: attribute_ok_def)
  have t: "attributes_text (q # avs) = a @ CHR ''='' # CHR 0x22 # v @ CHR 0x22 # CHR '' '' # ?t"
    by (simp add: attributes_text_def q)
  have n: "\<not> isalnum (CHR ''='')" "\<not> isspace (CHR ''='')" "\<not> isspace (CHR 0x22)" "isspace (CHR '' '')" by (simp_all add: ctype_defs)
  have "parse_attributes inc rd base (attributes_text (q # avs)) pg =
    rbind (handleAttribute inc (base @ ''.'' @ a) v pg) (parse_attributes inc rd base ?t)"
    unfolding t by (subst parse_attributes.simps)
      (simp add: alnum_prefix [OF ok(1) n(1)] n quoted_text [OF ok(2)] skip_space_attributes [OF ok(3)])
  also have "\<dots> = attributes_effect inc base (q # avs) pg" using Cons.IH [OF ok(3)] by (simp add: q rbind_def split: sum.split)
  finally show ?case .
qed

text \<open>The attributes of a directive are handled in their order, under the name of the directive.\<close>

theorem directive_handled:
  assumes "base \<noteq> []" "list_all isalnum base" "list_all attribute_ok avs"
  shows "parseAttributes inc rd ('' '' @ base @ '' '' @ attributes_text avs) pg = attributes_effect inc base avs pg"
proof -
  have n: "\<not> isalnum (CHR '' '')" "isspace (CHR '' '')" by (simp_all add: ctype_defs)
  have d: "dropWhile isspace ('' '' @ base @ '' '' @ attributes_text avs) = base @ CHR '' '' # attributes_text avs"
    using assms(1,2) n by (cases base) (auto simp: not_isspace_alnum)
  show ?thesis
    by (simp only: parseAttributes_def Let_def d alnum_prefix [OF assms(2) n(1)])
      (simp add: n skip_space_attributes [OF assms(3)] parse_attributes_text [OF assms(3)])
qed

section \<open>A page that includes itself\<close>

text \<open>The reader has no guard against a page that includes itself: no depth of nesting is enough.\<close>

definition self_page :: string where
  "self_page = ''<%@ include page='' @ [CHR 0x22] @ ''a'' @ [CHR 0x22] @ '' %>''"

lemma self_page_parsed: "parse_page inc rd self_page pg = rbind (inc ''a'' (to_handler (markup_statements []) pg)) (\<lambda>pg. Inr (to_handler (markup_statements []) pg))"
proof -
  let ?d = "'' '' @ ''include'' @ '' '' @ attributes_text [(''page'', ''a'')]"
  have t: "self_page = page_text [([], STATE_ATTR, ?d)] []"
    by (simp add: self_page_def page_text_def open_mark_def attributes_text_def)
  have "piece_ok (STATE_ATTR, ?d)" by (simp add: piece_ok_def open_mark_def attributes_text_def)
  moreover have "parseAttributes inc rd ?d pg' = inc ''a'' pg'" for pg'
    by (subst directive_handled) (simp_all add: attribute_ok_def ctype_defs handleAttribute_def rbind_def split: sum.split)
  ultimately show ?thesis
    unfolding t by (subst parse_page_pieces) (simp_all add: piece_effect_def rbind_def split: sum.split)
qed

theorem self_include_loops: "read_page n (\<lambda>_. Some self_page) rd self_page pg = Inl IncludeLoop"
  by (induction n arbitrary: rd pg) (simp_all add: self_page_parsed Let_def)

end
