(* ===== verification/CodeWriters.thy ===== *)
theory CodeWriters
  imports PageReaders
begin

text \<open>
  The code generator of the page compiler (\<^verbatim>\<open>page-compiler/code_writer.cpp\<close>) and the compilation of a list
  of pages (\<^verbatim>\<open>page-compiler/main.cpp\<close>): the header and the implementation of the class of a page, the
  factories, and the configuration of components and handlers. The writers are functions from the
  page and the name of its class to the text they write.
\<close>

section \<open>Helpers\<close>

definition EOL :: string where
  "EOL = [CHR 0x0A]"

definition TAB :: string where
  "TAB = [CHR 0x09]"

definition QUOTE :: string where
  "QUOTE = [CHR 0x22]"

lemmas text_chars = EOL_def TAB_def QUOTE_def

text \<open>\<^verbatim>\<open>split\<close> of \<^verbatim>\<open>utils.cpp\<close> has no test for an empty string.\<close>

definition page_split :: "string \<Rightarrow> char \<Rightarrow> string list" where
  "page_split str c = split_tokens c (c_str str)"

text \<open>Replacing a character, for the guard of a header file.\<close>

definition replace_char :: "char \<Rightarrow> char \<Rightarrow> string \<Rightarrow> string" where
  "replace_char a b s = map (\<lambda>c. if c = a then b else c) s"

definition guard_name :: "string \<Rightarrow> string" where
  "guard_name headerFileName = replace_char CHR ''.'' CHR ''_'' (basename headerFileName) @ ''_INCLUDED''"

section \<open>The class of a page\<close>

definition beginNamespace :: "page \<Rightarrow> string" where
  "beginNamespace pg =
     (let ns = page_getAttribute pg ''page.namespace'' []
      in if ns = [] then []
         else concat (map (\<lambda>n. ''namespace '' @ n @ '' {'' @ EOL) (page_split ns CHR '':'')) @ EOL @ EOL)"

definition endNamespace :: "page \<Rightarrow> string" where
  "endNamespace pg =
     (let ns = page_getAttribute pg ''page.namespace'' []
      in if ns = [] then []
         else EOL @ EOL @ concat (map (\<lambda>n. ''} '') (page_split ns CHR '':'')) @ ''// namespace '' @ ns @ EOL)"

definition beginGuard :: "string \<Rightarrow> string" where
  "beginGuard headerFileName =
     ''#ifndef '' @ guard_name headerFileName @ EOL @ ''#define '' @ guard_name headerFileName @ EOL @ EOL @ EOL"

definition endGuard :: "string \<Rightarrow> string" where
  "endGuard headerFileName = EOL @ EOL @ ''#endif // '' @ guard_name headerFileName @ EOL"

definition writeHandlerMembers :: "page \<Rightarrow> string" where
  "writeHandlerMembers pg =
     (let decls = pg_methods pg in if decls \<noteq> [] then EOL @ ''private:'' @ EOL @ decls @ EOL @ EOL else [])"

definition handlerClass :: "page \<Rightarrow> string \<Rightarrow> string \<Rightarrow> string \<Rightarrow> string" where
  "handlerClass pg clazz base ctorArg =
     (let exprt = page_getAttribute pg ''page.export'' [];
          exprt = (if exprt \<noteq> [] then exprt @ '' '' else exprt)
      in ''class '' @ exprt @ clazz @ '': public '' @ base @ '' {'' @ EOL @ ''public:'' @ EOL @
         (if ctorArg \<noteq> [] then TAB @ clazz @ ''('' @ ctorArg @ '');'' @ EOL @ EOL else []) @
         TAB @ ''void handleRequest(fastcgi::HttpRequest* request, fastcgi::HttpResponse* response) override;'' @ EOL @
         writeHandlerMembers pg @
         (if page_getAttribute pg ''page.path'' [] \<noteq> [] then EOL @ TAB @ ''static const std::string PATH;'' @ EOL else []) @
         ''};'' @ EOL)"

definition include_line :: "string \<Rightarrow> string" where
  "include_line name = ''#include '' @ QUOTE @ name @ QUOTE @ EOL"

definition writeHeaderIncludes :: string where
  "writeHeaderIncludes = concat (map include_line
     [''fastcgi3/component.h'', ''fastcgi3/http_request.h'', ''fastcgi3/http_response.h'', ''fastcgi3/http_servlet.h''])"

definition ctor_arg :: "page \<Rightarrow> string" where
  "ctor_arg pg = page_getAttribute pg ''page.ctorArg'' ''std::shared_ptr<fastcgi::ComponentContext> context''"

definition base_class :: "page \<Rightarrow> string" where
  "base_class pg = page_getAttribute pg ''page.baseClass'' ''fastcgi::Servlet''"

definition writeHandlerClass :: "page \<Rightarrow> string \<Rightarrow> string" where
  "writeHandlerClass pg clazz = handlerClass pg clazz (base_class pg) (ctor_arg pg)"

definition writeHeader :: "page \<Rightarrow> string \<Rightarrow> string \<Rightarrow> string" where
  "writeHeader pg clazz headerFileName =
     beginGuard headerFileName @ writeHeaderIncludes @ EOL @ EOL @
     ''#undef CPSP_CLASS_NAME'' @ EOL @ ''#define CPSP_CLASS_NAME '' @ clazz @ EOL @ EOL @
     (let decls = pg_headerDecls pg in if decls \<noteq> [] then decls @ EOL @ EOL else []) @
     beginNamespace pg @ writeHandlerClass pg clazz @ endNamespace pg @ endGuard headerFileName"

definition writeImplIncludes :: string where
  "writeImplIncludes = ''#include <iostream>'' @ EOL @ ''#include <stdexcept>'' @ EOL @
     concat (map include_line
       [''fastcgi3/logger.h'', ''fastcgi3/config.h'', ''fastcgi3/except.h'', ''fastcgi3/stream.h'', ''fastcgi3/handler.h'',
        ''fastcgi3/request.h'', ''fastcgi3/component.h'', ''fastcgi3/component_factory.h'', ''fastcgi3/http_request.h'',
        ''fastcgi3/http_response.h'', ''fastcgi3/http_servlet.h''])"

definition writeConstructor :: "page \<Rightarrow> string \<Rightarrow> string" where
  "writeConstructor pg clazz =
     clazz @ ''::'' @ clazz @ ''('' @ ctor_arg pg @ ''):'' @ EOL @
     TAB @ '' '' @ base_class pg @ ''(context) {'' @ EOL @ ''}'' @ EOL @ EOL @ EOL"

definition writeResponse :: "page \<Rightarrow> string" where
  "writeResponse pg =
     (let contentType = page_getAttribute pg ''page.contentType'' ''text/html'';
          contentLang = page_getAttribute pg ''page.contentLanguage'' []
      in TAB @ ''response->setContentType('' @ QUOTE @ contentType @ QUOTE @ '');'' @ EOL @
         (if contentLang \<noteq> [] then
            TAB @ ''if (request->hasHeader('' @ QUOTE @ ''Accept-Language'' @ QUOTE @ '')) {'' @ EOL @
            TAB @ TAB @ ''response->setHeader('' @ QUOTE @ ''Content-Language'' @ QUOTE @ '', '' @ QUOTE @ contentLang @ QUOTE @ '');'' @ EOL @
            TAB @ ''}''
          else []) @ EOL)"

text \<open>
  The regular expression \<^verbatim>\<open>_removeEmptyString\<close>: an optional white space and a statement that writes an
  empty string or a line end, in any capitalisation. \<open>match_empty\<close> is the rest of the text after a match at
  its front, and \<open>remove_empty\<close> is \<^verbatim>\<open>regex_replace\<close> with the empty text.
\<close>

definition ci_prefix :: "string \<Rightarrow> string \<Rightarrow> bool" where
  "ci_prefix p s \<longleftrightarrow> length p \<le> length s \<and> map tolower (take (length p) s) = map tolower p"

definition empty_literal :: string where
  "empty_literal = ''responseStream << '' @ [CHR 0x22, CHR 0x22, CHR '';'']"

definition newline_literal :: string where
  "newline_literal = ''responseStream << '' @ [CHR 0x22, CHR 0x5C, CHR ''n'', CHR 0x22, CHR '';'']"

definition match_empty :: "string \<Rightarrow> string option" where
  "match_empty s =
     (let t = (case s of [] \<Rightarrow> [] | c # u \<Rightarrow> if isspace c then u else s)
      in if ci_prefix empty_literal t then Some (drop (length empty_literal) t)
         else if ci_prefix newline_literal t then Some (drop (length newline_literal) t)
         else None)"

lemma match_empty_shorter: "match_empty s = Some u \<Longrightarrow> length u < length s"
  by (auto simp: match_empty_def ci_prefix_def empty_literal_def newline_literal_def Let_def split: list.splits if_splits)

function remove_empty :: "string \<Rightarrow> string" where
  "remove_empty s =
     (case s of
        [] \<Rightarrow> []
      | c # t \<Rightarrow> (case match_empty s of Some u \<Rightarrow> remove_empty u | None \<Rightarrow> c # remove_empty t))"
  by pat_completeness auto
termination
  by (relation "measure length") (auto dest: match_empty_shorter)

declare remove_empty.simps [simp del]

definition writeContent :: "page \<Rightarrow> string" where
  "writeContent pg = TAB @ ''fastcgi::HttpResponseStream responseStream(response);'' @ EOL @ remove_empty (pg_handler pg)"

definition writeHandler :: "page \<Rightarrow> string \<Rightarrow> string" where
  "writeHandler pg clazz =
     ''void'' @ EOL @ clazz @ ''::handleRequest(fastcgi::HttpRequest* request, fastcgi::HttpResponse* response) {'' @ EOL @
     writeResponse pg @
     (if page_hasAttribute ''page.precondition'' pg then
        TAB @ ''if (!('' @ page_getAttribute pg ''page.precondition'' [] @ '')) return;'' @ EOL @ EOL
      else []) @
     pg_preHandler pg @ writeContent pg @ ''}'' @ EOL"

definition writeImpl :: "page \<Rightarrow> string \<Rightarrow> string \<Rightarrow> string" where
  "writeImpl pg clazz headerFileName =
     include_line headerFileName @ writeImplIncludes @ EOL @
     (let decls = pg_implDecls pg in if decls \<noteq> [] then decls @ EOL @ EOL else []) @
     (let functions = pg_functions pg in if functions \<noteq> [] then functions @ EOL @ EOL else []) @
     beginNamespace pg @
     (let path = page_getAttribute pg ''page.path'' []
      in if path \<noteq> [] then TAB @ ''const std::string '' @ clazz @ ''::PATH('' @ QUOTE @ path @ QUOTE @ '');'' @ EOL @ EOL @ EOL else []) @
     writeConstructor pg clazz @ writeHandler pg clazz @ endNamespace pg"

section \<open>Factories and configuration\<close>

definition component_name :: "page \<Rightarrow> string \<Rightarrow> string" where
  "component_name pg clazz = page_getAttribute pg ''component.name'' clazz"

definition writeFactory :: "page \<Rightarrow> string \<Rightarrow> string \<Rightarrow> string \<times> string" where
  "writeFactory pg clazz headerFileName =
     (let componentName = component_name pg clazz
      in if componentName \<noteq> [] then
           (include_line headerFileName,
            beginNamespace pg @ ''FCGIDAEMON_ADD_DEFAULT_FACTORY('' @ QUOTE @ componentName @ QUOTE @ '', '' @ clazz @ '')'' @ EOL @ endNamespace pg)
         else ([], []))"

text \<open>The state of the compiler: the static members and the global variables.\<close>

record compiler =
  cm_components :: "(string \<times> string) list"
  cm_filters :: "(string \<times> string) list"
  cm_classes :: "(string \<times> string) list"
  cm_factoryInc :: string
  cm_factory :: string
  cm_componentsConfig :: string
  cm_handlersConfig :: string
  cm_srcFiles :: "string list"
  cm_output :: "string \<Rightarrow> string option"

record compiler_options =
  op_outputPath :: string
  op_moduleName :: string
  op_threadPoolName :: string
  op_loggerName :: string

definition component_entry :: "string \<Rightarrow> string \<Rightarrow> string \<Rightarrow> string" where
  "component_entry moduleName loggerName componentName =
     TAB @ ''<component name='' @ QUOTE @ componentName @ QUOTE @ '' type='' @ QUOTE @ moduleName @ '':'' @ componentName @ QUOTE @ ''>'' @ EOL @
     (if loggerName \<noteq> [] then TAB @ TAB @ ''<logger>'' @ loggerName @ ''</logger>'' @ EOL else []) @
     TAB @ ''</component>'' @ EOL"

definition writeComponentsConfig :: "compiler_options \<Rightarrow> page \<Rightarrow> string \<Rightarrow> compiler \<Rightarrow> page_error + compiler" where
  "writeComponentsConfig opt pg clazz cm =
     (let componentName = component_name pg clazz in
      if componentName \<noteq> [] then
        (let key = op_moduleName opt @ '':'' @ componentName in
         case om_find string_lt key (cm_components cm) of
           None \<Rightarrow> Inr (cm\<lparr>cm_componentsConfig := cm_componentsConfig cm @ component_entry (op_moduleName opt) (op_loggerName opt) componentName,
                     cm_components := om_assign string_lt key clazz (cm_components cm)\<rparr>)
         | Some prev \<Rightarrow> Inl (PageError (''duplicate component name '' @ key @ '' for class '' @ clazz @ ''; previously defined for class '' @ prev)))
      else Inr cm)"

text \<open>The selectors of the handler of a page.\<close>

definition selector :: "page \<Rightarrow> string \<Rightarrow> string \<Rightarrow> string" where
  "selector pg name attribute =
     (if page_hasAttribute name pg then
        let v = page_getAttribute pg name [] in if v \<noteq> [] then attribute @ ''='' @ QUOTE @ v @ QUOTE @ '' '' else []
      else [])"

definition handler_filter :: "page \<Rightarrow> string \<Rightarrow> string" where
  "handler_filter pg componentName =
     (let url = page_getAttribute pg ''component.url'' (''/'' @ componentName)
      in (if url \<noteq> [] then ''url='' @ QUOTE @ url @ QUOTE @ '' '' else []) @
         selector pg ''component.host'' ''host'' @ selector pg ''component.port'' ''port'' @
         selector pg ''component.address'' ''address'' @ selector pg ''component.referer'' ''referer'')"

definition handler_entry :: "string \<Rightarrow> string \<times> string \<Rightarrow> string" where
  "handler_entry threadPoolName = (\<lambda>(filter, componentName).
     TAB @ ''<handler '' @ filter @ '' pool='' @ QUOTE @ threadPoolName @ QUOTE @ ''>'' @ EOL @
     TAB @ TAB @ ''<component name='' @ QUOTE @ componentName @ QUOTE @ ''/>'' @ EOL @
     TAB @ ''</handler>'' @ EOL)"

definition writeHandlersConfig :: "compiler_options \<Rightarrow> page \<Rightarrow> string \<Rightarrow> compiler \<Rightarrow> page_error + compiler" where
  "writeHandlersConfig opt pg clazz cm =
     (let componentName = component_name pg clazz in
      if componentName \<noteq> [] then
        (let filter = handler_filter pg componentName in
         if filter \<noteq> [] then
           (case om_find string_lt filter (cm_filters cm) of
              None \<Rightarrow> Inr (cm\<lparr>cm_handlersConfig := cm_handlersConfig cm @ handler_entry (op_threadPoolName opt) (filter, componentName),
                        cm_filters := om_assign string_lt filter componentName (cm_filters cm)\<rparr>)
            | Some prev \<Rightarrow> Inl (PageError (''duplicate filter '' @ filter @ '' for component '' @ componentName @
                  ''; previously defined for component '' @ prev)))
         else Inr cm)
      else Inr cm)"

section \<open>Compiling pages\<close>

definition write_class :: "compiler_options \<Rightarrow> page \<Rightarrow> string \<Rightarrow> compiler \<Rightarrow> page_error + compiler" where
  "write_class opt pg clazz cm =
     (if clazz = [] then Inr cm
      else
        let implFileName = op_outputPath opt @ clazz @ ''.cpp'';
            headerFileName = op_outputPath opt @ clazz @ ''.h'';
            (inc, fac) = writeFactory pg clazz (basename headerFileName);
            cm = cm\<lparr>cm_output := (cm_output cm)(implFileName \<mapsto> writeImpl pg clazz (basename headerFileName),
                                             headerFileName \<mapsto> writeHeader pg clazz headerFileName),
                    cm_factoryInc := cm_factoryInc cm @ inc, cm_factory := cm_factory cm @ fac\<rparr>
        in rbind (writeComponentsConfig opt pg clazz cm) (\<lambda>cm.
           rbind (writeHandlersConfig opt pg clazz cm) (\<lambda>cm.
           Inr (cm\<lparr>cm_srcFiles := cm_srcFiles cm @ [implFileName]\<rparr>))))"

text \<open>A page that cannot be opened reads as an empty page; a page without a class is skipped.\<close>

definition parse_page_file :: "nat \<Rightarrow> (string \<Rightarrow> string option) \<Rightarrow> string \<Rightarrow> page_error + string \<times> page" where
  "parse_page_file fuel files path =
     rbind (read_page fuel files [path] (case files path of Some s \<Rightarrow> s | None \<Rightarrow> []) page_new) (\<lambda>pg.
       Inr (if page_hasAttribute ''page.class'' pg then page_getAttribute pg ''page.class'' [] else [], pg))"

definition compile :: "nat \<Rightarrow> (string \<Rightarrow> string option) \<Rightarrow> compiler_options \<Rightarrow> string \<Rightarrow> compiler \<Rightarrow> page_error + compiler" where
  "compile fuel files opt path cm =
     rbind (parse_page_file fuel files path) (\<lambda>(clazz, pg).
       if clazz \<noteq> [] then
         (case om_find string_lt clazz (cm_classes cm) of
            Some prev \<Rightarrow> Inl (PageError (''duplicate class name '' @ clazz @ '' defined in file '' @ path @ ''; previously defined in '' @ prev))
          | None \<Rightarrow> write_class opt pg clazz (cm\<lparr>cm_classes := om_assign string_lt clazz path (cm_classes cm)\<rparr>))
       else Inr cm)"

fun compile_pages :: "nat \<Rightarrow> (string \<Rightarrow> string option) \<Rightarrow> compiler_options \<Rightarrow> string list \<Rightarrow> compiler \<Rightarrow> page_error + compiler" where
  "compile_pages fuel files opt [] cm = Inr cm"
| "compile_pages fuel files opt (path # paths) cm = rbind (compile fuel files opt path cm) (compile_pages fuel files opt paths)"

definition compiler_new :: "compiler" where
  "compiler_new = \<lparr>cm_components = [], cm_filters = [], cm_classes = [], cm_factoryInc = [], cm_factory = [],
     cm_componentsConfig = [], cm_handlersConfig = [], cm_srcFiles = [], cm_output = (\<lambda>_. None)\<rparr>"

text \<open>The files that are written at the end.\<close>

definition EDIT_WARNING :: string where
  "EDIT_WARNING = ''Automatically generated file: don'' @ [CHR 0x27] @ ''t edit''"

definition factory_files :: "compiler \<Rightarrow> (string \<times> string) list" where
  "factory_files cm =
     [(''cpsp_pages.hpp'', ''// '' @ EDIT_WARNING @ EOL @ EOL @ ''#ifndef INCLUDE_AUTO_CPSP_PAGES_HPP_'' @ EOL @
        ''#define INCLUDE_AUTO_CPSP_PAGES_HPP_'' @ EOL @ cm_factoryInc cm @ ''#endif /* INCLUDE_AUTO_CPSP_PAGES_HPP_ */'' @ EOL),
      (''cpsp_factory.inc'', ''// '' @ EDIT_WARNING @ EOL @ EOL @ cm_factory cm)]"

definition config_files :: "compiler \<Rightarrow> (string \<times> string) list" where
  "config_files cm =
     (let head = ''<?xml version='' @ QUOTE @ ''1.0'' @ QUOTE @ '' ?>'' @ EOL @ EOL @ ''<!-- '' @ EDIT_WARNING @ '' -->'' @ EOL @ EOL
      in [(''components.xml'', head @ ''<components>'' @ EOL @ cm_componentsConfig cm @ ''</components>'' @ EOL),
          (''handlers.xml'', head @ ''<handlers>'' @ EOL @ cm_handlersConfig cm @ ''</handlers>'' @ EOL)])"

definition makefile_text :: "compiler_options \<Rightarrow> compiler \<Rightarrow> string" where
  "makefile_text opt cm =
     ''pkglib_LTLIBRARIES = '' @ op_moduleName opt @ ''.la'' @ EOL @ EOL @
     op_moduleName opt @ ''_la_LDFLAGS = -module'' @ EOL @
     op_moduleName opt @ ''_la_SOURCES = '' @ [CHR 0x5C] @ EOL @
     concat (map (\<lambda>src. TAB @ src @ '' '' @ [CHR 0x5C] @ EOL) (cm_srcFiles cm)) @
     TAB @ ''factory.cpp'' @ EOL @ EOL"

section \<open>What the markup of a page writes\<close>

text \<open>
  The meaning of the generated statements: \<open>decode_literal\<close> reads a string literal up to its closing quote,
  \<open>statements_output\<close> is the text that a sequence of such statements writes, \<open>None\<close> where the text is no
  sequence of well-formed statements.
\<close>

definition escape_value :: "char \<Rightarrow> char option" where
  "escape_value c = (if c = CHR ''n'' then Some (CHR 0x0A) else if c = CHR ''t'' then Some (CHR 0x09)
     else if c = CHR 0x22 then Some (CHR 0x22) else if c = CHR 0x5C then Some (CHR 0x5C) else None)"

fun decode_literal :: "string \<Rightarrow> (string \<times> string) option" where
  "decode_literal [] = None"
| "decode_literal [c] = (if c = CHR 0x22 then Some ([], []) else None)"
| "decode_literal (c # d # s) =
     (if c = CHR 0x22 then Some ([], d # s)
      else if c = CHR 0x5C then
        (case escape_value d of None \<Rightarrow> None | Some e \<Rightarrow> map_option (apfst (Cons e)) (decode_literal s))
      else if c = CHR 0x0A \<or> c = CHR 0x00 then None
      else map_option (apfst (Cons c)) (decode_literal (d # s)))"

lemma decode_literal_shorter: "decode_literal s = Some (t, u) \<Longrightarrow> length u < length s"
  by (induction s arbitrary: t u rule: decode_literal.induct) (fastforce split: if_splits option.splits)+

function statements_output :: "string \<Rightarrow> string option" where
  "statements_output s =
     (if s = [] then Some []
      else if hd s = CHR 0x0A then statements_output (tl s)
      else if take (length MARKUP_BEGIN) s = MARKUP_BEGIN then
        (case decode_literal (drop (length MARKUP_BEGIN) s) of
           Some (t, c # u) \<Rightarrow> if c = CHR '';'' then map_option ((@) t) (statements_output u) else None
         | _ \<Rightarrow> None)
      else None)"
  by pat_completeness auto
termination
  by (relation "measure length") (auto dest!: decode_literal_shorter)

declare statements_output.simps [simp del]

text \<open>The text of a page as its reader shows it: without carriage returns and without empty lines.\<close>

fun text_lines :: "string \<Rightarrow> string list" where
  "text_lines [] = [[]]"
| "text_lines (c # s) = (if c = CHR 0x0A then [c] # text_lines s else (c # hd (text_lines s)) # tl (text_lines s))"

definition visible_text :: "string \<Rightarrow> string" where
  "visible_text m = concat (filter (\<lambda>l. l \<noteq> EOL) (text_lines (filter (\<lambda>c. c \<noteq> CHR 0x0D) m)))"

text \<open>The statement of a line.\<close>

definition literal_char :: "char \<Rightarrow> string" where
  "literal_char c = (if c = CHR 0x0A then [CHR 0x5C, CHR ''n''] else if c = CHR 0x09 then [CHR 0x5C, CHR ''t'']
     else if c = CHR 0x22 then [CHR 0x5C, CHR 0x22] else [c])"

definition literal_code :: "string \<Rightarrow> string" where
  "literal_code l = concat (map literal_char l)"

definition line_statement :: "string \<Rightarrow> string" where
  "line_statement l = MARKUP_BEGIN @ literal_code l @ MARKUP_END"

lemma text_lines_not_Nil [simp]: "text_lines s \<noteq> []"
  by (induction s) auto

lemma markup_lines: "markup_text m @ MARKUP_END = 
   literal_code (hd (text_lines (filter (\<lambda>c. c \<noteq> CHR 0x0D) m))) @ MARKUP_END @
   concat (map line_statement (tl (text_lines (filter (\<lambda>c. c \<noteq> CHR 0x0D) m))))"
proof (induction m)
  case Nil
  then show ?case by (simp add: literal_code_def)
next
  case (Cons c m)
  let ?l = "text_lines (filter (\<lambda>c. c \<noteq> CHR 0x0D) m)"
  obtain l ls where l: "?l = l # ls" by (cases ?l) simp_all
  show ?case
  proof (cases "c = CHR 0x0A")
    case True
    then show ?thesis using Cons l by (simp add: markup_code_def literal_code_def literal_char_def line_statement_def)
  next
    case False
    then show ?thesis using Cons by (simp add: markup_code_def literal_code_def literal_char_def)
  qed
qed

lemma markup_statements_lines:
  "markup_statements m = concat (map line_statement (text_lines (filter (\<lambda>c. c \<noteq> CHR 0x0D) m)))"
proof -
  let ?l = "text_lines (filter (\<lambda>c. c \<noteq> CHR 0x0D) m)"
  have "concat (map line_statement ?l) = line_statement (hd ?l) @ concat (map line_statement (tl ?l))"
    by (cases ?l) simp_all
  then show ?thesis using markup_lines [of m] by (simp add: markup_statements_def line_statement_def)
qed

text \<open>A line decodes to itself.\<close>

definition literal_ok :: "char \<Rightarrow> bool" where
  "literal_ok c \<longleftrightarrow> c \<noteq> CHR 0x5C \<and> c \<noteq> CHR 0x00"

lemma decode_literal_Cons:
  "c \<noteq> CHR 0x22 \<Longrightarrow> c \<noteq> CHR 0x5C \<Longrightarrow> c \<noteq> CHR 0x0A \<Longrightarrow> c \<noteq> CHR 0x00 \<Longrightarrow>
   decode_literal (c # s) = map_option (apfst (Cons c)) (decode_literal s)"
  by (cases s) auto

lemma decode_literal_quote: "decode_literal (CHR 0x22 # s) = Some ([], s)"
  by (cases s) auto

lemma decode_literal_code: "list_all literal_ok l \<Longrightarrow> decode_literal (literal_code l @ CHR 0x22 # s) = Some (l, s)"
proof (induction l)
  case Nil
  then show ?case by (simp add: literal_code_def decode_literal_quote)
next
  case (Cons c l)
  then show ?case
    by (auto simp: literal_code_def literal_char_def literal_ok_def decode_literal_Cons escape_value_def)
qed

lemma statements_output_line:
  "list_all literal_ok l \<Longrightarrow> statements_output (line_statement l @ s) = map_option ((@) l) (statements_output s)"
proof -
  assume ok: "list_all literal_ok l"
  have lf: "statements_output (CHR 0x0A # s) = statements_output s" by (simp add: statements_output.simps [of "_ # _"])
  have "statements_output (line_statement l @ s) =
    (case decode_literal (literal_code l @ CHR 0x22 # CHR '';'' # CHR 0x0A # s) of
       Some (t, c # u) \<Rightarrow> if c = CHR '';'' then map_option ((@) t) (statements_output u) else None | _ \<Rightarrow> None)"
    by (subst statements_output.simps) (simp add: line_statement_def MARKUP_BEGIN_def MARKUP_END_def)
  then show ?thesis by (simp add: decode_literal_code [OF ok] lf)
qed

text \<open>The removal of empty statements leaves every other statement as it is.\<close>

lemma remove_empty_None: "match_empty (c # t) = None \<Longrightarrow> remove_empty (c # t) = c # remove_empty t"
  by (simp add: remove_empty.simps [of "c # t"])

lemma remove_empty_Nil [simp]: "remove_empty [] = []"
  by (simp add: remove_empty.simps)

lemma tolower_fixed: "\<not> isupper d \<Longrightarrow> \<not> islower d \<Longrightarrow> tolower c = d \<longleftrightarrow> c = d"
proof (cases "isupper c")
  case True
  assume d: "\<not> isupper d" "\<not> islower d"
  have "islower (tolower c)" using True by (simp add: tolower_def isupper_def islower_def)
  then show ?thesis using d True by auto
qed (simp add: tolower_def)

lemma tolower_eq: "tolower c = CHR 0x22 \<longleftrightarrow> c = CHR 0x22" "tolower c = CHR 0x5C \<longleftrightarrow> c = CHR 0x5C"
  "tolower c = CHR '' '' \<longleftrightarrow> c = CHR '' ''"
  by (rule tolower_fixed; simp add: ctype_defs)+

definition head_text :: string where
  "head_text = ''responseStream << ''"

lemma ci_prefix_nth: "ci_prefix p s \<Longrightarrow> i < length p \<Longrightarrow> i < length s \<and> tolower (s ! i) = tolower (p ! i)"
  unfolding ci_prefix_def by (metis length_map length_take min.absorb2 nth_map nth_take order_less_le_trans)

text \<open>In the code of a literal every quote follows a backslash.\<close>

definition quotes_escaped :: "string \<Rightarrow> bool" where
  "quotes_escaped w \<longleftrightarrow> successively (\<lambda>a b. b = CHR 0x22 \<longrightarrow> a = CHR 0x5C) w"

lemma no_empty_statement:
  assumes "quotes_escaped w" "p = CHR 0x22 \<or> p = CHR 0x5C"
  shows "\<not> ci_prefix (head_text @ CHR 0x22 # p # q) (w @ CHR 0x22 # CHR '';'' # s)"
proof
  define t where "t = w @ CHR 0x22 # CHR '';'' # s"
  assume "ci_prefix (head_text @ CHR 0x22 # p # q) (w @ CHR 0x22 # CHR '';'' # s)"
  note n = ci_prefix_nth [OF this, folded t_def]
  have len: "length head_text = 18" by (simp add: head_text_def)
  have low: "tolower (CHR 0x22) = CHR 0x22" "tolower (CHR 0x5C) = CHR 0x5C" "tolower (CHR '' '') = CHR '' ''"
    by (simp_all add: ctype_defs)
  have q: "t ! 18 = CHR 0x22" using n [of 18] by (simp add: len nth_append tolower_eq low)
  have q1: "t ! 17 = CHR '' ''" using n [of 17] by (simp add: len nth_append tolower_eq head_text_def low)
  have q2: "t ! 19 = p" using n [of 19] assms(2) by (auto simp add: len nth_append tolower_eq low)
  consider "length w < 18" | "length w = 18" | "18 < length w" by linarith
  then show False
  proof cases
    case 1
    then have "tolower (head_text ! length w) = CHR 0x22" using n [of "length w"] by (simp add: len nth_append low t_def)
    moreover have "list_all (\<lambda>c. tolower c \<noteq> CHR 0x22) head_text" by (simp add: head_text_def tolower_eq)
    ultimately show False using 1 len by (simp add: list_all_length)
  next
    case 2
    then show False using q2 assms(2) by (auto simp: t_def nth_append)
  next
    case 3
    then have "w ! 17 = CHR 0x5C" using assms(1) q by (auto simp: quotes_escaped_def successively_conv_nth nth_append t_def)
    then show False using q1 3 by (simp add: nth_append t_def)
  qed
qed

lemma quotes_escaped_tl: "quotes_escaped (c # w) \<Longrightarrow> quotes_escaped w"
  by (cases w) (simp_all add: quotes_escaped_def)

lemma empty_literal_head: "empty_literal = head_text @ CHR 0x22 # CHR 0x22 # '';''"
  "newline_literal = head_text @ CHR 0x22 # CHR 0x5C # [CHR ''n'', CHR 0x22, CHR '';'']"
  by (simp_all add: empty_literal_def newline_literal_def head_text_def)

lemma match_empty_inside:
  assumes "quotes_escaped w" shows "match_empty (w @ CHR 0x22 # CHR '';'' # s) = None"
proof -
  have n: "\<not> ci_prefix empty_literal (v @ CHR 0x22 # CHR '';'' # s) \<and> \<not> ci_prefix newline_literal (v @ CHR 0x22 # CHR '';'' # s)"
    if "quotes_escaped v" for v
    using no_empty_statement [OF that] by (simp add: empty_literal_head)
  show ?thesis
    using n [OF assms] n [OF quotes_escaped_tl, of "hd w" "tl w"] assms
    by (cases w) (auto simp: match_empty_def isspace_def)
qed

lemma remove_empty_inside: "quotes_escaped w \<Longrightarrow> remove_empty (w @ CHR 0x22 # CHR '';'' # s) = w @ remove_empty (CHR 0x22 # CHR '';'' # s)"
proof (induction w)
  case (Cons c w)
  then show ?case using match_empty_inside [OF Cons.prems, of s] quotes_escaped_tl [OF Cons.prems] by (simp add: remove_empty_None)
qed simp

lemma quotes_escaped_append:
  "quotes_escaped v \<Longrightarrow> quotes_escaped w \<Longrightarrow> (w = [] \<or> hd w \<noteq> CHR 0x22) \<Longrightarrow> quotes_escaped (v @ w)"
  by (auto simp: quotes_escaped_def successively_append_iff)

lemma literal_code_Nil_iff [simp]: "literal_code l = [] \<longleftrightarrow> l = []"
  by (cases l) (auto simp: literal_code_def literal_char_def)

lemma hd_literal_code: "l \<noteq> [] \<Longrightarrow> hd (literal_code l) \<noteq> CHR 0x22"
  by (cases l) (auto simp: literal_code_def literal_char_def)

lemma quotes_escaped_code: "quotes_escaped (literal_code l)"
proof (induction l)
  case Nil
  then show ?case by (simp add: literal_code_def quotes_escaped_def)
next
  case (Cons c l)
  have "quotes_escaped (literal_char c)" by (simp add: literal_char_def quotes_escaped_def)
  then have "quotes_escaped (literal_char c @ literal_code l)"
    using Cons hd_literal_code [of l] by (intro quotes_escaped_append) auto
  then show ?case by (simp add: literal_code_def)
qed

text \<open>What follows a statement is the end or a tabulator.\<close>

definition at_statement :: "string \<Rightarrow> bool" where
  "at_statement s \<longleftrightarrow> s = [] \<or> hd s = CHR 0x09"

lemma match_empty_first: "\<not> isspace c \<Longrightarrow> tolower c \<noteq> CHR ''r'' \<Longrightarrow> match_empty (c # s) = None"
  by (auto simp: match_empty_def ci_prefix_def empty_literal_def newline_literal_def ctype_defs)

lemma remove_empty_EOL: "at_statement s \<Longrightarrow> remove_empty (CHR 0x0A # s) = CHR 0x0A # remove_empty s"
proof -
  assume "at_statement s"
  then have "match_empty (CHR 0x0A # s) = None"
    by (cases s) (auto simp: at_statement_def match_empty_def ci_prefix_def empty_literal_def newline_literal_def ctype_defs)
  then show ?thesis by (rule remove_empty_None)
qed

lemma remove_empty_end: "at_statement s \<Longrightarrow> remove_empty (MARKUP_END @ s) = MARKUP_END @ remove_empty s"
proof -
  assume s: "at_statement s"
  have "match_empty (CHR 0x22 # t) = None" "match_empty (CHR '';'' # t) = None" for t
    by (rule match_empty_first; simp add: ctype_defs)+
  then show ?thesis using remove_empty_EOL [OF s] by (simp add: MARKUP_END_def remove_empty_None)
qed

text \<open>The head of a statement whose literal is neither empty nor a single line end.\<close>

lemma ci_prefix_append [simp]: "ci_prefix (p @ x) (p @ y) \<longleftrightarrow> ci_prefix x y"
  by (auto simp: ci_prefix_def)

lemma ci_prefix_Cons: "ci_prefix (a # p) s \<longleftrightarrow> (\<exists>c t. s = c # t \<and> tolower c = tolower a \<and> ci_prefix p t)"
  by (cases s) (auto simp: ci_prefix_def)

lemma ci_prefix_Cons_Cons [simp]: "ci_prefix (a # p) (c # t) \<longleftrightarrow> tolower c = tolower a \<and> ci_prefix p t"
  by (simp add: ci_prefix_Cons)

lemma ci_prefix_self: "ci_prefix p (p @ s)"
  by (simp add: ci_prefix_def)

definition nonblank_code :: "string \<Rightarrow> bool" where
  "nonblank_code w \<longleftrightarrow> \<not> ci_prefix [CHR 0x22, CHR '';''] w \<and> \<not> ci_prefix [CHR 0x5C, CHR ''n'', CHR 0x22, CHR '';''] w"

lemma remove_empty_head:
  assumes "nonblank_code w"
  shows "remove_empty (MARKUP_BEGIN @ w) = MARKUP_BEGIN @ remove_empty w"
proof -
  let ?p = "head_text @ [CHR 0x22]"
  have e: "empty_literal = ?p @ [CHR 0x22, CHR '';'']" "newline_literal = ?p @ [CHR 0x5C, CHR ''n'', CHR 0x22, CHR '';'']"
    by (simp_all add: empty_literal_head)
  have "\<not> ci_prefix empty_literal (?p @ w)" "\<not> ci_prefix newline_literal (?p @ w)"
    using assms unfolding e ci_prefix_append nonblank_code_def by simp_all
  then have m: "match_empty (CHR 0x09 # ?p @ w) = None" "match_empty (?p @ w) = None"
    by (simp_all add: match_empty_def head_text_def ctype_defs)
  have small: "char_of (115 :: nat) = CHR ''s''" using byte_eq_iff_char_of [of 115 "CHR ''s''"] by simp
  have m': "match_empty (c # t) = None" if "c \<in> set ''esponStam<'' \<union> {CHR 0x22}" for c t
    by (rule match_empty_first) (use that in \<open>auto simp: ctype_defs small\<close>)
  have m2: "match_empty (CHR ''r'' # CHR ''e'' # CHR ''a'' # t) = None" "match_empty (CHR '' '' # CHR ''<'' # t) = None"
    "match_empty (CHR '' '' # CHR 0x22 # t) = None" for t
    by (simp_all add: match_empty_def ci_prefix_Cons empty_literal_def newline_literal_def ctype_defs)
  have "remove_empty (CHR 0x09 # ?p @ w) = CHR 0x09 # ?p @ remove_empty w"
    using m by (simp add: head_text_def remove_empty_None m' m2)
  then show ?thesis by (simp add: MARKUP_BEGIN_def head_text_def)
qed

lemma remove_empty_line:
  assumes "nonblank_code (literal_code l @ MARKUP_END @ s)" "at_statement s"
  shows "remove_empty (line_statement l @ s) = line_statement l @ remove_empty s"
  using remove_empty_head [OF assms(1)] remove_empty_inside [OF quotes_escaped_code, of l "CHR 0x0A # s"]
    remove_empty_end [OF assms(2)]
  by (simp add: line_statement_def MARKUP_END_def)

lemma remove_empty_blank:
  assumes "l = [] \<or> l = EOL" "at_statement s"
  shows "remove_empty (line_statement l @ s) = CHR 0x0A # remove_empty s"
proof -
  have lit: "line_statement [] @ s = CHR 0x09 # empty_literal @ CHR 0x0A # s"
    "line_statement EOL @ s = CHR 0x09 # newline_literal @ CHR 0x0A # s"
    by (simp_all add: line_statement_def MARKUP_BEGIN_def MARKUP_END_def literal_code_def literal_char_def EOL_def
      empty_literal_def newline_literal_def)
  have "\<not> ci_prefix empty_literal (newline_literal @ CHR 0x0A # s)"
    unfolding empty_literal_head append_assoc ci_prefix_append by (simp add: ctype_defs)
  then have "match_empty (line_statement l @ s) = Some (CHR 0x0A # s)"
    using assms(1) ci_prefix_self [of empty_literal] ci_prefix_self [of newline_literal]
    by (auto simp: lit match_empty_def isspace_def)
  moreover obtain c t where "line_statement l @ s = c # t" by (auto simp: line_statement_def MARKUP_BEGIN_def)
  ultimately show ?thesis using remove_empty_EOL [OF assms(2)] by (simp add: remove_empty.simps [of "c # t"])
qed

text \<open>A line: line ends only at its end, and no backslash or zero byte.\<close>

definition line_ok :: "string \<Rightarrow> bool" where
  "line_ok l \<longleftrightarrow> list_all literal_ok l \<and> CHR 0x0A \<notin> set (butlast l)"

lemma nonblank_line:
  assumes "line_ok l" "l \<noteq> []" "l \<noteq> EOL" shows "nonblank_code (literal_code l @ s)"
proof -
  obtain c m where l: "l = c # m" using assms(2) by (cases l) auto
  have c: "c \<noteq> CHR 0x0A" "c \<noteq> CHR 0x5C" using assms l by (auto simp: line_ok_def literal_ok_def EOL_def split: if_splits)
  have t: "tolower (CHR 0x22) = CHR 0x22" "tolower (CHR 0x5C) = CHR 0x5C" "tolower (CHR ''t'') = CHR ''t''" "tolower (CHR ''n'') = CHR ''n''"
    by (simp_all add: ctype_defs)
  show ?thesis
    using c by (simp add: l literal_code_def literal_char_def nonblank_code_def tolower_eq t)
qed

lemma at_statement_lines: "at_statement (concat (map line_statement ls))"
  by (cases ls) (simp_all add: at_statement_def line_statement_def MARKUP_BEGIN_def)

lemma statements_output_EOL: "statements_output (CHR 0x0A # s) = statements_output s"
  by (simp add: statements_output.simps [of "_ # _"])

lemma statements_output_lines:
  "list_all line_ok ls \<Longrightarrow>
   statements_output (remove_empty (concat (map line_statement ls))) = Some (concat (filter (\<lambda>l. l \<noteq> EOL) ls))"
proof (induction ls)
  case Nil
  then show ?case by (simp add: statements_output.simps)
next
  case (Cons l ls)
  let ?s = "concat (map line_statement ls)"
  show ?case
  proof (cases "l = [] \<or> l = EOL")
    case True
    then show ?thesis using Cons remove_empty_blank [OF True at_statement_lines [of ls]] by (auto simp: statements_output_EOL EOL_def)
  next
    case False
    then have "remove_empty (line_statement l @ ?s) = line_statement l @ remove_empty ?s"
      using Cons by (intro remove_empty_line nonblank_line at_statement_lines) simp_all
    then show ?thesis using Cons False by (simp add: statements_output_line line_ok_def)
  qed
qed

lemma text_lines_ok: "list_all literal_ok s \<Longrightarrow> list_all line_ok (text_lines s)"
proof (induction s)
  case Nil
  then show ?case by (simp add: line_ok_def)
next
  case (Cons c s)
  obtain l ls where "text_lines s = l # ls" by (cases "text_lines s") simp_all
  then show ?case using Cons by (auto simp: line_ok_def)
qed

text \<open>
  A compiled page writes its text: the statements that the compiler generates for a page without
  blocks are well-formed C++ string output, and what they write is the text of the page without
  carriage returns and without empty lines. The text has no opening mark, no backslash and no zero
  byte.
\<close>

theorem markup_written:
  assumes "no_opening m" "list_all literal_ok m"
  shows "\<exists>pg body. parse_page inc rd m page_new = Inr pg \<and>
    writeContent pg = TAB @ ''fastcgi::HttpResponseStream responseStream(response);'' @ EOL @ body \<and>
    statements_output body = Some (visible_text m)"
proof -
  have p: "parse_page inc rd m page_new = Inr (page_new\<lparr>pg_handler := markup_statements m\<rparr>)"
    using parse_page_pieces [of "[]" m inc rd page_new] assms(1) by (simp add: page_text_def to_handler_def page_new_def)
  have "list_all literal_ok (filter (\<lambda>c. c \<noteq> CHR 0x0D) m)" using assms(2) by (auto simp: list_all_iff)
  then have "statements_output (remove_empty (markup_statements m)) = Some (visible_text m)"
    by (simp add: markup_statements_lines statements_output_lines text_lines_ok visible_text_def)
  then show ?thesis using p by (auto simp: writeContent_def)
qed

theorem markup_written_witness:
  "\<exists>pg body. parse_page (\<lambda>path. Inr) [''p''] (''<p>'' @ EOL @ EOL @ ''Say '' @ QUOTE @ ''hi'' @ QUOTE @ EOL) page_new = Inr pg \<and>
    writeContent pg = TAB @ ''fastcgi::HttpResponseStream responseStream(response);'' @ EOL @ body \<and>
    statements_output body = Some (''<p>'' @ EOL @ ''Say '' @ QUOTE @ ''hi'' @ QUOTE @ EOL)"
  using markup_written [of "''<p>'' @ EOL @ EOL @ ''Say '' @ QUOTE @ ''hi'' @ QUOTE @ EOL" "\<lambda>path. Inr" "[''p'']"]
  by (auto simp: visible_text_def text_chars literal_ok_def)

end
