(* ===== verification/Directories.thy ===== *)
theory Directories
  imports StringUtils
begin

text \<open>
  Making directories (\<^verbatim>\<open>FileSystemUtils::createDirectories\<close> of \<^verbatim>\<open>library/util.cpp\<close> and the function of the same name in
  \<^verbatim>\<open>page-compiler/utils.cpp\<close>).

  The directories there are form a list of paths without a slash at the end. \<open>refused\<close> is the error number with which the
  operating system refuses to make a directory, zero where it makes it.
\<close>

section \<open>Directories\<close>

definition EEXIST :: nat where
  "EEXIST = 17"

definition dir_path :: "string \<Rightarrow> string" where
  "dir_path f = rev (dropWhile (\<lambda>c. c = CHR ''/'') (rev f))"

definition mkdir :: "(string list \<Rightarrow> string \<Rightarrow> nat) \<Rightarrow> string \<Rightarrow> string list \<Rightarrow> nat \<times> string list" where
  "mkdir refused f ds =
     (if dir_path f \<in> set ds then (EEXIST, ds)
      else if refused ds (dir_path f) \<noteq> 0 then (refused ds (dir_path f), ds)
      else (0, ds @ [dir_path f]))"

section \<open>The library\<close>

fun make_folders :: "(string list \<Rightarrow> string \<Rightarrow> nat) \<Rightarrow> string \<Rightarrow> string list \<Rightarrow> string list \<Rightarrow> nat + string list" where
  "make_folders refused newFolder [] ds = Inr ds"
| "make_folders refused newFolder (dir # dirs) ds =
     (let newFolder = newFolder @ ''/'' @ dir; (errno, ds) = mkdir refused newFolder ds
      in if 0 \<noteq> errno \<and> EEXIST \<noteq> errno then Inl errno else make_folders refused newFolder dirs ds)"

definition createDirectories :: "(string list \<Rightarrow> string \<Rightarrow> nat) \<Rightarrow> string \<Rightarrow> string list \<Rightarrow> nat + string list" where
  "createDirectories refused path ds = make_folders refused [] (split path CHR ''/'' []) ds"

section \<open>The page compiler\<close>

text \<open>The first name gets no slash when the path is relative; \<^verbatim>\<open>path.at(0)\<close> throws for an empty path.\<close>

datatype dir_error = EmptyPath | NotMade nat

fun make_page_folders :: "(string list \<Rightarrow> string \<Rightarrow> nat) \<Rightarrow> string \<Rightarrow> string \<Rightarrow> string list \<Rightarrow> string list \<Rightarrow> dir_error + string list" where
  "make_page_folders refused path newFolder [] ds = Inr ds"
| "make_page_folders refused path newFolder (dir # dirs) ds =
     (if newFolder = [] \<and> path = [] then Inl EmptyPath
      else
        let newFolder = (if newFolder = [] \<and> hd path \<noteq> CHR ''/'' then newFolder @ dir else newFolder @ ''/'' @ dir)
        in if dir_path newFolder \<in> set ds then make_page_folders refused path newFolder dirs ds
           else
             let (errno, ds) = mkdir refused newFolder ds
             in if 0 \<noteq> errno \<and> EEXIST \<noteq> errno then Inl (NotMade errno)
                else make_page_folders refused path newFolder dirs ds)"

definition page_createDirectories :: "(string list \<Rightarrow> string \<Rightarrow> nat) \<Rightarrow> string \<Rightarrow> string list \<Rightarrow> dir_error + string list" where
  "page_createDirectories refused path ds = make_page_folders refused path [] (split_tokens CHR ''/'' (c_str path)) ds"

section \<open>What is made\<close>

text \<open>The folders of a list of names below a folder.\<close>

fun folders :: "string \<Rightarrow> string list \<Rightarrow> string list" where
  "folders p [] = []"
| "folders p (d # dirs) = dir_path (p @ ''/'' @ d) # folders (p @ ''/'' @ d) dirs"

lemma mkdir_made: "mkdir refused f ds = (e, ds') \<Longrightarrow> e = 0 \<or> e = EEXIST \<Longrightarrow> refused ds (dir_path f) \<noteq> EEXIST \<Longrightarrow>
    set ds' = insert (dir_path f) (set ds)"
  by (auto simp: mkdir_def EEXIST_def split: if_splits)

text \<open>A directory that is there already is the only reason for \<^verbatim>\<open>EEXIST\<close>.\<close>

definition honest :: "(string list \<Rightarrow> string \<Rightarrow> nat) \<Rightarrow> bool" where
  "honest refused \<longleftrightarrow> (\<forall>ds f. refused ds f \<noteq> EEXIST)"

lemma make_folders_made:
  "honest refused \<Longrightarrow> make_folders refused p dirs ds = Inr ds' \<Longrightarrow> set ds' = set ds \<union> set (folders p dirs)"
proof (induction dirs arbitrary: p ds)
  case (Cons d dirs)
  obtain e ds1 where m: "mkdir refused (p @ ''/'' @ d) ds = (e, ds1)" by (cases "mkdir refused (p @ ''/'' @ d) ds") auto
  have e: "e = 0 \<or> e = EEXIST" using Cons.prems(2) m by (auto simp: Let_def split: if_splits)
  have "set ds1 = insert (dir_path (p @ ''/'' @ d)) (set ds)"
    using mkdir_made [OF m e] Cons.prems(1) by (simp add: honest_def)
  moreover have "set ds' = set ds1 \<union> set (folders (p @ ''/'' @ d) dirs)"
    using Cons.IH [OF Cons.prems(1), of "p @ ''/'' @ d" ds1] Cons.prems(2) m e by (auto simp: Let_def)
  ultimately show ?case by auto
qed simp

text \<open>
  A successful call has made the folders of the path and no others; they are all below the root, also for a path that
  is relative.
\<close>

lemma createDirectories_made:
  assumes "honest refused" "createDirectories refused path ds = Inr ds'"
  shows "set ds' = set ds \<union> set (folders [] (split path CHR ''/'' []))"
  using make_folders_made [OF assms(1)] assms(2) by (simp add: createDirectories_def)

lemma createDirectories_relative:
  "createDirectories (\<lambda>_ _. 0) ''log/app'' [] = Inr [''/log'', ''/log/app'']"
  by (simp add: createDirectories_def split_def c_str_def mkdir_def dir_path_def)

lemma page_createDirectories_relative:
  "page_createDirectories (\<lambda>_ _. 0) ''out/gen'' [] = Inr [''out'', ''out/gen'']"
  by (simp add: page_createDirectories_def c_str_def mkdir_def dir_path_def)

end
