(* ===== verification/PageCompilers.thy ===== *)
theory PageCompilers
  imports CodeWriters Directories
begin

text \<open>
  The program of the page compiler (\<^verbatim>\<open>page-compiler/main.cpp\<close>): its command line, the search for pages and the whole run.

  \<open>listing\<close> gives the names in a directory, none for one that cannot be opened; the directories and the refusals of the
  operating system are those of \<^theory_text>\<open>Directories\<close>. What the program prints is left out.
\<close>

section \<open>The command line\<close>

record command_line =
  cl_options :: compiler_options
  cl_updateMakefile :: bool
  cl_updateFactory :: bool
  cl_updateConfigFiles :: bool
  cl_verbose :: bool
  cl_pages :: "string list"
  cl_dirs :: "string list"

definition command_line_new :: "string list \<Rightarrow> command_line" where
  "command_line_new ds =
     \<lparr>cl_options = \<lparr>op_outputPath = ''./'', op_moduleName = ''server_pages'', op_threadPoolName = ''work_pool'',
        op_loggerName = ''daemon-logger''\<rparr>,
      cl_updateMakefile = False, cl_updateFactory = False, cl_updateConfigFiles = False, cl_verbose = False,
      cl_pages = [], cl_dirs = ds\<rparr>"

text \<open>
  What ends the program while it reads its arguments: an exception of \<^verbatim>\<open>at\<close> or of the making of directories, which nothing
  catches, or the access to a part of a template that is not there, which is undefined.
\<close>

datatype arg_error = Uncaught dir_error | MissingPart

definition hasExt :: "string \<Rightarrow> string \<Rightarrow> bool" where
  "hasExt s ext \<longleftrightarrow> length s \<ge> length ext \<and> take (length ext) (rev s) = rev ext"

definition listFiles :: "(string \<Rightarrow> string list) \<Rightarrow> string \<Rightarrow> string \<Rightarrow> string list" where
  "listFiles listing path ext =
     filter (\<lambda>n. n \<noteq> ''.'' \<and> n \<noteq> ''..'' \<and> take 1 n \<noteq> ''.'' \<and> hasExt n ext) (listing path)"

definition page_arg :: "(string \<Rightarrow> string list) \<Rightarrow> string \<Rightarrow> command_line \<Rightarrow> arg_error + command_line" where
  "page_arg listing s cl =
     (if CHR ''*'' \<in> set s then
        (case page_split s CHR ''*'' of
           t0 # t1 # _ \<Rightarrow>
             let path = (if 0 = length t0 then ''./'' else take (length t0 - 1) t0)
             in Inr (cl\<lparr>cl_pages := cl_pages cl @ map (\<lambda>f. path @ f) (listFiles listing path t1)\<rparr>)
         | _ \<Rightarrow> Inl MissingPart)
      else Inr (cl\<lparr>cl_pages := cl_pages cl @ [s]\<rparr>))"

definition truth :: "string \<Rightarrow> bool" where
  "truth v = (let v = map tolower v in v = ''yes'' \<or> v = ''true'' \<or> v = ''1'')"

definition set_outputPath :: "(string list \<Rightarrow> string \<Rightarrow> nat) \<Rightarrow> string \<Rightarrow> command_line \<Rightarrow> arg_error + command_line" where
  "set_outputPath refused p cl =
     (case page_createDirectories refused p (cl_dirs cl) of
        Inl e \<Rightarrow> Inl (Uncaught e)
      | Inr ds \<Rightarrow>
          Inr (cl\<lparr>cl_options := (cl_options cl)\<lparr>op_outputPath := (if CHR ''/'' \<noteq> last p then p @ ''/'' else p)\<rparr>, cl_dirs := ds\<rparr>))"

definition value_arg :: "(string list \<Rightarrow> string \<Rightarrow> nat) \<Rightarrow> string \<Rightarrow> command_line \<Rightarrow> arg_error + command_line" where
  "value_arg refused s cl =
     (let p = page_split s CHR ''='' in
      if 2 = length p then
        let name = map tolower (drop 1 (p ! 0)); v = p ! 1 in
        if name = ''outputpath'' then set_outputPath refused v cl
        else if name = ''modulename'' then Inr (cl\<lparr>cl_options := (cl_options cl)\<lparr>op_moduleName := v\<rparr>\<rparr>)
        else if name = ''threadpoolname'' then Inr (cl\<lparr>cl_options := (cl_options cl)\<lparr>op_threadPoolName := v\<rparr>\<rparr>)
        else if name = ''loggername'' then Inr (cl\<lparr>cl_options := (cl_options cl)\<lparr>op_loggerName := v\<rparr>\<rparr>)
        else if name = ''updatemakefile'' \<or> name = ''makefile'' then Inr (cl\<lparr>cl_updateMakefile := truth v\<rparr>)
        else if name = ''updatefactory'' \<or> name = ''factory'' then Inr (cl\<lparr>cl_updateFactory := truth v\<rparr>)
        else if name = ''updateconfig'' \<or> name = ''config'' then Inr (cl\<lparr>cl_updateConfigFiles := truth v\<rparr>)
        else if name = ''v'' \<or> name = ''verbose'' then Inr (cl\<lparr>cl_verbose := truth v\<rparr>)
        else Inr cl
      else Inr cl)"

definition switch_arg :: "string \<Rightarrow> command_line \<Rightarrow> command_line" where
  "switch_arg s cl =
     (let name = drop 1 s in
      if name = ''updatemakefile'' \<or> name = ''makefile'' then cl\<lparr>cl_updateMakefile := True\<rparr>
      else if name = ''updatefactory'' \<or> name = ''factory'' then cl\<lparr>cl_updateFactory := True\<rparr>
      else if name = ''updateconfig'' \<or> name = ''config'' then cl\<lparr>cl_updateConfigFiles := True\<rparr>
      else if name = ''v'' \<or> name = ''verbose'' then cl\<lparr>cl_verbose := True\<rparr>
      else cl)"

fun read_args :: "(string list \<Rightarrow> string \<Rightarrow> nat) \<Rightarrow> (string \<Rightarrow> string list) \<Rightarrow> string list \<Rightarrow> command_line \<Rightarrow> arg_error + command_line" where
  "read_args refused listing [] cl = Inr cl"
| "read_args refused listing (s # args) cl =
     rbind (if s = [] then Inl (Uncaught EmptyPath)
            else if hd s \<noteq> CHR ''-'' then page_arg listing s cl
            else if CHR ''='' \<in> set s then value_arg refused s cl
            else Inr (switch_arg s cl))
       (read_args refused listing args)"

section \<open>The run\<close>

text \<open>
  The end of the program: the help, the exit code for success with the files, the exit code for failure with the error, or
  the end by an uncaught exception or undefined behaviour.
\<close>

datatype page_exit = Help | ExitSuccess "string \<Rightarrow> string option" | ExitFailure page_error | Aborted arg_error

fun write_files :: "string \<Rightarrow> (string \<times> string) list \<Rightarrow> (string \<Rightarrow> string option) \<Rightarrow> string \<Rightarrow> string option" where
  "write_files outputPath [] out = out"
| "write_files outputPath ((name, text) # fs) out = write_files outputPath fs (out(outputPath @ name \<mapsto> text))"

definition compiled_files :: "command_line \<Rightarrow> compiler \<Rightarrow> string \<Rightarrow> string option" where
  "compiled_files cl cm =
     write_files (op_outputPath (cl_options cl))
       ((if cl_updateFactory cl then factory_files cm else []) @
        (if cl_updateConfigFiles cl then config_files cm else []) @
        (if cl_updateMakefile cl then [(''Makefile.am'', makefile_text (cl_options cl) cm)] else []))
       (cm_output cm)"

definition page_main :: "nat \<Rightarrow> (string \<Rightarrow> string option) \<Rightarrow> (string list \<Rightarrow> string \<Rightarrow> nat) \<Rightarrow> (string \<Rightarrow> string list) \<Rightarrow> string list \<Rightarrow>
    string list \<Rightarrow> page_exit" where
  "page_main fuel files refused listing ds args =
     (case read_args refused listing args (command_line_new ds) of
        Inl e \<Rightarrow> Aborted e
      | Inr cl \<Rightarrow>
          if cl_pages cl = [] then Help
          else
            (case compile_pages fuel files (cl_options cl) (cl_pages cl) compiler_new of
               Inl e \<Rightarrow> ExitFailure e
             | Inr cm \<Rightarrow> ExitSuccess (compiled_files cl cm)))"

section \<open>What is proved of the command line\<close>

lemma split_no:
  assumes "c \<notin> set s" "s \<noteq> []" shows "split_tokens c s = [s]"
proof -
  obtain x r where s: "s = x # r" using assms(2) by (cases s) auto
  have "takeWhile (\<lambda>y. y \<noteq> c) r = r" "dropWhile (\<lambda>y. y \<noteq> c) r = []" using assms(1) s by (induction r) auto
  with assms(1) show ?thesis by (simp add: s del: dropWhile_eq_Nil_conv) metis
qed

lemma split_at:
  assumes "c \<notin> set a" "c \<notin> set b" "a \<noteq> []" "b \<noteq> []"
  shows "split_tokens c (a @ c # b) = [a, b]"
proof -
  obtain x a' where a: "a = x # a'" using assms(3) by (cases a) auto
  have "takeWhile (\<lambda>y. y \<noteq> c) (a' @ c # b) = a'" "dropWhile (\<lambda>y. y \<noteq> c) (a' @ c # b) = c # b"
    using assms(1) unfolding a by (induction a') auto
  then show ?thesis using assms by (auto simp: a split_no)
qed

text \<open>
  A template \<^verbatim>\<open>path/*.ext\<close> gives the matching files of the directory, but under names without the slash between
  the directory and the file; a template without a directory has no second part and its use is undefined.
\<close>

theorem template_pages:
  assumes "CHR ''*'' \<notin> set path" "CHR ''*'' \<notin> set ext" "CHR 0x00 \<notin> set path" "CHR 0x00 \<notin> set ext" "ext \<noteq> []"
  shows "page_arg listing (path @ ''/*'' @ ext) cl =
      Inr (cl\<lparr>cl_pages := cl_pages cl @ map (\<lambda>f. path @ f) (listFiles listing path ext)\<rparr>) \<and>
    page_arg listing (CHR ''*'' # ext) cl = Inl MissingPart"
proof
  have c: "c_str (path @ ''/*'' @ ext) = (path @ ''/'') @ CHR ''*'' # ext" "c_str (CHR ''*'' # ext) = CHR ''*'' # ext"
    using assms(3,4) by (auto simp: c_str_def takeWhile_eq_all_conv takeWhile_append)
  have "page_split (path @ ''/*'' @ ext) CHR ''*'' = [path @ ''/'', ext]"
    using split_at [of "CHR ''*''" "path @ ''/''" ext] assms c by (simp add: page_split_def)
  then show "page_arg listing (path @ ''/*'' @ ext) cl =
      Inr (cl\<lparr>cl_pages := cl_pages cl @ map (\<lambda>f. path @ f) (listFiles listing path ext)\<rparr>)"
    by (simp add: page_arg_def)
  have "page_split (CHR ''*'' # ext) CHR ''*'' = [ext]" using c split_no [of "CHR ''*''" ext] assms by (simp add: page_split_def)
  then show "page_arg listing (CHR ''*'' # ext) cl = Inl MissingPart" by (simp add: page_arg_def)
qed

theorem template_pages_witness:
  "page_arg (\<lambda>d. if d = ''pages'' then [''.'', ''index.cpsp'', ''notes.txt''] else []) ''pages/*.cpsp'' (command_line_new []) =
     Inr ((command_line_new [])\<lparr>cl_pages := [''pagesindex.cpsp'']\<rparr>)"
  using template_pages [of "''pages''" "''.cpsp''" "\<lambda>d. if d = ''pages'' then [''.'', ''index.cpsp'', ''notes.txt''] else []" "command_line_new []"]
  by (simp add: listFiles_def hasExt_def command_line_new_def)

text \<open>A switch without a value is not read in any case of letters, one with a value is.\<close>

lemma switch_case:
  "switch_arg ''-updateFactory'' cl = cl" "value_arg refused ''-updateFactory=true'' cl = Inr (cl\<lparr>cl_updateFactory := True\<rparr>)"
  by (simp_all add: switch_arg_def value_arg_def page_split_def c_str_def truth_def tolower_def isupper_def char_of_def bit_0)

text \<open>The directory of the output ends with a slash once it is set.\<close>

lemma outputPath_slash:
  "set_outputPath refused p cl = Inr cl' \<Longrightarrow> last (op_outputPath (cl_options cl')) = CHR ''/''"
  by (auto simp: set_outputPath_def split: sum.splits)

end
