(* ===== verification/Cookies.thy ===== *)
theory Cookies
  imports Dates OMaps
begin

text \<open>
  Cookies of a response (\<^verbatim>\<open>library/cookie.cpp\<close>): the data of a cookie, its setters, and the text of the
  \<^verbatim>\<open>Set-Cookie\<close> header.
\<close>

definition MAX_EXPIRES_TIME :: int where
  "MAX_EXPIRES_TIME = 2 ^ 31 - 1"

record cookie =
  ck_secure :: bool
  ck_http_only :: bool
  ck_encode :: bool
  ck_expires :: int
  ck_name :: string
  ck_value :: string
  ck_path :: string
  ck_domain :: string

definition cookie_new :: "string \<Rightarrow> string \<Rightarrow> cookie" where
  "cookie_new name val =
     \<lparr>ck_secure = False, ck_http_only = False, ck_encode = False, ck_expires = 0,
      ck_name = name, ck_value = val, ck_path = ''/'', ck_domain = []\<rparr>"

definition cookie_set_secure :: "bool \<Rightarrow> cookie \<Rightarrow> cookie" where
  "cookie_set_secure v c = c\<lparr>ck_secure := v\<rparr>"

definition cookie_set_httpOnly :: "bool \<Rightarrow> cookie \<Rightarrow> cookie" where
  "cookie_set_httpOnly v c = c\<lparr>ck_http_only := v\<rparr>"

definition cookie_set_expires :: "int \<Rightarrow> cookie \<Rightarrow> cookie" where
  "cookie_set_expires v c = c\<lparr>ck_expires := v\<rparr>"

definition cookie_set_path :: "string \<Rightarrow> cookie \<Rightarrow> cookie" where
  "cookie_set_path v c = c\<lparr>ck_path := v\<rparr>"

definition cookie_set_domain :: "string \<Rightarrow> cookie \<Rightarrow> cookie" where
  "cookie_set_domain v c = c\<lparr>ck_domain := v\<rparr>"

definition cookie_permanent :: "cookie \<Rightarrow> bool" where
  "cookie_permanent c \<longleftrightarrow> ck_expires c = MAX_EXPIRES_TIME"

definition cookie_set_permanent :: "bool \<Rightarrow> cookie \<Rightarrow> cookie" where
  "cookie_set_permanent v c = c\<lparr>ck_expires := (if v then MAX_EXPIRES_TIME else 0)\<rparr>"

definition cookie_urlEncode :: "bool \<Rightarrow> cookie \<Rightarrow> cookie" where
  "cookie_urlEncode v c = c\<lparr>ck_encode := v\<rparr>"

definition cookie_toString :: "cookie \<Rightarrow> string result" where
  "cookie_toString c =
     rbind (if ck_expires c \<noteq> 0
            then rbind (format_date (ck_expires c)) (\<lambda>d. Inr (''; expires='' @ d)) else Inr [])
       (\<lambda>expires.
         Inr (ck_name c @ ''='' @
           (if ck_encode c then urlencode_string (ck_value c) else ck_value c) @
           (if ck_domain c \<noteq> [] then ''; domain='' @ ck_domain c else []) @
           (if ck_path c \<noteq> [] then ''; path='' @ ck_path c else []) @
           expires @
           (if ck_secure c then ''; secure'' else []) @
           (if ck_http_only c then ''; HttpOnly'' else [])))"

text \<open>\<^verbatim>\<open>operator<\<close>: a set of cookies is ordered by name, so it holds one cookie per name.\<close>

definition cookie_lt :: "cookie \<Rightarrow> cookie \<Rightarrow> bool" where
  "cookie_lt c d = string_lt (ck_name c) (ck_name d)"

end
