(* ===== verification/HeaderNames.thy ===== *)
theory HeaderNames
  imports Dates OMaps
begin

text \<open>
  The functions of \<^verbatim>\<open>library/parser.cpp\<close> that work on text alone: status texts, the boundary of a
  multipart message, and the two normal forms of header names.
\<close>

definition statusToString :: "u16 \<Rightarrow> string" where
  "statusToString status =
     (if status = 200 then ''OK''
      else if status = 201 then ''Created''
      else if status = 202 then ''Accepted''
      else if status = 203 then ''Partial Information''
      else if status = 204 then ''No Response''
      else if status = 301 then ''Moved''
      else if status = 302 then ''Moved Temporarily''
      else if status = 303 then ''Method''
      else if status = 304 then ''Not Modified''
      else if status = 400 then ''Bad request''
      else if status = 401 then ''Unauthorized''
      else if status = 402 then ''PaymentRequired''
      else if status = 403 then ''Forbidden''
      else if status = 404 then ''Not found''
      else if status = 405 then ''Method not allowed''
      else if status = 500 then ''Internal Error''
      else if status = 501 then ''Not implemented''
      else if status = 502 then ''Bad Gateway''
      else if status = 503 then ''Service Unavailable''
      else ''Unknown status'')"

text \<open>
  \<^verbatim>\<open>strncasecmp(s, p, n) == 0\<close> for a text \<open>s\<close> of length \<open>n\<close> and the C string at \<open>p\<close>, which may extend
  beyond a range that begins at \<open>p\<close>.
\<close>

definition strncasecmp_eq :: "string \<Rightarrow> string \<Rightarrow> bool" where
  "strncasecmp_eq s p \<longleftrightarrow> eq_ci (take (length s) p) s"

definition rg_cstr :: "range \<Rightarrow> string" where
  "rg_cstr r = c_str (drop (rg_begin r) (rg_mem r))"

definition getBoundary :: "range \<Rightarrow> string result" where
  "getBoundary r =
     (let (_, _, tail) = rg_split_char r (CHR '';''); tail = rg_trim tail
      in if strncasecmp_eq ''boundary'' (rg_cstr tail) then
           let (_, _, val) = rg_split_char tail (CHR ''=''); boundary = rg_trim val
           in if \<not> rg_empty boundary \<and> rg_startsWith boundary [CHR 0x22] then
                if rg_size boundary < 2 \<or> \<not> rg_endsWith boundary [CHR 0x22]
                then Inl (RuntimeError ''incomplete boundary quotation'')
                else Inr (''--'' @ rg_str (rg_trimn boundary 1 1))
              else Inr (''--'' @ rg_str boundary)
         else Inr [])"

function normalizeInput_loop :: "range \<Rightarrow> string \<Rightarrow> string" where
  "normalizeInput_loop tmp res =
     (if rg_empty tmp then res
      else
        let (splitted, head, tail) = rg_split_char tmp (CHR ''_'');
            res = res @ rg_str head;
            res = (if splitted then res @ ''-'' else res)
        in normalizeInput_loop tail res)"
  by pat_completeness auto
termination
  by (relation "measure (\<lambda>(r, s). rg_len r)") (auto simp: rg_empty_def dest: rg_split_char_less [OF sym])

declare normalizeInput_loop.simps [simp del]

definition normalizeInputHeaderName :: "range \<Rightarrow> string" where
  "normalizeInputHeaderName r = normalizeInput_loop r []"

lemma rg_trim_len: "rg_len (rg_trim r) \<le> rg_len r"
  using subrange_len [OF subrange_trim] .

function normalizeOutput_loop :: "range \<Rightarrow> string \<Rightarrow> string" where
  "normalizeOutput_loop r res =
     (if rg_empty r then res
      else
        let (_, head, tail) = rg_split_char r (CHR ''-'');
            res = (if \<not> rg_empty head then res @ [toupper (hd (rg_str head))] else res);
            res = (if rg_size head > 1 then res @ tl (rg_str head) else res);
            r = rg_trim tail;
            res = (if \<not> rg_empty r then res @ ''-'' else res)
        in normalizeOutput_loop r res)"
  by pat_completeness auto
termination
  by (relation "measure (\<lambda>(r, s). rg_len r)")
    (auto simp: rg_empty_def dest!: rg_split_char_less [OF sym] intro: le_less_trans [OF rg_trim_len])

declare normalizeOutput_loop.simps [simp del]

definition normalizeOutputHeaderName :: "string \<Rightarrow> string" where
  "normalizeOutputHeaderName name = normalizeOutput_loop (rg_trim (rg_fromString name)) []"

section \<open>Input names\<close>

lemma cut_first_cases:
  obtains (absent) "c \<notin> set s" "cut_first c s = (s, [])"
  | (present) u w where "s = u @ c # w" "c \<notin> set u" "cut_first c s = (u, w)"
proof (cases "c \<in> set s")
  case True
  then obtain u w where "s = u @ c # w" "c \<notin> set u" by (meson split_list_first)
  with present show ?thesis by (simp add: cut_first_append)
qed (use absent cut_first_absent in blast)

lemma normalizeInput_text:
  "range_ok r \<Longrightarrow> normalizeInput_loop r res = res @ map (\<lambda>c. if c = CHR ''_'' then CHR ''-'' else c) (rg_str r)"
proof (induction r res rule: normalizeInput_loop.induct)
  case (1 tmp res)
  let ?f = "\<lambda>c. if c = CHR ''_'' then CHR ''-'' else c"
  show ?case
  proof (cases "rg_empty tmp")
    case True
    with 1(2) show ?thesis by (subst normalizeInput_loop.simps) (simp add: rg_empty_str)
  next
    case False
    obtain sp head tail where h: "rg_split_char tmp (CHR ''_'') = (sp, head, tail)" by (metis prod_cases3)
    note hs = rg_split_char_str [OF 1(2) h]
    define res' where "res' = (if sp then (res @ rg_str head) @ ''-'' else res @ rg_str head)"
    have step: "normalizeInput_loop tmp res = normalizeInput_loop tail res'"
      using False by (subst normalizeInput_loop.simps) (simp add: h res'_def)
    have IH: "normalizeInput_loop tail res' = res' @ map ?f (rg_str tail)"
      using 1(1) [OF False h [symmetric] refl refl refl res'_def] hs(5) by simp
    have cf: "cut_first (CHR ''_'') (rg_str tmp) = (rg_str head, rg_str tail)"
      by (simp only: cut_first_def hs(2,3))
    have id: "CHR ''_'' \<notin> set u \<Longrightarrow> map ?f u = u" for u by (induction u) auto
    show ?thesis
      using cf hs(1) id unfolding step IH
      by (cases rule: cut_first_cases [of "CHR ''_''" "rg_str tmp"]) (auto simp: res'_def)
  qed
qed

text \<open>A CGI variable name becomes a header name: underscores become hyphens, nothing else changes.\<close>

lemma normalizeInputHeaderName_text:
  "range_ok r \<Longrightarrow> normalizeInputHeaderName r = map (\<lambda>c. if c = CHR ''_'' then CHR ''-'' else c) (rg_str r)"
  by (simp add: normalizeInputHeaderName_def normalizeInput_text)

section \<open>The boundary of a multipart message\<close>

lemma c_str_append: "CHR 0x00 \<notin> set p \<Longrightarrow> c_str (p @ x) = p @ c_str x"
  by (induction p) (auto simp: c_str_def)

lemma range_ok_trim [simp]: "range_ok r \<Longrightarrow> range_ok (rg_trim r)"
  using subrange_trim subrange_ok by blast

lemma rg_cstr_prefix:
  assumes "range_ok r" "rg_str r = p @ q" "CHR 0x00 \<notin> set p"
  shows "take (length p) (rg_cstr r) = p"
proof -
  have "drop (rg_begin r) (rg_mem r) = rg_str r @ drop (rg_end r) (rg_mem r)"
    by (simp add: rg_str_def slice_def rg_end_def) (metis append_take_drop_id drop_drop add.commute)
  then have "drop (rg_begin r) (rg_mem r) = p @ q @ drop (rg_end r) (rg_mem r)" by (simp add: assms(2))
  then show ?thesis using assms(3) by (simp add: rg_cstr_def c_str_append)
qed

lemma trim_str_id: "s = [] \<or> \<not> isspace (hd s) \<and> \<not> isspace (last s) \<Longrightarrow> trim_str s = s"
  by (auto simp: trim_str_def dropWhile_id_hd hd_rev)

lemma rg_endsWith_str [range_simps]:
  "range_ok r \<Longrightarrow> rg_endsWith r s \<longleftrightarrow> length s \<le> length (rg_str r) \<and>
     drop (length (rg_str r) - length s) (rg_str r) = s"
  by (auto simp: rg_endsWith_def rg_str_def slice_def rg_size_def range_ok_def rg_end_def drop_take
      min_absorb2 add.commute)

lemma getBoundary_text:
  assumes "range_ok r" "trim_str (snd (cut_first (CHR '';'') (rg_str r))) = ''boundary='' @ v"
  shows "getBoundary r =
    (let b = trim_str v
     in if b \<noteq> [] \<and> hd b = CHR 0x22 then
          if length b < 2 \<or> last b \<noteq> CHR 0x22 then Inl (RuntimeError ''incomplete boundary quotation'')
          else Inr (''--'' @ butlast (tl b))
        else Inr (''--'' @ b))"
proof -
  obtain f1 h1 t1 where s1: "rg_split_char r (CHR '';'') = (f1, h1, t1)" by (metis prod_cases3)
  note t1 = rg_split_char_str [OF assms(1) s1]
  have ok: "range_ok (rg_trim t1)" using t1(5) by simp
  have tx: "rg_str (rg_trim t1) = ''boundary='' @ v"
    using assms(2) by (simp add: rg_str_trim t1(3,5) cut_first_def)
  have "take (length ''boundary'') (rg_cstr (rg_trim t1)) = ''boundary''"
    by (rule rg_cstr_prefix [OF ok, of _ "''='' @ v"]) (simp_all add: tx)
  then have bd: "strncasecmp_eq ''boundary'' (rg_cstr (rg_trim t1))" by (simp add: strncasecmp_eq_def)
  obtain f2 h2 t2 where s2: "rg_split_char (rg_trim t1) (CHR ''='') = (f2, h2, t2)" by (metis prod_cases3)
  note t2 = rg_split_char_str [OF ok s2]
  have "rg_str t2 = v" by (simp add: t2(3) tx)
  then have b: "rg_str (rg_trim t2) = trim_str v" and okb: "range_ok (rg_trim t2)"
    using t2(5) by (simp_all add: rg_str_trim)
  let ?b = "trim_str v"
  have len: "rg_size (rg_trim t2) = length ?b" using length_rg_str [OF okb] by (simp add: rg_size_def b)
  have e: "rg_empty (rg_trim t2) \<longleftrightarrow> ?b = []" by (simp add: rg_empty_str [OF okb] b)
  have st: "rg_startsWith (rg_trim t2) [CHR 0x22] \<longleftrightarrow> ?b \<noteq> [] \<and> hd ?b = CHR 0x22"
    by (cases ?b) (auto simp: rg_startsWith_str [OF okb] b)
  have en: "?b \<noteq> [] \<Longrightarrow> rg_endsWith (rg_trim t2) [CHR 0x22] \<longleftrightarrow> last ?b = CHR 0x22"
    by (cases ?b rule: rev_cases) (auto simp: rg_endsWith_str [OF okb] b)
  have tr: "rg_str (rg_trimn (rg_trim t2) 1 1) = butlast (tl ?b)"
    using rg_str_trimn [OF okb, of 1 1] len
    by (simp add: b rg_size_def butlast_conv_take drop_Suc)
  show ?thesis
    by (simp add: getBoundary_def s1 bd s2 Let_def e st en len tr b)
qed

text \<open>
  The boundary of a multipart message is read from its content type: an unquoted boundary
  (without quotes and surrounding spaces) and any quoted one are returned after the two hyphens
  that begin a boundary line; a quotation that is not closed is an error.
\<close>

theorem getBoundary_correct:
  assumes "v = [] \<or> \<not> isspace (hd v) \<and> \<not> isspace (last v)" "v = [] \<or> hd v \<noteq> CHR 0x22"
  shows "getBoundary (rg_fromString (''multipart/form-data; boundary='' @ v)) = Inr (''--'' @ v) \<and>
    getBoundary (rg_fromString (''multipart/form-data; boundary='' @ CHR 0x22 # w @ [CHR 0x22])) = Inr (''--'' @ w) \<and>
    getBoundary (rg_fromString (''multipart/form-data; boundary='' @ [CHR 0x22])) =
      Inl (RuntimeError ''incomplete boundary quotation'')"
proof -
  have tail: "trim_str (snd (cut_first (CHR '';'') (rg_str (rg_fromString (''multipart/form-data; boundary='' @ u)))))
      = ''boundary='' @ u" if "u = [] \<or> \<not> isspace (last u)" for u
    using that by (auto simp: cut_first_def trim_str_def isspace_def hd_append dropWhile_id_hd hd_rev)
  have v: "trim_str v = v" using assms(1) by (rule trim_str_id)
  have q: "trim_str (CHR 0x22 # u @ [CHR 0x22]) = CHR 0x22 # u @ [CHR 0x22]" for u
    by (rule trim_str_id) (simp add: isspace_def)
  have q1: "trim_str [CHR 0x22] = [CHR 0x22]" by (rule trim_str_id) (simp add: isspace_def)
  show ?thesis
  proof (intro conjI)
    show "getBoundary (rg_fromString (''multipart/form-data; boundary='' @ v)) = Inr (''--'' @ v)"
      using getBoundary_text [OF range_ok_fromString tail [of v]] assms by (auto simp: v Let_def)
    show "getBoundary (rg_fromString (''multipart/form-data; boundary='' @ CHR 0x22 # w @ [CHR 0x22])) = Inr (''--'' @ w)"
      using getBoundary_text [OF range_ok_fromString tail [of "CHR 0x22 # w @ [CHR 0x22]"]]
      by (simp add: q Let_def isspace_def butlast_append)
    show "getBoundary (rg_fromString (''multipart/form-data; boundary='' @ [CHR 0x22])) =
        Inl (RuntimeError ''incomplete boundary quotation'')"
      using getBoundary_text [OF range_ok_fromString tail [of "[CHR 0x22]"]]
      by (simp add: q1 Let_def isspace_def)
  qed
qed

theorem getBoundary_correct_witness:
  "getBoundary (rg_fromString ''multipart/form-data; boundary=xyz'') = Inr ''--xyz''"
  using getBoundary_correct [of "''xyz''"] by (simp add: isspace_def)

end
