(* ===== verification/StringBuffers.thy ===== *)
theory StringBuffers
  imports HashUtils
begin

text \<open>
  The contract of \<^verbatim>\<open>DataBufferImpl\<close> (\<^verbatim>\<open>include/fastcgi3/data_buffer_impl.h\<close>) as a locale, and its
  implementation \<^verbatim>\<open>StringBuffer\<close> (\<^verbatim>\<open>library/string_buffer.cpp\<close>), a vector of characters.
  A \<^verbatim>\<open>char*\<close> with a length handed out by a buffer is the text it points to; access to memory outside
  of the vector is the error \<^const>\<open>OutOfBounds\<close>.
\<close>

section \<open>The contract of a buffer\<close>

text \<open>
  \<open>bytes\<close> is the content of a buffer and \<open>invar\<close> its invariant. The trimming operation is not part
  of the contract: the two implementations of it differ.
\<close>

locale buffer_contract =
  fixes invar :: "'b \<Rightarrow> bool"
    and bytes :: "'b \<Rightarrow> string"
    and at :: "'b \<Rightarrow> u64 \<Rightarrow> char result"
    and read :: "'b \<Rightarrow> u64 \<Rightarrow> u64 \<Rightarrow> string result"
    and put :: "'b \<Rightarrow> u64 \<Rightarrow> string \<Rightarrow> 'b result"
    and find :: "'b \<Rightarrow> u64 \<Rightarrow> u64 \<Rightarrow> string \<Rightarrow> u64 result"
    and chunk :: "'b \<Rightarrow> u64 \<Rightarrow> string result"
    and segment :: "'b \<Rightarrow> u64 \<Rightarrow> u64 \<times> u64"
    and size :: "'b \<Rightarrow> u64"
    and resize :: "'b \<Rightarrow> u64 \<Rightarrow> 'b result"
  assumes bytes_length: "invar b \<Longrightarrow> length (bytes b) < 2 ^ 63"
    and size_law: "invar b \<Longrightarrow> unat (size b) = length (bytes b)"
    and at_law: "invar b \<Longrightarrow> unat i < length (bytes b) \<Longrightarrow> at b i = Inr (bytes b ! unat i)"
    and read_law: "invar b \<Longrightarrow> unat i + unat n \<le> length (bytes b) \<Longrightarrow>
      read b i n = Inr (slice (unat i) (unat n) (bytes b))"
    and put_law: "invar b \<Longrightarrow> unat i + length d \<le> length (bytes b) \<Longrightarrow>
      \<exists>b'. put b i d = Inr b' \<and> invar b' \<and> bytes b' = overwrite (unat i) d (bytes b)"
    and find_law: "invar b \<Longrightarrow> i < e \<Longrightarrow> unat e \<le> length (bytes b) \<Longrightarrow> pat \<noteq> [] \<Longrightarrow>
      length pat < 2 ^ 63 \<Longrightarrow>
      find b i e pat = Inr (of_nat (std_search (bytes b) (unat i) (unat e - unat i) pat))"
    and chunk_law: "invar b \<Longrightarrow> unat i < length (bytes b) \<Longrightarrow>
      \<exists>n. segment b i = (i, n) \<and> i < n \<and>
        chunk b i = Inr (slice (unat i) (unat n - unat i) (bytes b))"
    and resize_law: "invar b \<Longrightarrow> unat n < 2 ^ 62 \<Longrightarrow>
      \<exists>b'. resize b n = Inr b' \<and> invar b' \<and>
        bytes b' = take (unat n) (bytes b) @ replicate (unat n - length (bytes b)) (CHR 0x00)"
begin

lemma put_bytes:
  "invar b \<Longrightarrow> unat i + length d \<le> length (bytes b) \<Longrightarrow> put b i d = Inr b' \<Longrightarrow>
   invar b' \<and> bytes b' = overwrite (unat i) d (bytes b)"
  using put_law [of b i d] by auto

lemma read_after_put:
  assumes "invar b" "unat i + length d \<le> length (bytes b)" "put b i d = Inr b'"
  shows "read b' i (of_nat (length d)) = Inr d"
proof -
  have "length d < 2 ^ 64" using assms(2) bytes_length [OF assms(1)] by simp
  then have "unat (of_nat (length d) :: u64) = length d" by (rule unat_of_nat_u64)
  then show ?thesis
    using put_bytes [OF assms] read_law [of b' i "of_nat (length d)"] assms(2)
    by (simp add: slice_simps)
qed

end

section \<open>StringBuffer\<close>

record string_buffer =
  sb_data :: string

definition sb_new :: "string \<Rightarrow> string_buffer" where
  "sb_new data = \<lparr>sb_data = data\<rparr>"

definition sb_size :: "string_buffer \<Rightarrow> u64" where
  "sb_size b = of_nat (length (sb_data b))"

definition sb_read :: "string_buffer \<Rightarrow> u64 \<Rightarrow> u64 \<Rightarrow> string result" where
  "sb_read b pos len =
     (if unat pos + unat len \<le> length (sb_data b)
      then Inr (slice (unat pos) (unat len) (sb_data b)) else Inl OutOfBounds)"

definition sb_write :: "string_buffer \<Rightarrow> u64 \<Rightarrow> string \<Rightarrow> string_buffer result" where
  "sb_write b pos data =
     (if unat pos + length data \<le> length (sb_data b)
      then Inr (b\<lparr>sb_data := overwrite (unat pos) data (sb_data b)\<rparr>) else Inl OutOfBounds)"

definition sb_at :: "string_buffer \<Rightarrow> u64 \<Rightarrow> char result" where
  "sb_at b pos =
     (if unat pos < length (sb_data b) then Inr (sb_data b ! unat pos)
      else Inl (OutOfRange ''vector''))"

definition sb_range :: "string_buffer \<Rightarrow> u64 \<Rightarrow> u64 \<Rightarrow> range result" where
  "sb_range b bg en =
     (if bg \<le> en \<and> unat en \<le> length (sb_data b)
      then Inr \<lparr>rg_mem = sb_data b, rg_begin = unat bg, rg_len = unat en - unat bg\<rparr>
      else Inl OutOfBounds)"

definition sb_find :: "string_buffer \<Rightarrow> u64 \<Rightarrow> u64 \<Rightarrow> string \<Rightarrow> u64 result" where
  "sb_find b bg en buf =
     (if length buf > unat (en - bg) then Inr en
      else rbind (sb_range b bg en) (\<lambda>base. Inr (of_nat (rg_find base buf))))"

definition sb_trim :: "string_buffer \<Rightarrow> u64 \<Rightarrow> u64 \<Rightarrow> (u64 \<times> u64) result" where
  "sb_trim b bg en =
     rbind (sb_range b bg en)
       (\<lambda>base. let trimmed = rg_trim base
               in Inr (of_nat (rg_begin trimmed), of_nat (rg_end trimmed)))"

definition sb_chunk :: "string_buffer \<Rightarrow> u64 \<Rightarrow> string result" where
  "sb_chunk b pos =
     (if unat pos \<le> length (sb_data b) then Inr (drop (unat pos) (sb_data b)) else Inl OutOfBounds)"

definition sb_segment :: "string_buffer \<Rightarrow> u64 \<Rightarrow> u64 \<times> u64" where
  "sb_segment b pos = (pos, sb_size b)"

text \<open>\<^verbatim>\<open>std::vector<char>\<close> holds at most \<open>2\<^sup>6\<^sup>3 - 1\<close> characters; new ones are zero.\<close>

definition sb_resize :: "string_buffer \<Rightarrow> u64 \<Rightarrow> string_buffer result" where
  "sb_resize b sz =
     (if unat sz < 2 ^ 63
      then Inr (b\<lparr>sb_data := take (unat sz) (sb_data b) @
             replicate (unat sz - length (sb_data b)) (CHR 0x00)\<rparr>)
      else Inl (LengthError ''vector::_M_default_append''))"

definition sb_filename :: "string_buffer \<Rightarrow> string" where
  "sb_filename b = []"

lemmas sb_defs = sb_size_def sb_read_def sb_write_def sb_at_def sb_range_def sb_find_def sb_trim_def
  sb_chunk_def sb_segment_def sb_resize_def

definition sb_ok :: "string_buffer \<Rightarrow> bool" where
  "sb_ok b \<longleftrightarrow> length (sb_data b) < 2 ^ 63"

text \<open>Searching for one character and searching for a text of length one agree.\<close>

lemma std_find_search: "b + n \<le> length m \<Longrightarrow> std_find m b n c = std_search m b n [c]"
  by (induction m b n c rule: std_find.induct) (auto simp: slice_Suc)

lemma rg_find_search:
  "range_ok r \<Longrightarrow> rg_find r pat = std_search (rg_mem r) (rg_begin r) (rg_len r) pat"
  by (cases pat) (auto simp: rg_find_def rg_find_char_def range_ok_def rg_end_def std_find_search length_Suc_conv)

lemma std_search_short: "length pat > n \<Longrightarrow> std_search m b n pat = b + n"
  by (induction m b n pat rule: std_search.induct) auto

lemma sb_find_search:
  assumes "bg \<le> en" "unat en \<le> length (sb_data b)"
  shows "sb_find b bg en pat = Inr (of_nat (std_search (sb_data b) (unat bg) (unat en - unat bg) pat))"
proof -
  have sub: "unat (en - bg) = unat en - unat bg"
    using assms(1) by (simp add: unat_sub_u64 word_le_nat_alt)
  have le: "unat bg \<le> unat en" using assms(1) by (simp add: word_le_nat_alt)
  show ?thesis
    using assms le
    by (auto simp: sb_find_def sb_range_def sub std_search_short rg_find_search range_ok_def rg_end_def)
qed

interpretation sb: buffer_contract sb_ok sb_data sb_at sb_read sb_write sb_find sb_chunk sb_segment
  sb_size sb_resize
proof
  fix b :: string_buffer and i e n :: u64 and d pat :: string
  assume ok: "sb_ok b"
  then have len: "length (sb_data b) < 2 ^ 63" by (simp add: sb_ok_def)
  then show "length (sb_data b) < 2 ^ 63" .
  from len show "unat (sb_size b) = length (sb_data b)" by (simp add: sb_size_def)
  show "unat i < length (sb_data b) \<Longrightarrow> sb_at b i = Inr (sb_data b ! unat i)"
    by (simp add: sb_at_def)
  show "unat i + unat n \<le> length (sb_data b) \<Longrightarrow> sb_read b i n = Inr (slice (unat i) (unat n) (sb_data b))"
    by (simp add: sb_read_def)
  show "unat i + length d \<le> length (sb_data b) \<Longrightarrow>
      \<exists>b'. sb_write b i d = Inr b' \<and> sb_ok b' \<and> sb_data b' = overwrite (unat i) d (sb_data b)"
    using len by (simp add: sb_write_def sb_ok_def)
  show "i < e \<Longrightarrow> unat e \<le> length (sb_data b) \<Longrightarrow> sb_find b i e pat =
      Inr (of_nat (std_search (sb_data b) (unat i) (unat e - unat i) pat))"
    by (simp add: sb_find_search)
  show "unat i < length (sb_data b) \<Longrightarrow> \<exists>n. sb_segment b i = (i, n) \<and> i < n \<and>
      sb_chunk b i = Inr (slice (unat i) (unat n - unat i) (sb_data b))"
    using len by (simp add: sb_segment_def sb_chunk_def sb_size_def word_less_nat_alt slice_def)
  show "unat n < 2 ^ 62 \<Longrightarrow> \<exists>b'. sb_resize b n = Inr b' \<and> sb_ok b' \<and>
      sb_data b' = take (unat n) (sb_data b) @ replicate (unat n - length (sb_data b)) (CHR 0x00)"
    using len by (simp add: sb_resize_def sb_ok_def)
qed

end
