(* ===== verification/FileBuffers.thy ===== *)
theory FileBuffers
  imports StringBuffers
begin

text \<open>
  \<^verbatim>\<open>MMapFile\<close> (\<^verbatim>\<open>library/mmap_file.cpp\<close>), a file of which one window at a time is mapped into memory,
  and \<^verbatim>\<open>FileBuffer\<close> (\<^verbatim>\<open>library/file_buffer.cpp\<close>), the implementation of \<^verbatim>\<open>DataBufferImpl\<close> on it.

  A pointer into the mapping is the file offset it stands for. Reading through it is checked against
  the current mapping and the end of the file (\<^const>\<open>OutOfBounds\<close> otherwise), so that the theorems
  show that no access leaves the mapped window. The system calls \<^verbatim>\<open>open\<close>, \<^verbatim>\<open>mmap\<close>, \<^verbatim>\<open>munmap\<close> and
  \<^verbatim>\<open>ftruncate\<close> are taken to succeed. The mutex of a buffer only serialises the calls.
\<close>

section \<open>MMapFile\<close>

record mmap_file =
  mm_bytes :: string
  mm_pointer :: bool
  mm_size :: u64
  mm_window :: u64
  mm_segment_start :: u64
  mm_segment_len :: u64
  mm_page_size :: u64

definition mm_checkWindow :: "mmap_file \<Rightarrow> mmap_file" where
  "mm_checkWindow m =
     (if mm_window m = 0 then m\<lparr>mm_window := 10 * mm_page_size m\<rparr>
      else
        let window_index = mm_window m div mm_page_size m;
            offset = mm_window m - window_index * mm_page_size m;
            window_index = (if offset \<noteq> 0 then window_index + 1 else window_index)
        in m\<lparr>mm_window := mm_page_size m * window_index\<rparr>)"

definition mm_mapped :: "mmap_file \<Rightarrow> u64 \<Rightarrow> u64 \<Rightarrow> bool" where
  "mm_mapped m bg en \<longleftrightarrow> bg \<ge> mm_segment_start m \<and> en \<le> mm_segment_start m + mm_segment_len m"

definition mm_unmap :: "mmap_file \<Rightarrow> mmap_file" where
  "mm_unmap m =
     (if mm_pointer m
      then m\<lparr>mm_pointer := False, mm_segment_start := 0, mm_segment_len := 0\<rparr> else m)"

definition mm_map_range :: "mmap_file \<Rightarrow> u64 \<Rightarrow> u64 \<Rightarrow> mmap_file" where
  "mm_map_range m bg en =
     (if mm_mapped m bg en then m
      else
        let m = mm_unmap m;
            begin_base = mm_page_size m * (bg div mm_page_size m)
        in m\<lparr>mm_pointer := True, mm_segment_start := begin_base, mm_segment_len := en - begin_base\<rparr>)"

definition mm_map_segment :: "mmap_file \<Rightarrow> u64 \<Rightarrow> mmap_file" where
  "mm_map_segment m segment =
     (let pos = segment * mm_window m in mm_map_range m pos (pos + mm_window m))"

definition mm_open :: "string \<Rightarrow> u64 \<Rightarrow> u64 \<Rightarrow> mmap_file" where
  "mm_open content window page_size =
     mm_map_segment
       (mm_checkWindow
         \<lparr>mm_bytes = content, mm_pointer = False, mm_size = of_nat (length content), mm_window = window,
          mm_segment_start = 0, mm_segment_len = 0, mm_page_size = page_size\<rparr>) 0"

definition mm_clone :: "mmap_file \<Rightarrow> mmap_file" where
  "mm_clone m =
     mm_map_segment
       (mm_checkWindow (m\<lparr>mm_pointer := False, mm_segment_start := 0, mm_segment_len := 0\<rparr>)) 0"

definition mm_resize :: "mmap_file \<Rightarrow> u64 \<Rightarrow> mmap_file" where
  "mm_resize m newsize =
     (let m = mm_unmap m;
          m = m\<lparr>mm_bytes := take (unat newsize) (mm_bytes m) @
                  replicate (unat newsize - length (mm_bytes m)) (CHR 0x00)\<rparr>
      in mm_map_segment (m\<lparr>mm_size := newsize\<rparr>) 0)"

definition mm_check_index :: "mmap_file \<Rightarrow> u64 \<Rightarrow> unit result" where
  "mm_check_index m index =
     (if index \<ge> mm_size m then Inl (OutOfRange ''mapped file index out of range'') else Inr ())"

text \<open>The \<open>n\<close> characters at a pointer into the mapping, and a block copied there.\<close>

definition mm_deref :: "mmap_file \<Rightarrow> nat \<Rightarrow> nat \<Rightarrow> string result" where
  "mm_deref m off n =
     (if mm_pointer m \<and> unat (mm_segment_start m) \<le> off
       \<and> off + n \<le> unat (mm_segment_start m) + unat (mm_segment_len m) \<and> off + n \<le> length (mm_bytes m)
      then Inr (slice off n (mm_bytes m)) else Inl OutOfBounds)"

definition mm_store :: "mmap_file \<Rightarrow> nat \<Rightarrow> string \<Rightarrow> mmap_file result" where
  "mm_store m off d =
     rbind (mm_deref m off (length d)) (\<lambda>_. Inr (m\<lparr>mm_bytes := overwrite off d (mm_bytes m)\<rparr>))"

definition mm_at :: "mmap_file \<Rightarrow> u64 \<Rightarrow> (char \<times> mmap_file) result" where
  "mm_at m index =
     rbind (mm_check_index m index) (\<lambda>_.
       let m' = (if mm_mapped m index (index + 1) then m
                 else mm_map_segment m (index div mm_window m));
           off = (if mm_mapped m index (index + 1)
                  then unat (mm_segment_start m) + unat (index - mm_segment_start m)
                  else unat (index div mm_window m * mm_window m) + unat (index mod mm_window m))
       in rbind (mm_deref m' off 1) (\<lambda>t. Inr (hd t, m')))"

definition mm_atRange :: "mmap_file \<Rightarrow> u64 \<Rightarrow> u64 \<Rightarrow> (string \<times> mmap_file) result" where
  "mm_atRange m index len =
     rbind (mm_check_index m index) (\<lambda>_.
     rbind (if len > 0 then mm_check_index m (index + len - 1) else Inr ()) (\<lambda>_.
       let m' = mm_map_range m index (index + len)
       in rbind (mm_deref m' (unat index) (unat len)) (\<lambda>t. Inr (t, m'))))"

definition mm_atSegment :: "mmap_file \<Rightarrow> u64 \<Rightarrow> (string \<times> mmap_file) result" where
  "mm_atSegment m index =
     rbind (mm_check_index m index) (\<lambda>_.
       let segment_pos = index div mm_window m * mm_window m;
           len = min (segment_pos + mm_window m) (mm_size m) - index;
           m' = mm_map_range m segment_pos (segment_pos + mm_window m)
       in rbind (mm_deref m' (unat segment_pos + unat (index - segment_pos)) (unat len)) (\<lambda>t. Inr (t, m')))"

section \<open>FileBuffer\<close>

record file_buffer =
  fb_file :: mmap_file
  fb_holder :: "string option"
  fb_window :: u64

definition fb_new :: "string \<Rightarrow> string \<Rightarrow> u64 \<Rightarrow> u64 \<Rightarrow> file_buffer" where
  "fb_new name content window page_size =
     (let file = mm_open content window page_size
      in \<lparr>fb_file = file, fb_holder = Some name, fb_window = mm_window file\<rparr>)"

definition fb_size :: "file_buffer \<Rightarrow> u64" where
  "fb_size b = mm_size (fb_file b)"

definition fb_at :: "file_buffer \<Rightarrow> u64 \<Rightarrow> (char \<times> file_buffer) result" where
  "fb_at b pos = rbind (mm_at (fb_file b) pos) (\<lambda>(c, m). Inr (c, b\<lparr>fb_file := m\<rparr>))"

definition fb_chunk :: "file_buffer \<Rightarrow> u64 \<Rightarrow> (string \<times> file_buffer) result" where
  "fb_chunk b pos = rbind (mm_atSegment (fb_file b) pos) (\<lambda>(t, m). Inr (t, b\<lparr>fb_file := m\<rparr>))"

definition fb_segment :: "file_buffer \<Rightarrow> u64 \<Rightarrow> u64 \<times> u64" where
  "fb_segment b pos = (let beg = fb_window b * (pos div fb_window b) in (pos, beg + fb_window b))"

function fb_read_loop ::
    "file_buffer \<Rightarrow> u64 \<Rightarrow> nat \<Rightarrow> string \<Rightarrow> (string \<times> file_buffer) result" where
  "fb_read_loop b pos read_len data =
     (if read_len > 0 then
        (case fb_chunk b pos of
           Inl e \<Rightarrow> Inl e
         | Inr (cur_chunk, b) \<Rightarrow>
             if length cur_chunk = 0 then Inl (RuntimeError ''Cannot fetch chunk'')
             else
               let cur_len = min (length cur_chunk) read_len
               in fb_read_loop b (pos + of_nat cur_len) (read_len - cur_len) (data @ take cur_len cur_chunk))
      else Inr (data, b))"
  by pat_completeness auto
termination by (relation "measure (\<lambda>(b, pos, n, d). n)") auto

declare fb_read_loop.simps [simp del]

definition fb_read :: "file_buffer \<Rightarrow> u64 \<Rightarrow> u64 \<Rightarrow> (string \<times> file_buffer) result" where
  "fb_read b pos len =
     (if pos + len > fb_size b then Inl (RuntimeError ''Data is out of range'')
      else fb_read_loop b pos (unat len) [])"

text \<open>
  The write loop differs from the read loop in the copy: the chunk is the mapped text at \<open>pos\<close>, so
  the block is stored there.
\<close>

function fb_write_loop :: "file_buffer \<Rightarrow> u64 \<Rightarrow> string \<Rightarrow> file_buffer result" where
  "fb_write_loop b pos data =
     (if length data > 0 then
        (case fb_chunk b pos of
           Inl e \<Rightarrow> Inl e
         | Inr (cur_chunk, b) \<Rightarrow>
             if length cur_chunk = 0 then Inl (RuntimeError ''Cannot fetch chunk'')
             else
               let cur_len = min (length cur_chunk) (length data)
               in (case mm_store (fb_file b) (unat pos) (take cur_len data) of
                     Inl e \<Rightarrow> Inl e
                   | Inr m \<Rightarrow> fb_write_loop (b\<lparr>fb_file := m\<rparr>) (pos + of_nat cur_len) (drop cur_len data)))
      else Inr b)"
  by pat_completeness auto
termination by (relation "measure (\<lambda>(b, pos, d). length d)") auto

declare fb_write_loop.simps [simp del]

definition fb_write :: "file_buffer \<Rightarrow> u64 \<Rightarrow> string \<Rightarrow> file_buffer result" where
  "fb_write b pos data =
     (if pos + of_nat (length data) > fb_size b then Inl (RuntimeError ''Data is out of range'')
      else fb_write_loop b pos data)"

partial_function (option) fb_find_loop ::
    "file_buffer \<Rightarrow> u64 \<Rightarrow> u64 \<Rightarrow> u64 \<Rightarrow> string \<Rightarrow> (u64 \<times> file_buffer) result option" where
  [code]: "fb_find_loop b segment_pos offset en buf =
     (let pos = segment_pos + offset;
          len = fb_window b - offset + of_nat (length buf);
          finish = pos + len \<ge> en;
          len = (if finish then en - pos else len)
      in case mm_atRange (fb_file b) pos len of
           Inl e \<Rightarrow> Some (Inl e)
         | Inr (t, m) \<Rightarrow>
             let res = rg_find (rg_fromString t) buf; b = b\<lparr>fb_file := m\<rparr>
             in if res \<noteq> length t then Some (Inr (of_nat res + pos, b))
                else if finish then Some (Inr (en, b))
                else fb_find_loop b (segment_pos + fb_window b) 0 en buf)"

definition fb_find :: "file_buffer \<Rightarrow> u64 \<Rightarrow> u64 \<Rightarrow> string \<Rightarrow> (u64 \<times> file_buffer) result" where
  "fb_find b bg en buf =
     (if length buf > unat (en - bg) then Inr (en, b)
      else
        let segment = bg div fb_window b; segment_pos = fb_window b * segment; offset = bg - segment_pos
        in case fb_find_loop b segment_pos offset en buf of None \<Rightarrow> Inl Diverges | Some r \<Rightarrow> r)"

text \<open>
  Trimming: the front is trimmed as in \<^verbatim>\<open>StringBuffer\<close>; at the back the code asks whether the
  \<^emph>\<open>index\<close> of the last character is the code of a space, not whether the character is one.
\<close>

lemma unat_step_down:
  fixes bg en :: u64
  assumes "bg \<noteq> en"
  shows "unat (en - (bg + 1)) < unat (en - bg)" "unat (en - 1 - bg) < unat (en - bg)"
    "unat (en - (1 + bg)) < unat (en - bg)"
proof -
  have "unat (en - bg - 1) < unat (en - bg)"
    using assms by (simp add: unat_minus_one unat_gt_0)
  then show "unat (en - (bg + 1)) < unat (en - bg)" "unat (en - 1 - bg) < unat (en - bg)"
    "unat (en - (1 + bg)) < unat (en - bg)"
    by (simp_all add: algebra_simps)
qed

function fb_trim_front :: "file_buffer \<Rightarrow> u64 \<Rightarrow> u64 \<Rightarrow> (u64 \<times> file_buffer) result" where
  "fb_trim_front b bg en =
     (if bg \<noteq> en then
        (case fb_at b bg of
           Inl e \<Rightarrow> Inl e
         | Inr (c, b) \<Rightarrow> if isspace c then fb_trim_front b (bg + 1) en else Inr (bg, b))
      else Inr (bg, b))"
  by pat_completeness auto
termination
  by (relation "measure (\<lambda>(b, bg, en). unat (en - bg))") (simp_all add: unat_step_down)

declare fb_trim_front.simps [simp del]

definition int_isspace :: "u64 \<Rightarrow> bool" where
  "int_isspace n \<longleftrightarrow> n = 32 \<or> (9 \<le> n \<and> n \<le> 13)"

function fb_trim_back :: "u64 \<Rightarrow> u64 \<Rightarrow> u64" where
  "fb_trim_back bg en = (if bg \<noteq> en \<and> int_isspace (en - 1) then fb_trim_back bg (en - 1) else en)"
  by pat_completeness auto
termination
  by (relation "measure (\<lambda>(bg, en). unat (en - bg))") (simp_all add: unat_step_down)

declare fb_trim_back.simps [simp del]

definition fb_trim :: "file_buffer \<Rightarrow> u64 \<Rightarrow> u64 \<Rightarrow> ((u64 \<times> u64) \<times> file_buffer) result" where
  "fb_trim b bg en =
     rbind (fb_trim_front b bg en) (\<lambda>(bg', b'). Inr ((bg', fb_trim_back bg' en), b'))"

definition fb_resize :: "file_buffer \<Rightarrow> u64 \<Rightarrow> file_buffer" where
  "fb_resize b sz = b\<lparr>fb_file := mm_resize (fb_file b) sz\<rparr>"

definition fb_filename :: "file_buffer \<Rightarrow> string" where
  "fb_filename b = (case fb_holder b of Some name \<Rightarrow> name | None \<Rightarrow> [])"

definition fb_getCopy :: "file_buffer \<Rightarrow> file_buffer" where
  "fb_getCopy b = b\<lparr>fb_file := mm_clone (fb_file b)\<rparr>"

section \<open>The mapped window\<close>

definition mm_ok :: "mmap_file \<Rightarrow> bool" where
  "mm_ok m \<longleftrightarrow>
     mm_page_size m \<noteq> 0 \<and> mm_window m \<noteq> 0 \<and> unat (mm_window m) < 2 ^ 62 \<and>
     unat (mm_page_size m) dvd unat (mm_window m) \<and>
     length (mm_bytes m) < 2 ^ 62 \<and> unat (mm_size m) = length (mm_bytes m) \<and>
     unat (mm_segment_start m) + unat (mm_segment_len m) < 2 ^ 64 \<and>
     (\<not> mm_pointer m \<longrightarrow> mm_segment_start m = 0 \<and> mm_segment_len m = 0)"

text \<open>\<open>mm_remap m m'\<close>: \<open>m'\<close> is the same file with another mapping.\<close>

definition mm_remap :: "mmap_file \<Rightarrow> mmap_file \<Rightarrow> bool" where
  "mm_remap m m' \<longleftrightarrow> mm_ok m' \<and> mm_bytes m' = mm_bytes m \<and> mm_size m' = mm_size m \<and>
     mm_window m' = mm_window m \<and> mm_page_size m' = mm_page_size m"

text \<open>\<open>mm_covers m i j\<close>: the offsets from \<open>i\<close> to \<open>j\<close> are mapped.\<close>

definition mm_covers :: "mmap_file \<Rightarrow> nat \<Rightarrow> nat \<Rightarrow> bool" where
  "mm_covers m i j \<longleftrightarrow> mm_pointer m \<and> unat (mm_segment_start m) \<le> i \<and>
     j \<le> unat (mm_segment_start m) + unat (mm_segment_len m)"

lemma mm_mapped_iff:
  "mm_ok m \<Longrightarrow> mm_mapped m bg en \<longleftrightarrow>
   unat (mm_segment_start m) \<le> unat bg \<and>
   unat en \<le> unat (mm_segment_start m) + unat (mm_segment_len m)"
  by (simp add: mm_mapped_def word_le_nat_alt unat_add_u64 mm_ok_def)

lemma mm_deref_covers:
  "mm_covers m i j \<Longrightarrow> i \<le> k \<Longrightarrow> k + n \<le> j \<Longrightarrow> k + n \<le> length (mm_bytes m) \<Longrightarrow>
   mm_deref m k n = Inr (slice k n (mm_bytes m))"
  by (simp add: mm_covers_def mm_deref_def)

lemma mm_map_range_ok:
  assumes ok: "mm_ok m" and lt: "bg < en"
  shows "mm_remap m (mm_map_range m bg en) \<and> mm_covers (mm_map_range m bg en) (unat bg) (unat en)"
proof (cases "mm_mapped m bg en")
  case True
  moreover have "mm_pointer m"
    using True lt ok by (auto simp: mm_mapped_iff word_less_nat_alt) (auto simp: mm_ok_def)
  ultimately show ?thesis
    using ok by (simp add: mm_map_range_def mm_remap_def mm_covers_def mm_mapped_iff)
next
  case False
  let ?base = "mm_page_size m * (bg div mm_page_size m)"
  have "unat (mm_page_size m) * (unat bg div unat (mm_page_size m)) \<le> unat bg" by simp
  then have "unat (mm_page_size m) * (unat bg div unat (mm_page_size m)) < 2 ^ 64"
    by (rule order_le_less_trans) simp
  then have "unat ?base = unat (mm_page_size m) * (unat bg div unat (mm_page_size m))"
    by (subst unat_mult_u64) (simp_all add: unat_div_u64)
  then have base: "unat ?base \<le> unat bg" by simp
  then have "unat (en - ?base) = unat en - unat ?base"
    using lt by (simp add: unat_sub_u64 word_less_nat_alt)
  then have "unat ?base + unat (en - ?base) = unat en"
    using base lt by (simp add: word_less_nat_alt)
  then show ?thesis
    using False ok base unat_less_u64 [of en]
    by (auto simp: mm_map_range_def mm_unmap_def Let_def mm_remap_def mm_covers_def mm_ok_def)
qed

lemma mm_remap_trans: "mm_remap a b \<Longrightarrow> mm_remap b c \<Longrightarrow> mm_remap a c"
  by (simp add: mm_remap_def)

lemma mm_check_index_ok: "mm_ok m \<Longrightarrow> unat i < length (mm_bytes m) \<Longrightarrow> mm_check_index m i = Inr ()"
  by (simp add: mm_check_index_def mm_ok_def word_le_nat_alt)

text \<open>The window that contains an offset.\<close>

lemma window_bounds:
  fixes i w :: u64
  assumes "w \<noteq> 0" "unat i < 2 ^ 63" "unat w < 2 ^ 62"
  defines "p \<equiv> i div w * w"
  shows "unat p = unat i div unat w * unat w" "unat (p + w) = unat i div unat w * unat w + unat w"
    and "unat p \<le> unat i" "unat i < unat (p + w)" "p < p + w" "unat p + unat (i mod w) = unat i"
proof -
  have w: "0 < unat w" using assms(1) by (simp add: unat_gt_0)
  have le: "unat i div unat w * unat w \<le> unat i" by simp
  then have "unat i div unat w * unat w < 2 ^ 64" by (rule order_le_less_trans) simp
  then show p: "unat p = unat i div unat w * unat w"
    unfolding p_def by (subst unat_mult_u64) (simp_all add: unat_div_u64)
  then show pi: "unat p \<le> unat i" using le by simp
  have "unat p + unat w < 2 ^ 64" using pi assms(2,3) by simp
  then show pw: "unat (p + w) = unat i div unat w * unat w + unat w"
    by (simp add: unat_add_u64 p)
  then show "unat i < unat (p + w)" using w by (simp add: dividend_less_div_times add.commute)
  show "p < p + w" using w by (simp add: word_less_nat_alt pw p)
  show "unat p + unat (i mod w) = unat i" by (simp add: p unat_mod_u64)
qed

lemma mm_at_ok:
  assumes ok: "mm_ok m" and i: "unat i < length (mm_bytes m)"
  shows "\<exists>m'. mm_at m i = Inr (mm_bytes m ! unat i, m') \<and> mm_remap m m'"
proof -
  have i63: "unat i < 2 ^ 63" using ok i by (simp add: mm_ok_def)
  then have i1: "unat (i + 1) = unat i + 1" by (subst unat_add_u64) simp_all
  have one: "slice (unat i) 1 (mm_bytes m) = [mm_bytes m ! unat i]"
    using i by (simp add: slice_Suc)
  show ?thesis
  proof (cases "mm_mapped m i (i + 1)")
    case True
    have "mm_pointer m"
      using True ok by (auto simp: mm_mapped_iff i1) (auto simp: mm_ok_def)
    then have cov: "mm_covers m (unat i) (unat i + 1)"
      using True ok by (simp add: mm_mapped_iff mm_covers_def i1)
    have "unat (mm_segment_start m) \<le> unat i" using True ok by (simp add: mm_mapped_iff)
    then have "unat (mm_segment_start m) + unat (i - mm_segment_start m) = unat i"
      by (simp add: unat_sub_u64)
    then show ?thesis
      using True ok i one mm_deref_covers [OF cov, of "unat i" 1]
      by (simp add: mm_at_def mm_check_index_ok mm_remap_def)
  next
    case False
    have w: "mm_window m \<noteq> 0" "unat (mm_window m) < 2 ^ 62" using ok by (auto simp: mm_ok_def)
    note wb = window_bounds [OF w(1) i63 w(2)]
    let ?p = "i div mm_window m * mm_window m"
    have mr: "mm_remap m (mm_map_range m ?p (?p + mm_window m))"
      "mm_covers (mm_map_range m ?p (?p + mm_window m)) (unat ?p) (unat (?p + mm_window m))"
      using mm_map_range_ok [OF ok wb(5)] by auto
    then have "mm_deref (mm_map_range m ?p (?p + mm_window m)) (unat i) 1 = Inr [mm_bytes m ! unat i]"
      using mm_deref_covers [OF mr(2) wb(3), of 1] wb(4) i one by (simp add: mm_remap_def)
    then show ?thesis
      using False ok i mr(1) wb(6)
      by (simp add: mm_at_def mm_check_index_ok mm_map_segment_def Let_def)
  qed
qed

lemma mm_atRange_ok:
  assumes ok: "mm_ok m" and n: "0 < n" and le: "unat i + unat n \<le> length (mm_bytes m)"
  shows "\<exists>m'. mm_atRange m i n = Inr (slice (unat i) (unat n) (mm_bytes m), m') \<and> mm_remap m m'"
proof -
  have n': "0 < unat n" using n by (simp add: word_less_nat_alt)
  have len: "length (mm_bytes m) < 2 ^ 63" using ok by (simp add: mm_ok_def)
  have sum: "unat (i + n) = unat i + unat n" using le len by (simp add: unat_add_u64)
  then have "unat (i + n - 1) = unat i + unat n - 1"
    using n' by (subst unat_sub_u64) simp_all
  then have c: "mm_check_index m (i + n - 1) = Inr ()" "mm_check_index m i = Inr ()"
    using ok le n' by (auto intro!: mm_check_index_ok)
  have lt: "i < i + n" using n' by (simp add: word_less_nat_alt sum)
  note mr = mm_map_range_ok [OF ok lt, unfolded sum]
  then have "mm_deref (mm_map_range m i (i + n)) (unat i) (unat n) =
      Inr (slice (unat i) (unat n) (mm_bytes m))"
    using mm_deref_covers [of "mm_map_range m i (i + n)" "unat i" _ "unat i" "unat n"] le
    by (auto simp: mm_remap_def)
  then show ?thesis using mr n by (simp add: mm_atRange_def c)
qed

lemma mm_atSegment_ok:
  assumes ok: "mm_ok m" and i: "unat i < length (mm_bytes m)"
  shows "\<exists>m'. mm_atSegment m i =
      Inr (slice (unat i) (min (unat i div unat (mm_window m) * unat (mm_window m) + unat (mm_window m))
             (length (mm_bytes m)) - unat i) (mm_bytes m), m') \<and> mm_remap m m' \<and>
    mm_covers m' (unat i) (unat i div unat (mm_window m) * unat (mm_window m) + unat (mm_window m))"
proof -
  have i63: "unat i < 2 ^ 63" using ok i by (simp add: mm_ok_def)
  have w: "mm_window m \<noteq> 0" "unat (mm_window m) < 2 ^ 62" using ok by (auto simp: mm_ok_def)
  note wb = window_bounds [OF w(1) i63 w(2)]
  let ?p = "i div mm_window m * mm_window m"
  let ?e = "min (?p + mm_window m) (mm_size m)"
  have e: "unat ?e = min (unat (?p + mm_window m)) (length (mm_bytes m))"
    using ok by (simp add: min_def word_le_nat_alt mm_ok_def)
  then have sub: "unat (?e - i) = min (unat (?p + mm_window m)) (length (mm_bytes m)) - unat i"
    using wb(4) i by (subst unat_sub_u64) simp_all
  have off: "unat ?p + unat (i - ?p) = unat i"
    using wb(3) by (simp add: unat_sub_u64)
  have mr: "mm_remap m (mm_map_range m ?p (?p + mm_window m))"
    "mm_covers (mm_map_range m ?p (?p + mm_window m)) (unat ?p) (unat (?p + mm_window m))"
    using mm_map_range_ok [OF ok wb(5)] by auto
  have "mm_deref (mm_map_range m ?p (?p + mm_window m)) (unat i) (unat (?e - i)) =
      Inr (slice (unat i) (unat (?e - i)) (mm_bytes m))"
    using mm_deref_covers [OF mr(2) wb(3), of "unat (?e - i)"] mr(1) wb(4) i
    by (simp add: mm_remap_def sub)
  moreover have "mm_covers (mm_map_range m ?p (?p + mm_window m)) (unat i) (unat (?p + mm_window m))"
    using mr(2) wb(3) by (simp add: mm_covers_def)
  ultimately show ?thesis
    using mr(1) by (simp add: mm_atSegment_def mm_check_index_ok [OF ok i] off sub wb(2) Let_def)
qed

section \<open>Searching in windows\<close>

lemma std_search_extend:
  "std_search m b n pat \<noteq> b + n \<Longrightarrow> n \<le> k \<Longrightarrow> std_search m b k pat = std_search m b n pat"
proof (induction n arbitrary: b k)
  case (Suc n)
  then obtain k' where k: "k = Suc k'" "n \<le> k'" by (cases k) auto
  show ?case
  proof (cases "length pat \<le> Suc n \<and> slice b (length pat) m = pat")
    case True
    then show ?thesis using k by simp
  next
    case False
    then have no: "std_search m b (Suc n) pat = std_search m (Suc b) n pat" by auto
    then have ne: "std_search m (Suc b) n pat \<noteq> Suc b + n" using Suc.prems(1) by simp
    then have IH: "std_search m (Suc b) k' pat = std_search m (Suc b) n pat"
      using Suc.IH k(2) by blast
    have "length pat \<le> n" using ne std_search_found [of m "Suc b" n pat] std_search_bounds [of "Suc b" m n pat]
      by linarith
    then show ?thesis using False by (auto simp: k(1) IH no)
  qed
qed simp

lemma std_search_skip:
  "std_search m b n pat = b + n \<Longrightarrow> length pat \<le> n \<Longrightarrow> n \<le> k \<Longrightarrow>
   std_search m b k pat = std_search m (b + (n - length pat)) (k - (n - length pat)) pat"
proof (induction "n - length pat" arbitrary: b n k)
  case 0
  then have "n = length pat" by simp
  then show ?case by simp
next
  case (Suc d)
  then obtain n' where n: "n = Suc n'" by (cases n) auto
  obtain k' where k: "k = Suc k'" "n' \<le> k'" using Suc.prems n by (cases k) auto
  have no: "\<not> (length pat \<le> Suc n' \<and> slice b (length pat) m = pat)"
    using Suc.prems(1) Suc.hyps(2) by (auto simp: n)
  then have s: "std_search m (Suc b) n' pat = Suc b + n'" using Suc.prems(1) by (auto simp: n)
  have d: "d = n' - length pat" "length pat \<le> n'" using Suc.hyps(2) by (auto simp: n)
  have "std_search m b k pat = std_search m (Suc b) k' pat"
    using no Suc.prems(2) n by (auto simp: k)
  also have "\<dots> = std_search m (Suc b + (n' - length pat)) (k' - (n' - length pat)) pat"
    by (rule Suc.hyps(1) [OF d(1) s d(2) k(2)])
  finally show ?case using d(2) by (simp add: n k Suc_diff_le)
qed

lemma std_search_slice:
  "b + n \<le> length m \<Longrightarrow> i + k = n \<Longrightarrow>
   b + std_search (slice b n m) i k pat = std_search m (b + i) k pat"
proof (induction k arbitrary: i)
  case (Suc k)
  have "slice i (length pat) (slice b n m) = slice (b + i) (length pat) m" if "length pat \<le> Suc k"
    using that Suc.prems by (intro slice_slice) simp
  then show ?case using Suc by auto
qed simp

lemma rg_find_slice:
  assumes "b + n \<le> length m"
  shows "rg_find (rg_fromString (slice b n m)) pat + b = std_search m b n pat"
  using assms std_search_slice [of b n m 0 n pat]
  by (subst rg_find_search) (simp_all add: rg_fromString_def range_ok_def rg_end_def)

section \<open>FileBuffer implements the contract\<close>

definition fb_ok :: "file_buffer \<Rightarrow> bool" where
  "fb_ok b \<longleftrightarrow> mm_ok (fb_file b) \<and> fb_window b = mm_window (fb_file b)"

definition fb_bytes :: "file_buffer \<Rightarrow> string" where
  "fb_bytes b = mm_bytes (fb_file b)"

text \<open>\<open>fb_remap b b'\<close>: the same buffer, another window mapped.\<close>

definition fb_remap :: "file_buffer \<Rightarrow> file_buffer \<Rightarrow> bool" where
  "fb_remap b b' \<longleftrightarrow> fb_ok b' \<and> fb_bytes b' = fb_bytes b \<and> fb_window b' = fb_window b \<and>
     fb_holder b' = fb_holder b"

lemma fb_remapI:
  "fb_ok b \<Longrightarrow> mm_remap (fb_file b) m \<Longrightarrow> fb_remap b (b\<lparr>fb_file := m\<rparr>)"
  by (simp add: fb_remap_def fb_ok_def fb_bytes_def mm_remap_def)

lemma fb_at_ok:
  assumes "fb_ok b" "unat i < length (fb_bytes b)"
  shows "\<exists>b'. fb_at b i = Inr (fb_bytes b ! unat i, b') \<and> fb_remap b b'"
proof -
  obtain m' where "mm_at (fb_file b) i = Inr (fb_bytes b ! unat i, m')" "mm_remap (fb_file b) m'"
    using mm_at_ok [of "fb_file b" i] assms by (auto simp: fb_ok_def fb_bytes_def)
  then show ?thesis using fb_remapI [OF assms(1)] by (simp add: fb_at_def)
qed

definition fb_window_end :: "file_buffer \<Rightarrow> u64 \<Rightarrow> nat" where
  "fb_window_end b i = unat i div unat (fb_window b) * unat (fb_window b) + unat (fb_window b)"

lemma fb_chunk_ok:
  assumes "fb_ok b" "unat i < length (fb_bytes b)"
  shows "\<exists>b'. fb_chunk b i =
      Inr (slice (unat i) (min (fb_window_end b i) (length (fb_bytes b)) - unat i) (fb_bytes b), b') \<and>
    fb_remap b b' \<and> mm_covers (fb_file b') (unat i) (fb_window_end b i)"
proof -
  obtain m' where "mm_atSegment (fb_file b) i =
      Inr (slice (unat i) (min (fb_window_end b i) (length (fb_bytes b)) - unat i) (fb_bytes b), m')"
    "mm_remap (fb_file b) m'" "mm_covers m' (unat i) (fb_window_end b i)"
    using mm_atSegment_ok [of "fb_file b" i] assms
    by (auto simp: fb_ok_def fb_bytes_def fb_window_end_def)
  then show ?thesis using fb_remapI [OF assms(1)] by (simp add: fb_chunk_def)
qed

lemma fb_window_end_gt: "fb_ok b \<Longrightarrow> unat i < fb_window_end b i"
  by (simp add: fb_window_end_def dividend_less_div_times add.commute fb_ok_def mm_ok_def unat_gt_0)

lemma fb_chunk_step:
  assumes "fb_ok b" "unat i < length (fb_bytes b)"
  shows "\<exists>k b'. 0 < k \<and> unat i + k \<le> length (fb_bytes b) \<and>
    fb_chunk b i = Inr (slice (unat i) k (fb_bytes b), b') \<and> fb_remap b b' \<and>
    mm_covers (fb_file b') (unat i) (unat i + k)"
proof -
  let ?k = "min (fb_window_end b i) (length (fb_bytes b)) - unat i"
  obtain b' where "fb_chunk b i = Inr (slice (unat i) ?k (fb_bytes b), b')" "fb_remap b b'"
    "mm_covers (fb_file b') (unat i) (fb_window_end b i)"
    using fb_chunk_ok [OF assms] by blast
  then show ?thesis
    using fb_window_end_gt [OF assms(1), of i] assms(2)
    by (intro exI [of _ ?k] exI [of _ b']) (auto simp: mm_covers_def)
qed

lemma fb_advance:
  fixes pos :: u64
  assumes "fb_ok b" "unat pos + n \<le> length (fb_bytes b)"
  shows "unat (pos + of_nat n) = unat pos + n"
proof -
  have "length (fb_bytes b) < 2 ^ 63" using assms(1) by (simp add: fb_ok_def mm_ok_def fb_bytes_def)
  then have "n < 2 ^ 64" and sum: "unat pos + n < 2 ^ 64" using assms(2) by auto
  from this(1) have n: "unat (of_nat n :: u64) = n" by (rule unat_of_nat_u64)
  then show ?thesis using sum unat_add_u64 [of pos "of_nat n"] by simp
qed

lemma fb_read_loop_ok:
  assumes "fb_ok b" "unat pos + n \<le> length (fb_bytes b)"
  shows "\<exists>b'. fb_read_loop b pos n d = Inr (d @ slice (unat pos) n (fb_bytes b), b') \<and> fb_remap b b'"
  using assms
proof (induction n arbitrary: b pos d rule: less_induct)
  case (less n)
  show ?case
  proof (cases "n = 0")
    case True
    then show ?thesis using less.prems by (subst fb_read_loop.simps) (simp add: fb_remap_def)
  next
    case False
    have pos: "unat pos < length (fb_bytes b)" using False less.prems(2) by simp
    obtain k b' where k: "0 < k" "unat pos + k \<le> length (fb_bytes b)"
      and c: "fb_chunk b pos = Inr (slice (unat pos) k (fb_bytes b), b')" and r: "fb_remap b b'"
      using fb_chunk_step [OF less.prems(1) pos] by blast
    define c where "c = min k n"
    have cb: "0 < c" "c \<le> n" "c \<le> k" using False k(1) by (simp_all add: c_def)
    have p: "unat (pos + of_nat c) = unat pos + c"
      using less.prems(2) cb by (intro fb_advance [OF less.prems(1)]) simp
    have b': "fb_ok b'" "fb_bytes b' = fb_bytes b" using r by (auto simp: fb_remap_def)
    obtain b'' where IH: "fb_read_loop b' (pos + of_nat c) (n - c) (d @ slice (unat pos) c (fb_bytes b)) =
        Inr ((d @ slice (unat pos) c (fb_bytes b)) @ slice (unat pos + c) (n - c) (fb_bytes b), b'')"
      and r': "fb_remap b' b''"
      using less.IH [of "n - c" b' "pos + of_nat c" "d @ slice (unat pos) c (fb_bytes b)"] cb less.prems(2)
      unfolding p b'(2) by (auto simp: b')
    have "slice (unat pos) c (fb_bytes b) @ slice (unat pos + c) (n - c) (fb_bytes b)
        = slice (unat pos) n (fb_bytes b)"
      using cb(2) by (simp flip: slice_append_split)
    moreover have "take c (slice (unat pos) k (fb_bytes b)) = slice (unat pos) c (fb_bytes b)"
      using cb(3) by (simp add: slice_def min_absorb1)
    moreover have "length (slice (unat pos) k (fb_bytes b)) = k" "slice (unat pos) k (fb_bytes b) \<noteq> []"
      using k by (auto simp: slice_def)
    ultimately have "fb_read_loop b pos n d = Inr (d @ slice (unat pos) n (fb_bytes b), b'')"
      using False k(1) IH by (subst fb_read_loop.simps) (simp add: c Let_def flip: c_def)
    then show ?thesis using r r' by (auto simp: fb_remap_def)
  qed
qed

lemma fb_store_ok:
  assumes "fb_ok b" "mm_covers (fb_file b) i (i + k)" "length d \<le> k" "i + length d \<le> length (fb_bytes b)"
  shows "\<exists>m. mm_store (fb_file b) i d = Inr m \<and> fb_ok (b\<lparr>fb_file := m\<rparr>) \<and>
    mm_bytes m = overwrite i d (fb_bytes b)"
  using assms mm_deref_covers [OF assms(2), of i "length d"]
  by (auto simp: mm_store_def fb_ok_def mm_ok_def fb_bytes_def)

lemma fb_write_loop_ok:
  assumes "fb_ok b" "unat pos + length d \<le> length (fb_bytes b)"
  shows "\<exists>b'. fb_write_loop b pos d = Inr b' \<and> fb_ok b' \<and>
    fb_bytes b' = overwrite (unat pos) d (fb_bytes b)"
  using assms
proof (induction "length d" arbitrary: b pos d rule: less_induct)
  case less
  show ?case
  proof (cases "d = []")
    case True
    then show ?thesis using less.prems by (subst fb_write_loop.simps) simp
  next
    case False
    have pos: "unat pos < length (fb_bytes b)" using False less.prems(2) by (cases d) auto
    obtain k b' where k: "0 < k" "unat pos + k \<le> length (fb_bytes b)"
      and c: "fb_chunk b pos = Inr (slice (unat pos) k (fb_bytes b), b')" and r: "fb_remap b b'"
      and cov: "mm_covers (fb_file b') (unat pos) (unat pos + k)"
      using fb_chunk_step [OF less.prems(1) pos] by blast
    define c where "c = min k (length d)"
    have cb: "0 < c" "c \<le> length d" "c \<le> k" using False k(1) by (simp_all add: c_def)
    have p: "unat (pos + of_nat c) = unat pos + c"
      using less.prems(2) cb by (intro fb_advance [OF less.prems(1)]) simp
    have b': "fb_ok b'" "fb_bytes b' = fb_bytes b" using r by (auto simp: fb_remap_def)
    have tk: "length (take c d) = c" using cb(2) by simp
    obtain m where m: "mm_store (fb_file b') (unat pos) (take c d) = Inr m" "fb_ok (b'\<lparr>fb_file := m\<rparr>)"
      "fb_bytes (b'\<lparr>fb_file := m\<rparr>) = overwrite (unat pos) (take c d) (fb_bytes b)"
      using fb_store_ok [OF b'(1) cov, of "take c d"] cb less.prems(2) b'(2)
      by (auto simp: fb_bytes_def)
    obtain b'' where IH: "fb_write_loop (b'\<lparr>fb_file := m\<rparr>) (pos + of_nat c) (drop c d) = Inr b''" "fb_ok b''"
      "fb_bytes b'' = overwrite (unat pos + c) (drop c d) (overwrite (unat pos) (take c d) (fb_bytes b))"
      using less.hyps [of "drop c d" "b'\<lparr>fb_file := m\<rparr>" "pos + of_nat c"] cb less.prems(2) m(2,3) p
        diff_less [of c "length d"] False
      by (auto simp: tk)
    have fin: "fb_bytes b'' = overwrite (unat pos) d (fb_bytes b)"
      using IH(3) overwrite_append [of "unat pos" "take c d" "drop c d" "fb_bytes b"] less.prems(2) cb
      by (simp add: tk)
    moreover have "length (slice (unat pos) k (fb_bytes b)) = k" "slice (unat pos) k (fb_bytes b) \<noteq> []"
      using k by (auto simp: slice_def)
    ultimately have "fb_write_loop b pos d = Inr b''"
      using False IH(1) m(1) by (subst fb_write_loop.simps) (simp add: c Let_def flip: c_def)
    then show ?thesis using IH(2) fin by blast
  qed
qed

lemma fb_find_loop_ok:
  assumes "fb_ok b" "unat seg + unat off < unat en" "unat en \<le> length (fb_bytes b)" "off < fb_window b"
    and "pat \<noteq> []" "length pat < 2 ^ 62"
  shows "\<exists>b'. fb_find_loop b seg off en pat =
      Some (Inr (of_nat (std_search (fb_bytes b) (unat seg + unat off) (unat en - (unat seg + unat off)) pat), b'))
    \<and> fb_remap b b'"
  using assms
proof (induction "unat en - unat seg" arbitrary: b seg off rule: less_induct)
  case less
  let ?w = "unat (fb_window b)" and ?L = "length pat" and ?P = "unat seg + unat off" and ?E = "unat en"
  have w: "0 < ?w" "?w < 2 ^ 62" and E: "?E < 2 ^ 62"
    using less.prems(1,3) by (auto simp: fb_ok_def mm_ok_def fb_bytes_def unat_gt_0)
  have ow: "unat off < ?w" using less.prems(4) by (simp add: word_less_nat_alt)
  have pos: "unat (seg + off) = ?P" using less.prems(2) E by (subst unat_add_u64) simp_all
  have L: "unat (of_nat ?L :: u64) = ?L" by (rule unat_of_nat_u64) (use less.prems(6) in simp)
  have len: "unat (fb_window b - off + of_nat ?L) = ?w - unat off + ?L"
    using ow w less.prems(6) by (subst unat_add_u64) (simp_all add: unat_sub_u64 L)
  then have sum: "unat (seg + off + (fb_window b - off + of_nat ?L)) = unat seg + ?w + ?L"
    using ow w E less.prems(2,6) by (subst unat_add_u64) (simp_all add: pos)
  define fin where "fin \<longleftrightarrow> seg + off + (fb_window b - off + of_nat ?L) \<ge> en"
  have fin: "fin \<longleftrightarrow> ?E \<le> unat seg + ?w + ?L" unfolding fin_def word_le_nat_alt sum ..
  define n where "n = (if fin then en - (seg + off) else fb_window b - off + of_nat ?L)"
  have n: "unat n = (if fin then ?E - ?P else ?w - unat off + ?L)"
    using less.prems(2) by (simp add: n_def len unat_sub_u64 pos)
  have n0: "0 < unat n" "?P + unat n \<le> ?E" using less.prems(2) ow fin by (auto simp: n)
  obtain m where m: "mm_atRange (fb_file b) (seg + off) n = Inr (slice ?P (unat n) (fb_bytes b), m)"
    and "mm_remap (fb_file b) m"
    using mm_atRange_ok [of "fb_file b" n "seg + off"] less.prems(1,3) n0 pos
    by (auto simp: fb_ok_def fb_bytes_def word_less_nat_alt)
  then have r: "fb_remap b (b\<lparr>fb_file := m\<rparr>)" using fb_remapI less.prems(1) by blast
  define t where "t = slice ?P (unat n) (fb_bytes b)"
  define res where "res = rg_find (rg_fromString t) pat"
  have lt: "length t = unat n" using n0 less.prems(3) by (simp add: t_def)
  have res: "res + ?P = std_search (fb_bytes b) ?P (unat n) pat"
    unfolding res_def t_def by (rule rg_find_slice) (use n0 less.prems(3) in simp)
  have step: "fb_find_loop b seg off en pat =
      (if res \<noteq> length t then Some (Inr (of_nat res + (seg + off), b\<lparr>fb_file := m\<rparr>))
       else if fin then Some (Inr (en, b\<lparr>fb_file := m\<rparr>))
       else fb_find_loop (b\<lparr>fb_file := m\<rparr>) (seg + fb_window b) 0 en pat)"
    by (subst fb_find_loop.simps)
      (simp only: Let_def fin_def [symmetric] n_def [symmetric] m sum.case prod.case t_def [symmetric]
        res_def [symmetric], simp)
  consider (found) "res \<noteq> unat n" | (stop) "res = unat n" fin | (more) "res = unat n" "\<not> fin" by blast
  then show ?case
  proof cases
    case found
    then have "std_search (fb_bytes b) ?P (?E - ?P) pat = res + ?P"
      using std_search_extend [of "fb_bytes b" ?P "unat n" pat "?E - ?P"] res n0(2) by simp
    moreover have "of_nat res + (seg + off) = (of_nat (res + ?P) :: u64)" by simp
    ultimately show ?thesis using step found r lt by auto
  next
    case stop
    then have "std_search (fb_bytes b) ?P (?E - ?P) pat = ?E" using res n n0 by simp
    then show ?thesis using step stop r lt by simp
  next
    case more
    have S: "unat (seg + fb_window b) = unat seg + ?w"
      using more(2) fin w E less.prems(2) by (subst unat_add_u64) simp_all
    have nL: "unat n - ?L = ?w - unat off" "?L \<le> unat n" using more(2) by (simp_all add: n)
    have "std_search (fb_bytes b) ?P (?E - ?P) pat =
        std_search (fb_bytes b) (?P + (unat n - ?L)) (?E - ?P - (unat n - ?L)) pat"
      by (rule std_search_skip) (use more(1) res n0(2) nL(2) in simp_all)
    then have R: "std_search (fb_bytes b) ?P (?E - ?P) pat =
        std_search (fb_bytes b) (unat seg + ?w) (?E - (unat seg + ?w)) pat"
      using ow by (simp add: nL(1))
    have b': "fb_ok (b\<lparr>fb_file := m\<rparr>)" "fb_bytes (b\<lparr>fb_file := m\<rparr>) = fb_bytes b"
      using r by (auto simp: fb_remap_def)
    have dec: "?E - (unat seg + ?w) < ?E - unat seg" using more(2) fin w(1) by linarith
    obtain b'' where "fb_find_loop (b\<lparr>fb_file := m\<rparr>) (seg + fb_window b) 0 en pat =
        Some (Inr (of_nat (std_search (fb_bytes b) (unat seg + ?w) (?E - (unat seg + ?w)) pat), b''))"
      "fb_remap (b\<lparr>fb_file := m\<rparr>) b''"
      using less.hyps [of "seg + fb_window b" "b\<lparr>fb_file := m\<rparr>" 0] more(2) fin w(1) less.prems b' S dec
      by (auto simp: word_less_nat_alt)
    then show ?thesis using step more lt R r by (auto simp: fb_remap_def)
  qed
qed

lemma fb_find_ok:
  assumes ok: "fb_ok b" and lt: "bg < en" and en: "unat en \<le> length (fb_bytes b)" and pat: "pat \<noteq> []"
  shows "\<exists>b'. fb_find b bg en pat =
    Inr (of_nat (std_search (fb_bytes b) (unat bg) (unat en - unat bg) pat), b') \<and> fb_remap b b'"
proof -
  have sub: "unat (en - bg) = unat en - unat bg" using lt by (simp add: unat_sub_u64 word_less_nat_alt)
  have refl: "fb_remap b b" using ok by (simp add: fb_remap_def)
  have lt': "unat bg < unat en" using lt by (simp add: word_less_nat_alt)
  show ?thesis
  proof (cases "length pat > unat en - unat bg")
    case True
    then show ?thesis using refl lt' by (simp add: fb_find_def sub std_search_short)
  next
    case False
    have "length (fb_bytes b) < 2 ^ 62" "fb_window b \<noteq> 0" "unat (fb_window b) < 2 ^ 62"
      using ok by (auto simp: fb_ok_def mm_ok_def fb_bytes_def)
    then have w: "fb_window b \<noteq> 0" "unat bg < 2 ^ 63" "unat (fb_window b) < 2 ^ 62"
      "length pat < 2 ^ 62" using lt' en False by auto
    note wb = window_bounds [OF w(1-3)]
    define p where "p = fb_window b * (bg div fb_window b)"
    have p: "p = bg div fb_window b * fb_window b" by (simp add: p_def)
    note pb = wb [folded p]
    have off: "unat (bg - p) = unat bg - unat p" using pb(3) by (simp add: unat_sub_u64)
    then have s: "unat p + unat (bg - p) = unat bg" using pb(3) by simp
    have "unat (p + fb_window b) = unat p + unat (fb_window b)" by (simp only: pb(1,2))
    then have "bg - p < fb_window b"
      unfolding word_less_nat_alt off using pb(3,4) by linarith
    from fb_find_loop_ok [OF ok _ en this pat w(4), of p, unfolded s] lt'
    show ?thesis using False by (auto simp: fb_find_def sub Let_def simp flip: p_def)
  qed
qed

lemma slice_min_length: "slice b (min e (length xs) - b) xs = slice b (e - b) xs"
  by (simp add: slice_def min_def)

lemma mm_map_segment_0: "mm_ok m \<Longrightarrow> mm_remap m (mm_map_segment m 0)"
  using mm_map_range_ok [of m 0 "mm_window m"]
  by (simp add: mm_map_segment_def mm_ok_def word_gt_0)

lemma fb_resize_ok:
  assumes "fb_ok b" "unat n < 2 ^ 62"
  shows "fb_ok (fb_resize b n) \<and> fb_bytes (fb_resize b n) =
    take (unat n) (fb_bytes b) @ replicate (unat n - length (fb_bytes b)) (CHR 0x00)"
proof -
  define m where "m = (mm_unmap (fb_file b))\<lparr>mm_bytes := take (unat n) (fb_bytes b) @
    replicate (unat n - length (fb_bytes b)) (CHR 0x00), mm_size := n\<rparr>"
  have ok: "mm_ok m" using assms by (auto simp: m_def mm_ok_def fb_ok_def fb_bytes_def mm_unmap_def)
  have "fb_resize b n = b\<lparr>fb_file := mm_map_segment m 0\<rparr>"
    by (simp add: fb_resize_def mm_resize_def Let_def m_def fb_bytes_def mm_unmap_def)
  moreover have "mm_window m = mm_window (fb_file b)" by (simp add: m_def mm_unmap_def)
  ultimately show ?thesis
    using mm_map_segment_0 [OF ok] assms(1) by (simp add: fb_ok_def fb_bytes_def mm_remap_def m_def)
qed

text \<open>
  The result of a reading operation without the mapping it leaves behind. The interpretation shows
  that the result does not depend on the mapping it started from.
\<close>

definition fb_value :: "('a \<times> file_buffer) result \<Rightarrow> 'a result" where
  "fb_value r = rbind r (\<lambda>(x, _). Inr x)"

lemma fb_value_Inr [simp]: "fb_value (Inr (x, b)) = Inr x"
  by (simp add: fb_value_def)

interpretation fb: buffer_contract fb_ok fb_bytes "\<lambda>b i. fb_value (fb_at b i)"
  "\<lambda>b i n. fb_value (fb_read b i n)" fb_write "\<lambda>b i e pat. fb_value (fb_find b i e pat)"
  "\<lambda>b i. fb_value (fb_chunk b i)" fb_segment fb_size "\<lambda>b n. Inr (fb_resize b n)"
proof
  fix b :: file_buffer and i e n :: u64 and d pat :: string
  assume ok: "fb_ok b"
  then have len: "length (fb_bytes b) < 2 ^ 62" and sz: "unat (fb_size b) = length (fb_bytes b)"
    by (auto simp: fb_ok_def mm_ok_def fb_bytes_def fb_size_def)
  show "length (fb_bytes b) < 2 ^ 63" using len by simp
  show "unat (fb_size b) = length (fb_bytes b)" by (rule sz)
  show "unat i < length (fb_bytes b) \<Longrightarrow> fb_value (fb_at b i) = Inr (fb_bytes b ! unat i)"
    using fb_at_ok [OF ok, of i] by auto
  show "fb_value (fb_read b i n) = Inr (slice (unat i) (unat n) (fb_bytes b))"
    if le: "unat i + unat n \<le> length (fb_bytes b)"
  proof -
    have "unat (i + n) = unat i + unat n" using le len by (subst unat_add_u64) simp_all
    then have "\<not> fb_size b < i + n" using le by (simp add: word_less_nat_alt sz)
    then show ?thesis using fb_read_loop_ok [OF ok le, of "[]"] by (auto simp: fb_read_def)
  qed
  show "\<exists>b'. fb_write b i d = Inr b' \<and> fb_ok b' \<and> fb_bytes b' = overwrite (unat i) d (fb_bytes b)"
    if le: "unat i + length d \<le> length (fb_bytes b)"
  proof -
    have "\<not> fb_size b < i + of_nat (length d)"
      using le fb_advance [OF ok le] by (simp add: word_less_nat_alt sz)
    then show ?thesis using fb_write_loop_ok [OF ok le] by (simp add: fb_write_def)
  qed
  show "i < e \<Longrightarrow> unat e \<le> length (fb_bytes b) \<Longrightarrow> pat \<noteq> [] \<Longrightarrow> fb_value (fb_find b i e pat) =
      Inr (of_nat (std_search (fb_bytes b) (unat i) (unat e - unat i) pat))"
    using fb_find_ok [OF ok, of i e pat] by auto
  show "\<exists>n. fb_segment b i = (i, n) \<and> i < n \<and>
      fb_value (fb_chunk b i) = Inr (slice (unat i) (unat n - unat i) (fb_bytes b))"
    if i: "unat i < length (fb_bytes b)"
  proof -
    have w: "fb_window b \<noteq> 0" "unat (fb_window b) < 2 ^ 62" using ok by (auto simp: fb_ok_def mm_ok_def)
    have "unat i < 2 ^ 63" using i len by simp
    note wb = window_bounds [OF w(1) this w(2)]
    let ?n = "i div fb_window b * fb_window b + fb_window b"
    have "fb_segment b i = (i, ?n)" by (simp add: fb_segment_def Let_def mult.commute)
    moreover have "i < ?n" using wb(4) by (simp add: word_less_nat_alt)
    moreover have "unat ?n = fb_window_end b i" by (simp only: wb(2) fb_window_end_def)
    ultimately show ?thesis using fb_chunk_ok [OF ok i] by (auto simp: slice_min_length)
  qed
  show "unat n < 2 ^ 62 \<Longrightarrow> \<exists>b'. Inr (fb_resize b n) = Inr b' \<and> fb_ok b' \<and>
      fb_bytes b' = take (unat n) (fb_bytes b) @ replicate (unat n - length (fb_bytes b)) (CHR 0x00)"
    using fb_resize_ok [OF ok] by simp
qed

section \<open>Opening and copying\<close>

lemma mm_checkWindow_id:
  assumes "mm_ok m" shows "mm_checkWindow m = m"
proof -
  let ?w = "mm_window m" and ?p = "mm_page_size m"
  have "unat ?w div unat ?p * unat ?p = unat ?w" using assms by (simp add: mm_ok_def)
  then have "unat (?w div ?p * ?p) = unat ?w" by (subst unat_mult_u64) (simp_all add: unat_div_u64)
  then have "?w div ?p * ?p = ?w" by (simp only: word_unat_eq_iff)
  moreover have "?p * (?w div ?p) = ?w div ?p * ?p" by (rule mult.commute)
  ultimately show ?thesis
    using assms by (simp add: mm_checkWindow_def Let_def mm_ok_def)
qed

lemma mm_clone_ok:
  assumes "mm_ok m" shows "mm_remap m (mm_clone m)"
proof -
  let ?m = "m\<lparr>mm_pointer := False, mm_segment_start := 0, mm_segment_len := 0\<rparr>"
  have "mm_ok ?m" using assms by (simp add: mm_ok_def)
  then have "mm_checkWindow ?m = ?m" "mm_remap ?m (mm_map_segment ?m 0)"
    by (rule mm_checkWindow_id, rule mm_map_segment_0)
  then show ?thesis by (simp add: mm_clone_def mm_remap_def)
qed

lemma fb_getCopy_ok: "fb_ok b \<Longrightarrow> fb_remap b (fb_getCopy b)"
  using fb_remapI mm_clone_ok by (simp add: fb_getCopy_def fb_ok_def)

lemma rounded_window:
  fixes w p :: u64
  assumes "p \<noteq> 0" "unat p < 2 ^ 32" "unat w < 2 ^ 60" "w \<noteq> 0"
  defines "k \<equiv> (if w - w div p * p \<noteq> 0 then w div p + 1 else w div p)"
  shows "p * k \<noteq> 0 \<and> unat (p * k) < 2 ^ 62 \<and> unat p dvd unat (p * k)"
proof -
  have p0: "0 < unat p" using assms(1) by (simp add: unat_gt_0)
  have qp: "unat p * (unat w div unat p) \<le> unat w" by simp
  have q: "unat w div unat p < 2 ^ 60" using assms(3) by (meson div_le_dividend order_le_less_trans)
  have k: "unat k \<le> unat w div unat p + 1"
  proof -
    have "unat (w div p + 1) = unat w div unat p + 1"
      using q by (subst unat_add_u64) (simp_all add: unat_div_u64)
    then show ?thesis by (simp add: k_def unat_div_u64)
  qed
  have "unat p * unat k \<le> unat p * (unat w div unat p + 1)" using k by (rule mult_le_mono2)
  also have "\<dots> \<le> unat w + unat p" using qp by (simp add: distrib_left)
  also have "\<dots> < 2 ^ 62" using assms(2,3) by simp
  finally have lt: "unat p * unat k < 2 ^ 62" .
  then have eq: "unat (p * k) = unat p * unat k" by (subst unat_mult_u64) simp_all
  have "k \<noteq> 0"
  proof (cases "w - w div p * p = 0")
    case True
    then have "w div p \<noteq> 0" using assms(4) by auto
    then show ?thesis using True by (simp add: k_def)
  next
    case False
    have "unat (w div p + 1) \<noteq> 0"
      using q by (subst unat_add_u64) (simp_all add: unat_div_u64)
    then show ?thesis using False by (auto simp: k_def)
  qed
  then have "unat (p * k) \<noteq> 0" using p0 assms(1) by (simp add: eq unat_eq_0)
  then show ?thesis using lt eq by (auto simp: unat_eq_0)
qed

lemma mm_checkWindow_ok:
  assumes "mm_page_size m \<noteq> 0" "unat (mm_page_size m) < 2 ^ 32" "unat (mm_window m) < 2 ^ 60"
    and "length (mm_bytes m) < 2 ^ 62" "mm_size m = of_nat (length (mm_bytes m))"
    and "\<not> mm_pointer m" "mm_segment_start m = 0" "mm_segment_len m = 0"
  shows "mm_ok (mm_checkWindow m)"
proof (cases "mm_window m = 0")
  case True
  have "unat (10 * mm_page_size m) = 10 * unat (mm_page_size m)"
    using assms(2) by (subst unat_mult_u64) simp_all
  moreover have "0 < unat (mm_page_size m)" using assms(1) by (simp add: unat_gt_0)
  ultimately have "10 * mm_page_size m \<noteq> 0 \<and> unat (10 * mm_page_size m) < 2 ^ 62 \<and>
      unat (mm_page_size m) dvd unat (10 * mm_page_size m)"
    using assms(2) by (auto simp: unat_eq_0 [symmetric])
  then show ?thesis using True assms by (simp add: mm_checkWindow_def mm_ok_def)
next
  case False
  show ?thesis
    using rounded_window [OF assms(1-3) False] False assms by (simp add: mm_checkWindow_def mm_ok_def Let_def)
qed

lemma fb_new_ok:
  assumes "page_size \<noteq> 0" "unat page_size < 2 ^ 32" "unat window < 2 ^ 60" "length content < 2 ^ 62"
  shows "fb_ok (fb_new name content window page_size) \<and>
    fb_bytes (fb_new name content window page_size) = content"
proof -
  define m where "m = \<lparr>mm_bytes = content, mm_pointer = False, mm_size = of_nat (length content),
    mm_window = window, mm_segment_start = 0, mm_segment_len = 0, mm_page_size = page_size\<rparr>"
  have "mm_ok (mm_checkWindow m)" by (rule mm_checkWindow_ok) (use assms in \<open>simp_all add: m_def\<close>)
  then have "mm_remap (mm_checkWindow m) (mm_open content window page_size)"
    unfolding mm_open_def m_def [symmetric] by (rule mm_map_segment_0)
  moreover have "mm_bytes (mm_checkWindow m) = content" by (simp add: mm_checkWindow_def Let_def m_def)
  ultimately show ?thesis by (simp add: fb_new_def Let_def fb_ok_def fb_bytes_def mm_remap_def)
qed

section \<open>Properties\<close>

text \<open>
  C33. A file buffer and a string buffer with the same content are interchangeable for reading: a
  character, a block and the position of a text (searched window by window, with windows that
  overlap by the length of the text) are the same whatever part of the file is mapped, and no
  access leaves the mapped window.
\<close>

theorem file_buffer_refines_string_buffer:
  assumes "fb_ok b" "bg < en" "unat en \<le> length (fb_bytes b)" "pat \<noteq> []" "length pat < 2 ^ 63"
  shows "fb_value (fb_at b bg) = sb_at (sb_new (fb_bytes b)) bg \<and>
    fb_value (fb_read b bg (en - bg)) = sb_read (sb_new (fb_bytes b)) bg (en - bg) \<and>
    fb_value (fb_find b bg en pat) = sb_find (sb_new (fb_bytes b)) bg en pat"
proof -
  let ?s = "sb_new (fb_bytes b)"
  have s: "sb_ok ?s" "sb_data ?s = fb_bytes b" using fb.bytes_length [OF assms(1)]
    by (simp_all add: sb_ok_def sb_new_def)
  have lt: "unat bg < unat en" using assms(2) by (simp add: word_less_nat_alt)
  then have n: "unat bg + unat (en - bg) = unat en" by (simp add: unat_sub_u64)
  show ?thesis
    using fb.at_law [OF assms(1), of bg] sb.at_law [OF s(1), of bg]
      fb.read_law [OF assms(1), of bg "en - bg"] sb.read_law [OF s(1), of bg "en - bg"]
      fb.find_law [OF assms] sb.find_law [OF s(1) assms(2) _ assms(4,5)] assms(3) lt n s(2)
    by simp
qed

theorem file_buffer_refines_string_buffer_witness:
  "fb_value (fb_find (fb_new ''f'' ''hello world'' 0 4096) 0 11 ''wor'') =
   sb_find (sb_new ''hello world'') 0 11 ''wor''"
proof -
  have ok: "fb_ok (fb_new ''f'' ''hello world'' 0 4096)"
    "fb_bytes (fb_new ''f'' ''hello world'' 0 4096) = ''hello world''"
    using fb_new_ok [of 4096 0 "''hello world''" "''f''"] by simp_all
  show ?thesis
    using file_buffer_refines_string_buffer [OF ok(1), of 0 11 "''wor''"] by (simp add: ok(2))
qed

text \<open>
  What is written to a file buffer is read back, the rest of the file is unchanged, and the
  invariant of the mapping is kept, although the block is copied window by window.
\<close>

theorem file_buffer_write_read:
  assumes "fb_ok b" "unat pos + length d \<le> length (fb_bytes b)"
  shows "\<exists>b'. fb_write b pos d = Inr b' \<and> fb_ok b' \<and>
    fb_value (fb_read b' pos (of_nat (length d))) = Inr d \<and>
    fb_bytes b' = overwrite (unat pos) d (fb_bytes b)"
  using fb.put_law [OF assms] fb.read_after_put [OF assms] by blast

theorem file_buffer_write_read_witness:
  "\<exists>b'. fb_write (fb_new ''f'' ''hello world'' 0 4096) 6 ''earth'' = Inr b' \<and> fb_ok b' \<and>
    fb_value (fb_read b' 6 5) = Inr ''earth'' \<and> fb_bytes b' = ''hello earth''"
proof -
  have ok: "fb_ok (fb_new ''f'' ''hello world'' 0 4096)"
    "fb_bytes (fb_new ''f'' ''hello world'' 0 4096) = ''hello world''"
    using fb_new_ok [of 4096 0 "''hello world''" "''f''"] by simp_all
  show ?thesis
    using file_buffer_write_read [OF ok(1), of 6 "''earth''"] by (simp add: ok(2) overwrite_def)
qed

lemma trim_stop:
  "0 < n \<Longrightarrow> \<not> isspace (m ! b) \<Longrightarrow> trim_front m b n = (b, n)"
  "0 < n \<Longrightarrow> \<not> isspace (m ! (b + (n - 1))) \<Longrightarrow> trim_back m b n = n"
  by (cases n; simp)+

lemma fb_trim_front_stop:
  assumes "fb_ok b" "bg < en" "unat en \<le> length (fb_bytes b)" "\<not> isspace (fb_bytes b ! unat bg)"
  shows "\<exists>b'. fb_trim_front b bg en = Inr (bg, b')"
proof -
  have "unat bg < length (fb_bytes b)" using assms(2,3) by (simp add: word_less_nat_alt)
  from fb_at_ok [OF assms(1) this] show ?thesis
    using assms(2,4) by (auto simp: fb_trim_front.simps [of b])
qed

text \<open>
  Trimming is where the two implementations part: at the back, a file buffer compares the
  \<^emph>\<open>index\<close> of the last character with the codes of the spaces. So trailing spaces stay in the text
  (at index 1 here), and a letter at index 32 is cut off, while the string buffer trims the text.
\<close>

theorem file_buffer_trim_by_index:
  "fb_value (fb_trim (fb_new ''f'' ''a '' 0 4096) 0 2) = Inr (0, 2) \<and>
   sb_trim (sb_new ''a '') 0 2 = Inr (0, 1) \<and>
   fb_value (fb_trim (fb_new ''f'' (replicate 33 (CHR ''x'')) 0 4096) 0 33) = Inr (0, 32) \<and>
   sb_trim (sb_new (replicate 33 (CHR ''x''))) 0 33 = Inr (0, 33)"
proof (intro conjI)
  have a: "fb_ok (fb_new ''f'' ''a '' 0 4096)" "fb_bytes (fb_new ''f'' ''a '' 0 4096) = ''a ''"
    using fb_new_ok [of 4096 0 "''a ''" "''f''"] by simp_all
  obtain b' where "fb_trim_front (fb_new ''f'' ''a '' 0 4096) 0 2 = Inr (0, b')"
    using fb_trim_front_stop [OF a(1), of 0 2] by (auto simp: a(2) isspace_def)
  then show "fb_value (fb_trim (fb_new ''f'' ''a '' 0 4096) 0 2) = Inr (0, 2)"
    by (simp add: fb_trim_def fb_trim_back.simps int_isspace_def word_le_nat_alt)
  have x: "fb_ok (fb_new ''f'' (replicate 33 (CHR ''x'')) 0 4096)"
    "fb_bytes (fb_new ''f'' (replicate 33 (CHR ''x'')) 0 4096) = replicate 33 (CHR ''x'')"
    using fb_new_ok [of 4096 0 "replicate 33 (CHR ''x'')" "''f''"] by simp_all
  obtain b' where "fb_trim_front (fb_new ''f'' (replicate 33 (CHR ''x'')) 0 4096) 0 33 = Inr (0, b')"
    using fb_trim_front_stop [OF x(1), of 0 33] by (auto simp: x(2) isspace_def)
  then show "fb_value (fb_trim (fb_new ''f'' (replicate 33 (CHR ''x'')) 0 4096) 0 33) = Inr (0, 32)"
    by (simp add: fb_trim_def fb_trim_back.simps int_isspace_def)
  have "trim_front ''a '' 0 2 = (0, 2)" "trim_back ''a '' 0 2 = 1"
    by (simp_all add: numeral_2_eq_2 isspace_def)
  then show "sb_trim (sb_new ''a '') 0 2 = Inr (0, 1)"
    by (simp add: sb_trim_def sb_range_def sb_new_def rg_trim_def rg_end_def)
  have "trim_front (replicate 33 (CHR ''x'')) 0 33 = (0, 33)" "trim_back (replicate 33 (CHR ''x'')) 0 33 = 33"
    by (simp_all add: trim_stop isspace_def)
  then show "sb_trim (sb_new (replicate 33 (CHR ''x''))) 0 33 = Inr (0, 33)"
    by (simp add: sb_trim_def sb_range_def sb_new_def rg_trim_def rg_end_def)
qed

end
