(* ===== verification/DataBuffers.thy ===== *)
theory DataBuffers
  imports FileBuffers
begin

text \<open>
  \<^verbatim>\<open>DataBuffer\<close> (\<^verbatim>\<open>library/data_buffer.cpp\<close>): a handle on a part of a buffer implementation, chosen by
  virtual dispatch. The implementation is shared by the handles cut out of a buffer; the program
  writes through one handle at a time and reads through the others afterwards, so a handle carries
  the value of its implementation. Indices are 64-bit unsigned integers and wrap around as in the
  code.
\<close>

section \<open>Dispatch to the implementation\<close>

datatype buffer_impl = StringImpl string_buffer | FileImpl file_buffer

fun impl_size :: "buffer_impl \<Rightarrow> u64" where
  "impl_size (StringImpl b) = sb_size b"
| "impl_size (FileImpl b) = fb_size b"

fun impl_at :: "buffer_impl \<Rightarrow> u64 \<Rightarrow> char result" where
  "impl_at (StringImpl b) pos = sb_at b pos"
| "impl_at (FileImpl b) pos = fb_value (fb_at b pos)"

fun impl_read :: "buffer_impl \<Rightarrow> u64 \<Rightarrow> u64 \<Rightarrow> string result" where
  "impl_read (StringImpl b) pos len = sb_read b pos len"
| "impl_read (FileImpl b) pos len = fb_value (fb_read b pos len)"

fun impl_write :: "buffer_impl \<Rightarrow> u64 \<Rightarrow> string \<Rightarrow> buffer_impl result" where
  "impl_write (StringImpl b) pos data = rbind (sb_write b pos data) (\<lambda>b. Inr (StringImpl b))"
| "impl_write (FileImpl b) pos data = rbind (fb_write b pos data) (\<lambda>b. Inr (FileImpl b))"

fun impl_find :: "buffer_impl \<Rightarrow> u64 \<Rightarrow> u64 \<Rightarrow> string \<Rightarrow> u64 result" where
  "impl_find (StringImpl b) bg en buf = sb_find b bg en buf"
| "impl_find (FileImpl b) bg en buf = fb_value (fb_find b bg en buf)"

fun impl_trim :: "buffer_impl \<Rightarrow> u64 \<Rightarrow> u64 \<Rightarrow> (u64 \<times> u64) result" where
  "impl_trim (StringImpl b) bg en = sb_trim b bg en"
| "impl_trim (FileImpl b) bg en = fb_value (fb_trim b bg en)"

fun impl_chunk :: "buffer_impl \<Rightarrow> u64 \<Rightarrow> string result" where
  "impl_chunk (StringImpl b) pos = sb_chunk b pos"
| "impl_chunk (FileImpl b) pos = fb_value (fb_chunk b pos)"

fun impl_segment :: "buffer_impl \<Rightarrow> u64 \<Rightarrow> u64 \<times> u64" where
  "impl_segment (StringImpl b) pos = sb_segment b pos"
| "impl_segment (FileImpl b) pos = fb_segment b pos"

fun impl_resize :: "buffer_impl \<Rightarrow> u64 \<Rightarrow> buffer_impl result" where
  "impl_resize (StringImpl b) sz = rbind (sb_resize b sz) (\<lambda>b. Inr (StringImpl b))"
| "impl_resize (FileImpl b) sz = Inr (FileImpl (fb_resize b sz))"

fun impl_getCopy :: "buffer_impl \<Rightarrow> buffer_impl" where
  "impl_getCopy (StringImpl b) = StringImpl b"
| "impl_getCopy (FileImpl b) = FileImpl (fb_getCopy b)"

fun impl_filename :: "buffer_impl \<Rightarrow> string" where
  "impl_filename (StringImpl b) = sb_filename b"
| "impl_filename (FileImpl b) = fb_filename b"

section \<open>DataBuffer\<close>

record data_buffer =
  db_data :: "buffer_impl option"
  db_begin :: u64
  db_end :: u64

definition db_new :: data_buffer where
  "db_new = \<lparr>db_data = None, db_begin = 0, db_end = 0\<rparr>"

text \<open>Calls through the pointer to the implementation.\<close>

definition db_impl :: "data_buffer \<Rightarrow> buffer_impl result" where
  "db_impl d = (case db_data d of None \<Rightarrow> Inl NullPointer | Some b \<Rightarrow> Inr b)"

definition db_part :: "data_buffer \<Rightarrow> u64 \<Rightarrow> u64 \<Rightarrow> data_buffer result" where
  "db_part buffer bg en =
     rbind (db_impl buffer) (\<lambda>b.
       if en > impl_size b then Inl (OutOfRange ''Incorrect index'')
       else Inr \<lparr>db_data = Some b, db_begin = bg, db_end = en\<rparr>)"

definition db_create_impl :: "buffer_impl \<Rightarrow> data_buffer" where
  "db_create_impl impl = db_new\<lparr>db_data := Some impl, db_end := impl_size impl\<rparr>"

definition db_create :: "string \<Rightarrow> data_buffer" where
  "db_create data = db_create_impl (StringImpl (sb_new data))"

definition db_checkIndex :: "data_buffer \<Rightarrow> u64 \<Rightarrow> unit result" where
  "db_checkIndex d index =
     (if index = 0 \<and> db_begin d = 0 \<and> db_end d = 0 then Inr ()
      else if index < db_begin d \<or> index \<ge> db_end d then Inl (OutOfRange ''Incorrect index'')
      else Inr ())"

definition db_read :: "data_buffer \<Rightarrow> u64 \<Rightarrow> u64 \<Rightarrow> string result" where
  "db_read d pos len =
     (if pos \<ge> db_end d - db_begin d then Inr []
      else rbind (db_impl d) (\<lambda>b.
        impl_read b (pos + db_begin d) (min (db_end d - db_begin d - pos) len)))"

text \<open>The returned number is the length that was written.\<close>

definition db_write :: "data_buffer \<Rightarrow> u64 \<Rightarrow> string \<Rightarrow> (u64 \<times> data_buffer) result" where
  "db_write d pos data =
     (if pos \<ge> db_end d - db_begin d then Inr (0, d)
      else rbind (db_impl d) (\<lambda>b.
        let len = min (db_end d - db_begin d - pos) (of_nat (length data))
        in rbind (impl_write b (pos + db_begin d) (take (unat len) data)) (\<lambda>b.
             Inr (len, d\<lparr>db_data := Some b\<rparr>))))"

definition db_isNil :: "data_buffer \<Rightarrow> bool" where
  "db_isNil d \<longleftrightarrow> db_data d = None"

definition db_empty :: "data_buffer \<Rightarrow> bool" where
  "db_empty d \<longleftrightarrow> db_isNil d \<or> db_begin d = db_end d"

definition db_size :: "data_buffer \<Rightarrow> u64" where
  "db_size d = db_end d - db_begin d"

definition db_resize :: "data_buffer \<Rightarrow> u64 \<Rightarrow> data_buffer result" where
  "db_resize d sz =
     rbind (db_impl d) (\<lambda>b.
     rbind (impl_resize b (db_begin d + sz)) (\<lambda>b.
       Inr (d\<lparr>db_data := Some b, db_end := db_begin d + sz\<rparr>)))"

definition db_at :: "data_buffer \<Rightarrow> u64 \<Rightarrow> char result" where
  "db_at d pos =
     rbind (db_checkIndex d (db_begin d + pos)) (\<lambda>_.
     rbind (db_impl d) (\<lambda>b. impl_at b (db_begin d + pos)))"

definition db_find :: "data_buffer \<Rightarrow> u64 \<Rightarrow> string \<Rightarrow> u64 result" where
  "db_find d pos buf =
     rbind (db_checkIndex d pos) (\<lambda>_.
     rbind (db_impl d) (\<lambda>b.
     rbind (impl_find b pos (db_end d) buf) (\<lambda>r. Inr (r - db_begin d))))"

definition db_trim :: "data_buffer \<Rightarrow> data_buffer result" where
  "db_trim d =
     (if db_empty d then Inr d
      else rbind (db_impl d) (\<lambda>b.
           rbind (impl_trim b (db_begin d) (db_end d)) (\<lambda>res.
             Inr (d\<lparr>db_begin := fst res, db_end := snd res\<rparr>))))"

definition db_trimn :: "data_buffer \<Rightarrow> u64 \<Rightarrow> u64 \<Rightarrow> data_buffer" where
  "db_trimn d b e =
     (if db_empty d then d
      else
        let r = d\<lparr>db_begin := db_begin d + b\<rparr>
        in if db_begin r \<ge> db_end r then r\<lparr>db_begin := db_end r\<rparr>
           else r\<lparr>db_end := max (db_end r - e) (db_begin r)\<rparr>)"

definition db_split :: "data_buffer \<Rightarrow> string \<Rightarrow> (bool \<times> data_buffer \<times> data_buffer) result" where
  "db_split d delim =
     (let second = db_new\<lparr>db_data := db_data d\<rparr>
      in if db_empty d then Inr (False, d, second)
         else rbind (db_find d (db_begin d) delim) (\<lambda>res.
           if res = db_size d then Inr (False, d, second)
           else
             let first = d\<lparr>db_end := db_begin d + res\<rparr>
             in Inr (True, first,
                  second\<lparr>db_begin := db_end first + of_nat (length delim), db_end := db_end d\<rparr>)))"

definition db_split_char :: "data_buffer \<Rightarrow> char \<Rightarrow> (bool \<times> data_buffer \<times> data_buffer) result" where
  "db_split_char d delim =
     (let second = db_new\<lparr>db_data := db_data d\<rparr>
      in if db_empty d then Inr (False, d, second)
         else rbind (db_find d (db_begin d) [delim]) (\<lambda>res.
           if res = db_size d then Inr (False, d, second)
           else
             let first = d\<lparr>db_end := db_begin d + res\<rparr>
             in Inr (True, first, second\<lparr>db_begin := db_end first + 1, db_end := db_end d\<rparr>)))"

text \<open>
  The comparison loops: characters of the given text are compared, after \<open>f\<close>, with the characters of
  the buffer from index \<open>i\<close> on; the loop of \<^verbatim>\<open>endsWith\<close> runs from the last character backwards.
\<close>

fun db_match_front :: "(char \<Rightarrow> char) \<Rightarrow> data_buffer \<Rightarrow> u64 \<Rightarrow> string \<Rightarrow> bool result" where
  "db_match_front f d i [] = Inr True"
| "db_match_front f d i (c # cs) =
     rbind (db_at d i) (\<lambda>x. if f c \<noteq> f x then Inr False else db_match_front f d (i + 1) cs)"

fun db_match_back :: "(char \<Rightarrow> char) \<Rightarrow> data_buffer \<Rightarrow> u64 \<Rightarrow> string \<Rightarrow> bool result" where
  "db_match_back f d i [] = Inr True"
| "db_match_back f d i (c # cs) =
     rbind (db_at d (i - 1)) (\<lambda>x. if f c \<noteq> f x then Inr False else db_match_back f d (i - 1) cs)"

definition db_startsWith :: "data_buffer \<Rightarrow> string \<Rightarrow> bool result" where
  "db_startsWith d data =
     (if length data > unat (db_size d) then Inr False else db_match_front id d 0 data)"

definition db_startsWithCI :: "data_buffer \<Rightarrow> string \<Rightarrow> bool result" where
  "db_startsWithCI d data =
     (if length data > unat (db_size d) then Inr False else db_match_front tolower d 0 data)"

definition db_endsWith :: "data_buffer \<Rightarrow> string \<Rightarrow> bool result" where
  "db_endsWith d data =
     (if length data > unat (db_size d) then Inr False
      else db_match_back id d (db_size d) (rev data))"

definition db_endsWithCI :: "data_buffer \<Rightarrow> string \<Rightarrow> bool result" where
  "db_endsWithCI d data =
     (if length data > unat (db_size d) then Inr False
      else db_match_back tolower d (db_size d) (rev data))"

section \<open>SegmentIterator\<close>

record segment_iterator =
  si_buffer :: data_buffer
  si_pos_begin :: u64
  si_pos_end :: u64

definition si_end :: segment_iterator where
  "si_end = \<lparr>si_buffer = db_new, si_pos_begin = 0, si_pos_end = 0\<rparr>"

definition si_is_end :: "segment_iterator \<Rightarrow> bool" where
  "si_is_end it \<longleftrightarrow> db_data (si_buffer it) = None \<and> si_pos_begin it = 0 \<and> si_pos_end it = 0"

definition si_new :: "data_buffer \<Rightarrow> segment_iterator" where
  "si_new buffer =
     (case db_data buffer of
        None \<Rightarrow> si_end
      | Some b \<Rightarrow>
          if db_empty buffer then si_end
          else
            let copy = impl_getCopy b;
                segment = impl_segment copy (db_begin buffer)
            in \<lparr>si_buffer = buffer\<lparr>db_data := Some copy\<rparr>, si_pos_begin = db_begin buffer,
                si_pos_end = min (snd segment) (db_end buffer)\<rparr>)"

definition si_deref :: "segment_iterator \<Rightarrow> string result" where
  "si_deref it =
     (if si_is_end it then Inr []
      else rbind (db_impl (si_buffer it)) (\<lambda>b.
           rbind (impl_chunk b (si_pos_begin it)) (\<lambda>t.
             Inr (take (unat (db_end (si_buffer it) - si_pos_begin it)) t))))"

definition si_next :: "segment_iterator \<Rightarrow> segment_iterator result" where
  "si_next it =
     (if si_is_end it then Inr it
      else if si_pos_end it \<ge> db_end (si_buffer it) then Inr si_end
      else rbind (db_impl (si_buffer it)) (\<lambda>b.
        let segment = impl_segment b (si_pos_end it)
        in Inr (it\<lparr>si_pos_begin := si_pos_end it,
                   si_pos_end := min (snd segment) (db_end (si_buffer it))\<rparr>)))"

text \<open>
  The loop over the segments of a buffer: the chunks it visits, in order. \<^verbatim>\<open>toString\<close> appends each of
  them to a string, \<^verbatim>\<open>StringUtils::urldecode\<close> the decoded text of each of them.
\<close>

partial_function (option) si_chunks :: "segment_iterator \<Rightarrow> string list \<Rightarrow> string list result option" where
  [code]: "si_chunks it acc =
     (if si_is_end it then Some (Inr acc)
      else case si_deref it of
             Inl e \<Rightarrow> Some (Inl e)
           | Inr chunk \<Rightarrow>
               (case si_next it of Inl e \<Rightarrow> Some (Inl e) | Inr it \<Rightarrow> si_chunks it (acc @ [chunk])))"

definition db_chunks :: "data_buffer \<Rightarrow> string list result" where
  "db_chunks d = (case si_chunks (si_new d) [] of None \<Rightarrow> Inl Diverges | Some r \<Rightarrow> r)"

definition db_collect :: "(string \<Rightarrow> string) \<Rightarrow> data_buffer \<Rightarrow> string result" where
  "db_collect f d = rbind (db_chunks d) (\<lambda>cs. Inr (concat (map f cs)))"

definition db_toString :: "data_buffer \<Rightarrow> string result" where
  "db_toString d = db_collect id d"

definition db_urldecode :: "data_buffer \<Rightarrow> string result" where
  "db_urldecode data = db_collect urldecode_loop data"

text \<open>\<^verbatim>\<open>StringUtils::parse(DataBuffer, std::vector<NamedValue>&)\<close>.\<close>

partial_function (option) db_parse_args_loop ::
    "data_buffer \<Rightarrow> (string \<times> string) list \<Rightarrow> (string \<times> string) list result option" where
  [code]: "db_parse_args_loop tmp v =
     (if db_empty tmp then Some (Inr v)
      else case db_split_char tmp (CHR ''&'') of
             Inl e \<Rightarrow> Some (Inl e)
           | Inr (_, head, tail) \<Rightarrow>
               (case db_split_char head (CHR ''='') of
                  Inl e \<Rightarrow> Some (Inl e)
                | Inr (_, key, val) \<Rightarrow>
                    if db_empty key then db_parse_args_loop tail v
                    else
                      (case db_urldecode key of
                         Inl e \<Rightarrow> Some (Inl e)
                       | Inr k \<Rightarrow>
                           (case db_urldecode val of
                              Inl e \<Rightarrow> Some (Inl e)
                            | Inr x \<Rightarrow> db_parse_args_loop tail (v @ [(k, x)])))))"

definition db_parse_args :: "data_buffer \<Rightarrow> (string \<times> string) list \<Rightarrow> (string \<times> string) list result" where
  "db_parse_args data v = (case db_parse_args_loop data v of None \<Rightarrow> Inl Diverges | Some r \<Rightarrow> r)"

section \<open>The implementations satisfy the contract\<close>

fun impl_ok :: "buffer_impl \<Rightarrow> bool" where
  "impl_ok (StringImpl b) = sb_ok b"
| "impl_ok (FileImpl b) = fb_ok b"

fun impl_bytes :: "buffer_impl \<Rightarrow> string" where
  "impl_bytes (StringImpl b) = sb_data b"
| "impl_bytes (FileImpl b) = fb_bytes b"

interpretation im: buffer_contract impl_ok impl_bytes impl_at impl_read impl_write impl_find impl_chunk
  impl_segment impl_size impl_resize
proof
  fix b :: buffer_impl and i e n :: u64 and d pat :: string
  assume ok: "impl_ok b"
  show "length (impl_bytes b) < 2 ^ 63"
    using ok sb.bytes_length fb.bytes_length by (cases b) auto
  show "unat (impl_size b) = length (impl_bytes b)"
    using ok sb.size_law fb.size_law by (cases b) auto
  show "unat i < length (impl_bytes b) \<Longrightarrow> impl_at b i = Inr (impl_bytes b ! unat i)"
    using ok sb.at_law fb.at_law by (cases b) auto
  show "unat i + unat n \<le> length (impl_bytes b) \<Longrightarrow>
      impl_read b i n = Inr (slice (unat i) (unat n) (impl_bytes b))"
    using ok sb.read_law fb.read_law by (cases b) auto
  show "unat i + length d \<le> length (impl_bytes b) \<Longrightarrow>
      \<exists>b'. impl_write b i d = Inr b' \<and> impl_ok b' \<and> impl_bytes b' = overwrite (unat i) d (impl_bytes b)"
    using ok sb.put_law [of _ i d] fb.put_law [of _ i d] by (cases b) fastforce+
  show "i < e \<Longrightarrow> unat e \<le> length (impl_bytes b) \<Longrightarrow> pat \<noteq> [] \<Longrightarrow> length pat < 2 ^ 63 \<Longrightarrow>
      impl_find b i e pat = Inr (of_nat (std_search (impl_bytes b) (unat i) (unat e - unat i) pat))"
    using ok sb.find_law [of _ i e pat] fb.find_law [of _ i e pat] by (cases b) auto
  show "unat i < length (impl_bytes b) \<Longrightarrow> \<exists>n. impl_segment b i = (i, n) \<and> i < n \<and>
      impl_chunk b i = Inr (slice (unat i) (unat n - unat i) (impl_bytes b))"
    using ok sb.chunk_law [of _ i] fb.chunk_law [of _ i] by (cases b) auto
  show "unat n < 2 ^ 62 \<Longrightarrow> \<exists>b'. impl_resize b n = Inr b' \<and> impl_ok b' \<and>
      impl_bytes b' = take (unat n) (impl_bytes b) @ replicate (unat n - length (impl_bytes b)) (CHR 0x00)"
    using ok sb.resize_law [of _ n] fb.resize_law [of _ n] by (cases b) fastforce+
qed

section \<open>The text of a buffer\<close>

definition db_ok :: "data_buffer \<Rightarrow> bool" where
  "db_ok d \<longleftrightarrow>
     (case db_data d of
        None \<Rightarrow> db_begin d = 0 \<and> db_end d = 0
      | Some b \<Rightarrow> impl_ok b \<and> db_begin d \<le> db_end d \<and> unat (db_end d) \<le> length (impl_bytes b))"

definition db_text :: "data_buffer \<Rightarrow> string" where
  "db_text d =
     (case db_data d of
        None \<Rightarrow> []
      | Some b \<Rightarrow> slice (unat (db_begin d)) (unat (db_end d) - unat (db_begin d)) (impl_bytes b))"

text \<open>A buffer in memory, for which trimming works on the text.\<close>

definition db_in_memory :: "data_buffer \<Rightarrow> bool" where
  "db_in_memory d \<longleftrightarrow> (\<forall>f. db_data d \<noteq> Some (FileImpl f))"

named_theorems db_simps \<open>the text of a buffer under each operation\<close>

lemma db_new_ok [simp]: "db_ok db_new" "db_text db_new = []" "db_in_memory db_new"
  by (simp_all add: db_new_def db_ok_def db_text_def db_in_memory_def)

lemma length_db_text: "db_ok d \<Longrightarrow> length (db_text d) = unat (db_size d)"
  by (auto simp: db_ok_def db_text_def db_size_def unat_sub_u64 word_le_nat_alt split: option.splits)

lemma db_text_bound: "db_ok d \<Longrightarrow> length (db_text d) < 2 ^ 63"
  using im.bytes_length by (fastforce simp: db_ok_def db_text_def split: option.splits)

lemma db_someE:
  assumes "db_ok d" "db_text d \<noteq> []"
  obtains b where "db_data d = Some b" "impl_ok b" "unat (db_begin d) < unat (db_end d)"
    "unat (db_end d) \<le> length (impl_bytes b)" "unat (db_end d) < 2 ^ 63"
    "db_text d = slice (unat (db_begin d)) (unat (db_end d) - unat (db_begin d)) (impl_bytes b)"
proof -
  obtain b where b: "db_data d = Some b" using assms(2) by (auto simp: db_text_def split: option.splits)
  have "unat (db_end d) - unat (db_begin d) \<noteq> 0" using assms(2) b by (auto simp: db_text_def)
  moreover have "length (impl_bytes b) < 2 ^ 63" using assms(1) b im.bytes_length by (auto simp: db_ok_def)
  ultimately show ?thesis using assms(1) b by (intro that [of b]) (auto simp: db_ok_def db_text_def)
qed

lemma db_empty_text [db_simps]: "db_ok d \<Longrightarrow> db_empty d \<longleftrightarrow> db_text d = []"
proof (cases "db_data d")
  case (Some b)
  assume ok: "db_ok d"
  have "db_text d = [] \<longleftrightarrow> unat (db_end d) - unat (db_begin d) = 0"
    using length_db_text [OF ok] ok Some
    by (auto simp: db_ok_def db_text_def db_size_def slice_def)
  also have "\<dots> \<longleftrightarrow> db_begin d = db_end d"
    using ok Some by (auto simp: db_ok_def word_le_nat_alt word_unat_eq_iff)
  finally show ?thesis using Some by (auto simp: db_empty_def db_isNil_def)
qed (simp add: db_empty_def db_isNil_def db_text_def)

lemma db_index:
  assumes "db_ok d" "unat i < length (db_text d)"
  shows "unat (db_begin d + i) = unat (db_begin d) + unat i" "db_begin d + i < db_end d"
    "db_begin d \<le> db_begin d + i"
proof -
  have "db_text d \<noteq> []" using assms(2) by auto
  with assms(1) obtain b where b: "unat (db_begin d) < unat (db_end d)" "unat (db_end d) < 2 ^ 63"
    "db_text d = slice (unat (db_begin d)) (unat (db_end d) - unat (db_begin d)) (impl_bytes b)"
    by (rule db_someE)
  have lt: "unat (db_begin d) + unat i < unat (db_end d)" using assms(2) b by auto
  then show u: "unat (db_begin d + i) = unat (db_begin d) + unat i"
    using b(2) by (subst unat_add_u64) simp_all
  show "db_begin d + i < db_end d" "db_begin d \<le> db_begin d + i"
    using lt by (simp_all add: word_less_nat_alt word_le_nat_alt u)
qed

lemma db_at_text [db_simps]:
  assumes "db_ok d" "unat i < length (db_text d)"
  shows "db_at d i = Inr (db_text d ! unat i)"
proof -
  have "db_text d \<noteq> []" using assms(2) by auto
  with assms(1) obtain b where b: "db_data d = Some b" "impl_ok b" "unat (db_begin d) < unat (db_end d)"
    "unat (db_end d) \<le> length (impl_bytes b)"
    "db_text d = slice (unat (db_begin d)) (unat (db_end d) - unat (db_begin d)) (impl_bytes b)"
    by (rule db_someE)
  note x = db_index [OF assms]
  have "db_checkIndex d (db_begin d + i) = Inr ()"
    using x(2,3) by (auto simp: db_checkIndex_def)
  moreover have "impl_at b (db_begin d + i) = Inr (impl_bytes b ! (unat (db_begin d) + unat i))"
    using im.at_law [OF b(2), of "db_begin d + i"] b(4) x(1,2) by (simp add: word_less_nat_alt)
  moreover have "db_text d ! unat i = impl_bytes b ! (unat (db_begin d) + unat i)"
    using assms(2) b(4) unfolding b(5) by (subst nth_slice) auto
  ultimately show ?thesis by (simp add: db_at_def db_impl_def b(1))
qed

lemma db_match_front_text:
  "db_ok d \<Longrightarrow> unat i + length cs \<le> length (db_text d) \<Longrightarrow>
   db_match_front f d i cs = Inr (map f (slice (unat i) (length cs) (db_text d)) = map f cs)"
proof (induction cs arbitrary: i)
  case (Cons c cs)
  have "unat (i + 1) = unat i + 1"
    using Cons.prems db_text_bound [OF Cons.prems(1)] by (subst unat_add_u64) simp_all
  then show ?case
    using Cons.IH [of "i + 1"] Cons.prems by (simp add: db_at_text slice_Suc eq_commute)
qed simp

lemma db_match_back_text:
  "db_ok d \<Longrightarrow> length cs \<le> unat i \<Longrightarrow> unat i \<le> length (db_text d) \<Longrightarrow>
   db_match_back f d i cs =
     Inr (map f (slice (unat i - length cs) (length cs) (db_text d)) = map f (rev cs))"
proof (induction cs arbitrary: i)
  case (Cons c cs)
  have i: "unat (i - 1) = unat i - 1" using Cons.prems by (subst unat_sub_u64) simp_all
  have s: "slice (unat i - Suc (length cs)) (Suc (length cs)) (db_text d) =
      slice (unat i - Suc (length cs)) (length cs) (db_text d) @ [db_text d ! (unat i - 1)]"
    using Cons.prems by (subst slice_Suc_end) auto
  have "unat i - 1 - length cs = unat i - Suc (length cs)" by simp
  then show ?case
    using Cons.IH [of "i - 1"] Cons.prems by (simp add: db_at_text i s eq_commute)
qed simp

lemma db_startsWith_text [db_simps]:
  assumes "db_ok d"
  shows "db_startsWith d s = Inr (take (length s) (db_text d) = s)"
proof (cases "length s > length (db_text d)")
  case True
  then have "take (length s) (db_text d) \<noteq> s" by auto
  then show ?thesis using True length_db_text [OF assms] by (simp add: db_startsWith_def)
next
  case False
  then show ?thesis using length_db_text [OF assms] db_match_front_text [OF assms, of 0 s id]
    by (simp add: db_startsWith_def slice_def)
qed

lemma db_startsWithCI_text [db_simps]:
  assumes "db_ok d"
  shows "db_startsWithCI d s = Inr (eq_ci (take (length s) (db_text d)) s)"
proof (cases "length s > length (db_text d)")
  case True
  then have "\<not> eq_ci (take (length s) (db_text d)) s"
    by (auto simp: eq_ci_def dest!: arg_cong [where f = length])
  then show ?thesis using True length_db_text [OF assms] by (simp add: db_startsWithCI_def)
next
  case False
  then show ?thesis using length_db_text [OF assms] db_match_front_text [OF assms, of 0 s tolower]
    by (simp add: db_startsWithCI_def eq_ci_def slice_def)
qed

lemma db_endsWith_text [db_simps]:
  assumes "db_ok d"
  shows "db_endsWith d s =
    Inr (length s \<le> length (db_text d) \<and> drop (length (db_text d) - length s) (db_text d) = s)"
  using length_db_text [OF assms] db_match_back_text [OF assms, of "rev s" "db_size d" id]
  by (cases "length s > length (db_text d)") (simp_all add: db_endsWith_def slice_def)

lemma db_trimn_text:
  assumes "db_ok d" "unat b + unat e \<le> length (db_text d)"
  shows "db_ok (db_trimn d b e)"
    "db_text (db_trimn d b e) = slice (unat b) (length (db_text d) - unat b - unat e) (db_text d)"
    "db_in_memory d \<Longrightarrow> db_in_memory (db_trimn d b e)"
proof -
  show "db_in_memory d \<Longrightarrow> db_in_memory (db_trimn d b e)"
    by (simp add: db_in_memory_def db_trimn_def Let_def)
  have "db_ok (db_trimn d b e) \<and>
    db_text (db_trimn d b e) = slice (unat b) (length (db_text d) - unat b - unat e) (db_text d)"
  proof (cases "db_text d = []")
    case True
    then show ?thesis using assms by (simp add: db_trimn_def db_empty_text slice_def)
  next
    case False
    with assms(1) obtain im where im: "db_data d = Some im" "impl_ok im" "unat (db_begin d) < unat (db_end d)"
      "unat (db_end d) \<le> length (impl_bytes im)" "unat (db_end d) < 2 ^ 63"
      "db_text d = slice (unat (db_begin d)) (unat (db_end d) - unat (db_begin d)) (impl_bytes im)"
      by (rule db_someE)
    have len: "length (db_text d) = unat (db_end d) - unat (db_begin d)" using im by simp
    have bg: "unat (db_begin d + b) = unat (db_begin d) + unat b"
      using assms(2) im len by (subst unat_add_u64) simp_all
    have en: "unat (db_end d - e) = unat (db_end d) - unat e"
      using assms(2) im len by (subst unat_sub_u64) simp_all
    have ne: "\<not> db_empty d" using False assms(1) by (simp add: db_empty_text)
    show ?thesis
    proof (cases "db_begin d + b \<ge> db_end d")
      case True
      then have "unat b = unat (db_end d) - unat (db_begin d)"
        using assms(2) len bg by (simp add: word_le_nat_alt)
      then show ?thesis using True ne im assms(1)
        by (simp add: db_trimn_def Let_def db_ok_def db_text_def)
    next
      case False
      have "max (db_end d - e) (db_begin d + b) = db_end d - e"
        using assms(2) len im(3) by (intro max_absorb1) (simp add: word_le_nat_alt bg en)
      then have t: "db_trimn d b e = d\<lparr>db_begin := db_begin d + b, db_end := db_end d - e\<rparr>"
        using False ne by (simp add: db_trimn_def Let_def)
      have "slice (unat (db_begin d) + unat b) (unat (db_end d) - unat e - (unat (db_begin d) + unat b)) (impl_bytes im)
          = slice (unat b) (length (db_text d) - unat b - unat e) (db_text d)"
        unfolding len using assms(2) len by (subst im(6), subst slice_slice) (simp_all add: ac_simps)
      moreover have "unat (db_begin d) + unat b \<le> unat (db_end d) - unat e"
        "unat (db_end d) - unat e \<le> length (impl_bytes im)"
        using assms(2) len im(3,4) by linarith+
      ultimately show ?thesis unfolding t using im(1,2)
        by (simp add: db_ok_def db_text_def bg en word_le_nat_alt)
    qed
  qed
  then show "db_ok (db_trimn d b e)"
    "db_text (db_trimn d b e) = slice (unat b) (length (db_text d) - unat b - unat e) (db_text d)"
    by auto
qed

text \<open>Splitting a text at the first occurrence of another.\<close>

definition str_split :: "string \<Rightarrow> string \<Rightarrow> bool \<times> string \<times> string" where
  "str_split delim s =
     (let k = std_search s 0 (length s) delim
      in if k = length s then (False, s, []) else (True, take k s, drop (k + length delim) s))"

lemma db_split_text:
  assumes "db_ok d" "delim \<noteq> []" "length delim < 2 ^ 62"
  obtains found first second where "db_split d delim = Inr (found, first, second)"
    "(found, db_text first, db_text second) = str_split delim (db_text d)"
    "db_ok first" "db_ok second"
    "db_in_memory d \<Longrightarrow> db_in_memory first" "db_in_memory d \<Longrightarrow> db_in_memory second"
    "db_data first = db_data d" "db_data second = db_data d"
    "db_begin first = db_begin d"
proof (cases "db_text d = []")
  case True
  then have "db_split d delim = Inr (False, d, db_new\<lparr>db_data := db_data d\<rparr>)"
    using assms(1) by (simp add: db_split_def db_empty_text)
  then show ?thesis
    by (rule that)
      (use True assms(1) in \<open>auto simp: str_split_def db_ok_def db_text_def db_new_def db_in_memory_def
        split: option.splits\<close>)
next
  case False
  with assms(1) obtain im where im: "db_data d = Some im" "impl_ok im" "unat (db_begin d) < unat (db_end d)"
    "unat (db_end d) \<le> length (impl_bytes im)" "unat (db_end d) < 2 ^ 63"
    "db_text d = slice (unat (db_begin d)) (unat (db_end d) - unat (db_begin d)) (impl_bytes im)"
    by (rule db_someE)
  define n where "n = unat (db_end d) - unat (db_begin d)"
  define k where "k = std_search (db_text d) 0 n delim"
  have len: "length (db_text d) = n" using im by (simp add: n_def)
  have kn: "k \<le> n" using std_search_bounds [of 0 "db_text d" n delim] by (simp add: k_def)
  have kd: "k \<noteq> n \<Longrightarrow> k + length delim \<le> n" using std_search_found [of "db_text d" 0 n delim] by (simp add: k_def)
  have lt: "db_begin d < db_end d" using im(3) by (simp add: word_less_nat_alt)
  have s: "std_search (impl_bytes im) (unat (db_begin d)) n delim = unat (db_begin d) + k"
    using std_search_slice [of "unat (db_begin d)" n "impl_bytes im" 0 n delim] im(3,4,6)
    by (simp add: k_def n_def)
  have f: "db_find d (db_begin d) delim = Inr (of_nat k)"
  proof -
    have "impl_find im (db_begin d) (db_end d) delim = Inr (of_nat (unat (db_begin d) + k))"
      using im.find_law [OF im(2) lt im(4) assms(2)] assms(3) s by (simp add: n_def)
    moreover have "db_checkIndex d (db_begin d) = Inr ()" using lt by (auto simp: db_checkIndex_def)
    ultimately show ?thesis by (simp add: db_find_def db_impl_def im(1))
  qed
  have uk: "unat (of_nat k :: u64) = k" by (rule unat_of_nat_u64) (use kn im(5) n_def in simp)
  have sz: "of_nat k = db_size d \<longleftrightarrow> k = n"
    using length_db_text [OF assms(1)] uk by (auto simp: word_unat_eq_iff len)
  have ne: "\<not> db_empty d" using False assms(1) by (simp add: db_empty_text)
  have ss: "str_split delim (db_text d) = (if k = n then (False, db_text d, [])
      else (True, take k (db_text d), drop (k + length delim) (db_text d)))"
    by (simp add: str_split_def len k_def Let_def)
  have nil: "db_ok (db_new\<lparr>db_data := db_data d\<rparr>)" "db_text (db_new\<lparr>db_data := db_data d\<rparr>) = []"
    "db_in_memory (db_new\<lparr>db_data := db_data d\<rparr>) = db_in_memory d"
    using im by (simp_all add: db_ok_def db_text_def db_new_def db_in_memory_def)
  show ?thesis
  proof (cases "k = n")
    case True
    then have "db_split d delim = Inr (False, d, db_new\<lparr>db_data := db_data d\<rparr>)"
      using ne sz by (simp add: db_split_def f)
    then show ?thesis
      by (rule that) (use assms(1) True in \<open>simp_all add: ss nil\<close>)
  next
    case nk: False
    let ?first = "d\<lparr>db_end := db_begin d + of_nat k\<rparr>"
    let ?second = "db_new\<lparr>db_data := db_data d, db_begin := db_begin d + of_nat k + of_nat (length delim),
      db_end := db_end d\<rparr>"
    have e1: "unat (db_begin d + of_nat k) = unat (db_begin d) + k"
      using kn im(3,5) n_def by (subst unat_add_u64) (simp_all add: uk)
    have ud: "unat (of_nat (length delim) :: u64) = length delim"
      by (rule unat_of_nat_u64) (use assms(3) in simp)
    have e2: "unat (db_begin d + of_nat k + of_nat (length delim)) = unat (db_begin d) + k + length delim"
      using kd [OF nk] im(3,5) n_def by (subst unat_add_u64) (simp_all add: e1 ud)
    have t1: "db_text ?first = take k (db_text d)"
      using kn im(1) unfolding im(6) n_def [symmetric] by (simp add: db_text_def e1 slice_def min_absorb1)
    have "unat (db_end d) - (unat (db_begin d) + k + length delim) = n - (k + length delim)"
      by (simp add: n_def)
    then have "db_text ?second = slice (unat (db_begin d) + k + length delim) (n - (k + length delim)) (impl_bytes im)"
      using im(1) by (simp add: db_text_def e2)
    also have "\<dots> = drop (k + length delim) (db_text d)"
      unfolding im(6) n_def [symmetric] by (simp add: slice_def drop_take ac_simps)
    finally have t2: "db_text ?second = drop (k + length delim) (db_text d)" .
    have o1: "db_ok ?first" using kn im by (simp add: db_ok_def word_le_nat_alt e1 n_def)
    have o2: "db_ok ?second" using kd [OF nk] im by (simp add: db_ok_def word_le_nat_alt e2 n_def)
    have "db_split d delim = Inr (True, ?first, ?second)"
      using ne sz nk by (simp add: db_split_def f Let_def)
    then show ?thesis
      by (rule that) (use nk o1 o2 in \<open>simp_all add: ss t1 t2 db_in_memory_def\<close>)
  qed
qed

lemma db_split_char_eq: "db_split_char d c = db_split d [c]"
proof -
  have "of_nat (length [c]) = (1 :: u64)" by simp
  then show ?thesis unfolding db_split_char_def db_split_def by (simp only:)
qed

lemma db_trim_text:
  assumes "db_ok d" "db_in_memory d"
  obtains d' where "db_trim d = Inr d'" "db_ok d'" "db_in_memory d'" "db_text d' = trim_str (db_text d)"
proof (cases "db_text d = []")
  case True
  then show ?thesis using assms by (intro that [of d]) (simp_all add: db_trim_def db_empty_text trim_str_def)
next
  case False
  with assms(1) obtain im where im: "db_data d = Some im" "impl_ok im" "unat (db_begin d) < unat (db_end d)"
    "unat (db_end d) \<le> length (impl_bytes im)" "unat (db_end d) < 2 ^ 63"
    "db_text d = slice (unat (db_begin d)) (unat (db_end d) - unat (db_begin d)) (impl_bytes im)"
    by (rule db_someE)
  obtain b where b: "im = StringImpl b" using assms(2) im(1) by (cases im) (auto simp: db_in_memory_def)
  define r where "r = \<lparr>rg_mem = sb_data b, rg_begin = unat (db_begin d),
    rg_len = unat (db_end d) - unat (db_begin d)\<rparr>"
  have ok: "range_ok r" and str: "rg_str r = db_text d"
    using im b by (simp_all add: r_def range_ok_def rg_end_def rg_str_def)
  have "subrange (rg_trim r) r" by simp
  then have sub: "rg_mem (rg_trim r) = sb_data b" "unat (db_begin d) \<le> rg_begin (rg_trim r)"
    "rg_end (rg_trim r) \<le> unat (db_end d)" using im(3) by (auto simp: subrange_def r_def rg_end_def)
  have be: "rg_begin (rg_trim r) \<le> rg_end (rg_trim r)" by (simp add: rg_end_def)
  have u: "unat (of_nat (rg_begin (rg_trim r)) :: u64) = rg_begin (rg_trim r)"
    "unat (of_nat (rg_end (rg_trim r)) :: u64) = rg_end (rg_trim r)"
    by (rule unat_of_nat_u64, use sub be im(5) in simp)+
  let ?d = "d\<lparr>db_begin := of_nat (rg_begin (rg_trim r)), db_end := of_nat (rg_end (rg_trim r))\<rparr>"
  have "db_begin d \<le> db_end d" using im(3) by (simp add: word_le_nat_alt)
  then have "db_trim d = Inr ?d"
    using False assms(1) im b
    by (simp add: db_trim_def db_empty_text db_impl_def sb_trim_def sb_range_def r_def [symmetric] Let_def)
  moreover have "db_ok ?d"
    using im b sub be u by (simp add: db_ok_def word_le_nat_alt)
  moreover have "db_text ?d = rg_str (rg_trim r)"
    using im(1) b sub(1) u by (simp add: db_text_def rg_str_def rg_end_def)
  moreover have "rg_str (rg_trim r) = trim_str (db_text d)" using rg_str_trim [OF ok] str by simp
  ultimately show ?thesis using assms(2) by (intro that [of ?d]) (simp_all add: db_in_memory_def)
qed

lemma db_read_text:
  assumes "db_ok d"
  shows "db_read d pos len = Inr (slice (unat pos) (unat len) (db_text d))"
proof (cases "unat pos < length (db_text d)")
  case False
  then have "db_end d - db_begin d \<le> pos" using length_db_text [OF assms] by (simp add: db_size_def word_le_nat_alt)
  then show ?thesis using False by (simp add: db_read_def slice_def)
next
  case True
  then have "db_text d \<noteq> []" by auto
  with assms obtain im where im: "db_data d = Some im" "impl_ok im" "unat (db_begin d) < unat (db_end d)"
    "unat (db_end d) \<le> length (impl_bytes im)" "unat (db_end d) < 2 ^ 63"
    "db_text d = slice (unat (db_begin d)) (unat (db_end d) - unat (db_begin d)) (impl_bytes im)"
    by (rule db_someE)
  note x = db_index [OF assms True]
  have sz: "unat (db_end d - db_begin d) = unat (db_end d) - unat (db_begin d)"
    using im(3) by (simp add: unat_sub_u64)
  have len: "length (db_text d) = unat (db_end d) - unat (db_begin d)" using im by simp
  have sz': "unat (db_end d - db_begin d - pos) = unat (db_end d) - unat (db_begin d) - unat pos"
    using True by (subst unat_sub_u64) (simp_all add: sz len)
  define n where "n = min (db_end d - db_begin d - pos) len"
  have n: "unat n = min (unat (db_end d) - unat (db_begin d) - unat pos) (unat len)"
    by (simp add: n_def min_def word_le_nat_alt sz')
  have "\<not> pos \<ge> db_end d - db_begin d" using True by (simp add: word_le_nat_alt sz len)
  moreover have "impl_read im (pos + db_begin d) n = Inr (slice (unat (db_begin d) + unat pos) (unat n) (impl_bytes im))"
    using im.read_law [OF im(2), of "pos + db_begin d" n] x(1) im(3,4) True
    by (simp add: add.commute n len)
  moreover have "slice (unat (db_begin d) + unat pos) (unat n) (impl_bytes im) =
      slice (unat pos) (unat len) (db_text d)"
    unfolding im(6) n using True len by (simp add: slice_def drop_take ac_simps)
  ultimately show ?thesis by (simp add: db_read_def db_impl_def im(1) n_def)
qed

text \<open>A write that fits into the view overwrites the implementation's bytes at its place.\<close>

lemma db_write_impl:
  assumes "db_ok d" "db_data d = Some im" "unat pos + length data \<le> length (db_text d)"
  obtains im' where "db_write d pos data = Inr (of_nat (length data), d\<lparr>db_data := Some im'\<rparr>)" "impl_ok im'"
    "impl_bytes im' = overwrite (unat (db_begin d) + unat pos) data (impl_bytes im)"
    "(\<exists>s. im = StringImpl s) \<longrightarrow> (\<exists>s. im' = StringImpl s)"
proof -
  have im: "impl_ok im" "unat (db_begin d) \<le> unat (db_end d)" "unat (db_end d) \<le> length (impl_bytes im)"
    using assms(1,2) by (auto simp: db_ok_def word_le_nat_alt)
  have b63: "length (impl_bytes im) < 2 ^ 63" by (rule im.bytes_length [OF im(1)])
  have sz: "unat (db_end d - db_begin d) = unat (db_end d) - unat (db_begin d)"
    using im(2) by (simp add: unat_sub_u64)
  have len: "length (db_text d) = unat (db_end d) - unat (db_begin d)"
    using length_db_text [OF assms(1)] by (simp add: db_size_def sz)
  show ?thesis
  proof (cases "unat pos < length (db_text d)")
    case False
    then have "length data = 0" using assms(3) by linarith
    moreover have "pos \<ge> db_end d - db_begin d" using False by (simp add: word_le_nat_alt sz len)
    ultimately show ?thesis using assms(2) im(1) by (intro that [of im]) (simp_all add: db_write_def)
  next
    case True
    note x = db_index [OF assms(1) True]
    have sz': "unat (db_end d - db_begin d - pos) = unat (db_end d) - unat (db_begin d) - unat pos"
      using True by (subst unat_sub_u64) (simp_all add: sz len)
    have ud: "unat (of_nat (length data) :: u64) = length data"
      by (rule unat_of_nat_u64) (use assms(3) len im(3) b63 in simp)
    have mn: "min (db_end d - db_begin d - pos) (of_nat (length data)) = of_nat (length data)"
      using assms(3) len by (intro min_absorb2) (simp add: word_le_nat_alt ud sz')
    have "unat (pos + db_begin d) + length data \<le> length (impl_bytes im)"
      using x(1) assms(3) len im(2,3) by (simp add: add.commute)
    then obtain im' where im': "impl_write im (pos + db_begin d) data = Inr im'" "impl_ok im'"
      "impl_bytes im' = overwrite (unat (db_begin d) + unat pos) data (impl_bytes im)"
      using im.put_law [OF im(1), of "pos + db_begin d" data] x(1) by (auto simp: add.commute)
    have mem: "(\<exists>s. im = StringImpl s) \<longrightarrow> (\<exists>s. im' = StringImpl s)"
      using im'(1) by (auto simp: rbind_eq_Inr_conv)
    have "\<not> pos \<ge> db_end d - db_begin d" using True by (simp add: word_le_nat_alt sz len)
    then have "db_write d pos data = Inr (of_nat (length data), d\<lparr>db_data := Some im'\<rparr>)"
      by (simp add: db_write_def db_impl_def assms(2) mn ud im'(1))
    from that [OF this im'(2,3) mem] show ?thesis .
  qed
qed

lemma db_write_text:
  assumes "db_ok d" "unat pos + length data \<le> length (db_text d)"
  obtains d' where "db_write d pos data = Inr (of_nat (length data), d')" "db_ok d'"
    "db_text d' = overwrite (unat pos) data (db_text d)" "db_begin d' = db_begin d" "db_end d' = db_end d"
    "db_in_memory d \<Longrightarrow> db_in_memory d'"
proof (cases "db_data d")
  case None
  then have "db_text d = []" "data = []" "db_begin d = 0" "db_end d = 0"
    using assms by (auto simp: db_text_def db_ok_def)
  then show ?thesis using assms(1) that [of d] by (simp add: db_write_def)
next
  case (Some im)
  obtain im' where im': "db_write d pos data = Inr (of_nat (length data), d\<lparr>db_data := Some im'\<rparr>)" "impl_ok im'"
    "impl_bytes im' = overwrite (unat (db_begin d) + unat pos) data (impl_bytes im)"
    "(\<exists>s. im = StringImpl s) \<longrightarrow> (\<exists>s. im' = StringImpl s)"
    by (rule db_write_impl [OF assms(1) Some assms(2)])
  have im: "unat (db_begin d) \<le> unat (db_end d)" "unat (db_end d) \<le> length (impl_bytes im)"
    "db_text d = slice (unat (db_begin d)) (unat (db_end d) - unat (db_begin d)) (impl_bytes im)"
    using assms(1) Some by (auto simp: db_ok_def db_text_def word_le_nat_alt)
  have len: "unat pos + length data \<le> unat (db_end d) - unat (db_begin d)" using assms(2) im by simp
  then have lim: "length (impl_bytes im') = length (impl_bytes im)"
    unfolding im'(3) using im by simp
  have t: "db_text (d\<lparr>db_data := Some im'\<rparr>) = overwrite (unat pos) data (db_text d)"
    using len im(1,2) unfolding im(3) by (simp add: db_text_def im'(3) slice_overwrite_inside)
  have mem: "db_in_memory d \<Longrightarrow> db_in_memory (d\<lparr>db_data := Some im'\<rparr>)"
    using im'(4) Some by (cases im) (auto simp: db_in_memory_def)
  show ?thesis
    by (rule that [OF im'(1) _ t]) (use im im' lim mem in \<open>simp_all add: db_ok_def word_le_nat_alt\<close>)
qed

section \<open>Iterating over the segments\<close>

lemma impl_getCopy_ok: "impl_ok b \<Longrightarrow> impl_ok (impl_getCopy b) \<and> impl_bytes (impl_getCopy b) = impl_bytes b"
  using fb_getCopy_ok by (cases b) (auto simp: fb_remap_def)

definition si_at :: "segment_iterator \<Rightarrow> buffer_impl \<Rightarrow> u64 \<Rightarrow> u64 \<Rightarrow> bool" where
  "si_at it b p en \<longleftrightarrow> db_data (si_buffer it) = Some b \<and> db_end (si_buffer it) = en \<and>
     si_pos_begin it = p \<and> si_pos_end it = min (snd (impl_segment b p)) en"

lemma si_step:
  assumes "si_at it b p en" "impl_ok b" "p < en" "unat en \<le> length (impl_bytes b)"
  obtains q where "p < q" "q \<le> en" "\<not> si_is_end it"
    "si_deref it = Inr (slice (unat p) (unat q - unat p) (impl_bytes b))"
    "q = en \<Longrightarrow> si_next it = Inr si_end"
    "q \<noteq> en \<Longrightarrow> \<exists>it'. si_next it = Inr it' \<and> si_at it' b q en"
    "q = min (snd (impl_segment b p)) en"
proof -
  have pl: "unat p < length (impl_bytes b)" using assms(3,4) by (simp add: word_less_nat_alt)
  then obtain n where n: "impl_segment b p = (p, n)" "p < n"
    "impl_chunk b p = Inr (slice (unat p) (unat n - unat p) (impl_bytes b))"
    using im.chunk_law [OF assms(2)] by blast
  define q where "q = min n en"
  have q: "p < q" "q \<le> en" using n(2) assms(3) by (auto simp: q_def)
  have uq: "unat q = min (unat n) (unat en)" by (simp add: q_def min_def word_le_nat_alt)
  have sub: "unat (en - p) = unat en - unat p" using assms(3) by (simp add: unat_sub_u64 word_less_nat_alt)
  have ne: "\<not> si_is_end it" using assms(1) by (simp add: si_is_end_def si_at_def)
  have sp: "si_pos_end it = q" using assms(1) n(1) by (simp add: si_at_def q_def)
  have sl: "take (unat en - unat p) (slice (unat p) (unat n - unat p) (impl_bytes b)) =
      slice (unat p) (unat q - unat p) (impl_bytes b)"
    by (simp add: slice_def uq min_diff min.commute)
  show ?thesis
  proof (rule that [of q])
    show "si_deref it = Inr (slice (unat p) (unat q - unat p) (impl_bytes b))"
      using assms(1) ne by (simp add: si_deref_def si_at_def db_impl_def n(3) sub sl)
    show "q = en \<Longrightarrow> si_next it = Inr si_end"
      using assms(1) ne sp by (simp add: si_next_def si_at_def)
    show "\<exists>it'. si_next it = Inr it' \<and> si_at it' b q en" if "q \<noteq> en"
    proof -
      have "\<not> en \<le> q" using that q(2) by simp
      then show ?thesis
        using assms(1) ne by (simp add: si_next_def si_at_def sp [symmetric] db_impl_def Let_def)
    qed
    show "q = min (snd (impl_segment b p)) en" by (simp add: q_def n(1))
  qed (use q ne in auto)
qed

lemma si_chunks_end [simp]: "si_chunks si_end acc = Some (Inr acc)"
  by (subst si_chunks.simps) (simp add: si_is_end_def si_end_def db_new_def)

lemma si_chunks_text:
  assumes "si_at it b p en" "impl_ok b" "p < en" "unat en \<le> length (impl_bytes b)"
  shows "\<exists>cs. si_chunks it acc = Some (Inr (acc @ cs)) \<and>
    concat cs = slice (unat p) (unat en - unat p) (impl_bytes b)"
  using assms
proof (induction "unat en - unat p" arbitrary: it p acc rule: less_induct)
  case less
  obtain q where q: "p < q" "q \<le> en" "\<not> si_is_end it"
    "si_deref it = Inr (slice (unat p) (unat q - unat p) (impl_bytes b))"
    "q = en \<Longrightarrow> si_next it = Inr si_end"
    "q \<noteq> en \<Longrightarrow> \<exists>it'. si_next it = Inr it' \<and> si_at it' b q en"
    using si_step [OF less.prems] by metis
  show ?case
  proof (cases "q = en")
    case True
    then show ?thesis using q(3-5) by (subst si_chunks.simps) simp
  next
    case False
    then obtain it' where it': "si_next it = Inr it'" "si_at it' b q en" using q(6) by blast
    have lt: "q < en" using False q(2) by simp
    have u: "unat p < unat q" "unat q < unat en" using q(1) lt by (simp_all add: word_less_nat_alt)
    have "unat en - unat q < unat en - unat p" using u by simp
    from less.hyps [OF this it'(2) less.prems(2) lt less.prems(4)]
    obtain cs where cs: "si_chunks it' (acc @ [slice (unat p) (unat q - unat p) (impl_bytes b)]) =
        Some (Inr ((acc @ [slice (unat p) (unat q - unat p) (impl_bytes b)]) @ cs))"
      "concat cs = slice (unat q) (unat en - unat q) (impl_bytes b)" by blast
    have "slice (unat p) (unat q - unat p) (impl_bytes b) @ slice (unat q) (unat en - unat q) (impl_bytes b)
        = slice (unat p) (unat en - unat p) (impl_bytes b)"
      using u slice_append_split [of "unat p" "unat q - unat p" "unat en - unat q" "impl_bytes b"] by simp
    then show ?thesis using q(3,4) it'(1) cs
      by (intro exI [of _ "slice (unat p) (unat q - unat p) (impl_bytes b) # cs"])
        (subst si_chunks.simps, simp)
  qed
qed

lemma si_new_at:
  assumes "db_ok d" "db_text d \<noteq> []"
  obtains b where "si_at (si_new d) b (db_begin d) (db_end d)" "impl_ok b" "db_begin d < db_end d"
    "unat (db_end d) \<le> length (impl_bytes b)"
    "db_text d = slice (unat (db_begin d)) (unat (db_end d) - unat (db_begin d)) (impl_bytes b)"
    "db_in_memory d \<Longrightarrow> \<exists>s. b = StringImpl s"
proof -
  from assms obtain im where im: "db_data d = Some im" "impl_ok im" "unat (db_begin d) < unat (db_end d)"
    "unat (db_end d) \<le> length (impl_bytes im)"
    "db_text d = slice (unat (db_begin d)) (unat (db_end d) - unat (db_begin d)) (impl_bytes im)"
    by (rule db_someE)
  show ?thesis
  proof (rule that [of "impl_getCopy im"])
    show "si_at (si_new d) (impl_getCopy im) (db_begin d) (db_end d)"
      using im(1) assms by (simp add: si_new_def si_at_def db_empty_text Let_def)
    show "db_in_memory d \<Longrightarrow> \<exists>s. impl_getCopy im = StringImpl s"
      using im(1) by (cases im) (auto simp: db_in_memory_def)
  qed (use im impl_getCopy_ok [OF im(2)] in \<open>simp_all add: word_less_nat_alt\<close>)
qed

lemma si_chunks_nil: "db_ok d \<Longrightarrow> db_text d = [] \<Longrightarrow> si_chunks (si_new d) acc = Some (Inr acc)"
  by (subst si_chunks.simps)
    (auto simp: si_new_def si_is_end_def si_end_def db_new_def db_empty_text split: option.splits)

lemma db_chunks_text:
  assumes "db_ok d"
  shows "\<exists>cs. db_chunks d = Inr cs \<and> concat cs = db_text d"
proof (cases "db_text d = []")
  case True
  then show ?thesis using assms by (simp add: db_chunks_def si_chunks_nil)
next
  case False
  from assms False obtain b where b: "si_at (si_new d) b (db_begin d) (db_end d)" "impl_ok b"
    "db_begin d < db_end d" "unat (db_end d) \<le> length (impl_bytes b)"
    "db_text d = slice (unat (db_begin d)) (unat (db_end d) - unat (db_begin d)) (impl_bytes b)"
    by (rule si_new_at)
  then show ?thesis using si_chunks_text [OF b(1-4), of "[]"] by (auto simp: db_chunks_def)
qed

lemma db_toString_text [db_simps]: "db_ok d \<Longrightarrow> db_toString d = Inr (db_text d)"
  using db_chunks_text [of d] by (auto simp: db_toString_def db_collect_def)

text \<open>A buffer in memory is one chunk.\<close>

lemma db_chunks_in_memory:
  assumes "db_ok d" "db_in_memory d" "db_text d \<noteq> []"
  shows "db_chunks d = Inr [db_text d]"
proof -
  from assms(1,3) obtain b where b: "si_at (si_new d) b (db_begin d) (db_end d)" "impl_ok b"
    "db_begin d < db_end d" "unat (db_end d) \<le> length (impl_bytes b)"
    "db_text d = slice (unat (db_begin d)) (unat (db_end d) - unat (db_begin d)) (impl_bytes b)"
    "db_in_memory d \<longrightarrow> (\<exists>s. b = StringImpl s)"
    by (rule si_new_at) blast
  obtain s where s: "b = StringImpl s" using b(6) assms(2) by blast
  have "snd (impl_segment b (db_begin d)) = sb_size s" by (simp add: s sb_segment_def)
  moreover have "db_end d \<le> sb_size s"
    using b(2,4) sb.size_law [of s] by (simp add: s word_le_nat_alt)
  ultimately have mn: "min (snd (impl_segment b (db_begin d))) (db_end d) = db_end d" by (simp add: min_absorb2)
  from si_step [OF b(1-4)] mn have st: "\<not> si_is_end (si_new d)"
    "si_deref (si_new d) = Inr (db_text d)" "si_next (si_new d) = Inr si_end"
    by (metis b(5))+
  have "si_chunks (si_new d) [] = Some (Inr [db_text d])"
    using st by (subst si_chunks.simps) simp
  then show ?thesis by (simp add: db_chunks_def)
qed

lemma db_collect_in_memory:
  assumes "db_ok d" "db_in_memory d" "f [] = []"
  shows "db_collect f d = Inr (f (db_text d))"
  using assms db_chunks_in_memory [OF assms(1,2)]
  by (cases "db_text d = []") (simp_all add: db_collect_def db_chunks_def si_chunks_nil)

lemma db_urldecode_text: "db_ok d \<Longrightarrow> db_in_memory d \<Longrightarrow> db_urldecode d = Inr (urldecode_loop (db_text d))"
  by (simp add: db_urldecode_def db_collect_in_memory)

section \<open>Form data in a buffer\<close>

lemma str_split_char: "str_split [c] s = (c \<in> set s, cut_first c s)"
proof -
  have k: "std_search s 0 (length s) [c] = length (takeWhile (\<lambda>x. x \<noteq> c) s)"
    using std_find_search [of 0 "length s" s c] std_find_str [of 0 "length s" s c] by simp
  show ?thesis
  proof (cases "c \<in> set s")
    case True
    then have "length (takeWhile (\<lambda>x. x \<noteq> c) s) \<noteq> length s" by (simp add: takeWhile_length_eq)
    then show ?thesis using True
      by (simp add: str_split_def k Let_def cut_first_def flip: takeWhile_eq_take dropWhile_eq_drop)
        (metis Suc_eq_plus1 add.commute drop_drop dropWhile_eq_drop One_nat_def)
  next
    case False
    then show ?thesis using cut_first_absent [OF False]
      by (simp add: str_split_def k Let_def takeWhile_length_eq)
  qed
qed

lemma db_split_char_text:
  assumes "db_ok d"
  obtains found first second where "db_split_char d c = Inr (found, first, second)"
    "found \<longleftrightarrow> c \<in> set (db_text d)" "cut_first c (db_text d) = (db_text first, db_text second)"
    "db_ok first" "db_ok second"
    "db_in_memory d \<Longrightarrow> db_in_memory first" "db_in_memory d \<Longrightarrow> db_in_memory second"
proof -
  have "[c] \<noteq> []" "length [c] < 2 ^ 62" by simp_all
  from db_split_text [OF assms this] show ?thesis
    by (metis that db_split_char_eq str_split_char prod.inject)
qed

lemma cut_first_shorter: "s \<noteq> [] \<Longrightarrow> cut_first c s = (x, y) \<Longrightarrow> length y < length s"
  using length_dropWhile_le [of "\<lambda>x. x \<noteq> c" s] by (cases s) (auto simp: cut_first_def)

lemma db_parse_args_loop_text:
  assumes "db_ok d" "db_in_memory d"
  shows "db_parse_args_loop d v = Some (Inr (v @ form_pairs (db_text d)))"
  using assms
proof (induction "length (db_text d)" arbitrary: d v rule: less_induct)
  case less
  show ?case
  proof (cases "db_text d = []")
    case True
    then show ?thesis using less.prems
      by (subst db_parse_args_loop.simps, subst form_pairs.simps) (simp add: db_empty_text)
  next
    case False
    obtain f1 head tail where h: "db_split_char d (CHR ''&'') = Inr (f1, head, tail)"
      "cut_first (CHR ''&'') (db_text d) = (db_text head, db_text tail)" "db_ok head" "db_ok tail"
      "db_in_memory head" "db_in_memory tail"
      using db_split_char_text [OF less.prems(1)] less.prems(2) by metis
    obtain f2 key val where k: "db_split_char head (CHR ''='') = Inr (f2, key, val)"
      "cut_first (CHR ''='') (db_text head) = (db_text key, db_text val)" "db_ok key" "db_ok val"
      "db_in_memory key" "db_in_memory val"
      using db_split_char_text [OF h(3)] h(5) by metis
    have IH: "db_parse_args_loop tail v = Some (Inr (v @ form_pairs (db_text tail)))" for v
      by (rule less.hyps [OF cut_first_shorter [OF False h(2)] h(4,6)])
    have fp: "form_pairs (db_text d) = (if db_text key = [] then []
        else [(urldecode_loop (db_text key), urldecode_loop (db_text val))]) @ form_pairs (db_text tail)"
      using False by (subst form_pairs.simps) (simp add: h(2) k(2))
    have ne: "\<not> db_empty d" using False less.prems(1) by (simp add: db_empty_text)
    show ?thesis
      by (subst db_parse_args_loop.simps)
        (simp add: ne h(1) k(1) db_empty_text [OF k(3)] db_urldecode_text k(3-6) IH fp)
  qed
qed

section \<open>The first occurrence\<close>

lemma std_search_match:
  "std_search m b n pat \<noteq> b + n \<Longrightarrow> slice (std_search m b n pat) (length pat) m = pat"
  by (induction m b n pat rule: std_search.induct) (auto split: if_splits)

lemma std_search_least:
  "b \<le> j \<Longrightarrow> j < std_search m b n pat \<Longrightarrow> j + length pat \<le> b + n \<Longrightarrow> slice j (length pat) m \<noteq> pat"
proof (induction n arbitrary: b)
  case (Suc n)
  have no: "\<not> (length pat \<le> Suc n \<and> slice b (length pat) m = pat)"
    using Suc.prems by (auto split: if_splits)
  show ?case
  proof (cases "j = b")
    case True
    then show ?thesis using no Suc.prems(3) by auto
  next
    case False
    have "std_search m b (Suc n) pat = std_search m (Suc b) n pat" using no by auto
    then show ?thesis using Suc.IH [of "Suc b"] Suc.prems False by simp
  qed
qed simp

lemma slice_eq_length: "slice j (length pat) s = pat \<Longrightarrow> pat \<noteq> [] \<Longrightarrow> j + length pat \<le> length s"
  by (drule arg_cong [where f = length]) (cases pat; auto simp: min_def split: if_splits)

lemma str_split_correct:
  assumes "(found, x, y) = str_split delim s" "delim \<noteq> []"
  shows "if found then s = x @ delim @ y \<and> (\<forall>j < length x. slice j (length delim) s \<noteq> delim)
    else x = s \<and> y = [] \<and> (\<forall>j. slice j (length delim) s \<noteq> delim)"
proof -
  define k where "k = std_search s 0 (length s) delim"
  have least: "slice j (length delim) s \<noteq> delim" if "j < k" for j
    using that std_search_least [of 0 j s "length s" delim] slice_eq_length [of j delim s] assms(2)
    by (auto simp: k_def)
  show ?thesis
  proof (cases "k = length s")
    case True
    have "slice j (length delim) s \<noteq> delim" for j
      using least [of j] slice_eq_length [of j delim s] assms(2) True by (cases delim) auto
    then show ?thesis using True assms(1) by (simp add: str_split_def Let_def flip: k_def)
  next
    case False
    then have m: "slice k (length delim) s = delim"
      using std_search_match [of s 0 "length s" delim] by (simp add: k_def)
    have "s = take k s @ slice k (length delim) s @ drop (k + length delim) s"
      by (simp add: slice_def) (metis append_take_drop_id drop_drop add.commute)
    then have "s = take k s @ delim @ drop (k + length delim) s" by (simp add: m)
    moreover have "length (take k s) \<le> k" by simp
    ultimately show ?thesis using False assms(1) least
      by (auto simp: str_split_def Let_def simp flip: k_def)
  qed
qed

section \<open>Properties\<close>

text \<open>
  Copying a buffer into a string by iterating over its segments terminates without error and
  gives the text between its indices, for a buffer in memory and for a memory-mapped file.
\<close>

theorem buffer_toString:
  assumes "db_ok d"
  shows "db_toString d = Inr (db_text d)"
  using assms by (rule db_toString_text)

theorem buffer_toString_witness: "db_toString (db_create ''abc'') = Inr ''abc''"
proof -
  have "db_ok (db_create ''abc'')" "db_text (db_create ''abc'') = ''abc''"
    by (simp_all add: db_create_def db_create_impl_def db_new_def db_ok_def db_text_def sb_new_def sb_ok_def
        sb_size_def slice_def)
  then show ?thesis using buffer_toString [of "db_create ''abc''"] by simp
qed

text \<open>
  Splitting a buffer at a delimiter never fails. When a match is reported, the text is the
  first part, the delimiter and the second part, and the delimiter does not occur at any earlier
  position; when none is reported, it does not occur at all, the first part is the whole text and the
  second is empty. Both parts are well-formed buffers.
\<close>

theorem buffer_split:
  assumes "db_ok d" "delim \<noteq> []" "length delim < 2 ^ 62"
  shows "\<exists>found first second. db_split d delim = Inr (found, first, second) \<and>
    db_ok first \<and> db_ok second \<and>
    (if found then db_text d = db_text first @ delim @ db_text second \<and>
       (\<forall>j < length (db_text first). slice j (length delim) (db_text d) \<noteq> delim)
     else db_text first = db_text d \<and> db_text second = [] \<and>
       (\<forall>j. slice j (length delim) (db_text d) \<noteq> delim))"
proof -
  obtain found first second where s: "db_split d delim = Inr (found, first, second)"
    "(found, db_text first, db_text second) = str_split delim (db_text d)" "db_ok first" "db_ok second"
    by (rule db_split_text [OF assms]) blast
  then show ?thesis using str_split_correct [OF s(2)] assms(2) by blast
qed

theorem buffer_split_witness:
  "\<exists>found first second. db_split (db_create ''a::b::c'') ''::'' = Inr (found, first, second) \<and>
    db_ok first \<and> db_ok second \<and> found \<and> ''a::b::c'' = db_text first @ ''::'' @ db_text second"
proof -
  let ?d = "db_create ''a::b::c''"
  have ok: "db_ok ?d" "db_text ?d = ''a::b::c''"
    by (simp_all add: db_create_def db_create_impl_def db_new_def db_ok_def db_text_def sb_new_def sb_ok_def
        sb_size_def slice_def)
  have "slice 1 (length ''::'') (db_text ?d) = ''::''" by (simp add: ok(2) slice_def)
  then show ?thesis using buffer_split [of ?d "''::''"] ok by (fastforce split: if_splits)
qed

text \<open>
  Parsing form data that is held in memory gives the same pairs as parsing its text, so the two
  overloads of the parser agree; the loop terminates.
\<close>

theorem buffer_parse_args:
  assumes "db_ok d" "db_in_memory d"
  shows "db_parse_args d v = Inr (parse_args_string (db_text d) v)"
  using db_parse_args_loop_text [OF assms, of v]
  by (simp add: db_parse_args_def parse_args_string_def parse_args_text)

theorem buffer_parse_args_witness:
  "db_parse_args (db_create ''a=1&b=2'') [] = Inr (parse_args_string ''a=1&b=2'' [])"
proof -
  let ?d = "db_create ''a=1&b=2''"
  have "db_ok ?d" "db_text ?d = ''a=1&b=2''" "db_in_memory ?d"
    by (simp_all add: db_create_def db_create_impl_def db_new_def db_ok_def db_text_def sb_new_def sb_ok_def
        sb_size_def slice_def db_in_memory_def)
  then show ?thesis using buffer_parse_args [of ?d "[]"] by simp
qed

section \<open>The other operators of the iterator\<close>

text \<open>
  \<^verbatim>\<open>operator->\<close> keeps the chunk in the iterator; the postfix \<^verbatim>\<open>operator++\<close> makes a copy, advances the copy and returns it. The first
  component is what the operator returns, the second the iterator afterwards.
\<close>

definition si_arrow :: "segment_iterator \<Rightarrow> string result" where
  "si_arrow it = si_deref it"

definition si_postinc :: "segment_iterator \<Rightarrow> (segment_iterator \<times> segment_iterator) result" where
  "si_postinc it = rbind (si_next it) (\<lambda>iter. Inr (iter, it))"

text \<open>
  So the postfix operator neither advances the iterator nor returns its old value: however often it is applied, the iterator stays
  where it is.
\<close>

lemma si_postinc_stays: "si_postinc it = Inr (r, it') \<Longrightarrow> it' = it \<and> si_next it = Inr r"
  by (auto simp: si_postinc_def rbind_eq_Inr_conv)

end
