(* ===== verification/Requests.thy ===== *)
theory Requests
  imports Cookies HeaderNames DataBuffers
begin

text \<open>
  The request object (\<^verbatim>\<open>library/request.cpp\<close>): its state, the accessors of the input side, and the
  operations of the output side (status, headers, cookies, the header block, the body).

  Maps are sorted association lists (\<open>OMaps\<close>). The stream of the web server is what can still be
  read from it and what has been written to it. The types of sessions and subjects are parameters
  of the record; the session manager and the cache are arguments of the operations that call them.

  An operation that can throw returns a sum: on the left the exception together with the state the
  object is left in, on the right the new state.
\<close>

section \<open>State\<close>

record remote_file =
  file_name :: string
  file_type :: string
  file_data :: data_buffer

record io_stream =
  io_in :: string
  io_out :: string

record ('s, 'u) request =
  rq_headers_sent :: bool
  rq_status :: u16
  rq_processed :: bool
  rq_delay :: int
  rq_stream :: "io_stream option"
  rq_vars :: "(string \<times> string) list"
  rq_cookies :: "(string \<times> string) list"
  rq_body :: data_buffer
  rq_headers :: "(string \<times> string) list"
  rq_out_headers :: "(string \<times> string) list"
  rq_out_cookies :: "(string \<times> cookie) list"
  rq_files :: "(string \<times> remote_file) list"
  rq_args :: "(string \<times> string) list"
  rq_session :: "'s option"
  rq_subject :: "'u option"

type_synonym ('s, 'u) outcome = "(cpp_error \<times> ('s, 'u) request) + ('s, 'u) request"

text \<open>A fallible computation on a request: the exception carries the state at that moment.\<close>

definition at_state :: "'r \<Rightarrow> 'a result \<Rightarrow> (cpp_error \<times> 'r) + 'a" where
  "at_state r m = (case m of Inl e \<Rightarrow> Inl (e, r) | Inr x \<Rightarrow> Inr x)"

lemma at_state_simps [simp]: "at_state r (Inl e) = Inl (e, r)" "at_state r (Inr x) = Inr x"
  by (simp_all add: at_state_def)

definition file_new :: "string \<Rightarrow> string \<Rightarrow> data_buffer \<Rightarrow> remote_file result" where
  "file_new filename type content =
     (if filename = [] then Inl (RuntimeError ''uploaded file without name'')
      else Inr \<lparr>file_name = filename, file_type = type, file_data = content\<rparr>)"

definition file_from_buffers :: "data_buffer \<Rightarrow> data_buffer \<Rightarrow> data_buffer \<Rightarrow> remote_file result" where
  "file_from_buffers filename type content =
     rbind (if \<not> db_empty type then db_toString type else Inr []) (\<lambda>t.
       if \<not> db_empty filename
       then rbind (db_toString filename) (\<lambda>n. Inr \<lparr>file_name = n, file_type = t, file_data = content\<rparr>)
       else Inl (RuntimeError ''uploaded file without name''))"

definition reset :: "('s, 'u) request \<Rightarrow> ('s, 'u) request" where
  "reset r = r\<lparr>rq_status := 200, rq_stream := None, rq_headers_sent := False, rq_args := [], rq_vars := [],
     rq_files := [], rq_cookies := [], rq_headers := [], rq_out_cookies := [], rq_out_headers := [],
     rq_session := None, rq_subject := None\<rparr>"

definition request_new :: "('s, 'u) request" where
  "request_new = reset \<lparr>rq_headers_sent = False, rq_status = 0, rq_processed = False, rq_delay = 0,
     rq_stream = None, rq_vars = [], rq_cookies = [], rq_body = db_new, rq_headers = [],
     rq_out_headers = [], rq_out_cookies = [], rq_files = [], rq_args = [], rq_session = None,
     rq_subject = None\<rparr>"

section \<open>Input\<close>

text \<open>The templates \<^verbatim>\<open>Parser::has\<close>, \<^verbatim>\<open>Parser::keys\<close> and \<^verbatim>\<open>Parser::get\<close>.\<close>

definition map_has :: "(string \<Rightarrow> string \<Rightarrow> bool) \<Rightarrow> (string \<times> 'v) list \<Rightarrow> string \<Rightarrow> bool" where
  "map_has lt m key \<longleftrightarrow> om_find lt key m \<noteq> None"

definition map_keys :: "(string \<times> 'v) list \<Rightarrow> string list" where
  "map_keys m = map fst m"

definition map_get :: "(string \<Rightarrow> string \<Rightarrow> bool) \<Rightarrow> (string \<times> string) list \<Rightarrow> string \<Rightarrow> string" where
  "map_get lt m key = (case om_find lt key m of None \<Rightarrow> [] | Some v \<Rightarrow> v)"

definition getEnvVariable :: "('s, 'u) request \<Rightarrow> string \<Rightarrow> string" where
  "getEnvVariable r name = map_get string_lt (rq_vars r) name"

definition getRole :: "('s, 'u) request \<Rightarrow> string" where
  "getRole r = map_get string_lt (rq_vars r) ''FCGI_ROLE''"

definition getServerAddr :: "('s, 'u) request \<Rightarrow> string" where
  "getServerAddr r = map_get string_lt (rq_vars r) ''SERVER_ADDR''"

definition getPathTranslated :: "('s, 'u) request \<Rightarrow> string" where
  "getPathTranslated r = map_get string_lt (rq_vars r) ''PATH_TRANSLATED''"

definition getScriptFilename :: "('s, 'u) request \<Rightarrow> string" where
  "getScriptFilename r = map_get string_lt (rq_vars r) ''SCRIPT_FILENAME''"

definition getDocumentRoot :: "('s, 'u) request \<Rightarrow> string" where
  "getDocumentRoot r = map_get string_lt (rq_vars r) ''DOCUMENT_ROOT''"

definition getRemoteUser :: "('s, 'u) request \<Rightarrow> string" where
  "getRemoteUser r = map_get string_lt (rq_vars r) ''REMOTE_USER''"

definition getRemotePassword :: "('s, 'u) request \<Rightarrow> string" where
  "getRemotePassword r = map_get string_lt (rq_vars r) ''REMOTE_PASSWD''"

definition getRemoteAddr :: "('s, 'u) request \<Rightarrow> string" where
  "getRemoteAddr r = map_get string_lt (rq_vars r) ''REMOTE_ADDR''"

definition getRequestId :: "('s, 'u) request \<Rightarrow> string" where
  "getRequestId r = map_get string_lt (rq_vars r) ''REQUEST_ID''"

definition getServerPort :: "('s, 'u) request \<Rightarrow> u16 result" where
  "getServerPort r =
     (let res = map_get string_lt (rq_vars r) ''SERVER_PORT''
      in if res \<noteq> [] then rbind (stoi res) (\<lambda>n. Inr (of_int n)) else Inr 80)"

definition getHost :: "('s, 'u) request \<Rightarrow> string" where
  "getHost r = map_get StringCILess (rq_headers r) ''host''"

definition getPathInfo :: "('s, 'u) request \<Rightarrow> string" where
  "getPathInfo r = map_get string_lt (rq_vars r) ''PATH_INFO''"

definition getScriptName :: "('s, 'u) request \<Rightarrow> string" where
  "getScriptName r = map_get string_lt (rq_vars r) ''SCRIPT_NAME''"

definition getQueryString :: "('s, 'u) request \<Rightarrow> string" where
  "getQueryString r = map_get string_lt (rq_vars r) ''QUERY_STRING''"

definition getRequestMethod :: "('s, 'u) request \<Rightarrow> string" where
  "getRequestMethod r = map_get string_lt (rq_vars r) ''REQUEST_METHOD''"

text \<open>
  A header without a number counts as 0; the exception for a number that is no \<^verbatim>\<open>int\<close> is not caught.
\<close>

definition getContentLength :: "('s, 'u) request \<Rightarrow> int result" where
  "getContentLength r =
     (let header = map_get StringCILess (rq_headers r) ''content-length''
      in if header = [] then Inr 0
         else case stoi header of
                Inl (InvalidArgument _) \<Rightarrow> Inr 0
              | res \<Rightarrow> res)"

definition getContentType :: "('s, 'u) request \<Rightarrow> string" where
  "getContentType r = map_get StringCILess (rq_headers r) ''content-type''"

definition getURI :: "('s, 'u) request \<Rightarrow> string" where
  "getURI r =
     (let res = getScriptName r @ getPathInfo r; query_string = getQueryString r
      in if query_string \<noteq> [] then res @ ''?'' @ query_string else res)"

definition isSecure :: "('s, 'u) request \<Rightarrow> bool" where
  "isSecure r = (let val = map_get string_lt (rq_vars r) ''HTTPS'' in val \<noteq> [] \<and> ''on'' = val)"

definition getUrl :: "('s, 'u) request \<Rightarrow> string" where
  "getUrl r = (if isSecure r then ''https://'' else ''http://'') @ getHost r @ getURI r"

fun arg_first :: "string \<Rightarrow> (string \<times> string) list \<Rightarrow> string option" where
  "arg_first name [] = None"
| "arg_first name ((k, v) # as) = (if k = name then Some v else arg_first name as)"

definition countArgs :: "('s, 'u) request \<Rightarrow> nat" where
  "countArgs r = length (rq_args r)"

definition hasArg :: "('s, 'u) request \<Rightarrow> string \<Rightarrow> bool" where
  "hasArg r name \<longleftrightarrow> arg_first name (rq_args r) \<noteq> None"

definition getArg :: "('s, 'u) request \<Rightarrow> string \<Rightarrow> string" where
  "getArg r name = (case arg_first name (rq_args r) of None \<Rightarrow> [] | Some v \<Rightarrow> v)"

definition getArgs :: "('s, 'u) request \<Rightarrow> string \<Rightarrow> string list" where
  "getArgs r name = map snd (filter (\<lambda>i. fst i = name) (rq_args r))"

definition argNames :: "('s, 'u) request \<Rightarrow> string list" where
  "argNames r = map fst (foldl (\<lambda>s i. fst (om_insert string_lt (fst i) () s)) [] (rq_args r))"

definition hasHeader :: "('s, 'u) request \<Rightarrow> string \<Rightarrow> bool" where
  "hasHeader r name = map_has StringCILess (rq_headers r) name"

definition getHeader :: "('s, 'u) request \<Rightarrow> string \<Rightarrow> string" where
  "getHeader r name = map_get StringCILess (rq_headers r) name"

definition headerNames :: "('s, 'u) request \<Rightarrow> string list" where
  "headerNames r = map_keys (rq_headers r)"

definition hasCookie :: "('s, 'u) request \<Rightarrow> string \<Rightarrow> bool" where
  "hasCookie r name = map_has string_lt (rq_cookies r) name"

definition getCookie :: "('s, 'u) request \<Rightarrow> string \<Rightarrow> string" where
  "getCookie r name = map_get string_lt (rq_cookies r) name"

definition hasRemoteFile :: "('s, 'u) request \<Rightarrow> string \<Rightarrow> bool" where
  "hasRemoteFile r name \<longleftrightarrow> om_find string_lt name (rq_files r) \<noteq> None"

definition remoteFileName :: "('s, 'u) request \<Rightarrow> string \<Rightarrow> string" where
  "remoteFileName r name =
     (case om_find string_lt name (rq_files r) of Some f \<Rightarrow> file_name f | None \<Rightarrow> [])"

definition remoteFileType :: "('s, 'u) request \<Rightarrow> string \<Rightarrow> string" where
  "remoteFileType r name =
     (case om_find string_lt name (rq_files r) of Some f \<Rightarrow> file_type f | None \<Rightarrow> [])"

definition remoteFile :: "('s, 'u) request \<Rightarrow> string \<Rightarrow> data_buffer result" where
  "remoteFile r name =
     (case om_find string_lt name (rq_files r) of
        Some f \<Rightarrow> Inr (file_data f)
      | None \<Rightarrow> db_part (rq_body r) 0 0)"

definition hasFile :: "('s, 'u) request \<Rightarrow> string \<Rightarrow> bool" where
  "hasFile r name = hasRemoteFile r name"

definition remoteFiles :: "('s, 'u) request \<Rightarrow> string list" where
  "remoteFiles r = map fst (rq_files r)"

definition countHeaders :: "('s, 'u) request \<Rightarrow> nat" where
  "countHeaders r = length (rq_headers r)"

definition countCookie :: "('s, 'u) request \<Rightarrow> nat" where
  "countCookie r = length (rq_cookies r)"

definition cookieNames :: "('s, 'u) request \<Rightarrow> string list" where
  "cookieNames r = map_keys (rq_cookies r)"

definition countRemoteFiles :: "('s, 'u) request \<Rightarrow> nat" where
  "countRemoteFiles r = length (rq_files r)"

text \<open>\<^verbatim>\<open>isBot\<close> asks the session manager and ignores the answer.\<close>

definition isBot :: "(('s, 'u) request \<Rightarrow> bool) option \<Rightarrow> ('s, 'u) request \<Rightarrow> bool" where
  "isBot session_manager r =
     (case session_manager of Some is_bot \<Rightarrow> (let _ = is_bot r in False) | None \<Rightarrow> False)"

definition disablePostParams :: "('s, 'u) request \<Rightarrow> bool" where
  "disablePostParams r =
     (let disable_params = map_get string_lt (rq_vars r) ''DISABLE_POST_PARAMS''
      in if disable_params = [] then False
         else eq_ci ''yes'' disable_params \<or> eq_ci ''true'' disable_params \<or> eq_ci ''1'' disable_params)"

section \<open>Output\<close>

definition stream_write :: "string \<Rightarrow> ('s, 'u) request \<Rightarrow> ('s, 'u) request" where
  "stream_write s r =
     (case rq_stream r of
        None \<Rightarrow> r
      | Some st \<Rightarrow> r\<lparr>rq_stream := Some (st\<lparr>io_out := io_out st @ s\<rparr>)\<rparr>)"

definition setCookie :: "cookie \<Rightarrow> ('s, 'u) request \<Rightarrow> ('s, 'u) outcome" where
  "setCookie c r =
     (if \<not> rq_headers_sent r
      then Inr (r\<lparr>rq_out_cookies := om_assign string_lt (ck_name c) c (rq_out_cookies r)\<rparr>)
      else Inl (RuntimeError (''Error in Request::setCookie: headers already sent: cookie - '' @
             CHR 0x27 # ck_name c @ ''='' @ ck_value c @ [CHR 0x27]), r))"

definition deleteCookie :: "string \<Rightarrow> ('s, 'u) request \<Rightarrow> ('s, 'u) outcome" where
  "deleteCookie name r = setCookie (cookie_set_expires 0 (cookie_new name [])) r"

definition setStatus :: "u16 \<Rightarrow> ('s, 'u) request \<Rightarrow> ('s, 'u) outcome" where
  "setStatus status r =
     (if \<not> rq_headers_sent r then Inr (r\<lparr>rq_status := status\<rparr>)
      else Inl (RuntimeError (''Error in Request::setStatus headers already sent: status - '' @
             CHR 0x27 # show_nat (unat status) @ [CHR 0x27]), r))"

definition setHeader :: "string \<Rightarrow> string \<Rightarrow> ('s, 'u) request \<Rightarrow> ('s, 'u) outcome" where
  "setHeader name val r =
     (if \<not> rq_headers_sent r
      then Inr (r\<lparr>rq_out_headers :=
             om_assign StringCILess (normalizeOutputHeaderName name) val (rq_out_headers r)\<rparr>)
      else Inl (RuntimeError (''Error in Request::setHeader: headers already sent: header - '' @
             CHR 0x27 # name @ '': '' @ val @ [CHR 0x27]), r))"

fun send_headers_loop :: "(string \<times> string) list \<Rightarrow> ('s, 'u) request \<Rightarrow> ('s, 'u) request" where
  "send_headers_loop [] r = r"
| "send_headers_loop ((k, v) # hs) r =
     send_headers_loop hs (stream_write (k @ '': '' @ v @ [CHR 0x0D, CHR 0x0A]) r)"

text \<open>Formatting a cookie can throw; what was written before stays written.\<close>

fun send_cookies_loop :: "(string \<times> cookie) list \<Rightarrow> ('s, 'u) request \<Rightarrow> ('s, 'u) outcome" where
  "send_cookies_loop [] r = Inr r"
| "send_cookies_loop ((_, c) # cs) r =
     (let r = stream_write ''Set-Cookie: '' r
      in rbind (at_state r (cookie_toString c)) (\<lambda>t.
           send_cookies_loop cs (stream_write (t @ [CHR 0x0D, CHR 0x0A]) r)))"

definition status_line :: "u16 \<Rightarrow> string" where
  "status_line status = show_nat (unat status) @ '' '' @ statusToString status"

definition sendHeadersInternal :: "('s, 'u) request \<Rightarrow> ('s, 'u) outcome" where
  "sendHeadersInternal r =
     (if rq_headers_sent r then Inr r
      else
        let r = r\<lparr>rq_out_headers := om_assign StringCILess ''Status'' (status_line (rq_status r)) (rq_out_headers r)\<rparr>
        in rbind
             (if rq_stream r \<noteq> None then
                rbind (send_cookies_loop (rq_out_cookies r) (send_headers_loop (rq_out_headers r) r))
                  (\<lambda>r. Inr (stream_write [CHR 0x0D, CHR 0x0A] r))
              else Inr r)
             (\<lambda>r. Inr (r\<lparr>rq_headers_sent := True\<rparr>)))"

definition sendHeaders :: "('s, 'u) request \<Rightarrow> ('s, 'u) outcome" where
  "sendHeaders r = sendHeadersInternal r"

definition sendError :: "u16 \<Rightarrow> ('s, 'u) request \<Rightarrow> ('s, 'u) outcome" where
  "sendError status r =
     (if rq_headers_sent r
      then Inl (RuntimeError (''Error in Request::setError headers already sent: status - '' @
             CHR 0x27 # show_nat (unat status) @ [CHR 0x27]), r)
      else
        rbind (sendHeadersInternal
            (r\<lparr>rq_out_cookies := [], rq_status := status,
               rq_out_headers := fst (om_insert StringCILess ''Content-type'' ''text/html'' [])\<rparr>))
          (\<lambda>r. Inr (stream_write (''<html><body><h1>'' @ show_nat (unat status) @ '' '' @
                   statusToString status @ ''</h1></body></html>'') r)))"

definition request_write :: "string \<Rightarrow> ('s, 'u) request \<Rightarrow> ('s, 'u) outcome" where
  "request_write buf r =
     rbind (sendHeaders r) (\<lambda>r.
       if rq_stream r \<noteq> None \<and> ''HEAD'' \<noteq> getRequestMethod r then Inr (stream_write buf r) else Inr r)"

definition outputHeader :: "('s, 'u) request \<Rightarrow> string \<Rightarrow> string" where
  "outputHeader r name = map_get StringCILess (rq_out_headers r) name"

definition redirectToPath :: "string \<Rightarrow> ('s, 'u) request \<Rightarrow> ('s, 'u) outcome" where
  "redirectToPath path r = rbind (setStatus 302 r) (setHeader ''Location'' path)"

definition redirectBack :: "('s, 'u) request \<Rightarrow> ('s, 'u) outcome" where
  "redirectBack r = redirectToPath (getHeader r ''Referer'') r"

definition setContentType :: "string \<Rightarrow> ('s, 'u) request \<Rightarrow> ('s, 'u) outcome" where
  "setContentType type r = setHeader ''Content-type'' type r"

definition setContentEncoding :: "string \<Rightarrow> ('s, 'u) request \<Rightarrow> ('s, 'u) outcome" where
  "setContentEncoding encoding r = setHeader ''Content-encoding'' encoding r"

definition markAsProcessed :: "('s, 'u) request \<Rightarrow> ('s, 'u) request" where
  "markAsProcessed r = r\<lparr>rq_processed := True\<rparr>"

definition tryAgain :: "int \<Rightarrow> ('s, 'u) request \<Rightarrow> ('s, 'u) request" where
  "tryAgain delay r = r\<lparr>rq_delay := delay\<rparr>"

text \<open>\<open>anonymous\<close> tells whether a subject is the anonymous one.\<close>

definition setSubject :: "('u \<Rightarrow> bool) \<Rightarrow> 'u \<Rightarrow> ('s, 'u) request \<Rightarrow> ('s, 'u) outcome" where
  "setSubject anonymous subject r =
     (if \<not> anonymous subject then
        if rq_subject r \<noteq> None then Inl (RuntimeError ''Subject already assigned'', r)
        else Inr (r\<lparr>rq_subject := Some subject\<rparr>)
      else Inr (r\<lparr>rq_subject := None\<rparr>))"

definition getSubject :: "'u \<Rightarrow> ('s, 'u) request \<Rightarrow> 'u" where
  "getSubject anonymousSubject r = (case rq_subject r of Some s \<Rightarrow> s | None \<Rightarrow> anonymousSubject)"

section \<open>The invariant of the maps\<close>

definition rq_ok :: "('s, 'u) request \<Rightarrow> bool" where
  "rq_ok r \<longleftrightarrow> om_sorted string_lt (rq_vars r) \<and> om_sorted string_lt (rq_cookies r) \<and>
     om_sorted string_lt (rq_files r) \<and> om_sorted StringCILess (rq_headers r) \<and>
     om_sorted StringCILess (rq_out_headers r) \<and> om_sorted string_lt (rq_out_cookies r)"

lemma rq_ok_new [simp]: "rq_ok (reset r)" "rq_ok request_new"
  by (simp_all add: rq_ok_def reset_def request_new_def)

lemma stream_write_fields [simp]:
  "rq_headers_sent (stream_write s r) = rq_headers_sent r" "rq_status (stream_write s r) = rq_status r"
  "rq_out_headers (stream_write s r) = rq_out_headers r" "rq_out_cookies (stream_write s r) = rq_out_cookies r"
  "rq_vars (stream_write s r) = rq_vars r" "rq_args (stream_write s r) = rq_args r"
  "(rq_stream (stream_write s r) = None) = (rq_stream r = None)"
  "rq_ok (stream_write s r) = rq_ok r"
  by (auto simp: stream_write_def rq_ok_def split: option.splits)

lemma stream_write_None [simp]: "rq_stream r = None \<Longrightarrow> stream_write s r = r"
  by (simp add: stream_write_def)

text \<open>What is written is appended to the output, in the order of the calls.\<close>

lemma stream_write_append: "stream_write t (stream_write s r) = stream_write (s @ t) r"
  by (simp add: stream_write_def split: option.splits)

definition header_block :: "(string \<times> string) list \<Rightarrow> string" where
  "header_block hs = concat (map (\<lambda>(k, v). k @ '': '' @ v @ [CHR 0x0D, CHR 0x0A]) hs)"

lemma send_headers_loop_eq: "send_headers_loop hs r = stream_write (header_block hs) r"
proof (induction hs r rule: send_headers_loop.induct)
  case (1 r)
  show ?case by (simp add: header_block_def stream_write_def split: option.splits)
next
  case (2 k v hs r)
  then show ?case by (simp add: header_block_def stream_write_append)
qed

definition cookie_block :: "(string \<times> cookie) list \<Rightarrow> string result" where
  "cookie_block cs = foldr (\<lambda>(_, c) acc. rbind (cookie_toString c) (\<lambda>t. rbind acc (\<lambda>b.
     Inr (''Set-Cookie: '' @ t @ [CHR 0x0D, CHR 0x0A] @ b)))) cs (Inr [])"

lemma send_cookies_loop_eq:
  "cookie_block cs = Inr t \<Longrightarrow> send_cookies_loop cs r = Inr (stream_write t r)"
proof (induction cs arbitrary: r t)
  case Nil
  then show ?case by (simp add: cookie_block_def stream_write_def split: option.splits)
next
  case (Cons e cs)
  obtain k c where e: "e = (k, c)" by (cases e)
  obtain u v where uv: "cookie_toString c = Inr u" "cookie_block cs = Inr v"
    "t = ''Set-Cookie: '' @ u @ [CHR 0x0D, CHR 0x0A] @ v"
    using Cons.prems by (auto simp: e cookie_block_def rbind_eq_Inr_conv)
  then show ?case using Cons.IH [OF uv(2)] by (simp add: e stream_write_append Let_def)
qed

definition response_head :: "('s, 'u) request \<Rightarrow> string result" where
  "response_head r =
     rbind (cookie_block (rq_out_cookies r)) (\<lambda>cs.
       Inr (header_block (om_assign StringCILess ''Status'' (status_line (rq_status r)) (rq_out_headers r)) @
         cs @ [CHR 0x0D, CHR 0x0A]))"

lemma sendHeadersInternal_eq:
  assumes "\<not> rq_headers_sent r" "response_head r = Inr h"
  shows "sendHeadersInternal r = Inr ((stream_write h r)\<lparr>rq_headers_sent := True,
    rq_out_headers := om_assign StringCILess ''Status'' (status_line (rq_status r)) (rq_out_headers r)\<rparr>)"
proof -
  obtain cs where cs: "cookie_block (rq_out_cookies r) = Inr cs"
    "h = header_block (om_assign StringCILess ''Status'' (status_line (rq_status r)) (rq_out_headers r)) @
      cs @ [CHR 0x0D, CHR 0x0A]"
    using assms(2) by (auto simp: response_head_def rbind_eq_Inr_conv)
  have sw: "stream_write s (r'\<lparr>rq_out_headers := x\<rparr>) = (stream_write s r')\<lparr>rq_out_headers := x\<rparr>"
    "stream_write s (r'\<lparr>rq_headers_sent := y\<rparr>) = (stream_write s r')\<lparr>rq_headers_sent := y\<rparr>" for s r' x y
    by (simp_all add: stream_write_def split: option.splits)
  show ?thesis using assms(1) cs
    by (simp add: sendHeadersInternal_def Let_def send_headers_loop_eq send_cookies_loop_eq stream_write_append sw)
qed

section \<open>Properties\<close>

text \<open>
  C2. The header block is sent exactly once and before any body: while no header was sent, a write
  first emits the status, the headers and the cookies in the order of their maps and an empty line,
  then the body (unless the method is HEAD), and marks the headers as sent; afterwards a write emits
  the body alone.
\<close>

theorem headers_before_body_once:
  assumes "response_head r = Inr h" "\<not> rq_headers_sent r" "rq_stream r = Some st" "getRequestMethod r \<noteq> ''HEAD''"
  shows "\<exists>r1. request_write a r = Inr r1 \<and> rq_headers_sent r1 \<and>
    rq_stream r1 = Some (st\<lparr>io_out := io_out st @ h @ a\<rparr>) \<and>
    request_write b r1 = Inr (stream_write b r1) \<and>
    rq_stream (stream_write b r1) = Some (st\<lparr>io_out := io_out st @ h @ a @ b\<rparr>)"
proof -
  let ?r1 = "stream_write a ((stream_write h r)\<lparr>rq_headers_sent := True,
    rq_out_headers := om_assign StringCILess ''Status'' (status_line (rq_status r)) (rq_out_headers r)\<rparr>)"
  have m: "getRequestMethod (x\<lparr>rq_headers_sent := s, rq_out_headers := o'\<rparr>) = getRequestMethod x"
    "getRequestMethod (stream_write t x) = getRequestMethod x"
    for x :: "('a, 'b) request" and s o' t by (simp_all add: getRequestMethod_def)
  have "request_write a r = Inr ?r1"
    using sendHeadersInternal_eq [OF assms(2,1)] assms(3,4) by (simp add: request_write_def sendHeaders_def m)
  moreover have "request_write b ?r1 = Inr (stream_write b ?r1)"
    using assms(3,4) by (simp add: request_write_def sendHeaders_def sendHeadersInternal_def m)
  ultimately show ?thesis using assms(3) by (intro exI [of _ ?r1]) (simp add: stream_write_def)
qed

theorem headers_before_body_once_witness:
  "\<exists>r1. request_write ''a'' ((request_new :: (unit, unit) request)\<lparr>rq_stream := Some \<lparr>io_in = [], io_out = []\<rparr>\<rparr>) = Inr r1 \<and>
    rq_headers_sent r1 \<and>
    rq_stream r1 = Some \<lparr>io_in = [], io_out =
      ''Status: 200 OK'' @ [CHR 0x0D, CHR 0x0A, CHR 0x0D, CHR 0x0A] @ ''a''\<rparr>"
proof -
  let ?r = "(request_new :: (unit, unit) request)\<lparr>rq_stream := Some \<lparr>io_in = [], io_out = []\<rparr>\<rparr>"
  have "response_head ?r = Inr (''Status: 200 OK'' @ [CHR 0x0D, CHR 0x0A, CHR 0x0D, CHR 0x0A])"
    by (simp add: response_head_def request_new_def reset_def cookie_block_def header_block_def status_line_def
        statusToString_def show_nat.simps char_of_def bit_0)
  then show ?thesis
    using headers_before_body_once [of ?r "''Status: 200 OK'' @ [CHR 0x0D, CHR 0x0A, CHR 0x0D, CHR 0x0A]"
        "\<lparr>io_in = [], io_out = []\<rparr>" "''a''"]
    by (fastforce simp: request_new_def reset_def getRequestMethod_def map_get_def)
qed

text \<open>
  Once the headers are sent, the status, the headers, the cookies and the error page can no
  longer be set: each of these operations throws and leaves the request as it was.
\<close>

theorem no_change_after_headers:
  assumes "rq_headers_sent r"
  shows "(\<exists>e. setStatus status r = Inl (RuntimeError e, r)) \<and>
    (\<exists>e. setHeader name val r = Inl (RuntimeError e, r)) \<and>
    (\<exists>e. setCookie c r = Inl (RuntimeError e, r)) \<and>
    (\<exists>e. sendError status r = Inl (RuntimeError e, r)) \<and> sendHeaders r = Inr r"
  using assms
  by (simp add: setStatus_def setHeader_def setCookie_def sendError_def sendHeaders_def sendHeadersInternal_def)

theorem no_change_after_headers_witness:
  "sendHeaders ((request_new :: (unit, unit) request)\<lparr>rq_headers_sent := True\<rparr>) =
     Inr (request_new\<lparr>rq_headers_sent := True\<rparr>)"
  using no_change_after_headers [of "(request_new :: (unit, unit) request)\<lparr>rq_headers_sent := True\<rparr>"] by simp

text \<open>
  A header that was set is found under every capitalisation of its normal form, the last value
  wins, the other headers keep their values, and the maps stay well-formed.
\<close>

theorem setHeader_outputHeader:
  assumes "rq_ok r" "setHeader name val r = Inr r'"
  shows "outputHeader r' key = (if eq_ci key (normalizeOutputHeaderName name) then val else outputHeader r key) \<and>
    rq_ok r'"
  using assms ci_order.find_assign [of "rq_out_headers r" key "normalizeOutputHeaderName name" val]
  by (auto simp: setHeader_def outputHeader_def map_get_def rq_ok_def ci_order.sorted_assign split: if_splits)

theorem setHeader_outputHeader_witness:
  "\<exists>r'. setHeader ''content-type'' ''text/css'' (request_new :: (unit, unit) request) = Inr r' \<and>
    outputHeader r' (normalizeOutputHeaderName ''content-type'') = ''text/css''"
proof -
  obtain r' where r': "setHeader ''content-type'' ''text/css'' (request_new :: (unit, unit) request) = Inr r'"
    by (simp add: setHeader_def request_new_def reset_def)
  then show ?thesis
    using setHeader_outputHeader [OF rq_ok_new(2) r', of "normalizeOutputHeaderName ''content-type''"] by simp
qed

text \<open>
  Deleting a cookie does not tell the client to delete it: the header that is sent sets the
  cookie to the empty value and has no expiry date, because an expiry time of 0 (which the operation
  sets) is what the text of a cookie leaves out.
\<close>

theorem deleteCookie_has_no_expiry:
  assumes "\<not> rq_headers_sent r" "rq_ok r"
  shows "\<exists>r' c. deleteCookie name r = Inr r' \<and> om_find string_lt name (rq_out_cookies r') = Some c \<and>
    cookie_toString c = Inr (name @ ''=; path=/'')"
  using assms string_order.find_assign [of "rq_out_cookies r" name name "cookie_set_expires 0 (cookie_new name [])"]
  by (simp add: deleteCookie_def setCookie_def rq_ok_def cookie_set_expires_def cookie_new_def cookie_toString_def)

theorem deleteCookie_has_no_expiry_witness:
  "\<exists>r' c. deleteCookie ''sid'' (request_new :: (unit, unit) request) = Inr r' \<and>
    om_find string_lt ''sid'' (rq_out_cookies r') = Some c \<and> cookie_toString c = Inr ''sid=; path=/''"
proof -
  have "\<not> rq_headers_sent (request_new :: (unit, unit) request)" by (simp add: request_new_def reset_def)
  then show ?thesis
    using deleteCookie_has_no_expiry [of "request_new :: (unit, unit) request" "''sid''"] by simp
qed

end
