(* ===== verification/Configs.thy ===== *)
theory Configs
  imports Dates OMaps
begin

text \<open>
  The configuration (\<^verbatim>\<open>library/config.cpp\<close>): values of an XML document, addressed by XPath expressions,
  in which references \<^verbatim>\<open>${name}\<close> are replaced by the values of the document's variables. The document
  and the XPath evaluation are those of libxml2: the model takes the function that gives the values
  of the nodes an expression selects (a node without text has none).
\<close>

type_synonym xml_doc = "string \<Rightarrow> string option list result"

record xml_config =
  xc_doc :: xml_doc
  xc_vars :: "(string \<times> string) list"

section \<open>Variables\<close>

definition var_start :: "char \<Rightarrow> bool" where
  "var_start c \<longleftrightarrow> (65 \<le> byte c \<and> byte c \<le> 90) \<or> (97 \<le> byte c \<and> byte c \<le> 122)"

definition var_char :: "char \<Rightarrow> bool" where
  "var_char c \<longleftrightarrow> var_start c \<or> (48 \<le> byte c \<and> byte c \<le> 57) \<or> c = CHR ''-''"

text \<open>The regular expression of the source at the beginning of a text: the name and what follows the
  reference.\<close>

definition match_variable :: "string \<Rightarrow> (string \<times> string) option" where
  "match_variable s =
     (case s of
        d # b # t \<Rightarrow>
          if d = CHR ''$'' \<and> b = CHR 0x7B then
            (case (takeWhile var_char t, dropWhile var_char t) of
               (c # cs, e # r) \<Rightarrow> if var_start c \<and> e = CHR 0x7D then Some (c # cs, r) else None
             | _ \<Rightarrow> None)
          else None
      | _ \<Rightarrow> None)"

text \<open>The leftmost match: what precedes it, the name, what follows.\<close>

fun search_variable :: "string \<Rightarrow> (string \<times> string \<times> string) option" where
  "search_variable [] = None"
| "search_variable (c # s) =
     (case match_variable (c # s) of
        Some (name, rest) \<Rightarrow> Some ([], name, rest)
      | None \<Rightarrow> map_option (\<lambda>(pre, name, rest). (c # pre, name, rest)) (search_variable s))"

definition findVariable :: "(string \<times> string) list \<Rightarrow> string \<Rightarrow> string result" where
  "findVariable vars key =
     (case om_find string_lt key vars of
        Some v \<Rightarrow> Inr v
      | None \<Rightarrow> Inl (RuntimeError (''nonexistent variable '' @ key)))"

partial_function (option) resolveVariables :: "(string \<times> string) list \<Rightarrow> string \<Rightarrow> string result option" where
  [code]: "resolveVariables vars val =
     (case search_variable val of
        None \<Rightarrow> Some (Inr val)
      | Some (pre, name, rest) \<Rightarrow>
          (case findVariable vars name of
             Inl e \<Rightarrow> Some (Inl e)
           | Inr v \<Rightarrow> resolveVariables vars (pre @ v @ rest)))"

text \<open>The variables of the document: nodes with a name attribute and a value.\<close>

fun find_variables :: "(string option \<times> string option) list \<Rightarrow> (string \<times> string) list \<Rightarrow> (string \<times> string) list result" where
  "find_variables [] vars = Inr vars"
| "find_variables ((name, val) # ns) vars =
     (case (name, val) of
        (Some n, Some v) \<Rightarrow> find_variables ns (fst (om_insert string_lt n v vars))
      | _ \<Rightarrow> Inl (LogicError ''bad variable definition''))"

definition xml_config_new :: "xml_doc \<Rightarrow> (string option \<times> string option) list \<Rightarrow> xml_config result" where
  "xml_config_new doc variables = rbind (find_variables variables []) (\<lambda>vars. Inr \<lparr>xc_doc = doc, xc_vars = vars\<rparr>)"

section \<open>Values\<close>

definition cfg_asString :: "xml_config \<Rightarrow> string \<Rightarrow> string result" where
  "cfg_asString c key =
     rbind (xc_doc c key) (\<lambda>nodes.
       case nodes of
         [] \<Rightarrow> Inl (RuntimeError (''nonexistent config param: '' @ key))
       | v # _ \<Rightarrow>
           (case resolveVariables (xc_vars c) (case v of Some s \<Rightarrow> s | None \<Rightarrow> []) of
              None \<Rightarrow> Inl Diverges
            | Some r \<Rightarrow> r))"

text \<open>A default value is for exceptions, not for a call that does not return.\<close>

definition cfg_asString_default :: "xml_config \<Rightarrow> string \<Rightarrow> string \<Rightarrow> string result" where
  "cfg_asString_default c key defval =
     (case cfg_asString c key of
        Inr s \<Rightarrow> Inr s
      | Inl e \<Rightarrow> if e = Diverges then Inl Diverges else Inr defval)"

text \<open>\<^verbatim>\<open>atoi\<close>: white space, a sign, digits; the value is cut to the \<^verbatim>\<open>long\<close> of \<^verbatim>\<open>strtol\<close> and then to an \<^verbatim>\<open>int\<close>.\<close>

definition atoi :: "string \<Rightarrow> int" where
  "atoi s =
     (let t = dropWhile isspace (c_str s);
          (neg, u) = (case t of c # r \<Rightarrow> if c = CHR ''-'' then (True, r)
                                     else if c = CHR ''+'' then (False, r) else (False, t)
                      | [] \<Rightarrow> (False, t));
          v = digits_value u 0;
          l = max (- (2 ^ 63)) (min (2 ^ 63 - 1) (if neg then - v else v))
      in sint (word_of_int l :: u32))"

definition cfg_asInt :: "xml_config \<Rightarrow> string \<Rightarrow> int result" where
  "cfg_asInt c key = rbind (cfg_asString c key) (\<lambda>s. Inr (atoi s))"

definition cfg_asInt_default :: "xml_config \<Rightarrow> string \<Rightarrow> int \<Rightarrow> int result" where
  "cfg_asInt_default c key defval =
     (case cfg_asInt c key of
        Inr n \<Rightarrow> Inr n
      | Inl e \<Rightarrow> if e = Diverges then Inl Diverges else Inr defval)"

definition cfg_subKeys :: "xml_config \<Rightarrow> string \<Rightarrow> string list result" where
  "cfg_subKeys c key =
     rbind (xc_doc c key) (\<lambda>nodes.
       Inr (map (\<lambda>i. key @ ''['' @ show_nat (i + 1) @ '']'') [0..<length nodes]))"

section \<open>Resolving references\<close>

text \<open>A text with references, as pieces: literal text and names of variables.\<close>

datatype chunk = Lit string | Ref string

fun render :: "chunk list \<Rightarrow> string" where
  "render [] = []"
| "render (Lit s # cs) = s @ render cs"
| "render (Ref n # cs) = ''${'' @ n @ ''}'' @ render cs"

fun expand :: "(string \<times> string) list \<Rightarrow> chunk list \<Rightarrow> string result" where
  "expand vars [] = Inr []"
| "expand vars (Lit s # cs) = rbind (expand vars cs) (\<lambda>r. Inr (s @ r))"
| "expand vars (Ref n # cs) =
     rbind (findVariable vars n) (\<lambda>v. rbind (expand vars cs) (\<lambda>r. Inr (v @ r)))"

fun chunk_ok :: "chunk \<Rightarrow> bool" where
  "chunk_ok (Lit s) = (CHR ''$'' \<notin> set s)"
| "chunk_ok (Ref n) = (n \<noteq> [] \<and> var_start (hd n) \<and> list_all var_char n)"

lemma match_variable_no_dollar: "c \<noteq> CHR ''$'' \<Longrightarrow> match_variable (c # s) = None"
  by (simp add: match_variable_def split: list.splits)

lemma search_variable_skip:
  "CHR ''$'' \<notin> set pre \<Longrightarrow>
   search_variable (pre @ s) = map_option (\<lambda>(p, n, r). (pre @ p, n, r)) (search_variable s)"
proof (induction pre)
  case Nil
  show ?case by (cases "search_variable s") auto
next
  case (Cons c pre)
  then show ?case using match_variable_no_dollar [of c "pre @ s"] by (cases "search_variable s") auto
qed

lemma search_variable_ref:
  assumes "chunk_ok (Ref n)"
  shows "search_variable (''${'' @ n @ ''}'' @ r) = Some ([], n, r)"
proof -
  have nv: "\<not> var_char (CHR 0x7D)" by (simp add: var_char_def var_start_def)
  have a: "\<forall>c \<in> set n. var_char c" "n \<noteq> []" "var_start (hd n)" using assms by (simp_all add: list_all_iff)
  then have "takeWhile var_char (n @ ''}'' @ r) = n" "dropWhile var_char (n @ ''}'' @ r) = ''}'' @ r"
    using nv by (simp_all add: takeWhile_append dropWhile_append)
  moreover obtain c cs where "n = c # cs" using a(2) by (cases n) auto
  ultimately have "match_variable (''${'' @ n @ ''}'' @ r) = Some (n, r)"
    using a(3) by (simp add: match_variable_def)
  then show ?thesis by simp
qed

lemma search_variable_none: "CHR ''$'' \<notin> set s \<Longrightarrow> search_variable s = None"
  using search_variable_skip [of s "[]"] by simp

lemma resolve_chunks:
  assumes "\<forall>c \<in> set cs. chunk_ok c" "\<forall>(n, v) \<in> set vars. CHR ''$'' \<notin> set v" "CHR ''$'' \<notin> set pre"
  shows "resolveVariables vars (pre @ render cs) = Some (rbind (expand vars cs) (\<lambda>r. Inr (pre @ r)))"
  using assms(1,3)
proof (induction cs arbitrary: pre)
  case Nil
  then show ?case by (subst resolveVariables.simps) (simp add: search_variable_none)
next
  case (Cons c cs)
  show ?case
  proof (cases c)
    case (Lit s)
    then show ?thesis using Cons.IH [of "pre @ s"] Cons.prems by (simp add: rbind_def split: sum.splits)
  next
    case (Ref n)
    have s: "search_variable (pre @ render (c # cs)) = Some (pre, n, render cs)"
      using search_variable_skip [OF Cons.prems(2)] search_variable_ref [of n "render cs"] Cons.prems(1) Ref by simp
    show ?thesis
    proof (cases "findVariable vars n")
      case (Inl e)
      then show ?thesis using s by (subst resolveVariables.simps) (simp add: Ref)
    next
      case (Inr v)
      then have "om_find string_lt n vars = Some v" by (simp add: findVariable_def split: option.splits)
      then have "\<exists>n'. (n', v) \<in> set vars" by (induction vars) (auto split: if_splits)
      then have "CHR ''$'' \<notin> set (pre @ v)" using assms(2) Cons.prems(2) by auto
      from Cons.IH [OF _ this] Cons.prems(1) Inr s show ?thesis
        by (subst resolveVariables.simps) (simp add: Ref rbind_def split: sum.splits)
    qed
  qed
qed

lemma resolve_plain: "CHR ''$'' \<notin> set s \<Longrightarrow> resolveVariables vars s = Some (Inr s)"
  by (subst resolveVariables.simps) (simp add: search_variable_none)

text \<open>
  References are replaced by the values of the variables: a text of literal pieces and
  references, in which the dollar sign only begins references, is expanded to the pieces and the
  values in their order, or a missing variable is reported; this is for variables whose values have
  no reference themselves.
\<close>

theorem resolveVariables_expands:
  assumes "\<forall>c \<in> set cs. chunk_ok c" "\<forall>(n, v) \<in> set vars. CHR ''$'' \<notin> set v"
  shows "resolveVariables vars (render cs) = Some (expand vars cs)"
proof -
  have "rbind (expand vars cs) Inr = expand vars cs" by (cases "expand vars cs") simp_all
  then show ?thesis using resolve_chunks [OF assms, of "[]"] by simp
qed

theorem resolveVariables_expands_witness:
  "resolveVariables [(''dir'', ''/tmp'')] (render [Lit ''path '', Ref ''dir'', Lit ''/x'']) =
     Some (Inr ''path /tmp/x'')"
proof -
  have "chunk_ok (Ref ''dir'')" by (simp add: var_char_def var_start_def)
  then show ?thesis
    using resolveVariables_expands [of "[Lit ''path '', Ref ''dir'', Lit ''/x'']" "[(''dir'', ''/tmp'')]"]
    by (simp add: findVariable_def string_lt_def byte_lt_def del: render.simps)
qed

text \<open>A variable that refers to itself makes the program hang when it reads a value that uses it.\<close>

theorem resolveVariables_self_reference: "resolveVariables [(''a'', ''${a}'')] ''${a}'' = None"
proof -
  let ?v = "[(''a'', ''${a}'')]" and ?t = "''${a}''"
  have s: "search_variable ?t = Some ([], ''a'', [])"
    using search_variable_ref [of "''a''" "[]"] by (simp add: var_char_def var_start_def)
  have f: "findVariable ?v ''a'' = Inr ?t" by (simp add: findVariable_def string_lt_def byte_lt_def)
  have "resolveVariables vars val = Some y \<Longrightarrow> vars = ?v \<longrightarrow> val \<noteq> ?t" for vars val y
  proof (erule resolveVariables.raw_induct [rotated])
    fix loop vars val y
    assume ih: "\<And>vars val y. loop vars val = Some y \<Longrightarrow> vars = ?v \<longrightarrow> val \<noteq> ?t"
      and b: "(case search_variable val of None \<Rightarrow> Some (Inr val)
        | Some (pre, name, rest) \<Rightarrow> (case findVariable vars name of Inl e \<Rightarrow> Some (Inl e)
           | Inr v \<Rightarrow> loop vars (pre @ v @ rest))) = Some y"
    show "vars = ?v \<longrightarrow> val \<noteq> ?t"
    proof (intro impI notI)
      assume "vars = ?v" "val = ?t"
      with b s f have "loop ?v ?t = Some y" by (simp del: search_variable.simps)
      from ih [OF this] show False by simp
    qed
  qed
  then show ?thesis by (cases "resolveVariables ?v ?t") auto
qed

end
