(* ===== verification/HandlerSets.thy ===== *)
theory HandlerSets
  imports Requests Configs
begin

text \<open>
  Selecting handlers and filters (\<^verbatim>\<open>library/request_filter.cpp\<close>, \<^verbatim>\<open>library/handlerset.cpp\<close>): the selectors of
  a handler are regular expressions over parts of the request, the first handler all of whose
  selectors match is chosen, and the filters of every matching filter description are collected.
  The matching of regular expressions is an argument, \<^verbatim>\<open>rx expression text\<close>. A handler, like a filter,
  is a value of a type of its own.
\<close>

section \<open>Request filters\<close>

datatype request_filter =
  UrlFilter string string
| HostFilter string
| PortFilter string
| AddressFilter string
| RefererFilter string
| ParamFilter string string

type_synonym regex = "string \<Rightarrow> string \<Rightarrow> bool"

definition regex_check :: "regex \<Rightarrow> string \<Rightarrow> string \<Rightarrow> bool" where
  "regex_check rx re val = rx (if re = [] then ''.*'' else re) val"

definition checkUrl :: "regex \<Rightarrow> string \<Rightarrow> string \<Rightarrow> string \<Rightarrow> bool" where
  "checkUrl rx re url_prefix url =
     (if length url_prefix > 0 \<and> take (length url_prefix) url = url_prefix
      then regex_check rx re (drop (length url_prefix) url)
      else regex_check rx re url)"

fun filter_check :: "regex \<Rightarrow> request_filter \<Rightarrow> ('s, 'u) request \<Rightarrow> bool result" where
  "filter_check rx (UrlFilter re url_prefix) r = Inr (checkUrl rx re url_prefix (getScriptName r))"
| "filter_check rx (HostFilter re) r = Inr (regex_check rx re (getHost r))"
| "filter_check rx (PortFilter re) r =
     rbind (getServerPort r) (\<lambda>port. Inr (regex_check rx re (show_nat (unat port))))"
| "filter_check rx (AddressFilter re) r = Inr (regex_check rx re (getServerAddr r))"
| "filter_check rx (RefererFilter re) r =
     Inr (if \<not> hasHeader r ''Referer'' then False else regex_check rx re (getHeader r ''Referer''))"
| "filter_check rx (ParamFilter name re) r =
     Inr (if \<not> hasArg r name then False else regex_check rx re (getArg r name))"

section \<open>Descriptions\<close>

type_synonym selector_array = "(string \<times> request_filter) list"

record 'h handler_description =
  hd_selectors :: selector_array
  hd_handlers :: "'h list"
  hd_poolName :: string
  hd_id :: string

record 'f filter_description =
  fd_selectors :: selector_array
  fd_handlers :: "'f list"
  fd_id :: string

record ('h, 'f) handler_set =
  hs_filters :: "'f filter_description list"
  hs_handlers :: "'h handler_description list"
  hs_defaultPoolName :: string

definition handler_set_new :: "('h, 'f) handler_set" where
  "handler_set_new = \<lparr>hs_filters = [], hs_handlers = [], hs_defaultPoolName = []\<rparr>"

text \<open>A component as the set sees it: it may implement the handler or the filter interface.\<close>

record ('h, 'f) component =
  cp_handler :: "'h option"
  cp_filter :: "'f option"

type_synonym ('h, 'f) component_finder = "string \<Rightarrow> ('h, 'f) component option result"

section \<open>Reading the configuration\<close>

text \<open>One attribute that adds a selector when it is not empty.\<close>

definition add_selector :: "xml_config \<Rightarrow> string \<Rightarrow> string \<Rightarrow> string \<Rightarrow> (string \<Rightarrow> request_filter) \<Rightarrow> selector_array \<Rightarrow>
    selector_array result" where
  "add_selector cfg k attr name mk sel =
     rbind (cfg_asString_default cfg (k @ attr) []) (\<lambda>s.
       Inr (if s \<noteq> [] then sel @ [(name, mk s)] else sel))"

fun add_params :: "xml_config \<Rightarrow> string list \<Rightarrow> selector_array \<Rightarrow> selector_array result" where
  "add_params cfg [] sel = Inr sel"
| "add_params cfg (it # q) sel =
     rbind (cfg_asString_default cfg (it @ ''/@name'') []) (\<lambda>name.
       if name = [] then add_params cfg q sel
       else rbind (cfg_asString_default cfg it []) (\<lambda>val.
         if val = [] then add_params cfg q sel
         else add_params cfg q (sel @ [(''param'', ParamFilter name val)])))"

definition read_selectors :: "xml_config \<Rightarrow> string \<Rightarrow> string \<Rightarrow> selector_array result" where
  "read_selectors cfg url_prefix k =
     rbind (add_selector cfg k ''/@url'' ''url'' (\<lambda>s. UrlFilter s url_prefix) []) (\<lambda>sel.
     rbind (add_selector cfg k ''/@host'' ''host'' HostFilter sel) (\<lambda>sel.
     rbind (add_selector cfg k ''/@port'' ''port'' PortFilter sel) (\<lambda>sel.
     rbind (add_selector cfg k ''/@address'' ''address'' AddressFilter sel) (\<lambda>sel.
     rbind (add_selector cfg k ''/@referer'' ''referer'' RefererFilter sel) (\<lambda>sel.
     rbind (cfg_subKeys cfg (k @ ''/param'')) (\<lambda>q. add_params cfg q sel))))))"

fun read_components :: "xml_config \<Rightarrow> ('h, 'f) component_finder \<Rightarrow> (('h, 'f) component \<Rightarrow> 'x option) \<Rightarrow> string \<Rightarrow>
    string list \<Rightarrow> 'x list \<Rightarrow> 'x list result" where
  "read_components cfg lookup cast interface [] acc = Inr acc"
| "read_components cfg lookup cast interface (c # cs) acc =
     rbind (cfg_asString cfg (c @ ''/@name'')) (\<lambda>componentName.
     rbind (lookup componentName) (\<lambda>cmp.
       case cmp of
         None \<Rightarrow> Inl (RuntimeError (''Cannot find component: '' @ componentName))
       | Some cmp \<Rightarrow>
           (case cast cmp of
              None \<Rightarrow> Inl (RuntimeError (''Component '' @ componentName @ '' does not implement interface '' @ interface))
            | Some h \<Rightarrow> read_components cfg lookup cast interface cs (acc @ [h]))))"

fun initInternal :: "xml_config \<Rightarrow> ('h, 'f) component_finder \<Rightarrow> string \<Rightarrow> string list \<Rightarrow> ('h, 'f) handler_set \<Rightarrow>
    ('h, 'f) handler_set result" where
  "initInternal cfg lookup url_prefix [] hs = Inr hs"
| "initInternal cfg lookup url_prefix (k # v) hs =
     rbind (cfg_asString_default cfg (k @ ''/@pool'') (hs_defaultPoolName hs)) (\<lambda>poolName.
     rbind (cfg_asString_default cfg (k @ ''/@id'') []) (\<lambda>id.
     rbind (read_selectors cfg url_prefix k) (\<lambda>sel.
     rbind (cfg_subKeys cfg (k @ ''/component'')) (\<lambda>components.
     rbind (read_components cfg lookup cp_handler ''Handler'' components []) (\<lambda>handlers.
       initInternal cfg lookup url_prefix v
         (hs\<lparr>hs_handlers := hs_handlers hs @ [\<lparr>hd_selectors = sel, hd_handlers = handlers, hd_poolName = poolName,
            hd_id = id\<rparr>]\<rparr>))))))"

fun init_filters :: "xml_config \<Rightarrow> ('h, 'f) component_finder \<Rightarrow> string \<Rightarrow> string list \<Rightarrow> ('h, 'f) handler_set \<Rightarrow>
    ('h, 'f) handler_set result" where
  "init_filters cfg lookup url_prefix [] hs = Inr hs"
| "init_filters cfg lookup url_prefix (k # v) hs =
     rbind (cfg_asString_default cfg (k @ ''/@id'') []) (\<lambda>id.
     rbind (read_selectors cfg url_prefix k) (\<lambda>sel.
     rbind (cfg_subKeys cfg (k @ ''/component'')) (\<lambda>components.
     rbind (read_components cfg lookup cp_filter ''Filter'' components []) (\<lambda>handlers.
       init_filters cfg lookup url_prefix v
         (hs\<lparr>hs_filters := hs_filters hs @ [\<lparr>fd_selectors = sel, fd_handlers = handlers, fd_id = id\<rparr>]\<rparr>)))))"

definition handler_set_init :: "xml_config \<Rightarrow> ('h, 'f) component_finder \<Rightarrow> ('h, 'f) handler_set \<Rightarrow> ('h, 'f) handler_set result" where
  "handler_set_init cfg lookup hs =
     rbind (cfg_asString_default cfg ''/fastcgi/handlers/@urlPrefix'' []) (\<lambda>url_prefix.
     rbind (cfg_asString_default cfg ''/fastcgi/pools/@default'' []) (\<lambda>pool.
     rbind (cfg_subKeys cfg ''/fastcgi/handlers/handler[count(@url)=1]'') (\<lambda>v1.
     rbind (initInternal cfg lookup url_prefix v1 (hs\<lparr>hs_defaultPoolName := pool\<rparr>)) (\<lambda>hs.
     rbind (cfg_subKeys cfg ''/fastcgi/handlers/handler[not(@url)]'') (\<lambda>v2.
     rbind (initInternal cfg lookup url_prefix v2 hs) (\<lambda>hs.
     rbind (cfg_subKeys cfg ''/fastcgi/handlers/filter'') (\<lambda>v3.
       init_filters cfg lookup url_prefix v3 hs)))))))"

section \<open>Matching\<close>

fun selectors_match :: "regex \<Rightarrow> selector_array \<Rightarrow> ('s, 'u) request \<Rightarrow> bool result" where
  "selectors_match rx [] r = Inr True"
| "selectors_match rx ((name, f) # sel) r =
     (if name \<in> {''url'', ''host'', ''address'', ''port'', ''referer'', ''param''} then
        rbind (filter_check rx f r) (\<lambda>b. if \<not> b then Inr False else selectors_match rx sel r)
      else selectors_match rx sel r)"

fun find_handler :: "regex \<Rightarrow> 'h handler_description list \<Rightarrow> ('s, 'u) request \<Rightarrow> 'h handler_description option result" where
  "find_handler rx [] r = Inr None"
| "find_handler rx (i # is) r =
     rbind (selectors_match rx (hd_selectors i) r) (\<lambda>matched. if matched then Inr (Some i) else find_handler rx is r)"

definition findURIHandler :: "regex \<Rightarrow> ('h, 'f) handler_set \<Rightarrow> ('s, 'u) request \<Rightarrow> 'h handler_description option result" where
  "findURIHandler rx hs r = find_handler rx (hs_handlers hs) r"

text \<open>By URL only: the first description with a URL selector that matches.\<close>

fun url_selector_matches :: "regex \<Rightarrow> string \<Rightarrow> string \<times> request_filter \<Rightarrow> bool" where
  "url_selector_matches rx uri (name, UrlFilter re url_prefix) = (name = ''url'' \<and> checkUrl rx re url_prefix uri)"
| "url_selector_matches rx uri _ = False"

definition findURIHandler_url :: "regex \<Rightarrow> ('h, 'f) handler_set \<Rightarrow> string \<Rightarrow> 'h handler_description option" where
  "findURIHandler_url rx hs uri =
     List.find (\<lambda>i. \<exists>f \<in> set (hd_selectors i). url_selector_matches rx uri f) (hs_handlers hs)"

fun collect_filters :: "regex \<Rightarrow> 'f filter_description list \<Rightarrow> ('s, 'u) request \<Rightarrow> 'f list \<Rightarrow> 'f list result" where
  "collect_filters rx [] r v = Inr v"
| "collect_filters rx (i # is) r v =
     rbind (selectors_match rx (fd_selectors i) r) (\<lambda>matched.
       collect_filters rx is r (if matched then v @ fd_handlers i else v))"

definition findURIFilters :: "regex \<Rightarrow> ('h, 'f) handler_set \<Rightarrow> ('s, 'u) request \<Rightarrow> 'f list \<Rightarrow> 'f list result" where
  "findURIFilters rx hs r v = collect_filters rx (hs_filters hs) r v"

definition findPoolHandlers :: "('h, 'f) handler_set \<Rightarrow> string \<Rightarrow> 'h set" where
  "findPoolHandlers hs poolName = \<Union> (set (map (\<lambda>i. set (hd_handlers i)) (filter (\<lambda>i. hd_poolName i = poolName) (hs_handlers hs))))"

definition getPoolsNeeded :: "('h, 'f) handler_set \<Rightarrow> string set" where
  "getPoolsNeeded hs = insert (hs_defaultPoolName hs) (set (map hd_poolName (hs_handlers hs)))"

section \<open>Selection\<close>

fun selector_kind :: "request_filter \<Rightarrow> string" where
  "selector_kind (UrlFilter _ _) = ''url''"
| "selector_kind (HostFilter _) = ''host''"
| "selector_kind (PortFilter _) = ''port''"
| "selector_kind (AddressFilter _) = ''address''"
| "selector_kind (RefererFilter _) = ''referer''"
| "selector_kind (ParamFilter _ _) = ''param''"

definition selectors_ok :: "selector_array \<Rightarrow> bool" where
  "selectors_ok sel \<longleftrightarrow> list_all (\<lambda>(name, f). name = selector_kind f) sel"

definition handler_set_ok :: "('h, 'f) handler_set \<Rightarrow> bool" where
  "handler_set_ok hs \<longleftrightarrow>
     list_all (\<lambda>i. selectors_ok (hd_selectors i)) (hs_handlers hs) \<and>
     list_all (\<lambda>i. selectors_ok (fd_selectors i)) (hs_filters hs)"

text \<open>What a selector asks of a request, given its port.\<close>

fun selects :: "regex \<Rightarrow> u16 \<Rightarrow> ('s, 'u) request \<Rightarrow> request_filter \<Rightarrow> bool" where
  "selects rx port r (UrlFilter re url_prefix) = checkUrl rx re url_prefix (getScriptName r)"
| "selects rx port r (HostFilter re) = regex_check rx re (getHost r)"
| "selects rx port r (PortFilter re) = regex_check rx re (show_nat (unat port))"
| "selects rx port r (AddressFilter re) = regex_check rx re (getServerAddr r)"
| "selects rx port r (RefererFilter re) = (hasHeader r ''Referer'' \<and> regex_check rx re (getHeader r ''Referer''))"
| "selects rx port r (ParamFilter name re) = (hasArg r name \<and> regex_check rx re (getArg r name))"

lemma filter_check_selects: "getServerPort r = Inr port \<Longrightarrow> filter_check rx f r = Inr (selects rx port r f)"
  by (cases f) simp_all

lemma selectors_match_selects:
  "getServerPort r = Inr port \<Longrightarrow> selectors_ok sel \<Longrightarrow>
   selectors_match rx sel r = Inr (list_all (\<lambda>(_, f). selects rx port r f) sel)"
proof (induction sel)
  case (Cons e sel)
  obtain name f where e: "e = (name, f)" by (cases e)
  have "name = selector_kind f" using Cons.prems by (simp add: e selectors_ok_def)
  then have "name \<in> {''url'', ''host'', ''address'', ''port'', ''referer'', ''param''}" by (cases f) simp_all
  moreover have "selectors_ok sel" using Cons.prems by (simp add: selectors_ok_def)
  ultimately show ?case using Cons.IH Cons.prems(1) filter_check_selects [OF Cons.prems(1), of rx f] by (simp add: e)
qed simp

lemma find_handler_find:
  "getServerPort r = Inr port \<Longrightarrow> list_all (\<lambda>i. selectors_ok (hd_selectors i)) is \<Longrightarrow>
   find_handler rx is r = Inr (List.find (\<lambda>i. list_all (\<lambda>(_, f). selects rx port r f) (hd_selectors i)) is)"
  by (induction "is") (simp_all add: selectors_match_selects)

lemma collect_filters_filter:
  "getServerPort r = Inr port \<Longrightarrow> list_all (\<lambda>i. selectors_ok (fd_selectors i)) is \<Longrightarrow>
   collect_filters rx is r v =
     Inr (v @ concat (map fd_handlers (filter (\<lambda>i. list_all (\<lambda>(_, f). selects rx port r f) (fd_selectors i)) is)))"
  by (induction "is" arbitrary: v) (simp_all add: selectors_match_selects)

text \<open>
  C3. Routing: the handler description that is found is the first one all of whose selectors accept
  the request (none if there is no such description), and the filters are those of all accepting
  filter descriptions, in the order of the configuration.
\<close>

theorem routing_correct:
  assumes "handler_set_ok hs" "getServerPort r = Inr port"
  shows "findURIHandler rx hs r =
      Inr (List.find (\<lambda>i. list_all (\<lambda>(_, f). selects rx port r f) (hd_selectors i)) (hs_handlers hs)) \<and>
    findURIFilters rx hs r v =
      Inr (v @ concat (map fd_handlers (filter (\<lambda>i. list_all (\<lambda>(_, f). selects rx port r f) (fd_selectors i)) (hs_filters hs))))"
  using assms unfolding handler_set_ok_def findURIHandler_def findURIFilters_def
  by (simp add: find_handler_find collect_filters_filter)

definition demo_set :: "(string, string) handler_set" where
  "demo_set = \<lparr>hs_filters = [\<lparr>fd_selectors = [], fd_handlers = [''auth''], fd_id = []\<rparr>],
     hs_handlers = [\<lparr>hd_selectors = [(''url'', UrlFilter ''/a'' [])], hd_handlers = [''A''], hd_poolName = ''p'', hd_id = ''1''\<rparr>,
       \<lparr>hd_selectors = [(''param'', ParamFilter ''x'' ''1'')], hd_handlers = [''B''], hd_poolName = ''p'', hd_id = ''2''\<rparr>],
     hs_defaultPoolName = ''p''\<rparr>"

theorem routing_correct_witness:
  "findURIHandler (=) demo_set ((request_new :: (unit, unit) request)\<lparr>rq_args := [(''x'', ''1'')]\<rparr>) =
     Inr (Some \<lparr>hd_selectors = [(''param'', ParamFilter ''x'' ''1'')], hd_handlers = [''B''], hd_poolName = ''p'', hd_id = ''2''\<rparr>) \<and>
   findURIFilters (=) demo_set ((request_new :: (unit, unit) request)\<lparr>rq_args := [(''x'', ''1'')]\<rparr>) [] = Inr [''auth'']"
proof -
  let ?r = "(request_new :: (unit, unit) request)\<lparr>rq_args := [(''x'', ''1'')]\<rparr>"
  have "handler_set_ok demo_set" by (simp add: handler_set_ok_def demo_set_def selectors_ok_def)
  moreover have "getServerPort ?r = Inr 80" by (simp add: getServerPort_def map_get_def request_new_def reset_def)
  ultimately show ?thesis
    using routing_correct [of demo_set ?r 80 "(=)" "[]"]
    by (simp add: demo_set_def checkUrl_def regex_check_def getScriptName_def map_get_def request_new_def reset_def
      hasArg_def getArg_def)
qed

section \<open>What initialisation establishes\<close>

lemma add_selector_ok:
  assumes "add_selector cfg k attr name mk sel = Inr sel'" "selectors_ok sel" "\<And>s. selector_kind (mk s) = name"
  shows "selectors_ok sel'"
  using assms by (auto simp: add_selector_def selectors_ok_def rbind_eq_Inr_conv split: if_splits)

lemma add_params_ok: "add_params cfg q sel = Inr sel' \<Longrightarrow> selectors_ok sel \<Longrightarrow> selectors_ok sel'"
proof (induction cfg q sel rule: add_params.induct)
  case (2 cfg it q sel)
  then show ?case by (fastforce simp: rbind_eq_Inr_conv selectors_ok_def split: if_splits)
qed simp

lemma read_selectors_ok: "read_selectors cfg url_prefix k = Inr sel \<Longrightarrow> selectors_ok sel"
  unfolding read_selectors_def rbind_eq_Inr_conv
  by (elim exE conjE, rule add_params_ok, assumption, (erule add_selector_ok)+) (simp_all add: selectors_ok_def)

lemma initInternal_ok: "initInternal cfg lookup url_prefix v hs = Inr hs' \<Longrightarrow> handler_set_ok hs \<Longrightarrow> handler_set_ok hs'"
proof (induction cfg lookup url_prefix v hs rule: initInternal.induct)
  case (2 cfg lookup url_prefix k v hs)
  then show ?case
    by (auto simp: rbind_eq_Inr_conv handler_set_ok_def dest!: read_selectors_ok)
qed simp

lemma init_filters_ok: "init_filters cfg lookup url_prefix v hs = Inr hs' \<Longrightarrow> handler_set_ok hs \<Longrightarrow> handler_set_ok hs'"
proof (induction cfg lookup url_prefix v hs rule: init_filters.induct)
  case (2 cfg lookup url_prefix k v hs)
  then show ?case
    by (auto simp: rbind_eq_Inr_conv handler_set_ok_def dest!: read_selectors_ok)
qed simp

lemma handler_set_init_ok: "handler_set_init cfg lookup handler_set_new = Inr hs \<Longrightarrow> handler_set_ok hs"
  unfolding handler_set_init_def rbind_eq_Inr_conv
  by (elim exE conjE, erule init_filters_ok, (erule initInternal_ok)+) (simp add: handler_set_ok_def handler_set_new_def)

end
