(* ===== verification/ThreadPools.thy ===== *)
theory ThreadPools
  imports Dates "HOL-Library.Multiset"
begin

text \<open>
  The thread pool (\<^verbatim>\<open>include/details/thread_pool.h\<close>): a bounded queue of tasks, worker threads that
  take tasks from it under one mutex, and a condition variable. A critical section of the source is
  one step here. The states of a worker are the places of \<^verbatim>\<open>workMethod\<close> at which it does not hold the
  mutex. Two ghost lists record which tasks were accepted and in which order they were started.
\<close>

section \<open>State\<close>

record pool_info =
  pi_started :: bool
  pi_threadsNumber :: u64
  pi_queueLength :: u64
  pi_busy :: u64
  pi_currentQueue :: u64
  pi_good :: u64
  pi_bad :: u64

text \<open>The local variable \<^verbatim>\<open>state\<close> of a worker.\<close>

datatype work_state = WNone | WGood | WBad

datatype 't worker =
  Starting
| AtLock work_state
| Waiting
| Handling 't
| Exited

record 't pool =
  tp_info :: pool_info
  tp_queue :: "'t list"
  tp_workers :: "'t worker list"
  tp_accepted :: "'t list"
  tp_taken :: "'t list"

definition pool_new :: "u32 \<Rightarrow> u32 \<Rightarrow> 't pool" where
  "pool_new threadsNumber queueLength =
     \<lparr>tp_info = \<lparr>pi_started = False, pi_threadsNumber = ucast threadsNumber, pi_queueLength = ucast queueLength,
        pi_busy = 0, pi_currentQueue = 0, pi_good = 0, pi_bad = 0\<rparr>,
      tp_queue = [], tp_workers = [], tp_accepted = [], tp_taken = []\<rparr>"

section \<open>Operations\<close>

definition pool_start :: "'t pool \<Rightarrow> 't pool" where
  "pool_start p =
     (if pi_started (tp_info p) then p
      else p\<lparr>tp_workers := tp_workers p @ replicate (unat (pi_threadsNumber (tp_info p))) Starting,
             tp_info := (tp_info p)\<lparr>pi_started := True\<rparr>\<rparr>)"

text \<open>A notified worker leaves the wait and looks at the pool again.\<close>

fun wake :: "'t worker \<Rightarrow> 't worker" where
  "wake Waiting = AtLock WNone"
| "wake w = w"

definition pool_stop :: "'t pool \<Rightarrow> 't pool" where
  "pool_stop p = p\<lparr>tp_info := (tp_info p)\<lparr>pi_started := False\<rparr>, tp_workers := map wake (tp_workers p)\<rparr>"

text \<open>\<^verbatim>\<open>notify_one\<close> wakes one waiting worker, any one, if there is one.\<close>

inductive notify_one :: "'t worker list \<Rightarrow> 't worker list \<Rightarrow> bool" where
  nobody: "Waiting \<notin> set ws \<Longrightarrow> notify_one ws ws"
| somebody: "i < length ws \<Longrightarrow> ws ! i = Waiting \<Longrightarrow> notify_one ws (ws[i := AtLock WNone])"

text \<open>The critical section of \<^verbatim>\<open>addTask\<close>.\<close>

definition pool_addTask :: "'t \<Rightarrow> 't pool \<Rightarrow> 't pool result" where
  "pool_addTask task p =
     (if \<not> pi_started (tp_info p) then Inl (RuntimeError ''Thread pool is not started yet'')
      else if of_nat (length (tp_queue p)) \<ge> pi_queueLength (tp_info p)
      then Inl (RuntimeError (''Pool::handle: the queue has already reached its maximum size of '' @
             show_nat (unat (pi_queueLength (tp_info p))) @ '' elements''))
      else Inr (p\<lparr>tp_queue := tp_queue p @ [task], tp_accepted := tp_accepted p @ [task]\<rparr>))"

definition pool_getInfo :: "'t pool \<Rightarrow> pool_info \<times> 't pool" where
  "pool_getInfo p =
     (let info = (tp_info p)\<lparr>pi_currentQueue := of_nat (length (tp_queue p))\<rparr> in (info, p\<lparr>tp_info := info\<rparr>))"

text \<open>The critical section of \<^verbatim>\<open>workMethod\<close> up to the wait, the return or the end of the block.\<close>

definition count_task :: "work_state \<Rightarrow> pool_info \<Rightarrow> pool_info" where
  "count_task st info =
     (case st of
        WNone \<Rightarrow> info
      | WGood \<Rightarrow> info\<lparr>pi_good := pi_good info + 1, pi_busy := pi_busy info - 1\<rparr>
      | WBad \<Rightarrow> info\<lparr>pi_bad := pi_bad info + 1, pi_busy := pi_busy info - 1\<rparr>)"

definition work_locked :: "nat \<Rightarrow> work_state \<Rightarrow> 't pool \<Rightarrow> 't pool" where
  "work_locked i st p =
     (let p = p\<lparr>tp_info := count_task st (tp_info p)\<rparr>
      in if \<not> pi_started (tp_info p) then p\<lparr>tp_workers := (tp_workers p)[i := Exited]\<rparr>
         else case tp_queue p of
                [] \<Rightarrow> p\<lparr>tp_workers := (tp_workers p)[i := Waiting]\<rparr>
              | task # rest \<Rightarrow>
                  p\<lparr>tp_queue := rest, tp_taken := tp_taken p @ [task],
                    tp_info := (tp_info p)\<lparr>pi_busy := pi_busy (tp_info p) + 1\<rparr>,
                    tp_workers := (tp_workers p)[i := Handling task]\<rparr>)"

text \<open>The steps of one worker: the initial function returns or throws, the lock is taken, a wait ends
  without a notification, the task is handled with or without an exception.\<close>

inductive worker_step :: "'t pool \<Rightarrow> 't pool \<Rightarrow> bool" where
  initialised: "i < length (tp_workers p) \<Longrightarrow> tp_workers p ! i = Starting \<Longrightarrow>
    worker_step p (p\<lparr>tp_workers := (tp_workers p)[i := AtLock WNone]\<rparr>)"
| locked: "i < length (tp_workers p) \<Longrightarrow> tp_workers p ! i = AtLock st \<Longrightarrow> worker_step p (work_locked i st p)"
| handled: "i < length (tp_workers p) \<Longrightarrow> tp_workers p ! i = Handling task \<Longrightarrow> st \<in> {WGood, WBad} \<Longrightarrow>
    worker_step p (p\<lparr>tp_workers := (tp_workers p)[i := AtLock st]\<rparr>)"

inductive pool_step :: "'t pool \<Rightarrow> 't pool \<Rightarrow> bool" where
  start: "pool_step p (pool_start p)"
| stop: "pool_step p (pool_stop p)"
| add: "pool_addTask task p = Inr p' \<Longrightarrow> notify_one (tp_workers p') ws \<Longrightarrow> pool_step p (p'\<lparr>tp_workers := ws\<rparr>)"
| reject: "pool_addTask task p = Inl e \<Longrightarrow> notify_one (tp_workers p) ws \<Longrightarrow> pool_step p (p\<lparr>tp_workers := ws\<rparr>)"
| info: "pool_step p (snd (pool_getInfo p))"
| spurious: "i < length (tp_workers p) \<Longrightarrow> tp_workers p ! i = Waiting \<Longrightarrow>
    pool_step p (p\<lparr>tp_workers := (tp_workers p)[i := AtLock WNone]\<rparr>)"
| work: "worker_step p p' \<Longrightarrow> pool_step p p'"

inductive pool_reachable :: "u32 \<Rightarrow> u32 \<Rightarrow> 't pool \<Rightarrow> bool" for n q where
  init: "pool_reachable n q (pool_new n q)"
| step: "pool_reachable n q p \<Longrightarrow> pool_step p p' \<Longrightarrow> pool_reachable n q p'"

inductive_cases notify_oneE: "notify_one ws ws'"
inductive_cases worker_stepE: "worker_step p p'"

section \<open>The invariant\<close>

fun busy_worker :: "'t worker \<Rightarrow> u64" where
  "busy_worker (Handling _) = 1"
| "busy_worker (AtLock WGood) = 1"
| "busy_worker (AtLock WBad) = 1"
| "busy_worker _ = 0"

definition busy_workers :: "'t worker list \<Rightarrow> u64" where
  "busy_workers ws = sum_list (map busy_worker ws)"

text \<open>A worker that will look at the queue without being notified.\<close>

fun active_worker :: "'t worker \<Rightarrow> bool" where
  "active_worker Waiting = False"
| "active_worker Exited = False"
| "active_worker _ = True"

text \<open>The tasks are taken in the order they were accepted, within the bound; the counters add up.\<close>

definition pool_accounts :: "'t pool \<Rightarrow> bool" where
  "pool_accounts p \<longleftrightarrow>
     tp_accepted p = tp_taken p @ tp_queue p \<and>
     length (tp_queue p) \<le> unat (pi_queueLength (tp_info p)) \<and>
     pi_busy (tp_info p) = busy_workers (tp_workers p) \<and>
     pi_good (tp_info p) + pi_bad (tp_info p) + pi_busy (tp_info p) = of_nat (length (tp_taken p))"

text \<open>No wake-up is lost.\<close>

definition pool_awake :: "'t pool \<Rightarrow> bool" where
  "pool_awake p \<longleftrightarrow>
     (\<not> pi_started (tp_info p) \<longrightarrow> Waiting \<notin> set (tp_workers p)) \<and>
     (tp_queue p \<noteq> [] \<longrightarrow> Waiting \<in> set (tp_workers p) \<longrightarrow> (\<exists>w \<in> set (tp_workers p). active_worker w))"

definition pool_inv :: "'t pool \<Rightarrow> bool" where
  "pool_inv p \<longleftrightarrow> pool_accounts p \<and> pool_awake p \<and> unat (pi_queueLength (tp_info p)) < 2 ^ 32"

lemma sum_list_update_group:
  fixes f :: "'a \<Rightarrow> 'b :: ab_group_add"
  shows "i < length xs \<Longrightarrow> sum_list (map f (xs[i := x])) = sum_list (map f xs) - f (xs ! i) + f x"
  by (induction xs arbitrary: i) (auto simp: nth_Cons split: nat.splits)

lemma busy_workers_update [simp]:
  "i < length ws \<Longrightarrow> busy_workers (ws[i := w]) = busy_workers ws - busy_worker (ws ! i) + busy_worker w"
  unfolding busy_workers_def by (rule sum_list_update_group)

lemma busy_workers_append [simp]: "busy_workers (ws @ vs) = busy_workers ws + busy_workers vs"
  by (simp add: busy_workers_def)

lemma busy_worker_wake [simp]: "busy_worker (wake w) = busy_worker w"
  by (cases w rule: wake.cases) simp_all

lemma busy_workers_wake [simp]: "busy_workers (map wake ws) = busy_workers ws"
  by (simp add: busy_workers_def comp_def)

lemma busy_workers_replicate [simp]: "busy_workers (replicate n Starting) = 0"
  by (induction n) (simp_all add: busy_workers_def)

lemma notify_one_busy: "notify_one ws ws' \<Longrightarrow> busy_workers ws' = busy_workers ws"
  by (erule notify_oneE) simp_all

lemma Waiting_update: "Waiting \<in> set (ws[i := w]) \<Longrightarrow> w \<noteq> Waiting \<Longrightarrow> Waiting \<in> set ws"
  using set_update_subset_insert [of ws i w] by auto

lemma active_update: "i < length ws \<Longrightarrow> active_worker w \<Longrightarrow> \<exists>v \<in> set (ws[i := w]). active_worker v"
  by (intro bexI [of _ w] set_update_memI)

lemma notify_one_Waiting: "notify_one ws ws' \<Longrightarrow> Waiting \<in> set ws' \<Longrightarrow> Waiting \<in> set ws"
  by (erule notify_oneE) (auto dest: Waiting_update)

lemma notify_one_active: "notify_one ws ws' \<Longrightarrow> Waiting \<in> set ws \<Longrightarrow> \<exists>w \<in> set ws'. active_worker w"
  by (erule notify_oneE) (auto intro!: active_update)

named_theorems pool_defs \<open>the operations of the thread pool\<close>

lemmas pool_ops [pool_defs] = pool_start_def pool_stop_def pool_addTask_def pool_getInfo_def work_locked_def count_task_def

lemma start_inv: "pool_inv p \<Longrightarrow> pool_inv (pool_start p)"
  by (auto simp: pool_start_def pool_inv_def pool_accounts_def pool_awake_def)

lemma stop_inv: "pool_inv p \<Longrightarrow> pool_inv (pool_stop p)"
proof -
  assume inv: "pool_inv p"
  have "Waiting \<noteq> wake w" for w :: "'a worker" by (cases w rule: wake.cases) simp_all
  then have "Waiting \<notin> wake ` set (tp_workers p)" by blast
  then show "pool_inv (pool_stop p)"
    using inv by (auto simp: pool_stop_def pool_inv_def pool_accounts_def pool_awake_def)
qed

lemma notify_inv:
  assumes "pool_accounts p" "unat (pi_queueLength (tp_info p)) < 2 ^ 32" "notify_one (tp_workers p) ws"
    and "\<not> pi_started (tp_info p) \<longrightarrow> Waiting \<notin> set (tp_workers p)"
  shows "pool_inv (p\<lparr>tp_workers := ws\<rparr>)"
  using assms notify_one_busy [OF assms(3)] notify_one_Waiting [OF assms(3)] notify_one_active [OF assms(3)]
  by (auto simp: pool_inv_def pool_accounts_def pool_awake_def)

lemma addTask_accounts:
  assumes "pool_inv p" "pool_addTask task p = Inr p'"
  shows "pool_accounts p'" "pi_queueLength (tp_info p') = pi_queueLength (tp_info p)" "tp_workers p' = tp_workers p"
    "pi_started (tp_info p')"
proof -
  have l: "length (tp_queue p) < 2 ^ 32" using assms(1) by (simp add: pool_inv_def pool_accounts_def)
  then have "unat (of_nat (length (tp_queue p)) :: u64) = length (tp_queue p)" by (intro unat_of_nat_u64) simp
  then show "pool_accounts p'" using assms
    by (auto simp: pool_inv_def pool_accounts_def pool_addTask_def word_le_nat_alt split: if_splits)
  show "pi_queueLength (tp_info p') = pi_queueLength (tp_info p)" "tp_workers p' = tp_workers p" "pi_started (tp_info p')"
    using assms(2) by (auto simp: pool_addTask_def split: if_splits)
qed

lemma work_locked_accounts:
  assumes "pool_accounts p" "i < length (tp_workers p)" "tp_workers p ! i = AtLock st"
  shows "pool_accounts (work_locked i st p)"
  using assms
  by (cases st; cases "tp_queue p") (auto simp: pool_accounts_def work_locked_def count_task_def Let_def add.assoc)

lemma work_locked_awake:
  assumes "pool_awake p" "i < length (tp_workers p)" "tp_workers p ! i = AtLock st"
  shows "pool_awake (work_locked i st p)"
proof -
  have [simp]: "pi_started (count_task st (tp_info p)) = pi_started (tp_info p)" by (cases st) (simp_all add: count_task_def)
  show ?thesis
    using assms active_update [OF assms(2)]
    by (cases "tp_queue p") (auto simp: pool_awake_def work_locked_def Let_def dest: Waiting_update)
qed

lemma worker_step_inv: "worker_step p p' \<Longrightarrow> pool_inv p \<Longrightarrow> pool_inv p'"
proof (induction rule: worker_step.induct)
  case (initialised i p)
  then show ?case using active_update [OF initialised(1)]
    by (auto simp: pool_inv_def pool_accounts_def pool_awake_def dest: Waiting_update)
next
  case (locked i p st)
  moreover have "pi_queueLength (tp_info (work_locked i st p)) = pi_queueLength (tp_info p)"
    by (cases st; cases "tp_queue p") (auto simp: work_locked_def count_task_def Let_def)
  ultimately show ?case by (simp add: pool_inv_def work_locked_accounts work_locked_awake)
next
  case (handled i p task st)
  then show ?case using active_update [OF handled(1)]
    by (auto simp: pool_inv_def pool_accounts_def pool_awake_def dest: Waiting_update)
qed

lemma pool_step_inv: "pool_step p p' \<Longrightarrow> pool_inv p \<Longrightarrow> pool_inv p'"
proof (induction rule: pool_step.induct)
  case (add task p p' ws)
  then show ?case
    using addTask_accounts [OF add(3,1)] by (intro notify_inv) (simp_all add: pool_inv_def)
next
  case (reject task p e ws)
  then show ?case by (intro notify_inv) (simp_all add: pool_inv_def pool_awake_def)
next
  case (info p)
  then show ?case by (auto simp: pool_getInfo_def Let_def pool_inv_def pool_accounts_def pool_awake_def)
next
  case (spurious i p)
  then show ?case using active_update [OF spurious(1)]
    by (auto simp: pool_inv_def pool_accounts_def pool_awake_def dest: Waiting_update)
qed (simp_all add: start_inv stop_inv worker_step_inv)

lemma pool_reachable_inv: "pool_reachable n q p \<Longrightarrow> pool_inv p"
proof (induction rule: pool_reachable.induct)
  case init
  have "unat (ucast q :: u64) < 2 ^ 32" using unsigned_less [of q, where ?'a = nat] by (simp add: unsigned_ucast_eq take_bit_nat_eq_self)
  then show ?case by (simp add: pool_new_def pool_inv_def pool_accounts_def pool_awake_def busy_workers_def)
qed (rule pool_step_inv)

section \<open>What the pool promises\<close>

lemma pool_step_const: "pool_step p p' \<Longrightarrow> pi_queueLength (tp_info p') = pi_queueLength (tp_info p)"
proof (induction rule: pool_step.induct)
  case (work p p')
  then show ?case
    by (induction rule: worker_step.induct)
      (auto simp: work_locked_def count_task_def Let_def split: list.splits work_state.splits)
qed (auto simp: pool_start_def pool_stop_def pool_addTask_def pool_getInfo_def Let_def split: if_splits)

lemma pool_reachable_const: "pool_reachable n q p \<Longrightarrow> pi_queueLength (tp_info p) = ucast q"
  by (induction rule: pool_reachable.induct) (simp_all add: pool_new_def pool_step_const)

text \<open>
  C16. In every reachable state of the pool, whatever the threads do: the tasks were started in the
  order in which they were accepted and the others are still in the queue, the queue is within its
  configured length, the busy counter is the number of workers with a task, and the good, bad and
  busy tasks add up to the number of started tasks.
\<close>

theorem pool_tasks_accounted:
  assumes "pool_reachable n q p"
  shows "tp_accepted p = tp_taken p @ tp_queue p \<and> length (tp_queue p) \<le> unat q \<and>
    pi_busy (tp_info p) = busy_workers (tp_workers p) \<and>
    pi_good (tp_info p) + pi_bad (tp_info p) + pi_busy (tp_info p) = of_nat (length (tp_taken p))"
proof -
  have "unat (ucast q :: u64) = unat q"
    using unsigned_less [of q, where ?'a = nat] by (simp add: unsigned_ucast_eq take_bit_nat_eq_self)
  then show ?thesis
    using pool_reachable_inv [OF assms] pool_reachable_const [OF assms] by (auto simp: pool_inv_def pool_accounts_def)
qed

theorem pool_tasks_accounted_witness:
  "tp_accepted (pool_start (pool_new 2 8)) = ([] :: nat list) @ [] \<and> length (tp_queue (pool_start (pool_new 2 8 :: nat pool))) \<le> 8"
proof -
  have "pool_reachable 2 8 (pool_start (pool_new 2 8 :: nat pool))"
    by (rule pool_reachable.step [OF pool_reachable.init pool_step.start])
  from pool_tasks_accounted [OF this] show ?thesis by (simp add: pool_start_def pool_new_def)
qed

lemma active_worker_steps:
  assumes "w \<in> set (tp_workers p)" "active_worker w"
  shows "\<exists>p'. worker_step p p'"
proof -
  obtain i where i: "i < length (tp_workers p)" "tp_workers p ! i = w" using assms(1) by (auto simp: in_set_conv_nth)
  show ?thesis
  proof (cases w)
    case Starting
    then show ?thesis using worker_step.initialised i by blast
  next
    case (AtLock st)
    then show ?thesis using worker_step.locked i by blast
  next
    case (Handling task)
    then show ?thesis using worker_step.handled [of i p task WGood] i by blast
  qed (use assms(2) in simp_all)
qed


text \<open>A pool of one thread that has taken a look at the empty queue and waits, and then gets a task.\<close>

definition waiting_pool :: "nat pool" where
  "waiting_pool = \<lparr>tp_info = \<lparr>pi_started = True, pi_threadsNumber = 1, pi_queueLength = 4, pi_busy = 0,
     pi_currentQueue = 0, pi_good = 0, pi_bad = 0\<rparr>, tp_queue = [], tp_workers = [Waiting], tp_accepted = [], tp_taken = []\<rparr>"

lemma waiting_pool_reachable: "pool_reachable 1 4 waiting_pool"
proof -
  let ?p = "pool_start (pool_new 1 4) :: nat pool" and ?q = "(pool_start (pool_new 1 4) :: nat pool)\<lparr>tp_workers := [AtLock WNone]\<rparr>"
  have w: "tp_workers ?p = [Starting]" by (simp add: pool_start_def pool_new_def)
  have "worker_step ?p (?p\<lparr>tp_workers := (tp_workers ?p)[0 := AtLock WNone]\<rparr>)"
    by (rule worker_step.initialised) (simp_all add: w)
  then have "worker_step ?p ?q" by (simp add: w)
  moreover have "worker_step ?q (work_locked 0 WNone ?q)" by (rule worker_step.locked) simp_all
  moreover have "work_locked 0 WNone ?q = waiting_pool"
    by (simp add: work_locked_def count_task_def pool_start_def pool_new_def waiting_pool_def)
  moreover have "pool_reachable 1 4 ?p" by (rule pool_reachable.step [OF pool_reachable.init pool_step.start])
  ultimately show ?thesis by (metis pool_reachable.step pool_step.work)
qed


fun steps_left :: "'t worker \<Rightarrow> nat" where
  "steps_left Starting = 2"
| "steps_left (Handling _) = 2"
| "steps_left (AtLock _) = 1"
| "steps_left _ = 0"

definition all_steps_left :: "'t pool \<Rightarrow> nat" where
  "all_steps_left p = sum_list (map steps_left (tp_workers p))"

lemma steps_left_update:
  "i < length ws \<Longrightarrow> sum_list (map steps_left (ws[i := w])) + steps_left (ws ! i) = sum_list (map steps_left ws) + steps_left w"
  by (induction ws arbitrary: i) (auto simp: nth_Cons split: nat.splits)

lemma stopped_step:
  assumes "worker_step p p'" "\<not> pi_started (tp_info p)" "Waiting \<notin> set (tp_workers p)"
  shows "Suc (all_steps_left p') = all_steps_left p" "\<not> pi_started (tp_info p')" "Waiting \<notin> set (tp_workers p')"
    "tp_taken p' = tp_taken p" "length (tp_workers p') = length (tp_workers p)"
proof -
  have st: "pi_started (count_task st info) = pi_started info" for st info by (cases st) (simp_all add: count_task_def)
  have "Suc (all_steps_left p') = all_steps_left p \<and> \<not> pi_started (tp_info p') \<and> Waiting \<notin> set (tp_workers p') \<and>
      tp_taken p' = tp_taken p \<and> length (tp_workers p') = length (tp_workers p)"
    using assms
  proof (induction rule: worker_step.induct)
    case (initialised i p)
    then show ?case using steps_left_update [OF initialised(1), of "AtLock WNone"]
      by (auto simp: all_steps_left_def dest: Waiting_update)
  next
    case (locked i p s)
    then show ?case using steps_left_update [OF locked(1), of Exited]
      by (auto simp: all_steps_left_def work_locked_def Let_def st dest: Waiting_update)
  next
    case (handled i p task s)
    then show ?case using steps_left_update [OF handled(1), of "AtLock s"]
      by (auto simp: all_steps_left_def dest: Waiting_update)
  qed
  then show "Suc (all_steps_left p') = all_steps_left p" "\<not> pi_started (tp_info p')" "Waiting \<notin> set (tp_workers p')"
    "tp_taken p' = tp_taken p" "length (tp_workers p') = length (tp_workers p)" by simp_all
qed

lemma stopped_steps:
  assumes "(worker_step ^^ k) p p'" "\<not> pi_started (tp_info p)" "Waiting \<notin> set (tp_workers p)"
  shows "k + all_steps_left p' = all_steps_left p \<and> Waiting \<notin> set (tp_workers p') \<and> tp_taken p' = tp_taken p \<and>
    \<not> pi_started (tp_info p')"
  using assms
proof (induction k arbitrary: p')
  case (Suc k)
  then obtain p1 where p1: "(worker_step ^^ k) p p1" "worker_step p1 p'" by auto
  show ?case using Suc.IH [OF p1(1) Suc.prems(2,3)] stopped_step [OF p1(2)] by auto
qed simp

lemma all_steps_left_le: "all_steps_left p \<le> 2 * length (tp_workers p)"
proof -
  have two: "steps_left w \<le> 2" for w :: "'a worker" by (cases w) simp_all
  have "sum_list (map steps_left ws) \<le> 2 * length ws" for ws :: "'a worker list"
  proof (induction ws)
    case (Cons w ws)
    then show ?case using two [of w] by simp
  qed simp
  then show ?thesis by (simp add: all_steps_left_def)
qed

text \<open>
  After \<^verbatim>\<open>stop\<close>, the workers end and \<^verbatim>\<open>join\<close> returns: as long as the pool is not started again, they
  take at most two steps each and start no task, and when none of them can make a step, all have
  ended.
\<close>

theorem pool_stop_ends_workers:
  assumes "pool_reachable n q p" "\<not> pi_started (tp_info p)" "(worker_step ^^ k) p p'"
  shows "k \<le> 2 * length (tp_workers p) \<and> tp_taken p' = tp_taken p \<and>
    ((\<nexists>p''. worker_step p' p'') \<longrightarrow> set (tp_workers p') \<subseteq> {Exited})"
proof -
  have w: "Waiting \<notin> set (tp_workers p)"
    using pool_reachable_inv [OF assms(1)] assms(2) by (simp add: pool_inv_def pool_awake_def)
  note s = stopped_steps [OF assms(3,2) w]
  have "set (tp_workers p') \<subseteq> {Exited}" if "\<nexists>p''. worker_step p' p''"
  proof
    fix v assume v: "v \<in> set (tp_workers p')"
    then have "\<not> active_worker v" using active_worker_steps that by blast
    then show "v \<in> {Exited}" using v s by (cases v) auto
  qed
  then show ?thesis using s all_steps_left_le [of p] by auto
qed

theorem pool_stop_ends_workers_witness:
  "1 \<le> 2 * length (tp_workers (pool_stop waiting_pool)) \<and>
   tp_taken ((pool_stop waiting_pool)\<lparr>tp_workers := [Exited]\<rparr>) = tp_taken (pool_stop waiting_pool)"
proof -
  let ?p = "pool_stop waiting_pool"
  have "pool_reachable 1 4 ?p" by (rule pool_reachable.step [OF waiting_pool_reachable pool_step.stop])
  moreover have "worker_step ?p (work_locked 0 WNone ?p)"
    by (rule worker_step.locked) (simp_all add: pool_stop_def waiting_pool_def)
  moreover have "work_locked 0 WNone ?p = ?p\<lparr>tp_workers := [Exited]\<rparr>"
    by (simp add: work_locked_def count_task_def pool_stop_def waiting_pool_def)
  moreover have "(worker_step ^^ 1) ?p (?p\<lparr>tp_workers := [Exited]\<rparr>)"
    using calculation(2,3) by (simp only: relpowp_1)
  moreover have "\<not> pi_started (tp_info ?p)" by (simp add: pool_stop_def)
  ultimately show ?thesis
    using pool_stop_ends_workers [of 1 4 ?p 1 "?p\<lparr>tp_workers := [Exited]\<rparr>"] by blast
qed

end
