(* ===== verification/Parsers.thy ===== *)
theory Parsers
  imports Requests
begin

text \<open>
  The functions of \<^verbatim>\<open>library/parser.cpp\<close> that fill a request: the CGI environment, the cookie header,
  and multipart messages.
\<close>

section \<open>Environment and cookies\<close>

definition addCookie :: "('s, 'u) request \<Rightarrow> range \<Rightarrow> ('s, 'u) request" where
  "addCookie req r =
     (let tmp = rg_trim r; (_, head, tail) = rg_split_char tmp (CHR ''='')
      in if \<not> rg_empty head
         then req\<lparr>rq_cookies := om_assign string_lt (urldecode head) (urldecode tail) (rq_cookies req)\<rparr>
         else req)"

definition addHeader :: "('s, 'u) request \<Rightarrow> range \<Rightarrow> range \<Rightarrow> ('s, 'u) request" where
  "addHeader req key val =
     req\<lparr>rq_headers := om_assign StringCILess (normalizeInputHeaderName key) (rg_str val) (rq_headers req)\<rparr>"

function parseCookies_loop :: "('s, 'u) request \<Rightarrow> range \<Rightarrow> ('s, 'u) request" where
  "parseCookies_loop req tmp =
     (if rg_empty tmp then req
      else
        let (_, head, tail) = rg_split tmp ''; ''
        in parseCookies_loop (addCookie req head) (rg_trim tail))"
  by pat_completeness auto
termination
  by (relation "measure (\<lambda>(q, r). rg_len r)")
    (auto simp: rg_empty_def dest!: rg_split_less [OF sym] intro: le_less_trans [OF rg_trim_len])

declare parseCookies_loop.simps [simp del]

definition parseCookies :: "('s, 'u) request \<Rightarrow> range \<Rightarrow> ('s, 'u) request" where
  "parseCookies req r = parseCookies_loop req (rg_trim r)"

definition parse_env_entry :: "('s, 'u) request \<Rightarrow> string \<Rightarrow> ('s, 'u) request" where
  "parse_env_entry req e =
     (let (_, key, val) = rg_split_char (rg_fromString (c_str e)) (CHR ''='')
      in if rg_eq key ''HTTP_COOKIE'' then
           addHeader (parseCookies req val) (rg_trimn key 5 0) (rg_trim val)
         else if rg_eq key ''CONTENT_TYPE'' then addHeader req key (rg_trim val)
         else if rg_eq key ''CONTENT_LENGTH'' then addHeader req key (rg_trim val)
         else if rg_startsWith key ''HTTP_'' then addHeader req (rg_trimn key 5 0) (rg_trim val)
         else req\<lparr>rq_vars := om_assign string_lt (rg_str key) (rg_str val) (rq_vars req)\<rparr>)"

definition parse_env :: "('s, 'u) request \<Rightarrow> string list \<Rightarrow> ('s, 'u) request" where
  "parse_env req env = foldl parse_env_entry req env"

section \<open>Multipart messages\<close>

text \<open>The three fields a line of a part can set: name, filename, type.\<close>

type_synonym part_fields = "data_buffer \<times> data_buffer \<times> data_buffer"

definition CRLF :: string where "CRLF = [CHR 0x0D, CHR 0x0A]"
definition LF :: string where "LF = [CHR 0x0A]"

text \<open>One \<^verbatim>\<open>key=value\<close> element of a line.\<close>

definition parseLine_element :: "data_buffer \<Rightarrow> data_buffer \<Rightarrow> part_fields \<Rightarrow> part_fields result" where
  "parseLine_element key val = (\<lambda>(name, filename, type).
     rbind (if db_size key = 4 then db_startsWith key ''name'' else Inr False) (\<lambda>b1.
       if b1 then Inr (db_trimn val 1 1, filename, type)
       else rbind (if db_size key = 8 then db_startsWith key ''filename'' else Inr False) (\<lambda>b2.
         if b2 then Inr (name, db_trimn val 1 1, type)
         else rbind (if db_size key = 12 then db_startsWithCI key ''CONTENT_TYPE'' else Inr False) (\<lambda>b3.
           if b3 then rbind (db_trim val) (\<lambda>t. Inr (name, filename, t))
           else Inr (name, filename, type)))))"

definition parseLine_step :: "data_buffer \<Rightarrow> part_fields \<Rightarrow> (data_buffer \<times> part_fields) result" where
  "parseLine_step line fs =
     rbind (db_split_char line (CHR '';'')) (\<lambda>(_, head, tail).
     rbind (db_split_char head (CHR ''='')) (\<lambda>(_, key, val).
     rbind (parseLine_element key val fs) (\<lambda>fs.
     rbind (db_trim tail) (\<lambda>line. Inr (line, fs)))))"

partial_function (option) parseLine :: "data_buffer \<Rightarrow> part_fields \<Rightarrow> part_fields result option" where
  [code]: "parseLine line fs =
     (if db_empty line then Some (Inr fs)
      else case parseLine_step line fs of
             Inl e \<Rightarrow> Some (Inl e)
           | Inr (line, fs) \<Rightarrow> parseLine line fs)"

text \<open>The first line of a buffer: up to CR LF or, if there is none, up to LF.\<close>

definition split_line :: "data_buffer \<Rightarrow> (data_buffer \<times> data_buffer) result" where
  "split_line tail =
     rbind (db_split tail CRLF) (\<lambda>(found, subline, subtail).
       if found then Inr (subline, subtail)
       else rbind (db_split_char tail (CHR 0x0A)) (\<lambda>(_, subline, subtail). Inr (subline, subtail)))"

definition is_continuation :: "data_buffer \<Rightarrow> bool result" where
  "is_continuation subline =
     rbind (db_startsWith subline '' '') (\<lambda>b. if b then Inr True else db_startsWith subline [CHR 0x09])"

text \<open>
  The inner loop of \<^verbatim>\<open>parsePart\<close>: a logical line with its continuation lines, and what follows it.
\<close>

partial_function (option) parsePart_line ::
    "data_buffer \<Rightarrow> data_buffer \<Rightarrow> data_buffer \<Rightarrow> bool \<Rightarrow> (data_buffer \<times> data_buffer) result option" where
  [code]: "parsePart_line part line tail lineFound =
     (if db_empty tail then Some (Inr (line, tail))
      else case split_line tail of
             Inl e \<Rightarrow> Some (Inl e)
           | Inr (subline, subtail) \<Rightarrow>
               (case is_continuation subline of
                  Inl e \<Rightarrow> Some (Inl e)
                | Inr continued \<Rightarrow>
                    if continued then
                      (case db_part part (db_begin line) (db_end subline) of
                         Inl e \<Rightarrow> Some (Inl e)
                       | Inr line \<Rightarrow> parsePart_line part line subtail True)
                    else if lineFound then Some (Inr (line, tail))
                    else parsePart_line part subline subtail True))"

partial_function (option) parsePart_headers ::
    "data_buffer \<Rightarrow> data_buffer \<Rightarrow> part_fields \<Rightarrow> part_fields result option" where
  [code]: "parsePart_headers part headers fs =
     (if db_empty headers then Some (Inr fs)
      else case parsePart_line part db_new headers False of
             None \<Rightarrow> None
           | Some (Inl e) \<Rightarrow> Some (Inl e)
           | Some (Inr (line, tail)) \<Rightarrow>
               (case parseLine line fs of
                  None \<Rightarrow> None
                | Some (Inl e) \<Rightarrow> Some (Inl e)
                | Some (Inr fs) \<Rightarrow> parsePart_headers part tail fs))"

definition parsePart_fields :: "data_buffer \<Rightarrow> (part_fields \<times> data_buffer) result" where
  "parsePart_fields part =
     rbind (db_split part (CRLF @ CRLF)) (\<lambda>(found, headers, content).
     rbind (if found then Inr (headers, content)
            else rbind (db_split part (LF @ LF)) (\<lambda>(_, headers, content). Inr (headers, content)))
       (\<lambda>(headers, content).
         case parsePart_headers part headers (db_new, db_new, db_new) of
           None \<Rightarrow> Inl Diverges
         | Some r \<Rightarrow> rbind r (\<lambda>fs. Inr (fs, content))))"

definition parsePart :: "('s, 'u) request \<Rightarrow> data_buffer \<Rightarrow> ('s, 'u) outcome" where
  "parsePart req part =
     rbind (at_state req (parsePart_fields part)) (\<lambda>((name, filename, type), content).
       if db_empty name then Inr req
       else rbind (at_state req (db_toString name)) (\<lambda>name_str.
         if \<not> db_empty filename
         then rbind (at_state req (file_from_buffers filename type content)) (\<lambda>f.
                Inr (req\<lparr>rq_files := fst (om_insert string_lt name_str f (rq_files req))\<rparr>))
         else rbind (at_state req (db_toString content)) (\<lambda>arg.
                Inr (req\<lparr>rq_args := rq_args req @ [(name_str, arg)]\<rparr>))))"

text \<open>Removing the line breaks around the text between two boundaries.\<close>

definition strip_part :: "data_buffer \<Rightarrow> data_buffer result" where
  "strip_part head =
     rbind (db_endsWith head CRLF) (\<lambda>b1.
     rbind (if b1 then Inr (db_trimn head 0 2)
            else rbind (db_endsWith head LF) (\<lambda>b2.
              if b2 then Inr (db_trimn head 0 1) else Inl (RuntimeError ''malformed multipart message'')))
       (\<lambda>head.
     rbind (db_startsWith head CRLF) (\<lambda>b3.
       if b3 then Inr (db_trimn head 2 0)
       else rbind (db_startsWith head LF) (\<lambda>b4.
         if b4 then Inr (db_trimn head 1 0) else Inl (RuntimeError ''malformed multipart message'')))))"

partial_function (option) parseMultipart_loop ::
    "('s, 'u) request \<Rightarrow> data_buffer \<Rightarrow> string \<Rightarrow> ('s, 'u) outcome option" where
  [code]: "parseMultipart_loop req data boundary =
     (if db_empty data then Some (Inr req)
      else case db_split data boundary of
             Inl e \<Rightarrow> Some (Inl (e, req))
           | Inr (found, head, tail) \<Rightarrow>
               (case (if found \<and> \<not> db_empty head then strip_part head else Inr head) of
                  Inl e \<Rightarrow> Some (Inl (e, req))
                | Inr head \<Rightarrow>
                    (case (if \<not> db_empty head then parsePart req head else Inr req) of
                       Inl e \<Rightarrow> Some (Inl e)
                     | Inr req \<Rightarrow>
                         (case db_startsWith tail ''--'' of
                            Inl e \<Rightarrow> Some (Inl (e, req))
                          | Inr finished \<Rightarrow>
                              if finished then Some (Inr req) else parseMultipart_loop req tail boundary))))"

definition parseMultipart :: "('s, 'u) request \<Rightarrow> data_buffer \<Rightarrow> string \<Rightarrow> ('s, 'u) outcome" where
  "parseMultipart req data boundary =
     (case parseMultipart_loop req data boundary of None \<Rightarrow> Inl (Diverges, req) | Some r \<Rightarrow> r)"

section \<open>Splitting at a text\<close>

lemma std_search_skip_hd:
  "pat \<noteq> [] \<Longrightarrow> hd pat \<notin> set u \<Longrightarrow> length u \<le> n \<Longrightarrow> b + n \<le> length m \<Longrightarrow> slice b (length u) m = u \<Longrightarrow>
   std_search m b n pat = std_search m (b + length u) (n - length u) pat"
proof (induction u arbitrary: b n)
  case (Cons x u)
  obtain n' where n: "n = Suc n'" using Cons.prems(3) by (cases n) auto
  have b: "b < length m" using Cons.prems(4) n by simp
  have x: "m ! b = x" "slice (Suc b) (length u) m = u"
    using Cons.prems(5) b by (simp_all add: slice_Suc)
  obtain p ps where p: "pat = p # ps" using Cons.prems(1) by (cases pat) auto
  have "slice b (length pat) m \<noteq> pat"
    using x(1) Cons.prems(2) b by (auto simp: p slice_Suc)
  then have "std_search m b n pat = std_search m (Suc b) n' pat" by (simp add: n)
  also have "\<dots> = std_search m (Suc b + length u) (n' - length u) pat"
    by (rule Cons.IH) (use Cons.prems n x in simp_all)
  finally show ?case by (simp add: n)
qed simp

lemma str_split_first:
  assumes "delim \<noteq> []" "hd delim \<notin> set u"
  shows "str_split delim (u @ delim @ w) = (True, u, w)"
proof -
  let ?s = "u @ delim @ w"
  have "std_search ?s 0 (length ?s) delim = std_search ?s (length u) (length (delim @ w)) delim"
    using std_search_skip_hd [OF assms, of "length ?s" 0 ?s] by (simp add: slice_def)
  also have "\<dots> = length u"
    using assms(1) by (cases delim) (auto simp: slice_def)
  finally show ?thesis using assms(1) by (simp add: str_split_def Let_def)
qed

lemma str_split_none:
  assumes "delim \<noteq> []" "hd delim \<notin> set u"
  shows "str_split delim u = (False, u, [])"
proof -
  have "std_search u 0 (length u) delim = length u"
    using std_search_skip_hd [OF assms, of "length u" 0 u] by (simp add: slice_def)
  then show ?thesis by (simp add: str_split_def)
qed

lemma rg_split_text:
  assumes "range_ok r" "rg_split r d = (f, a, b)" "d \<noteq> []"
  shows "(f, rg_str a, rg_str b) = str_split d (rg_str r)" "range_ok a" "range_ok b"
proof -
  show "range_ok a" "range_ok b" using subrange_split [OF assms(2)] subrange_ok assms(1) by blast+
  let ?k = "std_search (rg_str r) 0 (rg_len r) d"
  have len: "length (rg_str r) = rg_len r" using assms(1) by simp
  have find: "rg_find r d = rg_begin r + ?k"
    using std_search_slice [of "rg_begin r" "rg_len r" "rg_mem r" 0 "rg_len r" d] assms(1)
    by (simp add: rg_find_search range_ok_def rg_end_def rg_str_def)
  have k: "?k \<le> rg_len r" "?k \<noteq> rg_len r \<Longrightarrow> ?k + length d \<le> rg_len r"
    using std_search_bounds [of 0 "rg_str r" "rg_len r" d] std_search_found [of "rg_str r" 0 "rg_len r" d] by auto
  have tk: "rg_str (r\<lparr>rg_len := j\<rparr>) = take j (rg_str r)" if "j \<le> rg_len r" for j
    using that by (simp add: rg_str_def slice_def min_absorb1)
  have dr: "rg_str (r\<lparr>rg_begin := rg_begin r + j, rg_len := rg_len r - j\<rparr>) = drop j (rg_str r)" for j
    by (simp add: rg_str_def slice_def drop_take add.commute)
  show "(f, rg_str a, rg_str b) = str_split d (rg_str r)"
  proof (cases "?k = rg_len r")
    case True
    then show ?thesis using assms(2) dr [of "rg_len r"] len
      by (auto simp: rg_split_def find doSplit_def Let_def rg_end_def str_split_def)
  next
    case False
    then have "a = r\<lparr>rg_len := ?k\<rparr>"
      "b = r\<lparr>rg_begin := rg_begin r + (?k + length d), rg_len := rg_len r - (?k + length d)\<rparr>" "f"
      using assms(2) k by (auto simp: rg_split_def find doSplit_def Let_def rg_end_def add.assoc)
    then show ?thesis using False len k(1) tk [OF k(1)] dr [of "?k + length d"]
      by (simp add: str_split_def Let_def)
  qed
qed

section \<open>Cookies of a request\<close>

lemma addCookie_text:
  assumes "range_ok r" "cut_first (CHR ''='') (trim_str (rg_str r)) = (k, v)"
  shows "addCookie req r = (if k = [] then req
    else req\<lparr>rq_cookies := om_assign string_lt (urldecode_loop k) (urldecode_loop v) (rq_cookies req)\<rparr>)"
proof -
  obtain f a b where s: "rg_split_char (rg_trim r) (CHR ''='') = (f, a, b)" by (metis prod_cases3)
  note t = rg_split_char_str [OF range_ok_trim [OF assms(1)] s]
  have "rg_str a = k" "rg_str b = v" using assms by (simp_all add: t(2,3) rg_str_trim cut_first_def)
  then show ?thesis using rg_empty_str [OF t(4)] by (simp add: addCookie_def s urldecode_def)
qed

fun cookie_header :: "(string \<times> string) list \<Rightarrow> string" where
  "cookie_header [] = []"
| "cookie_header [(k, v)] = urlencode_string k @ ''='' @ urlencode_string v"
| "cookie_header ((k, v) # e # es) =
     urlencode_string k @ ''='' @ urlencode_string v @ ''; '' @ cookie_header (e # es)"

lemma url_safe_char: "url_unreserved c \<or> c = CHR ''%'' \<Longrightarrow> \<not> isspace c \<and> c \<noteq> CHR '';''"
  by (auto simp: url_unreserved_def isalnum_def isdigit_def isupper_def islower_def isspace_def)

lemma urlencode_no_space: "c \<in> set (urlencode_string s) \<Longrightarrow> \<not> isspace c \<and> c \<noteq> CHR '';''"
  using urlencode_safe url_safe_char by blast

lemma cookie_pair_chars:
  "c \<in> set (urlencode_string k @ ''='' @ urlencode_string v) \<Longrightarrow> \<not> isspace c \<and> c \<noteq> CHR '';''"
  using urlencode_no_space [of c k] urlencode_no_space [of c v] by (auto simp: isspace_def)

lemma cookie_header_trim: "trim_str (cookie_header cs) = cookie_header cs"
proof (rule trim_str_id)
  show "cookie_header cs = [] \<or> \<not> isspace (hd (cookie_header cs)) \<and> \<not> isspace (last (cookie_header cs))"
  proof (induction cs rule: cookie_header.induct)
    case (2 k v)
    have "hd (cookie_header [(k, v)]) \<in> set (urlencode_string k @ ''='' @ urlencode_string v)"
      "last (cookie_header [(k, v)]) \<in> set (urlencode_string k @ ''='' @ urlencode_string v)"
      unfolding cookie_header.simps by (rule hd_in_set last_in_set, simp)+
    then show ?case using cookie_pair_chars by blast
  next
    case (3 k v e es)
    have "hd (cookie_header ((k, v) # e # es)) \<in> set (urlencode_string k @ ''='' @ urlencode_string v)"
      by (cases "urlencode_string k") (simp_all del: urlencode_string_Nil_iff)
    moreover have "cookie_header (e # es) \<noteq> []" by (cases e; cases es) simp_all
    then have "last (cookie_header ((k, v) # e # es)) = last (cookie_header (e # es))" by simp
    ultimately show ?case using 3 cookie_pair_chars \<open>cookie_header (e # es) \<noteq> []\<close> by metis
  qed simp
qed

lemma addCookie_pair:
  assumes "range_ok r" "rg_str r = urlencode_string k @ ''='' @ urlencode_string v" "k \<noteq> []"
  shows "addCookie req r = req\<lparr>rq_cookies := om_assign string_lt k v (rq_cookies req)\<rparr>"
proof -
  have "cut_first (CHR ''='') (trim_str (rg_str r)) = (urlencode_string k, urlencode_string v)"
    using cookie_header_trim [of "[(k, v)]"] cut_first_append [OF urlencode_no_separator(2), of k]
    by (simp add: assms(2))
  from addCookie_text [OF assms(1) this] show ?thesis using assms(3) by simp
qed

lemma parseCookies_loop_header:
  assumes "\<forall>(k, v) \<in> set cs. k \<noteq> []" "range_ok r" "rg_str r = cookie_header cs"
  shows "parseCookies_loop req r =
    req\<lparr>rq_cookies := foldl (\<lambda>m (k, v). om_assign string_lt k v m) (rq_cookies req) cs\<rparr>"
  using assms
proof (induction cs arbitrary: req r rule: cookie_header.induct)
  case 1
  then show ?case by (subst parseCookies_loop.simps) (simp add: rg_empty_str)
next
  case (2 k v)
  obtain f a b where s: "rg_split r ''; '' = (f, a, b)" by (metis prod_cases3)
  have "str_split ''; '' (rg_str r) = (False, rg_str r, [])"
    by (rule str_split_none) (use cookie_pair_chars 2(3) in auto)
  then have t: "rg_str a = rg_str r" "rg_str b = []" "range_ok a" "range_ok b"
    using rg_split_text [OF 2(2) s] by auto
  have ne: "\<not> rg_empty r" using 2 by (simp add: rg_empty_str)
  have e: "rg_empty (rg_trim b)" using t(2,4) by (simp add: rg_empty_str rg_str_trim trim_str_def)
  show ?case using ne e addCookie_pair [OF t(3), of k v] 2(1,3) t(1)
    by (subst parseCookies_loop.simps) (simp add: s parseCookies_loop.simps [of _ "rg_trim b"])
next
  case (3 k v e es)
  obtain f a b where s: "rg_split r ''; '' = (f, a, b)" by (metis prod_cases3)
  have "str_split ''; '' ((urlencode_string k @ ''='' @ urlencode_string v) @ ''; '' @ cookie_header (e # es)) =
      (True, urlencode_string k @ ''='' @ urlencode_string v, cookie_header (e # es))"
    by (rule str_split_first) (use cookie_pair_chars [of _ k v] in auto)
  then have t: "rg_str a = urlencode_string k @ ''='' @ urlencode_string v" "rg_str b = cookie_header (e # es)"
    "range_ok a" "range_ok b"
    using rg_split_text [OF 3(3) s] 3(4) by auto
  have ne: "\<not> rg_empty r" using 3(3,4) by (simp add: rg_empty_str)
  have b: "range_ok (rg_trim b)" "rg_str (rg_trim b) = cookie_header (e # es)"
    using t(2,4) cookie_header_trim [of "e # es"] by (simp_all add: rg_str_trim)
  have "addCookie req a = req\<lparr>rq_cookies := om_assign string_lt k v (rq_cookies req)\<rparr>"
    using addCookie_pair [OF t(3,1)] 3(2) by simp
  then show ?case
    using ne 3(2) 3(1) [OF _ b] by (subst parseCookies_loop.simps) (simp add: s)
qed

text \<open>
  The cookies a client sends are the cookies the request has: from a \<^verbatim>\<open>Cookie\<close> header that lists
  pairs of encoded names and values, every pair is decoded and entered, in order, so that the last
  value for a name is found under it and other cookies are unchanged.
\<close>

theorem parseCookies_roundtrip:
  assumes "\<forall>(k, v) \<in> set cs. k \<noteq> []"
  shows "parseCookies req (rg_fromString (cookie_header cs)) =
    req\<lparr>rq_cookies := foldl (\<lambda>m (k, v). om_assign string_lt k v m) (rq_cookies req) cs\<rparr>"
  unfolding parseCookies_def
  by (rule parseCookies_loop_header [OF assms]) (simp_all add: rg_str_trim cookie_header_trim)

theorem parseCookies_roundtrip_witness:
  "getCookie (parseCookies (request_new :: (unit, unit) request)
     (rg_fromString (cookie_header [(''a'', ''1; 2''), (''b'', ''x'')]))) ''a'' = ''1; 2''"
  using parseCookies_roundtrip [of "[(''a'', ''1; 2''), (''b'', ''x'')]" "request_new :: (unit, unit) request"]
  by (simp add: getCookie_def map_get_def request_new_def reset_def string_lt_def byte_lt_def)

section \<open>The environment\<close>

definition env_name :: "string \<Rightarrow> string" where
  "env_name = map (\<lambda>c. if c = CHR ''_'' then CHR ''-'' else c)"

lemma parse_env_entry_text:
  assumes "CHR 0x00 \<notin> set (k @ ''='' @ v)" "CHR ''='' \<notin> set k"
  shows "\<exists>key val. rg_split_char (rg_fromString (c_str (k @ ''='' @ v))) (CHR ''='') = (True, key, val) \<and>
    range_ok key \<and> range_ok val \<and> rg_str key = k \<and> rg_str val = v"
proof -
  have c: "c_str (k @ ''='' @ v) = k @ ''='' @ v"
    using assms(1) c_str_append [of "k @ ''='' @ v" "[]"] by (simp add: c_str_def)
  obtain f key val where s: "rg_split_char (rg_fromString (k @ ''='' @ v)) (CHR ''='') = (f, key, val)"
    by (metis prod_cases3)
  note t = rg_split_char_str [OF range_ok_fromString s]
  have "cut_first (CHR ''='') (k @ ''='' @ v) = (k, v)" using cut_first_append [OF assms(2)] by simp
  then have "f" "rg_str key = k" "rg_str val = v" using t(1-3) by (simp_all add: cut_first_def)
  then show ?thesis unfolding c using s t(4,5) by auto
qed

lemma addHeader_text:
  "range_ok key \<Longrightarrow> addHeader req key val =
   req\<lparr>rq_headers := om_assign StringCILess (env_name (rg_str key)) (rg_str val) (rq_headers req)\<rparr>"
  by (simp add: addHeader_def normalizeInputHeaderName_text env_name_def)

text \<open>The header a variable stands for.\<close>

definition header_of :: "string \<Rightarrow> string option" where
  "header_of k =
     (if k = ''CONTENT_TYPE'' \<or> k = ''CONTENT_LENGTH'' then Some (env_name k)
      else if take 5 k = ''HTTP_'' then Some (env_name (drop 5 k)) else None)"

lemma parse_env_entry_eq:
  assumes "CHR 0x00 \<notin> set (k @ ''='' @ v)" "CHR ''='' \<notin> set k" "k \<noteq> ''HTTP_COOKIE''"
  shows "parse_env_entry req (k @ ''='' @ v) =
    (case header_of k of
       Some n \<Rightarrow> req\<lparr>rq_headers := om_assign StringCILess n (trim_str v) (rq_headers req)\<rparr>
     | None \<Rightarrow> req\<lparr>rq_vars := om_assign string_lt k v (rq_vars req)\<rparr>)"
proof -
  obtain key val where s: "rg_split_char (rg_fromString (c_str (k @ ''='' @ v))) (CHR ''='') = (True, key, val)"
    "range_ok key" "range_ok val" "rg_str key = k" "rg_str val = v"
    using parse_env_entry_text [OF assms(1,2)] by blast
  have ok: "range_ok (rg_trimn key 5 0)" using subrange_trimn subrange_ok s(2) by blast
  have "rg_len key = length k" using length_rg_str [OF s(2)] s(4) by simp
  then have tn: "rg_str (rg_trimn key 5 0) = drop 5 k"
    using rg_str_trimn [OF s(2), of 5 0] s(4) by simp
  have v: "rg_str (rg_trim val) = trim_str v" using s(3,5) by (simp add: rg_str_trim)
  have st: "rg_startsWith key ''HTTP_'' \<longleftrightarrow> take 5 k = ''HTTP_''" using rg_startsWith_str [OF s(2)] s(4) by (simp add: numeral_eq_Suc)
  have eq: "rg_eq key t \<longleftrightarrow> k = t" for t using rg_eq_str [OF s(2)] s(4) by simp
  show ?thesis
    using assms(3) s(4,5)
    by (simp only: parse_env_entry_def s(1) Let_def prod.case eq st header_of_def addHeader_text [OF ok]
        addHeader_text [OF s(2)] tn v) simp
qed

text \<open>
  A variable of the CGI environment goes where the rest of the program looks for it: a variable
  \<^verbatim>\<open>HTTP_X\<close> other than the cookie is the header \<^verbatim>\<open>X\<close> with hyphens for underscores, and so are the type
  and the length of the content; it is found under every capitalisation, with its value trimmed. A
  variable that is no header is found unchanged under its name. All other headers and variables keep
  their values and the maps stay well-formed.
\<close>

theorem environment_reaches_request:
  assumes "rq_ok req" "CHR 0x00 \<notin> set (k @ ''='' @ v)" "CHR ''='' \<notin> set k" "k \<noteq> ''HTTP_COOKIE''"
    and "r' = parse_env_entry req (k @ ''='' @ v)"
  shows "rq_ok r' \<and>
    getHeader r' h = (case header_of k of Some n \<Rightarrow> if eq_ci h n then trim_str v else getHeader req h
                      | None \<Rightarrow> getHeader req h) \<and>
    getEnvVariable r' x = (if header_of k = None \<and> x = k then v else getEnvVariable req x)"
proof (cases "header_of k")
  case None
  then show ?thesis
    using assms(1) string_order.find_assign [of "rq_vars req" x k v] unfolding assms(5) parse_env_entry_eq [OF assms(2-4)]
    by (simp add: rq_ok_def getHeader_def getEnvVariable_def map_get_def string_order.sorted_assign)
next
  case (Some n)
  then show ?thesis
    using assms(1) ci_order.find_assign [of "rq_headers req" h n "trim_str v"]
    unfolding assms(5) parse_env_entry_eq [OF assms(2-4)]
    by (simp add: rq_ok_def getHeader_def getEnvVariable_def map_get_def ci_order.sorted_assign)
qed

theorem environment_reaches_request_witness:
  "getHeader (parse_env_entry (request_new :: (unit, unit) request) (''HTTP_USER_AGENT'' @ ''='' @ '' curl ''))
     (env_name ''USER_AGENT'') = trim_str '' curl ''"
  using environment_reaches_request [of "request_new :: (unit, unit) request" "''HTTP_USER_AGENT''" "'' curl ''"
      _ "env_name ''USER_AGENT''"]
  by (simp add: header_of_def)

section \<open>Multipart messages on their text\<close>

abbreviation mem :: "data_buffer \<Rightarrow> string \<Rightarrow> bool" where
  "mem d s \<equiv> db_ok d \<and> db_in_memory d \<and> db_text d = s"

lemma mem_new: "mem db_new []"
  by simp

lemma mem_create: "length s < 2 ^ 63 \<Longrightarrow> mem (db_create s) s"
  by (simp add: db_create_def db_create_impl_def db_new_def db_ok_def db_text_def sb_new_def sb_ok_def
      sb_size_def slice_def db_in_memory_def word_le_nat_alt)

lemma mem_split:
  assumes "mem d s" "delim \<noteq> []" "length delim < 2 ^ 62" "str_split delim s = (f, x, y)"
  shows "\<exists>a b. db_split d delim = Inr (f, a, b) \<and> mem a x \<and> mem b y"
proof -
  have ok: "db_ok d" and m: "db_in_memory d" and t: "db_text d = s" using assms(1) by auto
  show ?thesis
    by (rule db_split_text [OF ok assms(2,3)]) (use m t assms(4) in auto)
qed

lemma mem_split_char:
  assumes "mem d s" "cut_first c s = (x, y)"
  shows "\<exists>a b. db_split_char d c = Inr (c \<in> set s, a, b) \<and> mem a x \<and> mem b y"
proof -
  have ok: "db_ok d" and m: "db_in_memory d" and t: "db_text d = s" using assms(1) by auto
  show ?thesis
    by (rule db_split_char_text [OF ok, of c]) (use m t assms(2) in auto)
qed

lemma mem_trim:
  assumes "mem d s" "trim_str s = t"
  shows "\<exists>d'. db_trim d = Inr d' \<and> mem d' t"
proof -
  have ok: "db_ok d" and m: "db_in_memory d" using assms(1) by auto
  show ?thesis by (rule db_trim_text [OF ok m]) (use assms in auto)
qed

lemma mem_empty: "mem d s \<Longrightarrow> db_empty d \<longleftrightarrow> s = []"
  using db_empty_text by blast

lemma mem_size: "mem d s \<Longrightarrow> unat (db_size d) = length s"
  using length_db_text by auto

lemma mem_trimn: "mem d s \<Longrightarrow> unat b + unat e \<le> length s \<Longrightarrow> mem (db_trimn d b e) (slice (unat b) (length s - unat b - unat e) s)"
  using db_trimn_text [of d b e] by auto

lemma size_eq_iff: "mem d s \<Longrightarrow> db_size d = n \<longleftrightarrow> length s = unat n"
  using mem_size by (metis word_unat_eq_iff)

text \<open>A line without a field the parser knows, and the line of a form field.\<close>

lemma parseLine_element_unknown:
  assumes "mem key s" "length s \<notin> {4, 8, 12}"
  shows "parseLine_element key val fs = Inr fs"
  using assms by (cases fs) (simp add: parseLine_element_def size_eq_iff)

lemma parseLine_element_name:
  assumes "mem key ''name''" "mem val (q # n @ [q'])"
  shows "\<exists>d. parseLine_element key val (nm, fn, ty) = Inr (d, fn, ty) \<and> mem d n"
proof -
  have "mem (db_trimn val 1 1) n"
    using mem_trimn [OF assms(2), of 1 1] by (simp add: slice_def)
  then show ?thesis using assms(1) by (simp add: parseLine_element_def size_eq_iff db_startsWith_text)
qed

definition form_line :: "string \<Rightarrow> string" where
  "form_line n = ''Content-Disposition: form-data; name='' @ CHR 0x22 # n @ [CHR 0x22]"

lemma parseLine_form:
  assumes "mem line (form_line n)" "CHR '';'' \<notin> set n"
  shows "\<exists>d. parseLine line (nm, fn, ty) = Some (Inr (d, fn, ty)) \<and> mem d n"
proof -
  let ?q = "CHR 0x22 # n @ [CHR 0x22]"
  have c1: "cut_first (CHR '';'') (form_line n) = (''Content-Disposition: form-data'', '' name='' @ ?q)"
    using cut_first_append [of "CHR '';''" "''Content-Disposition: form-data''" "'' name='' @ ?q"]
    by (simp add: form_line_def)
  obtain h1 t1 where s1: "db_split_char line (CHR '';'') = Inr (CHR '';'' \<in> set (form_line n), h1, t1)"
    "mem h1 ''Content-Disposition: form-data''" "mem t1 ('' name='' @ ?q)"
    using mem_split_char [OF assms(1) c1] by blast
  obtain k1 v1 where s2: "db_split_char h1 (CHR ''='') = Inr (False, k1, v1)" "mem k1 ''Content-Disposition: form-data''"
    using mem_split_char [OF s1(2), of "CHR ''=''" "''Content-Disposition: form-data''" "[]"]
    by (auto simp: cut_first_def)
  have "trim_str ('' name='' @ ?q) = ''name='' @ ?q"
    by (simp add: trim_str_def isspace_def)
  then obtain l2 where l2: "db_trim t1 = Inr l2" "mem l2 (''name='' @ ?q)"
    using mem_trim [OF s1(3)] by blast
  have step1: "parseLine_step line (nm, fn, ty) = Inr (l2, nm, fn, ty)"
    using s1(1) s2 l2(1) parseLine_element_unknown [OF s2(2), of v1 "(nm, fn, ty)"]
    by (simp add: parseLine_step_def)
  have c2: "cut_first (CHR '';'') (''name='' @ ?q) = (''name='' @ ?q, [])"
    by (rule cut_first_absent) (use assms(2) in auto)
  obtain h3 t3 where s3: "db_split_char l2 (CHR '';'') = Inr (CHR '';'' \<in> set (''name='' @ ?q), h3, t3)"
    "mem h3 (''name='' @ ?q)" "mem t3 []"
    using mem_split_char [OF l2(2) c2] by blast
  obtain k4 v4 where s4: "db_split_char h3 (CHR ''='') = Inr (True, k4, v4)" "mem k4 ''name''" "mem v4 ?q"
    using mem_split_char [OF s3(2), of "CHR ''=''" "''name''" ?q] by (auto simp: cut_first_def)
  obtain d where d: "parseLine_element k4 v4 (nm, fn, ty) = Inr (d, fn, ty)" "mem d n"
    using parseLine_element_name [OF s4(2,3)] by blast
  obtain l5 where l5: "db_trim t3 = Inr l5" "mem l5 []"
    using mem_trim [OF s3(3), of "[]"] by (auto simp: trim_str_def)
  have step2: "parseLine_step l2 (nm, fn, ty) = Inr (l5, d, fn, ty)"
    using s3(1) s4(1) d(1) l5(1) by (simp add: parseLine_step_def)
  have ne: "\<not> db_empty line" "\<not> db_empty l2" "db_empty l5"
    using mem_empty [OF assms(1)] mem_empty [OF l2(2)] mem_empty [OF l5(2)] by (simp_all add: form_line_def)
  have "parseLine line (nm, fn, ty) = Some (Inr (d, fn, ty))"
    using ne step1 step2
    by (subst parseLine.simps, simp, subst parseLine.simps, simp, subst parseLine.simps, simp)
  then show ?thesis using d(2) by blast
qed

lemma parsePart_headers_form:
  assumes "mem headers (form_line n)" "CHR '';'' \<notin> set n" "CHR 0x0D \<notin> set n" "CHR 0x0A \<notin> set n"
  shows "\<exists>d. parsePart_headers part headers (nm, fn, ty) = Some (Inr (d, fn, ty)) \<and> mem d n"
proof -
  have nc: "CHR 0x0D \<notin> set (form_line n)" "CHR 0x0A \<notin> set (form_line n)"
    using assms(3,4) by (auto simp: form_line_def)
  have "str_split CRLF (form_line n) = (False, form_line n, [])"
    by (rule str_split_none) (use nc in \<open>simp_all add: CRLF_def\<close>)
  then obtain a b where s1: "db_split headers CRLF = Inr (False, a, b)"
    using mem_split [OF assms(1), of CRLF] by (fastforce simp: CRLF_def)
  obtain sub st where s2: "db_split_char headers (CHR 0x0A) = Inr (CHR 0x0A \<in> set (form_line n), sub, st)"
    "mem sub (form_line n)" "mem st []"
    using mem_split_char [OF assms(1) cut_first_absent [OF nc(2)]] by blast
  have sl: "split_line headers = Inr (sub, st)" using s1 s2(1) by (simp add: split_line_def)
  have ic: "is_continuation sub = Inr False"
    using s2(2) by (simp add: is_continuation_def db_startsWith_text form_line_def)
  have ne: "\<not> db_empty headers" "db_empty st"
    using mem_empty [OF assms(1)] mem_empty [OF s2(3)] by (simp_all add: form_line_def)
  have pl: "parsePart_line part db_new headers False = Some (Inr (sub, st))"
    using ne sl ic by (subst parsePart_line.simps, simp, subst parsePart_line.simps, simp)
  obtain d where d: "parseLine sub (nm, fn, ty) = Some (Inr (d, fn, ty))" "mem d n"
    using parseLine_form [OF s2(2) assms(2)] by blast
  show ?thesis using ne pl d
    by (intro exI [of _ d]) (subst parsePart_headers.simps, simp, subst parsePart_headers.simps, simp)
qed

definition form_part :: "string \<Rightarrow> string \<Rightarrow> string" where
  "form_part n v = form_line n @ CRLF @ CRLF @ v"

lemma parsePart_form:
  assumes "mem part (form_part n v)" "n \<noteq> []" "CHR '';'' \<notin> set n" "CHR 0x0D \<notin> set n" "CHR 0x0A \<notin> set n"
  shows "parsePart req part = Inr (req\<lparr>rq_args := rq_args req @ [(n, v)]\<rparr>)"
proof -
  have nc: "CHR 0x0D \<notin> set (form_line n)" using assms(4) by (auto simp: form_line_def)
  have "str_split (CRLF @ CRLF) (form_line n @ (CRLF @ CRLF) @ v) = (True, form_line n, v)"
    by (rule str_split_first) (use nc in \<open>simp_all add: CRLF_def\<close>)
  then have "str_split (CRLF @ CRLF) (form_part n v) = (True, form_line n, v)" by (simp add: form_part_def)
  then obtain h c where s: "db_split part (CRLF @ CRLF) = Inr (True, h, c)" "mem h (form_line n)" "mem c v"
    using mem_split [OF assms(1), of "CRLF @ CRLF"] by (fastforce simp: CRLF_def)
  obtain d where d: "parsePart_headers part h (db_new, db_new, db_new) = Some (Inr (d, db_new, db_new))" "mem d n"
    using parsePart_headers_form [OF s(2) assms(3-5)] by blast
  have "parsePart_fields part = Inr ((d, db_new, db_new), c)" using s(1) d(1) by (simp add: parsePart_fields_def)
  moreover have "\<not> db_empty d" "db_empty db_new" using mem_empty [OF d(2)] assms(2) mem_empty [OF mem_new] by simp_all
  ultimately show ?thesis using d(2) s(3) by (simp add: parsePart_def db_toString_text)
qed

lemma strip_part_text:
  assumes "mem head (CRLF @ p @ CRLF)"
  shows "\<exists>d. strip_part head = Inr d \<and> mem d p"
proof -
  have e: "db_endsWith head CRLF = Inr True" using assms by (simp add: db_endsWith_text CRLF_def)
  have m1: "mem (db_trimn head 0 2) (CRLF @ p)"
    using mem_trimn [OF assms, of 0 2] by (simp add: slice_def CRLF_def)
  then have b: "db_startsWith (db_trimn head 0 2) CRLF = Inr True" by (simp add: db_startsWith_text CRLF_def)
  have "mem (db_trimn (db_trimn head 0 2) 2 0) p"
    using mem_trimn [OF m1, of 2 0] by (simp add: slice_def CRLF_def)
  then show ?thesis using e b by (simp add: strip_part_def)
qed

text \<open>The text of a form with the fields \<open>fs\<close>, after the first boundary.\<close>

fun form_rest :: "string \<Rightarrow> (string \<times> string) list \<Rightarrow> string \<Rightarrow> string" where
  "form_rest boundary [] rest = ''--'' @ rest"
| "form_rest boundary ((n, v) # fs) rest =
     (CRLF @ form_part n v @ CRLF) @ boundary @ form_rest boundary fs rest"

text \<open>The boundary does not begin inside of a part.\<close>

fun separated :: "string \<Rightarrow> (string \<times> string) list \<Rightarrow> string \<Rightarrow> bool" where
  "separated boundary [] rest = True"
| "separated boundary ((n, v) # fs) rest =
     ((\<forall>j < length (CRLF @ form_part n v @ CRLF).
        slice j (length boundary) (form_rest boundary ((n, v) # fs) rest) \<noteq> boundary) \<and>
      separated boundary fs rest)"

definition form_field_ok :: "string \<Rightarrow> bool" where
  "form_field_ok n \<longleftrightarrow> n \<noteq> [] \<and> set n \<inter> {CHR '';'', CHR 0x0D, CHR 0x0A} = {}"

lemma str_split_at:
  assumes "delim \<noteq> []" "\<forall>j < length u. slice j (length delim) (u @ delim @ w) \<noteq> delim"
  shows "str_split delim (u @ delim @ w) = (True, u, w)"
proof -
  obtain f x y where fx: "(f, x, y) = str_split delim (u @ delim @ w)" by (metis prod_cases3)
  note c = str_split_correct [OF fx assms(1)]
  have m: "slice (length u) (length delim) (u @ delim @ w) = delim" by (simp add: slice_def)
  then have f using c by (auto split: if_splits)
  then have eq: "u @ delim @ w = x @ delim @ y" "\<forall>j < length x. slice j (length delim) (u @ delim @ w) \<noteq> delim"
    using c by auto
  have "slice (length x) (length delim) (u @ delim @ w) = delim" unfolding eq(1) by (simp add: slice_def)
  then have "length x = length u" using m eq(2) assms(2) by (meson linorder_neqE_nat)
  then show ?thesis using eq(1) fx \<open>f\<close> by simp
qed

lemma parseMultipart_loop_form:
  assumes "mem data (form_rest boundary fs rest)" "fs \<noteq> []" "boundary \<noteq> []" "length boundary < 2 ^ 62"
    and "\<forall>(n, v) \<in> set fs. form_field_ok n" "separated boundary fs rest"
  shows "parseMultipart_loop req data boundary = Some (Inr (req\<lparr>rq_args := rq_args req @ fs\<rparr>))"
  using assms
proof (induction fs arbitrary: req data)
  case (Cons e fs)
  obtain n v where e: "e = (n, v)" by (cases e)
  let ?p = "CRLF @ form_part n v @ CRLF" and ?y = "form_rest boundary fs rest"
  have ok: "n \<noteq> []" "CHR '';'' \<notin> set n" "CHR 0x0D \<notin> set n" "CHR 0x0A \<notin> set n"
    using Cons.prems(5) by (auto simp: e form_field_ok_def)
  have "\<forall>j < length ?p. slice j (length boundary) (?p @ boundary @ ?y) \<noteq> boundary"
    using Cons.prems(6) by (simp add: e)
  from str_split_at [OF Cons.prems(3) this]
  obtain h t where s: "db_split data boundary = Inr (True, h, t)" "mem h ?p" "mem t ?y"
    using mem_split [OF Cons.prems(1,3,4)] by (fastforce simp: e)
  obtain d where d: "strip_part h = Inr d" "mem d (form_part n v)"
    using strip_part_text [OF s(2)] by blast
  have pp: "parsePart req d = Inr (req\<lparr>rq_args := rq_args req @ [(n, v)]\<rparr>)"
    by (rule parsePart_form [OF d(2) ok])
  have ne: "\<not> db_empty data" "\<not> db_empty h" "\<not> db_empty d"
    using mem_empty [OF Cons.prems(1)] mem_empty [OF s(2)] mem_empty [OF d(2)]
    by (simp_all add: e CRLF_def form_part_def form_line_def)
  show ?case
  proof (cases fs)
    case Nil
    have "db_startsWith t ''--'' = Inr True" using s(3) by (simp add: Nil db_startsWith_text)
    then show ?thesis using ne s(1) d(1) pp
      by (subst parseMultipart_loop.simps) (simp add: e Nil)
  next
    case (Cons e' fs')
    have st: "db_startsWith t ''--'' = Inr False"
      using s(3) by (cases e') (simp add: Cons db_startsWith_text CRLF_def)
    have "parseMultipart_loop (req\<lparr>rq_args := rq_args req @ [(n, v)]\<rparr>) t boundary =
        Some (Inr (req\<lparr>rq_args := (rq_args req @ [(n, v)]) @ fs\<rparr>))"
      using Cons.IH [OF s(3)] Cons Cons.prems by (simp add: e)
    then show ?thesis using ne s(1) d(1) pp st
      by (subst parseMultipart_loop.simps) (simp add: e)
  qed
qed simp

text \<open>
  A boundary with a character that occurs in no part, and without line breaks, separates the parts.
\<close>

lemma separatedI:
  assumes "c \<in> set boundary" "CHR 0x0A \<notin> set boundary" "\<forall>(n, v) \<in> set fs. c \<notin> set (CRLF @ form_part n v)"
  shows "separated boundary fs rest"
  using assms
proof (induction fs)
  case (Cons e fs)
  obtain n v where e: "e = (n, v)" by (cases e)
  let ?p = "CRLF @ form_part n v @ CRLF" and ?y = "form_rest boundary fs rest"
  have no: "slice j (length boundary) (?p @ boundary @ ?y) \<noteq> boundary" if j: "j < length ?p" for j
  proof (cases "j + length boundary \<le> length ?p")
    case True
    then have "slice j (length boundary) (?p @ boundary @ ?y) = slice j (length boundary) ?p"
      by (rule slice_left_append)
    moreover have "set (slice j (length boundary) ?p) \<subseteq> set ?p"
      unfolding slice_def by (meson set_drop_subset set_take_subset order_trans)
    ultimately have "set (slice j (length boundary) (?p @ boundary @ ?y)) \<subseteq> set ?p" by simp
    then show ?thesis using Cons.prems(1,3) by (auto simp: e CRLF_def)
  next
    case False
    obtain q where q: "?p = q @ [CHR 0x0A]" by (simp add: CRLF_def)
    have jq: "j \<le> length q" "length q - j < length boundary" using False j unfolding q by auto
    have "slice j (length boundary) (?p @ boundary @ ?y) ! (length q - j) = (?p @ boundary @ ?y) ! (j + (length q - j))"
      by (rule nth_slice [OF jq(2)]) (use j in simp)
    also have "\<dots> = CHR 0x0A" using jq(1) unfolding q by simp
    finally have "slice j (length boundary) (?p @ boundary @ ?y) ! (length q - j) = CHR 0x0A" .
    moreover note jq(2)
    ultimately show ?thesis using Cons.prems(2) by (metis nth_mem)
  qed
  then show ?case using Cons by (auto simp: e)
qed simp

text \<open>
  C24. A form sent as a multipart message is read correctly: for fields with non-empty names (without
  semicolons and line breaks) and arbitrary values that do not contain the boundary, parsing the
  message in memory appends exactly the fields, in their order, to the arguments of the request and
  changes nothing else; the parser terminates.
\<close>

theorem parseMultipart_form:
  assumes "mem data (boundary @ form_rest boundary fs rest)" "boundary \<noteq> []" "length boundary < 2 ^ 62"
    and "\<forall>(n, v) \<in> set fs. form_field_ok n" "separated boundary fs rest"
  shows "parseMultipart req data boundary = Inr (req\<lparr>rq_args := rq_args req @ fs\<rparr>)"
proof -
  have "str_split boundary ([] @ boundary @ form_rest boundary fs rest) = (True, [], form_rest boundary fs rest)"
    by (rule str_split_at) (use assms(2) in auto)
  then obtain h t where s: "db_split data boundary = Inr (True, h, t)" "mem h []" "mem t (form_rest boundary fs rest)"
    using mem_split [OF assms(1-3)] by fastforce
  have ne: "\<not> db_empty data" "db_empty h" using mem_empty [OF assms(1)] mem_empty [OF s(2)] assms(2) by simp_all
  show ?thesis
  proof (cases fs)
    case Nil
    have "db_startsWith t ''--'' = Inr True" using s(3) by (simp add: Nil db_startsWith_text)
    then show ?thesis using ne s(1)
      unfolding parseMultipart_def by (subst parseMultipart_loop.simps) (simp add: Nil)
  next
    case (Cons e fs')
    have "db_startsWith t ''--'' = Inr False"
      using s(3) by (cases e) (simp add: Cons db_startsWith_text CRLF_def)
    then show ?thesis using ne s(1) parseMultipart_loop_form [OF s(3) _ assms(2-5), of req] Cons
      unfolding parseMultipart_def by (subst parseMultipart_loop.simps) simp
  qed
qed

theorem parseMultipart_form_witness:
  "parseMultipart (request_new :: (unit, unit) request)
     (db_create (''--xyz'' @ form_rest ''--xyz'' [(''a'', ''1''), (''b'', ''2 3'')] [])) ''--xyz'' =
   Inr (request_new\<lparr>rq_args := [(''a'', ''1''), (''b'', ''2 3'')]\<rparr>)"
proof -
  let ?s = "''--xyz'' @ form_rest ''--xyz'' [(''a'', ''1''), (''b'', ''2 3'')] []"
  have "length ?s < 2 ^ 63" by (simp add: CRLF_def form_part_def form_line_def)
  then have m: "mem (db_create ?s) ?s" by (rule mem_create)
  have "separated ''--xyz'' [(''a'', ''1''), (''b'', ''2 3'')] []"
    by (rule separatedI [of "CHR ''z''"]) (simp_all add: CRLF_def form_part_def form_line_def)
  then show ?thesis
    using parseMultipart_form [OF m, of "request_new :: (unit, unit) request"]
    by (simp add: form_field_ok_def request_new_def reset_def)
qed

end
