(* ===== verification/RequestCodec.thy ===== *)
theory RequestCodec
  imports Parsers
begin

text \<open>
  The binary form of a request (the second half of \<^verbatim>\<open>library/request.cpp\<close>): the request cache stores a
  request as one buffer, with 64-bit lengths in the byte order of the machine (little endian), and
  restores it from there. The theory has the writer, the reader, the layout they agree on, that the
  reader ends on every buffer, and the round trip.
\<close>

section \<open>Writing\<close>

fun le_digits :: "nat \<Rightarrow> nat \<Rightarrow> string" where
  "le_digits 0 v = []"
| "le_digits (Suc k) v = char_of (v mod 256) # le_digits k (v div 256)"

fun le_number :: "string \<Rightarrow> nat" where
  "le_number [] = 0"
| "le_number (c # s) = byte c + 256 * le_number s"

text \<open>The bytes of \<^verbatim>\<open>(char*)&val\<close>, and the number that bytes copied over a zero leave there.\<close>

definition le_bytes :: "u64 \<Rightarrow> string" where
  "le_bytes w = le_digits 8 (unat w)"

definition le_value :: "string \<Rightarrow> u64" where
  "le_value s = of_nat (le_number s)"

definition serializeInt :: "data_buffer \<Rightarrow> u64 \<Rightarrow> u64 \<Rightarrow> (u64 \<times> data_buffer) result" where
  "serializeInt buffer pos val =
     rbind (db_write buffer pos (le_bytes val)) (\<lambda>(n, buffer). Inr (pos + n, buffer))"

definition serializeString :: "data_buffer \<Rightarrow> u64 \<Rightarrow> string \<Rightarrow> (u64 \<times> data_buffer) result" where
  "serializeString buffer pos val =
     rbind (serializeInt buffer pos (of_nat (length val))) (\<lambda>(pos, buffer).
     rbind (db_write buffer pos val) (\<lambda>(n, buffer). Inr (pos + n, buffer)))"

fun serialize_chunks :: "data_buffer \<Rightarrow> u64 \<Rightarrow> string list \<Rightarrow> (u64 \<times> data_buffer) result" where
  "serialize_chunks buffer pos [] = Inr (pos, buffer)"
| "serialize_chunks buffer pos (c # cs) =
     rbind (db_write buffer pos c) (\<lambda>(n, buffer). serialize_chunks buffer (pos + n) cs)"

definition serializeBuffer :: "data_buffer \<Rightarrow> u64 \<Rightarrow> data_buffer \<Rightarrow> (u64 \<times> data_buffer) result" where
  "serializeBuffer buffer pos src =
     rbind (serializeInt buffer pos (db_size src)) (\<lambda>(pos, buffer).
     rbind (db_chunks src) (\<lambda>cs. serialize_chunks buffer pos cs))"

text \<open>The size and the writing of a list of pairs, which the source repeats for headers, cookies,
  variables and arguments.\<close>

fun pairs_size :: "(string \<times> string) list \<Rightarrow> u64" where
  "pairs_size [] = 0"
| "pairs_size ((k, v) # m) = of_nat (length k) + of_nat (length v) + 2 * 8 + pairs_size m"

fun serialize_pairs :: "data_buffer \<Rightarrow> u64 \<Rightarrow> (string \<times> string) list \<Rightarrow> (u64 \<times> data_buffer) result" where
  "serialize_pairs buffer pos [] = Inr (pos, buffer)"
| "serialize_pairs buffer pos ((k, v) # m) =
     rbind (serializeString buffer pos k) (\<lambda>(pos, buffer).
     rbind (serializeString buffer pos v) (\<lambda>(pos, buffer). serialize_pairs buffer pos m))"

definition serializeEnv :: "('s, 'u) request \<Rightarrow> data_buffer \<Rightarrow> u64 \<Rightarrow> (u64 \<times> data_buffer) result" where
  "serializeEnv r buffer add_size =
     (let header_size = pairs_size (rq_headers r);
          cookie_size = pairs_size (rq_cookies r);
          var_size = pairs_size (rq_vars r)
      in rbind (db_resize buffer (add_size + header_size + cookie_size + var_size + 3 * 8)) (\<lambda>buffer.
         rbind (serializeInt buffer 0 header_size) (\<lambda>(pos, buffer).
         rbind (serialize_pairs buffer pos (rq_headers r)) (\<lambda>(pos, buffer).
         rbind (serializeInt buffer pos cookie_size) (\<lambda>(pos, buffer).
         rbind (serialize_pairs buffer pos (rq_cookies r)) (\<lambda>(pos, buffer).
         rbind (serializeInt buffer pos var_size) (\<lambda>(pos, buffer).
         serialize_pairs buffer pos (rq_vars r))))))))"

fun files_size :: "(string \<times> remote_file) list \<Rightarrow> u64" where
  "files_size [] = 0"
| "files_size ((k, f) # fs) =
     8 + of_nat (length k) + 8 + of_nat (length (file_name f)) + 8 + of_nat (length (file_type f)) + 2 * 8 +
     files_size fs"

definition filesSerializedSize :: "('s, 'u) request \<Rightarrow> u64" where
  "filesSerializedSize r = files_size (rq_files r)"

definition argsSerializedSize :: "('s, 'u) request \<Rightarrow> u64" where
  "argsSerializedSize r = pairs_size (rq_args r)"

fun serialize_files :: "u64 \<Rightarrow> data_buffer \<Rightarrow> u64 \<Rightarrow> (string \<times> remote_file) list \<Rightarrow> (u64 \<times> data_buffer) result" where
  "serialize_files body_begin buffer pos [] = Inr (pos, buffer)"
| "serialize_files body_begin buffer pos ((k, f) # fs) =
     rbind (serializeString buffer pos k) (\<lambda>(pos, buffer).
     rbind (serializeString buffer pos (file_name f)) (\<lambda>(pos, buffer).
     rbind (serializeString buffer pos (file_type f)) (\<lambda>(pos, buffer).
     rbind (serializeInt buffer pos (db_begin (file_data f) - body_begin)) (\<lambda>(pos, buffer).
     rbind (serializeInt buffer pos (db_end (file_data f) - db_begin (file_data f))) (\<lambda>(pos, buffer).
       serialize_files body_begin buffer pos fs)))))"

definition serializeFiles :: "('s, 'u) request \<Rightarrow> data_buffer \<Rightarrow> u64 \<Rightarrow> (u64 \<times> data_buffer) result" where
  "serializeFiles r buffer pos =
     rbind (serializeInt buffer pos (filesSerializedSize r)) (\<lambda>(pos, buffer).
       serialize_files (db_begin (rq_body r)) buffer pos (rq_files r))"

definition serializeArgs :: "('s, 'u) request \<Rightarrow> data_buffer \<Rightarrow> u64 \<Rightarrow> (u64 \<times> data_buffer) result" where
  "serializeArgs r buffer pos =
     rbind (serializeInt buffer pos (argsSerializedSize r)) (\<lambda>(pos, buffer).
       serialize_pairs buffer pos (rq_args r))"

definition serialize :: "('s, 'u) request \<Rightarrow> data_buffer \<Rightarrow> data_buffer result" where
  "serialize r buffer =
     (let add_size = 8 + db_size (rq_body r) + 8 + filesSerializedSize r + 8 + argsSerializedSize r
      in rbind (serializeEnv r buffer add_size) (\<lambda>(pos, buffer).
         rbind (serializeBuffer buffer pos (rq_body r)) (\<lambda>(pos, buffer).
         rbind (serializeFiles r buffer pos) (\<lambda>(pos, buffer).
         rbind (serializeArgs r buffer pos) (\<lambda>(pos, buffer). Inr buffer)))))"

section \<open>Reading\<close>

text \<open>A short read leaves the remaining bytes of the zero-initialised target as they are.\<close>

definition parseInt :: "data_buffer \<Rightarrow> u64 \<Rightarrow> (u64 \<times> u64) result" where
  "parseInt buffer pos = rbind (db_read buffer pos 8) (\<lambda>s. Inr (pos + of_nat (length s), le_value s))"

definition parseString :: "data_buffer \<Rightarrow> u64 \<Rightarrow> (u64 \<times> string) result" where
  "parseString buffer pos =
     rbind (parseInt buffer pos) (\<lambda>(pos, len).
       if len \<ge> 2 ^ 63 then Inl (LengthError ''basic_string::_M_replace_aux'')
       else rbind (db_read buffer pos len) (\<lambda>s.
         Inr (pos + of_nat (length s), s @ replicate (unat len - length s) (CHR 0x00))))"

text \<open>The loop that reads pairs up to a position; an exception carries what was read before it.\<close>

partial_function (option) parse_pairs ::
    "(string \<Rightarrow> string \<Rightarrow> 'm \<Rightarrow> 'm) \<Rightarrow> data_buffer \<Rightarrow> u64 \<Rightarrow> u64 \<Rightarrow> 'm \<Rightarrow> ((cpp_error \<times> 'm) + (u64 \<times> 'm)) option" where
  [code]: "parse_pairs ins buffer pos pos_end m =
     (if pos < pos_end then
        (case parseString buffer pos of
           Inl e \<Rightarrow> Some (Inl (e, m))
         | Inr (pos, name) \<Rightarrow>
             (case parseString buffer pos of
                Inl e \<Rightarrow> Some (Inl (e, m))
              | Inr (pos, val) \<Rightarrow> parse_pairs ins buffer pos pos_end (ins name val m)))
      else Some (Inr (pos, m)))"

definition parse_section :: "string \<Rightarrow> (string \<Rightarrow> string \<Rightarrow> 'm \<Rightarrow> 'm) \<Rightarrow> data_buffer \<Rightarrow> u64 \<Rightarrow> 'm \<Rightarrow> (cpp_error \<times> 'm) + (u64 \<times> 'm)" where
  "parse_section msg ins buffer pos m =
     (case parseInt buffer pos of
        Inl e \<Rightarrow> Inl (e, m)
      | Inr (pos, field_size) \<Rightarrow>
          let pos_end = pos + field_size
          in if pos_end > db_size buffer then Inl (RuntimeError msg, m)
             else case parse_pairs ins buffer pos pos_end m of None \<Rightarrow> Inl (Diverges, m) | Some x \<Rightarrow> x)"

definition map_insert :: "(string \<Rightarrow> string \<Rightarrow> bool) \<Rightarrow> string \<Rightarrow> 'v \<Rightarrow> (string \<times> 'v) list \<Rightarrow> (string \<times> 'v) list" where
  "map_insert lt k v m = fst (om_insert lt k v m)"

text \<open>Storing the result of a section in the request.\<close>

definition in_field :: "('m \<Rightarrow> ('s, 'u) request) \<Rightarrow> (cpp_error \<times> 'm) + (u64 \<times> 'm) \<Rightarrow> (cpp_error \<times> ('s, 'u) request) + (u64 \<times> ('s, 'u) request)" where
  "in_field upd x = (case x of Inl (e, m) \<Rightarrow> Inl (e, upd m) | Inr (pos, m) \<Rightarrow> Inr (pos, upd m))"

definition parseHeaders :: "data_buffer \<Rightarrow> u64 \<Rightarrow> ('s, 'u) request \<Rightarrow> (cpp_error \<times> ('s, 'u) request) + (u64 \<times> ('s, 'u) request)" where
  "parseHeaders buffer pos r =
     in_field (\<lambda>m. r\<lparr>rq_headers := m\<rparr>)
       (parse_section ''Cannot parse request headers'' (map_insert StringCILess) buffer pos (rq_headers r))"

definition parseCookieMap :: "data_buffer \<Rightarrow> u64 \<Rightarrow> ('s, 'u) request \<Rightarrow> (cpp_error \<times> ('s, 'u) request) + (u64 \<times> ('s, 'u) request)" where
  "parseCookieMap buffer pos r =
     in_field (\<lambda>m. r\<lparr>rq_cookies := m\<rparr>)
       (parse_section ''Cannot parse request cookies'' (map_insert string_lt) buffer pos (rq_cookies r))"

definition parseVars :: "data_buffer \<Rightarrow> u64 \<Rightarrow> ('s, 'u) request \<Rightarrow> (cpp_error \<times> ('s, 'u) request) + (u64 \<times> ('s, 'u) request)" where
  "parseVars buffer pos r =
     in_field (\<lambda>m. r\<lparr>rq_vars := m\<rparr>)
       (parse_section ''Cannot parse request vars'' (map_insert string_lt) buffer pos (rq_vars r))"

definition parseBody :: "data_buffer \<Rightarrow> u64 \<Rightarrow> ('s, 'u) request \<Rightarrow> (cpp_error \<times> ('s, 'u) request) + (u64 \<times> ('s, 'u) request)" where
  "parseBody buffer pos r =
     (case parseInt buffer pos of
        Inl e \<Rightarrow> Inl (e, r)
      | Inr (pos, field_size) \<Rightarrow>
          let pos_end = pos + field_size
          in if pos_end > db_size buffer then Inl (RuntimeError ''Cannot parse request body'', r)
             else case db_part buffer (pos + db_begin buffer) (pos_end + db_begin buffer) of
                    Inl e \<Rightarrow> Inl (e, r)
                  | Inr body \<Rightarrow> Inr (pos_end, r\<lparr>rq_body := body\<rparr>))"

text \<open>One entry of the file section, and the loop over them.\<close>

definition parse_file :: "data_buffer \<Rightarrow> data_buffer \<Rightarrow> u64 \<Rightarrow> (u64 \<times> string \<times> remote_file) result" where
  "parse_file body buffer pos =
     rbind (parseString buffer pos) (\<lambda>(pos, name).
     rbind (parseString buffer pos) (\<lambda>(pos, remote_name).
     rbind (parseString buffer pos) (\<lambda>(pos, type).
     rbind (parseInt buffer pos) (\<lambda>(pos, offset).
     rbind (parseInt buffer pos) (\<lambda>(pos, len).
     rbind (db_part body (offset + db_begin body) (offset + len + db_begin body)) (\<lambda>file_buffer.
     rbind (file_new remote_name type file_buffer) (\<lambda>f. Inr (pos, name, f))))))))"

partial_function (option) parse_files ::
    "data_buffer \<Rightarrow> data_buffer \<Rightarrow> u64 \<Rightarrow> u64 \<Rightarrow> (string \<times> remote_file) list \<Rightarrow>
      ((cpp_error \<times> (string \<times> remote_file) list) + (u64 \<times> (string \<times> remote_file) list)) option" where
  [code]: "parse_files body buffer pos pos_end m =
     (if pos < pos_end then
        (case parse_file body buffer pos of
           Inl e \<Rightarrow> Some (Inl (e, m))
         | Inr (pos, name, f) \<Rightarrow> parse_files body buffer pos pos_end (map_insert string_lt name f m))
      else Some (Inr (pos, m)))"

definition parseFiles :: "data_buffer \<Rightarrow> u64 \<Rightarrow> ('s, 'u) request \<Rightarrow> (cpp_error \<times> ('s, 'u) request) + (u64 \<times> ('s, 'u) request)" where
  "parseFiles buffer pos r =
     (case parseInt buffer pos of
        Inl e \<Rightarrow> Inl (e, r)
      | Inr (pos, field_size) \<Rightarrow>
          let pos_end = pos + field_size
          in if pos_end > db_size buffer then Inl (RuntimeError ''Cannot parse request files'', r)
             else case parse_files (rq_body r) buffer pos pos_end (rq_files r) of
                    None \<Rightarrow> Inl (Diverges, r)
                  | Some x \<Rightarrow> in_field (\<lambda>m. r\<lparr>rq_files := m\<rparr>) x)"

definition restored_arg :: "string \<Rightarrow> string" where
  "restored_arg v =
     (if CHR 0x0D \<in> set v \<or> CHR 0x0A \<in> set v \<or> CHR 0x00 \<in> set v then urlencode_string v else v)"

definition parseArgs :: "data_buffer \<Rightarrow> u64 \<Rightarrow> ('s, 'u) request \<Rightarrow> (cpp_error \<times> ('s, 'u) request) + (u64 \<times> ('s, 'u) request)" where
  "parseArgs buffer pos r =
     in_field (\<lambda>m. r\<lparr>rq_args := m\<rparr>)
       (parse_section ''Cannot parse request args'' (\<lambda>name val m. m @ [(name, restored_arg val)]) buffer pos (rq_args r))"

definition parse_request :: "data_buffer \<Rightarrow> ('s, 'u) request \<Rightarrow> ('s, 'u) outcome" where
  "parse_request buffer r =
     rbind (parseHeaders buffer 0 r) (\<lambda>(pos, r).
     rbind (parseCookieMap buffer pos r) (\<lambda>(pos, r).
     rbind (parseVars buffer pos r) (\<lambda>(pos, r).
     rbind (parseBody buffer pos r) (\<lambda>(pos, r).
     rbind (parseFiles buffer pos r) (\<lambda>(pos, r).
     rbind (parseArgs buffer pos r) (\<lambda>(pos, r). Inr r))))))"

definition restore :: "data_buffer \<Rightarrow> ('s, 'u) request \<Rightarrow> ('s, 'u) outcome" where
  "restore buffer r =
     parse_request buffer (r\<lparr>rq_args := [], rq_vars := [], rq_files := [], rq_cookies := [],
       rq_headers := [], rq_out_headers := []\<rparr>)"

section \<open>Numbers\<close>

lemma length_le_digits [simp]: "length (le_digits k v) = k"
  by (induction k arbitrary: v) simp_all

lemma le_number_digits: "le_number (le_digits k v) = v mod 256 ^ k"
proof (induction k arbitrary: v)
  case (Suc k)
  have "v mod (256 * 256 ^ k) = 256 * (v div 256 mod 256 ^ k) + v mod 256"
    by (rule mod_mult2_eq)
  then show ?case by (simp add: Suc.IH)
qed simp

lemma length_le_bytes [simp]: "length (le_bytes w) = 8"
  by (simp add: le_bytes_def)

lemma le_bytes_nonempty [simp]: "le_bytes w \<noteq> []"
  using length_le_bytes [of w] by force

lemma le_value_bytes [simp]: "le_value (le_bytes w) = w"
proof -
  have "unat w mod 256 ^ 8 = unat w" by simp
  then show ?thesis by (simp only: le_value_def le_bytes_def le_number_digits) simp
qed

section \<open>The layout\<close>

definition string_code :: "string \<Rightarrow> string" where
  "string_code s = le_bytes (of_nat (length s)) @ s"

definition pairs_code :: "(string \<times> string) list \<Rightarrow> string" where
  "pairs_code m = concat (map (\<lambda>(k, v). string_code k @ string_code v) m)"

definition file_code :: "u64 \<Rightarrow> string \<times> remote_file \<Rightarrow> string" where
  "file_code body_begin = (\<lambda>(k, f). string_code k @ string_code (file_name f) @ string_code (file_type f) @
     le_bytes (db_begin (file_data f) - body_begin) @ le_bytes (db_end (file_data f) - db_begin (file_data f)))"

definition files_code :: "u64 \<Rightarrow> (string \<times> remote_file) list \<Rightarrow> string" where
  "files_code body_begin fs = concat (map (file_code body_begin) fs)"

definition section_code :: "string \<Rightarrow> string" where
  "section_code s = le_bytes (of_nat (length s)) @ s"

definition request_code :: "('s, 'u) request \<Rightarrow> string" where
  "request_code r =
     section_code (pairs_code (rq_headers r)) @ section_code (pairs_code (rq_cookies r)) @
     section_code (pairs_code (rq_vars r)) @ section_code (db_text (rq_body r)) @
     section_code (files_code (db_begin (rq_body r)) (rq_files r)) @ section_code (pairs_code (rq_args r))"

lemma length_string_code [simp]: "length (string_code s) = 8 + length s"
  by (simp add: string_code_def)

lemma length_section_code [simp]: "length (section_code s) = 8 + length s"
  by (simp add: section_code_def)

lemma pairs_code_simps [simp]:
  "pairs_code [] = []" "pairs_code ((k, v) # m) = string_code k @ string_code v @ pairs_code m"
  by (simp_all add: pairs_code_def)

lemma files_code_simps [simp]:
  "files_code b [] = []" "files_code b (kf # fs) = file_code b kf @ files_code b fs"
  by (simp_all add: files_code_def)

lemma length_file_code [simp]:
  "length (file_code b (k, f)) = 40 + length k + length (file_name f) + length (file_type f)"
  by (simp add: file_code_def)

lemma pairs_size_code: "pairs_size m = of_nat (length (pairs_code m))"
  by (induction m rule: pairs_size.induct) simp_all

lemma files_size_code: "files_size fs = of_nat (length (files_code b fs))"
  by (induction fs rule: files_size.induct) simp_all

section \<open>The writer\<close>

text \<open>The buffer has been filled up to the position with a text.\<close>

definition filled :: "data_buffer \<Rightarrow> u64 \<Rightarrow> string \<Rightarrow> nat \<Rightarrow> bool" where
  "filled buffer pos s n \<longleftrightarrow>
     db_ok buffer \<and> length (db_text buffer) = n \<and> unat pos = length s \<and> take (length s) (db_text buffer) = s"

lemma filled_length: "filled buffer pos s n \<Longrightarrow> length s \<le> n"
  unfolding filled_def by (metis length_take min.cobounded1)

lemma filled_full: "filled buffer pos s (length s) \<Longrightarrow> db_text buffer = s"
  unfolding filled_def by (metis order_refl take_all)

lemma take_overwrite: "take b xs = s \<Longrightarrow> b = length s \<Longrightarrow> b + length d \<le> length xs \<Longrightarrow>
   take (b + length d) (overwrite b d xs) = s @ d"
  by (simp add: overwrite_def)

lemma db_write_filled:
  assumes "filled buffer pos s n" "length s + length d \<le> n"
  obtains buffer' where "db_write buffer pos d = Inr (of_nat (length d), buffer')"
    "filled buffer' (pos + of_nat (length d)) (s @ d) n" "db_begin buffer' = db_begin buffer" "db_end buffer' = db_end buffer"
proof -
  have f: "db_ok buffer" "length (db_text buffer) = n" "unat pos = length s" "take (length s) (db_text buffer) = s"
    using assms(1) by (simp_all add: filled_def)
  have n: "n < 2 ^ 63" using db_text_bound [OF f(1)] f(2) by simp
  have "unat pos + length d \<le> length (db_text buffer)" using assms(2) f(2,3) by simp
  then obtain buffer' where w: "db_write buffer pos d = Inr (of_nat (length d), buffer')" "db_ok buffer'"
    "db_text buffer' = overwrite (length s) d (db_text buffer)" "db_begin buffer' = db_begin buffer" "db_end buffer' = db_end buffer"
    using db_write_text [OF f(1)] f(3) by metis
  have "unat (pos + of_nat (length d)) = length s + length d"
    using assms(2) n by (subst unat_add_u64) (simp_all add: f(3))
  moreover have "take (length s + length d) (db_text buffer') = s @ d"
    unfolding w(3) by (rule take_overwrite) (use f assms(2) in simp_all)
  ultimately show ?thesis using w f(2) assms(2) by (intro that [of buffer']) (simp_all add: filled_def)
qed

text \<open>A step of the writer appends a text.\<close>

definition appends :: "(data_buffer \<Rightarrow> u64 \<Rightarrow> (u64 \<times> data_buffer) result) \<Rightarrow> string \<Rightarrow> bool" where
  "appends f d \<longleftrightarrow> (\<forall>buffer pos s n. filled buffer pos s n \<and> length s + length d \<le> n \<longrightarrow>
     (\<exists>pos' buffer'. f buffer pos = Inr (pos', buffer') \<and> filled buffer' pos' (s @ d) n \<and>
       db_begin buffer' = db_begin buffer \<and> db_end buffer' = db_end buffer))"

lemma appendsD:
  assumes "appends f d" "filled buffer pos s n" "length s + length d \<le> n"
  obtains pos' buffer' where "f buffer pos = Inr (pos', buffer')" "filled buffer' pos' (s @ d) n"
    "db_begin buffer' = db_begin buffer" "db_end buffer' = db_end buffer"
  using assms unfolding appends_def by blast

lemma appends_nil: "appends (\<lambda>buffer pos. Inr (pos, buffer)) []"
  by (simp add: appends_def)

lemma appends_seq:
  assumes "appends f d" "appends g e"
  shows "appends (\<lambda>buffer pos. rbind (f buffer pos) (\<lambda>(pos, buffer). g buffer pos)) (d @ e)"
  unfolding appends_def
proof (intro allI impI, elim conjE)
  fix buffer pos s n
  assume a: "filled buffer pos s n" "length s + length (d @ e) \<le> n"
  obtain pos' buffer' where f: "f buffer pos = Inr (pos', buffer')" "filled buffer' pos' (s @ d) n"
    "db_begin buffer' = db_begin buffer" "db_end buffer' = db_end buffer"
    by (rule appendsD [OF assms(1) a(1)]) (use a(2) in simp)
  obtain pos'' buffer'' where "g buffer' pos' = Inr (pos'', buffer'')" "filled buffer'' pos'' ((s @ d) @ e) n"
    "db_begin buffer'' = db_begin buffer'" "db_end buffer'' = db_end buffer'"
    by (rule appendsD [OF assms(2) f(2)]) (use a(2) in simp)
  with f show "\<exists>pos' buffer'. rbind (f buffer pos) (\<lambda>(pos, buffer). g buffer pos) = Inr (pos', buffer') \<and>
    filled buffer' pos' (s @ d @ e) n \<and> db_begin buffer' = db_begin buffer \<and> db_end buffer' = db_end buffer" by simp
qed

lemma appends_write: "appends (\<lambda>buffer pos. rbind (db_write buffer pos d) (\<lambda>(n, buffer). Inr (pos + n, buffer))) d"
  unfolding appends_def
proof (intro allI impI, elim conjE)
  fix buffer pos s n
  assume "filled buffer pos s n" "length s + length d \<le> n"
  then obtain buffer' where "db_write buffer pos d = Inr (of_nat (length d), buffer')"
    "filled buffer' (pos + of_nat (length d)) (s @ d) n" "db_begin buffer' = db_begin buffer" "db_end buffer' = db_end buffer"
    by (rule db_write_filled)
  then show "\<exists>pos' buffer'. rbind (db_write buffer pos d) (\<lambda>(n, buffer). Inr (pos + n, buffer)) = Inr (pos', buffer') \<and>
    filled buffer' pos' (s @ d) n \<and> db_begin buffer' = db_begin buffer \<and> db_end buffer' = db_end buffer" by simp
qed

lemma appends_Int: "appends (\<lambda>buffer pos. serializeInt buffer pos val) (le_bytes val)"
  unfolding serializeInt_def by (rule appends_write)

lemma appends_String: "appends (\<lambda>buffer pos. serializeString buffer pos val) (string_code val)"
  unfolding serializeString_def string_code_def by (intro appends_seq appends_Int appends_write)

lemma appends_chunks: "appends (\<lambda>buffer pos. serialize_chunks buffer pos cs) (concat cs)"
proof (induction cs)
  case (Cons c cs)
  have "(\<lambda>buffer pos. serialize_chunks buffer pos (c # cs)) =
    (\<lambda>buffer pos. rbind (rbind (db_write buffer pos c) (\<lambda>(n, buffer). Inr (pos + n, buffer)))
       (\<lambda>(pos, buffer). serialize_chunks buffer pos cs))"
    by (simp add: fun_eq_iff rbind_def split: sum.splits)
  then show ?case using appends_seq [OF appends_write Cons.IH] by simp
qed (simp add: appends_nil)

lemma appends_Buffer:
  assumes "db_ok src"
  shows "appends (\<lambda>buffer pos. serializeBuffer buffer pos src) (section_code (db_text src))"
proof -
  obtain cs where cs: "db_chunks src = Inr cs" "concat cs = db_text src" using db_chunks_text [OF assms] by blast
  have "db_size src = of_nat (length (db_text src))" by (simp add: length_db_text [OF assms])
  then show ?thesis
    using appends_seq [OF appends_Int appends_chunks, of "db_size src" cs]
    by (simp add: serializeBuffer_def cs section_code_def)
qed

lemma appends_pairs: "appends (\<lambda>buffer pos. serialize_pairs buffer pos m) (pairs_code m)"
proof (induction m)
  case (Cons e m)
  then show ?case
    by (cases e) (simp add: appends_seq appends_String)
qed (simp add: appends_nil)

lemma appends_files: "appends (\<lambda>buffer pos. serialize_files b buffer pos fs) (files_code b fs)"
proof (induction fs)
  case (Cons e fs)
  then show ?case
    by (cases e) (simp add: file_code_def appends_seq appends_String appends_Int)
qed (simp add: appends_nil)

lemma appends_Files:
  "appends (\<lambda>buffer pos. serializeFiles r buffer pos) (section_code (files_code (db_begin (rq_body r)) (rq_files r)))"
  unfolding serializeFiles_def section_code_def filesSerializedSize_def files_size_code [where b = "db_begin (rq_body r)"]
  by (intro appends_seq appends_Int appends_files)

lemma appends_Args: "appends (\<lambda>buffer pos. serializeArgs r buffer pos) (section_code (pairs_code (rq_args r)))"
  unfolding serializeArgs_def section_code_def argsSerializedSize_def pairs_size_code
  by (intro appends_seq appends_Int appends_pairs)

text \<open>Resizing a buffer keeps the text up to the new size.\<close>

lemma db_resize_text:
  assumes "db_ok d" "db_data d \<noteq> None" "unat (db_begin d) + unat n < 2 ^ 62"
  obtains d' where "db_resize d n = Inr d'" "db_ok d'" "db_data d' \<noteq> None" "length (db_text d') = unat n"
    "db_begin d' = db_begin d" "db_end d' = db_begin d + n" "db_in_memory d \<longrightarrow> db_in_memory d'"
    "length (db_text d) \<le> unat n \<longrightarrow> take (length (db_text d)) (db_text d') = db_text d"
proof -
  obtain b where b: "db_data d = Some b" "impl_ok b" using assms(1,2) by (auto simp: db_ok_def)
  have u: "unat (db_begin d + n) = unat (db_begin d) + unat n"
    using assms(3) by (subst unat_add_u64) simp_all
  then obtain b' where b': "impl_resize b (db_begin d + n) = Inr b'" "impl_ok b'"
    "impl_bytes b' = take (unat (db_begin d + n)) (impl_bytes b) @
       replicate (unat (db_begin d + n) - length (impl_bytes b)) (CHR 0x00)"
    using im.resize_law [OF b(2), of "db_begin d + n"] assms(3) by auto
  have len: "length (impl_bytes b') = unat (db_begin d + n)" by (simp add: b'(3))
  have bounds: "unat (db_begin d) \<le> unat (db_end d)" "unat (db_end d) \<le> length (impl_bytes b)"
    using assms(1) b(1) by (auto simp: db_ok_def word_le_nat_alt)
  have mem: "db_in_memory d \<longrightarrow> db_in_memory (d\<lparr>db_data := Some b', db_end := db_begin d + n\<rparr>)"
    using b b'(1) by (cases b) (auto simp: db_in_memory_def rbind_eq_Inr_conv)
  show ?thesis
  proof (rule that)
    show "db_resize d n = Inr (d\<lparr>db_data := Some b', db_end := db_begin d + n\<rparr>)"
      by (simp add: db_resize_def db_impl_def b b')
    show "length (db_text d) \<le> unat n \<longrightarrow>
        take (length (db_text d)) (db_text (d\<lparr>db_data := Some b', db_end := db_begin d + n\<rparr>)) = db_text d"
      using bounds u by (auto simp: db_text_def b(1) b'(3) slice_def take_drop min_def)
  qed (use b' len u mem in \<open>simp_all add: db_ok_def db_text_def word_le_nat_alt\<close>)
qed

definition env_code :: "('s, 'u) request \<Rightarrow> string" where
  "env_code r = section_code (pairs_code (rq_headers r)) @ section_code (pairs_code (rq_cookies r)) @
     section_code (pairs_code (rq_vars r))"

lemma serializeEnv_filled:
  assumes "db_ok buffer" "db_data buffer \<noteq> None"
    and "unat (db_begin buffer) + length (env_code r) + k < 2 ^ 62"
  obtains pos buffer' where "serializeEnv r buffer (of_nat k) = Inr (pos, buffer')"
    "filled buffer' pos (env_code r) (length (env_code r) + k)" "db_begin buffer' = db_begin buffer"
proof -
  let ?n = "of_nat k + pairs_size (rq_headers r) + pairs_size (rq_cookies r) + pairs_size (rq_vars r) + 3 * 8 :: u64"
  have "?n = of_nat (length (env_code r) + k)" by (simp add: env_code_def pairs_size_code)
  moreover have "unat (of_nat (length (env_code r) + k) :: u64) = length (env_code r) + k"
    by (rule unat_of_nat_u64) (use assms(3) in simp)
  ultimately have n: "unat ?n = length (env_code r) + k" by (simp only:)
  obtain b where b: "db_resize buffer ?n = Inr b" "db_ok b" "length (db_text b) = unat ?n" "db_begin b = db_begin buffer"
    by (rule db_resize_text [OF assms(1,2), of ?n]) (use assms(3) n in simp)
  have f: "filled b 0 [] (length (env_code r) + k)" using b n by (simp add: filled_def)
  have a: "appends (\<lambda>buffer pos.
         rbind (serializeInt buffer pos (pairs_size (rq_headers r))) (\<lambda>(pos, buffer).
         rbind (serialize_pairs buffer pos (rq_headers r)) (\<lambda>(pos, buffer).
         rbind (serializeInt buffer pos (pairs_size (rq_cookies r))) (\<lambda>(pos, buffer).
         rbind (serialize_pairs buffer pos (rq_cookies r)) (\<lambda>(pos, buffer).
         rbind (serializeInt buffer pos (pairs_size (rq_vars r))) (\<lambda>(pos, buffer).
         serialize_pairs buffer pos (rq_vars r))))))) (env_code r)"
    unfolding env_code_def section_code_def pairs_size_code append_assoc
    by (intro appends_seq appends_Int appends_pairs)
  show ?thesis
    by (rule appendsD [OF a f]) (use that b in \<open>simp_all add: serializeEnv_def Let_def\<close>)
qed

lemma request_code_env:
  "request_code r = env_code r @ section_code (db_text (rq_body r)) @
     section_code (files_code (db_begin (rq_body r)) (rq_files r)) @ section_code (pairs_code (rq_args r))"
  by (simp add: request_code_def env_code_def)

lemma serialize_text:
  assumes "db_ok buffer" "db_data buffer \<noteq> None" "db_ok (rq_body r)"
    and "unat (db_begin buffer) + length (request_code r) < 2 ^ 62"
  obtains buffer' where "serialize r buffer = Inr buffer'" "db_ok buffer'" "db_text buffer' = request_code r"
proof -
  let ?t = "section_code (db_text (rq_body r)) @
     section_code (files_code (db_begin (rq_body r)) (rq_files r)) @ section_code (pairs_code (rq_args r))"
  have k: "8 + db_size (rq_body r) + 8 + filesSerializedSize r + 8 + argsSerializedSize r = of_nat (length ?t)"
    by (simp add: length_db_text [OF assms(3)] filesSerializedSize_def argsSerializedSize_def pairs_size_code
      files_size_code [where b = "db_begin (rq_body r)"])
  obtain pos b where b: "serializeEnv r buffer (of_nat (length ?t)) = Inr (pos, b)"
    "filled b pos (env_code r) (length (request_code r))"
    by (rule serializeEnv_filled [OF assms(1,2), of r "length ?t"])
      (use assms(4) in \<open>simp_all add: request_code_env add.assoc\<close>)
  have "appends (\<lambda>buffer pos. rbind (serializeBuffer buffer pos (rq_body r)) (\<lambda>(pos, buffer).
         rbind (serializeFiles r buffer pos) (\<lambda>(pos, buffer). serializeArgs r buffer pos))) ?t"
    by (intro appends_seq appends_Buffer appends_Files appends_Args assms(3))
  then obtain pos' b' where b': "rbind (serializeBuffer b pos (rq_body r)) (\<lambda>(pos, buffer).
         rbind (serializeFiles r buffer pos) (\<lambda>(pos, buffer). serializeArgs r buffer pos)) = Inr (pos', b')"
    "filled b' pos' (env_code r @ ?t) (length (request_code r))"
    by (rule appendsD [OF _ b(2)]) (simp add: request_code_env)
  have "serialize r buffer = Inr b'"
    unfolding serialize_def Let_def k using b b'(1) by (auto simp: rbind_eq_Inr_conv)
  moreover have "db_text b' = request_code r" using b'(2) unfolding request_code_env by (rule filled_full)
  ultimately show ?thesis using b'(2) that by (simp add: filled_def)
qed

section \<open>The reader\<close>

text \<open>At the position, the rest of the buffer is a text.\<close>

definition rest_at :: "data_buffer \<Rightarrow> u64 \<Rightarrow> string \<Rightarrow> bool" where
  "rest_at buffer pos u \<longleftrightarrow>
     db_ok buffer \<and> unat pos \<le> length (db_text buffer) \<and> drop (unat pos) (db_text buffer) = u"

lemma rest_at_length: "rest_at buffer pos u \<Longrightarrow> unat pos + length u = length (db_text buffer)"
  by (auto simp: rest_at_def)

lemma db_read_rest:
  assumes "rest_at buffer pos (d @ u)" "unat n = length d"
  shows "db_read buffer pos n = Inr d" "rest_at buffer (pos + of_nat (length d)) u"
    "unat (pos + of_nat (length d)) = unat pos + length d"
proof -
  have r: "db_ok buffer" "drop (unat pos) (db_text buffer) = d @ u" using assms(1) by (simp_all add: rest_at_def)
  have len: "unat pos + length d + length u = length (db_text buffer)"
    using rest_at_length [OF assms(1)] by simp
  show "db_read buffer pos n = Inr d" by (simp add: db_read_text [OF r(1)] slice_def r(2) assms(2))
  show p: "unat (pos + of_nat (length d)) = unat pos + length d"
    using len db_text_bound [OF r(1)] by (subst unat_add_u64) simp_all
  have "drop (unat pos + length d) (db_text buffer) = u"
    using r(2) by (metis add.commute append_eq_conv_conj drop_drop)
  then show "rest_at buffer (pos + of_nat (length d)) u" using r(1) len by (simp add: rest_at_def p)
qed

lemma parseInt_rest:
  assumes "rest_at buffer pos (le_bytes v @ u)"
  shows "parseInt buffer pos = Inr (pos + 8, v)" "rest_at buffer (pos + 8) u" "unat (pos + 8) = unat pos + 8"
  using db_read_rest [OF assms, of 8] by (simp_all add: parseInt_def)

lemma parseString_rest:
  assumes "rest_at buffer pos (string_code v @ u)"
  obtains pos' where "parseString buffer pos = Inr (pos', v)" "rest_at buffer pos' u"
    "unat pos' = unat pos + length (string_code v)"
proof -
  have r: "rest_at buffer pos (le_bytes (of_nat (length v)) @ v @ u)" using assms by (simp add: string_code_def)
  note i = parseInt_rest [OF r]
  have lv: "length v < 2 ^ 63"
    using rest_at_length [OF assms] db_text_bound [of buffer] assms by (auto simp: rest_at_def)
  then have ul: "unat (of_nat (length v) :: u64) = length v" by (intro unat_of_nat_u64) simp
  note d = db_read_rest [OF i(2) ul]
  have "\<not> of_nat (length v) \<ge> (2 ^ 63 :: u64)" using lv by (simp add: word_le_nat_alt ul)
  then show ?thesis using i(1,3) d ul
    by (intro that [of "pos + 8 + of_nat (length v)"]) (simp_all add: parseString_def)
qed

lemma parse_pairs_rest:
  assumes "rest_at buffer pos (pairs_code ps @ u)" "unat pos_end = unat pos + length (pairs_code ps)"
  shows "parse_pairs ins buffer pos pos_end m = Some (Inr (pos_end, foldl (\<lambda>m (k, v). ins k v m) m ps))"
    and "rest_at buffer pos_end u"
  using assms
proof (induction ps arbitrary: pos m)
  case Nil
  { case 1 then have "pos = pos_end" by (simp add: word_unat_eq_iff)
    then show ?case by (subst parse_pairs.simps) simp }
  { case 2 then have "pos = pos_end" by (simp add: word_unat_eq_iff)
    then show ?case using 2 by simp }
next
  case (Cons e ps)
  obtain k v where e: "e = (k, v)" by (cases e)
  { fix pos m
    assume r: "rest_at buffer pos (pairs_code (e # ps) @ u)" and pe: "unat pos_end = unat pos + length (pairs_code (e # ps))"
    from r have r1: "rest_at buffer pos (string_code k @ string_code v @ pairs_code ps @ u)" by (simp add: e)
    obtain p1 where p1: "parseString buffer pos = Inr (p1, k)" "rest_at buffer p1 (string_code v @ pairs_code ps @ u)"
      "unat p1 = unat pos + length (string_code k)" by (rule parseString_rest [OF r1])
    obtain p2 where p2: "parseString buffer p1 = Inr (p2, v)" "rest_at buffer p2 (pairs_code ps @ u)"
      "unat p2 = unat p1 + length (string_code v)" by (rule parseString_rest [OF p1(2)])
    have pe2: "unat pos_end = unat p2 + length (pairs_code ps)" using pe p1(3) p2(3) by (simp add: e)
    have "pos < pos_end" using pe by (simp add: word_less_nat_alt e)
    then have "parse_pairs ins buffer pos pos_end m = parse_pairs ins buffer p2 pos_end (ins k v m)"
      using p1(1) p2(1) by (subst parse_pairs.simps) simp
    with Cons.IH [OF p2(2) pe2]
    have "parse_pairs ins buffer pos pos_end m = Some (Inr (pos_end, foldl (\<lambda>m (k, v). ins k v m) m (e # ps)))"
      "rest_at buffer pos_end u" by (simp_all add: e) }
  note step = this
  { case 1 then show ?case by (rule step(1)) }
  { case 2 then show ?case by (rule step(2)) }
qed

lemma section_rest:
  assumes "rest_at buffer pos (section_code d @ u)"
  shows "parseInt buffer pos = Inr (pos + 8, of_nat (length d))" "rest_at buffer (pos + 8) (d @ u)"
    "unat (pos + 8 + of_nat (length d)) = unat (pos + 8) + length d"
    "\<not> pos + 8 + of_nat (length d) > db_size buffer" "unat (pos + 8) = unat pos + 8"
proof -
  have r: "rest_at buffer pos (le_bytes (of_nat (length d)) @ d @ u)" using assms by (simp add: section_code_def)
  note i = parseInt_rest [OF r]
  have ok: "db_ok buffer" using assms by (simp add: rest_at_def)
  have len: "unat pos + 8 + length d + length u = length (db_text buffer)"
    using rest_at_length [OF assms] by simp
  show "parseInt buffer pos = Inr (pos + 8, of_nat (length d))" "rest_at buffer (pos + 8) (d @ u)" 
    "unat (pos + 8) = unat pos + 8" by (fact i)+
  show u: "unat (pos + 8 + of_nat (length d)) = unat (pos + 8) + length d"
    using len i(3) db_text_bound [OF ok] by (subst unat_add_u64) simp_all
  show "\<not> pos + 8 + of_nat (length d) > db_size buffer"
    using len i(3) length_db_text [OF ok] by (simp add: word_less_nat_alt u)
qed

lemma parse_section_rest:
  assumes "rest_at buffer pos (section_code (pairs_code ps) @ u)"
  obtains pos' where "parse_section msg ins buffer pos m = Inr (pos', foldl (\<lambda>m (k, v). ins k v m) m ps)"
    "rest_at buffer pos' u"
proof -
  note s = section_rest [OF assms]
  show ?thesis
  proof (rule that)
    show "parse_section msg ins buffer pos m =
        Inr (pos + 8 + of_nat (length (pairs_code ps)), foldl (\<lambda>m (k, v). ins k v m) m ps)"
      unfolding parse_section_def s(1) Let_def sum.case prod.case
      by (subst if_not_P [OF s(4)], subst parse_pairs_rest(1) [OF s(2,3)]) simp
  qed (rule parse_pairs_rest(2) [OF s(2,3)])
qed

section \<open>Files are parts of the body\<close>

definition file_in :: "data_buffer \<Rightarrow> remote_file \<Rightarrow> bool" where
  "file_in b f \<longleftrightarrow> file_name f \<noteq> [] \<and> db_data (file_data f) = db_data b \<and> db_begin b \<le> db_begin (file_data f) \<and>
     db_begin (file_data f) \<le> db_end (file_data f) \<and> db_end (file_data f) \<le> db_end b"

definition moved_file :: "data_buffer \<Rightarrow> data_buffer \<Rightarrow> remote_file \<Rightarrow> remote_file" where
  "moved_file b b' f = f\<lparr>file_data := \<lparr>db_data = db_data b',
     db_begin = db_begin (file_data f) - db_begin b + db_begin b',
     db_end = db_end (file_data f) - db_begin b + db_begin b'\<rparr>\<rparr>"

lemma moved_file_fields [simp]:
  "file_name (moved_file b b' f) = file_name f" "file_type (moved_file b b' f) = file_type f"
  by (simp_all add: moved_file_def)

lemma part_text:
  assumes "db_ok b" "db_data d = db_data b" "db_begin b \<le> db_begin d" "db_begin d \<le> db_end d" "db_end d \<le> db_end b"
  shows "db_text d = slice (unat (db_begin d) - unat (db_begin b)) (unat (db_end d) - unat (db_begin d)) (db_text b)"
  using assms
  by (auto simp: db_text_def db_ok_def word_le_nat_alt slice_def drop_take split: option.splits)

lemma moved_bounds:
  assumes "db_ok b" "db_ok b'" "db_size b' = db_size b" "db_begin b \<le> e" "e \<le> db_end b"
  shows "unat (e - db_begin b + db_begin b') = unat e - unat (db_begin b) + unat (db_begin b')"
    "unat (e - db_begin b + db_begin b') \<le> unat (db_end b')"
proof -
  have l: "length (db_text b') = length (db_text b)" using assms(1-3) by (simp add: length_db_text)
  have e: "unat (e - db_begin b) = unat e - unat (db_begin b)"
    using assms(4) by (simp add: unat_sub_u64 word_le_nat_alt)
  have be: "db_begin b' \<le> db_end b'" using assms(2) by (auto simp: db_ok_def split: option.splits)
  have "unat (db_size b') = unat (db_end b') - unat (db_begin b')"
    using be by (simp add: db_size_def unat_sub_u64 word_le_nat_alt)
  moreover have "unat (db_size b) = unat (db_end b) - unat (db_begin b)"
    using assms(4,5) by (simp add: db_size_def unat_sub_u64 word_le_nat_alt)
  ultimately have le: "unat e - unat (db_begin b) + unat (db_begin b') \<le> unat (db_end b')"
    using assms(3-5) be by (simp add: word_le_nat_alt)
  then show "unat (e - db_begin b + db_begin b') = unat e - unat (db_begin b) + unat (db_begin b')"
    using le_less_trans [OF le unat_less_u64] e by (subst unat_add_u64) simp_all
  with le show "unat (e - db_begin b + db_begin b') \<le> unat (db_end b')" by simp
qed

lemma moved_text:
  assumes "file_in b f" "db_ok b" "db_ok b'" "db_text b' = db_text b"
  shows "db_text (file_data (moved_file b b' f)) = db_text (file_data f)"
proof -
  let ?d = "file_data (moved_file b b' f)"
  have f: "db_data (file_data f) = db_data b" "db_begin b \<le> db_begin (file_data f)"
    "db_begin (file_data f) \<le> db_end (file_data f)" "db_end (file_data f) \<le> db_end b"
    using assms(1) by (simp_all add: file_in_def)
  have sz: "db_size b' = db_size b" using assms(2-4) by (metis length_db_text word_unat_eq_iff)
  note mb = moved_bounds [OF assms(2,3) sz]
  have b: "unat (db_begin ?d) = unat (db_begin (file_data f)) - unat (db_begin b) + unat (db_begin b')"
    "unat (db_end ?d) = unat (db_end (file_data f)) - unat (db_begin b) + unat (db_begin b')"
    "unat (db_end ?d) \<le> unat (db_end b')"
    using mb [of "db_begin (file_data f)"] mb [of "db_end (file_data f)"] f(2-4)
    by (simp_all add: moved_file_def)
  have "db_text ?d = slice (unat (db_begin ?d) - unat (db_begin b')) (unat (db_end ?d) - unat (db_begin ?d)) (db_text b')"
    using b f(2,3) by (intro part_text assms(3)) (simp_all add: moved_file_def word_le_nat_alt)
  also have "\<dots> = db_text (file_data f)"
    using b(1,2) f(2,3) assms(4) by (simp add: part_text [OF assms(2) f] word_le_nat_alt)
  finally show ?thesis .
qed

lemma parse_file_rest:
  assumes "rest_at buffer pos (file_code (db_begin b) (k, f) @ u)" "file_in b f"
    and "db_ok b" "db_ok b'" "db_size b' = db_size b" "db_data b' \<noteq> None"
  obtains pos' where "parse_file b' buffer pos = Inr (pos', k, moved_file b b' f)" "rest_at buffer pos' u"
    "unat pos' = unat pos + length (file_code (db_begin b) (k, f))"
proof -
  let ?o = "db_begin (file_data f) - db_begin b" and ?l = "db_end (file_data f) - db_begin (file_data f)"
  have r: "rest_at buffer pos (string_code k @ string_code (file_name f) @ string_code (file_type f) @
      le_bytes ?o @ le_bytes ?l @ u)" using assms(1) by (simp add: file_code_def)
  obtain p1 where p1: "parseString buffer pos = Inr (p1, k)" "rest_at buffer p1 (string_code (file_name f) @
      string_code (file_type f) @ le_bytes ?o @ le_bytes ?l @ u)" "unat p1 = unat pos + length (string_code k)"
    by (rule parseString_rest [OF r])
  obtain p2 where p2: "parseString buffer p1 = Inr (p2, file_name f)" "rest_at buffer p2
      (string_code (file_type f) @ le_bytes ?o @ le_bytes ?l @ u)" "unat p2 = unat p1 + length (string_code (file_name f))"
    by (rule parseString_rest [OF p1(2)])
  obtain p3 where p3: "parseString buffer p2 = Inr (p3, file_type f)" "rest_at buffer p3
      (le_bytes ?o @ le_bytes ?l @ u)" "unat p3 = unat p2 + length (string_code (file_type f))"
    by (rule parseString_rest [OF p2(2)])
  note p4 = parseInt_rest [OF p3(2)]
  note p5 = parseInt_rest [OF p4(2)]
  have fi: "db_begin b \<le> db_end (file_data f)" "db_end (file_data f) \<le> db_end b" "file_name f \<noteq> []"
    using assms(2) by (auto simp: file_in_def)
  obtain im where im: "db_data b' = Some im" "impl_ok im" "unat (db_end b') \<le> length (impl_bytes im)"
    using assms(4,6) by (auto simp: db_ok_def)
  have "\<not> db_end (file_data f) - db_begin b + db_begin b' > impl_size im"
    using moved_bounds(2) [OF assms(3-5) fi(1,2)] im im.size_law [OF im(2)]
    by (simp add: word_less_nat_alt)
  then have "db_part b' (?o + db_begin b') (?o + ?l + db_begin b') = Inr (file_data (moved_file b b' f))"
    by (simp add: db_part_def db_impl_def im(1) moved_file_def)
  then have "parse_file b' buffer pos = Inr (p3 + 8 + 8, k, moved_file b b' f)"
    using fi(3) by (simp add: parse_file_def p1(1) p2(1) p3(1) p4(1) p5(1) file_new_def moved_file_def)
  then show ?thesis
    by (rule that) (use p1(3) p2(3) p3(3) p4(3) p5(2,3) in simp_all)
qed

lemma parse_files_rest:
  assumes "rest_at buffer pos (files_code (db_begin b) fs @ u)"
    and "unat pos_end = unat pos + length (files_code (db_begin b) fs)"
    and "\<forall>(k, f) \<in> set fs. file_in b f" "db_ok b" "db_ok b'" "db_size b' = db_size b" "db_data b' \<noteq> None"
  shows "parse_files b' buffer pos pos_end m = Some (Inr (pos_end,
      foldl (\<lambda>m (k, v). map_insert string_lt k v m) m (map (apsnd (moved_file b b')) fs))) \<and> rest_at buffer pos_end u"
  using assms(1-3)
proof (induction fs arbitrary: pos m)
  case Nil
  then have "pos = pos_end" by (simp add: word_unat_eq_iff)
  then show ?case using Nil by (subst parse_files.simps) simp
next
  case (Cons e fs)
  obtain k f where e: "e = (k, f)" by (cases e)
  have r: "rest_at buffer pos (file_code (db_begin b) (k, f) @ files_code (db_begin b) fs @ u)" "file_in b f"
    using Cons.prems(1,3) by (simp_all add: e)
  obtain p where p: "parse_file b' buffer pos = Inr (p, k, moved_file b b' f)"
    "rest_at buffer p (files_code (db_begin b) fs @ u)"
    "unat p = unat pos + length (file_code (db_begin b) (k, f))"
    by (rule parse_file_rest [OF r assms(4-7)])
  have "pos < pos_end" using Cons.prems(2) by (simp add: word_less_nat_alt e)
  then have "parse_files b' buffer pos pos_end m =
      parse_files b' buffer p pos_end (map_insert string_lt k (moved_file b b' f) m)"
    using p(1) by (subst parse_files.simps) simp
  then show ?case using Cons.IH [OF p(2)] Cons.prems(2,3) p(3) by (simp add: e)
qed

lemma parseBody_rest:
  assumes "rest_at buffer pos (section_code d @ u)" "db_data buffer \<noteq> None"
  obtains pos' body where "parseBody buffer pos r = Inr (pos', r\<lparr>rq_body := body\<rparr>)" "rest_at buffer pos' u"
    "db_ok body" "db_text body = d" "db_data body \<noteq> None"
proof -
  note s = section_rest [OF assms(1)]
  let ?e = "pos + 8 + of_nat (length d)"
  have ok: "db_ok buffer" using assms(1) by (simp add: rest_at_def)
  obtain im where im: "db_data buffer = Some im" "impl_ok im" "db_begin buffer \<le> db_end buffer"
    "unat (db_end buffer) \<le> length (impl_bytes im)"
    using ok assms(2) by (auto simp: db_ok_def)
  have len: "length (db_text buffer) = unat (db_end buffer) - unat (db_begin buffer)"
    using im(3) by (simp add: length_db_text [OF ok] db_size_def unat_sub_u64 word_le_nat_alt)
  have l2: "unat (pos + 8) + (length d + length u) = length (db_text buffer)"
    using rest_at_length [OF s(2)] by simp
  have im63: "length (impl_bytes im) < 2 ^ 63" by (rule im.bytes_length [OF im(2)])
  have u: "unat (?e + db_begin buffer) = unat ?e + unat (db_begin buffer)"
    "unat (pos + 8 + db_begin buffer) = unat (pos + 8) + unat (db_begin buffer)"
    using s(3) l2 len im(3,4) im63 by (subst unat_add_u64; simp add: word_le_nat_alt)+
  let ?body = "\<lparr>db_data = Some im, db_begin = pos + 8 + db_begin buffer, db_end = ?e + db_begin buffer\<rparr>"
  have ebound: "unat (?e + db_begin buffer) \<le> unat (db_end buffer)"
    using u s(3) l2 len im(3) by (simp add: word_le_nat_alt)
  then have "\<not> ?e + db_begin buffer > impl_size im"
    using im(4) im.size_law [OF im(2)] by (simp add: word_less_nat_alt)
  then have part: "db_part buffer (pos + 8 + db_begin buffer) (?e + db_begin buffer) = Inr ?body"
    by (simp add: db_part_def db_impl_def im(1))
  have pb: "parseBody buffer pos r = Inr (?e, r\<lparr>rq_body := ?body\<rparr>)"
    unfolding parseBody_def s(1) Let_def sum.case prod.case if_not_P [OF s(4)] part ..
  have okb: "db_ok ?body" using im u s(3) ebound by (simp add: db_ok_def word_le_nat_alt)
  have "db_text ?body = slice (unat (pos + 8)) (length d) (db_text buffer)"
    using u s(3) ebound im(1,3) by (subst part_text [OF ok]) (simp_all add: word_le_nat_alt)
  also have "slice (unat (pos + 8)) (length d) (db_text buffer) = d" using s(2) by (simp add: rest_at_def slice_def)
  finally have tb: "db_text ?body = d" by simp
  have "rest_at buffer ?e u" using db_read_rest(2) [OF s(2), of "of_nat (length d)"] l2 len im(4) im63 by simp
  from that [OF pb this okb tb] show ?thesis by simp
qed

section \<open>The round trip\<close>

lemma parseHeaders_rest:
  assumes "rest_at buffer pos (section_code (pairs_code m) @ u)" "om_sorted StringCILess m" "rq_headers r = []"
  obtains pos' where "parseHeaders buffer pos r = Inr (pos', r\<lparr>rq_headers := m\<rparr>)" "rest_at buffer pos' u"
  by (rule parse_section_rest [OF assms(1), of "''Cannot parse request headers''" "map_insert StringCILess" "rq_headers r"])
    (use that assms(3) ci_order.rebuild [OF assms(2)] in \<open>auto simp: parseHeaders_def in_field_def map_insert_def [abs_def]\<close>)

lemma parseCookieMap_rest:
  assumes "rest_at buffer pos (section_code (pairs_code m) @ u)" "om_sorted string_lt m" "rq_cookies r = []"
  obtains pos' where "parseCookieMap buffer pos r = Inr (pos', r\<lparr>rq_cookies := m\<rparr>)" "rest_at buffer pos' u"
  by (rule parse_section_rest [OF assms(1), of "''Cannot parse request cookies''" "map_insert string_lt" "rq_cookies r"])
    (use that assms(3) string_order.rebuild [OF assms(2)] in \<open>auto simp: parseCookieMap_def in_field_def map_insert_def [abs_def]\<close>)

lemma parseVars_rest:
  assumes "rest_at buffer pos (section_code (pairs_code m) @ u)" "om_sorted string_lt m" "rq_vars r = []"
  obtains pos' where "parseVars buffer pos r = Inr (pos', r\<lparr>rq_vars := m\<rparr>)" "rest_at buffer pos' u"
  by (rule parse_section_rest [OF assms(1), of "''Cannot parse request vars''" "map_insert string_lt" "rq_vars r"])
    (use that assms(3) string_order.rebuild [OF assms(2)] in \<open>auto simp: parseVars_def in_field_def map_insert_def [abs_def]\<close>)

lemma foldl_snoc: "foldl (\<lambda>m (k, v). m @ [(k, g v)]) m ps = m @ map (apsnd g) ps"
  by (induction ps arbitrary: m) auto

lemma parseArgs_rest:
  assumes "rest_at buffer pos (section_code (pairs_code m) @ u)"
  obtains pos' where "parseArgs buffer pos r = Inr (pos', r\<lparr>rq_args := rq_args r @ map (apsnd restored_arg) m\<rparr>)"
  by (rule parse_section_rest [OF assms(1), of "''Cannot parse request args''"
        "\<lambda>name val m. m @ [(name, restored_arg val)]" "rq_args r"])
    (use that in \<open>auto simp: parseArgs_def in_field_def foldl_snoc\<close>)

lemma om_sorted_apsnd: "om_sorted lt (map (apsnd g) m) = om_sorted lt m"
  by (induction m) (auto simp: om_sorted_def)

lemma parseFiles_rest:
  assumes "rest_at buffer pos (section_code (files_code (db_begin b) fs) @ u)" "om_sorted string_lt fs" "rq_files r = []"
    and "\<forall>(k, f) \<in> set fs. file_in b f" "db_ok b" "db_ok (rq_body r)" "db_text (rq_body r) = db_text b"
    and "db_data (rq_body r) \<noteq> None"
  obtains pos' where "parseFiles buffer pos r = Inr (pos', r\<lparr>rq_files := map (apsnd (moved_file b (rq_body r))) fs\<rparr>)"
    "rest_at buffer pos' u"
proof -
  note s = section_rest [OF assms(1)]
  have sz: "db_size (rq_body r) = db_size b" using assms(5-7) by (metis length_db_text word_unat_eq_iff)
  have st: "om_sorted string_lt (map (apsnd (moved_file b (rq_body r))) fs)"
    using assms(2) by (simp add: om_sorted_apsnd)
  note p = parse_files_rest [OF s(2,3) assms(4-6) sz assms(8), of "[]"]
  have m: "foldl (\<lambda>m (k, v). map_insert string_lt k v m) [] (map (apsnd (moved_file b (rq_body r))) fs) =
      map (apsnd (moved_file b (rq_body r))) fs"
    using string_order.rebuild [OF st] by (simp add: map_insert_def [abs_def])
  show ?thesis
  proof (rule that)
    show "parseFiles buffer pos r = Inr (pos + 8 + of_nat (length (files_code (db_begin b) fs)),
        r\<lparr>rq_files := map (apsnd (moved_file b (rq_body r))) fs\<rparr>)"
      unfolding parseFiles_def s(1) Let_def sum.case prod.case assms(3)
      by (subst if_not_P [OF s(4)]) (simp add: conjunct1 [OF p] m in_field_def)
  qed (rule conjunct2 [OF p])
qed

definition file_contents :: "(string \<times> remote_file) list \<Rightarrow> (string \<times> string \<times> string \<times> string) list" where
  "file_contents fs = map (\<lambda>(k, f). (k, file_name f, file_type f, db_text (file_data f))) fs"

lemma file_contents_moved:
  assumes "\<forall>(k, f) \<in> set fs. file_in b f" "db_ok b" "db_ok b'" "db_text b' = db_text b"
  shows "file_contents (map (apsnd (moved_file b b')) fs) = file_contents fs"
  using assms by (auto simp: file_contents_def moved_text)

lemma restore_code:
  assumes "rq_ok r" "db_ok (rq_body r)" "\<forall>(k, f) \<in> set (rq_files r). file_in (rq_body r) f"
    and "db_ok buffer" "db_data buffer \<noteq> None" "db_text buffer = request_code r"
  obtains body where "restore buffer q = Inr (q\<lparr>rq_headers := rq_headers r, rq_cookies := rq_cookies r,
      rq_vars := rq_vars r, rq_body := body,
      rq_files := map (apsnd (moved_file (rq_body r) body)) (rq_files r),
      rq_args := map (apsnd restored_arg) (rq_args r), rq_out_headers := []\<rparr>)"
    "db_ok body" "db_text body = db_text (rq_body r)"
proof -
  let ?q = "q\<lparr>rq_args := [], rq_vars := [], rq_files := [], rq_cookies := [], rq_headers := [], rq_out_headers := []\<rparr>"
  let ?a = "section_code (pairs_code (rq_args r))"
  let ?f = "section_code (files_code (db_begin (rq_body r)) (rq_files r)) @ ?a @ []"
  let ?b = "section_code (db_text (rq_body r)) @ ?f"
  have st: "om_sorted StringCILess (rq_headers r)" "om_sorted string_lt (rq_cookies r)" "om_sorted string_lt (rq_vars r)"
    "om_sorted string_lt (rq_files r)" using assms(1) by (simp_all add: rq_ok_def)
  have r0: "rest_at buffer 0 (section_code (pairs_code (rq_headers r)) @ section_code (pairs_code (rq_cookies r)) @
      section_code (pairs_code (rq_vars r)) @ ?b)"
    using assms(4,6) by (simp add: rest_at_def request_code_def)
  obtain p1 where p1: "parseHeaders buffer 0 ?q = Inr (p1, ?q\<lparr>rq_headers := rq_headers r\<rparr>)"
    "rest_at buffer p1 (section_code (pairs_code (rq_cookies r)) @ section_code (pairs_code (rq_vars r)) @ ?b)"
    by (rule parseHeaders_rest [OF r0 st(1), of ?q]) simp_all
  let ?q1 = "?q\<lparr>rq_headers := rq_headers r\<rparr>"
  obtain p2 where p2: "parseCookieMap buffer p1 ?q1 = Inr (p2, ?q1\<lparr>rq_cookies := rq_cookies r\<rparr>)"
    "rest_at buffer p2 (section_code (pairs_code (rq_vars r)) @ ?b)"
    by (rule parseCookieMap_rest [OF p1(2) st(2), of ?q1]) simp_all
  let ?q2 = "?q1\<lparr>rq_cookies := rq_cookies r\<rparr>"
  obtain p3 where p3: "parseVars buffer p2 ?q2 = Inr (p3, ?q2\<lparr>rq_vars := rq_vars r\<rparr>)" "rest_at buffer p3 ?b"
    by (rule parseVars_rest [OF p2(2) st(3), of ?q2]) simp_all
  let ?q3 = "?q2\<lparr>rq_vars := rq_vars r\<rparr>"
  obtain p4 body where p4: "parseBody buffer p3 ?q3 = Inr (p4, ?q3\<lparr>rq_body := body\<rparr>)" "rest_at buffer p4 ?f"
    "db_ok body" "db_text body = db_text (rq_body r)" "db_data body \<noteq> None"
    by (rule parseBody_rest [OF p3(2) assms(5), of ?q3])
  let ?q4 = "?q3\<lparr>rq_body := body\<rparr>"
  obtain p5 where p5: "parseFiles buffer p4 ?q4 =
      Inr (p5, ?q4\<lparr>rq_files := map (apsnd (moved_file (rq_body r) (rq_body ?q4))) (rq_files r)\<rparr>)" "rest_at buffer p5 (?a @ [])"
    by (rule parseFiles_rest [OF p4(2) st(4) _ assms(3,2), of ?q4]) (use p4 in simp_all)
  let ?q5 = "?q4\<lparr>rq_files := map (apsnd (moved_file (rq_body r) (rq_body ?q4))) (rq_files r)\<rparr>"
  obtain p6 where p6: "parseArgs buffer p5 ?q5 = Inr (p6, ?q5\<lparr>rq_args := rq_args ?q5 @ map (apsnd restored_arg) (rq_args r)\<rparr>)"
    by (rule parseArgs_rest [OF p5(2), of ?q5])
  have "restore buffer q = Inr (?q5\<lparr>rq_args := rq_args ?q5 @ map (apsnd restored_arg) (rq_args r)\<rparr>)"
    unfolding restore_def parse_request_def p1(1) p2(1) p3(1) p4(1) p5(1) p6 rbind_Inr prod.case ..
  then show ?thesis by (intro that [OF _ p4(3,4)]) simp
qed

section \<open>Reading ends on every buffer\<close>

lemma db_read_short:
  assumes "db_ok buffer" "unat pos \<le> length (db_text buffer)"
  obtains s where "db_read buffer pos n = Inr s" "unat (pos + of_nat (length s)) = unat pos + length s"
    "unat pos + length s \<le> length (db_text buffer)" "length s = min (unat n) (length (db_text buffer) - unat pos)"
proof -
  let ?s = "slice (unat pos) (unat n) (db_text buffer)"
  have l: "length ?s = min (unat n) (length (db_text buffer) - unat pos)" by simp
  then have le: "unat pos + length ?s \<le> length (db_text buffer)" using assms(2) by linarith
  have "unat (pos + of_nat (length ?s)) = unat pos + length ?s"
    using le db_text_bound [OF assms(1)] by (subst unat_add_u64) (simp_all del: length_slice)
  with l le show ?thesis by (intro that [of ?s]) (simp_all add: db_read_text [OF assms(1)] del: length_slice)
qed

text \<open>A reader stays inside the buffer; a strict one moves unless it is at the end.\<close>

definition progress :: "bool \<Rightarrow> data_buffer \<Rightarrow> (u64 \<Rightarrow> (u64 \<times> 'a) result) \<Rightarrow> bool" where
  "progress strict buffer f \<longleftrightarrow> (\<forall>pos. unat pos \<le> length (db_text buffer) \<longrightarrow>
     (case f pos of
        Inl e \<Rightarrow> e \<noteq> Diverges
      | Inr (pos', _) \<Rightarrow> unat pos \<le> unat pos' \<and> unat pos' \<le> length (db_text buffer) \<and>
          (strict \<and> unat pos < length (db_text buffer) \<longrightarrow> unat pos < unat pos')))"

lemma progress_weaken: "progress True buffer f \<Longrightarrow> progress b buffer f"
  unfolding progress_def by (fastforce split: sum.splits prod.splits)

lemma progress_bind:
  assumes "progress b buffer f" "\<And>x. progress False buffer (\<lambda>pos. g pos x)"
  shows "progress b buffer (\<lambda>pos. rbind (f pos) (\<lambda>(pos, x). g pos x))"
  unfolding progress_def
proof (intro allI impI)
  fix pos :: u64 assume pos: "unat pos \<le> length (db_text buffer)"
  have f: "case f pos of Inl e \<Rightarrow> e \<noteq> Diverges
      | Inr (pos', _) \<Rightarrow> unat pos \<le> unat pos' \<and> unat pos' \<le> length (db_text buffer) \<and>
          (b \<and> unat pos < length (db_text buffer) \<longrightarrow> unat pos < unat pos')"
    using assms(1) pos unfolding progress_def by blast
  show "case rbind (f pos) (\<lambda>(pos, x). g pos x) of Inl e \<Rightarrow> e \<noteq> Diverges
      | Inr (pos', _) \<Rightarrow> unat pos \<le> unat pos' \<and> unat pos' \<le> length (db_text buffer) \<and>
          (b \<and> unat pos < length (db_text buffer) \<longrightarrow> unat pos < unat pos')"
  proof (cases "f pos")
    case (Inr y)
    obtain p x where y: "y = (p, x)" by (cases y)
    have p: "unat pos \<le> unat p" "unat p \<le> length (db_text buffer)"
      "b \<and> unat pos < length (db_text buffer) \<longrightarrow> unat pos < unat p" using f by (simp_all add: Inr y)
    have "case g p x of Inl e \<Rightarrow> e \<noteq> Diverges
      | Inr (pos', _) \<Rightarrow> unat p \<le> unat pos' \<and> unat pos' \<le> length (db_text buffer)"
      using spec [OF assms(2) [of x, unfolded progress_def], of p] p(2) by (auto split: sum.splits)
    then show ?thesis using p by (auto simp: Inr y split: sum.splits)
  qed (use f in simp)
qed

lemma progress_pure: "m \<noteq> Inl Diverges \<Longrightarrow> progress False buffer (\<lambda>pos. rbind m (\<lambda>x. Inr (pos, h x)))"
  unfolding progress_def by (auto simp: rbind_def split: sum.splits)

lemma progress_parseInt: "db_ok buffer \<Longrightarrow> progress True buffer (parseInt buffer)"
  unfolding progress_def
proof (intro allI impI)
  fix pos :: u64 assume a: "db_ok buffer" "unat pos \<le> length (db_text buffer)"
  obtain s where s: "db_read buffer pos 8 = Inr s" "unat (pos + of_nat (length s)) = unat pos + length s"
    "unat pos + length s \<le> length (db_text buffer)" "length s = min (unat (8 :: u64)) (length (db_text buffer) - unat pos)"
    by (rule db_read_short [OF a, of 8])
  then show "case parseInt buffer pos of Inl e \<Rightarrow> e \<noteq> Diverges
      | Inr (pos', _) \<Rightarrow> unat pos \<le> unat pos' \<and> unat pos' \<le> length (db_text buffer) \<and>
          (True \<and> unat pos < length (db_text buffer) \<longrightarrow> unat pos < unat pos')" by (simp add: parseInt_def)
qed

lemma progress_read:
  assumes "db_ok buffer"
  shows "progress False buffer (\<lambda>pos. if c then Inl (LengthError msg)
     else rbind (db_read buffer pos n) (\<lambda>s. Inr (pos + of_nat (length s), h s)))"
  unfolding progress_def
proof (intro allI impI)
  fix pos :: u64 assume a: "unat pos \<le> length (db_text buffer)"
  obtain s where "db_read buffer pos n = Inr s" "unat (pos + of_nat (length s)) = unat pos + length s"
    "unat pos + length s \<le> length (db_text buffer)"
    by (rule db_read_short [OF assms a, of n])
  then show "case (if c then Inl (LengthError msg)
        else rbind (db_read buffer pos n) (\<lambda>s. Inr (pos + of_nat (length s), h s))) of Inl e \<Rightarrow> e \<noteq> Diverges
      | Inr (pos', _) \<Rightarrow> unat pos \<le> unat pos' \<and> unat pos' \<le> length (db_text buffer) \<and>
          (False \<and> unat pos < length (db_text buffer) \<longrightarrow> unat pos < unat pos')" by simp
qed

lemma progress_parseString: "db_ok buffer \<Longrightarrow> progress True buffer (parseString buffer)"
  unfolding parseString_def [abs_def] by (intro progress_bind progress_parseInt progress_read)

lemma db_part_not_diverges: "db_part b i j \<noteq> Inl Diverges"
  by (auto simp: db_part_def db_impl_def rbind_def split: sum.splits option.splits)

lemma progress_parse_file: "db_ok buffer \<Longrightarrow> progress True buffer (parse_file body buffer)"
proof -
  assume ok: "db_ok buffer"
  have fn: "rbind (db_part body i j) (\<lambda>fb. rbind (file_new n t fb) (\<lambda>f. Inr (pos, name, f))) =
      rbind (rbind (db_part body i j) (file_new n t)) (\<lambda>f. Inr (pos, name, f))" for i j n t and pos :: u64 and name :: string
    by (simp add: rbind_def split: sum.splits)
  have nd: "rbind (db_part body i j) (file_new n t) \<noteq> Inl Diverges" for i j n t
    using db_part_not_diverges [of body i j] by (auto simp: rbind_def file_new_def split: sum.splits)
  show ?thesis unfolding parse_file_def [abs_def] fn
    by (intro progress_bind progress_parseString [OF ok] progress_weaken [OF progress_parseString [OF ok]]
      progress_weaken [OF progress_parseInt [OF ok]] progress_pure nd)
qed

lemma progress_pair: "db_ok buffer \<Longrightarrow> progress True buffer (\<lambda>pos. rbind (parseString buffer pos)
    (\<lambda>(pos, name). rbind (parseString buffer pos) (\<lambda>(pos, v). Inr (pos, name, v))))"
  using progress_pure [of "Inr ()" buffer]
  by (intro progress_bind progress_parseString progress_weaken [OF progress_parseString]) simp_all

lemma progressD:
  assumes "progress True buffer f" "unat pos < length (db_text buffer)"
  obtains e where "f pos = Inl e" "e \<noteq> Diverges"
  | pos' x where "f pos = Inr (pos', x)" "unat pos < unat pos'" "unat pos' \<le> length (db_text buffer)"
proof -
  have "case f pos of Inl e \<Rightarrow> e \<noteq> Diverges
      | Inr (pos', _) \<Rightarrow> unat pos < unat pos' \<and> unat pos' \<le> length (db_text buffer)"
    using spec [OF assms(1) [unfolded progress_def], of pos] assms(2) by (auto split: sum.splits)
  then show ?thesis using that by (cases "f pos") auto
qed

text \<open>A loop over a strict reader ends.\<close>

lemma loop_ends:
  assumes "db_ok buffer" "unat pos_end \<le> length (db_text buffer)" "progress True buffer f"
    and step: "\<And>pos m. loop pos m = (if pos < pos_end then
        (case f pos of Inl e \<Rightarrow> Some (Inl (e, m)) | Inr (pos, x) \<Rightarrow> loop pos (ins x m)) else Some (Inr (pos, m)))"
  shows "unat pos \<le> length (db_text buffer) \<Longrightarrow> \<exists>x. loop pos m = Some x \<and>
    (case x of Inl (e, _) \<Rightarrow> e \<noteq> Diverges | Inr (pos', _) \<Rightarrow> unat pos' \<le> length (db_text buffer))"
proof (induction "length (db_text buffer) - unat pos" arbitrary: pos m rule: less_induct)
  case less
  show ?case
  proof (cases "pos < pos_end")
    case True
    then have lt: "unat pos < length (db_text buffer)" using assms(2) by (simp add: word_less_nat_alt)
    from assms(3) lt show ?thesis
    proof (cases rule: progressD)
      case (1 e)
      then show ?thesis using True by (subst step) simp
    next
      case (2 p x)
      have "length (db_text buffer) - unat p < length (db_text buffer) - unat pos" using 2 lt by linarith
      from less.hyps [OF this 2(3), of "ins x m"] show ?thesis using True 2(1) by (subst step) simp
    qed
  qed (use less.prems in \<open>subst step, simp\<close>)
qed

lemma parse_pairs_ends:
  assumes "db_ok buffer" "unat pos_end \<le> length (db_text buffer)" "unat pos \<le> length (db_text buffer)"
  shows "\<exists>x. parse_pairs ins buffer pos pos_end m = Some x \<and>
    (case x of Inl (e, _) \<Rightarrow> e \<noteq> Diverges | Inr (pos', _) \<Rightarrow> unat pos' \<le> length (db_text buffer))"
  by (rule loop_ends [where ins = "\<lambda>(k, v). ins k v", OF assms(1,2) progress_pair [OF assms(1)] _ assms(3)])
    (subst parse_pairs.simps, auto simp: rbind_def split: sum.splits)

lemma parse_files_ends:
  assumes "db_ok buffer" "unat pos_end \<le> length (db_text buffer)" "unat pos \<le> length (db_text buffer)"
  shows "\<exists>x. parse_files body buffer pos pos_end m = Some x \<and>
    (case x of Inl (e, _) \<Rightarrow> e \<noteq> Diverges | Inr (pos', _) \<Rightarrow> unat pos' \<le> length (db_text buffer))"
  by (rule loop_ends [where ins = "\<lambda>(k, v). map_insert string_lt k v",
        OF assms(1,2) progress_parse_file [OF assms(1), of body] _ assms(3)])
    (subst parse_files.simps, auto split: sum.splits)

text \<open>A step of the reader over the request does not diverge and stays inside the buffer.\<close>

definition stays :: "data_buffer \<Rightarrow> (cpp_error \<times> 'r) + (u64 \<times> 'r) \<Rightarrow> bool" where
  "stays buffer x \<longleftrightarrow>
     (case x of Inl (e, _) \<Rightarrow> e \<noteq> Diverges | Inr (pos, _) \<Rightarrow> unat pos \<le> length (db_text buffer))"

lemma stays_simps [simp]:
  "stays buffer (Inl (e, r)) \<longleftrightarrow> e \<noteq> Diverges"
  "stays buffer (Inr (pos, r)) \<longleftrightarrow> unat pos \<le> length (db_text buffer)"
  by (simp_all add: stays_def)

lemma stays_in_field [simp]: "stays buffer (in_field upd x) = stays buffer x"
  by (auto simp: stays_def in_field_def split: sum.splits)

lemma section_header_stays:
  assumes "db_ok buffer" "unat pos \<le> length (db_text buffer)"
    and "\<And>p e. unat p \<le> length (db_text buffer) \<Longrightarrow> unat e \<le> length (db_text buffer) \<Longrightarrow> stays buffer (k p e)"
  shows "stays buffer (case parseInt buffer pos of Inl e \<Rightarrow> Inl (e, r)
    | Inr (pos, n) \<Rightarrow> let pos_end = pos + n in if pos_end > db_size buffer then Inl (RuntimeError msg, r) else k pos pos_end)"
proof -
  have "case parseInt buffer pos of Inl e \<Rightarrow> e \<noteq> Diverges | Inr (p, _) \<Rightarrow> unat p \<le> length (db_text buffer)"
    using spec [OF progress_parseInt [OF assms(1), unfolded progress_def], of pos] assms(2) by (auto split: sum.splits)
  then show ?thesis
    using assms(3) length_db_text [OF assms(1)]
    by (auto simp: Let_def word_less_nat_alt not_less split: sum.splits prod.splits)
qed

lemma parse_section_stays:
  assumes "db_ok buffer" "unat pos \<le> length (db_text buffer)"
  shows "stays buffer (parse_section msg ins buffer pos m)"
  unfolding parse_section_def
proof (rule section_header_stays [OF assms])
  fix p e :: u64 assume "unat p \<le> length (db_text buffer)" "unat e \<le> length (db_text buffer)"
  from parse_pairs_ends [OF assms(1) this(2,1), of ins m]
  show "stays buffer (case parse_pairs ins buffer p e m of None \<Rightarrow> Inl (Diverges, m) | Some x \<Rightarrow> x)"
    by (auto simp: stays_def)
qed

lemma parseFiles_stays:
  assumes "db_ok buffer" "unat pos \<le> length (db_text buffer)"
  shows "stays buffer (parseFiles buffer pos r)"
  unfolding parseFiles_def
proof (rule section_header_stays [OF assms])
  fix p e :: u64 assume "unat p \<le> length (db_text buffer)" "unat e \<le> length (db_text buffer)"
  then obtain x where "parse_files (rq_body r) buffer p e (rq_files r) = Some x" "stays buffer x"
    using parse_files_ends [OF assms(1), of e p "rq_body r" "rq_files r"] by (auto simp: stays_def)
  then show "stays buffer (case parse_files (rq_body r) buffer p e (rq_files r) of
      None \<Rightarrow> Inl (Diverges, r) | Some x \<Rightarrow> in_field (\<lambda>m. r\<lparr>rq_files := m\<rparr>) x)"
    by simp
qed

lemma parseBody_stays:
  assumes "db_ok buffer" "unat pos \<le> length (db_text buffer)"
  shows "stays buffer (parseBody buffer pos r)"
  unfolding parseBody_def
proof (rule section_header_stays [OF assms])
  fix p e :: u64 assume "unat e \<le> length (db_text buffer)"
  then show "stays buffer (case db_part buffer (p + db_begin buffer) (e + db_begin buffer) of
      Inl x \<Rightarrow> Inl (x, r) | Inr body \<Rightarrow> Inr (e, r\<lparr>rq_body := body\<rparr>))"
    using db_part_not_diverges [of buffer "p + db_begin buffer" "e + db_begin buffer"]
    by (auto split: sum.splits)
qed

lemma stays_bind:
  assumes "stays buffer x" "\<And>pos r. unat pos \<le> length (db_text buffer) \<Longrightarrow> stays buffer (f pos r)"
  shows "stays buffer (rbind x (\<lambda>(pos, r). f pos r))"
proof (cases x)
  case (Inr y)
  then show ?thesis using assms by (cases y) simp
qed (use assms in \<open>auto simp: stays_def\<close>)

text \<open>
  C40. Restoring a request ends on every buffer, whatever bytes it holds: the loops over the pairs
  and over the files make progress and stay inside the buffer, so damaged cache data can only lead
  to an error or to a request, never to an endless loop.
\<close>

theorem restore_ends:
  assumes "db_ok buffer"
  shows "restore buffer r \<noteq> Inl (Diverges, r')"
proof -
  have ok: "unat (0 :: u64) \<le> length (db_text buffer)" by simp
  let ?q = "r\<lparr>rq_args := [], rq_vars := [], rq_files := [], rq_cookies := [], rq_headers := [], rq_out_headers := []\<rparr>"
  let ?x = "rbind (parseHeaders buffer 0 ?q) (\<lambda>(pos, r).
     rbind (parseCookieMap buffer pos r) (\<lambda>(pos, r).
     rbind (parseVars buffer pos r) (\<lambda>(pos, r).
     rbind (parseBody buffer pos r) (\<lambda>(pos, r).
     rbind (parseFiles buffer pos r) (\<lambda>(pos, r). parseArgs buffer pos r)))))"
  have "stays buffer ?x"
    unfolding parseHeaders_def parseCookieMap_def parseVars_def parseArgs_def
    by (intro stays_bind stays_in_field [THEN iffD2] parse_section_stays parseBody_stays parseFiles_stays assms ok)
  moreover have "restore buffer r = rbind ?x (\<lambda>(pos, r). Inr r)"
    by (simp add: restore_def parse_request_def rbind_def split: sum.splits prod.splits)
  ultimately show ?thesis by (auto simp: stays_def rbind_def split: sum.splits)
qed

theorem restore_ends_witness:
  "restore (db_create (replicate 8 (CHR 0xFF))) request_new \<noteq> Inl (Diverges, request_new)"
  by (rule restore_ends) (simp add: mem_create)

text \<open>
  C19. A stored request is restored: writing a request into a buffer succeeds, and reading that
  buffer into any request object gives the headers, cookies, variables and the body of the stored
  request, its files with their names, types and contents, and its arguments (a value with a line
  end or a zero byte comes back URL-encoded). Of the reading object, only the collected output
  headers are lost. The files are parts of the body and the whole form has less than
  \<^verbatim>\<open>2^62\<close> bytes.
\<close>

theorem serialize_restore:
  assumes "rq_ok r" "db_ok (rq_body r)" "\<forall>(k, f) \<in> set (rq_files r). file_in (rq_body r) f"
    and "db_ok buffer" "db_data buffer \<noteq> None" "unat (db_begin buffer) + length (request_code r) < 2 ^ 62"
  shows "\<exists>buffer' body files. serialize r buffer = Inr buffer' \<and>
    restore buffer' q = Inr (q\<lparr>rq_headers := rq_headers r, rq_cookies := rq_cookies r, rq_vars := rq_vars r,
      rq_body := body, rq_files := files, rq_args := map (apsnd restored_arg) (rq_args r), rq_out_headers := []\<rparr>) \<and>
    db_text body = db_text (rq_body r) \<and> file_contents files = file_contents (rq_files r)"
proof -
  obtain buffer' where w: "serialize r buffer = Inr buffer'" "db_ok buffer'" "db_text buffer' = request_code r"
    by (rule serialize_text [OF assms(4,5,2,6)])
  have ne: "db_data buffer' \<noteq> None"
    using w(3) by (auto simp: db_text_def request_code_def section_code_def split: option.splits)
  obtain body where "restore buffer' q = Inr (q\<lparr>rq_headers := rq_headers r, rq_cookies := rq_cookies r,
      rq_vars := rq_vars r, rq_body := body,
      rq_files := map (apsnd (moved_file (rq_body r) body)) (rq_files r),
      rq_args := map (apsnd restored_arg) (rq_args r), rq_out_headers := []\<rparr>)"
    "db_ok body" "db_text body = db_text (rq_body r)"
    by (rule restore_code [OF assms(1-3) w(2) ne w(3), of q])
  then show ?thesis using w(1) file_contents_moved [OF assms(3,2)] by blast
qed

definition stored_request :: "(unit, unit) request" where
  "stored_request = request_new\<lparr>rq_body := db_create ''abcdef'', rq_headers := [(''host'', ''a.b'')],
     rq_args := [(''x'', ''1'')],
     rq_files := [(''up'', \<lparr>file_name = ''u.txt'', file_type = [],
        file_data = (db_create ''abcdef'')\<lparr>db_begin := 2, db_end := 4\<rparr>\<rparr>)]\<rparr>"

theorem serialize_restore_witness:
  "\<exists>buffer' body files. serialize stored_request (db_create []) = Inr buffer' \<and>
    restore buffer' (request_new :: (unit, unit) request) = Inr (request_new\<lparr>rq_headers := [(''host'', ''a.b'')],
      rq_cookies := [], rq_vars := [], rq_body := body, rq_files := files, rq_args := [(''x'', ''1'')], rq_out_headers := []\<rparr>) \<and>
    db_text body = ''abcdef'' \<and> file_contents files = [(''up'', ''u.txt'', [], ''cd'')]"
proof -
  have t: "db_text ((db_create ''abcdef'')\<lparr>db_begin := 2, db_end := 4\<rparr>) = ''cd''"
    by (simp add: db_text_def db_create_def db_create_impl_def db_new_def sb_new_def slice_def)
  have "rq_ok stored_request"
    by (simp add: stored_request_def request_new_def reset_def rq_ok_def om_sorted_def)
  moreover have "\<forall>(k, f) \<in> set (rq_files stored_request). file_in (rq_body stored_request) f"
    by (simp add: stored_request_def file_in_def db_create_def db_create_impl_def db_new_def sb_size_def sb_new_def)
  moreover have "unat (db_begin (db_create [])) + length (request_code stored_request) < 2 ^ 62"
    by (simp add: stored_request_def request_code_def request_new_def reset_def db_create_def db_create_impl_def
      db_new_def db_text_def sb_new_def slice_def)
  moreover have "rq_body stored_request = db_create ''abcdef''" "db_data (db_create []) \<noteq> None"
    by (simp_all add: stored_request_def db_create_def db_create_impl_def)
  ultimately show ?thesis
    using serialize_restore [of stored_request "db_create []" "request_new :: (unit, unit) request"]
    by (simp add: mem_create stored_request_def request_new_def reset_def file_contents_def t restored_arg_def)
qed

end
