(* ===== verification/Dispatch.thy ===== *)
theory Dispatch
  imports HandlerSets ThreadPools RequestCodec
begin

text \<open>
  Executing a request (\<^verbatim>\<open>library/request_thread_pool.cpp\<close>, \<^verbatim>\<open>library/server.cpp\<close>, \<^verbatim>\<open>library/stream.cpp\<close>): the
  server selects filters and handlers and puts a task into a thread pool; the pool runs the filters,
  nested in each other, around the handlers, and turns exceptions into responses. Handlers and
  filters are code of the application: values of a type each, with functions that say what they do.
\<close>

section \<open>Exceptions\<close>

datatype dispatch_type = APPEND | FORWARD

datatype thrown =
  Dispatch dispatch_type string data_buffer
| Http u16
| Std cpp_error
| Unknown

definition NotFound :: thrown where "NotFound = Http 404"
definition BadMethod :: thrown where "BadMethod = Http 400"
definition InternalError :: thrown where "InternalError = Http 500"
definition NotImplemented :: thrown where "NotImplemented = Http 501"
definition Forbidden :: thrown where "Forbidden = Http 403"
definition Unauthorized :: thrown where "Unauthorized = Http 401"

definition forwardToPath :: "string \<Rightarrow> thrown" where
  "forwardToPath path = Dispatch FORWARD path db_new"

section \<open>Filters and handlers\<close>

text \<open>
  What a filter or a handler works on: the request, the response stream that all of them share, the
  context, and the handlers of the task, which are looked up when they are first needed.
\<close>

record ('s, 'u, 'c, 'h) task_state =
  ts_request :: "('s, 'u) request"
  ts_stream :: string
  ts_context :: 'c
  ts_handlers :: "'h list"

type_synonym ('s, 'u, 'c, 'h) run = "(thrown \<times> ('s, 'u, 'c, 'h) task_state) + ('s, 'u, 'c, 'h) task_state"
type_synonym ('s, 'u, 'c, 'h) handler_fun = "'h \<Rightarrow> ('s, 'u, 'c, 'h) task_state \<Rightarrow> ('s, 'u, 'c, 'h) run"
type_synonym ('s, 'u, 'c, 'h, 'f) filter_fun =
  "'f \<Rightarrow> (('s, 'u, 'c, 'h) task_state \<Rightarrow> ('s, 'u, 'c, 'h) run) \<Rightarrow> ('s, 'u, 'c, 'h) task_state \<Rightarrow> ('s, 'u, 'c, 'h) run"

text \<open>The result of a call on the request, with the state around it.\<close>

definition on_request :: "('s, 'u, 'c, 'h) task_state \<Rightarrow> ('s, 'u) outcome \<Rightarrow> ('s, 'u, 'c, 'h) run" where
  "on_request s x =
     (case x of Inl (e, r) \<Rightarrow> Inl (Std e, s\<lparr>ts_request := r\<rparr>) | Inr r \<Rightarrow> Inr (s\<lparr>ts_request := r\<rparr>))"

fun run_handlers :: "('s, 'u, 'c, 'h) handler_fun \<Rightarrow> 'h list \<Rightarrow> ('s, 'u, 'c, 'h) task_state \<Rightarrow> ('s, 'u, 'c, 'h) run" where
  "run_handlers exec [] s = Inr s"
| "run_handlers exec (h # hs) s =
     (if rq_processed (ts_request s) then Inr s else rbind (exec h s) (run_handlers exec hs))"

text \<open>The function object \<^verbatim>\<open>handlers\<close>: without handlers, they are looked up first.\<close>

definition call_handlers :: "('s, 'u, 'c, 'h) handler_fun \<Rightarrow> (('s, 'u) request \<Rightarrow> thrown + 'h list) option \<Rightarrow>
    ('s, 'u, 'c, 'h) task_state \<Rightarrow> ('s, 'u, 'c, 'h) run" where
  "call_handlers exec future s =
     rbind (if ts_handlers s = [] then
              (case future of
                 None \<Rightarrow> Inr s
               | Some fh \<Rightarrow>
                   (case fh (ts_request s) of
                      Inl e \<Rightarrow> Inl (e, s)
                    | Inr hs \<Rightarrow> Inr (s\<lparr>ts_handlers := hs\<rparr>)))
            else Inr s)
       (\<lambda>s. run_handlers exec (ts_handlers s) s)"

text \<open>The function object \<^verbatim>\<open>filters[k]\<close>: it passes the next one, or the handlers, to its filter.\<close>

function run_filter :: "('s, 'u, 'c, 'h, 'f) filter_fun \<Rightarrow> 'f list \<Rightarrow> (('s, 'u, 'c, 'h) task_state \<Rightarrow> ('s, 'u, 'c, 'h) run) \<Rightarrow>
    nat \<Rightarrow> ('s, 'u, 'c, 'h) task_state \<Rightarrow> ('s, 'u, 'c, 'h) run" where
  "run_filter fexec filters handlers k =
     (if k < length filters then
        fexec (filters ! k) (if Suc k < length filters then run_filter fexec filters handlers (Suc k) else handlers)
      else handlers)"
  by pat_completeness auto
termination
  by (relation "measure (\<lambda>(fexec, filters, handlers, k). length filters - k)") auto

declare run_filter.simps [simp del]

definition run_chain :: "('s, 'u, 'c, 'h, 'f) filter_fun \<Rightarrow> 'f list \<Rightarrow> (('s, 'u, 'c, 'h) task_state \<Rightarrow> ('s, 'u, 'c, 'h) run) \<Rightarrow>
    ('s, 'u, 'c, 'h) task_state \<Rightarrow> ('s, 'u, 'c, 'h) run" where
  "run_chain fexec filters handlers =
     (if length filters > 0 then run_filter fexec filters handlers 0 else handlers)"

section \<open>The response stream\<close>

definition stream_reset :: "('s, 'u, 'c, 'h) task_state \<Rightarrow> ('s, 'u, 'c, 'h) task_state" where
  "stream_reset s = s\<lparr>ts_stream := []\<rparr>"

text \<open>\<^verbatim>\<open>Request::write(std::streambuf*)\<close> and \<^verbatim>\<open>RequestStream::flush\<close>.\<close>

definition request_write_stream :: "string \<Rightarrow> ('s, 'u) request \<Rightarrow> ('s, 'u) outcome" where
  "request_write_stream buf r =
     rbind (sendHeaders r) (\<lambda>r.
       if rq_stream r \<noteq> None \<and> ''HEAD'' \<noteq> getRequestMethod r then Inr (stream_write buf r) else Inr r)"

definition stream_flush :: "('s, 'u, 'c, 'h) task_state \<Rightarrow> ('s, 'u, 'c, 'h) run" where
  "stream_flush s =
     (if ts_stream s \<noteq> [] then on_request s (request_write_stream (ts_stream s) (ts_request s)) else Inr s)"

section \<open>Handling a task\<close>

datatype ('s, 'u, 'c, 'h) task_result =
  TaskDone "('s, 'u, 'c, 'h) task_state"
| TaskDispatched "('s, 'u, 'c, 'h) task_state"
| TaskFailed thrown "('s, 'u, 'c, 'h) task_state"

text \<open>Errors that leave the method are logged and thrown on.\<close>

definition finish_run :: "('s, 'u, 'c, 'h) run \<Rightarrow> ('s, 'u, 'c, 'h) task_result" where
  "finish_run x = (case x of Inl (e, s) \<Rightarrow> TaskFailed e s | Inr s \<Rightarrow> TaskDone s)"

text \<open>The catch clauses for errors: an error page, unless the headers are already sent.\<close>

definition answer_error :: "u16 \<Rightarrow> thrown \<Rightarrow> ('s, 'u, 'c, 'h) task_state \<Rightarrow> ('s, 'u, 'c, 'h) task_result" where
  "answer_error status e s =
     (case setStatus 500 (ts_request s) of
        Inl (_, r) \<Rightarrow> TaskFailed e (s\<lparr>ts_request := r\<rparr>)
      | Inr r \<Rightarrow> finish_run (on_request (s\<lparr>ts_request := r\<rparr>) (sendError status r)))"

text \<open>The catch clause for a dispatch.\<close>

definition set_script_name :: "string \<Rightarrow> ('s, 'u) request \<Rightarrow> ('s, 'u) request" where
  "set_script_name url r = r\<lparr>rq_vars := om_assign string_lt ''SCRIPT_NAME'' url (rq_vars r)\<rparr>"

definition catch_dispatch :: "bool \<Rightarrow> dispatch_type \<Rightarrow> string \<Rightarrow> data_buffer \<Rightarrow> ('s, 'u, 'c, 'h) task_state \<Rightarrow>
    ('s, 'u, 'c, 'h) task_result" where
  "catch_dispatch dispatcher ty url buffer s =
     (if \<not> dispatcher then
        TaskFailed (Std (RuntimeError (''Error while dispatching request '' @ getURI (ts_request s) @
          '': dispatcher is not assigned''))) s
      else if rq_headers_sent (ts_request s) then
        TaskFailed (Std (RuntimeError (''Error while dispatching request '' @ getURI (ts_request s) @
          '': headers already sent''))) s
      else
        let s = (if ty = FORWARD then s\<lparr>ts_stream := []\<rparr> else s)
        in case (if \<not> db_isNil buffer then on_request s (restore buffer (ts_request s)) else Inr s) of
             Inl (e, s) \<Rightarrow> TaskFailed e s
           | Inr s \<Rightarrow>
               TaskDispatched (if url \<noteq> [] then s\<lparr>ts_request := set_script_name url (ts_request s)\<rparr> else s))"

definition catch_thrown :: "bool \<Rightarrow> thrown \<Rightarrow> ('s, 'u, 'c, 'h) task_state \<Rightarrow> ('s, 'u, 'c, 'h) task_result" where
  "catch_thrown dispatcher e s =
     (case e of
        Dispatch ty url buffer \<Rightarrow> catch_dispatch dispatcher ty url buffer s
      | Http status \<Rightarrow> answer_error status e s
      | Std _ \<Rightarrow> answer_error 500 e s
      | Unknown \<Rightarrow> answer_error 500 e s)"

text \<open>The body of the inner \<^verbatim>\<open>try\<close>.\<close>

definition run_task :: "('s, 'u, 'c, 'h) handler_fun \<Rightarrow> ('s, 'u, 'c, 'h, 'f) filter_fun \<Rightarrow>
    (('s, 'u) request \<Rightarrow> thrown + 'h list) option \<Rightarrow> 'f list \<Rightarrow> ('s, 'u, 'c, 'h) task_state \<Rightarrow> ('s, 'u, 'c, 'h) run" where
  "run_task exec fexec future filters s =
     rbind (run_chain fexec filters (call_handlers exec future) (stream_reset s)) (\<lambda>s.
     rbind (stream_flush s) (\<lambda>s.
     let s = stream_reset s in on_request s (sendHeaders (ts_request s))))"

definition handleTask :: "('s, 'u, 'c, 'h) handler_fun \<Rightarrow> ('s, 'u, 'c, 'h, 'f) filter_fun \<Rightarrow>
    (('s, 'u) request \<Rightarrow> thrown + 'h list) option \<Rightarrow> bool \<Rightarrow> int \<Rightarrow> int \<Rightarrow> int \<Rightarrow> 'f list \<Rightarrow>
    ('s, 'u, 'c, 'h) task_state \<Rightarrow> ('s, 'u, 'c, 'h) task_result" where
  "handleTask exec fexec future dispatcher delay now start filters s =
     (if now - start < delay then finish_run (on_request s (sendError 503 (ts_request s)))
      else case run_task exec fexec future filters s of
             Inl (e, s) \<Rightarrow> catch_thrown dispatcher e s
           | Inr s \<Rightarrow> TaskDone s)"

section \<open>The server\<close>

record ('s, 'u, 'h, 'f) request_task =
  tk_request :: "('s, 'u) request"
  tk_filters :: "'f list"
  tk_handlers :: "'h list"
  tk_start :: int

text \<open>The pools by name, each with its delay.\<close>

type_synonym ('s, 'u, 'h, 'f) pool_map = "(string \<times> int \<times> ('s, 'u, 'h, 'f) request_task pool) list"

datatype ('s, 'u, 'h, 'f) served =
  Queued "('s, 'u, 'h, 'f) pool_map"
| Answered "('s, 'u) request"
| Raised cpp_error "('s, 'u) request"
| NoPool

definition answered :: "('s, 'u) outcome \<Rightarrow> ('s, 'u, 'h, 'f) served" where
  "answered x = (case x of Inl (e, r) \<Rightarrow> Raised e r | Inr r \<Rightarrow> Answered r)"

definition enqueue :: "int \<Rightarrow> ('s, 'u, 'h, 'f) pool_map \<Rightarrow> string \<Rightarrow> ('s, 'u, 'h, 'f) request_task \<Rightarrow> ('s, 'u, 'h, 'f) served" where
  "enqueue now pools poolName task =
     (case om_find string_lt poolName pools of
        None \<Rightarrow> NoPool
      | Some (delay, p) \<Rightarrow>
          (case pool_addTask (task\<lparr>tk_start := now + delay\<rparr>) p of
             Inl e \<Rightarrow> answered (sendError 503 (tk_request task))
           | Inr p \<Rightarrow> Queued (om_assign string_lt poolName (delay, p) pools)))"

definition handleRequestInternal :: "int \<Rightarrow> ('s, 'u, 'h, 'f) pool_map \<Rightarrow> 'f list \<Rightarrow> 'h handler_description option \<Rightarrow>
    ('s, 'u, 'h, 'f) request_task \<Rightarrow> ('s, 'u, 'h, 'f) served" where
  "handleRequestInternal now pools filters handler task =
     (case handler of
        None \<Rightarrow> answered (sendError 404 (tk_request task))
      | Some d \<Rightarrow>
          if hd_handlers d = [] then answered (sendError 404 (tk_request task))
          else enqueue now pools (hd_poolName d) (task\<lparr>tk_filters := filters, tk_handlers := hd_handlers d\<rparr>))"

definition handleRequestFilters :: "int \<Rightarrow> ('s, 'u, 'h, 'f) pool_map \<Rightarrow> string \<Rightarrow> 'f list \<Rightarrow> ('s, 'u, 'h, 'f) request_task \<Rightarrow>
    ('s, 'u, 'h, 'f) served" where
  "handleRequestFilters now pools defaultPool filters task =
     enqueue now pools defaultPool (task\<lparr>tk_filters := filters, tk_handlers := []\<rparr>)"

definition no_handler :: "'h handler_description option \<Rightarrow> bool" where
  "no_handler handler \<longleftrightarrow> (case handler of None \<Rightarrow> True | Some d \<Rightarrow> hd_handlers d = [])"

definition handleRequest :: "regex \<Rightarrow> ('h, 'f) handler_set \<Rightarrow> int \<Rightarrow> ('s, 'u, 'h, 'f) pool_map \<Rightarrow> ('s, 'u, 'h, 'f) request_task \<Rightarrow>
    ('s, 'u, 'h, 'f) served" where
  "handleRequest rx hs now pools task =
     (case findURIFilters rx hs (tk_request task) [] of
        Inl e \<Rightarrow> Raised e (tk_request task)
      | Inr filters \<Rightarrow>
          (case findURIHandler rx hs (tk_request task) of
             Inl e \<Rightarrow> Raised e (tk_request task)
           | Inr handler \<Rightarrow>
               if no_handler handler \<and> filters \<noteq> []
               then handleRequestFilters now pools (hs_defaultPoolName hs) filters task
               else handleRequestInternal now pools filters handler task))"

text \<open>The function object \<^verbatim>\<open>futureHandlers\<close> of the server.\<close>

definition futureHandlers :: "regex \<Rightarrow> ('h, 'f) handler_set \<Rightarrow> ('s, 'u) request \<Rightarrow> thrown + 'h list" where
  "futureHandlers rx hs r =
     (case findURIHandler rx hs r of
        Inl e \<Rightarrow> Inl (Std e)
      | Inr handler \<Rightarrow>
          (case handler of
             None \<Rightarrow> Inl NotFound
           | Some d \<Rightarrow> if hd_handlers d = [] then Inl NotFound else Inr (hd_handlers d)))"

section \<open>The chain of filters\<close>

lemma run_filter_foldr:
  "k \<le> length filters \<Longrightarrow> run_filter fexec filters handlers k = foldr fexec (drop k filters) handlers"
proof (induction "length filters - k" arbitrary: k)
  case 0
  then show ?case by (simp add: run_filter.simps)
next
  case (Suc n)
  then have k: "k < length filters" by simp
  have d: "drop k filters = filters ! k # drop (Suc k) filters" using k by (simp add: Cons_nth_drop_Suc)
  have ih: "run_filter fexec filters handlers (Suc k) = foldr fexec (drop (Suc k) filters) handlers"
    using Suc by simp
  show ?case
  proof (cases "Suc k < length filters")
    case True
    then show ?thesis using k ih by (simp add: run_filter.simps [of _ _ _ k] d)
  next
    case False
    then show ?thesis using k by (simp add: run_filter.simps [of _ _ _ k] d)
  qed
qed

text \<open>
  C35. The filters are nested in the order of the configuration, each around all the following ones,
  and the handlers are inside the last: the table of function objects computes the right fold of the
  filters over the handlers.
\<close>

theorem run_chain_nested: "run_chain fexec filters handlers = foldr fexec filters handlers"
  by (cases filters) (simp_all add: run_chain_def run_filter_foldr)

section \<open>Answers\<close>

lemma sendHeadersInternal_sent: "sendHeadersInternal r = Inr r' \<Longrightarrow> rq_headers_sent r'"
  by (auto simp: sendHeadersInternal_def Let_def rbind_eq_Inr_conv split: if_splits)

lemma sendError_sent: "sendError status r = Inr r' \<Longrightarrow> rq_headers_sent r'"
  by (auto simp: sendError_def rbind_eq_Inr_conv split: if_splits dest: sendHeadersInternal_sent)

lemma on_request_Inr: "on_request s x = Inr s' \<longleftrightarrow> (\<exists>r. x = Inr r \<and> s' = s\<lparr>ts_request := r\<rparr>)"
  by (auto simp: on_request_def split: sum.splits)

lemma finish_run_done: "finish_run x = TaskDone s \<longleftrightarrow> x = Inr s"
  by (auto simp: finish_run_def split: sum.splits)

lemma run_task_sent: "run_task exec fexec future filters s = Inr s' \<Longrightarrow> rq_headers_sent (ts_request s')"
  by (auto simp: run_task_def Let_def rbind_eq_Inr_conv on_request_Inr sendHeaders_def dest: sendHeadersInternal_sent)

lemma answer_error_sent: "answer_error status e s = TaskDone s' \<Longrightarrow> rq_headers_sent (ts_request s')"
  by (auto simp: answer_error_def finish_run_done on_request_Inr split: sum.splits dest: sendError_sent)

lemma catch_dispatch_not_done: "catch_dispatch dispatcher ty url buffer s \<noteq> TaskDone s'"
  by (auto simp: catch_dispatch_def Let_def split: sum.splits if_splits)

text \<open>
  C1. No request is left without an answer: whatever the filters and handlers do, a task that ends
  without an exception and is not dispatched again has sent its headers.
\<close>

theorem handleTask_answers:
  assumes "handleTask exec fexec future dispatcher delay now start filters s = TaskDone s'"
  shows "rq_headers_sent (ts_request s')"
  using assms
  by (auto simp: handleTask_def catch_thrown_def finish_run_done on_request_Inr catch_dispatch_not_done
    split: if_splits sum.splits thrown.splits dest: run_task_sent answer_error_sent sendError_sent)

text \<open>The error page.\<close>

definition error_page :: "u16 \<Rightarrow> string" where
  "error_page status =
     header_block (om_assign StringCILess ''Status'' (status_line status) [(''Content-type'', ''text/html'')]) @
     [CHR 0x0D, CHR 0x0A] @ ''<html><body><h1>'' @ show_nat (unat status) @ '' '' @ statusToString status @ ''</h1></body></html>''"

lemma sendError_page:
  assumes "\<not> rq_headers_sent r"
  obtains r' where "sendError status r = Inr r'" "rq_status r' = status" "rq_headers_sent r'"
    "rq_stream r' = map_option (\<lambda>s. s\<lparr>io_out := io_out s @ error_page status\<rparr>) (rq_stream r)"
proof -
  let ?r = "r\<lparr>rq_out_cookies := [], rq_status := status, rq_out_headers := fst (om_insert StringCILess ''Content-type'' ''text/html'' [])\<rparr>"
  define h where "h = header_block (om_assign StringCILess ''Status'' (status_line status) [(''Content-type'', ''text/html'')]) @ [CHR 0x0D, CHR 0x0A]"
  have "response_head ?r = Inr h" by (simp add: response_head_def cookie_block_def h_def)
  from sendHeadersInternal_eq [OF _ this] assms
  have s: "sendHeadersInternal ?r = Inr ((stream_write h ?r)\<lparr>rq_headers_sent := True,
    rq_out_headers := om_assign StringCILess ''Status'' (status_line (rq_status ?r)) (rq_out_headers ?r)\<rparr>)" by simp
  then show ?thesis using assms
    by (intro that) (simp add: sendError_def, simp_all add: stream_write_def h_def error_page_def split: option.splits)
qed

text \<open>
  C23. An error becomes an error page: when the filters or the handlers end with an HTTP exception and
  nothing was sent before, the client gets exactly the error page of that status; with any other
  exception, that of status 500.
\<close>

theorem handleTask_error_page:
  assumes "run_task exec fexec future filters s = Inl (e, s')" "\<not> now - start < delay"
    and "\<not> rq_headers_sent (ts_request s')" "e = Http status \<or> (e \<in> insert Unknown (range Std) \<and> status = 500)"
  shows "\<exists>r. handleTask exec fexec future dispatcher delay now start filters s = TaskDone (s'\<lparr>ts_request := r\<rparr>) \<and>
    rq_status r = status \<and> rq_headers_sent r \<and>
    rq_stream r = map_option (\<lambda>st. st\<lparr>io_out := io_out st @ error_page status\<rparr>) (rq_stream (ts_request s'))"
proof -
  let ?r = "(ts_request s')\<lparr>rq_status := 500\<rparr>"
  have "\<not> rq_headers_sent ?r" using assms(3) by simp
  then obtain r where r: "sendError status ?r = Inr r" "rq_status r = status" "rq_headers_sent r"
    "rq_stream r = map_option (\<lambda>s. s\<lparr>io_out := io_out s @ error_page status\<rparr>) (rq_stream ?r)"
    by (rule sendError_page)
  have "handleTask exec fexec future dispatcher delay now start filters s = answer_error status e s'"
    using assms(1,2,4) by (auto simp: handleTask_def catch_thrown_def)
  also have "\<dots> = TaskDone (s'\<lparr>ts_request := r\<rparr>)"
    using assms(3) r(1) by (simp add: answer_error_def setStatus_def on_request_def finish_run_def)
  finally show ?thesis using r by auto
qed

definition failing_state :: "(unit, unit, unit, nat) task_state" where
  "failing_state = \<lparr>ts_request = request_new\<lparr>rq_stream := Some \<lparr>io_in = [], io_out = []\<rparr>\<rparr>, ts_stream = [],
     ts_context = (), ts_handlers = [1]\<rparr>"

abbreviation failing_handler :: "(unit, unit, unit, nat) handler_fun" where
  "failing_handler \<equiv> \<lambda>h s. Inl (Http 403, s)"

abbreviation plain_filter :: "(unit, unit, unit, nat, nat) filter_fun" where
  "plain_filter \<equiv> \<lambda>f k s. k s"

lemma failing_run: "run_task failing_handler plain_filter None [] failing_state = Inl (Http 403, failing_state)"
  by (simp add: run_task_def run_chain_def call_handlers_def failing_state_def stream_reset_def request_new_def reset_def)

theorem handleTask_error_page_witness:
  "\<exists>r. handleTask failing_handler plain_filter None True 0 5 0 [] failing_state = TaskDone (failing_state\<lparr>ts_request := r\<rparr>) \<and>
    rq_status r = 403 \<and> rq_headers_sent r \<and> rq_stream r = Some \<lparr>io_in = [], io_out = error_page 403\<rparr>"
  using handleTask_error_page [OF failing_run, of 5 0 0 403 True]
  by (simp add: failing_state_def request_new_def reset_def)

theorem handleTask_answers_witness:
  "\<exists>r. handleTask failing_handler plain_filter None True 0 5 0 [] failing_state = TaskDone (failing_state\<lparr>ts_request := r\<rparr>) \<and>
    rq_headers_sent r"
proof -
  have "\<not> rq_headers_sent ((ts_request failing_state)\<lparr>rq_status := 500\<rparr>)"
    by (simp add: failing_state_def request_new_def reset_def)
  then obtain r where r: "sendError 403 ((ts_request failing_state)\<lparr>rq_status := 500\<rparr>) = Inr r" by (rule sendError_page)
  have "\<not> rq_headers_sent (ts_request failing_state)" by (simp add: failing_state_def request_new_def reset_def)
  then have "handleTask failing_handler plain_filter None True 0 5 0 [] failing_state = TaskDone (failing_state\<lparr>ts_request := r\<rparr>)"
    using r by (simp add: handleTask_def failing_run catch_thrown_def answer_error_def setStatus_def on_request_def finish_run_def)
  with handleTask_answers [OF this] show ?thesis by auto
qed

section \<open>Delays\<close>

text \<open>
  The server starts the clock of a task one delay in the future, and the pool rejects a task whose
  clock shows less than the delay: with a positive delay, a task is rejected when it is taken up
  early, not when it is taken up late.
\<close>

theorem prompt_task_times_out:
  assumes "now < accepted + 2 * delay"
  shows "handleTask exec fexec future dispatcher delay now (accepted + delay) filters s =
    finish_run (on_request s (sendError 503 (ts_request s)))"
  using assms by (simp add: handleTask_def)

theorem late_task_runs:
  assumes "now \<ge> accepted + 2 * delay"
  shows "handleTask exec fexec future dispatcher delay now (accepted + delay) filters s =
    handleTask exec fexec future dispatcher 0 now now filters s"
  using assms by (simp add: handleTask_def)

section \<open>Serving a request\<close>

text \<open>
  C4. The server routes every request: without a handler and without a filter the answer is the page
  for status 404; otherwise the task goes, with the selected filters and handlers, to the end of the
  queue of the handler's pool (of the default pool when only filters match), or, when that pool does
  not take it, the answer is the page for status 503. All the pools that are needed exist.
\<close>

theorem handleRequest_routes:
  assumes "findURIFilters rx hs (tk_request task) [] = Inr filters" "findURIHandler rx hs (tk_request task) = Inr handler"
    and "pool_name = (case handler of Some d \<Rightarrow> if hd_handlers d = [] then hs_defaultPoolName hs else hd_poolName d
                      | None \<Rightarrow> hs_defaultPoolName hs)"
    and "handlers = (case handler of Some d \<Rightarrow> hd_handlers d | None \<Rightarrow> [])"
    and "om_find string_lt pool_name pools = Some (delay, p)"
    and "task' = task\<lparr>tk_filters := filters, tk_handlers := handlers, tk_start := now + delay\<rparr>"
  shows "handleRequest rx hs now pools task =
    (if handlers = [] \<and> filters = [] then answered (sendError 404 (tk_request task))
     else case pool_addTask task' p of
            Inl _ \<Rightarrow> answered (sendError 503 (tk_request task))
          | Inr p' \<Rightarrow> Queued (om_assign string_lt pool_name (delay, p') pools))"
proof (cases handler)
  case None
  then show ?thesis
    using assms by (cases "filters = []")
      (simp_all add: handleRequest_def no_handler_def handleRequestFilters_def handleRequestInternal_def enqueue_def split: sum.split)
next
  case (Some d)
  then show ?thesis
    using assms by (cases "hd_handlers d = []"; cases "filters = []")
      (simp_all add: handleRequest_def no_handler_def handleRequestFilters_def handleRequestInternal_def enqueue_def split: sum.split)
qed

theorem handleRequest_routes_witness:
  "handleRequest (=) demo_set 10 [(''p'', 0, pool_start (pool_new 1 1))]
     \<lparr>tk_request = (request_new :: (unit, unit) request)\<lparr>rq_args := [(''x'', ''1'')]\<rparr>, tk_filters = [], tk_handlers = [], tk_start = 0\<rparr> =
   Queued [(''p'', 0, (pool_start (pool_new 1 1))
     \<lparr>tp_queue := [\<lparr>tk_request = request_new\<lparr>rq_args := [(''x'', ''1'')]\<rparr>, tk_filters = [''auth''], tk_handlers = [''B''], tk_start = 10\<rparr>],
      tp_accepted := [\<lparr>tk_request = request_new\<lparr>rq_args := [(''x'', ''1'')]\<rparr>, tk_filters = [''auth''], tk_handlers = [''B''], tk_start = 10\<rparr>]\<rparr>)]"
proof -
  let ?r = "(request_new :: (unit, unit) request)\<lparr>rq_args := [(''x'', ''1'')]\<rparr>"
  let ?t = "\<lparr>tk_request = ?r, tk_filters = [], tk_handlers = [], tk_start = 0\<rparr> :: (unit, unit, string, string) request_task"
  have r: "getServerPort ?r = Inr 80" "getScriptName ?r = []" "hasArg ?r ''x''" "getArg ?r ''x'' = ''1''"
    by (simp_all add: getServerPort_def getScriptName_def map_get_def request_new_def reset_def hasArg_def getArg_def)
  have f: "findURIFilters (=) demo_set (tk_request ?t) [] = Inr [''auth'']"
    by (simp add: findURIFilters_def demo_set_def)
  have h: "findURIHandler (=) demo_set (tk_request ?t) =
     Inr (Some \<lparr>hd_selectors = [(''param'', ParamFilter ''x'' ''1'')], hd_handlers = [''B''], hd_poolName = ''p'', hd_id = ''2''\<rparr>)"
    by (simp add: findURIHandler_def demo_set_def checkUrl_def regex_check_def r)
  show ?thesis
    using handleRequest_routes [OF f h refl refl, of "[(''p'', 0, pool_start (pool_new 1 1))]" 0 "pool_start (pool_new 1 1)" _ 10]
    by (simp add: pool_addTask_def pool_start_def pool_new_def string_lt_def byte_lt_def)
qed

section \<open>The exception objects\<close>

definition http_what :: "u16 \<Rightarrow> string" where
  "http_what status = statusToString status"

text \<open>The reason of a \<^verbatim>\<open>BadMethod\<close> is cut to the buffer of 256 characters with its terminator.\<close>

definition badmethod_reason :: "string \<Rightarrow> string" where
  "badmethod_reason reason = take 255 (c_str reason)"

definition dispatch_exception :: "dispatch_type \<Rightarrow> thrown" where
  "dispatch_exception type = Dispatch type [] db_new"

definition dispatch_exception_url :: "dispatch_type \<Rightarrow> string \<Rightarrow> thrown" where
  "dispatch_exception_url type url = Dispatch type url db_new"

definition dispatch_exception_buffer :: "dispatch_type \<Rightarrow> data_buffer \<Rightarrow> thrown" where
  "dispatch_exception_buffer type buffer = Dispatch type [] buffer"

lemma badmethod_reason_fits: "length (badmethod_reason reason) < 256 \<and> CHR 0x00 \<notin> set (badmethod_reason reason)"
  by (auto simp: badmethod_reason_def c_str_def dest!: in_set_takeD set_takeWhileD)

end
