(* ===== verification/ComponentSets.thy ===== *)
theory ComponentSets
  imports Configs
begin

text \<open>
  The components of the container (\<^verbatim>\<open>library/componentset.cpp\<close>): created from the configuration and
  loaded so that a component is ready before another one that looks it up.

  What a component does in \<^verbatim>\<open>onLoad\<close> is its own code. As far as the component set is concerned it is a
  tree: it ends, it throws, or it looks up a component by name and goes on depending on the answer.
\<close>

section \<open>State\<close>

datatype 'c onload =
  LoadDone
| LoadThrow string
| LoadThrowUnknown
| LoadFind string "'c option \<Rightarrow> 'c onload"

record 'c component_container =
  cc_component :: 'c
  cc_isLoadingStarted :: bool

record 'c component_set =
  cs_components :: "(string \<times> 'c component_container) list"
  cs_loadingStack :: "string list"

definition component_set_new :: "'c component_set" where
  "component_set_new = \<lparr>cs_components = [], cs_loadingStack = []\<rparr>"

section \<open>Loading\<close>

text \<open>
  \<^verbatim>\<open>e.what()\<close>; the values for undefined behaviour and for loops that do not end are no exceptions and
  cannot be caught.
\<close>

fun rethrow :: "cpp_error \<Rightarrow> cpp_error" where
  "rethrow (RuntimeError s) = RuntimeError s"
| "rethrow (LogicError s) = RuntimeError s"
| "rethrow (OutOfRange s) = RuntimeError s"
| "rethrow (LengthError s) = RuntimeError s"
| "rethrow (InvalidArgument s) = RuntimeError s"
| "rethrow e = e"

definition isComponentLoaded :: "string \<Rightarrow> 'c component_set \<Rightarrow> bool" where
  "isComponentLoaded name s \<longleftrightarrow> name \<in> set (cs_loadingStack s)"

primrec run_onload :: "(string \<Rightarrow> 'c component_set \<Rightarrow> ('c option \<times> 'c component_set) result) \<Rightarrow> 'c onload \<Rightarrow> 'c component_set \<Rightarrow>
    'c component_set result" where
  "run_onload fnd LoadDone s = Inr s"
| "run_onload fnd (LoadThrow what) s = Inl (RuntimeError what)"
| "run_onload fnd LoadThrowUnknown s = Inl (RuntimeError ''Unknown exception caught'')"
| "run_onload fnd (LoadFind name k) s =
     (case fnd name s of Inl e \<Rightarrow> Inl (rethrow e) | Inr (c, s) \<Rightarrow> run_onload fnd (k c) s)"

text \<open>
  \<^verbatim>\<open>sendOnLoad\<close> and \<^verbatim>\<open>find\<close> call each other through \<^verbatim>\<open>onLoad\<close>; \<open>n\<close> bounds the depth of these calls, and the
  number of components is always enough (lemma \<open>sendOnLoad_returns\<close>).
\<close>

definition sendOnLoad_with :: "(string \<Rightarrow> 'c component_set \<Rightarrow> ('c option \<times> 'c component_set) result) \<Rightarrow> ('c \<Rightarrow> 'c onload) \<Rightarrow> string \<Rightarrow>
    'c component_container \<Rightarrow> 'c component_set \<Rightarrow> 'c component_set result" where
  "sendOnLoad_with fnd onLoad name cont s =
     (if \<not> isComponentLoaded name s then
        if cc_isLoadingStarted cont then Inl (RuntimeError ''Cyclic component dependence found'')
        else
          let s = s\<lparr>cs_components := om_assign string_lt name (cont\<lparr>cc_isLoadingStarted := True\<rparr>) (cs_components s)\<rparr>
          in rbind (run_onload fnd (onLoad (cc_component cont)) s)
               (\<lambda>s. Inr (s\<lparr>cs_loadingStack := cs_loadingStack s @ [name]\<rparr>))
      else Inr s)"

fun cs_find :: "nat \<Rightarrow> ('c \<Rightarrow> 'c onload) \<Rightarrow> string \<Rightarrow> 'c component_set \<Rightarrow> ('c option \<times> 'c component_set) result" where
  "cs_find 0 onLoad name s = Inl Diverges"
| "cs_find (Suc n) onLoad name s =
     (case om_find string_lt name (cs_components s) of
        None \<Rightarrow> Inr (None, s)
      | Some cont \<Rightarrow>
          if \<not> isComponentLoaded name s
          then rbind (sendOnLoad_with (cs_find n onLoad) onLoad name cont s) (\<lambda>s. Inr (Some (cc_component cont), s))
          else Inr (Some (cc_component cont), s))"

definition sendOnLoad :: "nat \<Rightarrow> ('c \<Rightarrow> 'c onload) \<Rightarrow> string \<Rightarrow> 'c component_container \<Rightarrow> 'c component_set \<Rightarrow> 'c component_set result" where
  "sendOnLoad n onLoad = sendOnLoad_with (cs_find n onLoad) onLoad"

fun send_all :: "nat \<Rightarrow> ('c \<Rightarrow> 'c onload) \<Rightarrow> string list \<Rightarrow> 'c component_set \<Rightarrow> 'c component_set result" where
  "send_all n onLoad [] s = Inr s"
| "send_all n onLoad (name # names) s =
     (case om_find string_lt name (cs_components s) of
        None \<Rightarrow> Inr s
      | Some cont \<Rightarrow> rbind (sendOnLoad n onLoad name cont s) (send_all n onLoad names))"

definition sendOnLoadToComponents :: "('c \<Rightarrow> 'c onload) \<Rightarrow> 'c component_set \<Rightarrow> 'c component_set result" where
  "sendOnLoadToComponents onLoad s = send_all (length (cs_components s)) onLoad (map fst (cs_components s)) s"

text \<open>The order in which \<^verbatim>\<open>onUnload\<close> is sent; its exceptions are reported and swallowed.\<close>

definition sendOnUnloadToComponents :: "'c component_set \<Rightarrow> 'c option list" where
  "sendOnUnloadToComponents s =
     map (\<lambda>name. map_option cc_component (om_find string_lt name (cs_components s))) (cs_loadingStack s)"

section \<open>Creation\<close>

text \<open>The loader finds the factory of a type; a factory creates a component for its place in the configuration.\<close>

definition cs_add :: "(string \<Rightarrow> (string \<Rightarrow> 'c result) option) \<Rightarrow> string \<Rightarrow> string \<Rightarrow> string \<Rightarrow> 'c component_set \<Rightarrow> 'c component_set result" where
  "cs_add loader name type componentXPath s =
     (case loader type of
        None \<Rightarrow> Inl (RuntimeError (''Cannot find component factory for type: '' @ type))
      | Some createComponent \<Rightarrow>
          (case createComponent componentXPath of
             Inl e \<Rightarrow> Inl (rethrow e)
           | Inr c \<Rightarrow> Inr (s\<lparr>cs_components := fst (om_insert string_lt name \<lparr>cc_component = c, cc_isLoadingStarted = False\<rparr> (cs_components s))\<rparr>)))"

fun add_components :: "xml_config \<Rightarrow> (string \<Rightarrow> (string \<Rightarrow> 'c result) option) \<Rightarrow> string list \<Rightarrow> 'c component_set \<Rightarrow> 'c component_set result" where
  "add_components config loader [] s = Inr s"
| "add_components config loader (i # v) s =
     rbind (cfg_asString config (i @ ''/@name'')) (\<lambda>name.
     rbind (cfg_asString config (i @ ''/@type'')) (\<lambda>type.
     rbind (cs_add loader name type i s) (add_components config loader v)))"

definition component_set_init :: "xml_config \<Rightarrow> (string \<Rightarrow> (string \<Rightarrow> 'c result) option) \<Rightarrow> ('c \<Rightarrow> 'c onload) \<Rightarrow> 'c component_set \<Rightarrow>
    'c component_set result" where
  "component_set_init config loader onLoad s =
     rbind (cfg_subKeys config ''/fastcgi/components/component'') (\<lambda>v.
     rbind (add_components config loader v s) (sendOnLoadToComponents onLoad))"

section \<open>The order of loading\<close>

text \<open>The names that a component looks up, given which components there are.\<close>

primrec lookups :: "(string \<Rightarrow> 'c option) \<Rightarrow> 'c onload \<Rightarrow> string list" where
  "lookups D LoadDone = []"
| "lookups D (LoadThrow what) = []"
| "lookups D LoadThrowUnknown = []"
| "lookups D (LoadFind name k) = name # lookups D (k (D name))"

text \<open>Whether \<^verbatim>\<open>onLoad\<close> of a component ends without an exception.\<close>

primrec load_succeeds :: "(string \<Rightarrow> 'c option) \<Rightarrow> 'c onload \<Rightarrow> bool" where
  "load_succeeds D LoadDone = True"
| "load_succeeds D (LoadThrow what) = False"
| "load_succeeds D LoadThrowUnknown = False"
| "load_succeeds D (LoadFind name k) = load_succeeds D (k (D name))"

definition component_of :: "'c component_set \<Rightarrow> string \<Rightarrow> 'c option" where
  "component_of s name = map_option cc_component (om_find string_lt name (cs_components s))"

definition started :: "'c component_set \<Rightarrow> string set" where
  "started s = {name. \<exists>cont. om_find string_lt name (cs_components s) = Some cont \<and> cc_isLoadingStarted cont}"

text \<open>Every component stands on the stack after the components that it looks up.\<close>

definition in_order :: "(string \<Rightarrow> 'c option) \<Rightarrow> ('c \<Rightarrow> 'c onload) \<Rightarrow> string list \<Rightarrow> bool" where
  "in_order D onLoad stack \<longleftrightarrow>
     (\<forall>i < length stack. \<forall>c. D (stack ! i) = Some c \<longrightarrow> load_succeeds D (onLoad c) \<and>
        (\<forall>name \<in> set (lookups D (onLoad c)). D name \<noteq> None \<longrightarrow> name \<in> set (take i stack)))"

definition cs_ok :: "(string \<Rightarrow> 'c option) \<Rightarrow> ('c \<Rightarrow> 'c onload) \<Rightarrow> 'c component_set \<Rightarrow> bool" where
  "cs_ok D onLoad s \<longleftrightarrow> om_sorted string_lt (cs_components s) \<and> component_of s = D \<and> distinct (cs_loadingStack s) \<and>
     set (cs_loadingStack s) \<subseteq> started s \<and> in_order D onLoad (cs_loadingStack s)"

definition load_post :: "(string \<Rightarrow> 'c option) \<Rightarrow> ('c \<Rightarrow> 'c onload) \<Rightarrow> 'c component_set \<Rightarrow> 'c component_set \<Rightarrow> bool" where
  "load_post D onLoad s s' \<longleftrightarrow> cs_ok D onLoad s' \<and> started s \<subseteq> started s' \<and>
     (\<exists>new. cs_loadingStack s' = cs_loadingStack s @ new \<and> set new \<inter> started s = {})"

lemma load_post_trans: "load_post D onLoad s s' \<Longrightarrow> load_post D onLoad s' s'' \<Longrightarrow> load_post D onLoad s s''"
  unfolding load_post_def by force

lemma load_post_refl: "cs_ok D onLoad s \<Longrightarrow> load_post D onLoad s s"
  by (auto simp: load_post_def)

lemma load_post_stack: "load_post D onLoad s s' \<Longrightarrow> name \<in> set (cs_loadingStack s) \<Longrightarrow> name \<in> set (cs_loadingStack s')"
  by (auto simp: load_post_def)

lemma finite_dom: "cs_ok D onLoad s \<Longrightarrow> finite (dom D) \<and> card (dom D) \<le> length (cs_components s)"
proof -
  assume "cs_ok D onLoad s"
  then have "dom D \<subseteq> set (map fst (cs_components s))"
    by (force simp: cs_ok_def component_of_def dest: string_find_mem)
  then show ?thesis using card_mono [of "set (map fst (cs_components s))" "dom D"] card_length [of "map fst (cs_components s)"]
    finite_subset [of "dom D" "set (map fst (cs_components s))"] by simp
qed

definition unstarted :: "(string \<Rightarrow> 'c option) \<Rightarrow> 'c component_set \<Rightarrow> nat" where
  "unstarted D s = card (dom D - started s)"

lemma unstarted_mono: "cs_ok D onLoad s \<Longrightarrow> started s \<subseteq> started s' \<Longrightarrow> unstarted D s' \<le> unstarted D s"
  unfolding unstarted_def using finite_dom [of D onLoad s] by (intro card_mono) auto

text \<open>What \<^verbatim>\<open>find\<close> guarantees as long as less than \<open>k\<close> components have not started to load.\<close>

definition find_ok :: "(string \<Rightarrow> 'c option) \<Rightarrow> ('c \<Rightarrow> 'c onload) \<Rightarrow> nat \<Rightarrow>
    (string \<Rightarrow> 'c component_set \<Rightarrow> ('c option \<times> 'c component_set) result) \<Rightarrow> bool" where
  "find_ok D onLoad k fnd \<longleftrightarrow> (\<forall>name s. cs_ok D onLoad s \<longrightarrow> unstarted D s < k \<longrightarrow>
     (case fnd name s of
        Inl e \<Rightarrow> \<exists>what. e = RuntimeError what
      | Inr (c, s') \<Rightarrow> c = D name \<and> load_post D onLoad s s' \<and> (D name \<noteq> None \<longrightarrow> name \<in> set (cs_loadingStack s'))))"

lemma run_onload_ok:
  assumes "find_ok D onLoad k fnd" "cs_ok D onLoad s" "unstarted D s < k"
  shows "case run_onload fnd t s of
      Inl e \<Rightarrow> \<exists>what. e = RuntimeError what
    | Inr s' \<Rightarrow> load_post D onLoad s s' \<and> load_succeeds D t \<and> (\<forall>name \<in> set (lookups D t). D name \<noteq> None \<longrightarrow> name \<in> set (cs_loadingStack s'))"
  using assms(2,3)
proof (induction t arbitrary: s)
  case (LoadFind name kont)
  have f: "case fnd name s of Inl e \<Rightarrow> \<exists>what. e = RuntimeError what
      | Inr (c, s') \<Rightarrow> c = D name \<and> load_post D onLoad s s' \<and> (D name \<noteq> None \<longrightarrow> name \<in> set (cs_loadingStack s'))"
    using assms(1) LoadFind.prems by (simp add: find_ok_def)
  show ?case
  proof (cases "fnd name s")
    case (Inl e)
    then show ?thesis using f by auto
  next
    case (Inr p)
    obtain c s1 where p: "p = (c, s1)" by (cases p)
    have s1: "c = D name" "load_post D onLoad s s1" "D name \<noteq> None \<longrightarrow> name \<in> set (cs_loadingStack s1)"
      using f by (simp_all add: Inr p)
    have ok1: "cs_ok D onLoad s1" "unstarted D s1 < k"
      using s1(2) unstarted_mono [OF LoadFind.prems(1), of s1] LoadFind.prems(2) by (auto simp: load_post_def)
    have ih: "case run_onload fnd (kont c) s1 of Inl e \<Rightarrow> \<exists>what. e = RuntimeError what
      | Inr s' \<Rightarrow> load_post D onLoad s1 s' \<and> load_succeeds D (kont c) \<and> (\<forall>name \<in> set (lookups D (kont c)). D name \<noteq> None \<longrightarrow> name \<in> set (cs_loadingStack s'))"
      by (rule LoadFind.IH [OF _ ok1]) simp
    show ?thesis
    proof (cases "run_onload fnd (kont c) s1")
      case (Inl e)
      then show ?thesis using ih by (simp add: Inr p)
    next
      case (Inr s2)
      then have ih2: "load_post D onLoad s1 s2" "load_succeeds D (kont c)" "\<forall>name \<in> set (lookups D (kont c)). D name \<noteq> None \<longrightarrow> name \<in> set (cs_loadingStack s2)"
        using ih by simp_all
      have "load_post D onLoad s s2" by (rule load_post_trans [OF s1(2) ih2(1)])
      moreover have "D name \<noteq> None \<longrightarrow> name \<in> set (cs_loadingStack s2)" using s1(3) load_post_stack [OF ih2(1)] by blast
      ultimately show ?thesis using ih2(2,3) Inr \<open>fnd name s = Inr p\<close> by (simp add: p s1(1))
    qed
  qed
qed (simp_all add: load_post_refl)

lemma in_order_snoc:
  assumes "in_order D onLoad stack" and "\<And>c. D n = Some c \<Longrightarrow> load_succeeds D (onLoad c)"
    and "\<And>c name. D n = Some c \<Longrightarrow> name \<in> set (lookups D (onLoad c)) \<Longrightarrow> D name \<noteq> None \<Longrightarrow> name \<in> set stack"
  shows "in_order D onLoad (stack @ [n])"
  unfolding in_order_def
proof (intro allI impI)
  fix i c
  assume i: "i < length (stack @ [n])" "D ((stack @ [n]) ! i) = Some c"
  show "load_succeeds D (onLoad c) \<and>
      (\<forall>name \<in> set (lookups D (onLoad c)). D name \<noteq> None \<longrightarrow> name \<in> set (take i (stack @ [n])))"
  proof (cases "i < length stack")
    case True
    then show ?thesis using assms(1) i by (auto simp: in_order_def nth_append)
  next
    case False
    then show ?thesis using i assms(2,3) by (auto simp: nth_append less_Suc_eq)
  qed
qed

text \<open>Marking a component as started.\<close>

lemma mark_started:
  assumes "cs_ok D onLoad s" "om_find string_lt name (cs_components s) = Some cont"
  defines "s1 \<equiv> s\<lparr>cs_components := om_assign string_lt name (cont\<lparr>cc_isLoadingStarted := True\<rparr>) (cs_components s)\<rparr>"
  shows "cs_ok D onLoad s1" "started s1 = insert name (started s)" "cs_loadingStack s1 = cs_loadingStack s"
proof -
  have srt: "om_sorted string_lt (cs_components s)" using assms(1) by (simp add: cs_ok_def)
  note f = string_order.find_assign [OF srt]
  show st: "started s1 = insert name (started s)" by (auto simp: started_def s1_def f)
  have "component_of s1 = component_of s" using assms(2) by (auto simp: component_of_def s1_def f fun_eq_iff)
  then show "cs_ok D onLoad s1"
    using assms(1) st string_order.sorted_assign [OF srt] by (auto simp: cs_ok_def s1_def)
qed (simp add: s1_def)

lemma sendOnLoad_ok:
  assumes "find_ok D onLoad k fnd" "cs_ok D onLoad s" "unstarted D s < Suc k"
    and "om_find string_lt name (cs_components s) = Some cont"
  shows "case sendOnLoad_with fnd onLoad name cont s of
      Inl e \<Rightarrow> \<exists>what. e = RuntimeError what
    | Inr s' \<Rightarrow> load_post D onLoad s s' \<and> name \<in> set (cs_loadingStack s')"
proof (cases "isComponentLoaded name s \<or> cc_isLoadingStarted cont")
  case True
  then show ?thesis using load_post_refl [OF assms(2)] by (auto simp: sendOnLoad_with_def isComponentLoaded_def)
next
  case False
  define s1 where "s1 = s\<lparr>cs_components := om_assign string_lt name (cont\<lparr>cc_isLoadingStarted := True\<rparr>) (cs_components s)\<rparr>"
  note mark = mark_started [OF assms(2,4), folded s1_def]
  have D: "D name = Some (cc_component cont)" using assms(2,4) by (auto simp: cs_ok_def component_of_def)
  have new: "name \<notin> started s" using False assms(4) by (simp add: started_def)
  have "unstarted D s1 < unstarted D s"
    unfolding unstarted_def mark(2) using finite_dom [OF assms(2)] D new by (intro psubset_card_mono) auto
  then have u: "unstarted D s1 < k" using assms(3) by simp
  note run = run_onload_ok [OF assms(1) mark(1) u, of "onLoad (cc_component cont)"]
  have eq: "sendOnLoad_with fnd onLoad name cont s =
      rbind (run_onload fnd (onLoad (cc_component cont)) s1) (\<lambda>s. Inr (s\<lparr>cs_loadingStack := cs_loadingStack s @ [name]\<rparr>))"
    using False by (simp add: sendOnLoad_with_def s1_def)
  show ?thesis
  proof (cases "run_onload fnd (onLoad (cc_component cont)) s1")
    case (Inl e)
    then show ?thesis using run by (simp add: eq)
  next
    case (Inr s2)
    let ?s = "s2\<lparr>cs_loadingStack := cs_loadingStack s2 @ [name]\<rparr>"
    have post: "load_post D onLoad s1 s2" and well: "load_succeeds D (onLoad (cc_component cont))"
      and lk: "\<forall>n \<in> set (lookups D (onLoad (cc_component cont))). D n \<noteq> None \<longrightarrow> n \<in> set (cs_loadingStack s2)"
      using run by (simp_all add: Inr)
    obtain ext where ext: "cs_loadingStack s2 = cs_loadingStack s @ ext" "set ext \<inter> insert name (started s) = {}"
      using post mark(2,3) by (auto simp: load_post_def)
    have ok2: "cs_ok D onLoad s2" and st: "insert name (started s) \<subseteq> started s2" using post mark(2) by (auto simp: load_post_def)
    have "name \<notin> set (cs_loadingStack s2)" using ext new assms(2) by (auto simp: cs_ok_def)
    moreover have "in_order D onLoad (cs_loadingStack ?s)"
      using ok2 lk well D by (simp add: cs_ok_def) (rule in_order_snoc, auto)
    moreover have "started ?s = started s2" "component_of ?s = component_of s2" by (simp_all add: started_def component_of_def fun_eq_iff)
    ultimately have "cs_ok D onLoad ?s" using ok2 st by (simp add: cs_ok_def)
    then have "load_post D onLoad s ?s"
      using st ext new \<open>started ?s = started s2\<close> by (auto simp: load_post_def)
    then show ?thesis by (simp add: eq Inr)
  qed
qed

lemma cs_find_ok: "find_ok D onLoad k (cs_find k onLoad)"
proof (induction k)
  case (Suc k)
  show ?case
    unfolding find_ok_def
  proof (intro allI impI)
    fix name s
    assume ok: "cs_ok D onLoad s" and u: "unstarted D s < Suc k"
    have D: "D name = map_option cc_component (om_find string_lt name (cs_components s))"
      using ok by (auto simp: cs_ok_def component_of_def)
    show "case cs_find (Suc k) onLoad name s of Inl e \<Rightarrow> \<exists>what. e = RuntimeError what
      | Inr (c, s') \<Rightarrow> c = D name \<and> load_post D onLoad s s' \<and> (D name \<noteq> None \<longrightarrow> name \<in> set (cs_loadingStack s'))"
    proof (cases "om_find string_lt name (cs_components s)")
      case None
      then show ?thesis using D load_post_refl [OF ok] by simp
    next
      case (Some cont)
      then show ?thesis
        using sendOnLoad_ok [OF Suc ok u Some] D load_post_refl [OF ok]
        by (cases "sendOnLoad_with (cs_find k onLoad) onLoad name cont s") (auto simp: isComponentLoaded_def)
    qed
  qed
qed (simp add: find_ok_def)

lemma sendOnLoad_returns:
  assumes "cs_ok D onLoad s" "om_find string_lt name (cs_components s) = Some cont" "card (dom D) \<le> n"
  shows "case sendOnLoad n onLoad name cont s of
      Inl e \<Rightarrow> \<exists>what. e = RuntimeError what
    | Inr s' \<Rightarrow> load_post D onLoad s s' \<and> name \<in> set (cs_loadingStack s')"
proof -
  have "unstarted D s \<le> card (dom D)" unfolding unstarted_def using finite_dom [OF assms(1)] by (intro card_mono) auto
  then have "unstarted D s < Suc n" using assms(3) by simp
  then show ?thesis unfolding sendOnLoad_def by (rule sendOnLoad_ok [OF cs_find_ok assms(1) _ assms(2)])
qed

lemma send_all_returns:
  assumes "cs_ok D onLoad s" "card (dom D) \<le> n" "set names \<subseteq> dom D"
  shows "case send_all n onLoad names s of
      Inl e \<Rightarrow> \<exists>what. e = RuntimeError what
    | Inr s' \<Rightarrow> load_post D onLoad s s' \<and> set names \<subseteq> set (cs_loadingStack s')"
  using assms
proof (induction names arbitrary: s)
  case Nil
  then show ?case by (simp add: load_post_refl)
next
  case (Cons name names)
  have "D name = map_option cc_component (om_find string_lt name (cs_components s))"
    using Cons.prems(1) by (auto simp: cs_ok_def component_of_def)
  then obtain cont where cont: "om_find string_lt name (cs_components s) = Some cont"
    using Cons.prems(3) by (cases "om_find string_lt name (cs_components s)") auto
  note r = sendOnLoad_returns [OF Cons.prems(1) cont Cons.prems(2)]
  show ?case
  proof (cases "sendOnLoad n onLoad name cont s")
    case (Inl e)
    then show ?thesis using r cont by simp
  next
    case (Inr s1)
    then have s1: "load_post D onLoad s s1" "name \<in> set (cs_loadingStack s1)" using r by simp_all
    then have "cs_ok D onLoad s1" by (simp add: load_post_def)
    from Cons.IH [OF this Cons.prems(2)] Cons.prems(3) show ?thesis
      using Inr cont s1 load_post_trans [OF s1(1)] load_post_stack [of D onLoad s1]
      by (cases "send_all n onLoad names s1") auto
  qed
qed

lemma component_names:
  assumes "om_sorted string_lt (cs_components s)" shows "dom (component_of s) = set (map fst (cs_components s))"
proof -
  have "name \<in> dom (component_of s) \<longleftrightarrow> (\<exists>cont. (name, cont) \<in> set (cs_components s))" for name
    using string_find_iff [OF assms, of name] by (auto simp: component_of_def dom_def)
  then show ?thesis by force
qed

text \<open>Components that are created, but not loaded.\<close>

definition fresh_set :: "'c component_set \<Rightarrow> bool" where
  "fresh_set s \<longleftrightarrow> om_sorted string_lt (cs_components s) \<and> cs_loadingStack s = [] \<and>
     (\<forall>(name, cont) \<in> set (cs_components s). \<not> cc_isLoadingStarted cont)"

lemma cs_add_fresh: "cs_add loader name type path s = Inr s' \<Longrightarrow> fresh_set s \<Longrightarrow> fresh_set s'"
  using set_om_insert [of string_lt name "\<lparr>cc_component = _, cc_isLoadingStarted = False\<rparr>" "cs_components s"]
  by (fastforce simp: cs_add_def fresh_set_def string_order.sorted_insert split: option.splits sum.splits)

lemma add_components_fresh: "add_components config loader v s = Inr s' \<Longrightarrow> fresh_set s \<Longrightarrow> fresh_set s'"
  by (induction v arbitrary: s) (auto simp: rbind_eq_Inr_conv dest: cs_add_fresh)

lemma started_dom: "started s \<subseteq> dom (component_of s)"
  by (auto simp: started_def component_of_def)

lemma components_load_in_order':
  assumes "fresh_set s"
  shows "case sendOnLoadToComponents onLoad s of
      Inl e \<Rightarrow> \<exists>what. e = RuntimeError what
    | Inr s' \<Rightarrow> distinct (cs_loadingStack s') \<and> set (cs_loadingStack s') = set (map fst (cs_components s)) \<and>
        in_order (component_of s) onLoad (cs_loadingStack s')"
proof -
  let ?D = "component_of s"
  have ok: "cs_ok ?D onLoad s" using assms by (simp add: cs_ok_def fresh_set_def in_order_def)
  have dom: "dom ?D = set (map fst (cs_components s))" using assms by (intro component_names) (simp add: fresh_set_def)
  note all = send_all_returns [OF ok, of "length (cs_components s)" "map fst (cs_components s)"]
  have sub: "set (cs_loadingStack s') \<subseteq> dom ?D" if "load_post ?D onLoad s s'" for s'
    using that started_dom [of s'] by (auto simp: load_post_def cs_ok_def)
  show ?thesis
  proof (cases "sendOnLoadToComponents onLoad s")
    case (Inl e)
    then show ?thesis using all finite_dom [OF ok] dom by (simp add: sendOnLoadToComponents_def)
  next
    case (Inr s')
    then have "load_post ?D onLoad s s'" "set (map fst (cs_components s)) \<subseteq> set (cs_loadingStack s')"
      using all finite_dom [OF ok] dom by (simp_all add: sendOnLoadToComponents_def)
    moreover from sub [OF this(1)] dom have "set (cs_loadingStack s') \<subseteq> set (map fst (cs_components s))" by simp
    ultimately show ?thesis by (simp add: Inr load_post_def cs_ok_def)
  qed
qed

text \<open>
  C28. Loading newly created components always ends, in an error that is reported or with every
  component loaded exactly once, without an exception, and after all the components that it looks up
  while it is loaded.
\<close>

theorem components_load_in_order:
  assumes "fresh_set s"
  shows "case sendOnLoadToComponents onLoad s of
      Inl e \<Rightarrow> \<exists>what. e = RuntimeError what
    | Inr s' \<Rightarrow> distinct (cs_loadingStack s') \<and> set (cs_loadingStack s') = set (map fst (cs_components s)) \<and>
        in_order (component_of s) onLoad (cs_loadingStack s')"
  using assms by (rule components_load_in_order')

lemma component_set_init_loaded:
  assumes "component_set_init config loader onLoad component_set_new = Inr s"
  obtains s0 where "fresh_set s0" "sendOnLoadToComponents onLoad s0 = Inr s"
proof -
  obtain v s0 where "add_components config loader v component_set_new = Inr s0" "sendOnLoadToComponents onLoad s0 = Inr s"
    using assms by (auto simp: component_set_init_def rbind_eq_Inr_conv)
  then show thesis using that add_components_fresh [of config loader v component_set_new s0]
    by (simp add: fresh_set_def component_set_new_def)
qed

text \<open>Two components, of which the first looks up the second.\<close>

definition two_components :: "nat component_set" where
  "two_components = \<lparr>cs_components = [(''a'', \<lparr>cc_component = 1, cc_isLoadingStarted = False\<rparr>),
     (''b'', \<lparr>cc_component = 2, cc_isLoadingStarted = False\<rparr>)], cs_loadingStack = []\<rparr>"

definition demo_onload :: "nat \<Rightarrow> nat onload" where
  "demo_onload c = (if c = 1 then LoadFind ''b'' (\<lambda>r. if r = None then LoadThrow ''missing'' else LoadDone) else LoadDone)"

theorem components_load_in_order_witness:
  "\<exists>s. sendOnLoadToComponents demo_onload two_components = Inr s \<and> cs_loadingStack s = [''b'', ''a''] \<and>
     in_order (component_of two_components) demo_onload (cs_loadingStack s)"
proof -
  have lt: "string_lt ''a'' ''b''" "\<not> string_lt ''b'' ''a''" by (simp_all add: string_lt_def byte_lt_def)
  have fr: "fresh_set two_components" by (simp add: fresh_set_def two_components_def lt)
  have "\<exists>s. sendOnLoadToComponents demo_onload two_components = Inr s \<and> cs_loadingStack s = [''b'', ''a'']"
    by (simp add: sendOnLoadToComponents_def two_components_def sendOnLoad_def sendOnLoad_with_def isComponentLoaded_def
      demo_onload_def lt string_order.irrefl)
  then show ?thesis using components_load_in_order [OF fr, of demo_onload] by auto
qed

text \<open>A component that, directly or through others, looks up itself is reported.\<close>

definition depends :: "'c component_set \<Rightarrow> ('c \<Rightarrow> 'c onload) \<Rightarrow> (string \<times> string) set" where
  "depends s onLoad = {(n, n'). \<exists>c. component_of s n = Some c \<and> n' \<in> set (lookups (component_of s) (onLoad c)) \<and> component_of s n' \<noteq> None}"

lemma in_order_index:
  assumes "in_order D onLoad stack" "distinct stack" "i < length stack" "D (stack ! i) = Some c"
    "n' \<in> set (lookups D (onLoad c))" "D n' \<noteq> None"
  shows "\<exists>j < i. stack ! j = n'"
  using assms unfolding in_order_def by (metis in_set_conv_nth length_take min.absorb4 nth_take)

theorem cyclic_components_rejected:
  assumes "fresh_set s" "(n, n) \<in> (depends s onLoad)\<^sup>+"
  shows "\<exists>what. sendOnLoadToComponents onLoad s = Inl (RuntimeError what)"
proof (cases "sendOnLoadToComponents onLoad s")
  case (Inl e)
  then show ?thesis using components_load_in_order' [OF assms(1), of onLoad] by simp
next
  case (Inr s')
  let ?st = "cs_loadingStack s'"
  have o: "distinct ?st" "set ?st = set (map fst (cs_components s))" "in_order (component_of s) onLoad ?st"
    using components_load_in_order' [OF assms(1), of onLoad] by (simp_all add: Inr)
  have dom: "dom (component_of s) = set ?st" using assms(1) o(2) by (simp add: component_names fresh_set_def)
  have step: "\<forall>i < length ?st. ?st ! i = a \<longrightarrow> (\<exists>j < i. ?st ! j = b)" if "(a, b) \<in> (depends s onLoad)\<^sup>+" for a b
    using that
  proof (induction rule: trancl.induct)
    case (r_into_trancl a b)
    then show ?case using in_order_index [OF o(3,1)] by (auto simp: depends_def)
  next
    case (trancl_into_trancl a b c)
    show ?case
    proof (intro allI impI)
      fix i assume "i < length ?st" "?st ! i = a"
      then obtain j where j: "j < i" "?st ! j = b" using trancl_into_trancl.IH by blast
      moreover have "j < length ?st" using j(1) \<open>i < length ?st\<close> by simp
      ultimately obtain k where "k < j" "?st ! k = c"
        using in_order_index [OF o(3,1), of j] trancl_into_trancl.hyps(2) by (auto simp: depends_def)
      then show "\<exists>k < i. ?st ! k = c" using j(1) by (intro exI [of _ k]) simp
    qed
  qed
  have "n \<in> set ?st" using assms(2) dom by (auto simp: depends_def dest: tranclD)
  then obtain i where "i < length ?st" "?st ! i = n" by (auto simp: in_set_conv_nth)
  then show ?thesis using step [OF assms(2)] o(1) by (metis less_trans nat_neq_iff nth_eq_iff_index_eq)
qed

text \<open>After loading, looking up a component changes nothing.\<close>

lemma loaded_find:
  assumes "set (cs_loadingStack s) = dom (component_of s)"
  shows "cs_find (Suc n) onLoad name s = Inr (component_of s name, s)"
proof (cases "om_find string_lt name (cs_components s)")
  case (Some cont)
  then have "name \<in> set (cs_loadingStack s)" using assms by (auto simp: component_of_def)
  then show ?thesis using Some by (simp add: isComponentLoaded_def component_of_def)
qed (simp add: component_of_def)

end
