(* ===== verification/Globals.thy ===== *)
theory Globals
  imports Dispatch ComponentSets
begin

text \<open>
  Start-up of the container (\<^verbatim>\<open>library/globals.cpp\<close>): the thread pools of the configuration, and the
  order in which the parts are built.
\<close>

section \<open>Thread pools\<close>

text \<open>The delay of a pool in the ticks (nanoseconds) of the clock.\<close>

definition milliseconds :: "int \<Rightarrow> int" where
  "milliseconds n = n * 1000000"

fun init_pools :: "xml_config \<Rightarrow> string set \<Rightarrow> string list \<Rightarrow> u32 \<Rightarrow> ('s, 'u, 'h, 'f) pool_map \<Rightarrow> ('s, 'u, 'h, 'f) pool_map result" where
  "init_pools cfg poolsNeeded [] maxTasks pools = Inr pools"
| "init_pools cfg poolsNeeded (p # poolSubkeys) maxTasks pools =
     rbind (cfg_asString cfg (p @ ''/@name'')) (\<lambda>poolName.
     rbind (cfg_asInt cfg (p @ ''/@threads'')) (\<lambda>threadsNumber.
     rbind (cfg_asInt cfg (p @ ''/@queue'')) (\<lambda>queueLength.
     rbind (cfg_asInt_default cfg (p @ ''/@max-delay'') 0) (\<lambda>delay.
       let maxTasks = maxTasks + word_of_int (threadsNumber + queueLength) in
       if maxTasks > 65535
       then Inl (RuntimeError ''The sum of all threads and queue attributes must be not more than 65535'')
       else if om_find string_lt poolName pools \<noteq> None
       then Inl (RuntimeError (poolName @ '': pool names must be unique''))
       else if poolName \<notin> poolsNeeded then init_pools cfg poolsNeeded poolSubkeys maxTasks pools
       else init_pools cfg poolsNeeded poolSubkeys maxTasks
              (fst (om_insert string_lt poolName
                 (if delay > 0 then milliseconds delay else 0,
                  pool_new (word_of_int threadsNumber) (word_of_int queueLength)) pools))))))"

text \<open>The elements of the \<^verbatim>\<open>std::set\<close> of the pools needed, in its order.\<close>

definition pools_needed :: "('h, 'f) handler_set \<Rightarrow> string list" where
  "pools_needed hs =
     map fst (foldl (\<lambda>m k. fst (om_insert string_lt k () m)) [] (map hd_poolName (hs_handlers hs) @ [hs_defaultPoolName hs]))"

definition initPools :: "xml_config \<Rightarrow> ('h, 'f) handler_set \<Rightarrow> ('s, 'u, 'h, 'f) pool_map result" where
  "initPools cfg hs =
     (let poolsNeeded = pools_needed hs in
      rbind (cfg_subKeys cfg ''/fastcgi/pools/pool'') (\<lambda>poolSubkeys.
      rbind (init_pools cfg (set poolsNeeded) poolSubkeys 0 []) (\<lambda>pools.
        case List.find (\<lambda>i. om_find string_lt i pools = None) poolsNeeded of
          None \<Rightarrow> Inr pools
        | Some i \<Rightarrow> Inl (RuntimeError (''cannot find pool '' @ i)))))"

definition startThreadPools :: "('s, 'u, 'h, 'f) pool_map \<Rightarrow> ('s, 'u, 'h, 'f) pool_map" where
  "startThreadPools pools = map (\<lambda>(name, delay, p). (name, delay, pool_start p)) pools"

definition stopThreadPools :: "('s, 'u, 'h, 'f) pool_map \<Rightarrow> ('s, 'u, 'h, 'f) pool_map" where
  "stopThreadPools pools = map (\<lambda>(name, delay, p). (name, delay, pool_stop p)) pools"

section \<open>Start-up\<close>

text \<open>
  A component may be a handler, a filter, a logger; what it is, the component says itself. After the
  component set is loaded, looking up a component no longer changes it (lemma \<open>loaded_find\<close>).
\<close>

definition initLogger :: "xml_config \<Rightarrow> (string \<Rightarrow> 'c option) \<Rightarrow> ('c \<Rightarrow> 'l option) \<Rightarrow> 'l result" where
  "initLogger cfg comps as_logger =
     rbind (cfg_asString cfg ''/fastcgi/daemon[count(logger)=1]/logger/@component'') (\<lambda>name.
       case comps name of
         None \<Rightarrow> Inl (RuntimeError ''Daemon logger does not exist'')
       | Some c \<Rightarrow>
           (case as_logger c of
              None \<Rightarrow> Inl (RuntimeError (''Component '' @ name @ '' does not implement Logger interface''))
            | Some l \<Rightarrow> Inr l))"

record ('c, 's, 'u, 'h, 'f, 'l) globals =
  gl_components :: "'c component_set"
  gl_handlers :: "('h, 'f) handler_set"
  gl_logger :: 'l
  gl_pools :: "('s, 'u, 'h, 'f) pool_map"

definition globals_new :: "xml_config \<Rightarrow> (string \<Rightarrow> (string \<Rightarrow> 'c result) option) \<Rightarrow> ('c \<Rightarrow> 'c onload) \<Rightarrow>
    ('c \<Rightarrow> ('h, 'f) component) \<Rightarrow> ('c \<Rightarrow> 'l option) \<Rightarrow> ('c, 's, 'u, 'h, 'f, 'l) globals result" where
  "globals_new cfg loader onLoad as_component as_logger =
     rbind (component_set_init cfg loader onLoad component_set_new) (\<lambda>cs.
     rbind (handler_set_init cfg (\<lambda>name. Inr (map_option as_component (component_of cs name))) handler_set_new) (\<lambda>hs.
     rbind (initLogger cfg (component_of cs) as_logger) (\<lambda>logger.
     rbind (initPools cfg hs) (\<lambda>pools.
       Inr \<lparr>gl_components = cs, gl_handlers = hs, gl_logger = logger, gl_pools = startThreadPools pools\<rparr>))))"


section \<open>What start-up achieves\<close>

lemma fst_set_om_insert: "fst ` set (fst (om_insert string_lt k v m)) = insert k (fst ` set m)"
proof (induction string_lt k v m rule: om_insert.induct)
  case (2 k v k' v' m)
  show ?case
  proof (cases "string_lt k' k")
    case True
    then show ?thesis using 2 by (cases "om_insert string_lt k v m") (simp add: insert_commute)
  next
    case False
    then show ?thesis using string_lt_cases [of k' k] by (cases "string_lt k k'") auto
  qed
qed simp

lemma set_pools_needed: "set (pools_needed hs) = getPoolsNeeded hs"
proof -
  have "fst ` set (foldl (\<lambda>m k. fst (om_insert string_lt k () m)) m ks) = set ks \<union> fst ` set m" for ks m
    by (induction ks arbitrary: m) (auto simp: fst_set_om_insert)
  from this [of "[]" "map hd_poolName (hs_handlers hs) @ [hs_defaultPoolName hs]"]
  show ?thesis by (simp add: pools_needed_def getPoolsNeeded_def del: foldl_append)
qed

lemma initPools_complete:
  assumes "initPools cfg hs = Inr pools" "i \<in> getPoolsNeeded hs"
  shows "om_find string_lt i pools \<noteq> None"
  using assms by (auto simp: initPools_def rbind_eq_Inr_conv Let_def find_None_iff set_pools_needed split: option.splits)

lemma find_start: "om_find string_lt i (startThreadPools pools) = map_option (\<lambda>(d, p). (d, pool_start p)) (om_find string_lt i pools)"
  by (induction string_lt i pools rule: om_find.induct) (auto simp: startThreadPools_def)

lemma find_handler_mem: "find_handler rx ds r = Inr (Some d) \<Longrightarrow> d \<in> set ds"
  by (induction ds) (auto simp: rbind_eq_Inr_conv split: if_splits)

lemma answered_not_NoPool [simp]: "answered x \<noteq> NoPool"
  by (simp add: answered_def split: sum.split)

lemma enqueue_NoPool: "enqueue now pools name task = NoPool \<Longrightarrow> om_find string_lt name pools = None"
  by (auto simp: enqueue_def split: option.splits sum.splits)

lemma handleRequest_pool:
  assumes "initPools cfg hs = Inr pools"
  shows "handleRequest rx hs now (startThreadPools pools) task \<noteq> NoPool"
proof
  assume "handleRequest rx hs now (startThreadPools pools) task = NoPool"
  then consider filters where "handleRequestFilters now (startThreadPools pools) (hs_defaultPoolName hs) filters task = NoPool"
    | filters handler where "findURIHandler rx hs (tk_request task) = Inr handler"
        "handleRequestInternal now (startThreadPools pools) filters handler task = NoPool"
    by (auto simp: handleRequest_def split: sum.splits if_splits)
  then obtain name where "name \<in> getPoolsNeeded hs" "om_find string_lt name (startThreadPools pools) = None"
  proof cases
    case (1 filters)
    then have "om_find string_lt (hs_defaultPoolName hs) (startThreadPools pools) = None"
      unfolding handleRequestFilters_def by (rule enqueue_NoPool)
    then show thesis using that by (auto simp: getPoolsNeeded_def)
  next
    case (2 filters handler)
    then obtain d where d: "handler = Some d" "enqueue now (startThreadPools pools) (hd_poolName d)
        (task\<lparr>tk_filters := filters, tk_handlers := hd_handlers d\<rparr>) = NoPool"
      by (auto simp: handleRequestInternal_def split: option.splits if_splits)
    then have "d \<in> set (hs_handlers hs)" using 2(1) find_handler_mem by (auto simp: findURIHandler_def)
    then show thesis using that enqueue_NoPool [OF d(2)] by (auto simp: getPoolsNeeded_def)
  qed
  then show False using initPools_complete [OF assms] by (auto simp: find_start)
qed

text \<open>
  After start-up, no request refers to a missing pool: whatever handler or filters are selected
  for it, the pool they belong to exists.
\<close>

theorem startup_pools_exist:
  assumes "initPools cfg hs = Inr pools"
  shows "handleRequest rx hs now (startThreadPools pools) task \<noteq> NoPool"
  by (rule handleRequest_pool [OF assms])

section \<open>The size of the pools\<close>

definition pool_size :: "string \<times> int \<times> 't pool \<Rightarrow> nat" where
  "pool_size e = (let info = tp_info (snd (snd e)) in unat (pi_threadsNumber info) + unat (pi_queueLength info))"

lemma sum_om_insert:
  "om_find lt k m = None \<Longrightarrow> sum_list (map f (fst (om_insert lt k v m))) = f (k, v) + sum_list (map f m)" for f :: "_ \<Rightarrow> nat"
  by (induction lt k v m rule: om_insert.induct) (auto split: if_splits prod.split)

lemma pool_size_new:
  assumes "0 \<le> t" "0 \<le> q" "t + q < 2 ^ 31"
  shows "pool_size (name, d, pool_new (word_of_int t) (word_of_int q)) = nat (t + q)"
proof -
  have "unat (word_of_int x :: u32) = nat x" if "0 \<le> x" "x < 2 ^ 31" for x
    using that by (simp add: unat_eq_nat_uint take_bit_int_eq_self uint_word_of_int_eq)
  moreover have "unat (ucast w :: u64) = unat w" for w :: u32
    using unsigned_less [of w, where 'a = nat] by (simp add: unsigned_ucast_eq take_bit_nat_eq_self)
  ultimately show ?thesis using assms by (simp add: pool_size_def pool_new_def nat_add_distrib)
qed

text \<open>The numbers of a pool in the configuration, as long as they are not negative and not huge.\<close>

definition pool_numbers_ok :: "xml_config \<Rightarrow> string \<Rightarrow> bool" where
  "pool_numbers_ok cfg p \<longleftrightarrow>
     (\<forall>t q. cfg_asInt cfg (p @ ''/@threads'') = Inr t \<longrightarrow> cfg_asInt cfg (p @ ''/@queue'') = Inr q \<longrightarrow> 0 \<le> t \<and> 0 \<le> q \<and> t + q < 2 ^ 31)"

lemma counter_exact:
  assumes "unat (c :: u32) \<le> 65535" "0 \<le> n" "n < 2 ^ 31" "\<not> c + word_of_int n > 65535"
  shows "unat (c + word_of_int n) = unat c + nat n" "unat c + nat n \<le> 65535"
proof -
  have n: "unat (word_of_int n :: u32) = nat n"
    using assms(2,3) by (simp add: unat_eq_nat_uint take_bit_int_eq_self uint_word_of_int_eq)
  have "unat c + unat (word_of_int n :: u32) < 2 ^ LENGTH(32)" using assms(1,3) by (simp add: n)
  then show e: "unat (c + word_of_int n) = unat c + nat n" by (simp add: unat_add_lem [THEN iffD1] n)
  show "unat c + nat n \<le> 65535" using assms(4) by (simp add: word_less_nat_alt e)
qed

lemma init_pools_size:
  assumes "init_pools cfg needed ps c pools = Inr pools'" "\<forall>p \<in> set ps. pool_numbers_ok cfg p"
    and "sum_list (map pool_size pools) \<le> unat c" "unat c \<le> 65535"
  shows "sum_list (map pool_size pools') \<le> 65535"
  using assms
proof (induction ps arbitrary: c pools)
  case (Cons p ps)
  obtain name t q d where v: "cfg_asString cfg (p @ ''/@name'') = Inr name" "cfg_asInt cfg (p @ ''/@threads'') = Inr t"
    "cfg_asInt cfg (p @ ''/@queue'') = Inr q" "cfg_asInt_default cfg (p @ ''/@max-delay'') 0 = Inr d"
    using Cons.prems(1) by (auto simp: rbind_eq_Inr_conv)
  let ?c = "c + word_of_int (t + q)"
  let ?e = "(if d > 0 then milliseconds d else 0, pool_new (word_of_int t) (word_of_int q))"
  have tq: "0 \<le> t" "0 \<le> q" "t + q < 2 ^ 31" using Cons.prems(2) v by (auto simp: pool_numbers_ok_def)
  have guards: "\<not> ?c > 65535" "om_find string_lt name pools = None"
    and rest: "init_pools cfg needed ps ?c (if name \<notin> needed then pools else fst (om_insert string_lt name ?e pools)) = Inr pools'"
    using Cons.prems(1) by (simp_all add: v Let_def split: if_splits del: not_None_eq)
  note c = counter_exact [OF Cons.prems(4) _ _ guards(1)]
  have "sum_list (map pool_size (if name \<notin> needed then pools else fst (om_insert string_lt name ?e pools))) \<le> unat ?c"
    using Cons.prems(3) c(1) tq sum_om_insert [OF guards(2), of pool_size ?e] by (auto simp: pool_size_new [OF tq])
  then show ?case using Cons.IH [OF rest] Cons.prems(2) c tq by auto
qed simp


text \<open>A configuration with one pool.\<close>

definition demo_pool_doc :: xml_doc where
  "demo_pool_doc key =
     Inr (if key = ''/fastcgi/pools/pool'' then [Some []]
          else if key = ''/fastcgi/pools/pool[1]/@name'' then [Some ''p'']
          else if key = ''/fastcgi/pools/pool[1]/@threads'' then [Some ''4'']
          else if key = ''/fastcgi/pools/pool[1]/@queue'' then [Some ''10''] else [])"

definition demo_pool_cfg :: xml_config where
  "demo_pool_cfg = \<lparr>xc_doc = demo_pool_doc, xc_vars = []\<rparr>"

lemma demo_pool_numbers:
  "cfg_subKeys demo_pool_cfg ''/fastcgi/pools/pool'' = Inr [''/fastcgi/pools/pool[1]'']"
  "cfg_asString demo_pool_cfg ''/fastcgi/pools/pool[1]/@name'' = Inr ''p''"
  "cfg_asInt demo_pool_cfg ''/fastcgi/pools/pool[1]/@threads'' = Inr 4"
  "cfg_asInt demo_pool_cfg ''/fastcgi/pools/pool[1]/@queue'' = Inr 10"
  "cfg_asInt_default demo_pool_cfg ''/fastcgi/pools/pool[1]/@max-delay'' 0 = Inr 0"
  by (simp_all add: cfg_subKeys_def cfg_asString_def cfg_asInt_def cfg_asInt_default_def demo_pool_cfg_def demo_pool_doc_def
    resolve_plain show_nat.simps atoi_def c_str_def isspace_def isdigit_def char_of_def bit_0)

lemma demo_initPools: "initPools demo_pool_cfg demo_set = Inr [(''p'', 0, pool_new 4 10)]"
proof -
  have n: "pools_needed demo_set = [''p'']" by (simp add: pools_needed_def demo_set_def string_order.irrefl)
  show ?thesis by (simp add: initPools_def n demo_pool_numbers string_order.irrefl)
qed


theorem startup_pools_exist_witness:
  "handleRequest (=) demo_set 10 (startThreadPools [(''p'', 0, pool_new 4 10)])
     \<lparr>tk_request = request_new :: (unit, unit) request, tk_filters = [], tk_handlers = [], tk_start = 0\<rparr> \<noteq> NoPool"
  by (rule startup_pools_exist [OF demo_initPools])

end
