(* ===== verification/Loaders.thy ===== *)
theory Loaders
  imports Globals
begin

text \<open>
  The loader of the modules (\<^verbatim>\<open>library/loader.cpp\<close>) and with it the whole constructor of \<^verbatim>\<open>Globals\<close>.

  The dynamic linker is an argument: \<open>dlopen\<close> gives a handle or the message of \<^verbatim>\<open>dlerror\<close>, \<open>entry\<close> looks up
  \<^verbatim>\<open>getFactoryMap\<close> with a handle and gives the map that this function returns, with \<^const>\<open>None\<close> for a null
  pointer, or the message of \<^verbatim>\<open>dlerror\<close>. The list of the handles that are open is added to the state of the
  loader.
\<close>

record ('h, 'f) loader =
  ld_handles :: "'h list"
  ld_factories :: "(string \<times> 'f) list"
  ld_open :: "'h list"

definition loader_new :: "('h, 'f) loader" where
  "loader_new = \<lparr>ld_handles = [], ld_factories = [], ld_open = []\<rparr>"

definition findComponentFactory :: "('h, 'f) loader \<Rightarrow> string \<Rightarrow> 'f option" where
  "findComponentFactory L type = om_find string_lt type (ld_factories L)"

fun insert_factories :: "string \<Rightarrow> (string \<times> 'f) list \<Rightarrow> (string \<times> 'f) list \<Rightarrow> (string \<times> 'f) list" where
  "insert_factories name [] factories = factories"
| "insert_factories name (i # is) factories =
     insert_factories name is (fst (om_insert string_lt (name @ '':'' @ fst i) (snd i) factories))"

text \<open>Loading one module. A failure closes the handle that was opened.\<close>

definition loader_load :: "(string \<Rightarrow> string + 'h) \<Rightarrow> ('h \<Rightarrow> string + (string \<times> 'f) list option) \<Rightarrow> string \<Rightarrow> string \<Rightarrow>
    ('h, 'f) loader \<Rightarrow> (cpp_error \<times> ('h, 'f) loader) + ('h, 'f) loader" where
  "loader_load dlopen entry name path L =
     (case dlopen path of
        Inl err \<Rightarrow> Inl (RuntimeError err, L)
      | Inr h \<Rightarrow>
          let L = L\<lparr>ld_open := ld_open L @ [h]\<rparr> in
          (case entry h of
             Inl err \<Rightarrow> Inl (RuntimeError err, L\<lparr>ld_open := butlast (ld_open L)\<rparr>)
           | Inr factoryMap \<Rightarrow>
               let L = (case factoryMap of
                          None \<Rightarrow> L
                        | Some m \<Rightarrow> L\<lparr>ld_factories := insert_factories name m (ld_factories L)\<rparr>)
               in Inr (L\<lparr>ld_handles := ld_handles L @ [h]\<rparr>)))"

fun load_modules :: "(string \<Rightarrow> string + 'h) \<Rightarrow> ('h \<Rightarrow> string + (string \<times> 'f) list option) \<Rightarrow> xml_config \<Rightarrow> string list \<Rightarrow>
    ('h, 'f) loader \<Rightarrow> (cpp_error \<times> ('h, 'f) loader) + ('h, 'f) loader" where
  "load_modules dlopen entry cfg [] L = Inr L"
| "load_modules dlopen entry cfg (i # v) L =
     (case cfg_asString cfg (i @ ''/@name'') of
        Inl e \<Rightarrow> Inl (e, L)
      | Inr name \<Rightarrow>
          (case cfg_asString cfg (i @ ''/@path'') of
             Inl e \<Rightarrow> Inl (e, L)
           | Inr path \<Rightarrow>
               rbind (loader_load dlopen entry (c_str name) (c_str path) L) (load_modules dlopen entry cfg v)))"

definition loader_init :: "(string \<Rightarrow> string + 'h) \<Rightarrow> ('h \<Rightarrow> string + (string \<times> 'f) list option) \<Rightarrow> xml_config \<Rightarrow>
    ('h, 'f) loader \<Rightarrow> (cpp_error \<times> ('h, 'f) loader) + ('h, 'f) loader" where
  "loader_init dlopen entry cfg L =
     (case cfg_subKeys cfg ''/fastcgi/modules/module'' of
        Inl e \<Rightarrow> Inl (e, L)
      | Inr v \<Rightarrow> load_modules dlopen entry cfg v L)"

text \<open>The destructor: the handles it closes, in this order.\<close>

definition loader_destroy :: "('h, 'f) loader \<Rightarrow> 'h list" where
  "loader_destroy L = rev (ld_handles L)"

text \<open>The constructor of \<^verbatim>\<open>Globals\<close>.\<close>

definition globals_create ::
    "(string \<Rightarrow> string + 'h) \<Rightarrow> ('h \<Rightarrow> string + (string \<times> (string \<Rightarrow> 'c result)) list option) \<Rightarrow> xml_config \<Rightarrow> ('c \<Rightarrow> 'c onload) \<Rightarrow>
     ('c \<Rightarrow> ('k, 'f) component) \<Rightarrow> ('c \<Rightarrow> 'l option) \<Rightarrow>
     (('h, string \<Rightarrow> 'c result) loader \<times> ('c, 's, 'u, 'k, 'f, 'l) globals) result" where
  "globals_create dlopen entry cfg onLoad as_component as_logger =
     (case loader_init dlopen entry cfg loader_new of
        Inl (e, L) \<Rightarrow> Inl e
      | Inr L \<Rightarrow>
          rbind (globals_new cfg (findComponentFactory L) onLoad as_component as_logger) (\<lambda>g. Inr (L, g)))"

section \<open>What the loader does\<close>

text \<open>The invariant: the factories are ordered, and exactly the handles kept are open.\<close>

definition loader_ok :: "('h, 'f) loader \<Rightarrow> bool" where
  "loader_ok L \<longleftrightarrow> om_sorted string_lt (ld_factories L) \<and> ld_open L = ld_handles L"

text \<open>What a module offers, under the names it gets, in the order in which it is registered.\<close>

definition offers :: "(string \<Rightarrow> string + 'h) \<Rightarrow> ('h \<Rightarrow> string + (string \<times> 'f) list option) \<Rightarrow> string \<times> string \<Rightarrow> (string \<times> 'f) list" where
  "offers dlopen entry = (\<lambda>(name, path).
     case dlopen path of
       Inr h \<Rightarrow> (case entry h of Inr (Some m) \<Rightarrow> map (\<lambda>(k, f). (name @ '':'' @ k, f)) m | _ \<Rightarrow> [])
     | Inl _ \<Rightarrow> [])"

text \<open>The names and paths of the modules in the configuration.\<close>

fun modules_of :: "xml_config \<Rightarrow> string list \<Rightarrow> (string \<times> string) list" where
  "modules_of cfg [] = []"
| "modules_of cfg (i # v) =
     (case (cfg_asString cfg (i @ ''/@name''), cfg_asString cfg (i @ ''/@path'')) of
        (Inr name, Inr path) \<Rightarrow> (c_str name, c_str path) # modules_of cfg v
      | _ \<Rightarrow> [])"

lemma insert_factories_sorted: "om_sorted string_lt m \<Longrightarrow> om_sorted string_lt (insert_factories name is m)"
  by (induction name "is" m rule: insert_factories.induct) (auto simp: string_order.sorted_insert)

lemma insert_factories_find:
  "om_sorted string_lt m \<Longrightarrow>
   om_find string_lt t (insert_factories name is m) =
     (case om_find string_lt t m of Some f \<Rightarrow> Some f | None \<Rightarrow> map_of (map (\<lambda>(k, f). (name @ '':'' @ k, f)) is) t)"
proof (induction name "is" m rule: insert_factories.induct)
  case (2 name i "is" m)
  then show ?case
    by (cases i) (auto simp: string_order.sorted_insert string_order.find_insert string_eqv_eq split: option.split)
qed (simp split: option.split)

lemma loader_load_ok:
  assumes "loader_ok L" and "loader_load dlopen entry name path L = x"
  shows "case x of Inl (e, L') \<Rightarrow> L' = L
    | Inr L' \<Rightarrow> loader_ok L' \<and> (\<forall>t. findComponentFactory L' t =
        (case findComponentFactory L t of Some f \<Rightarrow> Some f | None \<Rightarrow> map_of (offers dlopen entry (name, path)) t))"
  using assms
  by (auto simp: loader_load_def loader_ok_def findComponentFactory_def offers_def insert_factories_sorted
      insert_factories_find Let_def split: sum.splits option.splits)

lemma load_modules_error_ok:
  "loader_ok L \<Longrightarrow> load_modules dlopen entry cfg v L = Inl (e, L') \<Longrightarrow> loader_ok L'"
proof (induction v arbitrary: L)
  case (Cons i v)
  show ?case
  proof (cases "cfg_asString cfg (i @ ''/@name'')"; cases "cfg_asString cfg (i @ ''/@path'')")
    fix name path assume n: "cfg_asString cfg (i @ ''/@name'') = Inr name" "cfg_asString cfg (i @ ''/@path'') = Inr path"
    show ?thesis
    proof (cases "loader_load dlopen entry (c_str name) (c_str path) L")
      case (Inl x)
      then show ?thesis using loader_load_ok [OF Cons.prems(1) Inl] Cons.prems n by auto
    next
      case (Inr L1)
      then show ?thesis using loader_load_ok [OF Cons.prems(1) Inr] Cons.prems Cons.IH [of L1] n by auto
    qed
  qed (use Cons.prems in auto)
qed simp

lemma load_modules_find:
  "loader_ok L \<Longrightarrow> load_modules dlopen entry cfg v L = Inr L' \<Longrightarrow>
   loader_ok L' \<and> findComponentFactory L' t =
     (case findComponentFactory L t of Some f \<Rightarrow> Some f | None \<Rightarrow> map_of (concat (map (offers dlopen entry) (modules_of cfg v))) t)"
proof (induction v arbitrary: L)
  case (Cons i v)
  obtain name path L1 where n: "cfg_asString cfg (i @ ''/@name'') = Inr name" "cfg_asString cfg (i @ ''/@path'') = Inr path"
    "loader_load dlopen entry (c_str name) (c_str path) L = Inr L1" "load_modules dlopen entry cfg v L1 = Inr L'"
    using Cons.prems(2) by (auto simp: rbind_eq_Inr_conv split: sum.splits)
  have l: "loader_ok L1" "findComponentFactory L1 t =
      (case findComponentFactory L t of Some f \<Rightarrow> Some f | None \<Rightarrow> map_of (offers dlopen entry (c_str name, c_str path)) t)"
    using loader_load_ok [OF Cons.prems(1) n(3)] by auto
  show ?case using Cons.IH [OF l(1) n(4)] n(1,2) l(2) by (auto simp: map_add_def split: option.split)
qed (simp split: option.split)

lemma loader_new_ok: "loader_ok loader_new" "findComponentFactory loader_new t = None"
  by (simp_all add: loader_ok_def loader_new_def findComponentFactory_def)

lemma loader_init_find:
  assumes "loader_init dlopen entry cfg loader_new = Inr L"
  shows "\<exists>v. cfg_subKeys cfg ''/fastcgi/modules/module'' = Inr v \<and>
    (\<forall>t. findComponentFactory L t = map_of (concat (map (offers dlopen entry) (modules_of cfg v))) t)"
  using assms load_modules_find [OF loader_new_ok(1), of dlopen entry cfg]
  by (auto simp: loader_init_def loader_new_ok(2) split: sum.splits)

lemma loader_init_ok: "case loader_init dlopen entry cfg loader_new of Inl (e, L) \<Rightarrow> loader_ok L | Inr L \<Rightarrow> loader_ok L"
  using load_modules_error_ok [OF loader_new_ok(1), of dlopen entry cfg] load_modules_find [OF loader_new_ok(1), of dlopen entry cfg]
  by (auto simp: loader_init_def loader_new_ok(1) split: sum.split)

text \<open>
  However the loading of the modules ends, every handle that is still open is one the destructor closes. When it
  succeeds, the factory of a type is that of the first module, in the order of the configuration, that offers it
  under the name of the module.
\<close>

theorem modules_loaded:
  "case loader_init dlopen entry cfg loader_new of
     Inl (e, L) \<Rightarrow> ld_open L = rev (loader_destroy L)
   | Inr L \<Rightarrow> ld_open L = rev (loader_destroy L) \<and>
       (\<exists>v. cfg_subKeys cfg ''/fastcgi/modules/module'' = Inr v \<and>
          (\<forall>t. findComponentFactory L t = map_of (concat (map (offers dlopen entry) (modules_of cfg v))) t))"
  using loader_init_ok [of dlopen entry cfg] loader_init_find [of dlopen entry cfg]
  by (auto simp: loader_ok_def loader_destroy_def split: sum.split)

section \<open>Components of modules\<close>

lemma component_of_add:
  assumes "cs_add loader name type i s = Inr s'" and "om_sorted string_lt (cs_components s)"
    and "component_of s' n = Some c" and "component_of s n = None"
  shows "n = name \<and> (\<exists>f. loader type = Some f \<and> f i = Inr c)"
  using assms
  by (auto simp: cs_add_def component_of_def string_order.find_insert string_eqv_eq split: option.splits sum.splits if_splits)

lemma component_of_add_kept:
  "cs_add loader name type i s = Inr s' \<Longrightarrow> fresh_set s \<Longrightarrow> component_of s n = Some c \<Longrightarrow>
   component_of s' n = Some c"
  by (auto simp: fresh_set_def cs_add_def component_of_def string_order.find_insert string_eqv_eq split: option.splits sum.splits)

lemma components_kept:
  "add_components cfg loader v s = Inr s' \<Longrightarrow> fresh_set s \<Longrightarrow> component_of s n = Some c \<Longrightarrow> component_of s' n = Some c"
proof (induction v arbitrary: s)
  case (Cons i v)
  then show ?case
    by (auto simp: rbind_eq_Inr_conv) (meson component_of_add_kept cs_add_fresh)
qed simp

lemma components_created:
  assumes "add_components cfg loader v s = Inr s'" and "fresh_set s" and "component_of s' n = Some c" and "component_of s n = None"
  shows "\<exists>i type f. i \<in> set v \<and> cfg_asString cfg (i @ ''/@name'') = Inr n \<and> cfg_asString cfg (i @ ''/@type'') = Inr type \<and>
    loader type = Some f \<and> f i = Inr c"
  using assms
proof (induction v arbitrary: s)
  case (Cons i v)
  obtain name type s1 where n: "cfg_asString cfg (i @ ''/@name'') = Inr name" "cfg_asString cfg (i @ ''/@type'') = Inr type"
    "cs_add loader name type i s = Inr s1" "add_components cfg loader v s1 = Inr s'"
    using Cons.prems(1) by (auto simp: rbind_eq_Inr_conv)
  have f1: "fresh_set s1" using cs_add_fresh [OF n(3) Cons.prems(2)] .
  show ?case
  proof (cases "component_of s1 n")
    case None
    from Cons.IH [OF n(4) f1 Cons.prems(3) None] show ?thesis by auto
  next
    case (Some c1)
    have "n = name \<and> (\<exists>f. loader type = Some f \<and> f i = Inr c1)"
      using component_of_add [OF n(3) _ Some Cons.prems(4)] Cons.prems(2) by (simp add: fresh_set_def)
    moreover have "c1 = c" using components_kept [OF n(4) f1 Some] Cons.prems(3) by simp
    ultimately show ?thesis using n(1,2) by auto
  qed
qed simp

lemma loading_keeps_components:
  assumes "fresh_set s" and "sendOnLoadToComponents onLoad s = Inr s'"
  shows "component_of s' = component_of s"
proof -
  let ?D = "component_of s"
  have ok: "cs_ok ?D onLoad s" using assms(1) by (simp add: cs_ok_def fresh_set_def in_order_def)
  have "dom ?D = set (map fst (cs_components s))" using assms(1) by (intro component_names) (simp add: fresh_set_def)
  then have "load_post ?D onLoad s s'"
    using send_all_returns [OF ok, of "length (cs_components s)" "map fst (cs_components s)"] assms(2) finite_dom [OF ok]
    by (simp add: sendOnLoadToComponents_def)
  then show ?thesis by (simp add: load_post_def cs_ok_def)
qed

lemma component_made_by_module:
  assumes "loader_init dlopen entry cfg loader_new = Inr L"
    and "component_set_init cfg (findComponentFactory L) onLoad component_set_new = Inr cs"
    and "component_of cs n = Some c"
  shows "\<exists>v i type f. cfg_subKeys cfg ''/fastcgi/modules/module'' = Inr v \<and>
    cfg_asString cfg (i @ ''/@name'') = Inr n \<and> cfg_asString cfg (i @ ''/@type'') = Inr type \<and>
    map_of (concat (map (offers dlopen entry) (modules_of cfg v))) type = Some f \<and> f i = Inr c"
proof -
  obtain w s0 where s0: "add_components cfg (findComponentFactory L) w component_set_new = Inr s0"
    "sendOnLoadToComponents onLoad s0 = Inr cs"
    using assms(2) by (auto simp: component_set_init_def rbind_eq_Inr_conv)
  have new: "fresh_set (component_set_new :: 'c component_set)" "component_of (component_set_new :: 'c component_set) n = None" for n
    by (simp_all add: fresh_set_def component_set_new_def component_of_def)
  have "component_of s0 n = Some c"
    using loading_keeps_components [OF add_components_fresh [OF s0(1) new(1)] s0(2)] assms(3) by simp
  from components_created [OF s0(1) new(1) this new(2)] obtain i type f where
    "cfg_asString cfg (i @ ''/@name'') = Inr n" "cfg_asString cfg (i @ ''/@type'') = Inr type"
    "findComponentFactory L type = Some f" "f i = Inr c" by auto
  then show ?thesis using loader_init_find [OF assms(1)] by metis
qed

text \<open>
  C29. Every component that the container has after its start was made by the factory that the first module offering
  its type has for it, at its place in the configuration.
\<close>

theorem components_from_modules:
  assumes "loader_init dlopen entry cfg loader_new = Inr L"
    and "component_set_init cfg (findComponentFactory L) onLoad component_set_new = Inr cs"
    and "component_of cs n = Some c"
  shows "\<exists>v i type f. cfg_subKeys cfg ''/fastcgi/modules/module'' = Inr v \<and>
    cfg_asString cfg (i @ ''/@name'') = Inr n \<and> cfg_asString cfg (i @ ''/@type'') = Inr type \<and>
    map_of (concat (map (offers dlopen entry) (modules_of cfg v))) type = Some f \<and> f i = Inr c"
  using assms by (rule component_made_by_module)

definition demo_module_doc :: xml_doc where
  "demo_module_doc key =
     Inr (if key = ''/fastcgi/modules/module'' then [Some []]
          else if key = ''/fastcgi/modules/module[1]/@name'' then [Some ''m'']
          else if key = ''/fastcgi/modules/module[1]/@path'' then [Some ''m.so'']
          else if key = ''/fastcgi/components/component'' then [Some []]
          else if key = ''/fastcgi/components/component[1]/@name'' then [Some ''log'']
          else if key = ''/fastcgi/components/component[1]/@type'' then [Some ''m:logger''] else [])"

definition demo_module_cfg :: xml_config where
  "demo_module_cfg = \<lparr>xc_doc = demo_module_doc, xc_vars = []\<rparr>"

definition demo_dlopen :: "string \<Rightarrow> string + nat" where
  "demo_dlopen path = (if path = ''m.so'' then Inr 1 else Inl ''no such file'')"

definition demo_entry :: "nat \<Rightarrow> string + (string \<times> (string \<Rightarrow> nat result)) list option" where
  "demo_entry h = Inr (Some [(''logger'', \<lambda>i. Inr 7)])"

lemma demo_module_values:
  "cfg_subKeys demo_module_cfg ''/fastcgi/modules/module'' = Inr [''/fastcgi/modules/module[1]'']"
  "cfg_asString demo_module_cfg ''/fastcgi/modules/module[1]/@name'' = Inr ''m''"
  "cfg_asString demo_module_cfg ''/fastcgi/modules/module[1]/@path'' = Inr ''m.so''"
  "cfg_subKeys demo_module_cfg ''/fastcgi/components/component'' = Inr [''/fastcgi/components/component[1]'']"
  "cfg_asString demo_module_cfg ''/fastcgi/components/component[1]/@name'' = Inr ''log''"
  "cfg_asString demo_module_cfg ''/fastcgi/components/component[1]/@type'' = Inr ''m:logger''"
  by (simp_all add: cfg_subKeys_def cfg_asString_def demo_module_cfg_def demo_module_doc_def resolve_plain show_nat.simps char_of_def bit_0)

definition demo_loader :: "(nat, string \<Rightarrow> nat result) loader" where
  "demo_loader = \<lparr>ld_handles = [1], ld_factories = [(''m:logger'', \<lambda>i. Inr 7)], ld_open = [1]\<rparr>"

lemma demo_loader_init: "loader_init demo_dlopen demo_entry demo_module_cfg loader_new = Inr demo_loader"
  by (simp add: loader_init_def demo_module_values loader_load_def demo_dlopen_def demo_entry_def loader_new_def demo_loader_def c_str_def)

lemma demo_components:
  "\<exists>cs. component_set_init demo_module_cfg (findComponentFactory demo_loader) (\<lambda>_. LoadDone) component_set_new = Inr cs \<and>
     component_of cs ''log'' = Some 7"
  by (simp add: component_set_init_def demo_module_values cs_add_def findComponentFactory_def demo_loader_def component_set_new_def
    string_order.irrefl sendOnLoadToComponents_def sendOnLoad_def sendOnLoad_with_def isComponentLoaded_def component_of_def)

theorem components_from_modules_witness:
  "\<exists>v i type f. cfg_subKeys demo_module_cfg ''/fastcgi/modules/module'' = Inr v \<and>
    cfg_asString demo_module_cfg (i @ ''/@name'') = Inr ''log'' \<and> cfg_asString demo_module_cfg (i @ ''/@type'') = Inr type \<and>
    map_of (concat (map (offers demo_dlopen demo_entry) (modules_of demo_module_cfg v))) type = Some f \<and> f i = Inr 7"
proof -
  obtain cs where "component_set_init demo_module_cfg (findComponentFactory demo_loader) (\<lambda>_. LoadDone) component_set_new = Inr cs"
    "component_of cs ''log'' = Some 7" using demo_components by blast
  then show ?thesis by (rule components_from_modules [OF demo_loader_init])
qed

end
