(* ===== verification/RequestAttach.thy ===== *)
theory RequestAttach
  imports RequestCodec
begin

text \<open>
  \<^verbatim>\<open>Request::attach\<close> (\<^verbatim>\<open>library/request.cpp\<close>): a request is read from the CGI environment and the input
  stream. A large body goes into a buffer of the request cache, behind the serialized environment,
  so that the buffer ends up holding the binary form of the whole request.
\<close>

text \<open>
  The cache is an argument: the minimal size of a body it stores, and the buffer its \<^verbatim>\<open>create\<close> returns.
  The size argument of \<^verbatim>\<open>RequestIOStream::read\<close> is an \<^verbatim>\<open>int\<close>; a stream delivers what it has, up to that size.
\<close>

definition stream_read :: "u64 \<Rightarrow> ('s, 'u) request \<Rightarrow> string \<times> ('s, 'u) request" where
  "stream_read sz r =
     (case rq_stream r of
        None \<Rightarrow> ([], r)
      | Some s \<Rightarrow>
          let n = nat (sint (ucast sz :: u32))
          in (take n (io_in s), r\<lparr>rq_stream := Some (s\<lparr>io_in := drop n (io_in s)\<rparr>)\<rparr>))"

text \<open>The loop over the segments of the body, each of which is filled from the stream.\<close>

fun read_segments :: "string list \<Rightarrow> data_buffer \<Rightarrow> u64 \<Rightarrow> u64 \<Rightarrow> ('s, 'u) request \<Rightarrow>
    (cpp_error \<times> ('s, 'u) request) + (u64 \<times> data_buffer \<times> ('s, 'u) request)" where
  "read_segments [] body pos rsz r = Inr (rsz, body, r)"
| "read_segments (c # cs) body pos rsz r =
     (let (d, r) = stream_read (of_nat (length c)) r
      in rbind (at_state r (db_write body pos d)) (\<lambda>(_, body).
           read_segments cs body (pos + of_nat (length c)) (rsz + of_nat (length d)) r))"

text \<open>Creating the body: the cache buffer (or a nil buffer) and the view that becomes the body.\<close>

definition create_body :: "(u32 \<times> data_buffer result) option \<Rightarrow> u64 \<Rightarrow> ('s, 'u) request \<Rightarrow> (data_buffer \<times> data_buffer) result" where
  "create_body cache sz r =
     (case cache of
        Some (min_post_size, create) \<Rightarrow>
          if sz \<ge> ucast min_post_size then
            rbind create (\<lambda>post_buffer.
            rbind (serializeEnv r post_buffer (sz + 8)) (\<lambda>(shift, post_buffer).
            rbind (serializeInt post_buffer shift sz) (\<lambda>(shift, post_buffer).
            rbind (db_part post_buffer (db_begin post_buffer + shift) (db_end post_buffer)) (\<lambda>body.
              Inr (post_buffer, body)))))
          else rbind (db_resize (db_create []) sz) (\<lambda>body. Inr (db_new, body))
      | None \<Rightarrow> rbind (db_resize (db_create []) sz) (\<lambda>body. Inr (db_new, body)))"

text \<open>
  The buffer of the cache, the body and the files refer to one implementation object: a write
  through one of them is seen by all.
\<close>

definition with_impl :: "buffer_impl option \<Rightarrow> data_buffer \<Rightarrow> data_buffer" where
  "with_impl im d = d\<lparr>db_data := im\<rparr>"

definition share_impl :: "buffer_impl option \<Rightarrow> ('s, 'u) request \<Rightarrow> ('s, 'u) request" where
  "share_impl im r = r\<lparr>rq_body := with_impl im (rq_body r),
     rq_files := map (apsnd (\<lambda>f. f\<lparr>file_data := with_impl im (file_data f)\<rparr>)) (rq_files r)\<rparr>"

definition attach_body :: "(u32 \<times> data_buffer result) option \<Rightarrow> ('s, 'u) request \<Rightarrow>
    (cpp_error \<times> ('s, 'u) request) + (data_buffer \<times> ('s, 'u) request)" where
  "attach_body cache r =
     rbind (at_state r (getContentLength r)) (\<lambda>len.
       let sz = word_of_int len
       in rbind (at_state r (create_body cache sz r)) (\<lambda>(post_buffer, body).
          rbind (at_state (r\<lparr>rq_body := body\<rparr>) (db_chunks body)) (\<lambda>cs.
          rbind (read_segments cs body 0 0 (r\<lparr>rq_body := body\<rparr>)) (\<lambda>(rsz, body, r).
            if rsz \<noteq> sz then Inl (RuntimeError ''failed to read request entity'', r\<lparr>rq_body := body\<rparr>)
            else Inr (if db_isNil post_buffer then post_buffer else with_impl (db_data body) post_buffer,
                      r\<lparr>rq_body := body\<rparr>)))))"

definition attach_args :: "('s, 'u) request \<Rightarrow> ('s, 'u) outcome" where
  "attach_args r =
     (let query = getQueryString r;
          r = (if query \<noteq> [] then r\<lparr>rq_args := parse_args_string query (rq_args r)\<rparr> else r);
          type = getContentType r
      in if strncasecmp_eq ''multipart/form-data'' (c_str type) then
           rbind (at_state r (getBoundary (rg_fromString type))) (\<lambda>boundary.
             if boundary \<noteq> [] then parseMultipart r (rq_body r) boundary else Inr r)
         else if \<not> strncasecmp_eq ''text/plain'' (c_str type) \<and>
                 \<not> strncasecmp_eq ''application/octet-stream'' (c_str type) \<and> \<not> disablePostParams r then
           rbind (at_state r (db_parse_args (rq_body r) (rq_args r))) (\<lambda>args. Inr (r\<lparr>rq_args := args\<rparr>))
         else Inr r)"

definition attach_store :: "data_buffer \<Rightarrow> ('s, 'u) request \<Rightarrow> (cpp_error \<times> ('s, 'u) request) + (data_buffer \<times> ('s, 'u) request)" where
  "attach_store post_buffer r =
     (if db_isNil post_buffer then Inr (post_buffer, r)
      else let pos = db_size post_buffer
           in at_state r
             (rbind (db_resize post_buffer (pos + 2 * 8 + filesSerializedSize r + argsSerializedSize r)) (\<lambda>post_buffer.
              rbind (serializeFiles r post_buffer pos) (\<lambda>(pos, post_buffer).
              rbind (serializeArgs r post_buffer pos) (\<lambda>(pos, post_buffer).
                Inr (post_buffer, share_impl (db_data post_buffer) r))))))"

definition attach :: "(u32 \<times> data_buffer result) option \<Rightarrow> io_stream option \<Rightarrow> string list option \<Rightarrow> ('s, 'u) request \<Rightarrow>
    (cpp_error \<times> ('s, 'u) request) + (data_buffer \<times> ('s, 'u) request)" where
  "attach cache stream env r =
     (case stream of
        None \<Rightarrow> Inl (RuntimeError ''Stream is nullptr'', r)
      | Some s \<Rightarrow>
          (case env of
             None \<Rightarrow> Inl (RuntimeError ''ENV is nullptr'', r)
           | Some env \<Rightarrow>
               let r = parse_env (r\<lparr>rq_stream := Some s\<rparr>) env
               in if getRequestMethod r \<noteq> ''POST'' \<and> getRequestMethod r \<noteq> ''PUT'' then
                    Inr (db_new, r\<lparr>rq_args := parse_args_string (getQueryString r) (rq_args r)\<rparr>)
                  else
                    rbind (attach_body cache r) (\<lambda>(post_buffer, r).
                    rbind (attach_args r) (\<lambda>r. attach_store post_buffer r))))"

section \<open>Writing through a view\<close>

text \<open>One buffer is a view into another: the same implementation object and a smaller range.\<close>

definition view_of :: "data_buffer \<Rightarrow> data_buffer \<Rightarrow> bool" where
  "view_of d w \<longleftrightarrow> db_ok w \<and> db_data w \<noteq> None \<and> db_data d = db_data w \<and> db_begin w \<le> db_begin d \<and>
     db_begin d \<le> db_end d \<and> db_end d \<le> db_end w"

lemma view_ok: "view_of d w \<Longrightarrow> db_ok d"
  by (auto simp: view_of_def db_ok_def word_le_nat_alt)

lemma view_refl: "db_ok d \<Longrightarrow> db_data d \<noteq> None \<Longrightarrow> view_of d d"
  by (auto simp: view_of_def db_ok_def)

abbreviation view_offset :: "data_buffer \<Rightarrow> data_buffer \<Rightarrow> nat" where
  "view_offset d w \<equiv> unat (db_begin d) - unat (db_begin w)"

lemma view_text: "view_of d w \<Longrightarrow> db_text d = slice (view_offset d w) (unat (db_end d) - unat (db_begin d)) (db_text w)"
  using part_text [of w d] by (simp add: view_of_def)

lemma view_length:
  assumes "view_of d w"
  shows "length (db_text d) = unat (db_end d) - unat (db_begin d)"
    "view_offset d w + length (db_text d) \<le> length (db_text w)" "length (db_text w) = unat (db_end w) - unat (db_begin w)"
proof -
  have v: "unat (db_begin w) \<le> unat (db_begin d)" "unat (db_begin d) \<le> unat (db_end d)" "unat (db_end d) \<le> unat (db_end w)" "db_ok w"
    using assms by (simp_all add: view_of_def word_le_nat_alt)
  show w: "length (db_text w) = unat (db_end w) - unat (db_begin w)"
    using v by (simp add: length_db_text db_size_def unat_sub_u64)
  show d: "length (db_text d) = unat (db_end d) - unat (db_begin d)"
    using v by (simp add: length_db_text [OF view_ok [OF assms]] db_size_def unat_sub_u64)
  show "view_offset d w + length (db_text d) \<le> length (db_text w)" using v by (simp add: w d)
qed

text \<open>A write through a view changes the view and nothing of the wide buffer outside it.\<close>

lemma view_write:
  assumes "view_of d w" "unat pos + length data \<le> length (db_text d)"
  obtains d' where "db_write d pos data = Inr (of_nat (length data), d')" "view_of d' (with_impl (db_data d') w)"
    "db_begin d' = db_begin d" "db_end d' = db_end d" "db_text d' = overwrite (unat pos) data (db_text d)"
    "take (view_offset d w) (db_text (with_impl (db_data d') w)) = take (view_offset d w) (db_text w)"
    "db_in_memory d \<longrightarrow> db_in_memory d'"
proof -
  obtain im where im: "db_data d = Some im" "db_data w = Some im" "impl_ok im"
    using assms(1) by (auto simp: view_of_def db_ok_def)
  have v: "unat (db_begin w) \<le> unat (db_begin d)" "unat (db_begin d) \<le> unat (db_end d)" "unat (db_end d) \<le> unat (db_end w)"
    "unat (db_end w) \<le> length (impl_bytes im)"
    using assms(1) im(2) by (auto simp: view_of_def db_ok_def word_le_nat_alt)
  obtain im' where im': "db_write d pos data = Inr (of_nat (length data), d\<lparr>db_data := Some im'\<rparr>)" "impl_ok im'"
    "impl_bytes im' = overwrite (unat (db_begin d) + unat pos) data (impl_bytes im)"
    "(\<exists>s. im = StringImpl s) \<longrightarrow> (\<exists>s. im' = StringImpl s)"
    by (rule db_write_impl [OF view_ok [OF assms(1)] im(1) assms(2)])
  have fit: "unat (db_begin d) + unat pos + length data \<le> unat (db_end d)"
    using assms(2) v(2) view_length(1) [OF assms(1)] by simp
  have lim: "length (impl_bytes im') = length (impl_bytes im)" unfolding im'(3) using fit v by simp
  have t: "db_text (d\<lparr>db_data := Some im'\<rparr>) = overwrite (unat pos) data (db_text d)"
    using fit v by (simp add: db_text_def im(1) im'(3) slice_overwrite_inside)
  have p: "take (view_offset d w) (db_text (with_impl (Some im') w)) = take (view_offset d w) (db_text w)"
    using fit v by (simp add: db_text_def with_impl_def im(2) im'(3) slice_def overwrite_def take_drop min_def)
  show ?thesis
  proof (rule that [OF im'(1) _ _ _ t])
    show "view_of (d\<lparr>db_data := Some im'\<rparr>) (with_impl (db_data (d\<lparr>db_data := Some im'\<rparr>)) w)"
      using assms(1) v im'(2) lim by (simp add: view_of_def with_impl_def db_ok_def word_le_nat_alt)
    show "db_in_memory d \<longrightarrow> db_in_memory (d\<lparr>db_data := Some im'\<rparr>)"
      using im'(4) im(1) by (cases im) (auto simp: db_in_memory_def)
  qed (use p in simp_all)
qed

lemma with_impl_idem [simp]: "with_impl a (with_impl b d) = with_impl a d" "with_impl (db_data d) d = d"
  "db_data (with_impl a d) = a" "db_begin (with_impl a d) = db_begin d" "db_end (with_impl a d) = db_end d"
  by (simp_all add: with_impl_def)

section \<open>Reading the body\<close>

lemma stream_read_ok:
  assumes "rq_stream r = Some s" "io_in s = d @ rest" "length d < 2 ^ 31"
  shows "stream_read (of_nat (length d)) r = (d, r\<lparr>rq_stream := Some (s\<lparr>io_in := rest\<rparr>)\<rparr>)"
proof -
  have "sint (ucast (of_nat (length d) :: u64) :: u32) = int (length d)"
    using assms(3) by (simp add: sint_uint unsigned_of_nat take_bit_nat_eq_self signed_take_bit_int_eq_self_iff
      signed_take_bit_int_eq_self unsigned_ucast_eq)
  then show ?thesis using assms(1,2) by (simp add: stream_read_def)
qed

lemma read_segments_ok:
  assumes "view_of body w" "unat pos + length (concat cs) \<le> length (db_text body)" "length (concat cs) < 2 ^ 31"
    and "rq_stream r = Some s" "io_in s = data @ rest" "length data = length (concat cs)"
  shows "\<exists>body'. read_segments cs body pos rsz r =
      Inr (rsz + of_nat (length data), body', r\<lparr>rq_stream := Some (s\<lparr>io_in := rest\<rparr>)\<rparr>) \<and>
    view_of body' (with_impl (db_data body') w) \<and> db_begin body' = db_begin body \<and> db_end body' = db_end body \<and>
    db_text body' = overwrite (unat pos) data (db_text body) \<and>
    take (view_offset body w) (db_text (with_impl (db_data body') w)) = take (view_offset body w) (db_text w) \<and>
    (db_in_memory body \<longrightarrow> db_in_memory body')"
  using assms
proof (induction cs arbitrary: body pos rsz r s data w)
  case Nil
  have "with_impl (db_data body) w = w" using Nil.prems(1) by (simp add: view_of_def)
  then show ?case using Nil by (intro exI [of _ body]) simp
next
  case (Cons c cs)
  define d where "d = take (length c) data"
  define data' where "data' = drop (length c) data"
  have d: "data = d @ data'" "length d = length c" "length data' = length (concat cs)"
    using Cons.prems(6) by (simp_all add: d_def data'_def)
  have sr: "stream_read (of_nat (length c)) r = (d, r\<lparr>rq_stream := Some (s\<lparr>io_in := data' @ rest\<rparr>)\<rparr>)"
    using stream_read_ok [OF Cons.prems(4), of d "data' @ rest"] Cons.prems(3,5) d by simp
  have "unat pos + length d \<le> length (db_text body)" using Cons.prems(2) d by simp
  then obtain b where b: "db_write body pos d = Inr (of_nat (length d), b)" "view_of b (with_impl (db_data b) w)"
    "db_begin b = db_begin body" "db_end b = db_end body" "db_text b = overwrite (unat pos) d (db_text body)"
    "take (view_offset body w) (db_text (with_impl (db_data b) w)) = take (view_offset body w) (db_text w)"
    "db_in_memory body \<longrightarrow> db_in_memory b"
    by (rule view_write [OF Cons.prems(1)])
  have lb: "length (db_text b) = length (db_text body)" using b(5) Cons.prems(2) d(2) by simp
  have up: "unat (pos + of_nat (length c)) = unat pos + length c"
    using Cons.prems(2) db_text_bound [OF view_ok [OF Cons.prems(1)]] by (subst unat_add_u64) simp_all
  let ?r = "r\<lparr>rq_stream := Some (s\<lparr>io_in := data' @ rest\<rparr>)\<rparr>"
  have "unat (pos + of_nat (length c)) + length (concat cs) \<le> length (db_text b)"
    using up lb Cons.prems(2) by simp
  from Cons.IH [OF b(2) this, of ?r "s\<lparr>io_in := data' @ rest\<rparr>" data' "rsz + of_nat (length d)"] Cons.prems(3) d(3)
  obtain b' where b': "read_segments cs b (pos + of_nat (length c)) (rsz + of_nat (length d)) ?r =
      Inr (rsz + of_nat (length d) + of_nat (length data'), b', r\<lparr>rq_stream := Some (s\<lparr>io_in := rest\<rparr>)\<rparr>)"
    "view_of b' (with_impl (db_data b') w)" "db_begin b' = db_begin b" "db_end b' = db_end b"
    "db_text b' = overwrite (unat pos + length c) data' (db_text b)"
    "take (view_offset b w) (db_text (with_impl (db_data b') w)) = take (view_offset b w) (db_text (with_impl (db_data b) w))"
    "db_in_memory b \<longrightarrow> db_in_memory b'"
    by (auto simp: up)
  have "db_text b' = overwrite (unat pos) data (db_text body)"
    using Cons.prems(2) d overwrite_append [of "unat pos" d data' "db_text body"] by (simp add: b'(5) b(5) d(1))
  then show ?case using b b' sr d by (intro exI [of _ b']) simp
qed

lemma stoi_bound: "stoi s = Inr n \<Longrightarrow> n < 2 ^ 31"
  by (auto simp: stoi_def Let_def split: list.splits if_splits prod.splits)

lemma getContentLength_bound: "getContentLength r = Inr n \<Longrightarrow> n < 2 ^ 31"
  by (auto simp: getContentLength_def Let_def split: if_splits sum.splits cpp_error.splits dest: stoi_bound)

lemma word_of_length: "word_of_int (int n) = (of_nat n :: u64)"
  by simp

text \<open>The body as the request has it after reading.\<close>

definition body_is :: "data_buffer \<Rightarrow> string \<Rightarrow> bool" where
  "body_is d data \<longleftrightarrow> db_ok d \<and> db_data d \<noteq> None \<and> db_text d = data"

lemma overwrite_all: "length data = length xs \<Longrightarrow> overwrite 0 data xs = data"
  by (simp add: overwrite_def)

lemma create_body_memory:
  assumes "case cache of None \<Rightarrow> True | Some (m, _) \<Rightarrow> sz < ucast m" "unat sz < 2 ^ 62"
  obtains body where "create_body cache sz r = Inr (db_new, body)" "db_ok body" "db_data body \<noteq> None"
    "length (db_text body) = unat sz" "db_in_memory body"
proof -
  have m: "db_ok (db_create [])" "db_in_memory (db_create [])" using mem_create [of "[]"] by simp_all
  have c: "db_data (db_create []) \<noteq> None" "db_begin (db_create []) = 0"
    by (simp_all add: db_create_def db_create_impl_def db_new_def)
  obtain d where d: "db_resize (db_create []) sz = Inr d" "db_ok d" "db_data d \<noteq> None" "length (db_text d) = unat sz"
    "db_in_memory (db_create []) \<longrightarrow> db_in_memory d"
    by (rule db_resize_text [OF m(1) c(1), of sz]) (use assms(2) c(2) in simp_all)
  show ?thesis
    by (rule that [of d]) (use assms(1) d m in \<open>auto simp: create_body_def split: option.splits\<close>)
qed

lemma attach_body_memory:
  assumes "case cache of None \<Rightarrow> True | Some (m, _) \<Rightarrow> (of_nat (length data) :: u64) < ucast m"
    and "getContentLength r = Inr (int (length data))" "rq_stream r = Some s" "io_in s = data @ rest"
  obtains body where "attach_body cache r = Inr (db_new, r\<lparr>rq_stream := Some (s\<lparr>io_in := rest\<rparr>), rq_body := body\<rparr>)"
    "body_is body data" "db_in_memory body"
proof -
  have n: "length data < 2 ^ 31" using getContentLength_bound [OF assms(2)] by simp
  then have u: "unat (of_nat (length data) :: u64) = length data" by (intro unat_of_nat_u64) simp
  obtain b where b: "create_body cache (of_nat (length data)) r = Inr (db_new, b)" "db_ok b" "db_data b \<noteq> None"
    "length (db_text b) = length data" "db_in_memory b"
    by (rule create_body_memory [OF assms(1), of r]) (use n u in simp_all)
  obtain cs where cs: "db_chunks b = Inr cs" "concat cs = db_text b" using db_chunks_text [OF b(2)] by blast
  have st: "rq_stream (r\<lparr>rq_body := b\<rparr>) = Some s" using assms(3) by simp
  have h: "unat (0 :: u64) + length (concat cs) \<le> length (db_text b)" "length (concat cs) < 2 ^ 31"
    "length data = length (concat cs)" using n b(4) cs(2) by simp_all
  obtain b' where b': "read_segments cs b 0 0 (r\<lparr>rq_body := b\<rparr>) =
      Inr (0 + of_nat (length data), b', r\<lparr>rq_body := b, rq_stream := Some (s\<lparr>io_in := rest\<rparr>)\<rparr>)"
    "view_of b' (with_impl (db_data b') b)" "db_text b' = overwrite (unat (0 :: u64)) data (db_text b)"
    "db_in_memory b \<longrightarrow> db_in_memory b'"
    using read_segments_ok [OF view_refl [OF b(2,3)] h(1,2) st assms(4) h(3), of 0] by (elim exE conjE) (rule that)
  have "attach_body cache r = Inr (db_new, r\<lparr>rq_stream := Some (s\<lparr>io_in := rest\<rparr>), rq_body := b'\<rparr>)"
    by (simp add: attach_body_def assms(2) b(1) cs(1) b'(1) db_isNil_def db_new_def)
  moreover have "body_is b' data" using b'(2,3) b(4) view_ok [OF b'(2)]
    by (auto simp: body_is_def overwrite_all view_of_def)
  ultimately show ?thesis using b'(4) b(5) that by blast
qed

text \<open>With a cache, the buffer of the cache holds the environment and the body.\<close>

lemma create_body_cache:
  assumes "(of_nat n :: u64) \<ge> ucast m" "db_ok buf" "db_data buf \<noteq> None"
    and "unat (db_begin buf) + length (env_code r) + 8 + n < 2 ^ 62"
  obtains post body where "create_body (Some (m, Inr buf)) (of_nat n) r = Inr (post, body)" "view_of body post"
    "db_end body = db_end post" "view_offset body post = length (env_code r) + 8" "length (db_text body) = n"
    "take (length (env_code r) + 8) (db_text post) = env_code r @ le_bytes (of_nat n)" "db_begin post = db_begin buf"
proof -
  obtain pos b where b: "serializeEnv r buf (of_nat (n + 8)) = Inr (pos, b)"
    "filled b pos (env_code r) (length (env_code r) + (n + 8))" "db_begin b = db_begin buf"
    by (rule serializeEnv_filled [OF assms(2,3), of r "n + 8"]) (use assms(4) in simp)
  obtain shift post where p: "serializeInt b pos (of_nat n) = Inr (shift, post)"
    "filled post shift (env_code r @ le_bytes (of_nat n)) (length (env_code r) + (n + 8))" "db_begin post = db_begin b"
    by (rule appendsD [OF appends_Int b(2)]) simp
  have f: "db_ok post" "length (db_text post) = length (env_code r) + (n + 8)" "unat shift = length (env_code r) + 8"
    "take (length (env_code r) + 8) (db_text post) = env_code r @ le_bytes (of_nat n)"
    using p(2) by (simp_all add: filled_def)
  obtain im where im: "db_data post = Some im" "impl_ok im" "db_begin post \<le> db_end post"
    "unat (db_end post) \<le> length (impl_bytes im)"
    using f(1,2) by (auto simp: db_ok_def db_text_def split: option.splits)
  have len: "unat (db_end post) = unat (db_begin post) + length (env_code r) + (n + 8)"
    using f(2) im(3) by (simp add: length_db_text [OF f(1)] db_size_def unat_sub_u64 word_le_nat_alt)
  have "length (impl_bytes im) < 2 ^ 63" by (rule im.bytes_length [OF im(2)])
  then have u: "unat (db_begin post + shift) = unat (db_begin post) + length (env_code r) + 8"
    using len im(4) f(3) by (subst unat_add_u64) simp_all
  let ?body = "\<lparr>db_data = Some im, db_begin = db_begin post + shift, db_end = db_end post\<rparr>"
  have "\<not> db_end post > impl_size im" using im(4) im.size_law [OF im(2)] by (simp add: word_less_nat_alt)
  then have part: "db_part post (db_begin post + shift) (db_end post) = Inr ?body"
    by (simp add: db_part_def db_impl_def im(1))
  have v: "view_of ?body post" using f(1) im u len by (simp add: view_of_def word_le_nat_alt)
  have "create_body (Some (m, Inr buf)) (of_nat n) r = Inr (post, ?body)"
    using assms(1) b(1) p(1) part by (simp add: create_body_def add.commute)
  then show ?thesis
    by (rule that [OF _ v]) (use u len f(4) view_length(1) [OF v] b(3) p(3) in simp_all)
qed

lemma attach_body_cache:
  assumes "(of_nat (length data) :: u64) \<ge> ucast m" "db_ok buf" "db_data buf \<noteq> None"
    and "unat (db_begin buf) + length (env_code r) + 8 + length data < 2 ^ 62"
    and "getContentLength r = Inr (int (length data))" "rq_stream r = Some s" "io_in s = data @ rest"
  obtains post body where "attach_body (Some (m, Inr buf)) r =
      Inr (post, r\<lparr>rq_stream := Some (s\<lparr>io_in := rest\<rparr>), rq_body := body\<rparr>)"
    "view_of body post" "body_is body data" "db_text post = env_code r @ section_code data" "db_begin post = db_begin buf"
proof -
  have n: "length data < 2 ^ 31" using getContentLength_bound [OF assms(5)] by simp
  obtain post b where b: "create_body (Some (m, Inr buf)) (of_nat (length data)) r = Inr (post, b)" "view_of b post"
    "db_end b = db_end post" "view_offset b post = length (env_code r) + 8" "length (db_text b) = length data"
    "take (length (env_code r) + 8) (db_text post) = env_code r @ le_bytes (of_nat (length data))" "db_begin post = db_begin buf"
    by (rule create_body_cache [OF assms(1-4)])
  obtain cs where cs: "db_chunks b = Inr cs" "concat cs = db_text b" using db_chunks_text [OF view_ok [OF b(2)]] by blast
  have st: "rq_stream (r\<lparr>rq_body := b\<rparr>) = Some s" using assms(6) by simp
  have h: "unat (0 :: u64) + length (concat cs) \<le> length (db_text b)" "length (concat cs) < 2 ^ 31"
    "length data = length (concat cs)" using n b(5) cs(2) by simp_all
  obtain b' where b': "read_segments cs b 0 0 (r\<lparr>rq_body := b\<rparr>) =
      Inr (0 + of_nat (length data), b', r\<lparr>rq_body := b, rq_stream := Some (s\<lparr>io_in := rest\<rparr>)\<rparr>)"
    "view_of b' (with_impl (db_data b') post)" "db_begin b' = db_begin b" "db_end b' = db_end b"
    "db_text b' = overwrite (unat (0 :: u64)) data (db_text b)"
    "take (view_offset b post) (db_text (with_impl (db_data b') post)) = take (view_offset b post) (db_text post)"
    using read_segments_ok [OF b(2) h(1,2) st assms(7) h(3), of 0] by (elim exE conjE) (rule that)
  let ?w = "with_impl (db_data b') post"
  have tb: "db_text b' = data" using b'(5) b(5) by (simp add: overwrite_all)
  have nil: "\<not> db_isNil post" using b(2) by (auto simp: view_of_def db_isNil_def)
  have k: "view_offset b' ?w = length (env_code r) + 8" using b(4) b'(3) by simp
  have "drop (view_offset b' ?w) (db_text ?w) = data"
    using view_text [OF b'(2)] view_length [OF b'(2)] tb b(3) b'(4) by (simp add: slice_def)
  moreover have "take (view_offset b' ?w) (db_text ?w) = env_code r @ le_bytes (of_nat (length data))"
    using b'(6) b(4,6) unfolding k by simp
  ultimately have "db_text ?w = (env_code r @ le_bytes (of_nat (length data))) @ data"
    by (metis append_take_drop_id)
  moreover have "attach_body (Some (m, Inr buf)) r = Inr (?w, r\<lparr>rq_stream := Some (s\<lparr>io_in := rest\<rparr>), rq_body := b'\<rparr>)"
    by (simp add: attach_body_def assms(5) b(1) cs(1) b'(1) nil)
  ultimately show ?thesis
    using b'(2) tb view_ok [OF b'(2)] b(7)
    by (intro that [of ?w b']) (auto simp: section_code_def body_is_def view_of_def)
qed

section \<open>Reading the arguments\<close>

text \<open>The parsers of the body change the files and the arguments, nothing else.\<close>

definition same_frame :: "('s, 'u) request \<Rightarrow> ('s, 'u) request \<Rightarrow> bool" where
  "same_frame r r' \<longleftrightarrow> r' = r\<lparr>rq_files := rq_files r', rq_args := rq_args r'\<rparr>"

lemma same_frame_fields:
  assumes "same_frame r r'"
  shows "rq_headers r' = rq_headers r" "rq_cookies r' = rq_cookies r" "rq_vars r' = rq_vars r" "rq_body r' = rq_body r"
    "rq_stream r' = rq_stream r"
  using arg_cong [OF assms [unfolded same_frame_def], of rq_headers] arg_cong [OF assms [unfolded same_frame_def], of rq_cookies]
    arg_cong [OF assms [unfolded same_frame_def], of rq_vars] arg_cong [OF assms [unfolded same_frame_def], of rq_body]
    arg_cong [OF assms [unfolded same_frame_def], of rq_stream] by simp_all

lemma same_frame_refl: "same_frame r r"
  by (simp add: same_frame_def)

lemma same_frame_trans: "same_frame r r' \<Longrightarrow> same_frame r' r'' \<Longrightarrow> same_frame r r''"
  by (cases r, cases r', cases r'') (simp add: same_frame_def)

lemma same_frame_updates: "same_frame r (r\<lparr>rq_args := a\<rparr>)" "same_frame r (r\<lparr>rq_files := f\<rparr>)"
  by (simp_all add: same_frame_def)

lemma at_state_Inr: "at_state r m = Inr x \<longleftrightarrow> m = Inr x"
  by (cases m) simp_all

lemma parsePart_frame: "parsePart r part = Inr r' \<Longrightarrow> same_frame r r'"
  by (auto simp: parsePart_def rbind_def at_state_def same_frame_refl same_frame_updates
    split: sum.splits if_splits prod.splits)

lemma parseMultipart_loop_frame:
  assumes "parseMultipart_loop r data boundary = Some x"
  shows "\<forall>r'. x = Inr r' \<longrightarrow> same_frame r r'"
proof (rule parseMultipart_loop.raw_induct [where P = "\<lambda>r data boundary x. \<forall>r'. x = Inr r' \<longrightarrow> same_frame r r'", OF _ assms],
    intro allI impI)
  fix loop r data boundary x r'
  assume ih: "\<And>r data boundary x. loop r data boundary = Some x \<Longrightarrow> \<forall>r'. x = Inr r' \<longrightarrow> same_frame r r'"
    and x: "x = Inr r'"
    and body: "(if db_empty data then Some (Inr r)
      else case db_split data boundary of Inl e \<Rightarrow> Some (Inl (e, r))
           | Inr (found, head, tail) \<Rightarrow>
               case if found \<and> \<not> db_empty head then strip_part head else Inr head of
               Inl e \<Rightarrow> Some (Inl (e, r))
               | Inr head \<Rightarrow>
                   case if \<not> db_empty head then parsePart r head else Inr r of
                   Inl e \<Rightarrow> Some (Inl e)
                   | Inr req \<Rightarrow>
                       case db_startsWith tail ''--'' of
                       Inl e \<Rightarrow> Some (Inl (e, req))
                       | Inr finished \<Rightarrow> if finished then Some (Inr req) else loop req tail boundary) = Some x"
  have part: "(if \<not> db_empty h then parsePart r h else Inr r) = Inr r1 \<Longrightarrow> same_frame r r1" for h r1
    by (auto split: if_splits dest: parsePart_frame simp: same_frame_refl)
  have step: "same_frame r r'" if "same_frame r r1" "loop r1 tail boundary = Some x" for r1 tail
    using ih [OF that(2)] x that(1) by (blast intro: same_frame_trans)
  show "same_frame r r'"
    using body x by (auto split: if_split_asm sum.split_asm prod.split_asm
      intro: step part parsePart_frame same_frame_refl)
qed

lemma parseMultipart_frame: "parseMultipart r data boundary = Inr r' \<Longrightarrow> same_frame r r'"
  by (auto simp: parseMultipart_def split: option.splits dest: parseMultipart_loop_frame)

lemma attach_args_frame:
  assumes "attach_args r = Inr r'"
  shows "same_frame r r'"
proof -
  define r1 where "r1 = (if getQueryString r \<noteq> [] then r\<lparr>rq_args := parse_args_string (getQueryString r) (rq_args r)\<rparr> else r)"
  have "same_frame r1 r'"
    using assms unfolding attach_args_def Let_def r1_def [symmetric]
    by (auto simp: rbind_eq_Inr_conv at_state_Inr same_frame_refl same_frame_updates
      split: if_splits dest: parseMultipart_frame)
  moreover have "same_frame r r1" by (simp add: r1_def same_frame_refl same_frame_updates)
  ultimately show ?thesis by (rule same_frame_trans [rotated])
qed

section \<open>Completing the buffer of the cache\<close>

lemma share_impl_code:
  "env_code (share_impl im r) = env_code r" "rq_args (share_impl im r) = rq_args r"
  "rq_body (share_impl im r) = with_impl im (rq_body r)"
  "files_code b (rq_files (share_impl im r)) = files_code b (rq_files r)"
  by (simp_all add: share_impl_def env_code_def files_code_def file_code_def comp_def case_prod_unfold with_impl_def)

lemma attach_store_text:
  assumes "view_of (rq_body r) post" "db_text post = env_code r @ section_code (db_text (rq_body r))"
    and "unat (db_begin post) + length (request_code r) < 2 ^ 62"
  obtains post' where "attach_store post r = Inr (post', share_impl (db_data post') r)" "db_ok post'"
    "db_text post' = request_code r" "view_of (with_impl (db_data post') (rq_body r)) post'"
    "request_code (share_impl (db_data post') r) = request_code r"
proof -
  let ?t = "section_code (files_code (db_begin (rq_body r)) (rq_files r)) @ section_code (pairs_code (rq_args r))"
  have ok: "db_ok post" "db_data post \<noteq> None" using assms(1) by (auto simp: view_of_def)
  have code: "request_code r = db_text post @ ?t" by (simp add: request_code_env assms(2))
  let ?n = "db_size post + 2 * 8 + filesSerializedSize r + argsSerializedSize r"
  have "?n = of_nat (length (request_code r))"
    by (simp add: code length_db_text [OF ok(1)] filesSerializedSize_def argsSerializedSize_def pairs_size_code
      files_size_code [where b = "db_begin (rq_body r)"])
  moreover have "unat (of_nat (length (request_code r)) :: u64) = length (request_code r)"
    by (rule unat_of_nat_u64) (use assms(3) in simp)
  ultimately have n: "unat ?n = length (request_code r)" by (simp only:)
  obtain p where p: "db_resize post ?n = Inr p" "db_ok p" "db_data p \<noteq> None" "length (db_text p) = unat ?n"
    "db_begin p = db_begin post" "db_end p = db_begin post + ?n"
    "length (db_text post) \<le> unat ?n \<longrightarrow> take (length (db_text post)) (db_text p) = db_text post"
    by (rule db_resize_text [OF ok, of ?n]) (use n assms(3) in simp_all)
  have le: "length (db_text post) \<le> unat ?n" unfolding n by (simp add: code)
  have f: "filled p (db_size post) (db_text post) (length (request_code r))"
    unfolding filled_def using p(2,4,7) le n length_db_text [OF ok(1)] by (simp del: length_append)
  have a: "appends (\<lambda>buffer pos. rbind (serializeFiles r buffer pos) (\<lambda>(pos, buffer). serializeArgs r buffer pos)) ?t"
    by (intro appends_seq appends_Files appends_Args)
  obtain pos post' where w: "rbind (serializeFiles r p (db_size post)) (\<lambda>(pos, buffer). serializeArgs r buffer pos) = Inr (pos, post')"
    "filled post' pos (db_text post @ ?t) (length (request_code r))" "db_begin post' = db_begin p" "db_end post' = db_end p"
    by (rule appendsD [OF a f]) (simp add: code)
  have ok': "db_ok post'" and t': "db_text post' = request_code r"
    using w(2) unfolding code by (simp add: filled_def, intro filled_full)
  have ne: "db_data post' \<noteq> None" using t' by (auto simp: db_text_def code section_code_def split: option.splits)
  have st: "attach_store post r = Inr (post', share_impl (db_data post') r)"
    using p(1) w(1) ok(2) by (auto simp: attach_store_def db_isNil_def Let_def rbind_eq_Inr_conv at_state_Inr)
  have "unat (db_end post) \<le> unat (db_end post')"
  proof -
    have "unat (db_begin post + ?n) = unat (db_begin post) + length (request_code r)"
      using assms(3) n by (subst unat_add_u64) simp_all
    moreover have "unat (db_end post) = unat (db_begin post) + length (db_text post)"
      using view_length(3) [OF view_refl [OF ok]] ok by (auto simp: db_ok_def word_le_nat_alt)
    ultimately show ?thesis using w(4) p(6) le n by simp
  qed
  then have v: "view_of (with_impl (db_data post') (rq_body r)) post'"
    using assms(1) ok' ne w(3) p(5) by (auto simp: view_of_def word_le_nat_alt)
  have "db_text (with_impl (db_data post') (rq_body r)) = db_text (rq_body r)"
  proof -
    have "db_text (rq_body r) = slice (view_offset (rq_body r) post) (length (db_text (rq_body r))) (db_text post)"
      using view_text [OF assms(1)] view_length(1) [OF assms(1)] by simp
    also have "\<dots> = slice (view_offset (rq_body r) post) (length (db_text (rq_body r))) (db_text post')"
      unfolding t' code by (rule slice_left_append [symmetric]) (rule view_length(2) [OF assms(1)])
    finally show ?thesis using view_text [OF v] view_length(1) [OF assms(1)] w(3) p(5) by simp
  qed
  then have "request_code (share_impl (db_data post') r) = request_code r"
    by (simp add: request_code_env share_impl_code)
  from that [OF st ok' t' v this] show ?thesis .
qed

section \<open>What attach does\<close>

lemma parseCookies_loop_stream [simp]: "rq_stream (parseCookies_loop r tmp) = rq_stream r"
  by (induction r tmp rule: parseCookies_loop.induct)
    (subst parseCookies_loop.simps, simp add: addCookie_def Let_def split: prod.splits)

lemma parse_env_entry_stream [simp]: "rq_stream (parse_env_entry r e) = rq_stream r"
  by (simp add: parse_env_entry_def parseCookies_def addHeader_def Let_def split: prod.splits)

lemma parse_env_stream [simp]: "rq_stream (parse_env r env) = rq_stream r"
  unfolding parse_env_def by (induction env arbitrary: r) simp_all

lemma attach_post:
  assumes "r1 = parse_env (r\<lparr>rq_stream := Some s\<rparr>) env" "getRequestMethod r1 \<in> {''POST'', ''PUT''}"
  shows "attach cache (Some s) (Some env) r =
    rbind (attach_body cache r1) (\<lambda>(post_buffer, r). rbind (attach_args r) (\<lambda>r. attach_store post_buffer r))"
  using assms(2) unfolding attach_def option.case Let_def assms(1) [symmetric] by auto

lemma getters_frame [simp]:
  "getQueryString (r\<lparr>rq_stream := a, rq_body := b\<rparr>) = getQueryString r"
  "getContentType (r\<lparr>rq_stream := a, rq_body := b\<rparr>) = getContentType r"
  "disablePostParams (r\<lparr>rq_stream := a, rq_body := b\<rparr>) = disablePostParams r"
  "getContentType (r\<lparr>rq_args := c\<rparr>) = getContentType r"
  "disablePostParams (r\<lparr>rq_args := c\<rparr>) = disablePostParams r"
  by (simp_all add: getQueryString_def getContentType_def disablePostParams_def)

lemma parse_args_string_nil [simp]: "parse_args_string [] v = v"
  by (simp add: parse_args_string_def parse_args.simps rg_fromString_def rg_empty_def)

text \<open>A content type whose body is read as a form.\<close>

definition is_form :: "('s, 'u) request \<Rightarrow> bool" where
  "is_form r \<longleftrightarrow> \<not> strncasecmp_eq ''multipart/form-data'' (c_str (getContentType r)) \<and>
     \<not> strncasecmp_eq ''text/plain'' (c_str (getContentType r)) \<and>
     \<not> strncasecmp_eq ''application/octet-stream'' (c_str (getContentType r)) \<and> \<not> disablePostParams r"

lemma attach_args_form:
  assumes "is_form r" "db_parse_args (rq_body r) (parse_args_string (getQueryString r) (rq_args r)) = Inr v"
  shows "attach_args r = Inr (r\<lparr>rq_args := v\<rparr>)"
proof -
  let ?r = "r\<lparr>rq_args := parse_args_string (getQueryString r) (rq_args r)\<rparr>"
  have e: "(if getQueryString r \<noteq> [] then ?r else r) = ?r" by (cases "getQueryString r") simp_all
  have f: "\<not> strncasecmp_eq ''multipart/form-data'' (c_str (getContentType r))"
    "\<not> strncasecmp_eq ''text/plain'' (c_str (getContentType r)) \<and>
     \<not> strncasecmp_eq ''application/octet-stream'' (c_str (getContentType r)) \<and> \<not> disablePostParams r"
    using assms(1) unfolding is_form_def by blast+
  show ?thesis
    unfolding attach_args_def Let_def e getters_frame if_not_P [OF f(1)] if_P [OF f(2)]
    using assms(2) by simp
qed

text \<open>
  C25. A form sent with POST or PUT becomes arguments: when the stream delivers as many bytes as the
  content length announces, the request has these bytes as its body, the arguments of the query
  string followed by those of the body, and the rest of the stream is left unread. This is for a
  body that is kept in memory and a content type that is neither multipart nor plain data.
\<close>

theorem attach_form_post:
  assumes "r1 = parse_env (r\<lparr>rq_stream := Some s\<rparr>) env" "getRequestMethod r1 \<in> {''POST'', ''PUT''}"
    and "getContentLength r1 = Inr (int (length data))" "io_in s = data @ rest"
    and "case cache of None \<Rightarrow> True | Some (m, _) \<Rightarrow> (of_nat (length data) :: u64) < ucast m"
    and "is_form r1"
  shows "\<exists>body. attach cache (Some s) (Some env) r =
      Inr (db_new, r1\<lparr>rq_stream := Some (s\<lparr>io_in := rest\<rparr>), rq_body := body,
        rq_args := parse_args_string data (parse_args_string (getQueryString r1) (rq_args r1))\<rparr>) \<and>
    db_ok body \<and> db_text body = data"
proof -
  have st: "rq_stream r1 = Some s" by (simp add: assms(1))
  obtain body where b: "attach_body cache r1 = Inr (db_new, r1\<lparr>rq_stream := Some (s\<lparr>io_in := rest\<rparr>), rq_body := body\<rparr>)"
    "body_is body data" "db_in_memory body"
    by (rule attach_body_memory [OF assms(5,3) st assms(4)])
  have ok: "db_ok body" "db_text body = data" using b(2) by (simp_all add: body_is_def)
  have pa: "db_parse_args body v = Inr (parse_args_string data v)" for v
    using db_parse_args_loop_text [OF ok(1) b(3), of v] ok(2)
    by (simp add: db_parse_args_def parse_args_string_def parse_args_text)
  let ?r = "r1\<lparr>rq_stream := Some (s\<lparr>io_in := rest\<rparr>), rq_body := body\<rparr>"
  have "is_form ?r" using assms(6) unfolding is_form_def getters_frame .
  then have "attach_args ?r = Inr (?r\<lparr>rq_args := parse_args_string data (parse_args_string (getQueryString r1) (rq_args r1))\<rparr>)"
    by (rule attach_args_form) (simp add: pa)
  then have "attach cache (Some s) (Some env) r = Inr (db_new, ?r\<lparr>
        rq_args := parse_args_string data (parse_args_string (getQueryString r1) (rq_args r1))\<rparr>)"
    unfolding attach_post [OF assms(1,2)] b(1) rbind_Inr prod.case by (simp add: attach_store_def db_isNil_def db_new_def)
  with ok show ?thesis by blast
qed

lemma attach_store_shares:
  "attach_store post r = Inr (post', r') \<Longrightarrow> \<not> db_isNil post \<Longrightarrow> \<exists>im. r' = share_impl im r"
  by (auto simp: attach_store_def Let_def at_state_Inr rbind_eq_Inr_conv)

definition request_size :: "('s, 'u) request \<Rightarrow> nat \<Rightarrow> nat" where
  "request_size r n = length (env_code r) + 8 + n + 8 + length (files_code (db_begin (rq_body r)) (rq_files r)) + 8 +
     length (pairs_code (rq_args r))"

text \<open>
  A body that is stored in the cache makes the request restorable: after attaching, the buffer of
  the cache holds exactly the binary form of the request, environment, body, files and arguments,
  and the body of the request is the part of that buffer that holds the bytes from the stream.
\<close>

theorem attach_cached_restorable:
  assumes "r1 = parse_env (r\<lparr>rq_stream := Some s\<rparr>) env" "getRequestMethod r1 \<in> {''POST'', ''PUT''}"
    and "getContentLength r1 = Inr (int (length data))" "io_in s = data @ rest"
    and "(of_nat (length data) :: u64) \<ge> ucast m" "db_ok buf" "db_data buf \<noteq> None"
    and "attach (Some (m, Inr buf)) (Some s) (Some env) r = Inr (post, r')"
    and "unat (db_begin buf) + length (env_code r1) + 8 + length data < 2 ^ 62"
    and "unat (db_begin buf) + request_size r' (length data) < 2 ^ 62"
  shows "db_ok post \<and> db_text post = request_code r' \<and> view_of (rq_body r') post \<and> db_text (rq_body r') = data"
proof -
  have st: "rq_stream r1 = Some s" by (simp add: assms(1))
  let ?r2 = "\<lambda>body. r1\<lparr>rq_stream := Some (s\<lparr>io_in := rest\<rparr>), rq_body := body\<rparr>"
  obtain post1 body where b: "attach_body (Some (m, Inr buf)) r1 = Inr (post1, ?r2 body)"
    "view_of body post1" "body_is body data" "db_text post1 = env_code r1 @ section_code data" "db_begin post1 = db_begin buf"
    by (rule attach_body_cache [OF assms(5-7,9,3) st assms(4)])
  have t: "db_text body = data" using b(3) by (simp add: body_is_def)
  obtain r3 where r3: "attach_args (?r2 body) = Inr r3" "attach_store post1 r3 = Inr (post, r')"
    using assms(8) unfolding attach_post [OF assms(1,2)] b(1) by (auto simp: rbind_eq_Inr_conv)
  note f = same_frame_fields [OF attach_args_frame [OF r3(1)]]
  have body: "rq_body r3 = body" and env: "env_code r3 = env_code r1" using f by (simp_all add: env_code_def)
  have nil: "\<not> db_isNil post1" using b(2) by (auto simp: view_of_def db_isNil_def)
  obtain im where im: "r' = share_impl im r3" using attach_store_shares [OF r3(2) nil] by blast
  have "length (request_code r3) = request_size r' (length data)"
    by (simp add: im request_size_def request_code_env share_impl_code body t)
  then have bound: "unat (db_begin post1) + length (request_code r3) < 2 ^ 62" using assms(10) b(5) by simp
  obtain post' where p: "attach_store post1 r3 = Inr (post', share_impl (db_data post') r3)" "db_ok post'"
    "db_text post' = request_code r3" "view_of (with_impl (db_data post') (rq_body r3)) post'"
    "request_code (share_impl (db_data post') r3) = request_code r3"
    by (rule attach_store_text [OF _ _ bound]) (use b(2,4) body env t in simp_all)
  then have eq: "post = post'" "r' = share_impl (db_data post') r3" using r3(2) by simp_all
  have v: "view_of (rq_body r') post" using p(4) by (simp add: eq share_impl_code)
  have "db_text post = env_code r' @ section_code (db_text (rq_body r')) @
     section_code (files_code (db_begin (rq_body r')) (rq_files r')) @ section_code (pairs_code (rq_args r'))"
    using p(3,5) by (simp add: eq request_code_env)
  moreover have "db_text (rq_body r') = data"
    using p(5) by (simp add: eq request_code_env share_impl_code section_code_def body t)
  ultimately show ?thesis using p v by (simp add: eq)
qed

text \<open>Two requests for the witnesses: a form of three bytes, and the same with the reading of forms disabled.\<close>

abbreviation post_env :: "string list" where
  "post_env \<equiv> [''REQUEST_METHOD'' @ ''='' @ ''POST'', ''CONTENT_LENGTH'' @ ''='' @ ''3'']"

abbreviation post_stream :: io_stream where
  "post_stream \<equiv> \<lparr>io_in = ''a=bXY'', io_out = []\<rparr>"

abbreviation post_request :: "(string \<times> string) list \<Rightarrow> (unit, unit) request" where
  "post_request vars \<equiv> request_new\<lparr>rq_stream := Some post_stream, rq_vars := vars, rq_headers := [(''CONTENT-LENGTH'', ''3'')]\<rparr>"

lemma header_of_post:
  "header_of ''REQUEST_METHOD'' = None" "header_of ''CONTENT_LENGTH'' = Some ''CONTENT-LENGTH''"
  "header_of ''DISABLE_POST_PARAMS'' = None"
  by (simp_all add: header_of_def env_name_def)

lemma post_env_parsed:
  "parse_env (request_new\<lparr>rq_stream := Some post_stream\<rparr>) post_env = post_request [(''REQUEST_METHOD'', ''POST'')]"
proof -
  let ?q = "(request_new :: (unit, unit) request)\<lparr>rq_stream := Some post_stream\<rparr>"
  let ?q1 = "?q\<lparr>rq_vars := [(''REQUEST_METHOD'', ''POST'')]\<rparr>"
  have "parse_env_entry ?q (''REQUEST_METHOD'' @ ''='' @ ''POST'') = ?q1"
    by (subst parse_env_entry_eq) (simp_all add: header_of_post request_new_def reset_def)
  moreover have "parse_env_entry ?q1 (''CONTENT_LENGTH'' @ ''='' @ ''3'') = ?q1\<lparr>rq_headers := [(''CONTENT-LENGTH'', ''3'')]\<rparr>"
    by (subst parse_env_entry_eq) (simp_all add: header_of_post request_new_def reset_def trim_str_def isspace_def)
  ultimately show ?thesis by (simp only: parse_env_def foldl.simps)
qed

abbreviation raw_vars :: "(string \<times> string) list" where
  "raw_vars \<equiv> [(''DISABLE_POST_PARAMS'', ''yes''), (''REQUEST_METHOD'', ''POST'')]"

lemma raw_env_parsed:
  "parse_env (request_new\<lparr>rq_stream := Some post_stream\<rparr>) (post_env @ [''DISABLE_POST_PARAMS'' @ ''='' @ ''yes'']) =
     post_request raw_vars"
proof -
  let ?q = "post_request [(''REQUEST_METHOD'', ''POST'')]"
  have "parse_env_entry ?q (''DISABLE_POST_PARAMS'' @ ''='' @ ''yes'') = post_request raw_vars"
    by (subst parse_env_entry_eq) (simp_all add: header_of_post string_lt_def byte_lt_def)
  then show ?thesis using post_env_parsed by (simp add: parse_env_def)
qed

lemma map_get_single:
  "map_get StringCILess [(k, v)] q = (if eq_ci q k then v else [])"
  "map_get string_lt [(k, v)] q = (if q = k then v else [])"
  using ci_order.find_assign [of "[]" q k v] string_order.find_assign [of "[]" q k v]
  by (simp_all add: map_get_def)

lemma post_request_headers:
  "getContentLength (post_request vars) = Inr (int (length ''a=b''))" "getContentType (post_request vars) = []"
proof -
  have e: "eq_ci ''content-length'' ''CONTENT-LENGTH''" "\<not> eq_ci ''content-type'' ''CONTENT-LENGTH''"
    by (simp_all add: eq_ci_def tolower_def isupper_def flip: byte_eq_iff_char_of)
  have "stoi ''3'' = Inr 3" by (simp add: stoi_def isspace_def isdigit_def)
  then show "getContentLength (post_request vars) = Inr (int (length ''a=b''))" "getContentType (post_request vars) = []"
    by (simp_all add: getContentLength_def getContentType_def map_get_single e)
qed

lemma post_request_vars:
  "getRequestMethod (post_request [(''REQUEST_METHOD'', ''POST'')]) = ''POST''"
  "getQueryString (post_request [(''REQUEST_METHOD'', ''POST'')]) = []"
  "disablePostParams (post_request [(''REQUEST_METHOD'', ''POST'')]) = False"
  by (simp_all add: getRequestMethod_def getQueryString_def disablePostParams_def map_get_single)

lemma raw_request_vars:
  "getRequestMethod (post_request raw_vars) = ''POST''" "getQueryString (post_request raw_vars) = []"
  "disablePostParams (post_request raw_vars) = True"
  by (simp_all add: getRequestMethod_def getQueryString_def disablePostParams_def map_get_def string_lt_def byte_lt_def)

lemma no_type: "\<not> strncasecmp_eq (c # s) (c_str [])"
  by (simp add: strncasecmp_eq_def eq_ci_def c_str_def)

theorem attach_form_post_witness:
  "\<exists>body. attach None (Some post_stream) (Some post_env) (request_new :: (unit, unit) request) =
      Inr (db_new, (post_request [(''REQUEST_METHOD'', ''POST'')])
        \<lparr>rq_stream := Some (post_stream\<lparr>io_in := ''XY''\<rparr>), rq_body := body, rq_args := parse_args_string ''a=b'' []\<rparr>) \<and>
    db_ok body \<and> db_text body = ''a=b''"
proof -
  have f: "is_form (post_request [(''REQUEST_METHOD'', ''POST'')])"
    unfolding is_form_def post_request_headers post_request_vars by (simp only: no_type) simp
  show ?thesis
    using attach_form_post [OF post_env_parsed [symmetric], of "''a=b''" "''XY''" None]
    unfolding post_request_vars post_request_headers parse_args_string_nil
    by (simp add: f) (simp add: request_new_def reset_def)
qed

lemma attach_args_raw:
  assumes "getQueryString r = []" "\<not> strncasecmp_eq ''multipart/form-data'' (c_str (getContentType r))" "disablePostParams r"
  shows "attach_args r = Inr r"
proof -
  have e: "(if getQueryString r \<noteq> [] then r\<lparr>rq_args := parse_args_string (getQueryString r) (rq_args r)\<rparr> else r) = r"
    by (simp add: assms(1))
  have n: "\<not> (\<not> strncasecmp_eq ''text/plain'' (c_str (getContentType r)) \<and>
     \<not> strncasecmp_eq ''application/octet-stream'' (c_str (getContentType r)) \<and> \<not> disablePostParams r)"
    using assms(3) by blast
  show ?thesis unfolding attach_args_def Let_def e if_not_P [OF assms(2)] if_not_P [OF n] ..
qed

theorem attach_cached_restorable_witness:
  "\<exists>post r'. attach (Some (0, Inr (db_create []))) (Some post_stream)
      (Some (post_env @ [''DISABLE_POST_PARAMS'' @ ''='' @ ''yes''])) (request_new :: (unit, unit) request) = Inr (post, r') \<and>
    db_text post = request_code r' \<and> db_text (rq_body r') = ''a=b''"
proof -
  let ?r1 = "post_request raw_vars" and ?buf = "db_create []"
  have st: "rq_stream ?r1 = Some post_stream" "io_in post_stream = ''a=b'' @ ''XY''" by simp_all
  have buf: "db_ok ?buf" "db_data ?buf \<noteq> None" "db_begin ?buf = 0"
    using mem_create [of "[]"] by (simp_all add: db_create_def db_create_impl_def db_new_def)
  have min: "(of_nat (length ''a=b'') :: u64) \<ge> ucast (0 :: u32)" by simp
  have bound: "unat (db_begin ?buf) + length (env_code ?r1) + 8 + length ''a=b'' < 2 ^ 62"
    by (simp add: env_code_def buf(3) request_new_def reset_def)
  obtain post body where b: "attach_body (Some (0, Inr ?buf)) ?r1 =
      Inr (post, ?r1\<lparr>rq_stream := Some (post_stream\<lparr>io_in := ''XY''\<rparr>), rq_body := body\<rparr>)"
    "view_of body post" "body_is body ''a=b''" "db_text post = env_code ?r1 @ section_code ''a=b''" "db_begin post = db_begin ?buf"
    by (rule attach_body_cache [OF min buf(1,2) bound post_request_headers(1) st])
  let ?r2 = "?r1\<lparr>rq_stream := Some (post_stream\<lparr>io_in := ''XY''\<rparr>), rq_body := body\<rparr>"
  have f: "getQueryString ?r2 = []" "getContentType ?r2 = []" "disablePostParams ?r2"
    unfolding getters_frame raw_request_vars post_request_headers by simp_all
  have args: "attach_args ?r2 = Inr ?r2"
    by (rule attach_args_raw) (use f no_type in simp_all)
  have code: "request_size ?r2 (length ''a=b'') < 200"
    by (simp add: request_size_def env_code_def request_new_def reset_def)
  obtain post' where p: "attach_store post ?r2 = Inr (post', share_impl (db_data post') ?r2)"
    by (rule attach_store_text [of ?r2 post])
      (use b code in \<open>simp_all add: env_code_def body_is_def request_code_env request_size_def buf(3)\<close>)
  have is_post: "getRequestMethod ?r1 \<in> {''POST'', ''PUT''}" unfolding raw_request_vars by simp
  have at: "attach (Some (0, Inr ?buf)) (Some post_stream)
      (Some (post_env @ [''DISABLE_POST_PARAMS'' @ ''='' @ ''yes''])) request_new = Inr (post', share_impl (db_data post') ?r2)"
    unfolding attach_post [OF raw_env_parsed [symmetric] is_post] b(1) rbind_Inr prod.case args p ..
  have "unat (db_begin ?buf) + request_size (share_impl (db_data post') ?r2) (length ''a=b'') < 2 ^ 62"
    using code by (simp add: request_size_def share_impl_code buf(3))
  from attach_cached_restorable [OF raw_env_parsed [symmetric] is_post post_request_headers(1) st(2) min buf(1,2) at bound this]
  show ?thesis using at by blast
qed

end
