(* ===== verification/Statistics.thy ===== *)
theory Statistics
  imports Requests
begin

text \<open>
  Response time statistics (\<^verbatim>\<open>statistics/response_time_handler.cpp\<close>): counters per handler and status, and the
  page that reports them. Every operation holds the mutex of the component, so that concurrent calls
  are a sequence of calls. Times are in microseconds; the report divides them by 1000 and prints
  three decimals, which is exact for the doubles of times below \<^verbatim>\<open>2^50\<close>.
\<close>

section \<open>Counters\<close>

record counter_data =
  cd_min :: u64
  cd_max :: u64
  cd_total :: u64
  cd_hits :: u64

definition counter_new :: counter_data where
  "counter_new = \<lparr>cd_min = - 1, cd_max = 0, cd_total = 0, cd_hits = 0\<rparr>"

definition counter_add :: "u64 \<Rightarrow> counter_data \<Rightarrow> counter_data" where
  "counter_add time c =
     \<lparr>cd_min = min (cd_min c) time, cd_max = max (cd_max c) time, cd_total = cd_total c + time, cd_hits = cd_hits c + 1\<rparr>"

definition counter_avg :: "counter_data \<Rightarrow> u64" where
  "counter_avg c = (if cd_hits c \<noteq> 0 then cd_total c div cd_hits c else 0)"

section \<open>The component\<close>

type_synonym statistics = "(string \<times> (u16 \<times> counter_data) list) list"

definition status_lt :: "u16 \<Rightarrow> u16 \<Rightarrow> bool" where
  "status_lt a b \<longleftrightarrow> a < b"

text \<open>The access \<^verbatim>\<open>data_[handler]\<close> creates an empty map for a new handler.\<close>

definition stat_add :: "string \<Rightarrow> u16 \<Rightarrow> u64 \<Rightarrow> statistics \<Rightarrow> statistics" where
  "stat_add handler status time data =
     (let handle = (case om_find string_lt handler data of Some h \<Rightarrow> h | None \<Rightarrow> []);
          handle = (case om_find status_lt status handle of
                      None \<Rightarrow> fst (om_insert status_lt status (counter_add time counter_new) handle)
                    | Some c \<Rightarrow> om_assign status_lt status (counter_add time c) handle)
      in om_assign string_lt handler handle data)"

definition millis :: "u64 \<Rightarrow> string" where
  "millis t =
     (let n = unat t; r = n mod 1000
      in show_nat (n div 1000) @ ''.'' @ show_nat (r div 100) @ show_nat (r div 10 mod 10) @ show_nat (r mod 10))"

definition data_element :: "u16 \<times> counter_data \<Rightarrow> string" where
  "data_element = (\<lambda>(status, c).
     let q = [CHR 0x22] in
     ''<data'' @ '' status='' @ q @ show_nat (unat status) @ q @ '' avg='' @ q @ millis (counter_avg c) @ q @
     '' min='' @ q @ millis (cd_min c) @ q @ '' max='' @ q @ millis (cd_max c) @ q @
     '' hits='' @ q @ show_nat (unat (cd_hits c)) @ q @ ''/>'')"

definition statistics_text :: "statistics \<Rightarrow> string" where
  "statistics_text data =
     (let q = [CHR 0x22] in
      ''<?xml version='' @ q @ ''1.0'' @ q @ '' encoding='' @ q @ ''utf-8'' @ q @ ''?>'' @ ''<response-time>'' @
      concat (map (\<lambda>(handler, counters).
        ''<handler id='' @ q @ handler @ q @ ''>'' @ concat (map data_element counters) @ ''</handler>'') data) @
      ''</response-time>'')"

definition stat_handleRequest :: "statistics \<Rightarrow> ('s, 'u) request \<Rightarrow> ('s, 'u) outcome" where
  "stat_handleRequest data r = rbind (setStatus 200 r) (request_write (statistics_text data))"

section \<open>The counters tell the minimum, maximum, sum and number of the times\<close>

interpretation status_order: strict_weak_order status_lt
  by unfold_locales (auto simp: status_lt_def)

lemma status_eqv [simp]: "status_order.eqv a b \<longleftrightarrow> a = b"
  by (auto simp: status_order.eqv_def status_lt_def)

lemma status_cases: "\<not> status_lt s t \<Longrightarrow> \<not> status_lt t s \<Longrightarrow> s = t"
  by (simp add: status_lt_def)

text \<open>The abstract view: the recorded times of a handler and a status, and the counter for them.\<close>

definition lookup_counter :: "string \<Rightarrow> u16 \<Rightarrow> statistics \<Rightarrow> counter_data option" where
  "lookup_counter handler status data =
     (case om_find string_lt handler data of None \<Rightarrow> None | Some h \<Rightarrow> om_find status_lt status h)"

definition times_of :: "string \<Rightarrow> u16 \<Rightarrow> (string \<times> u16 \<times> u64) list \<Rightarrow> u64 list" where
  "times_of handler status calls = map (snd \<circ> snd) (filter (\<lambda>(h, s, t). h = handler \<and> s = status) calls)"

definition summary :: "u64 list \<Rightarrow> counter_data option" where
  "summary ts = (if ts = [] then None
     else Some \<lparr>cd_min = Min (set ts), cd_max = Max (set ts), cd_total = sum_list ts, cd_hits = of_nat (length ts)\<rparr>)"

definition stat_ok :: "statistics \<Rightarrow> bool" where
  "stat_ok data \<longleftrightarrow> om_sorted string_lt data \<and> (\<forall>h m. om_find string_lt h data = Some m \<longrightarrow> om_sorted status_lt m)"

definition record_all :: "(string \<times> u16 \<times> u64) list \<Rightarrow> statistics" where
  "record_all calls = fold (\<lambda>(h, s, t). stat_add h s t) calls []"

lemma stat_add_ok: "stat_ok data \<Longrightarrow> stat_ok (stat_add h s t data)"
  by (auto simp: stat_ok_def stat_add_def Let_def string_order.sorted_assign string_order.find_assign
    status_order.sorted_insert status_order.sorted_assign split: option.splits if_splits)

lemma lookup_add:
  "stat_ok data \<Longrightarrow> lookup_counter h s (stat_add h' s' t data) =
     (if h = h' \<and> s = s' then Some (counter_add t (case lookup_counter h s data of Some c \<Rightarrow> c | None \<Rightarrow> counter_new))
      else lookup_counter h s data)"
  by (auto simp: stat_ok_def stat_add_def lookup_counter_def Let_def string_order.find_assign
    status_order.find_insert status_order.find_assign status_order.irrefl split: option.splits dest: status_cases)

lemma summary_snoc:
  "summary (ts @ [t]) = Some (counter_add t (case summary ts of Some c \<Rightarrow> c | None \<Rightarrow> counter_new))"
  by (cases "ts = []") (simp_all add: summary_def counter_add_def counter_new_def min.commute max.commute min_absorb2)

lemma record_all_snoc: "record_all (calls @ [(h, s, t)]) = stat_add h s t (record_all calls)"
  by (simp add: record_all_def)

lemma record_all_ok: "stat_ok (record_all calls)"
  by (induction calls rule: rev_induct) (auto simp: record_all_snoc stat_add_ok, simp add: record_all_def stat_ok_def)

lemma lookup_record_all: "lookup_counter h s (record_all calls) = summary (times_of h s calls)"
proof (induction calls rule: rev_induct)
  case Nil
  then show ?case by (simp add: record_all_def lookup_counter_def times_of_def summary_def)
next
  case (snoc x calls)
  obtain h' s' t where x: "x = (h', s', t)" by (cases x)
  show ?case
    using snoc by (auto simp: x record_all_snoc lookup_add [OF record_all_ok] times_of_def summary_snoc)
qed

lemma unat_sum_list: "sum_list (map unat ts) < 2 ^ 64 \<Longrightarrow> unat (sum_list (ts :: u64 list)) = sum_list (map unat ts)"
proof (induction ts)
  case (Cons t ts)
  then have "unat (sum_list ts) = sum_list (map unat ts)" by simp
  then show ?case using Cons.prems by (simp add: unat_word_ariths)
qed simp

lemma summary_avg:
  assumes "summary ts = Some c" "sum_list (map unat ts) < 2 ^ 64" "length ts < 2 ^ 64"
  shows "unat (counter_avg c) = sum_list (map unat ts) div length ts"
proof -
  have c: "cd_total c = sum_list ts" "cd_hits c = of_nat (length ts)" "ts \<noteq> []"
    using assms(1) by (auto simp: summary_def split: if_splits)
  have "unat (cd_hits c) = length ts" using c(2) assms(3) by (simp add: unat_of_nat)
  then show ?thesis using c(1,3) unat_sum_list [OF assms(2)] by (auto simp: counter_avg_def unat_div)
qed

text \<open>
  The statistics are those of the recorded times: after any sequence of calls there is a counter for
  a handler and a status exactly when there was a call for them, and it holds the minimum, the
  maximum, the sum (modulo \<^verbatim>\<open>2^64\<close>) and the number of their times; the average is exact as long as the
  sum and the number fit their words.
\<close>

theorem statistics_refine:
  "lookup_counter h s (record_all calls) = summary (times_of h s calls) \<and>
   (sum_list (map unat (times_of h s calls)) < 2 ^ 64 \<and> length (times_of h s calls) < 2 ^ 64 \<longrightarrow>
    (\<forall>c. lookup_counter h s (record_all calls) = Some c \<longrightarrow>
      unat (counter_avg c) = sum_list (map unat (times_of h s calls)) div length (times_of h s calls)))"
  using summary_avg [of "times_of h s calls"] by (auto simp: lookup_record_all)

theorem statistics_refine_witness:
  "lookup_counter ''a'' 200 (record_all [(''a'', 200, 30), (''b'', 404, 5), (''a'', 200, 11)]) =
     Some \<lparr>cd_min = 11, cd_max = 30, cd_total = 41, cd_hits = 2\<rparr> \<and>
   unat (counter_avg \<lparr>cd_min = 11, cd_max = 30, cd_total = 41, cd_hits = 2\<rparr>) = 20"
  using statistics_refine [of "''a''" 200 "[(''a'', 200, 30), (''b'', 404, 5), (''a'', 200, 11)]"]
  by (simp add: times_of_def summary_def flip: numeral_2_eq_2)

end
