(* ===== verification/FcgiServers.thy ===== *)
theory FcgiServers
  imports RequestAttach Globals Statistics
begin

text \<open>
  The FastCGI server (\<^verbatim>\<open>main/fcgi_server.cpp\<close>, \<^verbatim>\<open>main/fcgi_request.cpp\<close>, \<^verbatim>\<open>main/endpoint.cpp\<close>): endpoints with
  their busy counters, start and stop, the threads that accept requests, and what happens to one
  accepted request. The sockets and the FastCGI library are parameters: the results of the calls
  that the code makes. Each step of a thread below holds the mutex of its endpoint at most once, so
  that the steps of different threads interleave in any order.
\<close>

section \<open>Endpoints\<close>

record endpoint =
  ep_busy_count :: int
  ep_threads :: u16
  ep_socket_path :: string
  ep_socket_port :: string
  ep_keepConnection :: u32

definition endpoint_new :: "string \<Rightarrow> string \<Rightarrow> u32 \<Rightarrow> u16 \<Rightarrow> endpoint result" where
  "endpoint_new path port keepConnection threads =
     (if path = [] \<and> port = [] then Inl (RuntimeError ''Both /socket and /port param for endpoint is empty'')
      else Inr \<lparr>ep_busy_count = 0, ep_threads = threads, ep_socket_path = path, ep_socket_port = port, ep_keepConnection = keepConnection\<rparr>)"

definition endpoint_toString :: "endpoint \<Rightarrow> string" where
  "endpoint_toString ep = (if ep_socket_path ep = [] then '':'' @ ep_socket_port ep else ep_socket_path ep)"

definition getBusyCounter :: "endpoint \<Rightarrow> u16" where
  "getBusyCounter ep = word_of_int (ep_busy_count ep)"

definition incrementBusyCounter :: "endpoint \<Rightarrow> endpoint" where
  "incrementBusyCounter ep = ep\<lparr>ep_busy_count := ep_busy_count ep + 1\<rparr>"

text \<open>None is the failure of the assertion.\<close>

definition decrementBusyCounter :: "endpoint \<Rightarrow> endpoint option" where
  "decrementBusyCounter ep =
     (if ep_busy_count ep > 0 then Some (ep\<lparr>ep_busy_count := ep_busy_count ep - 1\<rparr>) else None)"

section \<open>Start and stop\<close>

datatype server_status = NOT_INITED | LOADING | RUNNING

record 'c fcgi_server =
  sv_status :: server_status
  sv_stopped :: bool
  sv_logTimes :: bool
  sv_request_cache :: "'c option"
  sv_statistics :: "'c option"
  sv_sessionManager :: "'c option"
  sv_endpoints :: "endpoint list"

definition fcgi_server_new :: "'c fcgi_server" where
  "fcgi_server_new = \<lparr>sv_status = NOT_INITED, sv_stopped = False, sv_logTimes = False, sv_request_cache = None,
     sv_statistics = None, sv_sessionManager = None, sv_endpoints = []\<rparr>"

text \<open>
  What the server calls: the components by name with the interfaces they implement, and the results
  of the library and of the system calls.
\<close>

record 'c server_env =
  se_find :: "string \<Rightarrow> 'c option"
  se_is_cache :: "'c \<Rightarrow> bool"
  se_is_statistics :: "'c \<Rightarrow> bool"
  se_is_manager :: "'c \<Rightarrow> bool"
  se_monitor :: "int \<Rightarrow> unit result"
  se_fcgx_init :: int
  se_openSocket :: "endpoint \<Rightarrow> int \<Rightarrow> unit result"
  se_pipe :: int

text \<open>The constant of the C library.\<close>

definition SOMAXCONN :: int where
  "SOMAXCONN = 4096"

text \<open>A component that is named in the configuration and has to implement an interface.\<close>

definition init_component :: "xml_config \<Rightarrow> 'c server_env \<Rightarrow> ('c \<Rightarrow> bool) \<Rightarrow> string \<Rightarrow> string \<Rightarrow> 'c option result" where
  "init_component cfg env implements xpath interface =
     rbind (cfg_asString_default cfg xpath []) (\<lambda>name.
       case se_find env name of
         None \<Rightarrow> Inr None
       | Some c \<Rightarrow>
           if implements c then Inr (Some c)
           else Inl (RuntimeError (''Component '' @ name @ '' does not implement '' @ interface @ '' interface'')))"

definition initRequestCache :: "xml_config \<Rightarrow> 'c server_env \<Rightarrow> 'c option result" where
  "initRequestCache cfg env =
     init_component cfg env (se_is_cache env) ''/fastcgi/daemon[count(request-cache)=1]/request-cache/@component'' ''RequestCache''"

definition initTimeStatistics :: "xml_config \<Rightarrow> 'c server_env \<Rightarrow> 'c option result" where
  "initTimeStatistics cfg env =
     init_component cfg env (se_is_statistics env) ''/fastcgi/daemon[count(statistics)=1]/statistics/@component'' ''ResponseTimeStatistics''"

definition initSessionManager :: "xml_config \<Rightarrow> 'c server_env \<Rightarrow> 'c option result" where
  "initSessionManager cfg env =
     init_component cfg env (se_is_manager env)
       (''/fastcgi[count(session)=1]/session[@attach='' @ [CHR 0x22] @ ''1'' @ [CHR 0x22] @ '' or @attach='' @ [CHR 0x22] @ ''true'' @ [CHR 0x22] @ '']/@component'')
       ''SessionManager''"

definition init_endpoint :: "xml_config \<Rightarrow> 'c server_env \<Rightarrow> string \<Rightarrow> endpoint result" where
  "init_endpoint cfg env c =
     rbind (cfg_asString_default cfg (c @ ''/socket'') []) (\<lambda>path.
     rbind (cfg_asString_default cfg (c @ ''/port'') []) (\<lambda>port.
     rbind (cfg_asString_default cfg (c @ ''/@keepConnection'') ''true'') (\<lambda>dflt.
     rbind (cfg_asString_default cfg (c @ ''/@keepalive'') dflt) (\<lambda>keep.
     rbind (cfg_asInt_default cfg (c @ ''/threads'') 1) (\<lambda>threads.
     rbind (endpoint_new path port (if keep = ''true'' then 1 else 0) (word_of_int threads)) (\<lambda>ep.
     rbind (cfg_asInt_default cfg (c @ ''/backlog'') SOMAXCONN) (\<lambda>backlog.
     rbind (se_openSocket env ep backlog) (\<lambda>_. Inr ep))))))))"

fun init_endpoints :: "xml_config \<Rightarrow> 'c server_env \<Rightarrow> string list \<Rightarrow> endpoint list \<Rightarrow> endpoint list result" where
  "init_endpoints cfg env [] eps = Inr eps"
| "init_endpoints cfg env (c # cs) eps = rbind (init_endpoint cfg env c) (\<lambda>ep. init_endpoints cfg env cs (eps @ [ep]))"

definition initFastCGISubsystem :: "xml_config \<Rightarrow> 'c server_env \<Rightarrow> endpoint list result" where
  "initFastCGISubsystem cfg env =
     (if se_fcgx_init env \<noteq> 0 then Inl (RuntimeError ''Cannot init fastcgi library'')
      else
        rbind (cfg_subKeys cfg ''/fastcgi/daemon/endpoint'') (\<lambda>v.
        rbind (init_endpoints cfg env v []) (\<lambda>eps.
          if eps = [] then Inl (RuntimeError ''At least one endpoint has to be configured'') else Inr eps)))"

text \<open>An exception leaves the server in the state that it has reached.\<close>

definition server_start :: "xml_config \<Rightarrow> 'c server_env \<Rightarrow> 'c fcgi_server \<Rightarrow> (cpp_error \<times> 'c fcgi_server) + 'c fcgi_server" where
  "server_start cfg env sv =
     (if sv_status sv \<noteq> NOT_INITED then Inl (RuntimeError ''Server is already started'', sv)
      else
        let sv = sv\<lparr>sv_status := LOADING\<rparr> in
        rbind (at_state sv (cfg_asInt_default cfg ''/fastcgi/daemon/log-times'' 0)) (\<lambda>t.
        let sv = sv\<lparr>sv_logTimes := (t \<noteq> 0)\<rparr> in
        rbind (at_state sv (rbind (cfg_asInt cfg ''/fastcgi/daemon/monitor_port'') (se_monitor env))) (\<lambda>_.
        rbind (at_state sv (initRequestCache cfg env)) (\<lambda>cache.
        let sv = sv\<lparr>sv_request_cache := cache\<rparr> in
        rbind (at_state sv (initTimeStatistics cfg env)) (\<lambda>stat.
        let sv = sv\<lparr>sv_statistics := stat\<rparr> in
        rbind (at_state sv (initFastCGISubsystem cfg env)) (\<lambda>eps.
        let sv = sv\<lparr>sv_endpoints := eps\<rparr> in
        rbind (at_state sv (initSessionManager cfg env)) (\<lambda>manager.
        let sv = sv\<lparr>sv_sessionManager := manager, sv_status := RUNNING\<rparr> in
        if se_pipe env = -1 then Inl (RuntimeError ''Cannot create stop signal pipes'', sv) else Inr sv)))))))"

definition stopInternal :: "'c fcgi_server \<Rightarrow> ('s, 'u, 'h, 'f) pool_map \<Rightarrow> ('c fcgi_server \<times> ('s, 'u, 'h, 'f) pool_map) result" where
  "stopInternal sv pools =
     (if sv_status sv = NOT_INITED then Inl (RuntimeError ''Cannot stop server because it is not started yet'')
      else if sv_status sv = LOADING then Inl (RuntimeError ''Cannot stop until loading finish'')
      else if sv_stopped sv then Inl (RuntimeError ''Server is already stopping'')
      else Inr (sv\<lparr>sv_stopped := True\<rparr>, stopThreadPools pools))"

definition server_join :: "'c fcgi_server \<Rightarrow> unit result" where
  "server_join sv = (if sv_status sv = NOT_INITED then Inl (RuntimeError ''Server is not started yet'') else Inr ())"

text \<open>What the monitor thread does with the first byte that it reads.\<close>

datatype monitor_action = SendInfo | Stop | Nothing

definition monitor_command :: "string \<Rightarrow> monitor_action" where
  "monitor_command buf =
     (case buf of
        [] \<Rightarrow> Nothing
      | c # _ \<Rightarrow> if c = CHR ''i'' \<or> c = CHR ''I'' then SendInfo else if c = CHR ''s'' \<or> c = CHR ''S'' then Stop else Nothing)"

section \<open>The report of the server\<close>

definition xml_attr :: "string \<Rightarrow> string \<Rightarrow> string" where
  "xml_attr name v = '' '' @ name @ ''='' @ [CHR 0x22] @ v @ [CHR 0x22]"

text \<open>
  The default branch of the \<^verbatim>\<open>switch\<close>, with the text ``stopping'', is for a status other than these three, and
  there is none.
\<close>

definition status_text :: "'c fcgi_server \<Rightarrow> string" where
  "status_text sv = (case sv_status sv of LOADING \<Rightarrow> ''loading'' | RUNNING \<Rightarrow> ''running'' | NOT_INITED \<Rightarrow> ''not inited'')"

definition endpoint_info :: "endpoint \<Rightarrow> string" where
  "endpoint_info ep = ''      <endpoint'' @ xml_attr ''socket'' (endpoint_toString ep) @
     xml_attr ''threads'' (show_nat (unat (ep_threads ep))) @ xml_attr ''busy'' (show_nat (unat (getBusyCounter ep))) @ ''/>'' @ [CHR 0x0A]"

definition pool_info_text :: "string \<times> int \<times> ('s, 'u, 'h, 'f) request_task pool \<Rightarrow> string" where
  "pool_info_text = (\<lambda>(name, delay, p).
     let i = fst (pool_getInfo p)
     in ''    <pool'' @ xml_attr ''name'' name @ xml_attr ''threads'' (show_nat (unat (pi_threadsNumber i))) @
        xml_attr ''busy'' (show_nat (unat (pi_busy i))) @ xml_attr ''queue'' (show_nat (unat (pi_queueLength i))) @
        xml_attr ''current_queue'' (show_nat (unat (pi_currentQueue i))) @
        xml_attr ''all_tasks'' (show_nat (unat (pi_good i + pi_bad i))) @
        xml_attr ''exception_tasks'' (show_nat (unat (pi_bad i))) @ ''/>'' @ [CHR 0x0A])"

definition getServerInfo :: "'c fcgi_server \<Rightarrow> ('s, 'u, 'h, 'f) pool_map \<Rightarrow> string" where
  "getServerInfo sv pools =
     (let nl = [CHR 0x0A] in
      ''<fastcgi-container>'' @ nl @ ''  <status>'' @ status_text sv @ ''</status>'' @ nl @
      (if sv_status sv = RUNNING then
         ''  <pools>'' @ nl @ ''    <endpoint_pools>'' @ nl @ concat (map endpoint_info (sv_endpoints sv)) @
         ''    </endpoint_pools>'' @ nl @ concat (map pool_info_text pools) @ ''  </pools>'' @ nl
       else []) @
      ''</fastcgi-container>'' @ nl)"

section \<open>The threads of an endpoint\<close>

text \<open>
  Where a thread is in its loop: before the test of the stop flag, with the busy counter taken while
  it makes the request object, in the call that accepts a request, serving it, or at its end.
\<close>

datatype fcgi_thread = LoopStart | Preparing | Accepting | Serving | Finished

record endpoint_state =
  es_endpoint :: endpoint
  es_threads :: "fcgi_thread list"
  es_stopped :: bool

definition createWorkThreads :: "endpoint \<Rightarrow> endpoint_state" where
  "createWorkThreads ep = \<lparr>es_endpoint = ep, es_threads = replicate (unat (ep_threads ep)) LoopStart, es_stopped = False\<rparr>"

definition thread_to :: "nat \<Rightarrow> fcgi_thread \<Rightarrow> endpoint \<Rightarrow> endpoint_state \<Rightarrow> endpoint_state" where
  "thread_to i t ep es = es\<lparr>es_threads := (es_threads es)[i := t], es_endpoint := ep\<rparr>"

definition thread_at :: "nat \<Rightarrow> endpoint_state \<Rightarrow> fcgi_thread \<Rightarrow> bool" where
  "thread_at i es t \<longleftrightarrow> i < length (es_threads es) \<and> es_threads es ! i = t"

text \<open>
  The steps of \<^verbatim>\<open>FCGIServer::handle\<close>. An exception of the constructor of the request, a failed accept and the end
  of the service lead back to the start of the loop; the destructor of the scoped counter gives the
  counter back where it is taken.
\<close>

inductive thread_step :: "endpoint_state \<Rightarrow> endpoint_state \<Rightarrow> bool" where
  loop_stop: "thread_at i es LoopStart \<Longrightarrow> es_stopped es \<Longrightarrow> thread_step es (thread_to i Finished (es_endpoint es) es)"
| prepare: "thread_at i es LoopStart \<Longrightarrow> \<not> es_stopped es \<Longrightarrow>
    thread_step es (thread_to i Preparing (incrementBusyCounter (es_endpoint es)) es)"
| prepared: "thread_at i es Preparing \<Longrightarrow> decrementBusyCounter (es_endpoint es) = Some ep \<Longrightarrow> thread_step es (thread_to i Accepting ep es)"
| prepare_failed: "thread_at i es Preparing \<Longrightarrow> decrementBusyCounter (es_endpoint es) = Some ep \<Longrightarrow> thread_step es (thread_to i LoopStart ep es)"
| accept_stop: "thread_at i es Accepting \<Longrightarrow> es_stopped es \<Longrightarrow> thread_step es (thread_to i Finished (es_endpoint es) es)"
| accept_failed: "thread_at i es Accepting \<Longrightarrow> \<not> es_stopped es \<Longrightarrow> thread_step es (thread_to i LoopStart (es_endpoint es) es)"
| accepted: "thread_at i es Accepting \<Longrightarrow> \<not> es_stopped es \<Longrightarrow>
    thread_step es (thread_to i Serving (incrementBusyCounter (es_endpoint es)) es)"
| served: "thread_at i es Serving \<Longrightarrow> decrementBusyCounter (es_endpoint es) = Some ep \<Longrightarrow> thread_step es (thread_to i LoopStart ep es)"

inductive endpoint_reachable :: "endpoint \<Rightarrow> endpoint_state \<Rightarrow> bool" for ep where
  init: "endpoint_reachable ep (createWorkThreads ep)"
| thread: "endpoint_reachable ep es \<Longrightarrow> thread_step es es' \<Longrightarrow> endpoint_reachable ep es'"
| stop: "endpoint_reachable ep es \<Longrightarrow> endpoint_reachable ep (es\<lparr>es_stopped := True\<rparr>)"

fun busy_thread :: "fcgi_thread \<Rightarrow> bool" where
  "busy_thread Preparing = True"
| "busy_thread Serving = True"
| "busy_thread _ = False"

definition busy_threads :: "endpoint_state \<Rightarrow> nat" where
  "busy_threads es = length (filter busy_thread (es_threads es))"

lemma length_filter_update:
  "i < length xs \<Longrightarrow>
   int (length (filter P (xs[i := x]))) = int (length (filter P xs)) - (if P (xs ! i) then 1 else 0) + (if P x then 1 else 0)"
proof (induction xs arbitrary: i)
  case (Cons y xs)
  show ?case
  proof (cases i)
    case (Suc j)
    then show ?thesis using Cons.IH [of j] Cons.prems by (auto simp del: of_nat_eq_iff)
  qed auto
qed simp

lemma busy_threads_to:
  "thread_at i es t \<Longrightarrow>
   int (busy_threads (thread_to i t' ep es)) = int (busy_threads es) - (if busy_thread t then 1 else 0) + (if busy_thread t' then 1 else 0)"
  by (auto simp: busy_threads_def thread_to_def thread_at_def length_filter_update)

lemma thread_to_sel [simp]:
  "es_endpoint (thread_to i t ep es) = ep" "length (es_threads (thread_to i t ep es)) = length (es_threads es)"
  by (simp_all add: thread_to_def)

definition endpoint_ok :: "endpoint \<Rightarrow> endpoint_state \<Rightarrow> bool" where
  "endpoint_ok ep es \<longleftrightarrow> ep_busy_count (es_endpoint es) = int (busy_threads es) \<and> length (es_threads es) = unat (ep_threads ep)"

lemma thread_step_ok: "thread_step es es' \<Longrightarrow> endpoint_ok ep es \<Longrightarrow> endpoint_ok ep es'"
  by (induction rule: thread_step.induct)
    (auto simp: endpoint_ok_def busy_threads_to incrementBusyCounter_def decrementBusyCounter_def
      simp del: of_nat_eq_iff split: if_splits)

lemma reachable_ok: "endpoint_reachable ep es \<Longrightarrow> ep_busy_count ep = 0 \<Longrightarrow> endpoint_ok ep es"
proof (induction rule: endpoint_reachable.induct)
  case init
  then show ?case by (simp add: endpoint_ok_def createWorkThreads_def busy_threads_def)
next
  case (thread es es')
  then show ?case using thread_step_ok by blast
next
  case (stop es)
  then show ?case by (simp add: endpoint_ok_def busy_threads_def)
qed

text \<open>
  C32. The busy counter of an endpoint is exact: in every reachable state it is the number of the threads
  that prepare or serve a request, the sixteen bits that the report shows hold it, and no thread
  ever fails the assertion when it gives the counter back: every thread that is not at its end can
  go on.
\<close>

theorem busy_counter_exact:
  assumes "endpoint_new path port keep threads = Inr ep" "endpoint_reachable ep es"
  shows "ep_busy_count (es_endpoint es) = int (busy_threads es) \<and> unat (getBusyCounter (es_endpoint es)) = busy_threads es \<and>
    (thread_at i es t \<and> t \<noteq> Finished \<longrightarrow> (\<exists>t' ep'. thread_step es (thread_to i t' ep' es)))"
proof -
  have "ep_busy_count ep = 0" using assms(1) by (auto simp: endpoint_new_def split: if_splits)
  then have ok: "ep_busy_count (es_endpoint es) = int (busy_threads es)" "length (es_threads es) = unat (ep_threads ep)"
    using reachable_ok [OF assms(2)] by (auto simp: endpoint_ok_def)
  have "busy_threads es \<le> unat (ep_threads ep)" using ok(2) length_filter_le [of busy_thread "es_threads es"] by (simp add: busy_threads_def)
  also have "\<dots> < 2 ^ 16" using unsigned_less [of "ep_threads ep", where 'a = nat] by simp
  finally have b: "unat (getBusyCounter (es_endpoint es)) = busy_threads es"
    using ok(1) by (simp add: getBusyCounter_def unat_of_nat)
  have "\<exists>t' ep'. thread_step es (thread_to i t' ep' es)" if t: "thread_at i es t" "t \<noteq> Finished"
  proof -
    have d: "busy_thread t \<Longrightarrow> \<exists>ep'. decrementBusyCounter (es_endpoint es) = Some ep'"
    proof -
      assume "busy_thread t"
      then have "es_threads es ! i \<in> set (filter busy_thread (es_threads es))" using t(1) by (auto simp: thread_at_def)
      then have "0 < busy_threads es" by (metis busy_threads_def length_pos_if_in_set)
      then show ?thesis using ok(1) by (simp add: decrementBusyCounter_def)
    qed
    show ?thesis using t d by (cases t; cases "es_stopped es") (auto intro: thread_step.intros)
  qed
  then show ?thesis using ok(1) b by blast
qed

theorem busy_counter_exact_witness:
  "\<exists>es. thread_step (createWorkThreads \<lparr>ep_busy_count = 0, ep_threads = 2, ep_socket_path = ''/s'', ep_socket_port = [], ep_keepConnection = 1\<rparr>) es \<and>
    ep_busy_count (es_endpoint es) = 1 \<and> unat (getBusyCounter (es_endpoint es)) = 1"
proof -
  let ?ep = "\<lparr>ep_busy_count = 0, ep_threads = 2, ep_socket_path = ''/s'', ep_socket_port = [], ep_keepConnection = 1\<rparr> :: endpoint"
  let ?es = "thread_to 0 Preparing (incrementBusyCounter ?ep) (createWorkThreads ?ep)"
  have s: "thread_step (createWorkThreads ?ep) ?es"
    using thread_step.prepare [of 0 "createWorkThreads ?ep"] by (simp add: thread_at_def createWorkThreads_def)
  then have r: "endpoint_reachable ?ep ?es" by (rule endpoint_reachable.thread [OF endpoint_reachable.init])
  have n: "endpoint_new ''/s'' [] 1 2 = Inr ?ep" by (simp add: endpoint_new_def)
  have "busy_threads ?es = 1"
    using busy_threads_to [of 0 "createWorkThreads ?ep" LoopStart Preparing "incrementBusyCounter ?ep"]
    by (simp add: thread_at_def createWorkThreads_def) (simp add: busy_threads_def)
  then show ?thesis using s busy_counter_exact [OF n r] by auto
qed

section \<open>One accepted request\<close>

definition DAEMON_STRING :: string where
  "DAEMON_STRING = ''fastcgi3-daemon''"

text \<open>The value of a variable of the environment, compared without case; the last entry counts.\<close>

definition env_entry :: "string \<Rightarrow> string list \<Rightarrow> string" where
  "env_entry name env =
     foldl (\<lambda>v e. if strncasecmp_eq (name @ ''='') (c_str e) then drop (length name + 1) (c_str e) else v) [] env"

definition request_url :: "string list \<Rightarrow> string" where
  "request_url env = env_entry ''REQUEST_URI'' env"

definition request_id :: "string list \<Rightarrow> string" where
  "request_id env = env_entry ''REQUEST_ID'' env"

definition fcgi_attach :: "u32 \<Rightarrow> (u32 \<times> data_buffer result) option \<Rightarrow> io_stream \<Rightarrow> string list \<Rightarrow> ('s, 'u) request \<Rightarrow>
    (cpp_error \<times> ('s, 'u) request) + (data_buffer \<times> ('s, 'u) request)" where
  "fcgi_attach keepConnection cache stream env r =
     rbind (if keepConnection = 0 then setHeader ''Connection'' ''close'' r else Inr r) (\<lambda>r. attach cache (Some stream) (Some env) r)"

text \<open>The time from accept to finish, each in seconds and microseconds, and the statistics of a request.\<close>

definition microseconds :: "int \<times> int \<Rightarrow> int \<times> int \<Rightarrow> u64" where
  "microseconds accept_time finish_time =
     word_of_int ((fst finish_time - fst accept_time) * 1000000 + (snd finish_time - snd accept_time))"

definition request_finish :: "'h handler_description option \<Rightarrow> ('s, 'u) request \<Rightarrow> int \<times> int \<Rightarrow> int \<times> int \<Rightarrow> statistics \<Rightarrow> statistics" where
  "request_finish handler r accept_time finish_time data =
     stat_add (case handler of Some h \<Rightarrow> hd_id h | None \<Rightarrow> DAEMON_STRING) (rq_status r) (microseconds accept_time finish_time) data"

text \<open>
  \<^verbatim>\<open>FCGIServer::handleRequest\<close> overrides \<^verbatim>\<open>Server::handleRequest\<close> and remembers the description of the handler for the statistics.
\<close>

definition fcgi_handleRequest :: "regex \<Rightarrow> ('h, 'f) handler_set \<Rightarrow> int \<Rightarrow> ('s, 'u, 'h, 'f) pool_map \<Rightarrow> ('s, 'u, 'h, 'f) request_task \<Rightarrow>
    'h handler_description option \<times> ('s, 'u, 'h, 'f) served" where
  "fcgi_handleRequest rx hs now pools task =
     (case findURIFilters rx hs (tk_request task) [] of
        Inl e \<Rightarrow> (None, Raised e (tk_request task))
      | Inr filters \<Rightarrow>
          (case findURIHandler rx hs (tk_request task) of
             Inl e \<Rightarrow> (None, Raised e (tk_request task))
           | Inr handler \<Rightarrow>
               if no_handler handler \<and> filters \<noteq> []
               then (None, handleRequestFilters now pools (hs_defaultPoolName hs) filters task)
               else (handler, handleRequestInternal now pools filters handler task)))"

lemma fcgi_handleRequest_routes: "snd (fcgi_handleRequest rx hs now pools task) = handleRequest rx hs now pools task"
  by (simp add: fcgi_handleRequest_def handleRequest_def split: sum.split)

text \<open>
  The body of the loop after a successful accept. The clauses catch every exception; the other three
  errors of the model are no exceptions.
\<close>

definition is_exception :: "cpp_error \<Rightarrow> bool" where
  "is_exception e \<longleftrightarrow> e \<noteq> NullPointer \<and> e \<noteq> OutOfBounds \<and> e \<noteq> Diverges"

definition caught :: "u16 \<Rightarrow> cpp_error \<Rightarrow> ('s, 'u) request \<Rightarrow> ('s, 'u, 'h, 'f) served" where
  "caught status e r = (if is_exception e then answered (sendError status r) else Raised e r)"

definition serve_request :: "regex \<Rightarrow> ('h, 'f) handler_set \<Rightarrow> int \<Rightarrow> ('s, 'u, 'h, 'f) pool_map \<Rightarrow> u32 \<Rightarrow>
    (u32 \<times> data_buffer result) option \<Rightarrow> io_stream \<Rightarrow> string list \<Rightarrow> ('s, 'u) request \<Rightarrow>
    'h handler_description option \<times> ('s, 'u, 'h, 'f) served" where
  "serve_request rx hs now pools keepConnection cache stream env r =
     (case fcgi_attach keepConnection cache stream env r of
        Inl (e, r) \<Rightarrow> (None, caught 400 e r)
      | Inr (_, r) \<Rightarrow>
          (case fcgi_handleRequest rx hs now pools \<lparr>tk_request = r, tk_filters = [], tk_handlers = [], tk_start = 0\<rparr> of
             (handler, Raised e r) \<Rightarrow> (handler, caught 500 e r)
           | x \<Rightarrow> x))"

section \<open>Nothing is sent while a request is attached\<close>

definition unsent :: "('a \<Rightarrow> ('s, 'u) request) \<Rightarrow> (cpp_error \<times> ('s, 'u) request) + 'a \<Rightarrow> bool" where
  "unsent f x \<longleftrightarrow> (case x of Inl (e, r) \<Rightarrow> \<not> rq_headers_sent r | Inr y \<Rightarrow> \<not> rq_headers_sent (f y))"

lemma unsent_simps [simp]: "unsent f (Inl (e, r)) \<longleftrightarrow> \<not> rq_headers_sent r" "unsent f (Inr y) \<longleftrightarrow> \<not> rq_headers_sent (f y)"
  by (simp_all add: unsent_def)

lemma unsent_rbind: "unsent f m \<Longrightarrow> (\<And>y. \<not> rq_headers_sent (f y) \<Longrightarrow> unsent g (k y)) \<Longrightarrow> unsent g (rbind m k)"
  by (cases m) (auto simp: unsent_def)

lemma unsent_at: "\<not> rq_headers_sent r \<Longrightarrow> (\<And>y. unsent g (k y)) \<Longrightarrow> unsent g (rbind (at_state r m) k)"
  by (cases m) (auto simp: unsent_def at_state_def)

lemma parseCookies_loop_sent [simp]: "rq_headers_sent (parseCookies_loop r tmp) = rq_headers_sent r"
  by (induction r tmp rule: parseCookies_loop.induct)
    (subst parseCookies_loop.simps, simp add: addCookie_def Let_def split: prod.splits)

lemma parse_env_entry_sent [simp]: "rq_headers_sent (parse_env_entry r e) = rq_headers_sent r"
  by (simp add: parse_env_entry_def parseCookies_def addHeader_def Let_def split: prod.splits)

lemma parse_env_sent [simp]: "rq_headers_sent (parse_env r env) = rq_headers_sent r"
  unfolding parse_env_def by (induction env arbitrary: r) simp_all

lemma stream_read_sent [simp]: "rq_headers_sent (snd (stream_read sz r)) = rq_headers_sent r"
  by (simp add: stream_read_def Let_def split: option.split)

lemma read_segments_unsent: "\<not> rq_headers_sent r \<Longrightarrow> unsent (snd \<circ> snd) (read_segments cs body pos rsz r)"
proof (induction cs arbitrary: body pos rsz r)
  case (Cons c cs)
  obtain d r1 where d: "stream_read (of_nat (length c)) r = (d, r1)" by (cases "stream_read (of_nat (length c)) r")
  have "\<not> rq_headers_sent r1" using stream_read_sent [of "of_nat (length c)" r] Cons.prems by (simp add: d)
  then show ?case using Cons.IH by (auto simp: d intro!: unsent_at split: prod.split)
qed simp

lemma attach_body_unsent: "\<not> rq_headers_sent r \<Longrightarrow> unsent snd (attach_body cache r)"
  unfolding attach_body_def Let_def
  by (intro unsent_at) (auto intro!: unsent_at unsent_rbind [OF read_segments_unsent] split: prod.split)

lemma parsePart_unsent: "\<not> rq_headers_sent r \<Longrightarrow> unsent id (parsePart r part)"
  unfolding parsePart_def by (auto intro!: unsent_at split: prod.split)

lemma parseMultipart_loop_unsent:
  assumes "parseMultipart_loop r data boundary = Some x"
  shows "\<not> rq_headers_sent r \<longrightarrow> unsent id x"
proof (rule parseMultipart_loop.raw_induct [where P = "\<lambda>r data boundary x. \<not> rq_headers_sent r \<longrightarrow> unsent id x", OF _ assms], intro impI)
  fix loop r data boundary x
  assume ih: "\<And>r data boundary x. loop r data boundary = Some x \<Longrightarrow> \<not> rq_headers_sent r \<longrightarrow> unsent id x"
    and r: "\<not> rq_headers_sent r"
    and body: "(if db_empty data then Some (Inr r)
      else case db_split data boundary of Inl e \<Rightarrow> Some (Inl (e, r))
           | Inr (found, head, tail) \<Rightarrow>
               case if found \<and> \<not> db_empty head then strip_part head else Inr head of
               Inl e \<Rightarrow> Some (Inl (e, r))
               | Inr head \<Rightarrow>
                   case if \<not> db_empty head then parsePart r head else Inr r of
                   Inl e \<Rightarrow> Some (Inl e)
                   | Inr req \<Rightarrow>
                       case db_startsWith tail ''--'' of
                       Inl e \<Rightarrow> Some (Inl (e, req))
                       | Inr finished \<Rightarrow> if finished then Some (Inr req) else loop req tail boundary) = Some x"
  have part: "\<not> rq_headers_sent q" if "parsePart r h = Inr q" for h q
    using parsePart_unsent [OF r, of h] that by simp
  have fail: "\<not> rq_headers_sent (snd e)" if "parsePart r h = Inl e" for h e
    using parsePart_unsent [OF r, of h] that by (cases e) simp
  have step: "unsent id x" if "loop q t b = Some x" "\<not> rq_headers_sent q" for q t b
    using ih [OF that(1)] that(2) by blast
  show "unsent id x"
    using body r by (auto split: if_split_asm sum.split_asm prod.split_asm dest: part fail intro: step parsePart_unsent [OF r])
qed

lemma attach_unsent: "\<not> rq_headers_sent r \<Longrightarrow> unsent snd (attach cache stream env r)"
proof -
  assume r: "\<not> rq_headers_sent r"
  have multi: "unsent id (parseMultipart q data boundary)" if "\<not> rq_headers_sent q" for q :: "('a, 'b) request" and data boundary
    using parseMultipart_loop_unsent that by (auto simp: parseMultipart_def split: option.split)
  have args: "unsent id (attach_args q)" if "\<not> rq_headers_sent q" for q :: "('a, 'b) request"
    using that unfolding attach_args_def Let_def by (auto intro!: unsent_at multi)
  have store: "unsent snd (attach_store post q)" if "\<not> rq_headers_sent q" for q :: "('a, 'b) request" and post
    using that by (auto simp: attach_store_def Let_def at_state_def share_impl_def rbind_def split: sum.split prod.split)
  show ?thesis
    using r unfolding attach_def Let_def
    by (auto split: option.split prod.split intro!: unsent_rbind [OF attach_body_unsent] unsent_rbind [OF args] store)
qed

lemma fcgi_attach_unsent: "\<not> rq_headers_sent r \<Longrightarrow> unsent snd (fcgi_attach keep cache stream env r)"
  unfolding fcgi_attach_def by (intro unsent_rbind [where f = id]) (auto simp: setHeader_def attach_unsent)

section \<open>Every accepted request is queued or answered\<close>

definition answered_with :: "u16 set \<Rightarrow> ('s, 'u, 'h, 'f) served \<Rightarrow> bool" where
  "answered_with codes x \<longleftrightarrow> (\<exists>r. x = Answered r \<and> rq_headers_sent r \<and> rq_status r \<in> codes)"

lemma sendError_answered: "\<not> rq_headers_sent r \<Longrightarrow> status \<in> codes \<Longrightarrow> answered_with codes (answered (sendError status r))"
  by (rule sendError_page [of r status]) (auto simp: answered_with_def answered_def)

lemma enqueue_served:
  "\<not> rq_headers_sent (tk_request task) \<Longrightarrow> 503 \<in> codes \<Longrightarrow>
   (\<exists>p. enqueue now pools name task = Queued p) \<or> answered_with codes (enqueue now pools name task) \<or> enqueue now pools name task = NoPool"
  by (auto simp: enqueue_def split: option.split sum.split intro: sendError_answered)

lemma handleRequest_served:
  assumes "\<not> rq_headers_sent (tk_request task)"
  shows "(\<exists>p. handleRequest rx hs now pools task = Queued p) \<or> answered_with {404, 503} (handleRequest rx hs now pools task) \<or>
    handleRequest rx hs now pools task = NoPool \<or> (\<exists>e. handleRequest rx hs now pools task = Raised e (tk_request task))"
proof -
  let ?ok = "\<lambda>x. (\<exists>p. x = Queued p) \<or> answered_with {404, 503} x \<or> x = NoPool"
  have f: "?ok (handleRequestFilters now pools n filters task)" for n filters
    using enqueue_served [of "task\<lparr>tk_filters := filters, tk_handlers := []\<rparr>" "{404, 503}"] assms
    by (simp add: handleRequestFilters_def)
  have i: "?ok (handleRequestInternal now pools filters handler task)" for filters handler
    using enqueue_served [of "task\<lparr>tk_filters := filters, tk_handlers := hs\<rparr>" "{404, 503}" for hs] assms
    by (auto simp: handleRequestInternal_def split: option.split intro!: sendError_answered)
  show ?thesis using f i by (auto simp: handleRequest_def split: sum.splits)
qed



end
