(* ===== verification/ConfigFiles.thy ===== *)
theory ConfigFiles
  imports Configs "HOL-Library.Multiset"
begin

text \<open>
  Where a configuration comes from (\<^verbatim>\<open>Config::create\<close> and the constructors of \<^verbatim>\<open>XmlConfig\<close> in \<^verbatim>\<open>library/config.cpp\<close>, with the
  helpers of \<^verbatim>\<open>library/xml.cpp\<close>): the argument of the command line, the document and its variables.

  The nodes of libxml2 are a datatype. Parsing, inclusion and XPath are those of libxml2 and arguments of the model:
  a parsed document says whether it has a root element and whether its inclusions succeeded, and gives the nodes that an
  expression selects, or the message of \<^verbatim>\<open>xmlGetLastError\<close>.
\<close>

section \<open>Nodes\<close>

text \<open>A text node with its content, another node with its attributes and children; an attribute has its value as children.\<close>

datatype xml_node = TextNode "string option" | ElementNode "(string \<times> xml_node list) list" "xml_node list"

fun children :: "xml_node \<Rightarrow> xml_node list" where
  "children (TextNode _) = []"
| "children (ElementNode _ ns) = ns"

text \<open>\<^verbatim>\<open>XmlUtils::value\<close> of a node or of an attribute: the content of the first child when this is a text.\<close>

definition nodes_value :: "xml_node list \<Rightarrow> string option" where
  "nodes_value ns = (case ns of TextNode (Some s) # _ \<Rightarrow> Some s | _ \<Rightarrow> None)"

definition attrValue :: "xml_node \<Rightarrow> string \<Rightarrow> string option" where
  "attrValue node name =
     (case node of
        TextNode _ \<Rightarrow> None
      | ElementNode attrs _ \<Rightarrow> (case map_of attrs name of None \<Rightarrow> None | Some ns \<Rightarrow> nodes_value ns))"

definition throwUnless :: "string option \<Rightarrow> bool \<Rightarrow> unit result" where
  "throwUnless lastError v =
     (if v then Inr () else Inl (RuntimeError (case lastError of Some m \<Rightarrow> m | None \<Rightarrow> ''unknown xml error'')))"

section \<open>Documents\<close>

record parsed_xml =
  px_root :: bool
  px_xinclude :: int
  px_select :: "string \<Rightarrow> string option + xml_node list"
  px_lastError :: "string option"

text \<open>The values of the nodes that an expression selects, as the configuration uses them.\<close>

definition document_values :: "parsed_xml \<Rightarrow> xml_doc" where
  "document_values px key =
     (case px_select px key of
        Inl err \<Rightarrow> Inl (RuntimeError (case err of Some m \<Rightarrow> m | None \<Rightarrow> ''unknown xml error''))
      | Inr ns \<Rightarrow> Inr (map (\<lambda>n. nodes_value (children n)) ns))"

definition variable_nodes :: "parsed_xml \<Rightarrow> (string option \<times> string option) list result" where
  "variable_nodes px =
     (case px_select px ''/fastcgi/variables/variable'' of
        Inl err \<Rightarrow> Inl (RuntimeError (case err of Some m \<Rightarrow> m | None \<Rightarrow> ''unknown xml error''))
      | Inr ns \<Rightarrow> Inr (map (\<lambda>n. (attrValue n ''name'', nodes_value (children n))) ns))"

text \<open>The part that both constructors have.\<close>

definition xml_load :: "string option \<Rightarrow> parsed_xml option \<Rightarrow> xml_config result" where
  "xml_load parseError doc =
     (case doc of
        None \<Rightarrow> rbind (throwUnless parseError False) (\<lambda>_. Inl (RuntimeError []))
      | Some px \<Rightarrow>
          if \<not> px_root px then Inl (LogicError ''got empty config'')
          else
            rbind (throwUnless (px_lastError px) (px_xinclude px \<ge> 0)) (\<lambda>_.
            rbind (variable_nodes px) (\<lambda>vs. xml_config_new (document_values px) vs)))"

text \<open>\<open>can_open\<close> tells whether a stream on the file is good, \<open>parseFile\<close> is \<^verbatim>\<open>xmlParseFile\<close>.\<close>

definition xml_config_file :: "(string \<Rightarrow> bool) \<Rightarrow> (string \<Rightarrow> string option + parsed_xml) \<Rightarrow> string \<Rightarrow> xml_config result" where
  "xml_config_file can_open parseFile f =
     (if \<not> can_open f then Inl (RuntimeError (''can not open '' @ f))
      else case parseFile f of Inl err \<Rightarrow> xml_load err None | Inr px \<Rightarrow> xml_load None (Some px))"

section \<open>The command line\<close>

definition config_option :: "string \<Rightarrow> string option" where
  "config_option arg =
     (if take 8 arg = ''--config'' then
        (case dropWhile (\<lambda>c. c \<noteq> CHR ''='') arg of [] \<Rightarrow> None | _ # f \<Rightarrow> Some f)
      else None)"

text \<open>The first argument that names a file, and where it is.\<close>

fun find_config :: "nat \<Rightarrow> string list \<Rightarrow> (nat \<times> string) option" where
  "find_config i [] = None"
| "find_config i (arg # args) =
     (case config_option arg of Some f \<Rightarrow> Some (i, f) | None \<Rightarrow> find_config (i + 1) args)"

text \<open>The arguments that are left: the last one takes the place of the one that was used.\<close>

definition remove_arg :: "nat \<Rightarrow> string list \<Rightarrow> string list" where
  "remove_arg i args = take (length args - 1) (args[i := last args])"

definition config_create :: "(string \<Rightarrow> bool) \<Rightarrow> (string \<Rightarrow> string option + parsed_xml) \<Rightarrow> string option \<Rightarrow> string list \<Rightarrow>
    (xml_config \<times> string list) result" where
  "config_create can_open parseFile usage args =
     (case find_config 0 args of
        Some (i, f) \<Rightarrow> rbind (xml_config_file can_open parseFile f) (\<lambda>c. Inr (c, remove_arg i args))
      | None \<Rightarrow> Inl (LogicError (case usage of Some h \<Rightarrow> h | None \<Rightarrow> ''usage: fastcgi3-daemon --config=<config file>'')))"

section \<open>What is proved\<close>

lemma find_config_spec:
  "find_config i args = Some (j, f) \<Longrightarrow>
   i \<le> j \<and> j < i + length args \<and> config_option (args ! (j - i)) = Some f \<and> (\<forall>k < j - i. config_option (args ! k) = None)"
proof (induction args arbitrary: i)
  case (Cons a args)
  show ?case
  proof (cases "config_option a")
    case None
    then have "Suc i \<le> j \<and> j < Suc i + length args \<and> config_option (args ! (j - Suc i)) = Some f \<and>
        (\<forall>k < j - Suc i. config_option (args ! k) = None)"
      using Cons.IH [of "Suc i"] Cons.prems by simp
    then obtain d where "j = Suc (i + d)" "d < length args" "config_option (args ! d) = Some f" "\<forall>k < d. config_option (args ! k) = None"
      by (auto simp: le_iff_add)
    with None show ?thesis by (auto simp: less_Suc_eq_0_disj)
  next
    case (Some g)
    with Cons.prems show ?thesis by simp
  qed
qed simp

lemma find_config_none: "find_config i args = None \<longleftrightarrow> (\<forall>a \<in> set args. config_option a = None)"
  by (induction args arbitrary: i) (auto split: option.split)

lemma remove_arg_last: "remove_arg (length ys) (ys @ [x]) = ys"
  by (simp add: remove_arg_def)

lemma remove_arg_mset: "i < length args \<Longrightarrow> add_mset (args ! i) (mset (remove_arg i args)) = mset args"
proof (cases args rule: rev_cases)
  case (snoc ys y)
  assume i: "i < length args"
  show ?thesis
  proof (cases "i = length ys")
    case True
    then show ?thesis by (simp add: snoc remove_arg_last)
  next
    case False
    then have "i < length ys" using i snoc by simp
    then show ?thesis by (simp add: snoc remove_arg_def nth_append list_update_append mset_update)
  qed
qed simp

lemma config_create_spec:
  assumes "config_create can_open parseFile usage args = Inr (c, rest)"
  shows "\<exists>i f. i < length args \<and> config_option (args ! i) = Some f \<and> (\<forall>k < i. config_option (args ! k) = None) \<and>
    xml_config_file can_open parseFile f = Inr c \<and> rest = remove_arg i args"
  using assms find_config_spec [of 0 args]
  by (fastforce simp: config_create_def rbind_eq_Inr_conv split: option.splits)

text \<open>
  The command line names its configuration by the first argument of the form \<^verbatim>\<open>--config=\<close>; the program gets the
  configuration of that file and all the other arguments. Without such an argument the usage is reported.
\<close>

theorem config_from_command_line:
  "case config_create can_open parseFile usage args of
     Inr (c, rest) \<Rightarrow> \<exists>i f. i < length args \<and> config_option (args ! i) = Some f \<and> (\<forall>k < i. config_option (args ! k) = None) \<and>
       xml_config_file can_open parseFile f = Inr c \<and> add_mset (args ! i) (mset rest) = mset args
   | Inl e \<Rightarrow> if \<forall>a \<in> set args. config_option a = None
       then e = LogicError (case usage of Some h \<Rightarrow> h | None \<Rightarrow> ''usage: fastcgi3-daemon --config=<config file>'')
       else \<exists>a f. a \<in> set args \<and> config_option a = Some f \<and> xml_config_file can_open parseFile f = Inl e"
proof (cases "find_config 0 args")
  case None
  moreover from None have "\<forall>a \<in> set args. config_option a = None" by (simp add: find_config_none)
  ultimately show ?thesis by (simp add: config_create_def)
next
  case (Some x)
  obtain i f where x: "x = (i, f)" by (cases x)
  have s: "i < length args" "config_option (args ! i) = Some f" "\<forall>k < i. config_option (args ! k) = None"
    using find_config_spec [of 0 args i f] Some x by auto
  have n: "\<not> (\<forall>a \<in> set args. config_option a = None)" using s(1,2) nth_mem by fastforce
  show ?thesis
  proof (cases "xml_config_file can_open parseFile f")
    case (Inl e)
    then show ?thesis using n s(1,2) by (auto simp: config_create_def Some x intro: exI [of _ "args ! i"])
  next
    case (Inr c)
    then show ?thesis using s remove_arg_mset [OF s(1)] by (auto simp: config_create_def Some x)
  qed
qed

definition demo_xml :: parsed_xml where
  "demo_xml = \<lparr>px_root = True, px_xinclude = 0, px_select = (\<lambda>key. Inr []), px_lastError = None\<rparr>"

theorem config_from_command_line_witness:
  "\<exists>c rest. config_create (\<lambda>f. f = ''a.conf'') (\<lambda>f. Inr demo_xml) None [''-v'', ''--config=a.conf'', ''--daemon''] = Inr (c, rest) \<and>
     rest = [''-v'', ''--daemon''] \<and>
     (\<exists>f. xml_config_file (\<lambda>f. f = ''a.conf'') (\<lambda>f. Inr demo_xml) f = Inr c)"
proof -
  have "\<exists>c. config_create (\<lambda>f. f = ''a.conf'') (\<lambda>f. Inr demo_xml) None [''-v'', ''--config=a.conf'', ''--daemon''] =
      Inr (c, [''-v'', ''--daemon''])"
    by (simp add: config_create_def config_option_def xml_config_file_def xml_load_def demo_xml_def throwUnless_def
      variable_nodes_def xml_config_new_def remove_arg_def)
  then obtain c where c: "config_create (\<lambda>f. f = ''a.conf'') (\<lambda>f. Inr demo_xml) None [''-v'', ''--config=a.conf'', ''--daemon''] =
      Inr (c, [''-v'', ''--daemon''])" ..
  then show ?thesis
    using config_from_command_line [where can_open = "\<lambda>f. f = ''a.conf''" and parseFile = "\<lambda>f. Inr demo_xml" and usage = None
        and args = "[''-v'', ''--config=a.conf'', ''--daemon'']"]
    by auto
qed

end
