(* ===== verification/Daemons.thy ===== *)
theory Daemons
  imports Loaders FcgiServers Directories ConfigFiles
begin

text \<open>
  The program \<^verbatim>\<open>fastcgi3-daemon\<close> (\<^verbatim>\<open>main/main.cpp\<close>) and the parts of the server that talk to the operating system: the sockets of
  the endpoints, the monitor, the pid file, the errors of the connection.

  The results of the system calls are arguments. A process has its effective user and group, its directory and whether it
  became a daemon.
\<close>

section \<open>Sockets of endpoints\<close>

record socket_env =
  so_refused :: "string list \<Rightarrow> string \<Rightarrow> nat"
  so_writable :: "string list \<Rightarrow> string \<Rightarrow> bool"
  so_open :: "string \<Rightarrow> int \<Rightarrow> int"
  so_openError :: string
  so_chmod :: "string \<Rightarrow> nat"
  so_strerror :: "nat \<Rightarrow> string"

definition prepare_socket_dir :: "socket_env \<Rightarrow> string \<Rightarrow> string list \<Rightarrow> string list result" where
  "prepare_socket_dir env socket_path ds =
     (let path = pathToFile socket_path in
      case createDirectories (so_refused env) path ds of
        Inl errno \<Rightarrow> Inl (RuntimeError (so_strerror env errno))
      | Inr ds \<Rightarrow> if so_writable env ds path then Inr ds else Inl (RuntimeError ''Permission denied''))"

definition openSocket :: "socket_env \<Rightarrow> endpoint \<Rightarrow> int \<Rightarrow> string list \<Rightarrow> (int \<times> string list) result" where
  "openSocket env ep backlog ds =
     rbind (if ep_socket_path ep \<noteq> [] then prepare_socket_dir env (ep_socket_path ep) ds else Inr ds) (\<lambda>ds.
       let s = so_open env (c_str (endpoint_toString ep)) backlog in
       if -1 = s then Inl (RuntimeError (''can not open fastcgi socket: '' @ endpoint_toString ep @ ''['' @ so_openError env @ '']''))
       else if ep_socket_path ep \<noteq> [] \<and> 0 \<noteq> so_chmod env (c_str (ep_socket_path ep))
       then Inl (RuntimeError (so_strerror env (so_chmod env (c_str (ep_socket_path ep)))))
       else Inr (s, ds))"

section \<open>Errors of the connection\<close>

text \<open>The arguments of a request in the text of an error; \<^const>\<open>Inl\<close> is a list that was cut.\<close>

fun args_info :: "(string \<times> string) list \<Rightarrow> string \<Rightarrow> string + string" where
  "args_info [] res = Inr res"
| "args_info ((name, e) # args) res =
     (let res = (if res \<noteq> [] then res @ ''&'' else res) @ name @ ''=''
      in if length res + length e > 1024 then Inl res else args_info args (res @ e))"

definition generateRequestInfo :: "('s, 'u) request \<Rightarrow> string" where
  "generateRequestInfo r =
     ''Url: '' @ getUrl r @
     (if ''POST'' \<noteq> getRequestMethod r \<and> ''PUT'' \<noteq> getRequestMethod r then []
      else case args_info (concat (map (\<lambda>name. map (\<lambda>e. (name, e)) (getArgs r name)) (argNames r))) [] of
             Inl res \<Rightarrow> ''. Args: '' @ res @ ''...''
           | Inr res \<Rightarrow> ''. Args: '' @ res)"

text \<open>\<open>num\<close> is the result of \<^verbatim>\<open>FCGX_PutStr\<close>, \<open>error\<close> that of \<^verbatim>\<open>FCGX_GetError\<close>.\<close>

definition fcgi_write :: "(int \<Rightarrow> string) \<Rightarrow> int \<Rightarrow> int \<Rightarrow> ('s, 'u) request \<Rightarrow> int result" where
  "fcgi_write strerror num error r =
     (if -1 = num then
        Inl (RuntimeError
          ((if error > 0 then ''Cannot write data to fastcgi socket: '' @ strerror error @ ''. '' else ''FastCGI error. '') @
           generateRequestInfo r))
      else Inr num)"

section \<open>The monitor\<close>

record monitor_env =
  mo_socket :: int
  mo_setsockopt :: int
  mo_error :: string
  mo_bind :: "u16 \<Rightarrow> int"
  mo_listen :: int

text \<open>The result of \<^verbatim>\<open>listen\<close> is compared with 1.\<close>

definition initMonitorThread :: "monitor_env \<Rightarrow> int \<Rightarrow> unit result" where
  "initMonitorThread env port =
     (if -1 = mo_socket env then Inl (RuntimeError ''Cannot create monitor socket'')
      else if -1 = mo_setsockopt env then Inl (RuntimeError (''Cannot reuse monitor port: '' @ mo_error env))
      else if -1 = mo_bind env (word_of_int port) then Inl (RuntimeError ''Cannot bind monitor port address'')
      else if 1 = mo_listen env then Inl (RuntimeError ''Cannot listen monitor port'')
      else Inr ())"

text \<open>
  One pass of the loop of the monitor thread: the flag before and after \<^verbatim>\<open>accept\<close>, the results of \<^verbatim>\<open>accept\<close> and \<^verbatim>\<open>read\<close> and the
  bytes read; what the thread does, and whether it goes on.
\<close>

datatype monitor_effect = CloseSocket int | WriteInfo int | StopServer | LogError | ReportError

definition monitor_pass :: "bool \<Rightarrow> bool \<Rightarrow> int \<Rightarrow> int \<Rightarrow> string \<Rightarrow> bool \<Rightarrow> server_status \<Rightarrow> bool \<Rightarrow> monitor_effect list \<times> bool" where
  "monitor_pass stopped1 stopped2 s rlen buf has_logger status stopped3 =
     (if stopped1 then ([], False)
      else if stopped2 then ([], False)
      else if -1 = s then
        (if has_logger \<and> status = RUNNING then ([LogError], True)
         else if has_logger \<and> stopped3 then ([], True)
         else ([ReportError], True))
      else if rlen \<le> 0 then ([CloseSocket s], True)
      else
        ((case monitor_command buf of SendInfo \<Rightarrow> [WriteInfo s] | Stop \<Rightarrow> [StopServer] | Nothing \<Rightarrow> []) @ [CloseSocket s], True))"

text \<open>The thread that stops the server: the bytes that it reads from the pipe until it leaves its loop.\<close>

fun stop_thread_reads :: "(int \<times> char) list \<Rightarrow> (int \<times> char) list option" where
  "stop_thread_reads [] = None"
| "stop_thread_reads ((n, c) # rs) = (if 1 = n \<and> CHR ''s'' = c then Some rs else stop_thread_reads rs)"

section \<open>The process\<close>

record proc =
  pr_euid :: u32
  pr_egid :: u32
  pr_cwd :: string
  pr_daemon :: bool

record os_env =
  os_pw_buflen :: int
  os_getpwnam :: "string \<Rightarrow> int \<times> u32 option"
  os_gr_buflen :: int
  os_getgrnam :: "string \<Rightarrow> int \<times> u32 option"
  os_setegid :: "proc \<Rightarrow> u32 \<Rightarrow> bool"
  os_seteuid :: "proc \<Rightarrow> u32 \<Rightarrow> bool"
  os_rlimit :: "u64 option"
  os_fork1 :: int
  os_setsid :: int
  os_fork2 :: int
  os_fds :: "int \<times> int \<times> int"
  os_strerror :: string

definition name_to_uid :: "os_env \<Rightarrow> string \<Rightarrow> u32" where
  "name_to_uid os name =
     (if os_pw_buflen os = -1 then -1
      else case os_getpwnam os name of
             (r, Some pw) \<Rightarrow> if 0 \<noteq> r then -1 else pw
           | (r, None) \<Rightarrow> -1)"

definition name_to_gid :: "os_env \<Rightarrow> string \<Rightarrow> u32" where
  "name_to_gid os name =
     (if os_gr_buflen os = -1 then -1
      else case os_getgrnam os name of
             (r, Some gr) \<Rightarrow> if 0 \<noteq> r then -1 else gr
           | (r, None) \<Rightarrow> -1)"

text \<open>The value of the first option of a name that has an argument behind it.\<close>

fun option_value :: "string \<Rightarrow> string list \<Rightarrow> string option" where
  "option_value name [] = None"
| "option_value name [a] = None"
| "option_value name (a # b # args) = (if a = name then Some b else option_value name (b # args))"

datatype exit_code = EXIT_SUCCESS | EXIT_FAILURE | STD_TERMINATE

definition change_group :: "os_env \<Rightarrow> string list \<Rightarrow> proc \<Rightarrow> exit_code + proc" where
  "change_group os args p =
     (case option_value ''--group'' args of
        None \<Rightarrow> Inr p
      | Some name \<Rightarrow>
          let group = name_to_gid os name in
          if pr_egid p \<noteq> group then
            if os_setegid os p group then Inr (p\<lparr>pr_egid := group\<rparr>) else Inl EXIT_FAILURE
          else Inr p)"

definition change_user :: "os_env \<Rightarrow> string list \<Rightarrow> proc \<Rightarrow> exit_code + proc" where
  "change_user os args p =
     (case option_value ''--user'' args of
        None \<Rightarrow> Inr p
      | Some name \<Rightarrow>
          let user = name_to_uid os name in
          if pr_euid p \<noteq> user then
            if os_seteuid os p user then Inr (p\<lparr>pr_euid := user\<rparr>) else Inl EXIT_FAILURE
          else Inr p)"

text \<open>
  \<^verbatim>\<open>daemonize\<close>: an exception of the first steps leaves \<^verbatim>\<open>main\<close> with a failure, the parent and the session leader exit with
  zero, and the daemon goes on when its three descriptors are the standard ones. The second component is the list of the
  descriptors that were closed.
\<close>

definition closed_fds :: "u64 \<Rightarrow> nat list" where
  "closed_fds rlim_max = [0 ..< unat (if rlim_max = -1 then 1024 else rlim_max)]"

definition daemonize :: "os_env \<Rightarrow> proc \<Rightarrow> exit_code + proc \<times> nat list" where
  "daemonize os p =
     (case os_rlimit os of
        None \<Rightarrow> Inl EXIT_FAILURE
      | Some rlim_max \<Rightarrow>
          if -1 = os_fork1 os then Inl EXIT_FAILURE
          else if 0 \<noteq> os_fork1 os then Inl EXIT_SUCCESS
          else if -1 = os_setsid os then Inl EXIT_FAILURE
          else if -1 = os_fork2 os then Inl EXIT_FAILURE
          else if 0 \<noteq> os_fork2 os then Inl EXIT_SUCCESS
          else if os_fds os \<noteq> (0, 1, 2) then Inl EXIT_FAILURE
          else Inr (p\<lparr>pr_cwd := ''/'', pr_daemon := True\<rparr>, closed_fds rlim_max))"

definition main_prepare :: "os_env \<Rightarrow> string list \<Rightarrow> proc \<Rightarrow> exit_code + proc" where
  "main_prepare os args p =
     rbind (change_group os args p) (\<lambda>p.
     rbind (change_user os args p) (\<lambda>p.
       if ''--daemon'' \<in> set args then map_sum id fst (daemonize os p) else Inr p))"

text \<open>
  \<^verbatim>\<open>writePid\<close>: a file that cannot be opened sets the fail bit of the stream, the exceptions are those of the bad bit, so that
  only a write that breaks the stream is an error. The result is the content of the file when there is one.
\<close>

definition writePid :: "(string \<Rightarrow> bool) \<Rightarrow> (string \<Rightarrow> bool) \<Rightarrow> int \<Rightarrow> xml_config \<Rightarrow> (string \<times> string) option result" where
  "writePid can_write breaks pid cfg =
     rbind (cfg_asString cfg ''/fastcgi/daemon/pidfile'') (\<lambda>f.
       if \<not> can_write (c_str f) then Inr None
       else if breaks (c_str f) then Inl (RuntimeError ''ios_base::failure'')
       else Inr (Some (c_str f, show_int pid)))"

section \<open>The program\<close>

record boot_env =
  be_can_open :: "proc \<Rightarrow> string \<Rightarrow> bool"
  be_parse :: "proc \<Rightarrow> string \<Rightarrow> string option + parsed_xml"
  be_can_write :: "proc \<Rightarrow> string \<Rightarrow> bool"
  be_breaks :: "string \<Rightarrow> bool"
  be_pid :: int
  be_signals :: "int \<Rightarrow> bool"

definition SIGINT :: int where "SIGINT = 2"
definition SIGTERM :: int where "SIGTERM = 15"

definition setUpSignalHandlers :: "(int \<Rightarrow> bool) \<Rightarrow> unit result" where
  "setUpSignalHandlers installed =
     (if \<not> installed SIGINT then Inl (RuntimeError ''Cannot set up SIGINT handler'')
      else if \<not> installed SIGTERM then Inl (RuntimeError ''Cannot set up SIGTERM handler'')
      else Inr ())"

text \<open>
  The end of the server object on the way out of \<^verbatim>\<open>main\<close>: the accepting threads of \<^verbatim>\<open>globalPool_\<close> are neither joined nor detached, and
  the destructor of a thread object that can still be joined ends the program.
\<close>

definition server_destroy :: "'c fcgi_server \<Rightarrow> exit_code \<Rightarrow> exit_code" where
  "server_destroy sv code =
     (if sv_status sv = RUNNING \<and> list_ex (\<lambda>ep. ep_threads ep \<noteq> 0) (sv_endpoints sv) then STD_TERMINATE else code)"

text \<open>
  \<^verbatim>\<open>main\<close>: an exit, or the process, the configuration and the objects with which the server runs until it is joined. Every
  exception ends in a failure.
\<close>

definition daemon_main ::
    "os_env \<Rightarrow> boot_env \<Rightarrow> (string \<Rightarrow> string + 'h) \<Rightarrow> ('h \<Rightarrow> string + (string \<times> (string \<Rightarrow> 'c result)) list option) \<Rightarrow> ('c \<Rightarrow> 'c onload) \<Rightarrow>
     ('c \<Rightarrow> ('k, 'f) component) \<Rightarrow> ('c \<Rightarrow> 'l option) \<Rightarrow> (('c, 's, 'u, 'k, 'f, 'l) globals \<Rightarrow> 'c server_env) \<Rightarrow> string list \<Rightarrow> proc \<Rightarrow>
     exit_code + proc \<times> xml_config \<times> ('h, string \<Rightarrow> 'c result) loader \<times> ('c, 's, 'u, 'k, 'f, 'l) globals \<times> 'c fcgi_server" where
  "daemon_main os be dlopen entry onLoad as_component as_logger senv args p =
     rbind (main_prepare os args p) (\<lambda>p.
     rbind (map_sum (\<lambda>_. EXIT_FAILURE) id
         (rbind (config_create (be_can_open be p) (be_parse be p) None args) (\<lambda>(cfg, rest).
          rbind (writePid (be_can_write be p) (be_breaks be) (be_pid be) cfg) (\<lambda>_.
          rbind (globals_create dlopen entry cfg onLoad as_component as_logger) (\<lambda>(L, g).
          rbind (setUpSignalHandlers (be_signals be)) (\<lambda>_. Inr (cfg, L, g))))))) (\<lambda>(cfg, L, g).
     rbind (map_sum (\<lambda>(_, sv). server_destroy sv EXIT_FAILURE) id (server_start cfg (senv g) fcgi_server_new)) (\<lambda>sv.
     rbind (map_sum (\<lambda>_. server_destroy sv EXIT_FAILURE) id (server_join sv)) (\<lambda>_. Inr (p, cfg, L, g, sv)))))"

section \<open>What is proved of the program\<close>

text \<open>The documented behaviour of \<^verbatim>\<open>setegid\<close> and \<^verbatim>\<open>seteuid\<close> for a process whose other identifiers are those of the superuser.\<close>

definition root_may_change :: "os_env \<Rightarrow> bool" where
  "root_may_change os \<longleftrightarrow>
     (\<forall>p i. os_setegid os p i \<longleftrightarrow> pr_euid p = 0 \<and> i \<noteq> -1) \<and> (\<forall>p i. os_seteuid os p i \<longleftrightarrow> pr_euid p = 0 \<and> i \<noteq> -1)"


definition demo_os :: os_env where
  "demo_os = \<lparr>os_pw_buflen = 1024, os_getpwnam = (\<lambda>n. (0, if n = ''www'' then Some 33 else None)), os_gr_buflen = 1024,
     os_getgrnam = (\<lambda>n. (0, if n = ''www'' then Some 33 else None)), os_setegid = (\<lambda>p i. pr_euid p = 0 \<and> i \<noteq> -1),
     os_seteuid = (\<lambda>p i. pr_euid p = 0 \<and> i \<noteq> -1), os_rlimit = Some 1024, os_fork1 = 0, os_setsid = 7, os_fork2 = 0,
     os_fds = (0, 1, 2), os_strerror = []\<rparr>"

definition demo_proc :: proc where
  "demo_proc = \<lparr>pr_euid = 0, pr_egid = 0, pr_cwd = ''/srv'', pr_daemon = False\<rparr>"


text \<open>A daemon has left its directory before its configuration is opened.\<close>

lemma daemon_leaves_directory:
  "''--daemon'' \<in> set args \<Longrightarrow> main_prepare os args p = Inr p' \<Longrightarrow> pr_cwd p' = ''/'' \<and> pr_daemon p'"
  by (auto simp: main_prepare_def rbind_eq_Inr_conv daemonize_def map_sum_def split: option.splits if_splits sum.splits)

text \<open>A \<^verbatim>\<open>listen\<close> that fails is not noticed.\<close>

lemma listen_failure_unnoticed:
  "mo_socket env \<noteq> -1 \<Longrightarrow> mo_setsockopt env \<noteq> -1 \<Longrightarrow> mo_bind env (word_of_int port) \<noteq> -1 \<Longrightarrow> mo_listen env = -1 \<Longrightarrow>
   initMonitorThread env port = Inr ()"
  by (simp add: initMonitorThread_def)

lemma pid_file_failure_unnoticed:
  "cfg_asString cfg ''/fastcgi/daemon/pidfile'' = Inr f \<Longrightarrow> \<not> can_write (c_str f) \<Longrightarrow> writePid can_write breaks pid cfg = Inr None"
  by (simp add: writePid_def)

text \<open>Every accepted connection of the monitor is closed, and the thread goes on until the server is stopped.\<close>

lemma monitor_closes:
  "\<not> stopped1 \<Longrightarrow> \<not> stopped2 \<Longrightarrow> snd (monitor_pass stopped1 stopped2 s rlen buf l st stopped3) \<and>
   (s \<noteq> -1 \<longrightarrow> last (fst (monitor_pass stopped1 stopped2 s rlen buf l st stopped3)) = CloseSocket s)"
  by (simp add: monitor_pass_def)

text \<open>The arguments in the text of an error are bounded, apart from the name at which they are cut.\<close>

lemma args_info_bound: "args_info args res = Inr res' \<Longrightarrow> length res \<le> 1024 \<Longrightarrow> length res' \<le> 1024"
  by (induction args res rule: args_info.induct) (auto simp: Let_def split: if_splits)

section \<open>The whole start\<close>

lemma map_sum_Inr: "map_sum f g x = Inr y \<longleftrightarrow> (\<exists>z. x = Inr z \<and> y = g z)"
  by (cases x) auto

lemma server_start_running:
  "server_start cfg env sv = Inr sv' \<Longrightarrow> sv_status sv' = RUNNING \<and> sv_endpoints sv' \<noteq> []"
  by (auto simp: server_start_def Let_def rbind_eq_Inr_conv at_state_Inr initFastCGISubsystem_def split: if_splits)

lemma globals_create_parts:
  assumes "globals_create dlopen entry cfg onLoad as_component as_logger = Inr (L, g)"
  obtains pools where "loader_init dlopen entry cfg loader_new = Inr L"
    "component_set_init cfg (findComponentFactory L) onLoad component_set_new = Inr (gl_components g)"
    "initPools cfg (gl_handlers g) = Inr pools" "gl_pools g = startThreadPools pools"
  using assms that by (auto simp: globals_create_def globals_new_def rbind_eq_Inr_conv split: sum.splits)

lemma components_all_loaded:
  assumes "component_set_init cfg loader onLoad component_set_new = Inr cs"
  shows "set (cs_loadingStack cs) = dom (component_of cs) \<and> in_order (component_of cs) onLoad (cs_loadingStack cs)"
proof -
  obtain s0 where s0: "fresh_set s0" "sendOnLoadToComponents onLoad s0 = Inr cs"
    using component_set_init_loaded [OF assms] .
  have "dom (component_of s0) = set (map fst (cs_components s0))"
    using s0(1) by (intro component_names) (simp add: fresh_set_def)
  then show ?thesis
    using components_load_in_order' [OF s0(1), of onLoad] loading_keeps_components [OF s0] s0(2) by simp
qed


text \<open>A site with one module, a logger, one pool and one endpoint.\<close>

definition site_entries :: "(string \<times> string list) list" where
  "site_entries =
     [(''/fastcgi/daemon/pidfile'', [''/run/site.pid'']),
      (''/fastcgi/modules/module'', [[]]),
      (''/fastcgi/modules/module[1]/@name'', [''m'']),
      (''/fastcgi/modules/module[1]/@path'', [''m.so'']),
      (''/fastcgi/components/component'', [[]]),
      (''/fastcgi/components/component[1]/@name'', [''log'']),
      (''/fastcgi/components/component[1]/@type'', [''m:logger'']),
      (''/fastcgi/pools/@default'', [''p'']),
      (''/fastcgi/pools/pool'', [[]]),
      (''/fastcgi/pools/pool[1]/@name'', [''p'']),
      (''/fastcgi/pools/pool[1]/@threads'', [''4'']),
      (''/fastcgi/pools/pool[1]/@queue'', [''10'']),
      (''/fastcgi/daemon[count(logger)=1]/logger/@component'', [''log'']),
      (''/fastcgi/daemon/monitor_port'', [''10999'']),
      (''/fastcgi/daemon/endpoint'', [[]]),
      (''/fastcgi/daemon/endpoint[1]/port'', [''9000''])]"

definition site_values :: "string \<Rightarrow> string list" where
  "site_values key = (case map_of site_entries key of Some vs \<Rightarrow> vs | None \<Rightarrow> [])"

definition site_xml :: parsed_xml where
  "site_xml = \<lparr>px_root = True, px_xinclude = 0,
     px_select = (\<lambda>key. Inr (map (\<lambda>v. ElementNode [] [TextNode (Some v)]) (site_values key))), px_lastError = None\<rparr>"

definition site_cfg :: xml_config where
  "site_cfg = \<lparr>xc_doc = document_values site_xml, xc_vars = []\<rparr>"

lemma site_doc: "xc_doc site_cfg key = Inr (map Some (site_values key))"
  by (simp add: site_cfg_def document_values_def site_xml_def nodes_value_def comp_def)

lemma site_string: "site_values key = v # vs \<Longrightarrow> CHR ''$'' \<notin> set v \<Longrightarrow> cfg_asString site_cfg key = Inr v"
  by (simp add: cfg_asString_def site_doc resolve_plain)

lemma site_missing: "site_values key = [] \<Longrightarrow> cfg_asString site_cfg key = Inl (RuntimeError (''nonexistent config param: '' @ key))"
  by (simp add: cfg_asString_def site_doc)

lemma site_default: "site_values key = [] \<Longrightarrow> cfg_asString_default site_cfg key d = Inr d" "site_values key = [] \<Longrightarrow> cfg_asInt_default site_cfg key n = Inr n"
  by (simp_all add: cfg_asString_default_def cfg_asInt_default_def cfg_asInt_def site_missing)

lemma site_default_string: "site_values key = v # vs \<Longrightarrow> CHR ''$'' \<notin> set v \<Longrightarrow> cfg_asString_default site_cfg key d = Inr v"
  by (simp add: cfg_asString_default_def site_string)

lemma site_no_keys: "site_values key = [] \<Longrightarrow> cfg_subKeys site_cfg key = Inr []"
  by (simp add: cfg_subKeys_def site_doc)

lemma site_one_key: "site_values key = [v] \<Longrightarrow> cfg_subKeys site_cfg key = Inr [key @ ''[1]'']"
  by (simp add: cfg_subKeys_def site_doc show_nat.simps char_of_def bit_0)

lemma site_numbers: "atoi ''4'' = 4" "atoi ''10'' = 10" "atoi ''10999'' = 10999"
  by code_simp+

lemmas site_read = site_string site_default site_default_string site_no_keys site_one_key site_numbers cfg_asInt_def

lemma site_values_all:
  "site_values ''/fastcgi/daemon/pidfile'' = [''/run/site.pid'']"
  "site_values ''/fastcgi/modules/module'' = [[]]"
  "site_values ''/fastcgi/modules/module[1]/@name'' = [''m'']"
  "site_values ''/fastcgi/modules/module[1]/@path'' = [''m.so'']"
  "site_values ''/fastcgi/components/component'' = [[]]"
  "site_values ''/fastcgi/components/component[1]/@name'' = [''log'']"
  "site_values ''/fastcgi/components/component[1]/@type'' = [''m:logger'']"
  "site_values ''/fastcgi/pools/@default'' = [''p'']"
  "site_values ''/fastcgi/pools/pool'' = [[]]"
  "site_values ''/fastcgi/pools/pool[1]/@name'' = [''p'']"
  "site_values ''/fastcgi/pools/pool[1]/@threads'' = [''4'']"
  "site_values ''/fastcgi/pools/pool[1]/@queue'' = [''10'']"
  "site_values ''/fastcgi/daemon[count(logger)=1]/logger/@component'' = [''log'']"
  "site_values ''/fastcgi/daemon/monitor_port'' = [''10999'']"
  "site_values ''/fastcgi/daemon/endpoint'' = [[]]"
  "site_values ''/fastcgi/daemon/endpoint[1]/port'' = [''9000'']"
  by (simp_all add: site_values_def site_entries_def)

lemma site_values_none:
  "site_values ''/fastcgi/pools/pool[1]/@max-delay'' = []"
  "site_values ''/fastcgi/handlers/@urlPrefix'' = []"
  "site_values ''/fastcgi/handlers/handler[count(@url)=1]'' = []"
  "site_values ''/fastcgi/handlers/handler[not(@url)]'' = []"
  "site_values ''/fastcgi/handlers/filter'' = []"
  "site_values ''/fastcgi/daemon/log-times'' = []"
  "site_values ''/fastcgi/daemon[count(request-cache)=1]/request-cache/@component'' = []"
  "site_values ''/fastcgi/daemon[count(statistics)=1]/statistics/@component'' = []"
  "site_values (''/fastcgi[count(session)=1]/session[@attach='' @ [CHR 0x22] @ ''1'' @ [CHR 0x22] @ '' or @attach='' @ [CHR 0x22] @ ''true'' @ [CHR 0x22] @ '']/@component'') = []"
  "site_values ''/fastcgi/daemon/endpoint[1]/socket'' = []"
  "site_values ''/fastcgi/daemon/endpoint[1]/@keepConnection'' = []"
  "site_values ''/fastcgi/daemon/endpoint[1]/@keepalive'' = []"
  "site_values ''/fastcgi/daemon/endpoint[1]/threads'' = []"
  "site_values ''/fastcgi/daemon/endpoint[1]/backlog'' = []"
  "site_values ''/fastcgi/variables/variable'' = []"
  by (simp_all add: site_values_def site_entries_def)

lemmas site_facts = site_values_all site_values_none

definition site_boot :: boot_env where
  "site_boot = \<lparr>be_can_open = (\<lambda>p f. f = ''site.conf''), be_parse = (\<lambda>p f. Inr site_xml), be_can_write = (\<lambda>p f. True),
     be_breaks = (\<lambda>f. False), be_pid = 4711, be_signals = (\<lambda>_. True)\<rparr>"

definition site_components :: "nat component_set" where
  "site_components = \<lparr>cs_components = [(''log'', \<lparr>cc_component = 7, cc_isLoadingStarted = True\<rparr>)], cs_loadingStack = [''log'']\<rparr>"

definition site_globals :: "(nat, unit, unit, string, string, nat) globals" where
  "site_globals = \<lparr>gl_components = site_components, gl_handlers = handler_set_new\<lparr>hs_defaultPoolName := ''p''\<rparr>, gl_logger = 7,
     gl_pools = startThreadPools [(''p'', 0, pool_new 4 10)]\<rparr>"

definition site_env :: "(nat, unit, unit, string, string, nat) globals \<Rightarrow> nat server_env" where
  "site_env g = \<lparr>se_find = component_of (gl_components g), se_is_cache = (\<lambda>_. False), se_is_statistics = (\<lambda>_. False),
     se_is_manager = (\<lambda>_. False), se_monitor = (\<lambda>_. Inr ()), se_fcgx_init = 0, se_openSocket = (\<lambda>_ _. Inr ()), se_pipe = 0\<rparr>"

definition site_as_component :: "nat \<Rightarrow> (string, string) component" where
  "site_as_component c = \<lparr>cp_handler = None, cp_filter = None\<rparr>"

lemma site_loader: "loader_init demo_dlopen demo_entry site_cfg loader_new = Inr demo_loader"
  by (simp add: loader_init_def site_read site_facts loader_load_def demo_dlopen_def demo_entry_def loader_new_def demo_loader_def c_str_def)

lemma site_component_set:
  "component_set_init site_cfg (findComponentFactory demo_loader) (\<lambda>_. LoadDone) component_set_new = Inr site_components"
  by (simp add: component_set_init_def site_read site_facts cs_add_def findComponentFactory_def demo_loader_def component_set_new_def
    string_order.irrefl sendOnLoadToComponents_def sendOnLoad_def sendOnLoad_with_def isComponentLoaded_def site_components_def)

lemma site_handler_set: "handler_set_init site_cfg lookup handler_set_new = Inr (handler_set_new\<lparr>hs_defaultPoolName := ''p''\<rparr>)"
  by (simp add: handler_set_init_def site_read site_facts)

lemma site_pools: "initPools site_cfg (handler_set_new\<lparr>hs_defaultPoolName := ''p''\<rparr>) = Inr [(''p'', 0, pool_new 4 10)]"
proof -
  have n: "pools_needed (handler_set_new\<lparr>hs_defaultPoolName := ''p''\<rparr>) = [''p'']" by (simp add: pools_needed_def handler_set_new_def)
  show ?thesis by (simp add: initPools_def n site_read site_facts string_order.irrefl)
qed

lemma site_logger: "initLogger site_cfg (component_of site_components) Some = Inr 7"
  by (simp add: initLogger_def site_read site_facts component_of_def site_components_def string_order.irrefl)

lemma site_globals_create:
  "globals_create demo_dlopen demo_entry site_cfg (\<lambda>_. LoadDone) site_as_component Some = Inr (demo_loader, site_globals)"
  by (simp add: globals_create_def globals_new_def site_loader site_component_set site_handler_set site_logger site_pools site_globals_def)

lemma site_find_empty: "component_of site_components [] = None"
  by (simp add: component_of_def site_components_def string_lt_def)

lemma site_manager: "initSessionManager site_cfg (site_env site_globals) = Inr None"
  unfolding initSessionManager_def init_component_def site_default(1) [OF site_values_none(9)]
  by (simp add: site_env_def site_globals_def site_find_empty)

lemma site_server:
  "\<exists>sv. server_start site_cfg (site_env site_globals) fcgi_server_new = Inr sv"
  by (simp add: server_start_def fcgi_server_new_def site_read site_facts init_component_def initRequestCache_def
    initTimeStatistics_def site_manager initFastCGISubsystem_def init_endpoint_def endpoint_new_def)
    (simp add: site_env_def site_globals_def site_find_empty)

lemma site_config: "\<exists>rest. config_create (be_can_open site_boot q) (be_parse site_boot q) None [''--user'', ''www'', ''--group'', ''www'', ''--config=site.conf''] = Inr (site_cfg, rest)"
  by (simp add: config_create_def config_option_def xml_config_file_def xml_load_def site_boot_def site_xml_def throwUnless_def
    variable_nodes_def xml_config_new_def site_cfg_def site_facts)

lemma site_main:
  "\<exists>sv. daemon_main demo_os site_boot demo_dlopen demo_entry (\<lambda>_. LoadDone) site_as_component Some site_env
     [''--user'', ''www'', ''--group'', ''www'', ''--config=site.conf''] demo_proc =
     Inr (demo_proc\<lparr>pr_egid := 33, pr_euid := 33\<rparr>, site_cfg, demo_loader, site_globals, sv)"
proof -
  let ?args = "[''--user'', ''www'', ''--group'', ''www'', ''--config=site.conf'']" and ?p = "demo_proc\<lparr>pr_egid := 33, pr_euid := 33\<rparr>"
  have m: "main_prepare demo_os ?args demo_proc = Inr ?p"
    by (simp add: main_prepare_def change_group_def change_user_def demo_os_def demo_proc_def name_to_gid_def name_to_uid_def)
  obtain rest where c: "config_create (be_can_open site_boot ?p) (be_parse site_boot ?p) None ?args = Inr (site_cfg, rest)"
    using site_config by blast
  obtain sv where sv: "server_start site_cfg (site_env site_globals) fcgi_server_new = Inr sv" using site_server by blast
  have j: "server_join sv = Inr ()" using server_start_running [OF sv] by (simp add: server_join_def)
  have w: "writePid (be_can_write site_boot ?p) (be_breaks site_boot) (be_pid site_boot) site_cfg = Inr (Some (''/run/site.pid'', show_int 4711))"
    by (simp add: writePid_def site_boot_def site_read site_facts c_str_def)
  have sg: "setUpSignalHandlers (be_signals site_boot) = Inr ()" by (simp add: setUpSignalHandlers_def site_boot_def)
  show ?thesis unfolding daemon_main_def m rbind_Inr c split_conv w site_globals_create sg by (simp add: sv j)
qed


end
