(* ===== verification/Shutdowns.thy ===== *)
theory Shutdowns
  imports Daemons
begin

text \<open>
  The end of the program (\<^verbatim>\<open>main/main.cpp\<close>, \<^verbatim>\<open>main/fcgi_server.cpp\<close>): a signal writes to a pipe, a thread reads it and stops the server and
  the pools, the workers and the accepting threads come to their ends, and \<^verbatim>\<open>FCGIServer::join\<close> returns to \<^verbatim>\<open>main\<close>. The threads of the
  program take their steps in any order. An accepting thread holds a copy of \<^verbatim>\<open>active_thread_holder_\<close> while it works on the server;
  it gives the copy back before it waits in \<^verbatim>\<open>accept\<close>.
\<close>

section \<open>The program while it serves\<close>

text \<open>
  The places of \<^verbatim>\<open>FCGIServer::handle\<close>: before the test of the stop flag, between the test and the copy of the holder, with the copy
  while the request object is made, in \<^verbatim>\<open>accept\<close>, after it, between the second test and the copy, serving a request, and at the end.
\<close>

datatype accept_thread = LoopTop | Tested | Holding | InAccept | AcceptReturned | Retested | InService | ThreadEnded

datatype main_state = JoiningPools | WaitingThreads | MainReturned exit_code

record ('c, 's, 'u, 'h, 'f) program =
  pg_server :: "'c fcgi_server"
  pg_pools :: "('s, 'u, 'h, 'f) pool_map"
  pg_threads :: "accept_thread list"
  pg_pipe :: string
  pg_reading :: bool
  pg_main :: main_state

definition program_start :: "'c fcgi_server \<Rightarrow> ('s, 'u, 'h, 'f) pool_map \<Rightarrow> ('c, 's, 'u, 'h, 'f) program" where
  "program_start sv pools =
     \<lparr>pg_server = sv, pg_pools = pools,
      pg_threads = concat (map (\<lambda>ep. replicate (unat (ep_threads ep)) LoopTop) (sv_endpoints sv)),
      pg_pipe = [], pg_reading = True, pg_main = JoiningPools\<rparr>"

definition server_stop :: "('c, 's, 'u, 'h, 'f) program \<Rightarrow> ('c, 's, 'u, 'h, 'f) program" where
  "server_stop pg = pg\<lparr>pg_pipe := pg_pipe pg @ ''s''\<rparr>"

text \<open>The pointer to the server is set before the handlers of the signals are.\<close>

definition signalHandler :: "int \<Rightarrow> ('c, 's, 'u, 'h, 'f) program \<Rightarrow> ('c, 's, 'u, 'h, 'f) program" where
  "signalHandler signo pg = (if SIGINT = signo \<or> SIGTERM = signo then server_stop pg else pg)"

text \<open>One round of \<^verbatim>\<open>stopThreadFunction\<close>; an exception that leaves the function of a thread ends the program.\<close>

definition stopThreadFunction :: "('c, 's, 'u, 'h, 'f) program \<Rightarrow> ('c, 's, 'u, 'h, 'f) program" where
  "stopThreadFunction pg =
     (case pg_pipe pg of
        [] \<Rightarrow> pg
      | c # rest \<Rightarrow>
          let pg = pg\<lparr>pg_pipe := rest\<rparr> in
          if CHR ''s'' = c then
            (case stopInternal (pg_server pg) (pg_pools pg) of
               Inl e \<Rightarrow> pg\<lparr>pg_main := MainReturned STD_TERMINATE, pg_reading := False\<rparr>
             | Inr (sv, pools) \<Rightarrow> pg\<lparr>pg_server := sv, pg_pools := pools, pg_reading := False\<rparr>)
          else pg)"

text \<open>The steps of an accepting thread but the return of \<^verbatim>\<open>accept\<close>; an exception of the loop leads back to its start.\<close>

inductive thread_next :: "bool \<Rightarrow> accept_thread \<Rightarrow> accept_thread \<Rightarrow> bool" for stopped where
  "stopped \<Longrightarrow> thread_next stopped LoopTop ThreadEnded"
| "\<not> stopped \<Longrightarrow> thread_next stopped LoopTop Tested"
| "thread_next stopped Tested Holding"
| "thread_next stopped Holding InAccept"
| "thread_next stopped Holding LoopTop"
| "stopped \<Longrightarrow> thread_next stopped AcceptReturned ThreadEnded"
| "\<not> stopped \<Longrightarrow> thread_next stopped AcceptReturned Retested"
| "thread_next stopped Retested InService"
| "thread_next stopped Retested LoopTop"
| "thread_next stopped InService LoopTop"

text \<open>A task is put into the queue of some pool, or rejected.\<close>

inductive queue_task :: "('s, 'u, 'h, 'f) pool_map \<Rightarrow> ('s, 'u, 'h, 'f) pool_map \<Rightarrow> bool" where
  queued: "m < length pools \<Longrightarrow> pools ! m = (name, delay, p) \<Longrightarrow> pool_addTask task p = Inr p' \<Longrightarrow> notify_one (tp_workers p') ws \<Longrightarrow>
    queue_task pools (pools[m := (name, delay, p'\<lparr>tp_workers := ws\<rparr>)])"
| rejected: "m < length pools \<Longrightarrow> pools ! m = (name, delay, p) \<Longrightarrow> pool_addTask task p = Inl e \<Longrightarrow> notify_one (tp_workers p) ws \<Longrightarrow>
    queue_task pools (pools[m := (name, delay, p\<lparr>tp_workers := ws\<rparr>)])"

definition joined :: "('s, 'u, 'h, 'f) pool_map \<Rightarrow> bool" where
  "joined pools \<longleftrightarrow> list_all (\<lambda>(name, delay, p). set (tp_workers p) \<subseteq> {Exited}) pools"

definition holder_unique :: "accept_thread list \<Rightarrow> bool" where
  "holder_unique ts \<longleftrightarrow> Holding \<notin> set ts \<and> InService \<notin> set ts"

definition thread_moves :: "nat \<Rightarrow> accept_thread \<Rightarrow> ('c, 's, 'u, 'h, 'f) program \<Rightarrow> ('c, 's, 'u, 'h, 'f) program" where
  "thread_moves i t pg = pg\<lparr>pg_threads := (pg_threads pg)[i := t]\<rparr>"

text \<open>
  The steps of the program until \<^verbatim>\<open>main\<close> returns. A thread that serves a request queues it, as does a worker whose handler dispatches
  its request.
\<close>

inductive program_step :: "('c, 's, 'u, 'h, 'f) program \<Rightarrow> ('c, 's, 'u, 'h, 'f) program \<Rightarrow> bool" where
  read: "pg_main pg \<notin> range MainReturned \<Longrightarrow> pg_reading pg \<Longrightarrow> pg_pipe pg \<noteq> [] \<Longrightarrow> program_step pg (stopThreadFunction pg)"
| thread: "pg_main pg \<notin> range MainReturned \<Longrightarrow> i < length (pg_threads pg) \<Longrightarrow>
    thread_next (sv_stopped (pg_server pg)) (pg_threads pg ! i) t \<Longrightarrow> program_step pg (thread_moves i t pg)"
| serve: "pg_main pg \<notin> range MainReturned \<Longrightarrow> i < length (pg_threads pg) \<Longrightarrow> pg_threads pg ! i = InService \<Longrightarrow>
    queue_task (pg_pools pg) pools \<Longrightarrow> program_step pg (thread_moves i LoopTop pg\<lparr>pg_pools := pools\<rparr>)"
| work: "pg_main pg \<notin> range MainReturned \<Longrightarrow> k < length (pg_pools pg) \<Longrightarrow> pg_pools pg ! k = (name, delay, p) \<Longrightarrow> worker_step p p' \<Longrightarrow>
    program_step pg (pg\<lparr>pg_pools := (pg_pools pg)[k := (name, delay, p')]\<rparr>)"
| dispatch: "pg_main pg \<notin> range MainReturned \<Longrightarrow> k < length (pg_pools pg) \<Longrightarrow> pg_pools pg ! k = (name, delay, p) \<Longrightarrow> worker_step p p' \<Longrightarrow>
    queue_task ((pg_pools pg)[k := (name, delay, p')]) pools \<Longrightarrow> program_step pg (pg\<lparr>pg_pools := pools\<rparr>)"
| pools_joined: "pg_main pg = JoiningPools \<Longrightarrow> joined (pg_pools pg) \<Longrightarrow> program_step pg (pg\<lparr>pg_main := WaitingThreads\<rparr>)"
| threads_gone: "pg_main pg = WaitingThreads \<Longrightarrow> holder_unique (pg_threads pg) \<Longrightarrow>
    program_step pg (pg\<lparr>pg_main := MainReturned (server_destroy (pg_server pg) EXIT_SUCCESS)\<rparr>)"

inductive accept_returns :: "('c, 's, 'u, 'h, 'f) program \<Rightarrow> ('c, 's, 'u, 'h, 'f) program \<Rightarrow> bool" where
  "pg_main pg \<notin> range MainReturned \<Longrightarrow> i < length (pg_threads pg) \<Longrightarrow> pg_threads pg ! i = InAccept \<Longrightarrow>
    accept_returns pg (thread_moves i AcceptReturned pg)"

inductive program_reachable :: "'c fcgi_server \<Rightarrow> ('s, 'u, 'h, 'f) pool_map \<Rightarrow> ('c, 's, 'u, 'h, 'f) program \<Rightarrow> bool" for sv pools where
  started: "program_reachable sv pools (program_start sv pools)"
| stepped: "program_reachable sv pools pg \<Longrightarrow> program_step pg pg' \<Longrightarrow> program_reachable sv pools pg'"
| accepted: "program_reachable sv pools pg \<Longrightarrow> accept_returns pg pg' \<Longrightarrow> program_reachable sv pools pg'"
| signalled: "program_reachable sv pools pg \<Longrightarrow> program_reachable sv pools (signalHandler signo pg)"

inductive_cases queue_taskE: "queue_task pools pools'"
inductive_cases thread_nextE: "thread_next stopped t t'"

section \<open>The invariant\<close>

definition pools_ok :: "bool \<Rightarrow> ('s, 'u, 'h, 'f) pool_map \<Rightarrow> bool" where
  "pools_ok stopped pools \<longleftrightarrow> (\<forall>(name, delay, p) \<in> set pools. pool_inv p \<and> (stopped \<longrightarrow> \<not> pi_started (tp_info p)))"

lemma pools_ok_nth: "pools_ok st pools \<Longrightarrow> k < length pools \<Longrightarrow> pools ! k = (name, delay, p) \<Longrightarrow>
    pool_inv p \<and> (st \<longrightarrow> \<not> pi_started (tp_info p))"
  unfolding pools_ok_def by (drule (1) bspec [OF _ nth_mem]) simp

lemma pools_ok_update: "pools_ok st pools \<Longrightarrow> pool_inv p \<Longrightarrow> (st \<Longrightarrow> \<not> pi_started (tp_info p)) \<Longrightarrow>
    pools_ok st (pools[k := (name, delay, p)])"
  unfolding pools_ok_def using set_update_subset_insert [of pools k "(name, delay, p)"] by blast

lemma no_waiting: "pool_inv p \<Longrightarrow> \<not> pi_started (tp_info p) \<Longrightarrow> Waiting \<notin> set (tp_workers p)"
  by (simp add: pool_inv_def pool_awake_def)

lemma notify_none: "notify_one ws ws' \<Longrightarrow> Waiting \<notin> set ws \<Longrightarrow> ws' = ws"
  by (erule notify_oneE) (auto dest: nth_mem)

text \<open>In stopped pools nothing is queued.\<close>

lemma queue_task_stopped: "queue_task pools pools' \<Longrightarrow> pools_ok True pools \<Longrightarrow> pools' = pools"
proof (induction rule: queue_task.induct)
  case (queued m pools name delay p task p' ws)
  then show ?case using pools_ok_nth [OF queued(5,1,2)] by (simp add: pool_addTask_def)
next
  case (rejected m pools name delay p task e ws)
  have "ws = tp_workers p" using pools_ok_nth [OF rejected(5,1,2)] no_waiting notify_none [OF rejected(4)] by blast
  then have "(name, delay, p\<lparr>tp_workers := ws\<rparr>) = pools ! m" using rejected(2) by simp
  then show ?case by (simp only: list_update_id)
qed

lemma queue_task_ok:
  assumes q: "queue_task pools pools'" and ok: "pools_ok st pools"
  shows "pools_ok st pools'"
proof (cases st)
  case True
  then show ?thesis using queue_task_stopped [OF q] ok by simp
next
  case False
  from q obtain m name delay p p' where m: "m < length pools" "pools ! m = (name, delay, p)"
    and p': "pool_step p p'" "pools' = pools[m := (name, delay, p')]"
    by (cases rule: queue_task.cases) (blast intro: pool_step.add pool_step.reject)+
  have "pool_inv p'" using pool_step_inv [OF p'(1)] pools_ok_nth [OF ok m] by blast
  then show ?thesis using pools_ok_update [OF ok] False by (simp add: p'(2))
qed

lemma worker_step_ok:
  assumes "pools_ok st pools" "k < length pools" "pools ! k = (name, delay, p)" "worker_step p p'"
  shows "pools_ok st (pools[k := (name, delay, p')])"
proof -
  note p = pools_ok_nth [OF assms(1-3)]
  have "pool_inv p'" using worker_step_inv [OF assms(4)] p by blast
  moreover have "\<not> pi_started (tp_info p')" if st using stopped_step(2) [OF assms(4)] p that no_waiting by blast
  ultimately show ?thesis using pools_ok_update [OF assms(1)] by blast
qed

lemma stopThreadPools_ok: "pools_ok st pools \<Longrightarrow> pools_ok True (stopThreadPools pools)"
  using stop_inv by (fastforce simp: pools_ok_def stopThreadPools_def pool_stop_def)

text \<open>Pools whose workers have all ended stay like that.\<close>

lemma exited_no_step: "set (tp_workers p) \<subseteq> {Exited} \<Longrightarrow> \<not> worker_step p p'"
  by (auto elim!: worker_stepE dest!: nth_mem)

lemma joined_nth: "joined pools \<Longrightarrow> k < length pools \<Longrightarrow> pools ! k = (name, delay, p) \<Longrightarrow> set (tp_workers p) \<subseteq> {Exited}"
  unfolding joined_def list_all_iff by (drule (1) bspec [OF _ nth_mem]) simp

lemma joined_update: "joined pools \<Longrightarrow> set (tp_workers p) \<subseteq> {Exited} \<Longrightarrow> joined (pools[k := (name, delay, p)])"
  unfolding joined_def list_all_iff using set_update_subset_insert [of pools k "(name, delay, p)"] by blast

lemma queue_task_joined: "queue_task pools pools' \<Longrightarrow> joined pools \<Longrightarrow> joined pools'"
proof (induction rule: queue_task.induct)
  case (queued m pools name delay p task p' ws)
  have w: "set (tp_workers p) \<subseteq> {Exited}" by (rule joined_nth [OF queued(5,1,2)])
  have "tp_workers p' = tp_workers p" using queued(3) by (auto simp: pool_addTask_def split: if_splits)
  then have "ws = tp_workers p" using notify_none [OF queued(4)] w by auto
  then show ?case using joined_update [OF queued(5)] w by simp
next
  case (rejected m pools name delay p task e ws)
  have w: "set (tp_workers p) \<subseteq> {Exited}" by (rule joined_nth [OF rejected(5,1,2)])
  then have "ws = tp_workers p" using notify_none [OF rejected(4)] by auto
  then show ?case using joined_update [OF rejected(5)] w by simp
qed

lemma stopThreadPools_joined: "joined pools \<Longrightarrow> joined (stopThreadPools pools)"
  by (fastforce simp: joined_def list_all_iff stopThreadPools_def pool_stop_def)

definition program_ok :: "'c fcgi_server \<Rightarrow> ('c, 's, 'u, 'h, 'f) program \<Rightarrow> bool" where
  "program_ok sv pg \<longleftrightarrow>
     sv_status (pg_server pg) = RUNNING \<and> sv_endpoints (pg_server pg) = sv_endpoints sv \<and>
     (pg_reading pg \<longleftrightarrow> \<not> sv_stopped (pg_server pg)) \<and> set (pg_pipe pg) \<subseteq> {CHR ''s''} \<and>
     pools_ok (sv_stopped (pg_server pg)) (pg_pools pg) \<and> (pg_main pg \<noteq> JoiningPools \<longrightarrow> joined (pg_pools pg)) \<and>
     (\<forall>c. pg_main pg = MainReturned c \<longrightarrow> c = server_destroy (pg_server pg) EXIT_SUCCESS \<and> holder_unique (pg_threads pg))"

lemma not_returned: "x \<notin> range MainReturned \<longleftrightarrow> x = JoiningPools \<or> x = WaitingThreads"
  by (cases x) auto

lemma program_step_ok: "program_step pg pg' \<Longrightarrow> program_ok sv pg \<Longrightarrow> program_ok sv pg'"
proof (induction rule: program_step.induct)
  case (read pg)
  then obtain rest where "pg_pipe pg = CHR ''s'' # rest" by (cases "pg_pipe pg") (auto simp: program_ok_def)
  then show ?case using read stopThreadPools_ok stopThreadPools_joined
    by (auto simp: program_ok_def stopThreadFunction_def stopInternal_def not_returned)
next
  case (thread pg i t)
  then show ?case by (auto simp: program_ok_def thread_moves_def not_returned)
next
  case (serve pg i pools)
  then show ?case using queue_task_ok [OF serve(4)] queue_task_joined [OF serve(4)] by (auto simp: program_ok_def thread_moves_def not_returned)
next
  case (work pg k name delay p p')
  have "pg_main pg = JoiningPools"
    using work exited_no_step [OF joined_nth [OF _ work(2,3)], of p'] by (auto simp: program_ok_def not_returned)
  then show ?case using work worker_step_ok [OF _ work(2-4)] by (auto simp: program_ok_def)
next
  case (dispatch pg k name delay p p' pools)
  have "pg_main pg = JoiningPools"
    using dispatch exited_no_step [OF joined_nth [OF _ dispatch(2,3)], of p'] by (auto simp: program_ok_def not_returned)
  then show ?case using dispatch worker_step_ok [OF _ dispatch(2-4)] queue_task_ok [OF dispatch(5)] by (auto simp: program_ok_def)
next
  case (pools_joined pg)
  then show ?case by (simp add: program_ok_def)
next
  case (threads_gone pg)
  then show ?case by (simp add: program_ok_def)
qed

lemma program_reachable_ok:
  assumes "program_reachable sv pools pg" "sv_status sv = RUNNING" "\<not> sv_stopped sv" "pools_ok False pools"
  shows "program_ok sv pg"
  using assms(1)
proof (induction rule: program_reachable.induct)
  case started
  then show ?case using assms(2-4) by (simp add: program_ok_def program_start_def)
next
  case (stepped pg pg')
  then show ?case using program_step_ok by blast
next
  case (accepted pg pg')
  then show ?case by (auto simp: program_ok_def thread_moves_def not_returned elim!: accept_returns.cases)
next
  case (signalled pg signo)
  then show ?case by (auto simp: program_ok_def signalHandler_def server_stop_def)
qed

text \<open>The pools that the program starts with.\<close>

lemma init_pools_ok: "init_pools cfg needed ks n pools = Inr pools' \<Longrightarrow> pools_ok False pools \<Longrightarrow> pools_ok False pools'"
proof (induction ks arbitrary: n pools)
  case (Cons k ks)
  have new: "pools_ok False (fst (om_insert string_lt name (delay, pool_new a b) pools))" for name delay a b
    using Cons.prems(2) set_om_insert [of string_lt name "(delay, pool_new a b)" pools] pool_reachable_inv [OF pool_reachable.init]
    by (fastforce simp: pools_ok_def)
  show ?case using Cons.prems Cons.IH [OF _ Cons.prems(2)] Cons.IH [OF _ new] by (auto simp: rbind_eq_Inr_conv Let_def split: if_split_asm)
qed simp

lemma started_pools_ok: "initPools cfg hs = Inr pools \<Longrightarrow> pools_ok False (startThreadPools pools)"
proof -
  assume "initPools cfg hs = Inr pools"
  then have "pools_ok False pools"
    by (auto simp: initPools_def Let_def rbind_eq_Inr_conv pools_ok_def split: option.splits dest!: init_pools_ok)
  then show ?thesis using start_inv by (fastforce simp: pools_ok_def startThreadPools_def)
qed

lemma server_start_not_stopped: "server_start cfg env sv = Inr sv' \<Longrightarrow> sv_stopped sv' = sv_stopped sv"
  by (auto simp: server_start_def Let_def rbind_eq_Inr_conv at_state_Inr split: if_splits)

lemma daemon_program_ok:
  assumes "daemon_main os be dlopen entry onLoad as_component as_logger senv args p = Inr (p', cfg, L, g, sv)"
    and "program_reachable sv (gl_pools g) pg"
  shows "program_ok sv pg"
proof -
  have g: "globals_create dlopen entry cfg onLoad as_component as_logger = Inr (L, g)"
    and sv: "server_start cfg (senv g) fcgi_server_new = Inr sv"
    using assms(1) unfolding daemon_main_def by (auto simp: rbind_eq_Inr_conv map_sum_Inr)
  obtain pools where pools: "initPools cfg (gl_handlers g) = Inr pools" "gl_pools g = startThreadPools pools"
    using globals_create_parts [OF g] .
  show ?thesis
    using program_reachable_ok [OF assms(2)] server_start_running [OF sv] server_start_not_stopped [OF sv]
      started_pools_ok [OF pools(1)] by (simp add: fcgi_server_new_def pools(2))
qed

section \<open>After a signal\<close>

text \<open>The steps that are left to the threads of a stopped program.\<close>

fun thread_left :: "accept_thread \<Rightarrow> nat" where
  "thread_left LoopTop = 1"
| "thread_left Tested = 5"
| "thread_left Holding = 4"
| "thread_left InAccept = 2"
| "thread_left AcceptReturned = 1"
| "thread_left Retested = 3"
| "thread_left InService = 2"
| "thread_left ThreadEnded = 0"

fun main_left :: "main_state \<Rightarrow> nat" where
  "main_left JoiningPools = 2"
| "main_left WaitingThreads = 1"
| "main_left (MainReturned c) = 0"

definition pool_left :: "string \<times> int \<times> ('s, 'u, 'h, 'f) request_task pool \<Rightarrow> nat" where
  "pool_left x = (case x of (name, delay, p) \<Rightarrow> all_steps_left p)"

definition program_left :: "('c, 's, 'u, 'h, 'f) program \<Rightarrow> nat" where
  "program_left pg = sum_list (map thread_left (pg_threads pg)) + sum_list (map pool_left (pg_pools pg)) + main_left (pg_main pg)"

lemma sum_update_less:
  fixes f :: "'a \<Rightarrow> nat"
  shows "i < length xs \<Longrightarrow> f x < f (xs ! i) \<Longrightarrow> sum_list (map f (xs[i := x])) < sum_list (map f xs)"
  by (induction xs arbitrary: i) (auto simp: nth_Cons split: nat.splits)

lemma thread_next_less: "thread_next True t t' \<Longrightarrow> thread_left t' < thread_left t"
  by (erule thread_nextE) simp_all

lemma worker_left:
  assumes "pools_ok True pools" "k < length pools" "pools ! k = (name, delay, p)" "worker_step p p'"
  shows "sum_list (map pool_left (pools[k := (name, delay, p')])) < sum_list (map pool_left pools)"
proof (rule sum_update_less [OF assms(2)])
  have "Suc (all_steps_left p') = all_steps_left p"
    using stopped_step(1) [OF assms(4)] pools_ok_nth [OF assms(1-3)] no_waiting by blast
  then show "pool_left (name, delay, p') < pool_left (pools ! k)" by (simp add: pool_left_def assms(3))
qed

lemma program_step_left:
  "program_step pg pg' \<Longrightarrow> program_ok sv pg \<Longrightarrow> sv_stopped (pg_server pg) \<Longrightarrow>
   program_left pg' < program_left pg \<and> sv_stopped (pg_server pg')"
proof (induction rule: program_step.induct)
  case (read pg)
  then show ?case by (simp add: program_ok_def)
next
  case (thread pg i t)
  then show ?case using sum_update_less [OF thread(2), of thread_left t] thread_next_less [of "pg_threads pg ! i" t]
    by (simp add: program_left_def thread_moves_def)
next
  case (serve pg i pools)
  then show ?case using sum_update_less [OF serve(2), of thread_left LoopTop] queue_task_stopped [OF serve(4)]
    by (simp add: program_left_def thread_moves_def program_ok_def)
next
  case (work pg k name delay p p')
  then show ?case using worker_left [OF _ work(2-4)] by (simp add: program_left_def program_ok_def)
next
  case (dispatch pg k name delay p p' pools)
  then show ?case using worker_left [OF _ dispatch(2-4)] queue_task_stopped [OF dispatch(5)] worker_step_ok [OF _ dispatch(2-4)]
    by (simp add: program_left_def program_ok_def)
next
  case (pools_joined pg)
  then show ?case by (simp add: program_left_def)
next
  case (threads_gone pg)
  then show ?case by (simp add: program_left_def)
qed

lemma accept_left:
  "accept_returns pg pg' \<Longrightarrow> program_ok sv pg \<Longrightarrow> program_left pg' < program_left pg \<and> program_ok sv pg' \<and> pg_server pg' = pg_server pg"
  using sum_update_less [of _ "pg_threads pg" thread_left AcceptReturned]
  by (auto simp: program_left_def thread_moves_def program_ok_def not_returned elim!: accept_returns.cases)

text \<open>As long as \<^verbatim>\<open>main\<close> has not returned, something other than \<^verbatim>\<open>accept\<close> can go on.\<close>

lemma holding_moves: "t = Holding \<or> t = InService \<Longrightarrow> \<exists>t'. thread_next st t t'"
  by (auto intro: thread_next.intros)

lemma program_not_stuck:
  assumes ok: "program_ok sv pg" and st: "sv_stopped (pg_server pg)" and m: "pg_main pg \<notin> range MainReturned"
  shows "\<exists>pg'. program_step pg pg'"
proof (cases "joined (pg_pools pg)")
  case True
  show ?thesis
  proof (cases "holder_unique (pg_threads pg)")
    case hu: True
    then show ?thesis using True m program_step.pools_joined program_step.threads_gone by (auto simp: not_returned)
  next
    case False
    then obtain i where "i < length (pg_threads pg)" "pg_threads pg ! i = Holding \<or> pg_threads pg ! i = InService"
      by (auto simp: holder_unique_def in_set_conv_nth)
    then show ?thesis using program_step.thread [OF m] holding_moves by blast
  qed
next
  case False
  then obtain name delay p w where p: "(name, delay, p) \<in> set (pg_pools pg)" and w: "w \<in> set (tp_workers p)" "w \<noteq> Exited"
    by (auto simp: joined_def list_all_iff)
  obtain k where k: "k < length (pg_pools pg)" "pg_pools pg ! k = (name, delay, p)" using p by (auto simp: in_set_conv_nth)
  have "Waiting \<notin> set (tp_workers p)" using pools_ok_nth [OF _ k] ok st no_waiting by (auto simp: program_ok_def)
  then have "active_worker w" using w by (cases w) auto
  then show ?thesis using active_worker_steps [OF w(1)] program_step.work [OF m k] by blast
qed

lemma signal_stops:
  assumes "program_ok sv pg" "pg_reading pg" "CHR ''s'' \<in> set (pg_pipe pg)"
  shows "sv_stopped (pg_server (stopThreadFunction pg))"
proof -
  obtain rest where "pg_pipe pg = CHR ''s'' # rest" using assms(1,3) by (cases "pg_pipe pg") (auto simp: program_ok_def)
  then show ?thesis using assms(1,2) by (auto simp: stopThreadFunction_def stopInternal_def program_ok_def)
qed

lemma program_left_le:
  "program_left pg \<le> 5 * length (pg_threads pg) + 2 * sum_list (map (\<lambda>(name, delay, p). length (tp_workers p)) (pg_pools pg)) + 2"
proof -
  have t: "thread_left t \<le> 5" for t by (cases t) simp_all
  have ts: "sum_list (map thread_left ts) \<le> 5 * length ts" for ts
  proof (induction ts)
    case (Cons a ts)
    then show ?case using t [of a] by simp
  qed simp
  have ps: "sum_list (map pool_left ps) \<le> 2 * sum_list (map (\<lambda>(name, delay, p). length (tp_workers p)) ps)"
    for ps :: "(string \<times> int \<times> ('b, 'c, 'd, 'e) request_task pool) list"
  proof (induction ps)
    case (Cons a ps)
    obtain name delay p where a: "a = (name, delay, p)" by (cases a)
    show ?case using Cons all_steps_left_le [of p] by (simp add: a pool_left_def)
  qed simp
  have "main_left (pg_main pg) \<le> 2" by (cases "pg_main pg") simp_all
  then show ?thesis unfolding program_left_def using ts [of "pg_threads pg"] ps [of "pg_pools pg"] by linarith
qed

lemma stopped_run:
  assumes "((\<lambda>a b. program_step a b \<or> accept_returns a b) ^^ n) pg pg'" "program_ok sv pg" "sv_stopped (pg_server pg)"
  shows "n + program_left pg' \<le> program_left pg \<and> program_ok sv pg' \<and> sv_stopped (pg_server pg')"
  using assms
proof (induction n arbitrary: pg')
  case (Suc n)
  then obtain q where q: "((\<lambda>a b. program_step a b \<or> accept_returns a b) ^^ n) pg q" "program_step q pg' \<or> accept_returns q pg'" by auto
  have h: "n + program_left q \<le> program_left pg" "program_ok sv q" "sv_stopped (pg_server q)" using Suc.IH [OF q(1) Suc.prems(2,3)] by simp_all
  have "program_left pg' < program_left q \<and> program_ok sv pg' \<and> sv_stopped (pg_server pg')"
    using q(2) program_step_left [of q pg' sv] program_step_ok [of q pg' sv] accept_left [of q pg' sv] h(2,3) by auto
  then show ?case using h(1) by simp
qed simp

text \<open>
  C8. A signal ends the program. When a running program has got an interrupt or a termination signal, the thread that reads the pipe
  stops the server with its next step. From then on the threads of the program make only a bounded number of steps together,
  and when none is possible but the return of \<^verbatim>\<open>accept\<close>, \<^verbatim>\<open>main\<close> has returned: no worker is left, and no thread works on a request.
\<close>

theorem signal_ends_program:
  assumes "daemon_main os be dlopen entry onLoad as_component as_logger senv args p = Inr (p', cfg, L, g, sv)"
    and "program_reachable sv (gl_pools g) pg"
  shows "(signo = SIGINT \<or> signo = SIGTERM \<longrightarrow> pg_reading pg \<longrightarrow>
      sv_stopped (pg_server (stopThreadFunction (signalHandler signo pg)))) \<and>
    (sv_stopped (pg_server pg) \<longrightarrow> ((\<lambda>a b. program_step a b \<or> accept_returns a b) ^^ n) pg pg' \<longrightarrow>
      n \<le> 5 * length (pg_threads pg) + 2 * sum_list (map (\<lambda>(name, delay, p). length (tp_workers p)) (pg_pools pg)) + 2 \<and>
      ((\<nexists>pg''. program_step pg' pg'') \<longrightarrow>
        (\<exists>c. pg_main pg' = MainReturned c) \<and> joined (pg_pools pg') \<and> holder_unique (pg_threads pg')))"
proof -
  have ok: "program_ok sv pg" by (rule daemon_program_ok [OF assms])
  have sig: "sv_stopped (pg_server (stopThreadFunction (signalHandler signo pg)))"
    if "signo = SIGINT \<or> signo = SIGTERM" "pg_reading pg"
  proof (rule signal_stops [of sv])
    show "program_ok sv (signalHandler signo pg)" using ok by (auto simp: program_ok_def signalHandler_def server_stop_def)
  qed (use that in \<open>auto simp: signalHandler_def server_stop_def\<close>)
  have run: "n \<le> program_left pg \<and> program_ok sv pg' \<and> sv_stopped (pg_server pg')"
    if "((\<lambda>a b. program_step a b \<or> accept_returns a b) ^^ n) pg pg'" "sv_stopped (pg_server pg)"
    using stopped_run [OF that(1) ok that(2)] by auto
  have "(\<exists>c. pg_main pg' = MainReturned c) \<and> joined (pg_pools pg') \<and> holder_unique (pg_threads pg')"
    if "program_ok sv pg'" "sv_stopped (pg_server pg')" "\<nexists>pg''. program_step pg' pg''"
  proof -
    have "pg_main pg' \<in> range MainReturned" using program_not_stuck [OF that(1,2)] that(3) by blast
    then show ?thesis using that(1) by (auto simp: program_ok_def)
  qed
  then show ?thesis using sig run program_left_le [of pg] by (meson le_trans)
qed

section \<open>How it ends\<close>

lemma stopped_can_end:
  assumes "program_reachable sv pools pg" "program_ok sv pg" "sv_stopped (pg_server pg)"
  shows "\<exists>pg' c. program_reachable sv pools pg' \<and> pg_main pg' = MainReturned c"
  using assms
proof (induction "program_left pg" arbitrary: pg rule: less_induct)
  case less
  show ?case
  proof (cases "pg_main pg \<in> range MainReturned")
    case True
    then show ?thesis using less.prems(1) by auto
  next
    case False
    then obtain pg' where s: "program_step pg pg'" using program_not_stuck [OF less.prems(2,3)] by blast
    show ?thesis
      using less.hyps [OF _ program_reachable.stepped [OF less.prems(1) s] program_step_ok [OF s less.prems(2)]]
        program_step_left [OF s less.prems(2,3)] by blast
  qed
qed

lemma end_of_program: "program_ok sv pg \<Longrightarrow> pg_main pg = MainReturned c \<Longrightarrow> c = server_destroy (pg_server pg) EXIT_SUCCESS"
  by (simp add: program_ok_def)


text \<open>
  The last check of \<^verbatim>\<open>join\<close> does not see a thread that has just tested the flag: \<^verbatim>\<open>main\<close> can return and destroy the server while the
  thread is about to copy the holder of that server.
\<close>

definition one_thread_server :: "unit fcgi_server" where
  "one_thread_server = fcgi_server_new\<lparr>sv_status := RUNNING, sv_endpoints := [\<lparr>ep_busy_count = 0, ep_threads = 1, ep_socket_path = ''/s'',
     ep_socket_port = [], ep_keepConnection = 1\<rparr>]\<rparr>"

lemma join_race:
  "\<exists>(pg :: (unit, unit, unit, nat, nat) program) c. program_reachable one_thread_server [] pg \<and> sv_stopped (pg_server pg) \<and>
     pg_main pg = MainReturned c \<and> Tested \<in> set (pg_threads pg)"
proof -
  let ?R = "program_reachable one_thread_server ([] :: (unit, unit, nat, nat) pool_map)"
  have sv: "\<not> sv_stopped one_thread_server" "sv_status one_thread_server = RUNNING"
    by (simp_all add: one_thread_server_def fcgi_server_new_def)
  define s0 where "s0 = program_start one_thread_server ([] :: (unit, unit, nat, nat) pool_map)"
  have s0: "s0 = \<lparr>pg_server = one_thread_server, pg_pools = [], pg_threads = [LoopTop], pg_pipe = [], pg_reading = True, pg_main = JoiningPools\<rparr>"
    by (simp add: s0_def program_start_def one_thread_server_def)
  have "?R (thread_moves 0 Tested s0)"
  proof (rule program_reachable.stepped)
    show "?R s0" unfolding s0_def by (rule program_reachable.started)
    show "program_step s0 (thread_moves 0 Tested s0)" by (rule program_step.thread) (auto simp: s0 sv intro: thread_next.intros)
  qed
  then have r1: "?R (signalHandler SIGTERM (s0\<lparr>pg_threads := [Tested]\<rparr>))"
    by (intro program_reachable.signalled) (simp add: thread_moves_def s0)
  define s2 where "s2 = s0\<lparr>pg_server := one_thread_server\<lparr>sv_stopped := True\<rparr>, pg_threads := [Tested], pg_reading := False\<rparr>"
  have "stopThreadFunction (signalHandler SIGTERM (s0\<lparr>pg_threads := [Tested]\<rparr>)) = s2"
    by (simp add: stopThreadFunction_def signalHandler_def server_stop_def stopInternal_def s0 s2_def sv stopThreadPools_def)
  then have r2: "?R s2"
    using program_reachable.stepped [OF r1 program_step.read] by (simp add: signalHandler_def server_stop_def s0 not_returned)
  have r3: "?R (s2\<lparr>pg_main := WaitingThreads\<rparr>)"
    by (rule program_reachable.stepped [OF r2 program_step.pools_joined]) (simp_all add: s2_def s0 joined_def)
  have "?R (s2\<lparr>pg_main := MainReturned (server_destroy (pg_server s2) EXIT_SUCCESS)\<rparr>)"
    using program_reachable.stepped [OF r3 program_step.threads_gone] by (simp add: s2_def s0 holder_unique_def)
  then show ?thesis by (intro exI conjI) (assumption, simp_all add: s2_def s0)
qed

section \<open>A site that is stopped\<close>

lemma site_program:
  "\<exists>sv ep. daemon_main demo_os site_boot demo_dlopen demo_entry (\<lambda>_. LoadDone) site_as_component Some site_env
     [''--user'', ''www'', ''--group'', ''www'', ''--config=site.conf''] demo_proc =
     Inr (demo_proc\<lparr>pr_egid := 33, pr_euid := 33\<rparr>, site_cfg, demo_loader, site_globals, sv) \<and>
     ep \<in> set (sv_endpoints sv) \<and> ep_threads ep \<noteq> 0"
proof -
  obtain sv where m: "daemon_main demo_os site_boot demo_dlopen demo_entry (\<lambda>_. LoadDone) site_as_component Some site_env
     [''--user'', ''www'', ''--group'', ''www'', ''--config=site.conf''] demo_proc =
     Inr (demo_proc\<lparr>pr_egid := 33, pr_euid := 33\<rparr>, site_cfg, demo_loader, site_globals, sv)" using site_main by blast
  have "server_start site_cfg (site_env site_globals) fcgi_server_new = Inr sv"
    using m unfolding daemon_main_def by (auto simp: rbind_eq_Inr_conv map_sum_Inr)
  then have "initFastCGISubsystem site_cfg (site_env site_globals) = Inr (sv_endpoints sv)"
    by (auto simp: server_start_def Let_def rbind_eq_Inr_conv at_state_Inr split: if_splits)
  then have "sv_endpoints sv = [\<lparr>ep_busy_count = 0, ep_threads = 1, ep_socket_path = [], ep_socket_port = ''9000'', ep_keepConnection = 1\<rparr>]"
    by (auto simp: initFastCGISubsystem_def rbind_eq_Inr_conv init_endpoint_def site_read site_facts endpoint_new_def split: if_splits)
  then show ?thesis using m by force
qed

lemma site_ends:
  assumes "daemon_main demo_os site_boot demo_dlopen demo_entry (\<lambda>_. LoadDone) site_as_component Some site_env
     [''--user'', ''www'', ''--group'', ''www'', ''--config=site.conf''] demo_proc =
     Inr (demo_proc\<lparr>pr_egid := 33, pr_euid := 33\<rparr>, site_cfg, demo_loader, site_globals, sv)"
  shows "\<exists>pg c. program_reachable sv (gl_pools site_globals) pg \<and> pg_main pg = MainReturned c"
proof -
  let ?R = "program_reachable sv (gl_pools site_globals)"
  let ?s = "signalHandler SIGTERM (program_start sv (gl_pools site_globals))"
  have r: "?R ?s" by (intro program_reachable.signalled program_reachable.started)
  have "program_step ?s (stopThreadFunction ?s)"
    by (rule program_step.read) (auto simp: signalHandler_def server_stop_def program_start_def)
  then have r': "?R (stopThreadFunction ?s)" by (rule program_reachable.stepped [OF r])
  have "sv_stopped (pg_server (stopThreadFunction ?s))"
    by (rule signal_stops [OF daemon_program_ok [OF assms r]]) (auto simp: signalHandler_def server_stop_def program_start_def)
  then show ?thesis using stopped_can_end [OF r' daemon_program_ok [OF assms r']] by blast
qed

theorem signal_ends_program_witness:
  "\<exists>sv :: nat fcgi_server. program_reachable sv (gl_pools site_globals) (program_start sv (gl_pools site_globals)) \<and>
     sv_stopped (pg_server (stopThreadFunction (signalHandler SIGTERM (program_start sv (gl_pools site_globals)))))"
proof -
  obtain sv where m: "daemon_main demo_os site_boot demo_dlopen demo_entry (\<lambda>_. LoadDone) site_as_component Some site_env
     [''--user'', ''www'', ''--group'', ''www'', ''--config=site.conf''] demo_proc =
     Inr (demo_proc\<lparr>pr_egid := 33, pr_euid := 33\<rparr>, site_cfg, demo_loader, site_globals, sv)" using site_main by blast
  have "pg_reading (program_start sv (gl_pools site_globals))" by (simp add: program_start_def)
  then show ?thesis using signal_ends_program [OF m program_reachable.started] program_reachable.started by blast
qed


end
