(* ===== verification/CookieObjects.thy ===== *)
theory CookieObjects
  imports Cookies
begin

text \<open>
  The class \<^verbatim>\<open>Cookie\<close> (\<^verbatim>\<open>library/cookie.cpp\<close>): an object owns its data through a \<^verbatim>\<open>unique_ptr\<close> and forwards to it. The model has
  the allocated \<^verbatim>\<open>CookieData\<close> objects by address and the \<^verbatim>\<open>Cookie\<close> objects in the order of their construction, each with the
  address in its \<^verbatim>\<open>data_\<close>. The copy constructor and the assignment allocate new data, so that cookies behave like values.
\<close>

section \<open>Objects and their data\<close>

record cookie_heap =
  ch_data :: "nat \<rightharpoonup> cookie"
  ch_next :: nat
  ch_objects :: "nat option list"

definition heap_new :: cookie_heap where
  "heap_new = \<lparr>ch_data = Map.empty, ch_next = 0, ch_objects = []\<rparr>"

text \<open>The data of an object; there is none after its destructor.\<close>

definition object_at :: "nat \<Rightarrow> cookie_heap \<Rightarrow> nat option" where
  "object_at ob h = (if ob < length (ch_objects h) then ch_objects h ! ob else None)"

definition data_of :: "nat \<Rightarrow> cookie_heap \<Rightarrow> (nat \<times> cookie) result" where
  "data_of ob h =
     (case object_at ob h of
        None \<Rightarrow> Inl NullPointer
      | Some a \<Rightarrow> (case ch_data h a of None \<Rightarrow> Inl NullPointer | Some c \<Rightarrow> Inr (a, c)))"

definition new_CookieData :: "cookie \<Rightarrow> cookie_heap \<Rightarrow> nat \<times> cookie_heap" where
  "new_CookieData c h = (ch_next h, h\<lparr>ch_data := (ch_data h)(ch_next h \<mapsto> c), ch_next := Suc (ch_next h)\<rparr>)"

definition Cookie_new :: "string \<Rightarrow> string \<Rightarrow> cookie_heap \<Rightarrow> cookie_heap" where
  "Cookie_new name val h =
     (let (a, h) = new_CookieData (cookie_new name val) h in h\<lparr>ch_objects := ch_objects h @ [Some a]\<rparr>)"

definition Cookie_copy :: "nat \<Rightarrow> cookie_heap \<Rightarrow> cookie_heap result" where
  "Cookie_copy src h =
     rbind (data_of src h) (\<lambda>(_, c).
       let (a, h) = new_CookieData c h in Inr (h\<lparr>ch_objects := ch_objects h @ [Some a]\<rparr>))"

definition Cookie_destroy :: "nat \<Rightarrow> cookie_heap \<Rightarrow> cookie_heap result" where
  "Cookie_destroy ob h =
     rbind (data_of ob h) (\<lambda>(a, _).
       Inr (h\<lparr>ch_data := (ch_data h)(a := None), ch_objects := (ch_objects h)[ob := None]\<rparr>))"

text \<open>\<^verbatim>\<open>operator=\<close>: the new data is allocated before the old one is deleted; an object assigned to itself keeps its data.\<close>

definition Cookie_assign :: "nat \<Rightarrow> nat \<Rightarrow> cookie_heap \<Rightarrow> cookie_heap result" where
  "Cookie_assign ob src h =
     rbind (data_of ob h) (\<lambda>(old, _).
       if ob \<noteq> src then
         rbind (data_of src h) (\<lambda>(_, c).
           let (a, h) = new_CookieData c h
           in Inr (h\<lparr>ch_data := (ch_data h)(old := None), ch_objects := (ch_objects h)[ob := Some a]\<rparr>))
       else Inr h)"

section \<open>The operations that forward to the data\<close>

definition data_get :: "(cookie \<Rightarrow> 'a) \<Rightarrow> nat \<Rightarrow> cookie_heap \<Rightarrow> 'a result" where
  "data_get f ob h = rbind (data_of ob h) (\<lambda>(_, c). Inr (f c))"

definition data_set :: "(cookie \<Rightarrow> cookie) \<Rightarrow> nat \<Rightarrow> cookie_heap \<Rightarrow> cookie_heap result" where
  "data_set f ob h = rbind (data_of ob h) (\<lambda>(a, c). Inr (h\<lparr>ch_data := (ch_data h)(a \<mapsto> f c)\<rparr>))"

definition Cookie_name :: "nat \<Rightarrow> cookie_heap \<Rightarrow> string result" where
  "Cookie_name = data_get ck_name"

definition Cookie_value :: "nat \<Rightarrow> cookie_heap \<Rightarrow> string result" where
  "Cookie_value = data_get ck_value"

definition Cookie_secure :: "nat \<Rightarrow> cookie_heap \<Rightarrow> bool result" where
  "Cookie_secure = data_get ck_secure"

definition Cookie_set_secure :: "bool \<Rightarrow> nat \<Rightarrow> cookie_heap \<Rightarrow> cookie_heap result" where
  "Cookie_set_secure v = data_set (cookie_set_secure v)"

definition Cookie_httpOnly :: "nat \<Rightarrow> cookie_heap \<Rightarrow> bool result" where
  "Cookie_httpOnly = data_get ck_http_only"

definition Cookie_set_httpOnly :: "bool \<Rightarrow> nat \<Rightarrow> cookie_heap \<Rightarrow> cookie_heap result" where
  "Cookie_set_httpOnly v = data_set (cookie_set_httpOnly v)"

definition Cookie_expires :: "nat \<Rightarrow> cookie_heap \<Rightarrow> int result" where
  "Cookie_expires = data_get ck_expires"

definition Cookie_set_expires :: "int \<Rightarrow> nat \<Rightarrow> cookie_heap \<Rightarrow> cookie_heap result" where
  "Cookie_set_expires v = data_set (cookie_set_expires v)"

definition Cookie_path :: "nat \<Rightarrow> cookie_heap \<Rightarrow> string result" where
  "Cookie_path = data_get ck_path"

definition Cookie_set_path :: "string \<Rightarrow> nat \<Rightarrow> cookie_heap \<Rightarrow> cookie_heap result" where
  "Cookie_set_path v = data_set (cookie_set_path v)"

definition Cookie_domain :: "nat \<Rightarrow> cookie_heap \<Rightarrow> string result" where
  "Cookie_domain = data_get ck_domain"

definition Cookie_set_domain :: "string \<Rightarrow> nat \<Rightarrow> cookie_heap \<Rightarrow> cookie_heap result" where
  "Cookie_set_domain v = data_set (cookie_set_domain v)"

definition Cookie_permanent :: "nat \<Rightarrow> cookie_heap \<Rightarrow> bool result" where
  "Cookie_permanent = data_get cookie_permanent"

definition Cookie_set_permanent :: "bool \<Rightarrow> nat \<Rightarrow> cookie_heap \<Rightarrow> cookie_heap result" where
  "Cookie_set_permanent v = data_set (cookie_set_permanent v)"

definition Cookie_toString :: "nat \<Rightarrow> cookie_heap \<Rightarrow> string result" where
  "Cookie_toString ob h = rbind (data_get cookie_toString ob h) (\<lambda>s. s)"

definition Cookie_urlEncode :: "bool \<Rightarrow> nat \<Rightarrow> cookie_heap \<Rightarrow> cookie_heap result" where
  "Cookie_urlEncode v = data_set (cookie_urlEncode v)"

section \<open>Programs over cookies\<close>

datatype cookie_op =
  Construct string string
| Copy nat
| Destroy nat
| Assign nat nat
| SetSecure bool nat
| SetHttpOnly bool nat
| SetExpires int nat
| SetPath string nat
| SetDomain string nat
| SetPermanent bool nat
| UrlEncode bool nat

fun cookie_exec :: "cookie_op \<Rightarrow> cookie_heap \<Rightarrow> cookie_heap result" where
  "cookie_exec (Construct name val) h = Inr (Cookie_new name val h)"
| "cookie_exec (Copy src) h = Cookie_copy src h"
| "cookie_exec (Destroy ob) h = Cookie_destroy ob h"
| "cookie_exec (Assign ob src) h = Cookie_assign ob src h"
| "cookie_exec (SetSecure v ob) h = Cookie_set_secure v ob h"
| "cookie_exec (SetHttpOnly v ob) h = Cookie_set_httpOnly v ob h"
| "cookie_exec (SetExpires v ob) h = Cookie_set_expires v ob h"
| "cookie_exec (SetPath v ob) h = Cookie_set_path v ob h"
| "cookie_exec (SetDomain v ob) h = Cookie_set_domain v ob h"
| "cookie_exec (SetPermanent v ob) h = Cookie_set_permanent v ob h"
| "cookie_exec (UrlEncode v ob) h = Cookie_urlEncode v ob h"

fun cookie_run :: "cookie_op list \<Rightarrow> cookie_heap \<Rightarrow> cookie_heap result" where
  "cookie_run [] h = Inr h"
| "cookie_run (p # ps) h = rbind (cookie_exec p h) (cookie_run ps)"

section \<open>Cookies as values\<close>

text \<open>The specification: variables that hold cookies, no addresses. A destroyed variable holds none.\<close>

definition value_of :: "nat \<Rightarrow> cookie option list \<Rightarrow> cookie option" where
  "value_of ob vs = (if ob < length vs then vs ! ob else None)"

definition value_set :: "(cookie \<Rightarrow> cookie) \<Rightarrow> nat \<Rightarrow> cookie option list \<Rightarrow> cookie option list option" where
  "value_set f ob vs = map_option (\<lambda>c. vs[ob := Some (f c)]) (value_of ob vs)"

fun value_exec :: "cookie_op \<Rightarrow> cookie option list \<Rightarrow> cookie option list option" where
  "value_exec (Construct name val) vs = Some (vs @ [Some (cookie_new name val)])"
| "value_exec (Copy src) vs = map_option (\<lambda>c. vs @ [Some c]) (value_of src vs)"
| "value_exec (Destroy ob) vs = map_option (\<lambda>_. vs[ob := None]) (value_of ob vs)"
| "value_exec (Assign ob src) vs =
     (case (value_of ob vs, value_of src vs) of (Some _, Some c) \<Rightarrow> Some (vs[ob := Some c]) | _ \<Rightarrow> None)"
| "value_exec (SetSecure v ob) vs = value_set (\<lambda>c. c\<lparr>ck_secure := v\<rparr>) ob vs"
| "value_exec (SetHttpOnly v ob) vs = value_set (\<lambda>c. c\<lparr>ck_http_only := v\<rparr>) ob vs"
| "value_exec (SetExpires v ob) vs = value_set (\<lambda>c. c\<lparr>ck_expires := v\<rparr>) ob vs"
| "value_exec (SetPath v ob) vs = value_set (\<lambda>c. c\<lparr>ck_path := v\<rparr>) ob vs"
| "value_exec (SetDomain v ob) vs = value_set (\<lambda>c. c\<lparr>ck_domain := v\<rparr>) ob vs"
| "value_exec (SetPermanent v ob) vs = value_set (\<lambda>c. c\<lparr>ck_expires := (if v then 2147483647 else 0)\<rparr>) ob vs"
| "value_exec (UrlEncode v ob) vs = value_set (\<lambda>c. c\<lparr>ck_encode := v\<rparr>) ob vs"

fun value_run :: "cookie_op list \<Rightarrow> cookie option list \<Rightarrow> cookie option list option" where
  "value_run [] vs = Some vs"
| "value_run (p # ps) vs = Option.bind (value_exec p vs) (value_run ps)"

definition cookie_values :: "cookie_heap \<Rightarrow> cookie option list" where
  "cookie_values h = map (\<lambda>p. case p of None \<Rightarrow> None | Some a \<Rightarrow> ch_data h a) (ch_objects h)"

text \<open>Every data object has exactly one owner: no address is shared, none dangles and none leaks.\<close>

definition owned :: "(nat \<Rightarrow> nat option) \<Rightarrow> nat set \<Rightarrow> nat \<Rightarrow> bool" where
  "owned f D n \<longleftrightarrow> inj_on f (dom f) \<and> ran f = D \<and> (\<forall>a \<in> D. a < n)"

definition heap_ok :: "cookie_heap \<Rightarrow> bool" where
  "heap_ok h \<longleftrightarrow> owned (\<lambda>ob. object_at ob h) (dom (ch_data h)) (ch_next h)"

lemma owned_fresh: "owned f D n \<Longrightarrow> f i \<noteq> Some n"
  unfolding owned_def by (metis less_irrefl ranI)

lemma owned_inj: "owned f D n \<Longrightarrow> f i = Some a \<Longrightarrow> f j = Some a \<Longrightarrow> i = j"
  unfolding owned_def by (metis domI inj_onD)

lemma owned_add: "owned f D n \<Longrightarrow> f k = None \<Longrightarrow> owned (f(k \<mapsto> n)) (insert n D) (Suc n)"
  unfolding owned_def by (auto simp: inj_on_def dom_def ran_def less_Suc_eq split: if_splits) (metis option.distinct(1))

lemma owned_remove: "owned f D n \<Longrightarrow> f k = Some a \<Longrightarrow> owned (f(k := None)) (D - {a}) n"
proof -
  assume f: "owned f D n" and k: "f k = Some a"
  have "ran (f(k := None)) = ran f - {a}" 
  proof (intro equalityI subsetI)
    fix b assume "b \<in> ran f - {a}"
    then obtain i where "f i = Some b" "b \<noteq> a" by (auto simp: ran_def)
    then have "(f(k := None)) i = Some b" using k by auto
    then show "b \<in> ran (f(k := None))" by (rule ranI)
  next
    fix b assume "b \<in> ran (f(k := None))"
    then obtain i where i: "f i = Some b" "i \<noteq> k" by (auto simp: ran_def split: if_splits)
    then have "b \<noteq> a" using owned_inj [OF f _ k, of i] by blast
    then show "b \<in> ran f - {a}" using i(1) by (auto intro: ranI)
  qed
  moreover have "inj_on (f(k := None)) (dom (f(k := None)))"
    using f by (auto simp: owned_def inj_on_def dom_def)
  ultimately show ?thesis using f by (simp add: owned_def)
qed

lemma heap_ok_new: "heap_ok heap_new"
  by (simp add: heap_ok_def owned_def heap_new_def object_at_def)

lemma value_of_values: "value_of ob (cookie_values h) = (case object_at ob h of None \<Rightarrow> None | Some a \<Rightarrow> ch_data h a)"
  by (simp add: value_of_def cookie_values_def object_at_def)

lemma data_of_values:
  assumes "heap_ok h"
  obtains a c where "data_of ob h = Inr (a, c)" "object_at ob h = Some a" "ch_data h a = Some c" "value_of ob (cookie_values h) = Some c"
  | "data_of ob h = Inl NullPointer" "value_of ob (cookie_values h) = None"
proof (cases "object_at ob h")
  case (Some a)
  then obtain c where "ch_data h a = Some c" using assms unfolding heap_ok_def owned_def by (metis domD ranI)
  then show ?thesis using Some that(1) by (simp add: data_of_def value_of_values)
qed (simp add: data_of_def value_of_values that(2))

text \<open>The three ways in which the heap changes: an object with new data is added, data is replaced, an object gets new data or none.\<close>

lemma length_values [simp]: "length (cookie_values h) = length (ch_objects h)"
  by (simp add: cookie_values_def)

lemma values_eqI:
  assumes "length (ch_objects h) = length vs" and eq: "\<And>i. value_of i (cookie_values h) = value_of i vs"
  shows "cookie_values h = vs"
proof (rule nth_equalityI)
  show "cookie_values h ! i = vs ! i" if "i < length (cookie_values h)" for i
    using eq [of i] that assms(1) by (simp add: value_of_def)
qed (simp add: assms(1))

lemma value_of_append: "value_of i (vs @ [x]) = (if i = length vs then x else value_of i vs)"
  by (simp add: value_of_def nth_append)

lemma value_of_update: "value_of i (vs[ob := x]) = (if i = ob \<and> ob < length vs then x else value_of i vs)"
  by (simp add: value_of_def)

lemma object_at_less: "object_at ob h = Some a \<Longrightarrow> ob < length (ch_objects h)"
  by (simp add: object_at_def split: if_splits)

lemmas value_laws = value_of_append value_of_update value_of_values

lemma fresh: "heap_ok h \<Longrightarrow> object_at i h \<noteq> Some (ch_next h)"
  unfolding heap_ok_def by (rule owned_fresh)

lemma one_owner: "heap_ok h \<Longrightarrow> object_at ob h = Some a \<Longrightarrow> object_at i h = Some a \<Longrightarrow> i = ob"
  unfolding heap_ok_def by (rule owned_inj)

lemma add_object:
  assumes ok: "heap_ok h" and h': "h' = h\<lparr>ch_data := (ch_data h)(ch_next h \<mapsto> c), ch_next := Suc (ch_next h),
    ch_objects := ch_objects h @ [Some (ch_next h)]\<rparr>"
  shows "heap_ok h'" "cookie_values h' = cookie_values h @ [Some c]"
proof -
  let ?n = "length (ch_objects h)"
  have at: "object_at i h' = (if i = ?n then Some (ch_next h) else object_at i h)" for i
    by (simp add: h' object_at_def nth_append)
  have end_: "object_at ?n h = None" by (simp add: object_at_def)
  show "heap_ok h'" 
    using owned_add [OF ok [unfolded heap_ok_def] end_] by (simp add: heap_ok_def at fun_upd_def) (simp add: h')
  show "cookie_values h' = cookie_values h @ [Some c]"
    
  proof (rule values_eqI)
    fix i show "value_of i (cookie_values h') = value_of i (cookie_values h @ [Some c])"
      using fresh [OF ok, of i] by (cases "object_at i h") (simp_all add: value_laws at, simp_all add: h')
  qed (simp add: h')
qed

lemma replace_data:
  assumes ok: "heap_ok h" and ob: "object_at ob h = Some a" and h': "h' = h\<lparr>ch_data := (ch_data h)(a \<mapsto> c)\<rparr>"
  shows "heap_ok h'" "cookie_values h' = (cookie_values h)[ob := Some c]"
proof -
  have at: "object_at i h' = object_at i h" for i by (simp add: h' object_at_def)
  note own = one_owner [OF ok ob]
  have "a \<in> dom (ch_data h)" using ok ob unfolding heap_ok_def owned_def by (metis ranI)
  then show "heap_ok h'" using ok unfolding heap_ok_def at by (simp add: h' insert_absorb)
  show "cookie_values h' = (cookie_values h)[ob := Some c]"
  proof (rule values_eqI)
    fix i show "value_of i (cookie_values h') = value_of i ((cookie_values h)[ob := Some c])"
      using own [of i] ob object_at_less [OF ob] by (cases "object_at i h") (auto simp: value_laws at, auto simp: h')
  qed (simp add: h')
qed

lemma destroy_object:
  assumes ok: "heap_ok h" and ob: "object_at ob h = Some a"
    and h': "h' = h\<lparr>ch_data := (ch_data h)(a := None), ch_objects := (ch_objects h)[ob := None]\<rparr>"
  shows "heap_ok h'" "cookie_values h' = (cookie_values h)[ob := None]"
proof -
  have at: "object_at i h' = (if i = ob then None else object_at i h)" for i by (auto simp: h' object_at_def)
  note own = one_owner [OF ok ob]
  show "heap_ok h'" using owned_remove [OF ok [unfolded heap_ok_def] ob] by (simp add: heap_ok_def at fun_upd_def) (simp add: h')
  show "cookie_values h' = (cookie_values h)[ob := None]"
  proof (rule values_eqI)
    fix i show "value_of i (cookie_values h') = value_of i ((cookie_values h)[ob := None])"
      using own [of i] ob object_at_less [OF ob] by (cases "object_at i h") (auto simp: value_laws at, auto simp: h')
  qed (simp add: h')
qed

lemma renew_object:
  assumes ok: "heap_ok h" and ob: "object_at ob h = Some a"
    and h': "h' = h\<lparr>ch_next := Suc (ch_next h), ch_data := (ch_data h)(ch_next h \<mapsto> c, a := None),
      ch_objects := (ch_objects h)[ob := Some (ch_next h)]\<rparr>"
  shows "heap_ok h'" "cookie_values h' = (cookie_values h)[ob := Some c]"
proof -
  have l: "ob < length (ch_objects h)" using ob by (auto simp: object_at_def split: if_splits)
  have at: "object_at i h' = (if i = ob then Some (ch_next h) else object_at i h)" for i using l by (auto simp: h' object_at_def)
  note own = one_owner [OF ok ob]
  have a: "a \<noteq> ch_next h" using fresh [OF ok, of ob] ob by auto
  have "owned ((\<lambda>i. object_at i h)(ob := None, ob \<mapsto> ch_next h)) (insert (ch_next h) (dom (ch_data h) - {a})) (Suc (ch_next h))"
    by (rule owned_add [OF owned_remove [OF ok [unfolded heap_ok_def] ob]]) simp
  moreover have "dom (ch_data h') = insert (ch_next h) (dom (ch_data h) - {a})" using a by (auto simp: h')
  ultimately show "heap_ok h'" by (simp add: heap_ok_def at fun_upd_def cong: if_cong) (simp add: h' cong: if_cong)
  show "cookie_values h' = (cookie_values h)[ob := Some c]"
  proof (rule values_eqI)
    fix i show "value_of i (cookie_values h') = value_of i ((cookie_values h)[ob := Some c])"
      using own [of i] ob l a fresh [OF ok, of i] by (cases "object_at i h") (auto simp: value_laws at, auto simp: h')
  qed (simp add: h')
qed

text \<open>Setters through the heap are setters of the value.\<close>

definition simulates :: "cookie_heap result \<Rightarrow> cookie option list option \<Rightarrow> bool" where
  "simulates x y \<longleftrightarrow> (case x of Inr h \<Rightarrow> heap_ok h \<and> y = Some (cookie_values h) | Inl e \<Rightarrow> y = None)"

lemma simulates_simps [simp]: "simulates (Inr h) y \<longleftrightarrow> heap_ok h \<and> y = Some (cookie_values h)" "simulates (Inl e) y \<longleftrightarrow> y = None"
  by (simp_all add: simulates_def)

lemma simulates_set: "heap_ok h \<Longrightarrow> simulates (data_set f ob h) (value_set f ob (cookie_values h))"
  by (rule data_of_values [of h ob]) (auto simp: data_set_def value_set_def replace_data)

lemma simulates_copy: "heap_ok h \<Longrightarrow> simulates (Cookie_copy src h) (value_exec (Copy src) (cookie_values h))"
  by (rule data_of_values [of h src]) (auto simp: Cookie_copy_def new_CookieData_def add_object)

lemma simulates_destroy: "heap_ok h \<Longrightarrow> simulates (Cookie_destroy ob h) (value_exec (Destroy ob) (cookie_values h))"
  by (rule data_of_values [of h ob]) (auto simp: Cookie_destroy_def destroy_object)

lemma simulates_assign:
  assumes ok: "heap_ok h"
  shows "simulates (Cookie_assign ob src h) (value_exec (Assign ob src) (cookie_values h))"
proof -
  have same: "(cookie_values h)[src := Some c] = cookie_values h" if "value_of src (cookie_values h) = Some c" for c
    using that by (metis list_update_id value_of_def option.distinct(1))
  note renew = renew_object [OF ok _ refl]
  show ?thesis
    by (cases "ob = src"; rule data_of_values [OF ok, of ob]; rule data_of_values [OF ok, of src])
      (simp_all add: Cookie_assign_def new_CookieData_def renew same ok)
qed

lemma simulates_exec: "heap_ok h \<Longrightarrow> simulates (cookie_exec p h) (value_exec p (cookie_values h))"
proof -
  assume ok: "heap_ok h"
  note sets = Cookie_set_secure_def Cookie_set_httpOnly_def Cookie_set_expires_def Cookie_set_path_def Cookie_set_domain_def
    Cookie_set_permanent_def Cookie_urlEncode_def cookie_set_secure_def cookie_set_httpOnly_def cookie_set_expires_def
    cookie_set_path_def cookie_set_domain_def cookie_set_permanent_def cookie_urlEncode_def MAX_EXPIRES_TIME_def
  have set: "simulates (data_set f ob h) (value_set g ob (cookie_values h))" if "\<And>c. f c = g c" for f g ob
    using simulates_set [OF ok, of f ob] that by (metis ext)
  show ?thesis
    by (cases p; simp only: cookie_exec.simps sets)
      (auto simp: Cookie_new_def new_CookieData_def add_object [OF ok] sets simp del: value_exec.simps(2-4)
        intro!: set simulates_copy [OF ok] simulates_destroy [OF ok] simulates_assign [OF ok])
qed

lemma simulates_bind: "simulates x y \<Longrightarrow> (\<And>h. heap_ok h \<Longrightarrow> simulates (f h) (g (cookie_values h))) \<Longrightarrow>
    simulates (rbind x f) (Option.bind y g)"
  by (cases x) auto

text \<open>
  C31. Refinement of the class \<^verbatim>\<open>Cookie\<close> by values: whatever a program constructs, copies, assigns, changes and destroys, the
  cookies have the values that variables holding cookies would have. A change of a copy is never seen through the original, an
  assignment to itself changes nothing, every data object has one owner, and an operation fails only on a destroyed cookie.
\<close>

theorem cookies_are_values:
  assumes "heap_ok h"
  shows "case cookie_run ps h of
      Inr h' \<Rightarrow> heap_ok h' \<and> value_run ps (cookie_values h) = Some (cookie_values h')
    | Inl e \<Rightarrow> value_run ps (cookie_values h) = None"
proof -
  have "heap_ok h \<Longrightarrow> simulates (cookie_run ps h) (value_run ps (cookie_values h))" for h
    by (induction ps arbitrary: h) (simp_all add: simulates_bind simulates_exec)
  then show ?thesis using assms by (simp add: simulates_def)
qed

theorem cookies_are_values_witness:
  "heap_ok heap_new \<and>
   (case cookie_run [Construct ''a'' ''1'', Copy 0, SetPath ''/x'' 1, Assign 0 0, SetSecure True 0] heap_new of
      Inr h' \<Rightarrow> heap_ok h' \<and> cookie_values h' = [Some ((cookie_new ''a'' ''1'')\<lparr>ck_secure := True\<rparr>),
        Some ((cookie_new ''a'' ''1'')\<lparr>ck_path := ''/x''\<rparr>)]
    | Inl e \<Rightarrow> False)"
proof -
  have "value_run [Construct ''a'' ''1'', Copy 0, SetPath ''/x'' 1, Assign 0 0, SetSecure True 0] (cookie_values heap_new) =
    Some [Some ((cookie_new ''a'' ''1'')\<lparr>ck_secure := True\<rparr>), Some ((cookie_new ''a'' ''1'')\<lparr>ck_path := ''/x''\<rparr>)]"
    by (simp add: cookie_values_def heap_new_def value_of_def value_set_def)
  then show ?thesis
    using cookies_are_values [OF heap_ok_new, of "[Construct ''a'' ''1'', Copy 0, SetPath ''/x'' 1, Assign 0 0, SetSecure True 0]"]
      heap_ok_new by (simp split: sum.splits)
qed

end
