(* ===== verification/MappedFiles.thy ===== *)
theory MappedFiles
  imports FileBuffers
begin

text \<open>
  \<^verbatim>\<open>MMapFile\<close> (\<^verbatim>\<open>library/mmap_file.cpp\<close>) with system calls that may be refused, and the life of a
  \<^verbatim>\<open>FileBuffer\<close>: the shared \<^verbatim>\<open>FileDescriptor\<close> closes the descriptor, the shared \<^verbatim>\<open>FileHolder\<close>
  removes the file. The theory FileBuffers has the same operations for the case in which no call is
  refused; that they agree there is proved below.

  The system is a parameter: a record with what \<^verbatim>\<open>open\<close>, \<^verbatim>\<open>fstat\<close>, \<^verbatim>\<open>mmap\<close>, \<^verbatim>\<open>munmap\<close> and
  \<^verbatim>\<open>ftruncate\<close> answer (\<open>Some\<close> or \<open>Inl\<close> an \<^verbatim>\<open>errno\<close> for \<^verbatim>\<open>-1\<close>). An operation gives its result or the
  exception, and in both cases the object it leaves behind.
\<close>

section \<open>The object and the system\<close>

text \<open>
  The values of \<^verbatim>\<open>pointer_\<close>: \<^verbatim>\<open>nullptr\<close>, \<^verbatim>\<open>MAP_FAILED\<close> and a mapping. A \<^verbatim>\<open>char*\<close> into the mapping is
  the offset in the file it stands for.
\<close>

datatype map_pointer = Nullptr | MapFailed | Mapping

record map_object =
  mo_bytes :: string
  mo_pointer :: map_pointer
  mo_size :: u64
  mo_fdes :: int
  mo_is_read_only :: bool
  mo_window :: u64
  mo_segment_start :: u64
  mo_segment_len :: u64
  mo_page_size :: u64

record sys_calls =
  sys_open :: "string \<Rightarrow> bool \<Rightarrow> nat + int"
  sys_fstat :: "int \<Rightarrow> nat + u64"
  sys_mmap :: "int \<Rightarrow> bool \<Rightarrow> u64 \<Rightarrow> u64 \<Rightarrow> nat option"
  sys_munmap :: "map_pointer \<Rightarrow> u64 \<Rightarrow> nat option"
  sys_ftruncate :: "int \<Rightarrow> u64 \<Rightarrow> nat option"
  sys_getpagesize :: u64
  sys_error :: "nat \<Rightarrow> string"

definition mo_view :: "map_object \<Rightarrow> mmap_file" where
  "mo_view m =
     \<lparr>mm_bytes = mo_bytes m, mm_pointer = (mo_pointer m = Mapping), mm_size = mo_size m,
      mm_window = mo_window m, mm_segment_start = mo_segment_start m,
      mm_segment_len = mo_segment_len m, mm_page_size = mo_page_size m\<rparr>"

text \<open>Sequencing: an exception skips the rest, the object keeps what was assigned before it.\<close>

definition mo_bind :: "'a result \<times> 's \<Rightarrow> ('a \<Rightarrow> 's \<Rightarrow> 'b result \<times> 's) \<Rightarrow> 'b result \<times> 's" where
  "mo_bind p f = (case p of (Inl e, m) \<Rightarrow> (Inl e, m) | (Inr x, m) \<Rightarrow> f x m)"

lemma mo_bind_simps [simp]: "mo_bind (Inr x, m) f = f x m" "mo_bind (Inl e, m) f = (Inl e, m)"
  by (simp_all add: mo_bind_def)

section \<open>Operations\<close>

definition mo_default :: map_object where
  "mo_default = \<lparr>mo_bytes = [], mo_pointer = Nullptr, mo_size = 0, mo_fdes = -1, mo_is_read_only = False,
     mo_window = 0, mo_segment_start = 0, mo_segment_len = 0, mo_page_size = 0\<rparr>"

definition mo_checkWindow :: "map_object \<Rightarrow> map_object" where
  "mo_checkWindow m =
     (if mo_window m = 0 then m\<lparr>mo_window := 10 * mo_page_size m\<rparr>
      else
        let window_index = mo_window m div mo_page_size m;
            offset = mo_window m - window_index * mo_page_size m;
            window_index = (if offset \<noteq> 0 then window_index + 1 else window_index)
        in m\<lparr>mo_window := mo_page_size m * window_index\<rparr>)"

definition mo_mapped :: "map_object \<Rightarrow> u64 \<Rightarrow> u64 \<Rightarrow> bool" where
  "mo_mapped m bg en \<longleftrightarrow> bg \<ge> mo_segment_start m \<and> en \<le> mo_segment_start m + mo_segment_len m"

definition mo_empty :: "map_object \<Rightarrow> bool" where
  "mo_empty m \<longleftrightarrow> 0 = mo_size m"

definition mo_check_index :: "map_object \<Rightarrow> u64 \<Rightarrow> unit result \<times> map_object" where
  "mo_check_index m index =
     (if index \<ge> mo_size m then Inl (OutOfRange ''mapped file index out of range'') else Inr (), m)"

definition mo_unmap :: "sys_calls \<Rightarrow> map_object \<Rightarrow> unit result \<times> map_object" where
  "mo_unmap os m =
     (if mo_pointer m \<noteq> Nullptr then
        (case sys_munmap os (mo_pointer m) (mo_segment_len m) of
           Some err \<Rightarrow> (Inl (RuntimeError (sys_error os err)), m)
         | None \<Rightarrow> (Inr (), m\<lparr>mo_pointer := Nullptr, mo_segment_start := 0, mo_segment_len := 0\<rparr>))
      else (Inr (), m))"

definition mo_map_range :: "sys_calls \<Rightarrow> map_object \<Rightarrow> u64 \<Rightarrow> u64 \<Rightarrow> u64 result \<times> map_object" where
  "mo_map_range os m bg en =
     (if mo_mapped m bg en then (Inr bg, m)
      else
        mo_bind (mo_unmap os m) (\<lambda>_ m.
          let begin_base = mo_page_size m * (bg div mo_page_size m)
          in case sys_mmap os (mo_fdes m) (\<not> mo_is_read_only m) (en - begin_base) begin_base of
               Some err \<Rightarrow> (Inl (RuntimeError (sys_error os err)), m\<lparr>mo_pointer := MapFailed\<rparr>)
             | None \<Rightarrow> (Inr bg, m\<lparr>mo_pointer := Mapping, mo_segment_start := begin_base,
                                mo_segment_len := en - begin_base\<rparr>)))"

definition mo_map_segment :: "sys_calls \<Rightarrow> map_object \<Rightarrow> u64 \<Rightarrow> u64 result \<times> map_object" where
  "mo_map_segment os m segment =
     (let pos = segment * mo_window m in mo_map_range os m pos (pos + mo_window m))"

text \<open>
  \<^verbatim>\<open>open\<close> of the constructor answers the descriptor; \<open>content\<close> is what the file holds then. A
  constructor that throws leaves no object (its destructor does not run), only the members are released.
\<close>

definition mo_new :: "sys_calls \<Rightarrow> string \<Rightarrow> string \<Rightarrow> u64 \<Rightarrow> bool \<Rightarrow> map_object result" where
  "mo_new os name content window is_read_only =
     (case sys_open os name is_read_only of
        Inl err \<Rightarrow> Inl (RuntimeError (sys_error os err))
      | Inr fd \<Rightarrow>
          (case sys_fstat os fd of
             Inl err \<Rightarrow> Inl (RuntimeError (sys_error os err))
           | Inr st_size \<Rightarrow>
               let m = mo_default\<lparr>mo_bytes := content, mo_fdes := fd, mo_is_read_only := is_read_only,
                         mo_window := window, mo_page_size := sys_getpagesize os, mo_size := st_size\<rparr>
               in (case mo_map_segment os (mo_checkWindow m) 0 of
                     (Inl e, _) \<Rightarrow> Inl e
                   | (Inr _, m) \<Rightarrow> Inr m)))"

text \<open>
  The destructor: an exception that leaves it ends the program by \<^verbatim>\<open>std::terminate\<close> (a destructor
  is \<^verbatim>\<open>noexcept\<close>), here \<open>False\<close>.
\<close>

definition mo_destroy :: "sys_calls \<Rightarrow> map_object \<Rightarrow> bool" where
  "mo_destroy os m = (if mo_fdes m \<noteq> -1 then (case mo_unmap os m of (Inl _, _) \<Rightarrow> False | (Inr _, _) \<Rightarrow> True) else True)"

datatype 'a call_outcome = Returns 'a | Throws cpp_error | Terminates

text \<open>
  The clone is held by a \<^verbatim>\<open>unique_ptr\<close> while it is mapped, so an exception destroys it.
\<close>

definition mo_clone :: "sys_calls \<Rightarrow> map_object \<Rightarrow> map_object call_outcome" where
  "mo_clone os m =
     (let f = mo_default\<lparr>mo_bytes := mo_bytes m, mo_fdes := mo_fdes m, mo_size := mo_size m,
                mo_window := mo_window m, mo_page_size := mo_page_size m\<rparr>
      in case mo_map_segment os (mo_checkWindow f) 0 of
           (Inr _, f) \<Rightarrow> Returns f
         | (Inl e, f) \<Rightarrow> if mo_destroy os f then Throws e else Terminates)"

definition mo_resize :: "sys_calls \<Rightarrow> map_object \<Rightarrow> u64 \<Rightarrow> unit result \<times> map_object" where
  "mo_resize os m newsize =
     mo_bind (mo_unmap os m) (\<lambda>_ m.
       case sys_ftruncate os (mo_fdes m) newsize of
         Some err \<Rightarrow> (Inl (RuntimeError (sys_error os err)), m)
       | None \<Rightarrow>
           let m = m\<lparr>mo_bytes := take (unat newsize) (mo_bytes m) @
                       replicate (unat newsize - length (mo_bytes m)) (CHR 0x00), mo_size := newsize\<rparr>
           in mo_bind (mo_map_segment os m 0) (\<lambda>_ m. (Inr (), m)))"

text \<open>Reading through a pointer, checked against the mapping as in FileBuffers.\<close>

definition mo_deref :: "map_object \<Rightarrow> nat \<Rightarrow> nat \<Rightarrow> string result \<times> map_object" where
  "mo_deref m off n = (mm_deref (mo_view m) off n, m)"

definition mo_at :: "sys_calls \<Rightarrow> map_object \<Rightarrow> u64 \<Rightarrow> char result \<times> map_object" where
  "mo_at os m index =
     mo_bind (mo_check_index m index) (\<lambda>_ m.
       if mo_mapped m index (index + 1)
       then mo_bind (mo_deref m (unat (mo_segment_start m) + unat (index - mo_segment_start m)) 1)
              (\<lambda>t m. (Inr (hd t), m))
       else
         let offset = index mod mo_window m; segment = index div mo_window m
         in mo_bind (mo_map_segment os m segment) (\<lambda>p m.
              mo_bind (mo_deref m (unat p + unat offset) 1) (\<lambda>t m. (Inr (hd t), m))))"

definition mo_atRange :: "sys_calls \<Rightarrow> map_object \<Rightarrow> u64 \<Rightarrow> u64 \<Rightarrow> string result \<times> map_object" where
  "mo_atRange os m index len =
     mo_bind (mo_check_index m index) (\<lambda>_ m.
     mo_bind (if len > 0 then mo_check_index m (index + len - 1) else (Inr (), m)) (\<lambda>_ m.
     mo_bind (mo_map_range os m index (index + len)) (\<lambda>p m.
       if len = 0 then (Inr [], m) else mo_deref m (unat p) (unat len))))"

definition mo_atSegment :: "sys_calls \<Rightarrow> map_object \<Rightarrow> u64 \<Rightarrow> string result \<times> map_object" where
  "mo_atSegment os m index =
     mo_bind (mo_check_index m index) (\<lambda>_ m.
       let segment_pos = index div mo_window m * mo_window m;
           len = min (segment_pos + mo_window m) (mo_size m) - index
       in mo_bind (mo_map_range os m segment_pos (segment_pos + mo_window m)) (\<lambda>p m.
            mo_deref m (unat p + unat (index - segment_pos)) (unat len)))"

section \<open>When no call is refused\<close>

definition munmap_accepts :: "sys_calls \<Rightarrow> bool" where
  "munmap_accepts os \<longleftrightarrow> (\<forall>len. len \<noteq> 0 \<longrightarrow> sys_munmap os Mapping len = None)"

definition sys_permits :: "sys_calls \<Rightarrow> bool" where
  "sys_permits os \<longleftrightarrow>
     (\<forall>fd w len off. len \<noteq> 0 \<longrightarrow> sys_mmap os fd w len off = None) \<and>
     munmap_accepts os \<and>
     (\<forall>fd len. sys_ftruncate os fd len = None)"

lemma sys_permits_munmap: "sys_permits os \<Longrightarrow> munmap_accepts os"
  by (simp add: sys_permits_def)

definition mo_ok :: "map_object \<Rightarrow> bool" where
  "mo_ok m \<longleftrightarrow> mm_ok (mo_view m) \<and>
     (case mo_pointer m of MapFailed \<Rightarrow> False | Nullptr \<Rightarrow> mo_segment_start m = 0 \<and> mo_segment_len m = 0
      | Mapping \<Rightarrow> mo_segment_len m \<noteq> 0)"

text \<open>What identifies the open file: the mapping does not change it.\<close>

definition mo_same :: "map_object \<Rightarrow> map_object \<Rightarrow> bool" where
  "mo_same m m' \<longleftrightarrow> mo_fdes m' = mo_fdes m \<and> mo_is_read_only m' = mo_is_read_only m"

lemma mo_view_simps [simp]:
  "mm_bytes (mo_view m) = mo_bytes m" "mm_size (mo_view m) = mo_size m"
  "mm_window (mo_view m) = mo_window m" "mm_page_size (mo_view m) = mo_page_size m"
  "mm_segment_start (mo_view m) = mo_segment_start m" "mm_segment_len (mo_view m) = mo_segment_len m"
  "mm_pointer (mo_view m) \<longleftrightarrow> mo_pointer m = Mapping"
  by (simp_all add: mo_view_def)

lemma mo_mapped_view: "mo_mapped m bg en = mm_mapped (mo_view m) bg en"
  by (simp add: mo_mapped_def mm_mapped_def)

lemma mo_checkWindow_view: "mo_view (mo_checkWindow m) = mm_checkWindow (mo_view m)"
  by (simp add: mo_checkWindow_def mm_checkWindow_def mo_view_def Let_def)

lemma mo_checkWindow_same [simp]:
  "mo_pointer (mo_checkWindow m) = mo_pointer m" "mo_segment_start (mo_checkWindow m) = mo_segment_start m"
  "mo_segment_len (mo_checkWindow m) = mo_segment_len m" "mo_fdes (mo_checkWindow m) = mo_fdes m"
  "mo_is_read_only (mo_checkWindow m) = mo_is_read_only m"
  "mo_page_size (mo_checkWindow m) = mo_page_size m"
  by (simp_all add: mo_checkWindow_def Let_def)

lemma mo_unmap_accepted:
  "munmap_accepts os \<Longrightarrow> mo_ok m \<Longrightarrow>
   mo_unmap os m = (Inr (), m\<lparr>mo_pointer := Nullptr, mo_segment_start := 0, mo_segment_len := 0\<rparr>)"
  by (cases "mo_pointer m") (simp_all add: mo_unmap_def mo_ok_def munmap_accepts_def)

lemmas mo_unmap_ok = mo_unmap_accepted [OF sys_permits_munmap]

lemma page_base_lt:
  fixes bg en p :: u64
  assumes "bg < en"
  shows "en - p * (bg div p) \<noteq> 0"
proof -
  have "unat p * (unat bg div unat p) \<le> unat bg" by simp
  moreover from this have "unat p * (unat bg div unat p) < 2 ^ 64"
    by (rule order_le_less_trans) simp
  ultimately have "unat (p * (bg div p)) \<le> unat bg"
    by (subst unat_mult_u64) (simp_all add: unat_div_u64)
  then show ?thesis
    using assms by (auto simp: word_less_nat_alt)
qed

lemma mo_map_range_view:
  assumes os: "sys_permits os" and ok: "mo_ok m" and lt: "bg < en"
  shows "\<exists>m'. mo_map_range os m bg en = (Inr bg, m') \<and> mo_ok m' \<and> mo_same m m' \<and>
     mo_view m' = mm_map_range (mo_view m) bg en"
proof (cases "mo_mapped m bg en")
  case True
  then show ?thesis using ok by (simp add: mo_map_range_def mm_map_range_def mo_mapped_view mo_same_def)
next
  case False
  let ?b = "mo_page_size m * (bg div mo_page_size m)"
  let ?m = "m\<lparr>mo_pointer := Mapping, mo_segment_start := ?b, mo_segment_len := en - ?b\<rparr>"
  have mmap: "sys_mmap os fd w (en - ?b) ?b = None" for fd w
    using os page_base_lt [OF lt] by (simp add: sys_permits_def)
  have v: "mo_view ?m = mm_map_range (mo_view m) bg en"
    using False by (simp add: mm_map_range_def mo_mapped_view Let_def mm_unmap_def mo_view_def)
  have "mo_map_range os m bg en = (Inr bg, ?m)"
    using False by (simp add: mo_map_range_def mo_unmap_ok [OF os ok] mmap Let_def)
  moreover have "mm_ok (mo_view ?m)"
    using mm_map_range_ok [of "mo_view m" bg en] ok lt unfolding v by (simp add: mm_remap_def mo_ok_def)
  ultimately show ?thesis
    using v page_base_lt [OF lt] by (simp add: mo_ok_def mo_same_def)
qed

section \<open>The file as a string\<close>

text \<open>
  The abstract file is its content. A call of the public interface answers a part of the content or
  the exception for an index out of range; a resize cuts it or fills it with zeros.
\<close>

datatype map_call = At u64 | AtRange u64 u64 | AtSegment u64 | Resize u64

primrec mo_call :: "sys_calls \<Rightarrow> map_object \<Rightarrow> map_call \<Rightarrow> string result \<times> map_object" where
  "mo_call os m (At i) = mo_bind (mo_at os m i) (\<lambda>c m. (Inr [c], m))"
| "mo_call os m (AtRange i n) = mo_atRange os m i n"
| "mo_call os m (AtSegment i) = mo_atSegment os m i"
| "mo_call os m (Resize n) = mo_bind (mo_resize os m n) (\<lambda>_ m. (Inr [], m))"

abbreviation index_error :: "'a result" where
  "index_error \<equiv> Inl (OutOfRange ''mapped file index out of range'')"

primrec content_call :: "nat \<Rightarrow> string \<Rightarrow> map_call \<Rightarrow> string result \<times> string" where
  "content_call w s (At i) = (if unat i < length s then Inr [s ! unat i] else index_error, s)"
| "content_call w s (AtRange i n) =
     (if unat i + unat n \<le> length s then Inr (slice (unat i) (unat n) s) else index_error, s)"
| "content_call w s (AtSegment i) =
     (if unat i < length s then Inr (slice (unat i) (min (unat i div w * w + w) (length s) - unat i) s)
      else index_error, s)"
| "content_call w s (Resize n) =
     (Inr [], take (unat n) s @ replicate (unat n - length s) (CHR 0x00))"

text \<open>
  The calls the theorem is about: a range is not empty and does not wrap around, a file is not longer
  than the offsets of the system.
\<close>

primrec map_call_ok :: "map_call \<Rightarrow> bool" where
  "map_call_ok (At i) = True"
| "map_call_ok (AtRange i n) = (0 < n \<and> unat i + unat n < 2 ^ 64)"
| "map_call_ok (AtSegment i) = True"
| "map_call_ok (Resize n) = (unat n < 2 ^ 62)"

primrec mo_calls :: "sys_calls \<Rightarrow> map_object \<Rightarrow> map_call list \<Rightarrow> string result list \<times> map_object" where
  "mo_calls os m [] = ([], m)"
| "mo_calls os m (c # cs) =
     (case mo_call os m c of (r, m) \<Rightarrow> case mo_calls os m cs of (rs, m) \<Rightarrow> (r # rs, m))"

primrec content_calls :: "nat \<Rightarrow> string \<Rightarrow> map_call list \<Rightarrow> string result list \<times> string" where
  "content_calls w s [] = ([], s)"
| "content_calls w s (c # cs) =
     (case content_call w s c of (r, s) \<Rightarrow> case content_calls w s cs of (rs, s) \<Rightarrow> (r # rs, s))"

definition mo_sim :: "map_object \<Rightarrow> map_object \<Rightarrow> bool" where
  "mo_sim m m' \<longleftrightarrow> mo_ok m' \<and> mo_same m m' \<and> mo_bytes m' = mo_bytes m \<and> mo_window m' = mo_window m"

lemma mo_sim_refl: "mo_ok m \<Longrightarrow> mo_sim m m"
  by (simp add: mo_sim_def mo_same_def)

lemma mo_sim_viewI: "mo_ok m' \<Longrightarrow> mo_same m m' \<Longrightarrow> mm_remap (mo_view m) (mo_view m') \<Longrightarrow> mo_sim m m'"
  by (simp add: mo_sim_def mm_remap_def)

lemma mo_check_index_eq:
  "mo_ok m \<Longrightarrow> mo_check_index m i = (if unat i < length (mo_bytes m) then Inr () else index_error, m)"
  by (simp add: mo_check_index_def mo_ok_def mm_ok_def word_le_nat_alt)

lemma mo_at_string:
  assumes os: "sys_permits os" and ok: "mo_ok m" and i: "unat i < length (mo_bytes m)"
  shows "\<exists>m'. mo_at os m i = (Inr (mo_bytes m ! unat i), m') \<and> mo_sim m m'"
proof -
  have mm: "mm_ok (mo_view m)" using ok by (simp add: mo_ok_def)
  obtain v where v: "mm_at (mo_view m) i = Inr (mo_bytes m ! unat i, v)" "mm_remap (mo_view m) v"
    using mm_at_ok [OF mm, of i] i by auto
  have c: "mm_check_index (mo_view m) i = Inr ()" using mm i by (simp add: mm_check_index_ok)
  show ?thesis
  proof (cases "mo_mapped m i (i + 1)")
    case True
    then show ?thesis
      using v(1) c ok i mo_sim_refl [OF ok]
      by (auto simp: mo_at_def mo_check_index_eq mm_at_def mo_mapped_view mo_deref_def rbind_eq_Inr_conv
          Let_def)
  next
    case False
    let ?p = "i div mo_window m * mo_window m"
    have "?p < ?p + mo_window m"
      using window_bounds(5) [of "mo_window m" i] mm i by (simp add: mm_ok_def)
    from mo_map_range_view [OF os ok this] obtain m'
      where m': "mo_map_range os m ?p (?p + mo_window m) = (Inr ?p, m')" "mo_ok m'" "mo_same m m'"
        "mo_view m' = mm_map_range (mo_view m) ?p (?p + mo_window m)" by auto
    then show ?thesis
      using v c False ok i mo_sim_viewI [of m' m]
      by (auto simp: mo_at_def mo_check_index_eq mm_at_def mo_mapped_view mo_deref_def rbind_eq_Inr_conv
          mo_map_segment_def mm_map_segment_def Let_def)
  qed
qed

lemma mo_atRange_string:
  assumes os: "sys_permits os" and ok: "mo_ok m" and n: "0 < n"
    and le: "unat i + unat n \<le> length (mo_bytes m)"
  shows "\<exists>m'. mo_atRange os m i n = (Inr (slice (unat i) (unat n) (mo_bytes m)), m') \<and> mo_sim m m'"
proof -
  have mm: "mm_ok (mo_view m)" using ok by (simp add: mo_ok_def)
  obtain v where v: "mm_atRange (mo_view m) i n = Inr (slice (unat i) (unat n) (mo_bytes m), v)"
      "mm_remap (mo_view m) v"
    using mm_atRange_ok [OF mm n, of i] le by auto
  have n': "0 < unat n" using n by (simp add: word_less_nat_alt)
  have sum: "unat (i + n) = unat i + unat n"
    using le mm by (subst unat_add_u64) (auto simp: mm_ok_def)
  then have "unat (i + n - 1) = unat i + unat n - 1" using n' by (subst unat_sub_u64) simp_all
  then have c: "mo_check_index m (i + n - 1) = (Inr (), m)" "mo_check_index m i = (Inr (), m)"
    using ok le n' by (auto simp: mo_check_index_eq)
  have "i < i + n" using n' by (simp add: word_less_nat_alt sum)
  from mo_map_range_view [OF os ok this] obtain m'
    where m': "mo_map_range os m i (i + n) = (Inr i, m')" "mo_ok m'" "mo_same m m'"
      "mo_view m' = mm_map_range (mo_view m) i (i + n)" by auto
  then show ?thesis
    using v c n mo_sim_viewI [of m' m]
    by (auto simp: mo_atRange_def mm_atRange_def mo_deref_def rbind_eq_Inr_conv Let_def)
qed

lemma mo_atSegment_string:
  assumes os: "sys_permits os" and ok: "mo_ok m" and i: "unat i < length (mo_bytes m)"
  defines "w \<equiv> unat (mo_window m)"
  shows "\<exists>m'. mo_atSegment os m i =
      (Inr (slice (unat i) (min (unat i div w * w + w) (length (mo_bytes m)) - unat i) (mo_bytes m)), m') \<and>
      mo_sim m m'"
proof -
  have mm: "mm_ok (mo_view m)" using ok by (simp add: mo_ok_def)
  obtain v where v: "mm_atSegment (mo_view m) i =
        Inr (slice (unat i) (min (unat i div w * w + w) (length (mo_bytes m)) - unat i) (mo_bytes m), v)"
      "mm_remap (mo_view m) v"
    using mm_atSegment_ok [OF mm, of i] i by (auto simp: w_def)
  let ?p = "i div mo_window m * mo_window m"
  have "?p < ?p + mo_window m"
    using window_bounds(5) [of "mo_window m" i] mm i by (simp add: mm_ok_def)
  from mo_map_range_view [OF os ok this] obtain m'
    where m': "mo_map_range os m ?p (?p + mo_window m) = (Inr ?p, m')" "mo_ok m'" "mo_same m m'"
      "mo_view m' = mm_map_range (mo_view m) ?p (?p + mo_window m)" by auto
  then show ?thesis
    using v ok i mo_sim_viewI [of m' m]
    by (auto simp: mo_atSegment_def mo_check_index_eq mm_atSegment_def mo_deref_def rbind_eq_Inr_conv Let_def)
qed

lemma mo_map_segment_0:
  assumes "sys_permits os" "mo_ok m"
  shows "\<exists>m' p. mo_map_segment os m 0 = (Inr p, m') \<and> mo_sim m m'"
proof -
  have lt: "0 < mo_window m" using assms(2) by (simp add: mo_ok_def mm_ok_def word_gt_0)
  have mm: "mm_ok (mo_view m)" using assms(2) by (simp add: mo_ok_def)
  obtain m' where m': "mo_map_range os m 0 (mo_window m) = (Inr 0, m')" "mo_ok m'" "mo_same m m'"
      "mo_view m' = mm_map_range (mo_view m) 0 (mo_window m)"
    using mo_map_range_view [OF assms lt] by auto
  then have "mo_sim m m'"
    using mm_map_range_ok [OF mm lt] by (auto intro: mo_sim_viewI)
  then show ?thesis using m'(1) by (simp add: mo_map_segment_def)
qed

lemma mo_resize_string:
  assumes os: "sys_permits os" and ok: "mo_ok m" and n: "unat n < 2 ^ 62"
  shows "\<exists>m'. mo_resize os m n = (Inr (), m') \<and> mo_ok m' \<and> mo_same m m' \<and> mo_window m' = mo_window m \<and>
    mo_bytes m' = take (unat n) (mo_bytes m) @ replicate (unat n - length (mo_bytes m)) (CHR 0x00)"
proof -
  let ?m = "m\<lparr>mo_pointer := Nullptr, mo_segment_start := 0, mo_segment_len := 0,
      mo_bytes := take (unat n) (mo_bytes m) @ replicate (unat n - length (mo_bytes m)) (CHR 0x00),
      mo_size := n\<rparr>"
  have "mo_ok ?m"
    using ok n by (auto simp: mo_ok_def mm_ok_def)
  from mo_map_segment_0 [OF os this] obtain m' p
    where m': "mo_map_segment os ?m 0 = (Inr p, m')" "mo_sim ?m m'" by blast
  have "sys_ftruncate os fd n = None" for fd using os by (simp add: sys_permits_def)
  then have "mo_resize os m n = (Inr (), m')"
    using m'(1) by (simp add: mo_resize_def mo_unmap_ok [OF os ok] Let_def)
  then show ?thesis
    using m'(2) by (simp add: mo_sim_def mo_same_def)
qed

lemma mo_atRange_index_error:
  assumes ok: "mo_ok m" and n: "0 < n" "unat i + unat n < 2 ^ 64" "length (mo_bytes m) < unat i + unat n"
  shows "mo_atRange os m i n = (index_error, m)"
proof (cases "unat i < length (mo_bytes m)")
  case True
  have "unat (i + n - 1) = unat i + unat n - 1"
    using n by (subst unat_sub_u64) (auto simp: unat_add_u64 word_less_nat_alt)
  then have "\<not> unat (i + n - 1) < length (mo_bytes m)" using n by (simp add: word_less_nat_alt)
  then show ?thesis using True ok n(1) by (simp add: mo_atRange_def mo_check_index_eq)
qed (use ok in \<open>simp add: mo_atRange_def mo_check_index_eq\<close>)

lemma mo_call_simulates:
  assumes os: "sys_permits os" and ok: "mo_ok m" and c: "map_call_ok c"
  shows "\<exists>r m'. mo_call os m c = (r, m') \<and> mo_ok m' \<and> mo_same m m' \<and> mo_window m' = mo_window m \<and>
    content_call (unat (mo_window m)) (mo_bytes m) c = (r, mo_bytes m')"
proof (cases c)
  case (At i)
  show ?thesis
  proof (cases "unat i < length (mo_bytes m)")
    case True
    then show ?thesis using mo_at_string [OF os ok True] At by (auto simp: mo_sim_def)
  qed (use ok At in \<open>simp add: mo_at_def mo_check_index_eq mo_same_def\<close>)
next
  case (AtRange i n)
  show ?thesis
  proof (cases "unat i + unat n \<le> length (mo_bytes m)")
    case True
    then show ?thesis using mo_atRange_string [OF os ok _ True] AtRange c by (auto simp: mo_sim_def)
  qed (use ok AtRange c mo_atRange_index_error [OF ok, of n i os] in \<open>auto simp: mo_same_def\<close>)
next
  case (AtSegment i)
  show ?thesis
  proof (cases "unat i < length (mo_bytes m)")
    case True
    then show ?thesis using mo_atSegment_string [OF os ok True] AtSegment by (auto simp: mo_sim_def)
  qed (use ok AtSegment in \<open>simp add: mo_atSegment_def mo_check_index_eq mo_same_def\<close>)
next
  case (Resize n)
  then show ?thesis using mo_resize_string [OF os ok, of n] c by auto
qed

lemma mo_calls_simulate:
  assumes "sys_permits os" "mo_ok m" "list_all map_call_ok cs"
  shows "\<exists>rs m'. mo_calls os m cs = (rs, m') \<and> mo_ok m' \<and> mo_same m m' \<and>
    content_calls (unat (mo_window m)) (mo_bytes m) cs = (rs, mo_bytes m')"
  using assms(2,3)
proof (induction cs arbitrary: m)
  case Nil
  then show ?case by (simp add: mo_same_def)
next
  case (Cons c cs)
  then obtain r m1 where m1: "mo_call os m c = (r, m1)" "mo_ok m1" "mo_same m m1"
      "mo_window m1 = mo_window m" "content_call (unat (mo_window m)) (mo_bytes m) c = (r, mo_bytes m1)"
    using mo_call_simulates [OF assms(1), of m c] by auto
  moreover obtain rs m2 where "mo_calls os m1 cs = (rs, m2)" "mo_ok m2" "mo_same m1 m2"
      "content_calls (unat (mo_window m1)) (mo_bytes m1) cs = (rs, mo_bytes m2)"
    using Cons.IH [OF m1(2)] Cons.prems(2) by auto
  ultimately show ?case by (simp add: mo_same_def)
qed

lemma mo_new_ok:
  assumes os: "sys_permits os" and p: "sys_getpagesize os \<noteq> 0" "unat (sys_getpagesize os) < 2 ^ 32"
    and w: "unat window < 2 ^ 60" and len: "length content < 2 ^ 62"
    and op: "sys_open os name ro = Inr fd" and st: "sys_fstat os fd = Inr (of_nat (length content))"
  shows "\<exists>m. mo_new os name content window ro = Inr m \<and> mo_ok m \<and> mo_bytes m = content \<and>
    mo_fdes m = fd \<and> mo_is_read_only m = ro"
proof -
  define m where "m = mo_default\<lparr>mo_bytes := content, mo_fdes := fd, mo_is_read_only := ro,
     mo_window := window, mo_page_size := sys_getpagesize os, mo_size := of_nat (length content)\<rparr>"
  have "mm_ok (mm_checkWindow (mo_view m))"
    by (rule mm_checkWindow_ok) (use p w len in \<open>simp_all add: m_def mo_default_def\<close>)
  then have "mo_ok (mo_checkWindow m)"
    by (simp add: mo_ok_def mo_checkWindow_view m_def mo_default_def)
  from mo_map_segment_0 [OF os this] obtain m' q
    where m': "mo_map_segment os (mo_checkWindow m) 0 = (Inr q, m')" "mo_sim (mo_checkWindow m) m'"
    by blast
  have "mo_new os name content window ro = Inr m'"
    using m'(1) op st by (simp add: mo_new_def Let_def m_def)
  then show ?thesis
    using m'(2) by (simp add: mo_sim_def mo_same_def mo_checkWindow_def Let_def m_def split: if_splits)
qed

lemma mo_destroy_ok: "sys_permits os \<Longrightarrow> mo_ok m \<Longrightarrow> mo_destroy os m"
  by (simp add: mo_destroy_def mo_unmap_ok)

section \<open>After a refused mapping\<close>

text \<open>
  A refused \<^verbatim>\<open>mmap\<close> leaves \<^verbatim>\<open>MAP_FAILED\<close> in \<^verbatim>\<open>pointer_\<close>, which \<^verbatim>\<open>unmap\<close> takes for a mapping. The
  documented answer of \<^verbatim>\<open>munmap\<close> for this address, which is no multiple of the page size, is
  \<^verbatim>\<open>EINVAL\<close>.
\<close>

definition munmap_rejects_failed :: "sys_calls \<Rightarrow> bool" where
  "munmap_rejects_failed os \<longleftrightarrow> (\<forall>len. sys_munmap os MapFailed len \<noteq> None)"

definition mo_poisoned :: "map_object \<Rightarrow> bool" where
  "mo_poisoned m \<longleftrightarrow> mo_pointer m = MapFailed \<and> mo_segment_start m = 0 \<and> mo_segment_len m = 0 \<and>
     mm_ok (mo_view m)"

lemma mo_unmap_poisoned:
  "munmap_rejects_failed os \<Longrightarrow> mo_pointer m = MapFailed \<Longrightarrow> \<exists>e. mo_unmap os m = (Inl (RuntimeError e), m)"
  by (auto simp: mo_unmap_def munmap_rejects_failed_def split: option.splits)

lemma mo_map_range_poisoned:
  assumes "munmap_rejects_failed os" "mo_poisoned m" "en \<noteq> 0"
  shows "\<exists>e. mo_map_range os m bg en = (Inl (RuntimeError e), m)"
proof -
  have "\<not> mo_mapped m bg en" using assms by (simp add: mo_mapped_def mo_poisoned_def)
  moreover obtain e where "mo_unmap os m = (Inl (RuntimeError e), m)"
    using mo_unmap_poisoned [OF assms(1), of m] assms(2) by (auto simp: mo_poisoned_def)
  ultimately show ?thesis by (simp add: mo_map_range_def)
qed

lemma mo_map_range_poisons:
  assumes os: "munmap_accepts os" and ok: "mo_ok m" and nm: "\<not> mo_mapped m bg en"
    and no: "\<And>len off. sys_mmap os (mo_fdes m) (\<not> mo_is_read_only m) len off = Some err"
  shows "\<exists>m'. mo_map_range os m bg en = (Inl (RuntimeError (sys_error os err)), m') \<and> mo_poisoned m' \<and>
     mo_same m m' \<and> mo_bytes m' = mo_bytes m"
  using nm ok by (auto simp: mo_map_range_def Let_def mo_poisoned_def mo_ok_def mm_ok_def mo_same_def
      mo_unmap_accepted [OF os ok] no)

lemma mo_call_poisoned:
  assumes os: "munmap_rejects_failed os" and m: "mo_poisoned m" and c: "map_call_ok c"
  shows "\<exists>e. mo_call os m c = (Inl e, m)"
proof -
  have mm: "mm_ok (mo_view m)" using m by (simp add: mo_poisoned_def)
  have ci: "mo_check_index m i = (if unat i < length (mo_bytes m) then Inr () else index_error, m)" for i
    using mm by (simp add: mo_check_index_def mm_ok_def word_le_nat_alt)
  note mr = mo_map_range_poisoned [OF os m]
  have win: "i div mo_window m * mo_window m + mo_window m \<noteq> 0" if "unat i < length (mo_bytes m)" for i
    using window_bounds(4) [of "mo_window m" i] mm that by (auto simp: mm_ok_def)
  have unm: "\<not> mo_mapped m i (i + 1)" if "unat i < length (mo_bytes m)" for i
  proof -
    have "unat (i + 1) = unat i + 1" using that mm by (subst unat_add_u64) (simp_all add: mm_ok_def)
    then show ?thesis using m by (auto simp: mo_mapped_def mo_poisoned_def)
  qed
  show ?thesis
  proof (cases c)
    case (At i)
    then show ?thesis
      using mr [OF win, of i "i div mo_window m * mo_window m"] unm [of i]
      by (auto simp: mo_at_def ci mo_map_segment_def Let_def)
  next
    case (AtRange i n)
    then have "unat (i + n) = unat i + unat n" using c by (simp add: unat_add_u64)
    then have "i + n \<noteq> 0" using AtRange c by (auto simp: word_less_nat_alt)
    then show ?thesis using mr [of "i + n" i] AtRange by (auto simp: mo_atRange_def ci)
  next
    case (AtSegment i)
    then show ?thesis
      using mr [OF win, of i "i div mo_window m * mo_window m"]
      by (auto simp: mo_atSegment_def ci Let_def)
  next
    case (Resize n)
    then show ?thesis
      using mo_unmap_poisoned [OF os, of m] m by (auto simp: mo_resize_def mo_poisoned_def)
  qed
qed

lemma mo_calls_poisoned:
  assumes "munmap_rejects_failed os" "mo_poisoned m" "list_all map_call_ok cs"
  shows "\<exists>rs. mo_calls os m cs = (rs, m) \<and> length rs = length cs \<and> list_all (\<lambda>r. \<exists>e. r = Inl e) rs"
  using assms(3)
proof (induction cs)
  case (Cons c cs)
  then show ?case using mo_call_poisoned [OF assms(1,2), of c] by auto
qed simp

lemma mo_destroy_poisoned:
  "munmap_rejects_failed os \<Longrightarrow> mo_poisoned m \<Longrightarrow> mo_fdes m \<noteq> -1 \<Longrightarrow> \<not> mo_destroy os m"
  using mo_unmap_poisoned [of os m] by (auto simp: mo_destroy_def mo_poisoned_def)

section \<open>Properties of one mapped file\<close>

text \<open>Systems for concrete runs: one that refuses nothing, and one that refuses to map (\<^verbatim>\<open>ENOMEM\<close>).\<close>

definition open_sys :: "(int \<Rightarrow> nat + u64) \<Rightarrow> sys_calls" where
  "open_sys fstat = \<lparr>sys_open = (\<lambda>_ _. Inr 3), sys_fstat = fstat,
     sys_mmap = (\<lambda>_ _ len _. if len = 0 then Some 22 else None),
     sys_munmap = (\<lambda>p len. if p = MapFailed \<or> len = 0 then Some 22 else None),
     sys_ftruncate = (\<lambda>_ _. None), sys_getpagesize = 4096, sys_error = (\<lambda>_. ''error'')\<rparr>"

lemma open_sys_simps [simp]:
  "sys_permits (open_sys fstat)" "munmap_rejects_failed (open_sys fstat)" "munmap_accepts (open_sys fstat)"
  "sys_getpagesize (open_sys fstat) = 4096" "sys_open (open_sys fstat) name ro = Inr 3"
  "sys_fstat (open_sys fstat) = fstat"
  by (simp_all add: open_sys_def sys_permits_def munmap_accepts_def munmap_rejects_failed_def)

text \<open>
  C11. While the system refuses no call, a mapped file is its content: opening it succeeds, and any
  sequence of \<^verbatim>\<open>at\<close>, \<^verbatim>\<open>atRange\<close>, \<^verbatim>\<open>atSegment\<close> and \<^verbatim>\<open>resize\<close> answers exactly what the same calls on
  the string of its bytes answer, the exceptions for an index out of range included, whatever window
  is mapped when a call is made; after them the object is destroyed without an exception.
\<close>

theorem mapped_file_is_its_content:
  assumes "sys_permits os" "sys_getpagesize os \<noteq> 0" "unat (sys_getpagesize os) < 2 ^ 32"
    and "unat window < 2 ^ 60" "length content < 2 ^ 62"
    and "sys_open os name ro = Inr fd" "sys_fstat os fd = Inr (of_nat (length content))"
    and "list_all map_call_ok calls"
  shows "\<exists>m rs m'. mo_new os name content window ro = Inr m \<and> mo_calls os m calls = (rs, m') \<and>
    content_calls (unat (mo_window m)) content calls = (rs, mo_bytes m') \<and> mo_destroy os m'"
proof -
  obtain m where m: "mo_new os name content window ro = Inr m" "mo_ok m" "mo_bytes m = content"
    using mo_new_ok [OF assms(1-7)] by blast
  obtain rs m' where "mo_calls os m calls = (rs, m')" "mo_ok m'"
      "content_calls (unat (mo_window m)) (mo_bytes m) calls = (rs, mo_bytes m')"
    using mo_calls_simulate [OF assms(1) m(2) assms(8)] by blast
  with m show ?thesis using mo_destroy_ok [OF assms(1)] by blast
qed

theorem mapped_file_is_its_content_witness:
  "\<exists>m rs m'. mo_new (open_sys (\<lambda>_. Inr 5)) ''f'' ''hello'' 0 False = Inr m \<and>
     mo_calls (open_sys (\<lambda>_. Inr 5)) m [At 1, Resize 7, AtRange 3 4, At 7] = (rs, m') \<and>
     content_calls (unat (mo_window m)) ''hello'' [At 1, Resize 7, AtRange 3 4, At 7] = (rs, mo_bytes m') \<and>
     mo_destroy (open_sys (\<lambda>_. Inr 5)) m'"
  by (rule mapped_file_is_its_content [of _ _ _ _ _ 3]) simp_all

text \<open>
  C12. One refused \<^verbatim>\<open>mmap\<close> is final. When the window of an index cannot be mapped, the call throws
  and the object keeps \<^verbatim>\<open>MAP_FAILED\<close> as its pointer: every later call throws as well, also when the
  system would grant all of them again, and the destructor throws, which ends the program.
\<close>

theorem refused_mapping_is_final:
  assumes "mo_ok m" "mo_fdes m \<noteq> -1" "unat i < length (mo_bytes m)" "\<not> mo_mapped m i (i + 1)"
    and "munmap_accepts os" "\<And>len off. sys_mmap os (mo_fdes m) (\<not> mo_is_read_only m) len off = Some err"
    and "munmap_rejects_failed os'" "list_all map_call_ok calls"
  shows "\<exists>m' rs. mo_at os m i = (Inl (RuntimeError (sys_error os err)), m') \<and>
    mo_calls os' m' calls = (rs, m') \<and> length rs = length calls \<and> list_all (\<lambda>r. \<exists>e. r = Inl e) rs \<and>
    \<not> mo_destroy os' m'"
proof -
  let ?p = "i div mo_window m * mo_window m"
  have p: "unat ?p \<le> unat i" "unat i < unat (?p + mo_window m)"
    using window_bounds(3,4) [of "mo_window m" i] assms(1,3) by (simp_all add: mo_ok_def mm_ok_def)
  have "unat (i + 1) = unat i + 1"
    using assms(1,3) by (subst unat_add_u64) (simp_all add: mo_ok_def mm_ok_def)
  then have "\<not> mo_mapped m ?p (?p + mo_window m)"
    using p assms(4) by (auto simp: mo_mapped_def word_le_nat_alt)
  from mo_map_range_poisons [OF assms(5,1) this assms(6)] obtain m'
    where m': "mo_map_range os m ?p (?p + mo_window m) = (Inl (RuntimeError (sys_error os err)), m')"
      "mo_poisoned m'" "mo_same m m'" by blast
  have "mo_at os m i = (Inl (RuntimeError (sys_error os err)), m')"
    using assms(1,3,4) m'(1) by (simp add: mo_at_def mo_check_index_eq mo_map_segment_def Let_def)
  then show ?thesis
    using mo_calls_poisoned [OF assms(7) m'(2) assms(8)] mo_destroy_poisoned [OF assms(7) m'(2)]
      assms(2) m'(3) by (auto simp: mo_same_def)
qed

theorem refused_mapping_is_final_witness:
  "\<exists>m' rs. mo_at ((open_sys (\<lambda>_. Inr 2))\<lparr>sys_mmap := \<lambda>_ _ _ _. Some 12\<rparr>)
       \<lparr>mo_bytes = ''ab'', mo_pointer = Mapping, mo_size = 2, mo_fdes = 3, mo_is_read_only = False,
        mo_window = 1, mo_segment_start = 0, mo_segment_len = 1, mo_page_size = 1\<rparr> 1 =
       (Inl (RuntimeError ''error''), m') \<and>
     mo_calls (open_sys (\<lambda>_. Inr 2)) m' [At 0, Resize 1] = (rs, m') \<and> length rs = Suc (Suc 0) \<and>
     list_all (\<lambda>r. \<exists>e. r = Inl e) rs \<and> \<not> mo_destroy (open_sys (\<lambda>_. Inr 2)) m'"
proof -
  let ?m = "\<lparr>mo_bytes = ''ab'', mo_pointer = Mapping, mo_size = 2, mo_fdes = 3, mo_is_read_only = False,
    mo_window = 1, mo_segment_start = 0, mo_segment_len = 1, mo_page_size = 1\<rparr>"
  let ?os = "(open_sys (\<lambda>_. Inr 2))\<lparr>sys_mmap := \<lambda>_ _ _ _. Some 12\<rparr>"
  have "mo_ok ?m" by (simp add: mo_ok_def mm_ok_def)
  moreover have "munmap_accepts ?os" by (simp add: munmap_accepts_def open_sys_def)
  moreover have "\<not> mo_mapped ?m 1 (1 + 1)" by (simp add: mo_mapped_def word_le_nat_alt)
  moreover have "sys_error ?os 12 = ''error''" "\<And>fd w len off. sys_mmap ?os fd w len off = Some 12"
    by (simp_all add: open_sys_def)
  ultimately show ?thesis
    using refused_mapping_is_final [of ?m 1 ?os 12 "open_sys (\<lambda>_. Inr 2)" "[At 0, Resize 1]"]
    by (simp del: mo_calls.simps)
qed

lemma mo_clone_start:
  assumes "mo_ok m"
  defines "f \<equiv> mo_default\<lparr>mo_bytes := mo_bytes m, mo_fdes := mo_fdes m, mo_size := mo_size m,
     mo_window := mo_window m, mo_page_size := mo_page_size m\<rparr>"
  shows "mo_ok f" "mo_checkWindow f = f"
proof -
  show ok: "mo_ok f" using assms(1) by (simp add: f_def mo_ok_def mm_ok_def mo_default_def)
  then have "mm_checkWindow (mo_view f) = mo_view f" by (simp add: mm_checkWindow_id mo_ok_def)
  then have "mo_window (mo_checkWindow f) = mo_window f"
    by (metis mo_checkWindow_view mo_view_simps(3))
  then show "mo_checkWindow f = f" by (simp add: mo_checkWindow_def Let_def split: if_splits)
qed

text \<open>
  A clone is always mapped for writing, since \<^verbatim>\<open>clone\<close> does not copy \<^verbatim>\<open>is_read_only_\<close>. When no
  call is refused, the clone has the content and the descriptor of its original. When the system
  refuses the mapping, as it does for every descriptor opened with \<^verbatim>\<open>O_RDONLY\<close> (\<^verbatim>\<open>EACCES\<close>), the
  program ends: the half-made clone is destroyed with \<^verbatim>\<open>MAP_FAILED\<close> as its pointer, and the
  exception of the destructor is not caught.
\<close>

theorem clone_maps_writable:
  assumes "mo_ok m"
  shows "(sys_permits os \<longrightarrow> (\<exists>f. mo_clone os m = Returns f \<and> mo_ok f \<and> mo_bytes f = mo_bytes m \<and>
      mo_fdes f = mo_fdes m \<and> \<not> mo_is_read_only f)) \<and>
    (munmap_rejects_failed os \<and> mo_fdes m \<noteq> -1 \<and>
      (\<forall>len off. sys_mmap os (mo_fdes m) True len off = Some err) \<longrightarrow> mo_clone os m = Terminates)"
proof (intro conjI impI)
  define f where "f = mo_default\<lparr>mo_bytes := mo_bytes m, mo_fdes := mo_fdes m, mo_size := mo_size m,
     mo_window := mo_window m, mo_page_size := mo_page_size m\<rparr>"
  have f: "mo_ok f" "mo_checkWindow f = f" using mo_clone_start [OF assms] by (simp_all add: f_def)
  have cl: "mo_clone os m = (case mo_map_segment os f 0 of (Inr _, f) \<Rightarrow> Returns f
      | (Inl e, f) \<Rightarrow> if mo_destroy os f then Throws e else Terminates)"
    using f(2) by (simp add: mo_clone_def f_def Let_def)
  show "\<exists>f. mo_clone os m = Returns f \<and> mo_ok f \<and> mo_bytes f = mo_bytes m \<and> mo_fdes f = mo_fdes m \<and>
      \<not> mo_is_read_only f" if "sys_permits os"
    using mo_map_segment_0 [OF that f(1)]
    by (auto simp: cl mo_sim_def mo_same_def) (simp_all add: f_def mo_default_def)
  assume os: "munmap_rejects_failed os \<and> mo_fdes m \<noteq> -1 \<and>
      (\<forall>len off. sys_mmap os (mo_fdes m) True len off = Some err)"
  have "mo_window f \<noteq> 0" using f(1) by (simp add: mo_ok_def mm_ok_def)
  then have "\<not> mo_mapped f 0 (mo_window f)" by (simp add: mo_mapped_def f_def mo_default_def)
  then have ms: "mo_map_segment os f 0 = (Inl (RuntimeError (sys_error os err)), f\<lparr>mo_pointer := MapFailed\<rparr>)"
    using os by (simp add: mo_map_segment_def mo_map_range_def mo_unmap_def Let_def) (simp add: f_def mo_default_def)
  have "mo_poisoned (f\<lparr>mo_pointer := MapFailed\<rparr>)"
    using f(1) by (simp add: mo_poisoned_def mo_ok_def mm_ok_def) (simp add: f_def mo_default_def)
  then show "mo_clone os m = Terminates"
    using os mo_destroy_poisoned [of os "f\<lparr>mo_pointer := MapFailed\<rparr>"] by (simp add: cl ms) (simp add: f_def)
qed

theorem clone_maps_writable_witness:
  "mo_clone ((open_sys (\<lambda>_. Inr 2))\<lparr>sys_mmap := \<lambda>_ w _ _. if w then Some 13 else None\<rparr>)
     \<lparr>mo_bytes = ''ab'', mo_pointer = Mapping, mo_size = 2, mo_fdes = 3, mo_is_read_only = True,
      mo_window = 1, mo_segment_start = 0, mo_segment_len = 1, mo_page_size = 1\<rparr> = Terminates"
  by (rule clone_maps_writable [THEN conjunct2, THEN mp, of _ _ 13])
    (simp_all add: mo_ok_def mm_ok_def munmap_rejects_failed_def open_sys_def)

section \<open>The life of file buffers\<close>

text \<open>
  The buffers of the process, each with its \<^verbatim>\<open>MMapFile\<close>, the name in its \<^verbatim>\<open>FileHolder\<close> and the
  number of the pair of shared objects (\<^verbatim>\<open>FileDescriptor\<close>, \<^verbatim>\<open>FileHolder\<close>) it owns with its copies;
  the open descriptors and the names of the files that exist.
\<close>

record file_pool =
  fp_buffers :: "(nat \<times> map_object \<times> string) list"
  fp_open :: "int list"
  fp_files :: "string list"
  fp_next :: nat

definition fd_destroy :: "int \<Rightarrow> file_pool \<Rightarrow> file_pool" where
  "fd_destroy fdes p = (if fdes \<noteq> -1 then p\<lparr>fp_open := remove1 fdes (fp_open p)\<rparr> else p)"

definition fh_destroy :: "string \<Rightarrow> file_pool \<Rightarrow> file_pool" where
  "fh_destroy filename p = p\<lparr>fp_files := removeAll filename (fp_files p)\<rparr>"

text \<open>
  The constructor: \<^verbatim>\<open>open\<close> creates the file if there is none; when the constructor of \<^verbatim>\<open>MMapFile\<close>
  throws later, the descriptor is closed, but there is no \<^verbatim>\<open>FileHolder\<close> yet that would remove the file.
\<close>

definition fp_create :: "sys_calls \<Rightarrow> string \<Rightarrow> string \<Rightarrow> u64 \<Rightarrow> file_pool \<Rightarrow> unit call_outcome \<times> file_pool" where
  "fp_create os name content window p =
     (case sys_open os name False of
        Inl err \<Rightarrow> (Throws (RuntimeError (sys_error os err)), p)
      | Inr fd \<Rightarrow>
          let p = p\<lparr>fp_open := fd # fp_open p, fp_files := List.insert name (fp_files p)\<rparr>
          in (case mo_new os name content window False of
                Inl e \<Rightarrow> (Throws e, fd_destroy fd p)
              | Inr m \<Rightarrow> (Returns (), p\<lparr>fp_buffers := (fp_next p, m, name) # fp_buffers p,
                                       fp_next := Suc (fp_next p)\<rparr>)))"

definition fp_getCopy :: "sys_calls \<Rightarrow> nat \<Rightarrow> file_pool \<Rightarrow> unit call_outcome \<times> file_pool" where
  "fp_getCopy os i p =
     (case fp_buffers p ! i of (k, m, name) \<Rightarrow>
        (case mo_clone os m of
           Returns f \<Rightarrow> (Returns (), p\<lparr>fp_buffers := (k, f, name) # fp_buffers p\<rparr>)
         | Throws e \<Rightarrow> (Throws e, p)
         | Terminates \<Rightarrow> (Terminates, p)))"

text \<open>
  The destructor releases the members in reverse order: the \<^verbatim>\<open>FileHolder\<close>, then the \<^verbatim>\<open>MMapFile\<close>, which
  unmaps and releases the \<^verbatim>\<open>FileDescriptor\<close>. The last owner destroys a shared object.
\<close>

definition fp_destroy :: "sys_calls \<Rightarrow> nat \<Rightarrow> file_pool \<Rightarrow> unit call_outcome \<times> file_pool" where
  "fp_destroy os i p =
     (case fp_buffers p ! i of (k, m, name) \<Rightarrow>
        let rest = take i (fp_buffers p) @ drop (Suc i) (fp_buffers p);
            last = (k \<notin> set (map fst rest));
            p = (if last then fh_destroy name p else p)
        in if \<not> mo_destroy os m then (Terminates, p)
           else
             let p = (if last then fd_destroy (mo_fdes m) p else p)
             in (Returns (), p\<lparr>fp_buffers := rest\<rparr>))"

text \<open>
  A run of the process: a descriptor that \<^verbatim>\<open>open\<close> answers is not open already, and the name of a new
  file is not the name of another live buffer (the callers take names that do not exist).
\<close>

inductive fp_reach :: "file_pool \<Rightarrow> bool" where
  fp_start: "fp_reach \<lparr>fp_buffers = [], fp_open = [], fp_files = files, fp_next = 0\<rparr>"
| fp_create: "fp_reach p \<Longrightarrow> name \<notin> (\<lambda>(k, m, n). n) ` set (fp_buffers p) \<Longrightarrow>
    (\<And>fd. sys_open os name False = Inr fd \<Longrightarrow> 0 \<le> fd \<and> fd \<notin> set (fp_open p)) \<Longrightarrow>
    fp_create os name content window p = (r, p') \<Longrightarrow> fp_reach p'"
| fp_getCopy: "fp_reach p \<Longrightarrow> i < length (fp_buffers p) \<Longrightarrow> fp_getCopy os i p = (r, p') \<Longrightarrow> fp_reach p'"
| fp_destroy: "fp_reach p \<Longrightarrow> i < length (fp_buffers p) \<Longrightarrow> fp_destroy os i p = (Returns (), p') \<Longrightarrow>
    fp_reach p'"

text \<open>
  The invariant is on the shared pairs that are alive: number, descriptor and name determine each
  other, the open descriptors are exactly theirs, and their files exist.
\<close>

definition fp_shared :: "file_pool \<Rightarrow> (nat \<times> int \<times> string) set" where
  "fp_shared p = (\<lambda>(k, m, n). (k, mo_fdes m, n)) ` set (fp_buffers p)"

definition fp_ok :: "file_pool \<Rightarrow> bool" where
  "fp_ok p \<longleftrightarrow>
     distinct (fp_open p) \<and> (\<forall>fd\<in>set (fp_open p). 0 \<le> fd) \<and>
     set (fp_open p) = (fst \<circ> snd) ` fp_shared p \<and> (snd \<circ> snd) ` fp_shared p \<subseteq> set (fp_files p) \<and>
     (\<forall>x\<in>fp_shared p. fst x < fp_next p) \<and>
     inj_on fst (fp_shared p) \<and> inj_on (fst \<circ> snd) (fp_shared p) \<and> inj_on (snd \<circ> snd) (fp_shared p)"

lemma set_nth_drop:
  assumes "i < length xs"
  shows "set xs = insert (xs ! i) (set (take i xs @ drop (Suc i) xs))"
  using arg_cong [OF id_take_nth_drop [OF assms], of set] by auto

lemma mo_map_segment_fdes: "mo_map_segment os m k = (r, m') \<Longrightarrow> mo_fdes m' = mo_fdes m"
  by (auto simp: mo_map_segment_def mo_map_range_def mo_unmap_def mo_bind_def Let_def
      split: option.splits if_splits)

lemma mo_new_fdes: "mo_new os name content w ro = Inr m \<Longrightarrow> sys_open os name ro = Inr (mo_fdes m)"
  by (auto simp: mo_new_def Let_def split: sum.splits prod.splits dest!: mo_map_segment_fdes)

lemma mo_clone_fdes: "mo_clone os m = Returns f \<Longrightarrow> mo_fdes f = mo_fdes m"
  by (auto simp: mo_clone_def Let_def split: sum.splits prod.splits if_splits dest!: mo_map_segment_fdes)

lemma fp_create_ok:
  assumes ok: "fp_ok p" and name: "name \<notin> (\<lambda>(k, m, n). n) ` set (fp_buffers p)"
    and fresh: "\<And>fd. sys_open os name False = Inr fd \<Longrightarrow> 0 \<le> fd \<and> fd \<notin> set (fp_open p)"
    and r: "fp_create os name content window p = (r, p')"
  shows "fp_ok p'"
proof (cases "sys_open os name False")
  case (Inl e)
  then show ?thesis using ok r by (simp add: fp_create_def)
next
  case (Inr fd)
  note fd = fresh [OF Inr]
  show ?thesis
  proof (cases "mo_new os name content window False")
    case (Inl e)
    then have "p' = p\<lparr>fp_files := List.insert name (fp_files p)\<rparr>"
      using r Inr fd by (auto simp: fp_create_def Let_def fd_destroy_def)
    moreover from this have "fp_shared p' = fp_shared p" by (simp add: fp_shared_def)
    ultimately show ?thesis using ok by (auto simp: fp_ok_def)
  next
    case (Inr m)
    have m: "mo_fdes m = fd" using mo_new_fdes [OF Inr] \<open>sys_open os name False = Inr fd\<close> by simp
    have p': "p' = p\<lparr>fp_open := fd # fp_open p, fp_files := List.insert name (fp_files p),
        fp_buffers := (fp_next p, m, name) # fp_buffers p, fp_next := Suc (fp_next p)\<rparr>"
      using r Inr \<open>sys_open os name False = Inr fd\<close> by (simp add: fp_create_def Let_def)
    have sh: "fp_shared p' = insert (fp_next p, fd, name) (fp_shared p)"
      by (simp add: p' fp_shared_def m)
    have "name \<notin> (snd \<circ> snd) ` fp_shared p" using name by (force simp: fp_shared_def)
    moreover have "fd \<notin> (fst \<circ> snd) ` fp_shared p" using ok fd by (simp add: fp_ok_def)
    moreover have "fp_next p \<notin> fst ` fp_shared p" using ok by (fastforce simp: fp_ok_def)
    ultimately show ?thesis
      using ok fd unfolding fp_ok_def sh by (auto simp: p' less_Suc_eq inj_on_insert)
  qed
qed

lemma fp_getCopy_ok:
  assumes ok: "fp_ok p" and i: "i < length (fp_buffers p)" and r: "fp_getCopy os i p = (r, p')"
  shows "fp_ok p'"
proof -
  obtain k m name where b: "fp_buffers p ! i = (k, m, name)" by (cases "fp_buffers p ! i") auto
  then have mem: "(k, m, name) \<in> set (fp_buffers p)" using i by (metis nth_mem)
  show ?thesis
  proof (cases "mo_clone os m")
    case (Returns f)
    then have p': "p' = p\<lparr>fp_buffers := (k, f, name) # fp_buffers p\<rparr>"
      using r b by (simp add: fp_getCopy_def)
    have "fp_shared p' = insert (k, mo_fdes m, name) (fp_shared p)"
      using mo_clone_fdes [OF Returns] by (simp add: p' fp_shared_def)
    also have "\<dots> = fp_shared p" using mem by (force simp: fp_shared_def)
    finally show ?thesis using ok unfolding fp_ok_def by (simp add: p')
  qed (use r b ok in \<open>simp_all add: fp_getCopy_def\<close>)
qed

lemma fp_destroy_ok:
  assumes ok: "fp_ok p" and i: "i < length (fp_buffers p)" and r: "fp_destroy os i p = (Returns (), p')"
  shows "fp_ok p'"
proof -
  obtain k m name where b: "fp_buffers p ! i = (k, m, name)" by (cases "fp_buffers p ! i") auto
  define rest where "rest = take i (fp_buffers p) @ drop (Suc i) (fp_buffers p)"
  let ?x = "(k, mo_fdes m, name)" and ?R = "(\<lambda>(k, m, n). (k, mo_fdes m, n)) ` set rest"
  have S: "fp_shared p = insert ?x ?R"
    using set_nth_drop [OF i] by (simp add: fp_shared_def rest_def b image_Un)
  have eq: "p' = (if k \<in> fst ` set rest then p else fd_destroy (mo_fdes m) (fh_destroy name p))\<lparr>fp_buffers := rest\<rparr>"
    using r [unfolded fp_destroy_def b Let_def prod.case, folded rest_def] by (auto split: if_splits)
  then have R: "fp_shared p' = ?R" by (simp add: fp_shared_def)
  have inj: "inj_on fst (insert ?x ?R)" "inj_on (fst \<circ> snd) (insert ?x ?R)" "inj_on (snd \<circ> snd) (insert ?x ?R)"
    using ok by (simp_all add: fp_ok_def S)
  have fst_R: "k \<in> fst ` set rest \<longleftrightarrow> ?x \<in> ?R"
  proof
    assume "k \<in> fst ` set rest"
    then obtain m' n' where e: "(k, m', n') \<in> set rest" by force
    then have mem: "(k, mo_fdes m', n') \<in> ?R" by force
    have "(k, mo_fdes m', n') = ?x"
      by (rule inj_onD [OF inj(1)]) (use mem in simp_all)
    with mem show "?x \<in> ?R" by simp
  qed force
  show ?thesis
  proof (cases "k \<in> fst ` set rest")
    case True
    then have "p' = p\<lparr>fp_buffers := rest\<rparr>" "fp_shared p = ?R"
      using eq fst_R S by (simp_all add: insert_absorb)
    then show ?thesis using ok R by (simp add: fp_ok_def)
  next
    case False
    then have x: "?x \<notin> ?R" using fst_R by simp
    have p': "p' = (fd_destroy (mo_fdes m) (fh_destroy name p))\<lparr>fp_buffers := rest\<rparr>"
      using eq False by simp
    have "mo_fdes m \<in> set (fp_open p)" using ok by (simp add: fp_ok_def S)
    then have "0 \<le> mo_fdes m" using ok unfolding fp_ok_def by blast
    then have "mo_fdes m \<noteq> -1" by simp
    then have fields: "fp_open p' = remove1 (mo_fdes m) (fp_open p)" "fp_next p' = fp_next p"
        "fp_files p' = removeAll name (fp_files p)"
      by (simp_all add: p' fd_destroy_def fh_destroy_def)
    have op: "set (fp_open p') = (fst \<circ> snd) ` ?R"
      using ok inj(2) x by (simp add: fields fp_ok_def S set_remove1_eq inj_on_insert)
    have nm: "(snd \<circ> snd) ` ?R \<subseteq> set (fp_files p')"
      using ok inj(3) x unfolding fields fp_ok_def S by (simp add: inj_on_insert) blast
    have "\<forall>fd\<in>set (fp_open p'). 0 \<le> fd" "distinct (fp_open p')"
      using ok by (auto simp: fp_ok_def fields dest: notin_set_remove1 set_remove1_subset [THEN subsetD])
    moreover have "\<forall>y\<in>?R. fst y < fp_next p'" using ok by (simp add: fp_ok_def S fields)
    ultimately show ?thesis
      unfolding fp_ok_def R using op nm inj by (simp add: inj_on_insert)
  qed
qed

lemma fp_reach_ok: "fp_reach p \<Longrightarrow> fp_ok p"
proof (induction rule: fp_reach.induct)
  case (fp_start files)
  show ?case by (simp add: fp_ok_def fp_shared_def)
qed (blast intro: fp_create_ok fp_getCopy_ok fp_destroy_ok)+

text \<open>
  File buffers leak neither descriptors nor files. In every state of a process that creates
  buffers on new names, copies and destroys them in any order (creations and copies that fail
  included), the open descriptors are exactly those of the live buffers, each open once, and the file
  of every live buffer exists: a copy keeps descriptor and file alive when its original is destroyed,
  and without buffers no descriptor is open.
\<close>

theorem file_buffers_release:
  assumes "fp_reach p"
  shows "distinct (fp_open p) \<and> set (fp_open p) = (\<lambda>(k, m, n). mo_fdes m) ` set (fp_buffers p) \<and>
    (\<lambda>(k, m, n). n) ` set (fp_buffers p) \<subseteq> set (fp_files p) \<and> (fp_buffers p = [] \<longrightarrow> fp_open p = [])"
  using fp_reach_ok [OF assms] by (auto simp: fp_ok_def fp_shared_def image_image split_beta)

theorem file_buffers_release_witness:
  "case fp_create (open_sys (\<lambda>_. Inr 0)) ''f'' [] 0
     \<lparr>fp_buffers = [], fp_open = [], fp_files = [''g''], fp_next = 0\<rparr> of (r, p) \<Rightarrow>
   case fp_getCopy (open_sys (\<lambda>_. Inr 0)) 0 p of (r, p) \<Rightarrow>
   case fp_destroy (open_sys (\<lambda>_. Inr 0)) 1 p of (r, p) \<Rightarrow>
     set (fp_open p) = (\<lambda>(k, m, n). mo_fdes m) ` set (fp_buffers p) \<and> fp_open p = [3] \<and>
     fp_files p = [''f'', ''g'']"
proof -
  let ?os = "open_sys (\<lambda>_. Inr 0)"
  let ?p0 = "\<lparr>fp_buffers = [], fp_open = [], fp_files = [''g''], fp_next = 0\<rparr>"
  define m where "m = \<lparr>mo_bytes = [], mo_pointer = Mapping, mo_size = 0, mo_fdes = 3, mo_is_read_only = False,
    mo_window = 40960, mo_segment_start = 0, mo_segment_len = 40960, mo_page_size = 4096\<rparr>"
  define p1 where "p1 = \<lparr>fp_buffers = [(0, m, ''f'')], fp_open = [3], fp_files = [''f'', ''g''], fp_next = 1\<rparr>"
  define p2 where "p2 = p1\<lparr>fp_buffers := [(0, m, ''f''), (0, m, ''f'')]\<rparr>"
  have e: "fp_create ?os ''f'' [] 0 ?p0 = (Returns (), p1)" "fp_getCopy ?os 0 p1 = (Returns (), p2)"
      "fp_destroy ?os 1 p2 = (Returns (), p1)"
    unfolding p2_def p1_def m_def by code_simp+
  have b: "length (fp_buffers p1) = 1" "length (fp_buffers p2) = 2" by (simp_all add: p1_def p2_def)
  have "fp_reach p1" by (rule fp_create [OF fp_start _ _ e(1)]) simp_all
  then have "fp_reach p2" by (rule fp_getCopy [OF _ _ e(2)]) (simp add: b)
  then have "fp_reach p1" by (rule fp_destroy [OF _ _ e(3)]) (simp add: b)
  from file_buffers_release [OF this] show ?thesis
    by (simp add: e [simplified]) (simp add: p1_def)
qed

end
