(* ===== verification/Loggers.thy ===== *)
theory Loggers
  imports Dispatch Configs Directories
begin

text \<open>
  Loggers (\<^verbatim>\<open>library/logger.cpp\<close>, \<^verbatim>\<open>file-logger/file_logger.cpp\<close>, \<^verbatim>\<open>syslog/syslog-logger.cpp\<close>): levels, the queue of the
  file logger with its writing thread, and the lines of the syslog logger.

  The formatting of \<^verbatim>\<open>vsnprintf\<close> is an argument: the text for a format and its arguments. The messages of a
  logger that is in use are its state; the writing thread and the calls of \<^verbatim>\<open>log\<close> are the steps of a relation.
\<close>

section \<open>Levels\<close>

datatype log_level = DEBUG | INFO | ERROR | EMERGENCY

fun level_rank :: "log_level \<Rightarrow> nat" where
  "level_rank DEBUG = 0"
| "level_rank INFO = 1"
| "level_rank ERROR = 2"
| "level_rank EMERGENCY = 3"

lemma level_rank_inj [simp]: "level_rank a = level_rank b \<longleftrightarrow> a = b"
  by (cases a; cases b) simp_all

instantiation log_level :: linorder
begin

definition less_eq_log_level :: "log_level \<Rightarrow> log_level \<Rightarrow> bool" where
  "less_eq_log_level a b \<longleftrightarrow> level_rank a \<le> level_rank b"

definition less_log_level :: "log_level \<Rightarrow> log_level \<Rightarrow> bool" where
  "less_log_level a b \<longleftrightarrow> level_rank a < level_rank b"

instance
proof
  fix a b c :: log_level
  show "a < b \<longleftrightarrow> a \<le> b \<and> \<not> b \<le> a" by (auto simp: less_eq_log_level_def less_log_level_def)
  show "a \<le> a" by (simp add: less_eq_log_level_def)
  show "a \<le> b \<Longrightarrow> b \<le> c \<Longrightarrow> a \<le> c" by (simp add: less_eq_log_level_def)
  show "a \<le> b \<Longrightarrow> b \<le> a \<Longrightarrow> a = b" by (metis antisym less_eq_log_level_def level_rank_inj)
  show "a \<le> b \<or> b \<le> a" by (auto simp: less_eq_log_level_def)
qed

end

definition stringToLevel :: "string \<Rightarrow> log_level result" where
  "stringToLevel name =
     (let n = map tolower name
      in if n = ''info'' then Inr INFO
         else if n = ''debug'' then Inr DEBUG
         else if n = ''error'' then Inr ERROR
         else if n = ''emerg'' then Inr EMERGENCY
         else Inl (RuntimeError ''bad string to log level cast''))"

fun levelToString :: "log_level \<Rightarrow> string" where
  "levelToString INFO = ''INFO''"
| "levelToString DEBUG = ''DEBUG''"
| "levelToString ERROR = ''ERROR''"
| "levelToString EMERGENCY = ''EMERG''"

section \<open>The file logger\<close>

record file_logger =
  fl_filename :: string
  fl_open_mode :: nat
  fl_time_format :: string
  fl_print_level :: bool
  fl_print_time :: bool
  fl_level :: log_level

definition S_IRUSR :: nat where "S_IRUSR = 256"
definition S_IWUSR :: nat where "S_IWUSR = 128"
definition S_IRGRP :: nat where "S_IRGRP = 32"
definition S_IWGRP :: nat where "S_IWGRP = 16"
definition S_IROTH :: nat where "S_IROTH = 4"

definition open_mode :: "string \<Rightarrow> nat" where
  "open_mode read =
     (if read = ''all'' then S_IRUSR + S_IWUSR + S_IRGRP + S_IROTH
      else if read = ''group'' then S_IRUSR + S_IWUSR + S_IRGRP
      else if read = ''user'' then S_IRUSR + S_IWUSR
      else S_IRUSR + S_IWUSR + S_IRGRP + S_IWGRP + S_IROTH)"

text \<open>
  What the constructor asks of the operating system: the refusals to make a directory, the test of a directory, the result
  of opening the file with a mode, and the messages of the errors. The modes of the directories are left out.
\<close>

record log_env =
  le_refused :: "string list \<Rightarrow> string \<Rightarrow> nat"
  le_writable :: "string list \<Rightarrow> string \<Rightarrow> bool"
  le_open :: "string list \<Rightarrow> string \<Rightarrow> nat \<Rightarrow> nat"
  le_strerror :: "nat \<Rightarrow> string"

definition prepare_log_dir :: "log_env \<Rightarrow> string \<Rightarrow> string list \<Rightarrow> string list result" where
  "prepare_log_dir env filename ds =
     (let path = pathToFile filename in
      case createDirectories (le_refused env) path ds of
        Inl errno \<Rightarrow> Inl (RuntimeError (le_strerror env errno))
      | Inr ds \<Rightarrow> if le_writable env ds path then Inr ds else Inl (RuntimeError ''Permission denied''))"

definition openFile :: "log_env \<Rightarrow> string \<Rightarrow> nat \<Rightarrow> string list \<Rightarrow> unit result" where
  "openFile env filename mode ds =
     (let errno = le_open env ds (c_str filename) mode
      in if errno = 0 then Inr () else Inl (RuntimeError (le_strerror env errno)))"

definition file_logger_load :: "log_env \<Rightarrow> xml_config \<Rightarrow> string \<Rightarrow> string list \<Rightarrow> (file_logger \<times> string list) result" where
  "file_logger_load env cfg path ds =
     rbind (cfg_asString cfg (path @ ''/file'')) (\<lambda>filename.
     rbind (rbind (cfg_asString cfg (path @ ''/level'')) stringToLevel) (\<lambda>level.
     rbind (cfg_asString_default cfg (path @ ''/print-level'') ''yes'') (\<lambda>pl.
     rbind (cfg_asString_default cfg (path @ ''/print-time'') ''yes'') (\<lambda>pt.
     rbind (cfg_asString_default cfg (path @ ''/time-format'') ''[%Y/%m/%d %T]'') (\<lambda>tf.
     rbind (cfg_asString_default cfg (path @ ''/read'') []) (\<lambda>read.
     rbind (prepare_log_dir env filename ds) (\<lambda>ds.
     rbind (openFile env filename (open_mode read) ds) (\<lambda>_.
     Inr (\<lparr>fl_filename = filename, fl_open_mode = open_mode read, fl_time_format = tf,
       fl_print_level = eq_ci (c_str pl) ''yes'', fl_print_time = eq_ci (c_str pt) ''yes'', fl_level = level\<rparr>, ds)))))))))"

definition BUF_SIZE :: nat where
  "BUF_SIZE = 512"

text \<open>The format with time and level in front, as it fits into the buffer with its terminator.\<close>

definition prepareFormat :: "file_logger \<Rightarrow> string \<Rightarrow> nat \<Rightarrow> log_level \<Rightarrow> string \<Rightarrow> string" where
  "prepareFormat fl timestr sz level format =
     take (sz - 2)
       (if fl_print_time fl \<and> fl_print_level fl then timestr @ '' '' @ levelToString level @ '': '' @ format @ [CHR 0x0A]
        else if fl_print_time fl then timestr @ '' '' @ format @ [CHR 0x0A]
        else if fl_print_level fl then levelToString level @ '': '' @ format @ [CHR 0x0A]
        else format @ [CHR 0x0A])"

text \<open>The message that a call of \<^verbatim>\<open>log\<close> puts into the queue, if it does.\<close>

definition file_log :: "(string \<Rightarrow> 'a \<Rightarrow> string) \<Rightarrow> file_logger \<Rightarrow> bool \<Rightarrow> string \<Rightarrow> log_level \<Rightarrow> string \<Rightarrow> 'a \<Rightarrow> string option" where
  "file_log vsnprintf fl fd_open timestr level format args =
     (if level < fl_level fl \<or> \<not> fd_open then None
      else
        let text = vsnprintf (prepareFormat fl timestr BUF_SIZE level (c_str format)) args
        in if text \<noteq> [] then Some text else None)"

section \<open>The writing thread\<close>

text \<open>
  Where the thread is: before the test of the stop flag, between the test and the lock of the queue,
  waiting for the condition, woken, with the messages it took and before the lock of the file, under
  this lock with the messages left and the number of bytes of the first one it has written, or at its end.
\<close>

datatype writer = AtTest | BeforeWait | Sleeping | Woken | Taken "string list" | Writing "string list" nat | Ended

text \<open>
  \<open>lg_file\<close> is what was written to the file. The history of the accepted messages and of what was
  written of each message that is finished is added.
\<close>

record log_state =
  lg_queue :: "string list"
  lg_thread :: writer
  lg_stopping :: bool
  lg_fd_open :: bool
  lg_file :: string
  lg_accepted :: "string list"
  lg_written :: "string list"

definition log_new :: log_state where
  "log_new = \<lparr>lg_queue = [], lg_thread = AtTest, lg_stopping = False, lg_fd_open = True, lg_file = [],
     lg_accepted = [], lg_written = []\<rparr>"

fun notify_writer :: "writer \<Rightarrow> writer" where
  "notify_writer Sleeping = Woken"
| "notify_writer w = w"

text \<open>The critical section of \<^verbatim>\<open>log\<close>.\<close>

definition log_push :: "string \<Rightarrow> log_state \<Rightarrow> log_state" where
  "log_push msg lg = lg\<lparr>lg_queue := lg_queue lg @ [msg], lg_accepted := lg_accepted lg @ [msg],
     lg_thread := notify_writer (lg_thread lg)\<rparr>"

text \<open>A call of \<^verbatim>\<open>log\<close>.\<close>

definition logger_log :: "(string \<Rightarrow> 'a \<Rightarrow> string) \<Rightarrow> file_logger \<Rightarrow> string \<Rightarrow> log_level \<Rightarrow> string \<Rightarrow> 'a \<Rightarrow> log_state \<Rightarrow> log_state" where
  "logger_log vsnprintf fl timestr level format args lg =
     (case file_log vsnprintf fl (lg_fd_open lg) timestr level format args of
        None \<Rightarrow> lg
      | Some msg \<Rightarrow> log_push msg lg)"

text \<open>The destructor of the logger, up to the join: the flag and the notification are not under the lock of the queue.\<close>

definition log_stop :: "log_state \<Rightarrow> log_state" where
  "log_stop lg = lg\<lparr>lg_stopping := True, lg_thread := notify_writer (lg_thread lg)\<rparr>"

text \<open>\<^verbatim>\<open>openFile\<close> holds the lock of the file, which the thread has while it writes.\<close>

fun fd_locked :: "writer \<Rightarrow> bool" where
  "fd_locked (Writing _ _) = True"
| "fd_locked _ = False"

definition log_openFile :: "bool \<Rightarrow> log_state \<Rightarrow> log_state" where
  "log_openFile opened lg = lg\<lparr>lg_fd_open := opened\<rparr>"

text \<open>
  The steps of the thread. \<^verbatim>\<open>::write\<close> takes some bytes of what is left of a message, maybe none, or fails, which ends
  the message. Without an open file the messages are dropped.
\<close>

inductive writer_step :: "log_state \<Rightarrow> log_state \<Rightarrow> bool" where
  test_go: "lg_thread lg = AtTest \<Longrightarrow> \<not> lg_stopping lg \<Longrightarrow> writer_step lg (lg\<lparr>lg_thread := BeforeWait\<rparr>)"
| test_stop: "lg_thread lg = AtTest \<Longrightarrow> lg_stopping lg \<Longrightarrow> writer_step lg (lg\<lparr>lg_thread := Ended\<rparr>)"
| wait: "lg_thread lg = BeforeWait \<Longrightarrow> writer_step lg (lg\<lparr>lg_thread := Sleeping\<rparr>)"
| swap: "lg_thread lg = Woken \<Longrightarrow> writer_step lg (lg\<lparr>lg_thread := Taken (lg_queue lg), lg_queue := []\<rparr>)"
| lock: "lg_thread lg = Taken ms \<Longrightarrow> lg_fd_open lg \<Longrightarrow> writer_step lg (lg\<lparr>lg_thread := Writing ms 0\<rparr>)"
| closed: "lg_thread lg = Taken ms \<Longrightarrow> \<not> lg_fd_open lg \<Longrightarrow>
    writer_step lg (lg\<lparr>lg_thread := AtTest, lg_written := lg_written lg @ map (\<lambda>_. []) ms\<rparr>)"
| wrote: "lg_thread lg = Writing (m # ms) k \<Longrightarrow> k < length m \<Longrightarrow> k + n \<le> length m \<Longrightarrow>
    writer_step lg (lg\<lparr>lg_thread := Writing (m # ms) (k + n), lg_file := lg_file lg @ take n (drop k m)\<rparr>)"
| failed: "lg_thread lg = Writing (m # ms) k \<Longrightarrow> k < length m \<Longrightarrow>
    writer_step lg (lg\<lparr>lg_thread := Writing ms 0, lg_written := lg_written lg @ [take k m]\<rparr>)"
| complete: "lg_thread lg = Writing (m # ms) k \<Longrightarrow> \<not> k < length m \<Longrightarrow>
    writer_step lg (lg\<lparr>lg_thread := Writing ms 0, lg_written := lg_written lg @ [take k m]\<rparr>)"
| finished: "lg_thread lg = Writing [] k \<Longrightarrow> writer_step lg (lg\<lparr>lg_thread := AtTest\<rparr>)"

inductive log_step :: "log_state \<Rightarrow> log_state \<Rightarrow> bool" where
  push: "msg \<noteq> [] \<Longrightarrow> log_step lg (log_push msg lg)"
| stop: "log_step lg (log_stop lg)"
| reopen: "\<not> fd_locked (lg_thread lg) \<Longrightarrow> log_step lg (log_openFile opened lg)"
| spurious: "lg_thread lg = Sleeping \<Longrightarrow> log_step lg (lg\<lparr>lg_thread := Woken\<rparr>)"
| thread: "writer_step lg lg' \<Longrightarrow> log_step lg lg'"

inductive_cases writer_stepE: "writer_step lg lg'"
inductive_cases log_stepE: "log_step lg lg'"

definition log_reachable :: "log_state \<Rightarrow> bool" where
  "log_reachable lg \<longleftrightarrow> log_step\<^sup>*\<^sup>* log_new lg"

text \<open>The messages in the hands of the thread, and what is written of the first one.\<close>

fun in_hand :: "writer \<Rightarrow> string list" where
  "in_hand (Taken ms) = ms"
| "in_hand (Writing ms k) = ms"
| "in_hand _ = []"

fun partial_message :: "writer \<Rightarrow> string" where
  "partial_message (Writing (m # ms) k) = take k m"
| "partial_message _ = []"

definition log_inv :: "log_state \<Rightarrow> bool" where
  "log_inv lg \<longleftrightarrow>
     (\<exists>ended. lg_accepted lg = ended @ in_hand (lg_thread lg) @ lg_queue lg \<and>
        list_all2 (\<lambda>w m. \<exists>k. w = take k m) (lg_written lg) ended) \<and>
     lg_file lg = concat (lg_written lg) @ partial_message (lg_thread lg)"

section \<open>What is proved of the loggers\<close>

lemma notify_writer_parts [simp]: "in_hand (notify_writer w) = in_hand w" "partial_message (notify_writer w) = partial_message w"
  by (cases w; simp)+

lemma list_all2_snoc: "list_all2 P xs ys \<Longrightarrow> P x y \<Longrightarrow> list_all2 P (xs @ [x]) (ys @ [y])"
  by (simp add: list_all2_appendI)

lemma log_inv_new: "log_inv log_new"
  by (simp add: log_inv_def log_new_def)

lemma log_inv_push: "log_inv lg \<Longrightarrow> log_inv (log_push msg lg)"
  unfolding log_inv_def log_push_def by auto

lemma log_inv_thread:
  assumes "log_inv lg" and "in_hand w @ q = in_hand (lg_thread lg) @ lg_queue lg"
    and "partial_message w = partial_message (lg_thread lg)"
  shows "log_inv (lg\<lparr>lg_thread := w, lg_queue := q\<rparr>)"
  using assms unfolding log_inv_def by auto

lemma log_inv_ended:
  assumes "log_inv lg" and h: "in_hand (lg_thread lg) = ds @ in_hand w"
    and l: "list_all2 (\<lambda>w m. \<exists>k. w = take k m) ws ds"
    and f: "partial_message (lg_thread lg) = concat ws" and w: "partial_message w = []"
  shows "log_inv (lg\<lparr>lg_thread := w, lg_written := lg_written lg @ ws\<rparr>)"
proof -
  obtain e where "lg_accepted lg = e @ in_hand (lg_thread lg) @ lg_queue lg"
    and "list_all2 (\<lambda>w m. \<exists>k. w = take k m) (lg_written lg) e"
    using assms(1) unfolding log_inv_def by blast
  then have "lg_accepted lg = (e @ ds) @ in_hand w @ lg_queue lg"
    and "list_all2 (\<lambda>w m. \<exists>k. w = take k m) (lg_written lg @ ws) (e @ ds)"
    using h l by (auto intro: list_all2_appendI)
  then show ?thesis using assms(1) f w unfolding log_inv_def by auto
qed

lemma log_inv_writer_step: "writer_step lg lg' \<Longrightarrow> log_inv lg \<Longrightarrow> log_inv lg'"
proof (induction rule: writer_step.induct)
  case (swap lg)
  then show ?case using log_inv_thread [of lg "Taken (lg_queue lg)" "[]"] by simp
next
  case (closed lg ms)
  then show ?case
    using log_inv_ended [of lg ms AtTest "map (\<lambda>_. []) ms"]
    by (auto simp: list.rel_map intro!: list.rel_refl_strong)
next
  case (wrote lg m ms k n)
  then show ?case by (auto simp: log_inv_def take_add)
next
  case (failed lg m ms k)
  have "partial_message (Writing ms 0) = []" by (cases ms) simp_all
  with failed show ?case using log_inv_ended [of lg "[m]" "Writing ms 0" "[take k m]"] by auto
next
  case (complete lg m ms k)
  have "partial_message (Writing ms 0) = []" by (cases ms) simp_all
  moreover have "\<exists>j. take k m = take j m" by blast
  ultimately show ?case using complete log_inv_ended [of lg "[m]" "Writing ms 0" "[take k m]"] by simp
next
  case (lock lg ms)
  have "partial_message (Writing ms 0) = []" by (cases ms) simp_all
  with lock show ?case using log_inv_thread [of lg "Writing ms 0" "lg_queue lg"] by simp
qed (simp_all add: log_inv_def)

lemma log_inv_step: "log_step lg lg' \<Longrightarrow> log_inv lg \<Longrightarrow> log_inv lg'"
  by (induction rule: log_step.induct)
    (auto simp: log_inv_push log_inv_writer_step, auto simp: log_inv_def log_stop_def log_openFile_def)

lemma log_inv_reachable: "log_reachable lg \<Longrightarrow> log_inv lg"
  unfolding log_reachable_def by (induction rule: rtranclp_induct) (auto simp: log_inv_new log_inv_step)


text \<open>With a descriptor and a queue under the thread's lock, complete writes of the operating system finish every message.\<close>

lemma writer_writes:
  "lg_thread lg = Writing ms 0 \<Longrightarrow>
   writer_step\<^sup>*\<^sup>* lg (lg\<lparr>lg_thread := AtTest, lg_written := lg_written lg @ ms, lg_file := lg_file lg @ concat ms\<rparr>)"
proof (induction ms arbitrary: lg)
  case Nil
  then show ?case using writer_step.finished [of lg 0] by auto
next
  case (Cons m ms)
  let ?a = "lg\<lparr>lg_thread := Writing (m # ms) (length m), lg_file := lg_file lg @ m\<rparr>"
  let ?b = "?a\<lparr>lg_thread := Writing ms 0, lg_written := lg_written ?a @ [m]\<rparr>"
  have "writer_step\<^sup>*\<^sup>* lg ?a"
  proof (cases "m = []")
    case True
    then have "?a = lg" using Cons.prems by simp
    then show ?thesis by simp
  next
    case False
    then show ?thesis using writer_step.wrote [OF Cons.prems, of "length m"] by auto
  qed
  moreover have "writer_step ?a ?b" using writer_step.complete [of ?a m ms "length m"] by simp
  ultimately have "writer_step\<^sup>*\<^sup>* lg ?b" by simp
  moreover have "writer_step\<^sup>*\<^sup>* ?b (?b\<lparr>lg_thread := AtTest, lg_written := lg_written ?b @ ms, lg_file := lg_file ?b @ concat ms\<rparr>)"
    by (rule Cons.IH) simp
  ultimately show ?case by simp
qed

lemma log_reachable_new: "log_reachable log_new"
  by (simp add: log_reachable_def)

lemma log_reachable_step: "log_reachable lg \<Longrightarrow> log_step lg lg' \<Longrightarrow> log_reachable lg'"
  unfolding log_reachable_def by simp

lemmas log_reachable_writer = log_reachable_step [OF _ log_step.thread]
  and log_reachable_push = log_reachable_step [OF _ log_step.push]
  and log_reachable_stop = log_reachable_step [OF _ log_step.stop]

text \<open>A call of \<^verbatim>\<open>log\<close> that finds the thread waiting, and the messages that were left in the queue before it.\<close>

lemma log_delivers:
  assumes "lg_thread lg = Sleeping" and "lg_fd_open lg"
  shows "writer_step\<^sup>*\<^sup>* (log_push msg lg) (lg\<lparr>lg_accepted := lg_accepted lg @ [msg], lg_queue := [], lg_thread := AtTest,
      lg_written := lg_written lg @ lg_queue lg @ [msg], lg_file := lg_file lg @ concat (lg_queue lg) @ msg\<rparr>)"
proof -
  let ?p = "log_push msg lg" and ?ms = "lg_queue lg @ [msg]"
  let ?t = "?p\<lparr>lg_thread := Taken (lg_queue ?p), lg_queue := []\<rparr>"
  let ?w = "?t\<lparr>lg_thread := Writing ?ms 0\<rparr>"
  have "writer_step ?p ?t" by (rule writer_step.swap) (simp add: log_push_def assms)
  moreover have "writer_step ?t ?w" by (rule writer_step.lock) (simp_all add: log_push_def assms)
  moreover have "writer_step\<^sup>*\<^sup>* ?w (?w\<lparr>lg_thread := AtTest, lg_written := lg_written ?w @ ?ms, lg_file := lg_file ?w @ concat ?ms\<rparr>)"
    by (rule writer_writes) simp
  ultimately have "writer_step\<^sup>*\<^sup>* ?p (?w\<lparr>lg_thread := AtTest, lg_written := lg_written ?w @ ?ms, lg_file := lg_file ?w @ concat ?ms\<rparr>)"
    by (meson converse_rtranclp_into_rtranclp)
  then show ?thesis by (simp add: log_push_def)
qed

definition sleeping_log :: log_state where
  "sleeping_log = log_new\<lparr>lg_thread := Sleeping\<rparr>"

lemma sleeping_log_reachable: "log_reachable sleeping_log"
proof -
  have "writer_step log_new (log_new\<lparr>lg_thread := BeforeWait\<rparr>)" by (rule writer_step.test_go) (simp_all add: log_new_def)
  moreover have "writer_step (log_new\<lparr>lg_thread := BeforeWait\<rparr>) (log_new\<lparr>lg_thread := BeforeWait, lg_thread := Sleeping\<rparr>)"
    by (rule writer_step.wait) simp
  ultimately have "log_reachable (log_new\<lparr>lg_thread := BeforeWait, lg_thread := Sleeping\<rparr>)"
    by (meson log_reachable_new log_reachable_writer)
  then show ?thesis by (simp add: sleeping_log_def)
qed

lemma log_step_of_writer: "writer_step\<^sup>*\<^sup>* lg lg' \<Longrightarrow> log_reachable lg \<Longrightarrow> log_reachable lg'"
  by (induction rule: rtranclp_induct) (auto intro: log_reachable_writer)

definition one_message_log :: log_state where
  "one_message_log = log_new\<lparr>lg_accepted := [''hello''], lg_written := [''hello''], lg_file := ''hello''\<rparr>"

lemma one_message_log_reachable: "log_reachable one_message_log"
proof -
  have "log_reachable (log_push ''hello'' sleeping_log)"
    using log_reachable_push [OF sleeping_log_reachable, of "''hello''"] by simp
  then show ?thesis
    using log_step_of_writer [OF log_delivers [of sleeping_log "''hello''"]]
    by (simp add: sleeping_log_def one_message_log_def log_new_def)
qed


text \<open>
  Stopping the logger may end the thread with messages in the queue that are not written, and it
  may leave the thread waiting for a notification that nobody sends any more, so that the join does not return: the
  flag is not tested under the lock and the wait has no condition.
\<close>

theorem log_stop_incomplete:
  "(\<exists>lg. log_reachable lg \<and> lg_stopping lg \<and> lg_thread lg = Ended \<and> lg_queue lg = [''lost''] \<and> lg_file lg = []) \<and>
   (\<exists>lg. log_reachable lg \<and> lg_stopping lg \<and> lg_thread lg = Sleeping \<and> (\<nexists>lg'. writer_step lg lg'))"
proof
  let ?a = "log_stop (log_push ''lost'' log_new)"
  have "log_reachable ?a" by (auto intro!: log_reachable_stop log_reachable_push log_reachable_new)
  moreover have "writer_step ?a (?a\<lparr>lg_thread := Ended\<rparr>)"
    by (rule writer_step.test_stop) (simp_all add: log_stop_def log_push_def log_new_def)
  ultimately have "log_reachable (?a\<lparr>lg_thread := Ended\<rparr>)" by (rule log_reachable_writer)
  then show "\<exists>lg. log_reachable lg \<and> lg_stopping lg \<and> lg_thread lg = Ended \<and> lg_queue lg = [''lost''] \<and> lg_file lg = []"
    by (intro exI [of _ "?a\<lparr>lg_thread := Ended\<rparr>"]) (simp add: log_stop_def log_push_def log_new_def)
  let ?b = "log_new\<lparr>lg_thread := BeforeWait\<rparr>"
  have "log_reachable ?b"
    by (rule log_reachable_writer [OF log_reachable_new]) (rule writer_step.test_go, simp_all add: log_new_def)
  then have "log_reachable (log_stop ?b)" by (rule log_reachable_stop)
  moreover have "writer_step (log_stop ?b) ((log_stop ?b)\<lparr>lg_thread := Sleeping\<rparr>)"
    by (rule writer_step.wait) (simp add: log_stop_def)
  ultimately have "log_reachable ((log_stop ?b)\<lparr>lg_thread := Sleeping\<rparr>)" by (rule log_reachable_writer)
  moreover have "\<nexists>lg'. writer_step ((log_stop ?b)\<lparr>lg_thread := Sleeping\<rparr>) lg'" by (auto elim: writer_stepE)
  ultimately show "\<exists>lg. log_reachable lg \<and> lg_stopping lg \<and> lg_thread lg = Sleeping \<and> (\<nexists>lg'. writer_step lg lg')"
    by (intro exI [of _ "(log_stop ?b)\<lparr>lg_thread := Sleeping\<rparr>"]) (simp add: log_stop_def)
qed

text \<open>Without the stop, every wait is left by the next message.\<close>

lemma log_push_wakes: "lg_thread lg = Sleeping \<Longrightarrow> lg_thread (log_push msg lg) = Woken"
  by (simp add: log_push_def)

lemma stringToLevel_levelToString: "stringToLevel (levelToString l) = Inr l"
  by (cases l; simp only:; code_simp)

lemma prepareFormat_fits: "length (prepareFormat fl t BUF_SIZE l f) < BUF_SIZE - 1"
  by (simp add: prepareFormat_def BUF_SIZE_def)

lemma file_log_enabled:
  "file_log vs fl fd t l f a = Some m \<Longrightarrow> fl_level fl \<le> l \<and> fd \<and> m \<noteq> []"
  by (auto simp: file_log_def Let_def split: if_splits)

lemma logger_log_step: "logger_log vs fl t l f a lg = lg \<or> log_step lg (logger_log vs fl t l f a lg)"
  by (auto simp: logger_log_def dest!: file_log_enabled split: option.split intro: log_step.push)

section \<open>The syslog logger\<close>

record syslog_logger =
  sl_ident :: string
  sl_priority :: int
  sl_requestSpecificIdent :: bool
  sl_level :: log_level
  sl_threadIdent :: "string option"

fun toSyslogPriority :: "log_level \<Rightarrow> int" where
  "toSyslogPriority INFO = 6"
| "toSyslogPriority DEBUG = 7"
| "toSyslogPriority ERROR = 3"
| "toSyslogPriority EMERGENCY = 0"

text \<open>\<^verbatim>\<open>setLevel\<close> with the \<^verbatim>\<open>setLevelInternal\<close> of this logger.\<close>

definition syslog_setLevel :: "log_level \<Rightarrow> syslog_logger \<Rightarrow> syslog_logger" where
  "syslog_setLevel level L = L\<lparr>sl_priority := toSyslogPriority level, sl_level := level\<rparr>"

definition syslog_logger_load :: "xml_config \<Rightarrow> string \<Rightarrow> string option \<Rightarrow> syslog_logger result" where
  "syslog_logger_load cfg path threadIdent =
     rbind (cfg_asString cfg (path @ ''/ident'')) (\<lambda>ident.
     rbind (rbind (cfg_asString cfg (path @ ''/level'')) stringToLevel) (\<lambda>level.
     rbind (cfg_asString_default cfg (path @ ''/request-specific-ident'') ''off'') (\<lambda>specific.
     Inr ((syslog_setLevel level
       \<lparr>sl_ident = ident, sl_priority = 0, sl_requestSpecificIdent = False, sl_level = DEBUG, sl_threadIdent = threadIdent\<rparr>)
         \<lparr>sl_requestSpecificIdent := (specific = ''on'')\<rparr>))))"

text \<open>The lines that \<^verbatim>\<open>std::getline\<close> returns while the stream is good.\<close>

fun stream_lines :: "string \<Rightarrow> string list" where
  "stream_lines [] = [[]]"
| "stream_lines (c # cs) =
     (if c = CHR 0x0A then [] # stream_lines cs
      else (c # hd (stream_lines cs)) # tl (stream_lines cs))"

text \<open>The buffer of \<^verbatim>\<open>vsnprintf\<close>: what fits of the text, a zero and the zeros of the string behind it.\<close>

definition formatted_buffer :: "nat \<Rightarrow> string \<Rightarrow> string" where
  "formatted_buffer n text = take (n - 1) text @ replicate (n - length (take (n - 1) text)) (CHR 0x00)"

definition syslog_format :: "syslog_logger \<Rightarrow> string" where
  "syslog_format L =
     (case sl_threadIdent L of
        Some t \<Rightarrow> if sl_requestSpecificIdent L then sl_ident L @ '':'' @ t @ '': %s'' else sl_ident L @ '': %s''
      | None \<Rightarrow> sl_ident L @ '': %s'')"

text \<open>The calls of \<^verbatim>\<open>syslog\<close>: priority, format and its argument.\<close>

definition syslog_log :: "(string \<Rightarrow> 'a \<Rightarrow> string) \<Rightarrow> syslog_logger \<Rightarrow> log_level \<Rightarrow> string \<Rightarrow> 'a \<Rightarrow> (int \<times> string \<times> string) list" where
  "syslog_log vsnprintf L level format args =
     (if level \<ge> sl_level L then
        map (\<lambda>tmp. (toSyslogPriority level, c_str (syslog_format L), c_str tmp))
          (stream_lines (formatted_buffer (1024 * 10) (vsnprintf format args)))
      else [])"

definition syslog_setRequestId :: "string \<Rightarrow> syslog_logger \<Rightarrow> syslog_logger" where
  "syslog_setRequestId rid L = L\<lparr>sl_threadIdent := Some rid\<rparr>"

definition syslog_getRequestId :: "syslog_logger \<Rightarrow> string" where
  "syslog_getRequestId L =
     (case sl_threadIdent L of Some t \<Rightarrow> if sl_requestSpecificIdent L then t else [] | None \<Rightarrow> [])"

text \<open>The requests of the administrator; \<^verbatim>\<open>rollOver\<close> of this logger does nothing.\<close>

definition put_line :: "string \<Rightarrow> ('s, 'u, 'c, 'h) task_state \<Rightarrow> ('s, 'u, 'c, 'h) task_state" where
  "put_line text s = s\<lparr>ts_stream := ts_stream s @ text @ [CHR 0x0A]\<rparr>"

definition syslog_handleRequest :: "syslog_logger \<Rightarrow> ('s, 'u, 'c, 'h) task_state \<Rightarrow> syslog_logger \<times> ('s, 'u, 'c, 'h) run" where
  "syslog_handleRequest L s =
     (case on_request s (setContentType ''text/plain'' (ts_request s)) of
        Inl e \<Rightarrow> (L, Inl e)
      | Inr s \<Rightarrow>
          (let action = getArg (ts_request s) ''action''
           in if ''setlevel'' = action then
                (let l = getArg (ts_request s) ''level''
                 in case stringToLevel l of
                      Inl e \<Rightarrow> (L, Inl (Std e, s))
                    | Inr level \<Rightarrow> (syslog_setLevel level L, Inr (put_line (''level '' @ l @ ''successfully set'') s)))
              else if ''rollover'' = action then (L, Inr (put_line ''rollover successful'' s))
              else (L, Inr (put_line ''bad action'' s))))"

text \<open>The lines put together again are the text.\<close>

lemma stream_lines_not_Nil [simp]: "stream_lines s \<noteq> []"
  by (cases s) simp_all

lemma stream_lines_no_newline: "l \<in> set (stream_lines s) \<Longrightarrow> CHR 0x0A \<notin> set l"
proof (induction s arbitrary: l)
  case (Cons c s)
  then show ?case
    using list.set_sel(2) [OF stream_lines_not_Nil, of _ s] by (auto split: if_splits)
qed simp

fun join_lines :: "string list \<Rightarrow> string" where
  "join_lines [] = []"
| "join_lines [l] = l"
| "join_lines (l # ls) = l @ [CHR 0x0A] @ join_lines ls"

lemma join_lines_Cons: "ls \<noteq> [] \<Longrightarrow> join_lines (l # ls) = l @ [CHR 0x0A] @ join_lines ls"
  by (cases ls) simp_all

lemma join_stream_lines: "join_lines (stream_lines s) = s"
proof (induction s)
  case (Cons c s)
  have "join_lines ((c # hd ls) # tl ls) = c # join_lines ls" if "ls \<noteq> []" for ls
    using that by (cases ls; cases "tl ls") simp_all
  with Cons show ?case by (simp add: join_lines_Cons)
qed simp

lemma stream_lines_append:
  "CHR 0x0A \<notin> set z \<Longrightarrow> stream_lines (s @ z) = butlast (stream_lines s) @ [last (stream_lines s) @ z]"
proof (induction s)
  case Nil
  then show ?case by (induction z) auto
next
  case (Cons c s)
  obtain l ls where "stream_lines s = l # ls" by (cases "stream_lines s") simp_all
  with Cons show ?case by (auto simp: neq_Nil_conv)
qed

lemma c_str_zeros: "CHR 0x00 \<notin> set s \<Longrightarrow> c_str (s @ replicate k (CHR 0x00)) = s"
  by (cases k) (auto simp: c_str_def takeWhile_append takeWhile_eq_all_conv)

lemma c_str_none: "CHR 0x00 \<notin> set s \<Longrightarrow> c_str s = s"
  using c_str_zeros [of s 0] by simp

lemma stream_lines_chars: "l \<in> set (stream_lines s) \<Longrightarrow> set l \<subseteq> set s"
proof (induction s arbitrary: l)
  case (Cons c s)
  obtain m ms where "stream_lines s = m # ms" by (cases "stream_lines s") simp_all
  with Cons show ?case by (fastforce split: if_splits)
qed simp

lemma lines_of_buffer:
  assumes "CHR 0x00 \<notin> set text"
  shows "map c_str (stream_lines (formatted_buffer n text)) = stream_lines (take (n - 1) text)"
proof -
  let ?t = "take (n - 1) text" and ?z = "replicate (n - length (take (n - 1) text)) (CHR 0x00)"
  have no: "CHR 0x00 \<notin> set ?t" using assms by (auto dest: in_set_takeD)
  have "CHR 0x0A \<notin> set ?z" by simp
  then have "stream_lines (formatted_buffer n text) = butlast (stream_lines ?t) @ [last (stream_lines ?t) @ ?z]"
    unfolding formatted_buffer_def by (rule stream_lines_append)
  moreover have "c_str l = l" if "l \<in> set (stream_lines ?t)" for l
    using stream_lines_chars [OF that] no by (auto intro: c_str_none)
  then have "map c_str (butlast (stream_lines ?t)) = butlast (stream_lines ?t)"
    by (intro map_idI) (auto dest: in_set_butlastD)
  moreover have "c_str (last (stream_lines ?t) @ ?z) = last (stream_lines ?t)"
    using stream_lines_chars [OF last_in_set [OF stream_lines_not_Nil]] no by (auto intro!: c_str_zeros)
  ultimately show ?thesis by simp
qed

text \<open>
  A message of an enabled level without zero bytes goes to syslog completely, up to 10239 bytes of it: its lines,
  in their order, are the arguments of the calls, none of them has a line break, and each call has the priority of the
  level and the same format. A message of a lower level makes no call.
\<close>

theorem syslog_lines:
  assumes "CHR 0x00 \<notin> set (vsnprintf format args)"
  shows "if sl_level L \<le> level
     then join_lines (map (snd \<circ> snd) (syslog_log vsnprintf L level format args)) = take 10239 (vsnprintf format args) \<and>
       list_all (\<lambda>(p, f, l). p = toSyslogPriority level \<and> f = c_str (syslog_format L) \<and> CHR 0x0A \<notin> set l)
         (syslog_log vsnprintf L level format args)
     else syslog_log vsnprintf L level format args = []"
proof (cases "sl_level L \<le> level")
  case True
  let ?t = "take 10239 (vsnprintf format args)"
  have m: "syslog_log vsnprintf L level format args =
      map (\<lambda>l. (toSyslogPriority level, c_str (syslog_format L), l)) (stream_lines ?t)"
    using True lines_of_buffer [OF assms, of "1024 * 10"]
    by (simp add: syslog_log_def comp_def flip: map_map [of "\<lambda>l. (toSyslogPriority level, c_str (syslog_format L), l)" c_str, unfolded comp_def])
  show ?thesis using True stream_lines_no_newline [of _ ?t]
    by (simp add: m comp_def join_stream_lines list_all_iff)
qed (simp add: syslog_log_def)

theorem syslog_lines_witness:
  "syslog_log (\<lambda>f a. f @ a) \<lparr>sl_ident = ''app'', sl_priority = 6, sl_requestSpecificIdent = True, sl_level = INFO,
     sl_threadIdent = Some ''r1''\<rparr> DEBUG ''a'' ''b'' = [] \<and>
   join_lines (map (snd \<circ> snd) (syslog_log (\<lambda>f a. f @ a) \<lparr>sl_ident = ''app'', sl_priority = 6,
     sl_requestSpecificIdent = True, sl_level = INFO, sl_threadIdent = Some ''r1''\<rparr> ERROR ''a'' ''b'')) = ''ab''"
  using syslog_lines [of "\<lambda>f a. f @ a" "''a''" "''b''" "\<lparr>sl_ident = ''app'', sl_priority = 6,
     sl_requestSpecificIdent = True, sl_level = INFO, sl_threadIdent = Some ''r1''\<rparr>" ERROR]
    syslog_lines [of "\<lambda>f a. f @ a" "''a''" "''b''" "\<lparr>sl_ident = ''app'', sl_priority = 6,
     sl_requestSpecificIdent = True, sl_level = INFO, sl_threadIdent = Some ''r1''\<rparr>" DEBUG]
  by (simp add: less_eq_log_level_def)

text \<open>A request that sets the level: the logger has it afterwards, with the priority of the level.\<close>

lemma syslog_setlevel:
  assumes "getArg (ts_request s) ''action'' = ''setlevel''" and "stringToLevel (getArg (ts_request s) ''level'') = Inr l"
    and "on_request s (setContentType ''text/plain'' (ts_request s)) = Inr s'" and "rq_args (ts_request s') = rq_args (ts_request s)"
  shows "sl_level (fst (syslog_handleRequest L s)) = l \<and> sl_priority (fst (syslog_handleRequest L s)) = toSyslogPriority l"
proof -
  have "getArg (ts_request s') n = getArg (ts_request s) n" for n using assms(4) by (simp add: getArg_def)
  with assms show ?thesis by (simp add: syslog_handleRequest_def syslog_setLevel_def)
qed

end
