(* ===== verification/Log4cxxLoggers.thy ===== *)
theory Log4cxxLoggers
  imports Loggers
begin

text \<open>
  The base class \<^verbatim>\<open>Logger\<close> (\<^verbatim>\<open>library/logger.cpp\<close>) with its entry points and the logger on top of the library
  log4cxx (\<^verbatim>\<open>logging/logger.cpp\<close>). A locale states what the base class expects of a logger that filters by
  level; the file logger and the syslog logger of the theory Loggers are interpretations of it.

  log4cxx is not part of the repository: its operations are an argument, a record of functions on a state \<open>'w\<close>
  of the library, and what its documentation promises of them are the hypotheses of the theorems.
\<close>

section \<open>The base class\<close>

text \<open>
  A logger: \<^verbatim>\<open>level_\<close> and the state of the derived class, on which \<^verbatim>\<open>setLevelInternal\<close> and \<^verbatim>\<open>log\<close> work.
\<close>

record 'w logger =
  lb_level :: log_level
  lb_impl :: 'w

definition logger_new :: "'w \<Rightarrow> 'w logger" where
  "logger_new w = \<lparr>lb_level = DEBUG, lb_impl = w\<rparr>"

definition logger_setLevel :: "(log_level \<Rightarrow> 'w \<Rightarrow> 'w) \<Rightarrow> log_level \<Rightarrow> 'w logger \<Rightarrow> 'w logger" where
  "logger_setLevel setLevelInternal level lg =
     lg\<lparr>lb_impl := setLevelInternal level (lb_impl lg), lb_level := level\<rparr>"

text \<open>The virtual \<^verbatim>\<open>log\<close> of the derived class, and the entry points that call it.\<close>

type_synonym ('a, 'w) log_fun = "log_level \<Rightarrow> string \<Rightarrow> 'a \<Rightarrow> 'w logger \<Rightarrow> 'w logger result"

definition logger_info :: "('a, 'w) log_fun \<Rightarrow> string \<Rightarrow> 'a \<Rightarrow> 'w logger \<Rightarrow> 'w logger result" where
  "logger_info log format args = log INFO format args"

definition logger_debug :: "('a, 'w) log_fun \<Rightarrow> string \<Rightarrow> 'a \<Rightarrow> 'w logger \<Rightarrow> 'w logger result" where
  "logger_debug log format args = log DEBUG format args"

definition logger_error :: "('a, 'w) log_fun \<Rightarrow> string \<Rightarrow> 'a \<Rightarrow> 'w logger \<Rightarrow> 'w logger result" where
  "logger_error log format args = log ERROR format args"

definition logger_emerg :: "('a, 'w) log_fun \<Rightarrow> string \<Rightarrow> 'a \<Rightarrow> 'w logger \<Rightarrow> 'w logger result" where
  "logger_emerg log format args = log EMERGENCY format args"

definition logger_entering :: "(string, 'w) log_fun \<Rightarrow> string \<Rightarrow> 'w logger \<Rightarrow> 'w logger result" where
  "logger_entering log func = logger_debug log (''entering %s'' @ [CHR 0x0A]) func"

definition logger_exiting :: "(string, 'w) log_fun \<Rightarrow> string \<Rightarrow> 'w logger \<Rightarrow> 'w logger result" where
  "logger_exiting log func = logger_debug log (''exiting %s'' @ [CHR 0x0A]) func"

definition bulk_log :: "('a, 'w) log_fun" where
  "bulk_log level format args lg = Inr lg"

section \<open>Loggers that filter by level\<close>

locale level_filter =
  fixes set_level :: "log_level \<Rightarrow> 's \<Rightarrow> 's"
    and emits :: "log_level \<Rightarrow> 's \<Rightarrow> bool"
  assumes emits_set_level: "emits l (set_level k s) \<longleftrightarrow> k \<le> l"
begin

text \<open>Of several levels that are set one after the other, only the last one counts.\<close>

lemma last_level_wins: "ks \<noteq> [] \<Longrightarrow> emits l (fold set_level ks s) \<longleftrightarrow> last ks \<le> l"
  by (induction ks rule: rev_induct) (simp_all add: emits_set_level)

lemma emits_upward: "emits l (set_level k s) \<Longrightarrow> l \<le> l' \<Longrightarrow> emits l' (set_level k s)"
  by (auto simp: emits_set_level)

lemma emergency_always: "emits EMERGENCY (set_level k s)"
  by (cases k) (simp_all add: emits_set_level less_eq_log_level_def)

end

definition file_setLevel :: "log_level \<Rightarrow> file_logger \<Rightarrow> file_logger" where
  "file_setLevel level fl = fl\<lparr>fl_level := level\<rparr>"

interpretation file_levels: level_filter file_setLevel "\<lambda>l fl. file_log (\<lambda>_ _. c # t) fl True ts l f a \<noteq> None"
  by unfold_locales (auto simp: file_setLevel_def file_log_def Let_def)

interpretation syslog_levels: level_filter syslog_setLevel "\<lambda>l L. syslog_log vs L l f a \<noteq> []"
  by unfold_locales (simp add: syslog_setLevel_def syslog_log_def)

section \<open>The logger on top of log4cxx\<close>

text \<open>
  What the code uses of log4cxx: loggers by name, rolling file appenders, levels, and the two tests and effects of
  a logger. Loggers and appenders are numbers.
\<close>

datatype l4_level = L4Debug | L4Info | L4Error | L4Fatal

record 'w log4cxx =
  l4_getRootLogger :: "'w \<Rightarrow> nat"
  l4_getLogger :: "string \<Rightarrow> 'w \<Rightarrow> nat \<times> 'w"
  l4_TTCC_pattern :: string
  l4_RollingFileAppender :: "string \<Rightarrow> string \<Rightarrow> 'w \<Rightarrow> nat \<times> 'w"
  l4_setMaxFileSize :: "nat \<Rightarrow> string \<Rightarrow> 'w \<Rightarrow> 'w"
  l4_addAppender :: "nat \<Rightarrow> nat \<Rightarrow> 'w \<Rightarrow> 'w"
  l4_setLevel :: "nat \<Rightarrow> l4_level \<Rightarrow> 'w \<Rightarrow> 'w"
  l4_isEnabledFor :: "nat \<Rightarrow> l4_level \<Rightarrow> 'w \<Rightarrow> bool"
  l4_log :: "nat \<Rightarrow> l4_level \<Rightarrow> string \<Rightarrow> 'w \<Rightarrow> 'w"
  l4_rollOver :: "nat \<Rightarrow> 'w \<Rightarrow> 'w"

record 'w default_logger =
  dl_logger :: nat
  dl_appender :: nat
  dl_level :: log_level
  dl_world :: 'w

fun toLog4cxxLevel :: "log_level \<Rightarrow> l4_level" where
  "toLog4cxxLevel INFO = L4Info"
| "toLog4cxxLevel DEBUG = L4Debug"
| "toLog4cxxLevel ERROR = L4Error"
| "toLog4cxxLevel EMERGENCY = L4Fatal"

definition default_setLevelInternal :: "'w log4cxx \<Rightarrow> log_level \<Rightarrow> 'w default_logger \<Rightarrow> 'w default_logger" where
  "default_setLevelInternal api level L =
     L\<lparr>dl_world := l4_setLevel api (dl_logger L) (toLog4cxxLevel level) (dl_world L)\<rparr>"

text \<open>\<^verbatim>\<open>Logger::setLevel\<close> with the \<^verbatim>\<open>setLevelInternal\<close> of this class.\<close>

definition default_setLevel :: "'w log4cxx \<Rightarrow> log_level \<Rightarrow> 'w default_logger \<Rightarrow> 'w default_logger" where
  "default_setLevel api level L = (default_setLevelInternal api level L)\<lparr>dl_level := level\<rparr>"

definition default_rollOver :: "'w log4cxx \<Rightarrow> 'w default_logger \<Rightarrow> 'w default_logger" where
  "default_rollOver api L = L\<lparr>dl_world := l4_rollOver api (dl_appender L) (dl_world L)\<rparr>"

definition default_logger_load :: "'w log4cxx \<Rightarrow> xml_config \<Rightarrow> string \<Rightarrow> 'w \<Rightarrow> 'w default_logger result" where
  "default_logger_load api cfg path w =
     rbind (cfg_asString_default cfg (path @ ''/pattern'') ''DEFAULT'') (\<lambda>layoutPattern.
     let pattern = (if ''DEFAULT'' = layoutPattern then l4_TTCC_pattern api else layoutPattern) in
     rbind (cfg_asString cfg (path @ ''/ident'')) (\<lambda>ident.
     let (logger, w) = l4_getLogger api ident w in
     rbind (cfg_asString cfg (path @ ''/file'')) (\<lambda>logFileName.
     let (appender, w) = l4_RollingFileAppender api pattern logFileName w;
         w = l4_setMaxFileSize api appender ''2000MB'' w;
         w = l4_addAppender api logger appender w
     in rbind (rbind (cfg_asString cfg (path @ ''/level'')) stringToLevel) (\<lambda>level.
     Inr (default_setLevel api level
       \<lparr>dl_logger = logger, dl_appender = appender, dl_level = DEBUG, dl_world = w\<rparr>)))))"

text \<open>
  \<^verbatim>\<open>vsnprintf\<close> gives the text, or \<open>None\<close> for its negative result: as a \<^verbatim>\<open>size_t\<close> that is a huge number, the buffer
  of \<open>size + 1 = 0\<close> bytes is empty, and the characters are read from memory behind it.
\<close>

definition default_log ::
    "'w log4cxx \<Rightarrow> (string \<Rightarrow> 'a \<Rightarrow> string option) \<Rightarrow> log_level \<Rightarrow> string \<Rightarrow> 'a \<Rightarrow> 'w default_logger \<Rightarrow>
     'w default_logger result" where
  "default_log api vsnprintf level format args L =
     (let l = toLog4cxxLevel level
      in if l4_isEnabledFor api (dl_logger L) l (dl_world L) then
           (case vsnprintf format args of
              None \<Rightarrow> Inl OutOfBounds
            | Some data \<Rightarrow>
                if length data > 0 then Inr (L\<lparr>dl_world := l4_log api (dl_logger L) l data (dl_world L)\<rparr>)
                else Inr L)
         else Inr L)"

definition default_handleRequest ::
    "'w log4cxx \<Rightarrow> 'w default_logger \<Rightarrow> ('s, 'u, 'c, 'h) task_state \<Rightarrow>
     'w default_logger \<times> ('s, 'u, 'c, 'h) run" where
  "default_handleRequest api L s =
     (case on_request s (setContentType ''text/plain'' (ts_request s)) of
        Inl e \<Rightarrow> (L, Inl e)
      | Inr s \<Rightarrow>
          (let action = getArg (ts_request s) ''action''
           in if ''setlevel'' = action then
                (let l = getArg (ts_request s) ''level''
                 in case stringToLevel l of
                      Inl e \<Rightarrow> (L, Inl (Std e, s))
                    | Inr level \<Rightarrow> (default_setLevel api level L, Inr (put_line (''level '' @ l @ ''successfully set'') s)))
              else if ''rollover'' = action then (default_rollOver api L, Inr (put_line ''rollover successful'' s))
              else (L, Inr (put_line ''bad action'' s))))"

text \<open>
  What log4cxx documents: a level that was set enables itself and the levels above it, and keeps doing so while
  messages are logged and files rolled over.
\<close>

fun l4_rank :: "l4_level \<Rightarrow> nat" where
  "l4_rank L4Debug = 10000"
| "l4_rank L4Info = 20000"
| "l4_rank L4Error = 40000"
| "l4_rank L4Fatal = 50000"

definition l4_levels :: "'w log4cxx \<Rightarrow> bool" where
  "l4_levels api \<longleftrightarrow>
     (\<forall>lg k l w. l4_isEnabledFor api lg l (l4_setLevel api lg k w) \<longleftrightarrow> l4_rank k \<le> l4_rank l) \<and>
     (\<forall>lg lg' k l msg w. l4_isEnabledFor api lg l (l4_log api lg' k msg w) = l4_isEnabledFor api lg l w) \<and>
     (\<forall>lg ap l w. l4_isEnabledFor api lg l (l4_rollOver api ap w) = l4_isEnabledFor api lg l w)"

lemma toLog4cxxLevel_mono: "l4_rank (toLog4cxxLevel k) \<le> l4_rank (toLog4cxxLevel l) \<longleftrightarrow> k \<le> l"
  by (cases k; cases l) (simp_all add: less_eq_log_level_def)

text \<open>The level the object remembers is the level that log4cxx filters by.\<close>

definition default_ok :: "'w log4cxx \<Rightarrow> 'w default_logger \<Rightarrow> bool" where
  "default_ok api L \<longleftrightarrow>
     (\<forall>l. l4_isEnabledFor api (dl_logger L) (toLog4cxxLevel l) (dl_world L) \<longleftrightarrow> dl_level L \<le> l)"

lemma default_setLevel_ok: "l4_levels api \<Longrightarrow> default_ok api (default_setLevel api k L)"
  by (simp add: default_ok_def default_setLevel_def default_setLevelInternal_def l4_levels_def toLog4cxxLevel_mono)

lemma default_load_ok:
  "l4_levels api \<Longrightarrow> default_logger_load api cfg path w = Inr L \<Longrightarrow> default_ok api L"
  by (auto simp: default_logger_load_def rbind_eq_Inr_conv Let_def split_beta default_setLevel_ok)

lemma default_log_ok:
  "l4_levels api \<Longrightarrow> default_ok api L \<Longrightarrow> default_log api vs level f a L = Inr L' \<Longrightarrow>
   default_ok api L' \<and> dl_level L' = dl_level L \<and> dl_logger L' = dl_logger L"
  by (auto simp: default_ok_def default_log_def Let_def l4_levels_def split: if_splits option.splits)

lemma default_handleRequest_ok:
  "l4_levels api \<Longrightarrow> default_ok api L \<Longrightarrow> default_ok api (fst (default_handleRequest api L s))"
  by (auto simp: default_handleRequest_def Let_def default_setLevel_ok default_rollOver_def split: sum.splits)
    (auto simp: default_ok_def l4_levels_def)

text \<open>
  The loggers of a program: loaded, then used for messages and for the requests of the administrator, whose states
  are in \<open>reqs\<close>.
\<close>

inductive default_reach :: "'w log4cxx \<Rightarrow> (string \<Rightarrow> 'a \<Rightarrow> string option) \<Rightarrow> ('s, 'u, 'c, 'h) task_state set \<Rightarrow>
    'w default_logger \<Rightarrow> bool" for api vs reqs where
  dr_load: "default_logger_load api cfg path w = Inr L \<Longrightarrow> default_reach api vs reqs L"
| dr_log: "default_reach api vs reqs L \<Longrightarrow> default_log api vs level f a L = Inr L' \<Longrightarrow> default_reach api vs reqs L'"
| dr_request: "default_reach api vs reqs L \<Longrightarrow> s \<in> reqs \<Longrightarrow> default_handleRequest api L s = (L', r) \<Longrightarrow>
    default_reach api vs reqs L'"

lemma default_reach_ok: "default_reach api vs reqs L \<Longrightarrow> l4_levels api \<Longrightarrow> default_ok api L"
proof (induction rule: default_reach.induct)
  case (dr_request L s L' r)
  then show ?case using default_handleRequest_ok [of api L s] by simp
qed (auto dest: default_load_ok default_log_ok)

text \<open>
  The logger on top of log4cxx passes on exactly the messages of its level and above. Whatever was logged and
  whatever levels were set by requests since it was loaded, \<^verbatim>\<open>getLevel\<close> is the level that log4cxx filters by: a message that is
  not empty goes to log4cxx unchanged if its level is at least that level, and has no effect otherwise.
\<close>

theorem log4cxx_logger_filters:
  assumes "l4_levels api" "default_reach api vs reqs L" "vs f a = Some msg" "msg \<noteq> []"
  shows "default_log api vs level f a L =
    Inr (if dl_level L \<le> level
         then L\<lparr>dl_world := l4_log api (dl_logger L) (toLog4cxxLevel level) msg (dl_world L)\<rparr> else L)"
  using default_reach_ok [OF assms(2,1)] assms(3,4) by (simp add: default_log_def Let_def default_ok_def)

text \<open>A library in memory: the level of each logger and the messages that reached it.\<close>

definition memory_log4cxx :: "((nat \<Rightarrow> l4_level) \<times> (nat \<times> string) list) log4cxx" where
  "memory_log4cxx =
     \<lparr>l4_getRootLogger = (\<lambda>w. 0), l4_getLogger = (\<lambda>n w. (1, w)), l4_TTCC_pattern = ''%r [%t] %p %c %x - %m%n'',
      l4_RollingFileAppender = (\<lambda>p f w. (0, w)), l4_setMaxFileSize = (\<lambda>ap sz w. w), l4_addAppender = (\<lambda>lg ap w. w),
      l4_setLevel = (\<lambda>lg k (ls, ms). (ls(lg := k), ms)), l4_isEnabledFor = (\<lambda>lg l (ls, ms). l4_rank (ls lg) \<le> l4_rank l),
      l4_log = (\<lambda>lg k msg (ls, ms). (ls, ms @ [(lg, msg)])), l4_rollOver = (\<lambda>ap w. w)\<rparr>"

lemma memory_l4_levels: "l4_levels memory_log4cxx"
  by (auto simp: l4_levels_def memory_log4cxx_def split_beta)

definition logger_config :: xml_config where
  "logger_config = \<lparr>xc_doc = (\<lambda>q. if q = ''c/ident'' then Inr [Some ''app''] else if q = ''c/file'' then Inr [Some ''app.log'']
     else if q = ''c/level'' then Inr [Some ''error''] else Inr []), xc_vars = []\<rparr>"

theorem log4cxx_logger_filters_witness:
  "\<exists>L. default_logger_load memory_log4cxx logger_config ''c'' (\<lambda>_. L4Debug, []) = Inr L \<and> dl_level L = ERROR \<and>
     default_log memory_log4cxx (\<lambda>f a. Some (f @ a)) EMERGENCY ''x='' ''1'' L =
       Inr (L\<lparr>dl_world := (fst (dl_world L), [(1, ''x=1'')])\<rparr>) \<and>
     default_log memory_log4cxx (\<lambda>f a. Some (f @ a)) INFO ''x='' ''1'' L = Inr L"
proof -
  define L where "L = \<lparr>dl_logger = 1, dl_appender = 0, dl_level = ERROR,
    dl_world = ((\<lambda>_. L4Debug)(1 :: nat := L4Error), [] :: (nat \<times> string) list)\<rparr>"
  have lev: "stringToLevel ''error'' = Inr ERROR" by code_simp
  have load: "default_logger_load memory_log4cxx logger_config ''c'' (\<lambda>_. L4Debug, []) = Inr L"
    by (simp add: L_def default_logger_load_def logger_config_def cfg_asString_default_def cfg_asString_def
        resolve_plain lev memory_log4cxx_def default_setLevel_def
        default_setLevelInternal_def)
  have "default_reach memory_log4cxx (\<lambda>f a. Some (f @ a)) ({} :: (unit, unit, unit, unit) task_state set) L"
    using load by (rule dr_load)
  note f = log4cxx_logger_filters [OF memory_l4_levels this]
  show ?thesis
    using load f [of "''x=''" "''1''" "''x=1''" EMERGENCY] f [of "''x=''" "''1''" "''x=1''" INFO]
    by (auto simp: L_def less_eq_log_level_def memory_log4cxx_def)
qed

end
