(* ===== verification/SystemUtils.thy ===== *)
theory SystemUtils
  imports StringUtils
begin

text \<open>
  The utilities of \<^verbatim>\<open>library/util.cpp\<close> that ask the system: formatted text, the text of an error number, the
  current time, new identifiers and the test of a directory. \<^verbatim>\<open>vasprintf\<close>, \<^verbatim>\<open>strerror_r\<close>, the clock, libuuid
  and \<^verbatim>\<open>access\<close> are arguments; what they are known to do is a hypothesis where it is needed.
\<close>

section \<open>Formatted text\<close>

text \<open>
  \<^verbatim>\<open>vasprintf\<close> allocates the text; \<open>None\<close> is its failure, after which the pointer is still null.
\<close>

definition su_sprintf :: "(string \<Rightarrow> 'a \<Rightarrow> string option) \<Rightarrow> string \<Rightarrow> 'a \<Rightarrow> string result" where
  "su_sprintf vasprintf format args =
     (case vasprintf format args of
        None \<Rightarrow> Inl NullPointer
      | Some buf \<Rightarrow> Inr (c_str buf))"

section \<open>The text of an error\<close>

text \<open>
  \<^verbatim>\<open>strerror_r\<close> is called with the buffer on the stack, whose 1024 bytes are arbitrary; its answer is the buffer
  afterwards and the pointer or number it returns, which the code drops. Without a zero byte in the buffer
  the constructor of the string reads on behind it.
\<close>

definition error_buffer_size :: nat where
  "error_buffer_size = 1024"

definition su_error :: "(int \<Rightarrow> string \<Rightarrow> string \<times> 'r) \<Rightarrow> string \<Rightarrow> int \<Rightarrow> string result" where
  "su_error strerror_r buffer err =
     (let (buffer, _) = strerror_r err buffer
      in if CHR 0x00 \<in> set buffer then Inr (c_str buffer) else Inl OutOfBounds)"

text \<open>
  The two documented forms of \<^verbatim>\<open>strerror_r\<close>: the one of XSI copies the message and a zero byte into the buffer;
  the one of GNU, which g++ selects, returns a pointer to the message and need not touch the buffer.
\<close>

definition strerror_xsi :: "(int \<Rightarrow> string) \<Rightarrow> (int \<Rightarrow> string \<Rightarrow> string \<times> 'r) \<Rightarrow> bool" where
  "strerror_xsi message strerror_r \<longleftrightarrow>
     (\<forall>err buffer. length (message err) < length buffer \<longrightarrow>
        fst (strerror_r err buffer) = message err @ CHR 0x00 # drop (Suc (length (message err))) buffer)"

definition strerror_gnu :: "(int \<Rightarrow> string) \<Rightarrow> (int \<Rightarrow> string \<Rightarrow> string \<times> string) \<Rightarrow> bool" where
  "strerror_gnu message strerror_r \<longleftrightarrow> (\<forall>err buffer. strerror_r err buffer = (buffer, message err))"

section \<open>Time, identifiers, access\<close>

text \<open>The clock counts nanoseconds from the epoch; the cast to seconds rounds toward zero.\<close>

definition getCurrentTime :: "int \<Rightarrow> int" where
  "getCurrentTime now = (if 0 \<le> now then now div 1000000000 else - ((- now) div 1000000000))"

definition uuid_getNewId :: "(string \<Rightarrow> string) \<Rightarrow> string \<Rightarrow> string" where
  "uuid_getNewId uuid_unparse_lower u = c_str (uuid_unparse_lower u)"

definition R_OK :: nat where "R_OK = 4"
definition W_OK :: nat where "W_OK = 2"

definition isWritable :: "(string \<Rightarrow> nat \<Rightarrow> int) \<Rightarrow> string \<Rightarrow> bool" where
  "isWritable access path \<longleftrightarrow> 0 = access (c_str path) (R_OK + W_OK)"

section \<open>Properties\<close>

lemma c_str_terminated: "CHR 0x00 \<notin> set m \<Longrightarrow> c_str (m @ CHR 0x00 # r) = m"
  by (auto simp: c_str_def takeWhile_tail takeWhile_append)

lemma getCurrentTime_seconds:
  "0 \<le> now \<Longrightarrow> getCurrentTime now * 1000000000 \<le> now \<and> now < (getCurrentTime now + 1) * 1000000000"
  by (simp add: getCurrentTime_def) linarith

lemma getCurrentTime_mono: "a \<le> b \<Longrightarrow> getCurrentTime a \<le> getCurrentTime b"
  unfolding getCurrentTime_def by (auto intro: zdiv_mono1 order_trans [of _ 0] simp: pos_imp_zdiv_nonneg_iff)

lemma uuid_getNewId_fresh:
  assumes "inj unparse" "\<And>u. CHR 0x00 \<notin> set (unparse u)" "u \<notin> set us"
  shows "uuid_getNewId unparse u \<notin> set (map (uuid_getNewId unparse) us)"
proof -
  have "c_str (unparse v) = unparse v" for v using assms(2) [of v] by (auto simp: c_str_def takeWhile_eq_all_conv)
  then show ?thesis using assms(1,3) by (auto simp: uuid_getNewId_def inj_eq)
qed

text \<open>
  \<^verbatim>\<open>StringUtils::error\<close> gives the message of the error number only with the XSI form of \<^verbatim>\<open>strerror_r\<close>. With the
  GNU form its result does not depend on the error at all: it is what the stack held, up to a zero byte, or
  memory behind the buffer.
\<close>

theorem error_text_needs_xsi:
  fixes gnu :: "int \<Rightarrow> string \<Rightarrow> string \<times> string"
  assumes "length buffer = error_buffer_size" "CHR 0x00 \<notin> set (message err)" "length (message err) < error_buffer_size"
  shows "(strerror_xsi message xsi \<longrightarrow> su_error xsi buffer err = Inr (message err)) \<and>
    (strerror_gnu message gnu \<longrightarrow> su_error gnu buffer err = su_error gnu buffer err' \<and>
      su_error gnu buffer err = (if CHR 0x00 \<in> set buffer then Inr (c_str buffer) else Inl OutOfBounds))"
  using assms
  by (auto simp: su_error_def strerror_xsi_def strerror_gnu_def split_beta c_str_terminated)

theorem error_text_needs_xsi_witness:
  "su_error (\<lambda>err b. (''EPERM'' @ CHR 0x00 # drop 6 b, 0 :: int)) (replicate 1024 (CHR ''x'')) 1 = Inr ''EPERM'' \<and>
   su_error (\<lambda>err b. (b, ''EPERM'')) (replicate 1024 (CHR ''x'')) 1 = Inl OutOfBounds"
proof -
  let ?xsi = "\<lambda>err b. (''EPERM'' @ CHR 0x00 # drop 6 b, 0 :: int)" and ?gnu = "\<lambda>err b. (b, ''EPERM'')"
  have "strerror_xsi (\<lambda>_. ''EPERM'') ?xsi" "strerror_gnu (\<lambda>_. ''EPERM'') ?gnu"
    by (simp_all add: strerror_xsi_def strerror_gnu_def eval_nat_numeral)
  then show ?thesis
    using error_text_needs_xsi [of "replicate 1024 (CHR ''x'')" "\<lambda>_. ''EPERM''" 1 ?xsi ?gnu 2]
    by (auto simp: error_buffer_size_def)
qed

end
