(* ===== verification/Sessions.thy ===== *)
theory Sessions
  imports Requests
begin

text \<open>
  Sessions (\<^verbatim>\<open>library/attributes_holder.cpp\<close>, \<^verbatim>\<open>library/session.cpp\<close>, \<^verbatim>\<open>library/session_manager.cpp\<close>,
  \<^verbatim>\<open>session-manager/simple_session_manager.cpp\<close>).

  Session objects are shared: the table of the manager, requests and callers hold \<^verbatim>\<open>shared_ptr\<close>s to
  them. The model has an explicit store of session objects, the table from identifiers to
  references, and the list of the references that are held outside of the table, one entry for each
  \<^verbatim>\<open>shared_ptr\<close>. When the last reference to a session goes, its deleter runs, which is
  \<^verbatim>\<open>SessionManager::invalidate\<close>. The table is an \<^verbatim>\<open>unordered_map\<close>: its list is in some order of
  iteration, with new entries at the front. Allocation succeeds, so that no reference is null.
\<close>

section \<open>Attributes\<close>

datatype listener_event = UPDATE_ATTRIBUTE | REMOVE_ATTRIBUTE

text \<open>An attribute is a \<^verbatim>\<open>core::any\<close>, which may be empty.\<close>

record ('a, 'l) attributes =
  at_values :: "(string \<times> 'a option) list"
  at_listeners :: "'l list"
  at_invoke :: bool

definition attributes_new :: "bool \<Rightarrow> ('a, 'l) attributes" where
  "attributes_new invokeListeners = \<lparr>at_values = [], at_listeners = [], at_invoke = invokeListeners\<rparr>"

text \<open>The calls of the listeners are part of the result; exceptions of listeners are swallowed.\<close>

definition setAttribute :: "string \<Rightarrow> 'a option \<Rightarrow> ('a, 'l) attributes \<Rightarrow>
    ('a, 'l) attributes \<times> ('l \<times> listener_event \<times> string \<times> 'a option) list" where
  "setAttribute name attr h =
     (h\<lparr>at_values := om_assign string_lt name attr (at_values h)\<rparr>,
      if at_invoke h then map (\<lambda>f. (f, UPDATE_ATTRIBUTE, name, attr)) (at_listeners h) else [])"

definition getAttribute :: "string \<Rightarrow> ('a, 'l) attributes \<Rightarrow> 'a option" where
  "getAttribute name h = (case om_find string_lt name (at_values h) of Some attr \<Rightarrow> attr | None \<Rightarrow> None)"

definition getAttribute_as :: "('a \<Rightarrow> 't result) \<Rightarrow> string \<Rightarrow> ('a, 'l) attributes \<Rightarrow> 't result" where
  "getAttribute_as any_cast name h =
     (case getAttribute name h of Some attr \<Rightarrow> any_cast attr | None \<Rightarrow> Inl (RuntimeError ''Attribute not found''))"

definition getAttribute_default :: "('a \<Rightarrow> 't result) \<Rightarrow> string \<Rightarrow> 't \<Rightarrow> ('a, 'l) attributes \<Rightarrow> 't result" where
  "getAttribute_default any_cast name defaultValue h =
     (case getAttribute name h of Some attr \<Rightarrow> any_cast attr | None \<Rightarrow> Inr defaultValue)"

definition hasAttribute :: "string \<Rightarrow> ('a, 'l) attributes \<Rightarrow> bool" where
  "hasAttribute name h \<longleftrightarrow> om_find string_lt name (at_values h) \<noteq> None"

text \<open>The listeners get the element through the iterator that was erased just before.\<close>

definition removeAttribute :: "string \<Rightarrow> ('a, 'l) attributes \<Rightarrow> ('a, 'l) attributes result" where
  "removeAttribute name h =
     (if om_find string_lt name (at_values h) \<noteq> None then
        if at_invoke h \<and> at_listeners h \<noteq> [] then Inl OutOfBounds
        else Inr (h\<lparr>at_values := om_erase string_lt name (at_values h)\<rparr>)
      else Inr h)"

definition removeAllAttributes :: "('a, 'l) attributes \<Rightarrow> ('a, 'l) attributes" where
  "removeAllAttributes h = h\<lparr>at_values := []\<rparr>"

definition addListener :: "'l \<Rightarrow> ('a, 'l) attributes \<Rightarrow> nat \<times> ('a, 'l) attributes" where
  "addListener f h =
     (let ls = at_listeners h @ [f] in (length ls - 1, h\<lparr>at_listeners := ls\<rparr>))"

definition removeListener :: "nat \<Rightarrow> ('a, 'l) attributes \<Rightarrow> ('a, 'l) attributes" where
  "removeListener index h =
     (if length (at_listeners h) > index
      then h\<lparr>at_listeners := take index (at_listeners h) @ drop (Suc index) (at_listeners h)\<rparr> else h)"

section \<open>Session objects\<close>

text \<open>Points in time and durations in nanoseconds, as the ticks of \<^verbatim>\<open>steady_clock\<close>.\<close>

definition minutes :: "int \<Rightarrow> int" where
  "minutes n = n * 60 * 1000000000"

record ('a, 'l, 'u) session =
  se_id :: string
  se_created :: int
  se_last_accessed :: int
  se_max_inactive :: int
  se_subject :: "'u option"
  se_attributes :: "('a, 'l) attributes"

definition session_new :: "int \<Rightarrow> string \<Rightarrow> ('a, 'l, 'u) session" where
  "session_new now i =
     \<lparr>se_id = i, se_created = now, se_last_accessed = now, se_max_inactive = minutes 30, se_subject = None,
      se_attributes = attributes_new True\<rparr>"

definition se_changeId :: "string \<Rightarrow> ('a, 'l, 'u) session \<Rightarrow> ('a, 'l, 'u) session" where
  "se_changeId newId s = s\<lparr>se_id := newId\<rparr>"

definition se_invalidate :: "int \<Rightarrow> ('a, 'l, 'u) session \<Rightarrow> ('a, 'l, 'u) session" where
  "se_invalidate now s = s\<lparr>se_attributes := removeAllAttributes (se_attributes s), se_subject := None,
     se_last_accessed := now - se_max_inactive s\<rparr>"

definition updateLastAccessedTime :: "int \<Rightarrow> ('a, 'l, 'u) session \<Rightarrow> ('a, 'l, 'u) session" where
  "updateLastAccessedTime now s = s\<lparr>se_last_accessed := now\<rparr>"

definition isExpired :: "int \<Rightarrow> ('a, 'l, 'u) session \<Rightarrow> bool" where
  "isExpired now s \<longleftrightarrow> now > se_last_accessed s + se_max_inactive s"

definition setMaxInactiveInterval :: "int \<Rightarrow> ('a, 'l, 'u) session \<Rightarrow> ('a, 'l, 'u) session" where
  "setMaxInactiveInterval d s = s\<lparr>se_max_inactive := minutes d\<rparr>"

definition se_setSubject :: "'u option \<Rightarrow> ('a, 'l, 'u) session \<Rightarrow> ('a, 'l, 'u) session" where
  "se_setSubject subject s = s\<lparr>se_subject := subject\<rparr>"

definition se_getSubject :: "'u \<Rightarrow> ('a, 'l, 'u) session \<Rightarrow> 'u" where
  "se_getSubject anonymousSubject s = (case se_subject s of Some u \<Rightarrow> u | None \<Rightarrow> anonymousSubject)"

section \<open>The session manager\<close>

definition SESSION_COOKIE_NAME :: string where
  "SESSION_COOKIE_NAME = ''JSESSIONID''"

definition crawler_agent_session_id :: string where
  "crawler_agent_session_id = ''crawler-fixed-sesson-id''"

definition crawler_session_timeout_min :: int where
  "crawler_session_timeout_min = 5"

record ('a, 'l, 'u) session_manager =
  sm_objects :: "nat \<Rightarrow> ('a, 'l, 'u) session option"
  sm_fresh :: nat
  sm_sessions :: "(string \<times> nat) list"
  sm_held :: "nat list"
  sm_uuids :: nat
  sm_httpOnly :: bool
  sm_max_inactive :: int

definition session_manager_new :: "int \<Rightarrow> ('a, 'l, 'u) session_manager" where
  "session_manager_new timeout =
     \<lparr>sm_objects = (\<lambda>_. None), sm_fresh = 0, sm_sessions = [], sm_held = [], sm_uuids = 0, sm_httpOnly = True,
      sm_max_inactive = timeout\<rparr>"

definition table_erase :: "string \<Rightarrow> (string \<times> nat) list \<Rightarrow> (string \<times> nat) list" where
  "table_erase i t = filter (\<lambda>e. fst e \<noteq> i) t"

lemma length_table_erase: "map_of t i = Some r \<Longrightarrow> length (table_erase i t) < length t"
  using length_filter_less [of "(i, r)" t "\<lambda>e. fst e \<noteq> i"] map_of_SomeD [of t i r] by (simp add: table_erase_def)

definition sm_update :: "nat \<Rightarrow> (('a, 'l, 'u) session \<Rightarrow> ('a, 'l, 'u) session) \<Rightarrow> ('a, 'l, 'u) session_manager \<Rightarrow>
    ('a, 'l, 'u) session_manager" where
  "sm_update ref f m = m\<lparr>sm_objects := (sm_objects m)(ref := map_option f (sm_objects m ref))\<rparr>"

text \<open>A session is destroyed when neither the table nor anybody else has a reference to it.\<close>

definition referenced :: "nat \<Rightarrow> ('a, 'l, 'u) session_manager \<Rightarrow> bool" where
  "referenced ref m \<longleftrightarrow> ref \<in> set (sm_held m) \<or> ref \<in> snd ` set (sm_sessions m)"

text \<open>
  The deleter: it removes the entry of the table under the identifier of the session, whichever
  session this entry refers to, and deletes the session. Removing the entry drops a reference.
\<close>

function sm_invalidate :: "nat \<Rightarrow> ('a, 'l, 'u) session_manager \<Rightarrow> ('a, 'l, 'u) session_manager" where
  "sm_invalidate ref m =
     (case sm_objects m ref of
        None \<Rightarrow> m
      | Some s \<Rightarrow>
          (let m = (case map_of (sm_sessions m) (se_id s) of
                      None \<Rightarrow> m
                    | Some ref' \<Rightarrow>
                        (let m = m\<lparr>sm_sessions := table_erase (se_id s) (sm_sessions m)\<rparr>
                         in if referenced ref' m then m else sm_invalidate ref' m))
           in m\<lparr>sm_objects := (sm_objects m)(ref := None)\<rparr>))"
  by pat_completeness auto
termination
  by (relation "measure (\<lambda>(ref, m). length (sm_sessions m))") (auto dest: length_table_erase)

declare sm_invalidate.simps [simp del]

text \<open>One \<^verbatim>\<open>shared_ptr\<close> outside of the table goes, or one entry of the table.\<close>

definition hold :: "nat \<Rightarrow> ('a, 'l, 'u) session_manager \<Rightarrow> ('a, 'l, 'u) session_manager" where
  "hold ref m = m\<lparr>sm_held := ref # sm_held m\<rparr>"

definition drop_ref :: "nat \<Rightarrow> ('a, 'l, 'u) session_manager \<Rightarrow> ('a, 'l, 'u) session_manager" where
  "drop_ref ref m =
     (let m = m\<lparr>sm_held := remove1 ref (sm_held m)\<rparr> in if referenced ref m then m else sm_invalidate ref m)"

definition erase_entry :: "string \<Rightarrow> ('a, 'l, 'u) session_manager \<Rightarrow> ('a, 'l, 'u) session_manager" where
  "erase_entry i m =
     (case map_of (sm_sessions m) i of
        None \<Rightarrow> m
      | Some ref \<Rightarrow>
          (let m = m\<lparr>sm_sessions := table_erase i (sm_sessions m)\<rparr>
           in if referenced ref m then m else sm_invalidate ref m))"

definition newSession :: "int \<Rightarrow> string \<Rightarrow> ('a, 'l, 'u) session_manager \<Rightarrow> nat \<times> ('a, 'l, 'u) session_manager" where
  "newSession now i m =
     (sm_fresh m, m\<lparr>sm_objects := (sm_objects m)(sm_fresh m \<mapsto> session_new now i), sm_fresh := Suc (sm_fresh m),
        sm_held := sm_fresh m # sm_held m\<rparr>)"

text \<open>
  Identifiers come from the UUID library; whether the user agent is a crawler is decided by a regular
  expression of the configuration.
\<close>

definition sm_isBot :: "(string \<Rightarrow> bool) \<Rightarrow> ('s, 'u) request \<Rightarrow> bool" where
  "sm_isBot crawler r =
     (let userAgent = getHeader r ''USER-AGENT'' in userAgent \<noteq> [] \<and> crawler userAgent)"

definition getNewId :: "(string \<Rightarrow> bool) \<Rightarrow> (nat \<Rightarrow> string) \<Rightarrow> ('s, 'u) request \<Rightarrow> ('a, 'l, 'u) session_manager \<Rightarrow>
    string \<times> ('a, 'l, 'u) session_manager" where
  "getNewId crawler uuid r m =
     (if \<not> sm_isBot crawler r then (uuid (sm_uuids m), m\<lparr>sm_uuids := Suc (sm_uuids m)\<rparr>)
      else (crawler_agent_session_id, m))"

text \<open>The loop that avoids duplicate identifiers.\<close>

partial_function (option) insert_session :: "(string \<Rightarrow> bool) \<Rightarrow> (nat \<Rightarrow> string) \<Rightarrow> int \<Rightarrow> ('s, 'u) request \<Rightarrow> string \<Rightarrow> nat \<Rightarrow>
    ('a, 'l, 'u) session_manager \<Rightarrow> (nat \<times> ('a, 'l, 'u) session_manager) option" where
  "insert_session crawler uuid now r i ref m =
     (if map_of (sm_sessions m) i = None then Some (ref, m\<lparr>sm_sessions := (i, ref) # sm_sessions m\<rparr>)
      else let (i', m) = getNewId crawler uuid r m;
               (ref', m) = newSession now i' m
           in insert_session crawler uuid now r i' ref' (drop_ref ref m))"

definition createInternal :: "(string \<Rightarrow> bool) \<Rightarrow> (nat \<Rightarrow> string) \<Rightarrow> int \<Rightarrow> ('s, 'u) request \<Rightarrow>
    ('a, 'l, 'u) session_manager \<Rightarrow> (nat \<times> ('a, 'l, 'u) session_manager) option" where
  "createInternal crawler uuid now r m =
     (let (i, m) = getNewId crawler uuid r m in
      if crawler_agent_session_id \<noteq> i then
        let (ref, m) = newSession now i m in
        map_option (\<lambda>(ref, m). (ref, sm_update ref (setMaxInactiveInterval (sm_max_inactive m)) m))
          (insert_session crawler uuid now r i ref m)
      else
        let (ref, m) =
              (case map_of (sm_sessions m) i of
                 None \<Rightarrow>
                   (let (ref, m) = newSession now i m
                    in (ref, sm_update ref (setMaxInactiveInterval crawler_session_timeout_min)
                          (m\<lparr>sm_sessions := (i, ref) # sm_sessions m\<rparr>)))
               | Some ref \<Rightarrow> (ref, hold ref m))
        in Some (ref, sm_update ref (updateLastAccessedTime now) m))"

definition session_cookie :: "string \<Rightarrow> ('s, 'u) request \<Rightarrow> ('a, 'l, 'u) session_manager \<Rightarrow> cookie" where
  "session_cookie i r m =
     cookie_set_secure (isSecure r) (cookie_set_httpOnly (sm_httpOnly m) (cookie_new SESSION_COOKIE_NAME i))"

text \<open>The entry of the table for the session cookie of a request.\<close>

definition cookie_session :: "('s, 'u) request \<Rightarrow> ('a, 'l, 'u) session_manager \<Rightarrow> nat option" where
  "cookie_session r m =
     (if hasCookie r SESSION_COOKIE_NAME then map_of (sm_sessions m) (getCookie r SESSION_COOKIE_NAME) else None)"

text \<open>
  An exception carries the states of the request and of the manager. The reference of a result is
  held by the caller.
\<close>

type_synonym ('a, 'l, 's, 'u, 'x) sm_outcome =
  "(cpp_error \<times> ('s, 'u) request \<times> ('a, 'l, 'u) session_manager) + ('x \<times> ('s, 'u) request \<times> ('a, 'l, 'u) session_manager)"

definition start_session :: "(string \<Rightarrow> bool) \<Rightarrow> (nat \<Rightarrow> string) \<Rightarrow> int \<Rightarrow> ('s, 'u) request \<Rightarrow> ('a, 'l, 'u) session_manager \<Rightarrow>
    ('a, 'l, 's, 'u, nat) sm_outcome" where
  "start_session crawler uuid now r m =
     (case createInternal crawler uuid now r m of
        None \<Rightarrow> Inl (Diverges, r, m)
      | Some (ref, m) \<Rightarrow>
          (case sm_objects m ref of
             None \<Rightarrow> Inl (NullPointer, r, m)
           | Some s \<Rightarrow>
               (case setCookie (session_cookie (se_id s) r m) r of
                  Inl (e, r) \<Rightarrow> Inl (e, r, drop_ref ref m)
                | Inr r \<Rightarrow> Inr (ref, r, m))))"

definition sm_create :: "(string \<Rightarrow> bool) \<Rightarrow> (nat \<Rightarrow> string) \<Rightarrow> int \<Rightarrow> ('s, 'u) request \<Rightarrow> ('a, 'l, 'u) session_manager \<Rightarrow>
    ('a, 'l, 's, 'u, nat) sm_outcome" where
  "sm_create crawler uuid now r m =
     (let m = (case cookie_session r m of Some ref \<Rightarrow> sm_update ref (se_invalidate now) m | None \<Rightarrow> m)
      in start_session crawler uuid now r m)"

definition sm_get :: "(string \<Rightarrow> bool) \<Rightarrow> (nat \<Rightarrow> string) \<Rightarrow> int \<Rightarrow> ('s, 'u) request \<Rightarrow> ('a, 'l, 'u) session_manager \<Rightarrow>
    ('a, 'l, 's, 'u, nat) sm_outcome" where
  "sm_get crawler uuid now r m =
     (case cookie_session r m of
        Some ref \<Rightarrow> Inr (ref, r, hold ref (sm_update ref (updateLastAccessedTime now) m))
      | None \<Rightarrow> start_session crawler uuid now r m)"

text \<open>
  Changing the identifier moves the reference out of the old entry before it is known whether the
  new one can be inserted. When it cannot, the reference is dropped with the temporary pair; if the
  deleter then removes the old entry itself, the iterator that is erased next dangles.
\<close>

definition move_session :: "string \<Rightarrow> string \<Rightarrow> nat \<Rightarrow> ('a, 'l, 'u) session_manager \<Rightarrow> ('a, 'l, 'u) session_manager result" where
  "move_session old new ref m =
     (let m' = m\<lparr>sm_sessions := table_erase old (sm_sessions m)\<rparr> in
      if map_of (sm_sessions m) new = None then Inr (m'\<lparr>sm_sessions := (new, ref) # sm_sessions m'\<rparr>)
      else if referenced ref m' then Inr m'
      else if new = old then Inl OutOfBounds
      else Inr (sm_invalidate ref m'))"

definition sm_changeId :: "(string \<Rightarrow> bool) \<Rightarrow> (nat \<Rightarrow> string) \<Rightarrow> ('s, 'u) request \<Rightarrow> ('a, 'l, 'u) session_manager \<Rightarrow>
    ('a, 'l, 's, 'u, unit) sm_outcome" where
  "sm_changeId crawler uuid r m =
     (case cookie_session r m of
        None \<Rightarrow> Inr ((), r, m)
      | Some ref \<Rightarrow>
          (let (i, m) = getNewId crawler uuid r m;
               m = sm_update ref (se_changeId i) m
           in case move_session (getCookie r SESSION_COOKIE_NAME) i ref m of
                Inl e \<Rightarrow> Inl (e, r, m)
              | Inr m \<Rightarrow>
                  (case setCookie (session_cookie i r m) r of
                     Inl (e, r) \<Rightarrow> Inl (e, r, m)
                   | Inr r \<Rightarrow> Inr ((), r, m))))"

definition invalidateAll :: "('a, 'l, 'u) session_manager \<Rightarrow> ('a, 'l, 'u) session_manager" where
  "invalidateAll m = foldl (\<lambda>m i. erase_entry i m) m (map fst (sm_sessions m))"

text \<open>One round of the thread that removes expired sessions.\<close>

definition entry_expired :: "int \<Rightarrow> string \<Rightarrow> ('a, 'l, 'u) session_manager \<Rightarrow> bool" where
  "entry_expired now i m \<longleftrightarrow>
     (case map_of (sm_sessions m) i of
        None \<Rightarrow> False
      | Some ref \<Rightarrow> (case sm_objects m ref of Some s \<Rightarrow> isExpired now s | None \<Rightarrow> False))"

definition checkSessionTimeout :: "int \<Rightarrow> ('a, 'l, 'u) session_manager \<Rightarrow> ('a, 'l, 'u) session_manager" where
  "checkSessionTimeout now m =
     foldl (\<lambda>m i. if entry_expired now i m then erase_entry i m else m) m (map fst (sm_sessions m))"

section \<open>Sessions of a request\<close>

fun drop_opt :: "nat option \<Rightarrow> ('a, 'l, 'u) session_manager \<Rightarrow> ('a, 'l, 'u) session_manager" where
  "drop_opt None m = m"
| "drop_opt (Some ref) m = drop_ref ref m"

fun hold_opt :: "nat option \<Rightarrow> ('a, 'l, 'u) session_manager \<Rightarrow> ('a, 'l, 'u) session_manager" where
  "hold_opt None m = m"
| "hold_opt (Some ref) m = hold ref m"

text \<open>The assignment of a new session, or, after an exception, of none.\<close>

definition assign_session :: "('a, 'l, nat, 'u, nat) sm_outcome \<Rightarrow> nat option \<Rightarrow>
    ((nat, 'u) request \<times> ('a, 'l, 'u) session_manager) result" where
  "assign_session x old =
     (case x of
        Inl (e, r, m) \<Rightarrow>
          if e \<in> {Diverges, NullPointer, OutOfBounds} then Inl e else Inr (r\<lparr>rq_session := None\<rparr>, drop_opt old m)
      | Inr (ref, r, m) \<Rightarrow> Inr (r\<lparr>rq_session := Some ref\<rparr>, drop_opt old m))"

definition createSession :: "bool \<Rightarrow> (string \<Rightarrow> bool) \<Rightarrow> (nat \<Rightarrow> string) \<Rightarrow> int \<Rightarrow> (nat, 'u) request \<Rightarrow>
    ('a, 'l, 'u) session_manager \<Rightarrow> (nat option \<times> (nat, 'u) request \<times> ('a, 'l, 'u) session_manager) result" where
  "createSession attached crawler uuid now r m =
     rbind (if attached then assign_session (sm_create crawler uuid now r m) (rq_session r) else Inr (r, m))
       (\<lambda>(r, m). Inr (rq_session r, r, hold_opt (rq_session r) m))"

definition getSession :: "bool \<Rightarrow> (string \<Rightarrow> bool) \<Rightarrow> (nat \<Rightarrow> string) \<Rightarrow> int \<Rightarrow> (nat, 'u) request \<Rightarrow>
    ('a, 'l, 'u) session_manager \<Rightarrow> (nat option \<times> (nat, 'u) request \<times> ('a, 'l, 'u) session_manager) result" where
  "getSession attached crawler uuid now r m =
     rbind (if rq_session r = None \<and> attached then assign_session (sm_get crawler uuid now r m) (rq_session r)
            else Inr (r, m))
       (\<lambda>(r, m). Inr (rq_session r, r, hold_opt (rq_session r) m))"

definition changeSessionId :: "bool \<Rightarrow> (string \<Rightarrow> bool) \<Rightarrow> (nat \<Rightarrow> string) \<Rightarrow> ('s, 'u) request \<Rightarrow> ('a, 'l, 'u) session_manager \<Rightarrow>
    ('a, 'l, 's, 'u, unit) sm_outcome" where
  "changeSessionId attached crawler uuid r m =
     (if attached then sm_changeId crawler uuid r m else Inr ((), r, m))"

section \<open>The invariant of the manager\<close>

text \<open>
  Every entry of the table is under the identifier of its session and refers to a live object, as
  does every reference outside; every live object is referenced.
\<close>

definition sm_core :: "('a, 'l, 'u) session_manager \<Rightarrow> bool" where
  "sm_core m \<longleftrightarrow> distinct (map fst (sm_sessions m)) \<and>
     (\<forall>i ref. (i, ref) \<in> set (sm_sessions m) \<longrightarrow> (\<exists>s. sm_objects m ref = Some s \<and> se_id s = i)) \<and>
     (\<forall>ref \<in> set (sm_held m). sm_objects m ref \<noteq> None) \<and>
     (\<forall>ref. sm_objects m ref \<noteq> None \<longrightarrow> ref < sm_fresh m)"

definition sm_inv :: "('a, 'l, 'u) session_manager \<Rightarrow> bool" where
  "sm_inv m \<longleftrightarrow> sm_core m \<and> (\<forall>ref. sm_objects m ref \<noteq> None \<longrightarrow> referenced ref m)"

text \<open>What the deleters achieve together: the objects that are no longer referenced are gone.\<close>

definition collect :: "('a, 'l, 'u) session_manager \<Rightarrow> ('a, 'l, 'u) session_manager" where
  "collect m = m\<lparr>sm_objects := (\<lambda>ref. if referenced ref m then sm_objects m ref else None)\<rparr>"

lemma collect_sel [simp]: "sm_sessions (collect m) = sm_sessions m" "sm_held (collect m) = sm_held m"
  "sm_fresh (collect m) = sm_fresh m" "sm_max_inactive (collect m) = sm_max_inactive m" "sm_httpOnly (collect m) = sm_httpOnly m"
  "sm_uuids (collect m) = sm_uuids m" "referenced ref (collect m) = referenced ref m"
  "sm_objects (collect m) ref = (if referenced ref m then sm_objects m ref else None)"
  by (simp_all add: collect_def referenced_def)

lemma collect_inv: "sm_core m \<Longrightarrow> sm_inv (collect m)"
  unfolding sm_inv_def sm_core_def by (auto simp: referenced_def image_iff)

lemma collect_id_if: "(\<And>x. \<not> referenced x m \<Longrightarrow> sm_objects m x = None) \<Longrightarrow> collect m = m"
  by (rule session_manager.equality) (auto simp: fun_eq_iff)

lemma inv_unreferenced: "sm_inv m \<Longrightarrow> \<not> referenced x m \<Longrightarrow> sm_objects m x = None"
  unfolding sm_inv_def by blast

lemma collect_id: "sm_inv m \<Longrightarrow> collect m = m"
  by (rule collect_id_if) (rule inv_unreferenced)

lemma core_unique: "sm_core m \<Longrightarrow> map_of (sm_sessions m) i = Some ref \<Longrightarrow> (i, x) \<in> set (sm_sessions m) \<Longrightarrow> x = ref"
  unfolding sm_core_def by (metis map_of_eq_Some_iff option.inject)

lemma core_entry: "sm_core m \<Longrightarrow> map_of (sm_sessions m) i = Some ref \<Longrightarrow> \<exists>s. sm_objects m ref = Some s \<and> se_id s = i"
  by (auto simp: sm_core_def dest: map_of_SomeD)

lemma core_entry_id: "sm_core m \<Longrightarrow> (i, ref) \<in> set (sm_sessions m) \<Longrightarrow> sm_objects m ref = Some s \<Longrightarrow> i = se_id s"
  unfolding sm_core_def by fastforce

lemma core_held: "sm_core m \<Longrightarrow> ref \<in> set (sm_held m) \<Longrightarrow> \<exists>s. sm_objects m ref = Some s"
  by (auto simp: sm_core_def)

lemma set_table_erase [simp]: "set (table_erase i t) = {e \<in> set t. fst e \<noteq> i}"
  by (auto simp: table_erase_def)

lemma map_of_table_erase [simp]: "map_of (table_erase i t) k = (if k = i then None else map_of t k)"
  by (induction t) (auto simp: table_erase_def)

lemma distinct_table_erase: "distinct (map fst t) \<Longrightarrow> distinct (map fst (table_erase i t))"
  by (simp add: table_erase_def distinct_map_filter)

lemma core_table_erase: "sm_core m \<Longrightarrow> sm_core (m\<lparr>sm_sessions := table_erase i (sm_sessions m)\<rparr>)"
  by (simp add: sm_core_def distinct_table_erase)

lemma core_remove_held: "sm_core m \<Longrightarrow> sm_core (m\<lparr>sm_held := remove1 ref (sm_held m)\<rparr>)"
  by (auto simp: sm_core_def dest: notin_set_remove1 in_set_remove1 [THEN iffD1, rotated] set_remove1_subset [THEN subsetD])

lemma table_erase_absent: "map_of t i = None \<Longrightarrow> table_erase i t = t"
  by (induction t) (auto simp: table_erase_def split: if_splits)

text \<open>The only object left without a reference is destroyed, and with it the entry under its name.\<close>

lemma sm_invalidate_unregistered:
  "sm_objects m ref = Some s \<Longrightarrow> map_of (sm_sessions m) (se_id s) = None \<Longrightarrow>
   sm_invalidate ref m = m\<lparr>sm_objects := (sm_objects m)(ref := None)\<rparr>"
  by (subst sm_invalidate.simps) simp

lemma core_entry_other:
  assumes "sm_core m" "map_of (sm_sessions m) i = Some ref" "ref \<notin> set (sm_held m)"
  shows "\<not> referenced ref (m\<lparr>sm_sessions := table_erase i (sm_sessions m)\<rparr>)"
proof -
  from core_entry [OF assms(1,2)] obtain s where s: "sm_objects m ref = Some s" "se_id s = i" by blast
  have "k = i" if "(k, ref) \<in> set (sm_sessions m)" for k
    using core_entry_id [OF assms(1) that s(1)] s(2) by simp
  then show ?thesis using assms(3) by (auto simp: referenced_def)
qed

lemma collect_single:
  assumes "\<And>x. \<not> referenced x m \<Longrightarrow> x \<noteq> ref \<Longrightarrow> sm_objects m x = None" "\<not> referenced ref m"
  shows "m\<lparr>sm_objects := (sm_objects m)(ref := None)\<rparr> = collect m"
  using assms by (intro session_manager.equality) (auto simp: fun_eq_iff)

lemma sm_invalidate_collect:
  assumes "sm_core m" "\<And>x. \<not> referenced x m \<Longrightarrow> x \<noteq> ref \<Longrightarrow> sm_objects m x = None" "\<not> referenced ref m"
    and "sm_objects m ref = Some s"
  shows "sm_invalidate ref m = collect (m\<lparr>sm_sessions := table_erase (se_id s) (sm_sessions m)\<rparr>)"
proof (cases "map_of (sm_sessions m) (se_id s)")
  case None
  then show ?thesis
    using collect_single [OF assms(2,3)] sm_invalidate_unregistered [OF assms(4)] by (simp add: table_erase_absent)
next
  case (Some ref')
  define m1 where "m1 = m\<lparr>sm_sessions := table_erase (se_id s) (sm_sessions m)\<rparr>"
  from core_entry [OF assms(1) Some] obtain s' where s': "sm_objects m ref' = Some s'" "se_id s' = se_id s" by blast
  have other: "sm_objects m x = None" if "\<not> referenced x m1" "x \<noteq> ref" "x \<noteq> ref'" for x
    using that(1) core_unique [OF assms(1) Some, of x] that(3) assms(2) [OF _ that(2)]
    by (force simp: referenced_def m1_def)
  have nref: "\<not> referenced ref m1" using assms(3) by (auto simp: referenced_def m1_def)
  show ?thesis
  proof (cases "referenced ref' m1")
    case True
    then have "sm_invalidate ref m = m1\<lparr>sm_objects := (sm_objects m1)(ref := None)\<rparr>"
      using Some assms(4) by (subst sm_invalidate.simps) (simp add: m1_def Let_def)
    also have "\<dots> = collect m1"
      using True nref other by (intro collect_single) (auto simp: m1_def)
    finally show ?thesis by (simp add: m1_def)
  next
    case False
    then have "sm_invalidate ref m = (sm_invalidate ref' m1)\<lparr>sm_objects := (sm_objects (sm_invalidate ref' m1))(ref := None)\<rparr>"
      using Some assms(4) by (subst sm_invalidate.simps) (simp add: m1_def Let_def)
    also have "sm_invalidate ref' m1 = m1\<lparr>sm_objects := (sm_objects m1)(ref' := None)\<rparr>"
      using s' by (intro sm_invalidate_unregistered) (auto simp: m1_def)
    finally show ?thesis
      using False nref other by (intro session_manager.equality) (auto simp: m1_def fun_eq_iff)
  qed
qed

lemma erase_entry_collect:
  assumes "sm_inv m" shows "erase_entry i m = collect (m\<lparr>sm_sessions := table_erase i (sm_sessions m)\<rparr>)"
proof (cases "map_of (sm_sessions m) i")
  case None
  then show ?thesis using collect_id [OF assms] by (simp add: erase_entry_def table_erase_absent)
next
  case (Some ref)
  define m1 where "m1 = m\<lparr>sm_sessions := table_erase i (sm_sessions m)\<rparr>"
  have c: "sm_core m" using assms by (simp add: sm_inv_def)
  from core_entry [OF c Some] obtain s where s: "sm_objects m ref = Some s" "se_id s = i" by blast
  have other: "sm_objects m1 x = None" if "\<not> referenced x m1" "x \<noteq> ref" for x
    using that(1) core_unique [OF c Some, of x] that(2) inv_unreferenced [OF assms, of x]
    by (force simp: referenced_def m1_def)
  show ?thesis
  proof (cases "referenced ref m1")
    case True
    then have "collect m1 = m1" using other by (intro collect_id_if) blast
    then show ?thesis using True Some by (simp add: erase_entry_def m1_def)
  next
    case False
    have "sm_invalidate ref m1 = collect (m1\<lparr>sm_sessions := table_erase (se_id s) (sm_sessions m1)\<rparr>)"
      using core_table_erase [OF c] s(1) other False by (intro sm_invalidate_collect) (simp_all add: m1_def)
    then show ?thesis using False Some s(2) by (simp add: erase_entry_def m1_def table_erase_def)
  qed
qed

lemma erase_entry_inv: "sm_inv m \<Longrightarrow> sm_inv (erase_entry i m)"
  by (simp add: erase_entry_collect) (rule collect_inv, rule core_table_erase, simp add: sm_inv_def)

lemma drop_ref_cases:
  assumes "sm_inv m" "ref \<in> set (sm_held m)"
  obtains (kept) "referenced ref (m\<lparr>sm_held := remove1 ref (sm_held m)\<rparr>)" "drop_ref ref m = m\<lparr>sm_held := remove1 ref (sm_held m)\<rparr>"
  | (gone) s where "\<not> referenced ref (m\<lparr>sm_held := remove1 ref (sm_held m)\<rparr>)" "sm_objects m ref = Some s"
      "drop_ref ref m = collect (m\<lparr>sm_held := remove1 ref (sm_held m), sm_sessions := table_erase (se_id s) (sm_sessions m)\<rparr>)"
proof (cases "referenced ref (m\<lparr>sm_held := remove1 ref (sm_held m)\<rparr>)")
  case True
  then show thesis using kept by (simp add: drop_ref_def)
next
  case False
  define m1 where "m1 = m\<lparr>sm_held := remove1 ref (sm_held m)\<rparr>"
  have c: "sm_core m" using assms(1) by (simp add: sm_inv_def)
  from core_held [OF c assms(2)] obtain s where s: "sm_objects m ref = Some s" by blast
  have "sm_invalidate ref m1 = collect (m1\<lparr>sm_sessions := table_erase (se_id s) (sm_sessions m1)\<rparr>)"
    using core_remove_held [OF c] s False inv_unreferenced [OF assms(1)]
    by (intro sm_invalidate_collect) (auto simp: m1_def referenced_def)
  then show thesis using gone [OF False s] False by (simp add: drop_ref_def m1_def)
qed

lemma drop_ref_inv:
  assumes "sm_inv m" "ref \<in> set (sm_held m)" shows "sm_inv (drop_ref ref m)"
  using assms(1,2)
proof (cases rule: drop_ref_cases)
  case kept
  let ?m = "m\<lparr>sm_held := remove1 ref (sm_held m)\<rparr>"
  have "referenced x ?m" if "sm_objects m x \<noteq> None" for x
    using that assms(1) kept(1) by (cases "x = ref") (auto simp: sm_inv_def referenced_def)
  then show ?thesis using assms(1) core_remove_held [of m ref] by (simp add: kept(2) sm_inv_def)
next
  case (gone s)
  have "sm_core m" using assms(1) by (simp add: sm_inv_def)
  from core_table_erase [OF core_remove_held [OF this, of ref], of "se_id s"] show ?thesis
    unfolding gone(3) by (intro collect_inv) simp
qed

section \<open>The operations keep the invariant\<close>

lemma sm_update_sel [simp]: "sm_sessions (sm_update ref f m) = sm_sessions m" "sm_held (sm_update ref f m) = sm_held m"
  "sm_fresh (sm_update ref f m) = sm_fresh m" "sm_max_inactive (sm_update ref f m) = sm_max_inactive m"
  "sm_httpOnly (sm_update ref f m) = sm_httpOnly m" "referenced x (sm_update ref f m) = referenced x m"
  "sm_objects (sm_update ref f m) x = (if x = ref then map_option f (sm_objects m ref) else sm_objects m x)"
  by (simp_all add: sm_update_def referenced_def)

lemma sm_update_inv:
  assumes "sm_inv m" "\<And>s. se_id (f s) = se_id s" shows "sm_inv (sm_update ref f m)"
proof -
  have "\<exists>s'. sm_objects (sm_update ref f m) x = Some s' \<and> se_id s' = se_id s" if "sm_objects m x = Some s" for x s
    using that assms(2) by auto
  moreover have "sm_objects (sm_update ref f m) x \<noteq> None \<longleftrightarrow> sm_objects m x \<noteq> None" for x by auto
  ultimately show ?thesis using assms(1) unfolding sm_inv_def sm_core_def by (metis sm_update_sel(1,2,3,6))
qed

lemmas se_id_simps [simp] = setMaxInactiveInterval_def updateLastAccessedTime_def se_invalidate_def se_setSubject_def

lemma hold_inv: "sm_inv m \<Longrightarrow> sm_objects m ref \<noteq> None \<Longrightarrow> sm_inv (hold ref m)"
  by (auto simp: sm_inv_def sm_core_def hold_def referenced_def)

lemma getNewId_cases: "getNewId crawler uuid r m = (i, m') \<Longrightarrow> \<exists>n. m' = m\<lparr>sm_uuids := n\<rparr>"
  by (cases m) (auto simp: getNewId_def split: if_splits)

lemma uuids_inv [simp]: "sm_inv (m\<lparr>sm_uuids := n\<rparr>) \<longleftrightarrow> sm_inv m"
  by (simp add: sm_inv_def sm_core_def referenced_def)

text \<open>A session that only a local variable refers to.\<close>

definition local_session :: "nat \<Rightarrow> string \<Rightarrow> ('a, 'l, 'u) session_manager \<Rightarrow> bool" where
  "local_session ref i m \<longleftrightarrow> (\<exists>s. sm_objects m ref = Some s \<and> se_id s = i) \<and> ref \<in> set (sm_held m) \<and>
     ref \<notin> set (remove1 ref (sm_held m)) \<and> ref \<notin> snd ` set (sm_sessions m)"

lemma fresh_unused: "sm_inv m \<Longrightarrow> sm_fresh m \<notin> set (sm_held m) \<and> sm_fresh m \<notin> snd ` set (sm_sessions m) \<and> sm_objects m (sm_fresh m) = None"
  unfolding sm_inv_def sm_core_def by fastforce

lemma newSession_local:
  assumes "sm_inv m" "newSession now i m = (ref, m')"
  shows "sm_inv m'" "local_session ref i m'" "sm_sessions m' = sm_sessions m" "ref = sm_fresh m" "sm_held m' = ref # sm_held m"
    "x \<noteq> ref \<Longrightarrow> sm_objects m' x = sm_objects m x"
proof -
  have m': "m' = m\<lparr>sm_objects := (sm_objects m)(sm_fresh m \<mapsto> session_new now i), sm_fresh := Suc (sm_fresh m),
        sm_held := sm_fresh m # sm_held m\<rparr>" and ref: "ref = sm_fresh m"
    using assms(2) by (auto simp: newSession_def)
  show "local_session ref i m'" using fresh_unused [OF assms(1)] by (simp add: m' ref local_session_def session_new_def)
  have "sm_core m'" using assms(1) fresh_unused [OF assms(1)]
    unfolding sm_inv_def sm_core_def m' by (auto simp: image_iff less_Suc_eq)
  moreover have "referenced x m'" if "sm_objects m' x \<noteq> None" for x
    using that assms(1) unfolding sm_inv_def m' by (auto simp: referenced_def split: if_splits)
  ultimately show "sm_inv m'" by (simp add: sm_inv_def)
qed (use assms(2) in \<open>auto simp: newSession_def\<close>)

lemma drop_local:
  assumes "sm_inv m" "local_session ref i m"
  shows "drop_ref ref m = collect (m\<lparr>sm_held := remove1 ref (sm_held m), sm_sessions := table_erase i (sm_sessions m)\<rparr>)"
proof -
  have h: "ref \<in> set (sm_held m)" using assms(2) by (simp add: local_session_def)
  show ?thesis
    using assms(1) h
  proof (cases rule: drop_ref_cases)
    case kept
    then show ?thesis using assms(2) by (simp add: local_session_def referenced_def)
  next
    case (gone s)
    then show ?thesis using assms(2) by (auto simp: local_session_def)
  qed
qed

text \<open>
  A duplicate identifier costs the session that has it its entry, so the table shrinks with every
  attempt, and the loop ends.
\<close>

lemma insert_session_returns:
  assumes "sm_inv m" "local_session ref i m"
  shows "\<exists>ref' i' t m'. insert_session crawler uuid now r i ref m = Some (ref', m') \<and> sm_inv m' \<and>
    sm_sessions m' = (i', ref') # t \<and> set t \<subseteq> set (sm_sessions m) \<and> ref' \<in> set (sm_held m')"
  using assms
proof (induction "length (sm_sessions m)" arbitrary: m ref i rule: less_induct)
  case less
  obtain s where s: "sm_objects m ref = Some s" "se_id s = i" and h: "ref \<in> set (sm_held m)"
    using less.prems(2) by (auto simp: local_session_def)
  show ?case
  proof (cases "map_of (sm_sessions m) i")
    case None
    let ?m = "m\<lparr>sm_sessions := (i, ref) # sm_sessions m\<rparr>"
    have "i \<notin> fst ` set (sm_sessions m)" using None by (simp add: map_of_eq_None_iff)
    then have "sm_inv ?m" using less.prems(1) s by (auto simp: sm_inv_def sm_core_def referenced_def)
    then show ?thesis using None h by (subst insert_session.simps) auto
  next
    case (Some ref0)
    obtain i' m1 where m1: "getNewId crawler uuid r m = (i', m1)" by (cases "getNewId crawler uuid r m")
    obtain ref' m2 where m2: "newSession now i' m1 = (ref', m2)" by (cases "newSession now i' m1")
    obtain n where n: "m1 = m\<lparr>sm_uuids := n\<rparr>" using getNewId_cases [OF m1] by blast
    have i1: "sm_inv m1" using less.prems(1) n by simp
    note new = newSession_local [OF i1 m2]
    have "ref \<noteq> ref'" using fresh_unused [OF i1] new(4) h n by auto
    then have loc: "local_session ref i m2"
      using less.prems(2) new(3,5) new(6) [of ref] n by (simp add: local_session_def)
    define m3 where "m3 = drop_ref ref m2"
    have m3: "m3 = collect (m2\<lparr>sm_held := remove1 ref (sm_held m2), sm_sessions := table_erase i (sm_sessions m2)\<rparr>)"
      unfolding m3_def by (rule drop_local [OF new(1) loc])
    have i3: "sm_inv m3" unfolding m3_def using loc by (intro drop_ref_inv new(1)) (simp add: local_session_def)
    have "local_session ref' i' m3" using new(2,5) \<open>ref \<noteq> ref'\<close>
      by (auto simp: m3 local_session_def referenced_def dest: notin_set_remove1)
    moreover have t3: "sm_sessions m3 = table_erase i (sm_sessions m)" using new(3) n by (simp add: m3)
    ultimately obtain ref2 i2 t m' where m': "insert_session crawler uuid now r i' ref' m3 = Some (ref2, m')" "sm_inv m'"
      "sm_sessions m' = (i2, ref2) # t" "set t \<subseteq> set (sm_sessions m3)" "ref2 \<in> set (sm_held m')"
      using less.hyps [of m3 ref' i'] i3 length_table_erase [OF Some] by auto
    have "insert_session crawler uuid now r i ref m = insert_session crawler uuid now r i' ref' m3"
      using Some m1 m2 by (subst insert_session.simps) (simp add: m3_def)
    then show ?thesis using m' t3 by (intro exI [of _ ref2] exI [of _ i2] exI [of _ t] exI [of _ m']) auto
  qed
qed

lemma registered_inv:
  assumes "sm_inv m" "sm_objects m ref = Some s" "map_of (sm_sessions m) (se_id s) = None"
  shows "sm_inv (m\<lparr>sm_sessions := (se_id s, ref) # sm_sessions m\<rparr>)"
proof -
  have "se_id s \<notin> fst ` set (sm_sessions m)" using assms(3) by (simp add: map_of_eq_None_iff)
  then show ?thesis using assms(1,2) by (auto simp: sm_inv_def sm_core_def referenced_def)
qed

lemma createInternal_returns:
  assumes "sm_inv m"
  obtains ref m' s where "createInternal crawler uuid now r m = Some (ref, m')" "sm_inv m'" "ref \<in> set (sm_held m')"
    "sm_objects m' ref = Some s" "map_of (sm_sessions m') (se_id s) = Some ref"
proof -
  obtain i m1 where m1: "getNewId crawler uuid r m = (i, m1)" by (cases "getNewId crawler uuid r m")
  then have i1: "sm_inv m1" using getNewId_cases [OF m1] assms by auto
  obtain ref0 m2 where m2: "newSession now i m1 = (ref0, m2)" by (cases "newSession now i m1")
  note new = newSession_local [OF i1 m2]
  show thesis
  proof (cases "crawler_agent_session_id = i")
    case False
    obtain ref j t m3 where m3: "insert_session crawler uuid now r i ref0 m2 = Some (ref, m3)" "sm_inv m3"
      "sm_sessions m3 = (j, ref) # t" "ref \<in> set (sm_held m3)"
      using insert_session_returns [OF new(1,2), of crawler uuid now r] by auto
    have "sm_core m3" using m3(2) by (simp add: sm_inv_def)
    then obtain s where s: "sm_objects m3 ref = Some s" "se_id s = j"
      using core_entry [of m3 j ref] m3(3) by auto
    show thesis
      by (rule that [of ref "sm_update ref (setMaxInactiveInterval (sm_max_inactive m3)) m3" "setMaxInactiveInterval (sm_max_inactive m3) s"])
        (use False m1 m2 m3 s in \<open>auto simp: createInternal_def intro!: sm_update_inv\<close>)
  next
    case True
    show thesis
    proof (cases "map_of (sm_sessions m1) i")
      case None
      obtain s where s: "sm_objects m2 ref0 = Some s" "se_id s = i" and h: "ref0 \<in> set (sm_held m2)"
        using new(2) by (auto simp: local_session_def)
      let ?m = "m2\<lparr>sm_sessions := (i, ref0) # sm_sessions m2\<rparr>"
      let ?f = "updateLastAccessedTime now" and ?g = "setMaxInactiveInterval crawler_session_timeout_min"
      have "sm_inv ?m" using registered_inv [OF new(1) s(1)] s(2) None new(3) by simp
      then show thesis
        by (intro that [of ref0 "sm_update ref0 ?f (sm_update ref0 ?g ?m)" "?f (?g s)"])
          (use True None m1 m2 s h in \<open>auto simp: createInternal_def intro!: sm_update_inv\<close>)
    next
      case (Some ref)
      have "sm_core m1" using i1 by (simp add: sm_inv_def)
      then obtain s where s: "sm_objects m1 ref = Some s" "se_id s = i" using core_entry Some by blast
      let ?f = "updateLastAccessedTime now"
      show thesis
        by (rule that [of ref "sm_update ref ?f (hold ref m1)" "?f s"])
          (use True Some m1 s i1 in \<open>auto simp: createInternal_def hold_def intro!: sm_update_inv hold_inv [unfolded hold_def]\<close>)
    qed
  qed
qed

lemma cookie_session_live:
  assumes "sm_inv m" "cookie_session r m = Some ref"
  shows "\<exists>s. sm_objects m ref = Some s \<and> se_id s = getCookie r SESSION_COOKIE_NAME"
    "map_of (sm_sessions m) (getCookie r SESSION_COOKIE_NAME) = Some ref"
  using core_entry [of m] assms by (auto simp: cookie_session_def sm_inv_def split: if_splits)

text \<open>What a result of the manager guarantees.\<close>

definition sm_outcome_ok :: "('a, 'l, 's, 'u, nat) sm_outcome \<Rightarrow> bool" where
  "sm_outcome_ok x \<longleftrightarrow>
     (case x of
        Inl (e, r, m) \<Rightarrow> sm_inv m \<and> e \<notin> {Diverges, NullPointer, OutOfBounds}
      | Inr (ref, r, m) \<Rightarrow> sm_inv m \<and> ref \<in> set (sm_held m))"

lemma start_session_ok:
  assumes "sm_inv m" shows "sm_outcome_ok (start_session crawler uuid now r m)"
proof -
  obtain ref m' s where c: "createInternal crawler uuid now r m = Some (ref, m')" "sm_inv m'" "ref \<in> set (sm_held m')"
    "sm_objects m' ref = Some s" by (rule createInternal_returns [OF assms])
  then show ?thesis using drop_ref_inv [OF c(2,3)]
    by (simp add: start_session_def sm_outcome_ok_def setCookie_def)
qed

lemma sm_create_ok: "sm_inv m \<Longrightarrow> sm_outcome_ok (sm_create crawler uuid now r m)"
  unfolding sm_create_def Let_def
  by (rule start_session_ok) (auto split: option.split intro!: sm_update_inv)

lemma sm_get_ok:
  assumes "sm_inv m" shows "sm_outcome_ok (sm_get crawler uuid now r m)"
proof (cases "cookie_session r m")
  case None
  then show ?thesis using start_session_ok [OF assms] by (simp add: sm_get_def)
next
  case (Some ref)
  have "sm_inv (hold ref (sm_update ref (updateLastAccessedTime now) m))"
    using cookie_session_live(1) [OF assms Some] assms by (intro hold_inv sm_update_inv) auto
  then show ?thesis using Some by (simp add: sm_get_def sm_outcome_ok_def hold_def)
qed

lemma moved_core:
  fixes f :: "('a, 'l, 'u) session \<Rightarrow> ('a, 'l, 'u) session"
  assumes "sm_inv m" "map_of (sm_sessions m) old = Some ref"
  defines "m' \<equiv> (sm_update ref f m)\<lparr>sm_sessions := table_erase old (sm_sessions m)\<rparr>"
  shows "sm_core m'" "\<not> referenced x m' \<Longrightarrow> x \<noteq> ref \<Longrightarrow> sm_objects m' x = None"
proof -
  have c: "sm_core m" using assms(1) by (simp add: sm_inv_def)
  from core_entry [OF c assms(2)] obtain s where s: "sm_objects m ref = Some s" "se_id s = old" by blast
  have "k = old" if "(k, ref) \<in> set (sm_sessions m)" for k using core_entry_id [OF c that s(1)] s(2) by simp
  then show "sm_core m'" using c s(1) unfolding sm_core_def m'_def by (auto simp: distinct_table_erase)
  show "sm_objects m' x = None" if "\<not> referenced x m'" "x \<noteq> ref"
    using that core_unique [OF c assms(2), of x] inv_unreferenced [OF assms(1), of x]
    by (force simp: m'_def referenced_def)
qed

lemma move_session_inv:
  assumes "sm_inv m" "map_of (sm_sessions m) old = Some ref"
    and "move_session old new ref (sm_update ref (se_changeId new) m) = Inr m'"
  shows "sm_inv m'"
proof -
  let ?m = "(sm_update ref (se_changeId new) m)\<lparr>sm_sessions := table_erase old (sm_sessions m)\<rparr>"
  note core = moved_core [where f = "se_changeId new", OF assms(1,2)]
  obtain s where s: "sm_objects m ref = Some s"
    using core_entry [of m old ref] assms(1,2) by (auto simp: sm_inv_def)
  consider (inserted) "map_of (sm_sessions m) new = None" "m' = ?m\<lparr>sm_sessions := (new, ref) # sm_sessions ?m\<rparr>"
    | (kept) "referenced ref ?m" "m' = ?m" | (dropped) "\<not> referenced ref ?m" "m' = sm_invalidate ref ?m"
    using assms(3) by (auto simp: move_session_def Let_def split: if_splits)
  then show ?thesis
  proof cases
    case inserted
    have "sm_core m'"
      using core(1) inserted(1) s unfolding inserted(2) sm_core_def
      by (auto simp: se_changeId_def map_of_eq_None_iff)
    moreover have "referenced x m'" if "sm_objects m' x \<noteq> None" for x
    proof (cases "x = ref")
      case False
      then have "sm_objects ?m x \<noteq> None" using that by (simp add: inserted(2))
      then have "referenced x ?m" by (rule contrapos_np) (rule core(2) [OF _ False])
      then show ?thesis by (auto simp: inserted(2) referenced_def)
    qed (simp add: inserted(2) referenced_def)
    ultimately show ?thesis by (simp add: sm_inv_def)
  next
    case kept
    have "referenced x ?m" if "sm_objects ?m x \<noteq> None" for x
      using that kept(1) by (cases "x = ref") (simp, rule contrapos_np, assumption, rule core(2))
    then show ?thesis using core(1) by (simp add: sm_inv_def kept(2))
  next
    case dropped
    have "sm_objects ?m ref = Some (se_changeId new s)" using s by simp
    then have "sm_invalidate ref ?m = collect (?m\<lparr>sm_sessions := table_erase (se_id (se_changeId new s)) (sm_sessions ?m)\<rparr>)"
      by (intro sm_invalidate_collect core dropped(1))
    then show ?thesis using collect_inv [OF core_table_erase [OF core(1)]] by (simp only: dropped(2))
  qed
qed

lemma sm_changeId_inv:
  assumes "sm_inv m"
  shows "sm_changeId crawler uuid r m = Inr (u, r', m') \<Longrightarrow> sm_inv m'"
    "sm_changeId crawler uuid r m = Inl (e, r', m') \<Longrightarrow> e \<noteq> OutOfBounds \<Longrightarrow> sm_inv m'"
proof -
  obtain i m1 where m1: "getNewId crawler uuid r m = (i, m1)" by (cases "getNewId crawler uuid r m")
  then have i1: "sm_inv m1" and t1: "sm_sessions m1 = sm_sessions m" using getNewId_cases [OF m1] assms by auto
  have mv: "sm_inv m2" if "cookie_session r m = Some ref"
    "move_session (getCookie r SESSION_COOKIE_NAME) i ref (sm_update ref (se_changeId i) m1) = Inr m2" for ref m2
    using cookie_session_live(2) [OF assms that(1)] t1 by (intro move_session_inv [OF i1 _ that(2)]) simp
  show "sm_inv m'" if "sm_changeId crawler uuid r m = Inr (u, r', m')"
    using that assms mv by (auto simp: sm_changeId_def m1 Let_def split: option.splits sum.splits)
  show "sm_inv m'" if "sm_changeId crawler uuid r m = Inl (e, r', m')" "e \<noteq> OutOfBounds"
    using that mv by (auto simp: sm_changeId_def m1 move_session_def Let_def split: option.splits sum.splits if_splits)
qed

lemma checkSessionTimeout_inv: "sm_inv m \<Longrightarrow> sm_inv (checkSessionTimeout now m)"
proof -
  have "sm_inv m \<Longrightarrow> sm_inv (foldl (\<lambda>m i. if entry_expired now i m then erase_entry i m else m) m is)" for "is"
    by (induction "is" arbitrary: m) (simp_all add: erase_entry_inv)
  then show "sm_inv m \<Longrightarrow> ?thesis" by (simp add: checkSessionTimeout_def)
qed

lemma invalidateAll_inv: "sm_inv m \<Longrightarrow> sm_inv (invalidateAll m)"
proof -
  have "sm_inv m \<Longrightarrow> sm_inv (foldl (\<lambda>m i. erase_entry i m) m is)" for "is"
    by (induction "is" arbitrary: m) (simp_all add: erase_entry_inv)
  then show "sm_inv m \<Longrightarrow> ?thesis" by (simp add: invalidateAll_def)
qed

section \<open>Reachable states\<close>

text \<open>
  The steps of the manager in any order, for any requests: its operations, the thread that removes
  expired sessions, copies and ends of references, and changes of a session through a reference.
\<close>

inductive session_step :: "(string \<Rightarrow> bool) \<Rightarrow> (nat \<Rightarrow> string) \<Rightarrow> ('a, 'l, 'u) session_manager \<Rightarrow> ('a, 'l, 'u) session_manager \<Rightarrow> bool"
  for crawler uuid where
  create: "sm_create crawler uuid now (r :: (nat, 'u) request) m = Inr (ref, r', m') \<Longrightarrow> session_step crawler uuid m m'"
| create_failed: "sm_create crawler uuid now (r :: (nat, 'u) request) m = Inl (e, r', m') \<Longrightarrow> session_step crawler uuid m m'"
| get: "sm_get crawler uuid now (r :: (nat, 'u) request) m = Inr (ref, r', m') \<Longrightarrow> session_step crawler uuid m m'"
| get_failed: "sm_get crawler uuid now (r :: (nat, 'u) request) m = Inl (e, r', m') \<Longrightarrow> session_step crawler uuid m m'"
| change: "sm_changeId crawler uuid (r :: (nat, 'u) request) m = Inr (u, r', m') \<Longrightarrow> session_step crawler uuid m m'"
| change_failed: "sm_changeId crawler uuid (r :: (nat, 'u) request) m = Inl (e, r', m') \<Longrightarrow> e \<noteq> OutOfBounds \<Longrightarrow>
    session_step crawler uuid m m'"
| copy: "ref \<in> set (sm_held m) \<Longrightarrow> session_step crawler uuid m (hold ref m)"
| release: "ref \<in> set (sm_held m) \<Longrightarrow> session_step crawler uuid m (drop_ref ref m)"
| access: "ref \<in> set (sm_held m) \<Longrightarrow> (\<And>s. se_id (f s) = se_id s) \<Longrightarrow> session_step crawler uuid m (sm_update ref f m)"
| timeout: "session_step crawler uuid m (checkSessionTimeout now m)"
| stop: "session_step crawler uuid m (invalidateAll m)"

inductive session_reachable :: "(string \<Rightarrow> bool) \<Rightarrow> (nat \<Rightarrow> string) \<Rightarrow> ('a, 'l, 'u) session_manager \<Rightarrow> bool" for crawler uuid where
  init: "session_reachable crawler uuid (session_manager_new timeout)"
| step: "session_reachable crawler uuid m \<Longrightarrow> session_step crawler uuid m m' \<Longrightarrow> session_reachable crawler uuid m'"

lemma session_step_inv:
  assumes "session_step crawler uuid m m'" "sm_inv m" shows "sm_inv m'"
  using assms
proof (induction rule: session_step.induct)
  case (create now r m ref r' m')
  then show ?case using sm_create_ok [of m crawler uuid now r] by (simp add: sm_outcome_ok_def)
next
  case (create_failed now r m e r' m')
  then show ?case using sm_create_ok [of m crawler uuid now r] by (simp add: sm_outcome_ok_def)
next
  case (get now r m ref r' m')
  then show ?case using sm_get_ok [of m crawler uuid now r] by (simp add: sm_outcome_ok_def)
next
  case (get_failed now r m e r' m')
  then show ?case using sm_get_ok [of m crawler uuid now r] by (simp add: sm_outcome_ok_def)
next
  case (copy ref m)
  then show ?case by (intro hold_inv) (auto simp: sm_inv_def sm_core_def)
next
  case (release ref m)
  then show ?case by (intro drop_ref_inv)
next
  case (access ref m f)
  then show ?case by (intro sm_update_inv)
qed (blast intro: sm_changeId_inv checkSessionTimeout_inv invalidateAll_inv)+

lemma session_reachable_inv: "session_reachable crawler uuid m \<Longrightarrow> sm_inv m"
proof (induction rule: session_reachable.induct)
  case (init timeout)
  show ?case by (simp add: session_manager_new_def sm_inv_def sm_core_def)
qed (rule session_step_inv)


text \<open>
  C34. A session is found again: the response of the request that got a new session carries a cookie
  with its identifier, and the next request that sends this cookie gets the same session, whose time
  of last access is updated.
\<close>

theorem session_found_again:
  assumes "session_reachable crawler uuid m" "sm_create crawler uuid now r m = Inr (ref, r', m')"
    and "om_find string_lt SESSION_COOKIE_NAME (rq_out_cookies r') = Some c"
    and "om_sorted string_lt (rq_out_cookies r)"
    and "hasCookie r2 SESSION_COOKIE_NAME" "getCookie r2 SESSION_COOKIE_NAME = ck_value c"
  shows "sm_get crawler uuid now2 r2 m' = Inr (ref, r2, hold ref (sm_update ref (updateLastAccessedTime now2) m'))"
proof -
  define m0 where "m0 = (case cookie_session r m of Some ref \<Rightarrow> sm_update ref (se_invalidate now) m | None \<Rightarrow> m)"
  have "sm_inv m0" using session_reachable_inv [OF assms(1)]
    by (auto simp: m0_def split: option.split intro!: sm_update_inv)
  then obtain ref1 m1 s where s: "createInternal crawler uuid now r m0 = Some (ref1, m1)" "sm_inv m1"
    "sm_objects m1 ref1 = Some s" "map_of (sm_sessions m1) (se_id s) = Some ref1"
    by (rule createInternal_returns)
  then have eq: "ref1 = ref" "m1 = m'" and c: "setCookie (session_cookie (se_id s) r m') r = Inr r'"
    using assms(2) by (auto simp: sm_create_def m0_def [symmetric] start_session_def split: sum.splits)
  have "ck_value c = se_id s"
    using c assms(3,4)
    by (auto simp: setCookie_def session_cookie_def cookie_new_def cookie_set_secure_def cookie_set_httpOnly_def
      string_order.find_assign split: if_splits)
  then have "cookie_session r2 m' = Some ref" using assms(5,6) s(4) eq by (simp add: cookie_session_def)
  then show ?thesis by (simp add: sm_get_def)
qed

section \<open>Expiry\<close>

lemma erase_entry_other:
  assumes "sm_inv m"
  shows "map_of (sm_sessions (erase_entry k m)) i = (if i = k then None else map_of (sm_sessions m) i)"
    "i \<noteq> k \<Longrightarrow> entry_expired now i (erase_entry k m) = entry_expired now i m"
proof -
  show t: "map_of (sm_sessions (erase_entry k m)) i = (if i = k then None else map_of (sm_sessions m) i)"
    by (simp add: erase_entry_collect [OF assms])
  assume "i \<noteq> k"
  then show "entry_expired now i (erase_entry k m) = entry_expired now i m"
    by (auto simp: entry_expired_def erase_entry_collect [OF assms] referenced_def image_iff split: option.split dest: map_of_SomeD)
qed

lemma timeout_round:
  assumes "sm_inv m" "distinct ks"
  shows "map_of (sm_sessions (foldl (\<lambda>m k. if entry_expired now k m then erase_entry k m else m) m ks)) i =
    (if i \<in> set ks \<and> entry_expired now i m then None else map_of (sm_sessions m) i)"
  using assms
proof (induction ks arbitrary: m)
  case (Cons k ks)
  show ?case
  proof (cases "entry_expired now k m")
    case True
    then show ?thesis
      using Cons.IH [OF erase_entry_inv [OF Cons.prems(1)], of k] Cons.prems
        erase_entry_other(1) [OF Cons.prems(1), of k i] erase_entry_other(2) [OF Cons.prems(1), of i k now] by auto
  qed (use Cons in auto)
qed simp

text \<open>
  The thread that checks the timeout removes exactly the expired sessions from the table.
\<close>

theorem timeout_removes_expired:
  assumes "session_reachable crawler uuid m"
  shows "map_of (sm_sessions (checkSessionTimeout now m)) i =
    (case map_of (sm_sessions m) i of
       None \<Rightarrow> None
     | Some ref \<Rightarrow> if isExpired now (the (sm_objects m ref)) then None else Some ref)"
proof -
  have inv: "sm_inv m" using assms by (rule session_reachable_inv)
  then have core: "sm_core m" by (simp add: sm_inv_def)
  have d: "distinct (map fst (sm_sessions m))" using core by (simp add: sm_core_def)
  show ?thesis
    unfolding checkSessionTimeout_def timeout_round [OF inv d]
    using core_entry [OF core, of i] dom_map_of_conv_image_fst [of "sm_sessions m"]
    by (auto simp: entry_expired_def dom_def split: option.split)
qed

section \<open>Duplicate identifiers\<close>

text \<open>
  When the identifier of a new session is taken, the session that has it loses its entry in the
  table, and is destroyed when nobody else refers to it: the rejected session object is destroyed,
  and its deleter removes the entry under its identifier.
\<close>

theorem duplicate_id_evicts:
  assumes "session_reachable crawler uuid m" "\<not> sm_isBot crawler r" "uuid (sm_uuids m) \<noteq> crawler_agent_session_id"
    and "map_of (sm_sessions m) (uuid (sm_uuids m)) = Some ref" "map_of (sm_sessions m) (uuid (Suc (sm_uuids m))) = None"
  shows "\<exists>ref' m'. createInternal crawler uuid now r m = Some (ref', m') \<and>
    map_of (sm_sessions m') (uuid (sm_uuids m)) = None \<and> (sm_objects m' ref = None \<longleftrightarrow> ref \<notin> set (sm_held m))"
proof -
  let ?i = "uuid (sm_uuids m)" and ?i' = "uuid (Suc (sm_uuids m))"
  let ?m0 = "m\<lparr>sm_uuids := Suc (sm_uuids m)\<rparr>"
  have inv: "sm_inv m" using assms(1) by (rule session_reachable_inv)
  obtain ref1 m1 where m1: "newSession now ?i ?m0 = (ref1, m1)" by (cases "newSession now ?i ?m0")
  have "sm_inv ?m0" using inv by simp
  note n1 = newSession_local [OF this m1]
  have u1: "sm_uuids m1 = Suc (sm_uuids m)" "sm_fresh m1 = Suc (sm_fresh m)" using m1 by (auto simp: newSession_def)
  let ?m1 = "m1\<lparr>sm_uuids := Suc (Suc (sm_uuids m))\<rparr>"
  obtain ref2 m2 where m2: "newSession now ?i' ?m1 = (ref2, m2)" by (cases "newSession now ?i' ?m1")
  have "sm_inv ?m1" using n1(1) by simp
  note n2 = newSession_local [OF this m2]
  have ne: "ref1 \<noteq> ref2" using n1(4) n2(4) u1 by simp
  have lo: "local_session ref1 ?i m2"
    using n1(2) n2(3,5) n2(6) [of ref1] ne by (simp add: local_session_def)
  define m3 where "m3 = drop_ref ref1 m2"
  have m3: "m3 = collect (m2\<lparr>sm_held := remove1 ref1 (sm_held m2), sm_sessions := table_erase ?i (sm_sessions m2)\<rparr>)"
    unfolding m3_def by (rule drop_local [OF n2(1) lo])
  have t3: "sm_sessions m3 = table_erase ?i (sm_sessions m)" using n1(3) n2(3) by (simp add: m3)
  have "insert_session crawler uuid now r ?i ref1 m1 = insert_session crawler uuid now r ?i' ref2 m3"
    using assms(2,4) m2 n1(3) by (subst insert_session.simps) (simp add: getNewId_def u1 m3_def)
  also have "\<dots> = Some (ref2, m3\<lparr>sm_sessions := (?i', ref2) # sm_sessions m3\<rparr>)"
    using assms(5) by (subst insert_session.simps) (simp add: t3)
  finally have ins: "insert_session crawler uuid now r ?i ref1 m1 = Some (ref2, m3\<lparr>sm_sessions := (?i', ref2) # sm_sessions m3\<rparr>)" .
  have "?i \<noteq> ?i'" using assms(4,5) by auto
  obtain s where s: "sm_objects m ref = Some s" using core_entry [OF _ assms(4)] inv by (auto simp: sm_inv_def)
  have nf: "ref \<noteq> ref1" "ref \<noteq> ref2"
    using fresh_unused [OF inv] s n1(4) n2(4) u1 inv by (auto simp: sm_inv_def sm_core_def)
  have o3: "sm_objects m3 ref = None \<longleftrightarrow> ref \<notin> set (sm_held m)"
  proof -
    have "sm_objects m2 ref = Some s" using n1(6) [of ref] n2(6) [of ref] nf s by simp
    moreover have "ref \<notin> snd ` set (table_erase ?i (sm_sessions m))"
      using core_entry_id [of m _ ref s] core_entry [OF _ assms(4)] inv s by (auto simp: sm_inv_def)
    ultimately show ?thesis using n1(3,5) n2(3,5) nf ne by (simp add: m3 referenced_def)
  qed
  show ?thesis
    using assms(2,3) m1 ins o3 nf \<open>?i \<noteq> ?i'\<close>
    by (simp add: createInternal_def getNewId_def t3)
qed

section \<open>Examples\<close>

definition one_session :: "(unit, unit, unit) session_manager" where
  "one_session = \<lparr>sm_objects = [0 \<mapsto> (session_new 5 ''u'')\<lparr>se_max_inactive := minutes 30\<rparr>], sm_fresh = 1,
     sm_sessions = [(''u'', 0)], sm_held = [0], sm_uuids = 1, sm_httpOnly = True, sm_max_inactive = 30\<rparr>"

definition demo_uuid :: "nat \<Rightarrow> string" where
  "demo_uuid n = (if n \<le> 1 then ''u'' else ''v'')"

definition demo_response :: "(nat, unit) request" where
  "demo_response = request_new\<lparr>rq_out_cookies := [(SESSION_COOKIE_NAME,
     session_cookie ''u'' (request_new :: (nat, unit) request) one_session)]\<rparr>"

lemma demo_create:
  "sm_create (\<lambda>_. False) demo_uuid 5 (request_new :: (nat, unit) request) (session_manager_new 30) =
   Inr (0, demo_response, one_session)"
  by (simp add: sm_create_def cookie_session_def hasCookie_def map_has_def request_new_def reset_def start_session_def
    createInternal_def getNewId_def sm_isBot_def demo_uuid_def crawler_agent_session_id_def newSession_def
    session_manager_new_def insert_session.simps sm_update_def one_session_def demo_response_def session_cookie_def
    setCookie_def session_new_def isSecure_def map_get_def cookie_new_def cookie_set_secure_def cookie_set_httpOnly_def)

lemma one_session_reachable: "session_reachable (\<lambda>_. False) demo_uuid one_session"
  using session_reachable.step [OF session_reachable.init session_step.create [OF demo_create]] .


theorem session_found_again_witness:
  "sm_get (\<lambda>_. False) demo_uuid 9 (request_new\<lparr>rq_cookies := [(SESSION_COOKIE_NAME, ''u'')]\<rparr> :: (nat, unit) request) one_session =
   Inr (0, request_new\<lparr>rq_cookies := [(SESSION_COOKIE_NAME, ''u'')]\<rparr>, hold 0 (sm_update 0 (updateLastAccessedTime 9) one_session))"
proof -
  have "om_find string_lt SESSION_COOKIE_NAME (rq_out_cookies demo_response) =
      Some (session_cookie ''u'' (request_new :: (nat, unit) request) one_session)"
    by (simp add: demo_response_def string_order.irrefl)
  from session_found_again [OF session_reachable.init demo_create this, of "request_new\<lparr>rq_cookies := [(SESSION_COOKIE_NAME, ''u'')]\<rparr>" 9]
  show ?thesis
    by (simp add: request_new_def reset_def hasCookie_def getCookie_def map_has_def map_get_def string_order.irrefl
      session_cookie_def cookie_new_def cookie_set_secure_def cookie_set_httpOnly_def)
qed

theorem timeout_removes_expired_witness:
  "map_of (sm_sessions (checkSessionTimeout (minutes 31) one_session)) ''u'' = None"
  using timeout_removes_expired [OF one_session_reachable, of "minutes 31" "''u''"]
  by (simp add: one_session_def isExpired_def session_new_def minutes_def)

theorem duplicate_id_evicts_witness:
  "\<exists>ref' m'. createInternal (\<lambda>_. False) demo_uuid 6 (request_new :: (nat, unit) request) one_session = Some (ref', m') \<and>
    map_of (sm_sessions m') ''u'' = None"
  using duplicate_id_evicts [OF one_session_reachable, of "request_new :: (nat, unit) request" 0 6]
  by (auto simp: one_session_def demo_uuid_def sm_isBot_def crawler_agent_session_id_def)

end
