(* ===== verification/Security.thy ===== *)
theory Security
  imports Dispatch Sessions HashUtils
begin

text \<open>
  Security (\<^verbatim>\<open>library/security_subject.cpp\<close>, \<^verbatim>\<open>library/security_principal.cpp\<close>,
  \<^verbatim>\<open>library/security_authenticator.cpp\<close>, \<^verbatim>\<open>authenticator/*.cpp\<close>): subjects with their principals, and the
  authenticators, filters that let a request pass only for an authorised subject.

  The state of a filter is that of \<open>Dispatch\<close>, with the session manager as the part outside of the
  request. The hash function of the standard library, the regular expressions, the realm of the
  application and the UUIDs are parameters.
\<close>

section \<open>Principals and subjects\<close>

type_synonym hash = "string \<Rightarrow> u64"

definition anonymous :: string where
  "anonymous = ''Anonymous''"

text \<open>A principal is its name; principals are compared by the hash codes of their names.\<close>

definition principal_eq :: "hash \<Rightarrow> string \<Rightarrow> string \<Rightarrow> bool" where
  "principal_eq hash p q \<longleftrightarrow> hash p = hash q"

record subject =
  sj_principals :: "string list"
  sj_readOnly :: bool

definition subject_new :: subject where
  "subject_new = \<lparr>sj_principals = [], sj_readOnly = False\<rparr>"

definition hasPrincipal_hash :: "hash \<Rightarrow> u64 \<Rightarrow> subject \<Rightarrow> bool" where
  "hasPrincipal_hash hash hashCode s \<longleftrightarrow> (\<exists>p \<in> set (sj_principals s). hashCode = hash p)"

definition hasPrincipal :: "hash \<Rightarrow> string \<Rightarrow> subject \<Rightarrow> bool" where
  "hasPrincipal hash name s = hasPrincipal_hash hash (hash name) s"

definition setPrincipal :: "hash \<Rightarrow> string \<Rightarrow> subject \<Rightarrow> subject result" where
  "setPrincipal hash p s =
     (if \<not> sj_readOnly s then
        if \<not> hasPrincipal_hash hash (hash p) s then Inr (s\<lparr>sj_principals := sj_principals s @ [p]\<rparr>)
        else Inl (RuntimeError ''Duplicate principal'')
      else Inl (RuntimeError ''Attempt to modify read-only subject''))"

text \<open>Several principals: those before a duplicate stay.\<close>

fun add_principals :: "hash \<Rightarrow> string list \<Rightarrow> subject \<Rightarrow> (cpp_error \<times> subject) + subject" where
  "add_principals hash [] s = Inr s"
| "add_principals hash (p # ps) s =
     (if \<not> hasPrincipal_hash hash (hash p) s then add_principals hash ps (s\<lparr>sj_principals := sj_principals s @ [p]\<rparr>)
      else Inl (RuntimeError ''Duplicate principal'', s))"

definition setPrincipals :: "hash \<Rightarrow> string list \<Rightarrow> subject \<Rightarrow> (cpp_error \<times> subject) + subject" where
  "setPrincipals hash principals s =
     (if \<not> sj_readOnly s then add_principals hash principals s
      else Inl (RuntimeError ''Attempt to modify read-only subject'', s))"

definition getPrincipals :: "subject \<Rightarrow> string list \<Rightarrow> string list" where
  "getPrincipals s principals = principals @ sj_principals s"

definition isAnonymous :: "subject \<Rightarrow> bool" where
  "isAnonymous s \<longleftrightarrow> (\<exists>p \<in> set (sj_principals s). p = anonymous)"

definition setReadOnly :: "subject \<Rightarrow> subject" where
  "setReadOnly s = s\<lparr>sj_readOnly := True\<rparr>"

definition anonymousSubject :: subject where
  "anonymousSubject = setReadOnly (subject_new\<lparr>sj_principals := [anonymous]\<rparr>)"

lemma anonymousSubject_built: "setPrincipal hash anonymous subject_new = Inr s \<Longrightarrow> setReadOnly s = anonymousSubject"
  by (auto simp: setPrincipal_def subject_new_def anonymousSubject_def hasPrincipal_hash_def)

lemma isAnonymous_anonymousSubject [simp]: "isAnonymous anonymousSubject"
  by (simp add: isAnonymous_def anonymousSubject_def setReadOnly_def)

definition isUserInRole :: "hash \<Rightarrow> string \<Rightarrow> ('s, subject) request \<Rightarrow> bool" where
  "isUserInRole hash roleName r = hasPrincipal hash roleName (getSubject anonymousSubject r)"

section \<open>Authenticators\<close>

record realm =
  rl_name :: string
  rl_authenticate :: "string \<Rightarrow> string \<Rightarrow> subject option"
  rl_getSubject :: "string \<Rightarrow> subject option"

text \<open>The realm of the library itself, which knows nobody.\<close>

definition realm_default :: "string \<Rightarrow> realm" where
  "realm_default name = \<lparr>rl_name = name, rl_authenticate = (\<lambda>_ _. None), rl_getSubject = (\<lambda>_. None)\<rparr>"

record security_constraint =
  sc_regex :: string
  sc_prefix :: string
  sc_role :: string

record authenticator =
  au_changeSessionId :: bool
  au_realm :: "realm option"
  au_constraints :: "security_constraint list"
  au_rx :: regex
  au_hash :: hash
  au_attached :: bool
  au_crawler :: "string \<Rightarrow> bool"
  au_uuid :: "nat \<Rightarrow> string"
  au_now :: int

text \<open>What the authenticators keep in a session.\<close>

datatype session_any = AnyString string | AnyBuffer data_buffer

type_synonym ('l, 'h) auth_state = "(nat, subject, (session_any, 'l, subject) session_manager, 'h) task_state"
type_synonym ('l, 'h, 'x) auth_run = "(thrown \<times> ('l, 'h) auth_state) + ('x \<times> ('l, 'h) auth_state)"

text \<open>
  A local variable with the session of the request: the reference it holds ends with its scope, also
  when an exception leaves it.
\<close>

definition leave :: "nat option \<Rightarrow> ('l, 'h) auth_state \<Rightarrow> ('l, 'h) auth_state" where
  "leave ref s = s\<lparr>ts_context := drop_opt ref (ts_context s)\<rparr>"

definition with_session :: "authenticator \<Rightarrow> (nat option \<Rightarrow> ('l, 'h) auth_state \<Rightarrow> ('l, 'h, 'x) auth_run) \<Rightarrow> ('l, 'h) auth_state \<Rightarrow>
    ('l, 'h, 'x) auth_run" where
  "with_session A f s =
     (case getSession (au_attached A) (au_crawler A) (au_uuid A) (au_now A) (ts_request s) (ts_context s) of
        Inl e \<Rightarrow> Inl (Std e, s)
      | Inr (ref, r, m) \<Rightarrow>
          (case f ref (s\<lparr>ts_request := r, ts_context := m\<rparr>) of
             Inl (e, s) \<Rightarrow> Inl (e, leave ref s)
           | Inr (x, s) \<Rightarrow> Inr (x, leave ref s)))"

definition session_at :: "nat option \<Rightarrow> ('l, 'h) auth_state \<Rightarrow> (session_any, 'l, subject) session option" where
  "session_at ref s = (case ref of None \<Rightarrow> None | Some x \<Rightarrow> sm_objects (ts_context s) x)"

definition session_do :: "nat option \<Rightarrow> ((session_any, 'l, subject) session \<Rightarrow> (session_any, 'l, subject) session) \<Rightarrow>
    ('l, 'h) auth_state \<Rightarrow> ('l, 'h) auth_state" where
  "session_do ref f s = (case ref of None \<Rightarrow> s | Some x \<Rightarrow> s\<lparr>ts_context := sm_update x f (ts_context s)\<rparr>)"

text \<open>An operation of the request that may throw.\<close>

definition request_do :: "(nat, subject) outcome \<Rightarrow> ('l, 'h) auth_state \<Rightarrow> ('l, 'h, unit) auth_run" where
  "request_do x s =
     (case x of
        Inl (e, r) \<Rightarrow> Inl (Std e, s\<lparr>ts_request := r\<rparr>)
      | Inr r \<Rightarrow> Inr ((), s\<lparr>ts_request := r\<rparr>))"

definition au_changeId :: "authenticator \<Rightarrow> ('l, 'h) auth_state \<Rightarrow> ('l, 'h, unit) auth_run" where
  "au_changeId A s =
     (case changeSessionId (au_attached A) (au_crawler A) (au_uuid A) (ts_request s) (ts_context s) of
        Inl (e, r, m) \<Rightarrow> Inl (Std e, s\<lparr>ts_request := r, ts_context := m\<rparr>)
      | Inr (_, r, m) \<Rightarrow> Inr ((), s\<lparr>ts_request := r, ts_context := m\<rparr>))"

definition au_setSubject :: "authenticator \<Rightarrow> subject \<Rightarrow> ('l, 'h) auth_state \<Rightarrow> ('l, 'h, unit) auth_run" where
  "au_setSubject A subject =
     with_session A (\<lambda>ref s.
       rbind (if ref \<noteq> None then
                let s = session_do ref (se_setSubject (Some subject)) s
                in if \<not> isAnonymous subject \<and> au_changeSessionId A then au_changeId A s else Inr ((), s)
              else Inr ((), s))
         (\<lambda>(_, s). request_do (setSubject isAnonymous subject (ts_request s)) s))"

definition doLogin :: "authenticator \<Rightarrow> string \<Rightarrow> string \<Rightarrow> ('l, 'h) auth_state \<Rightarrow> ('l, 'h, bool) auth_run" where
  "doLogin A username credentials s =
     (case au_realm A of
        None \<Rightarrow> Inr (False, s)
      | Some realm \<Rightarrow>
          (case rl_authenticate realm username credentials of
             None \<Rightarrow> Inr (False, s)
           | Some subject \<Rightarrow> rbind (au_setSubject A subject s) (\<lambda>(_, s). Inr (\<not> isAnonymous subject, s))))"

definition constraint_check :: "authenticator \<Rightarrow> security_constraint \<Rightarrow> (nat, subject) request \<Rightarrow> bool" where
  "constraint_check A c r = checkUrl (au_rx A) (sc_regex c) (sc_prefix c) (getScriptName r)"

definition isAuthenticationRequired :: "authenticator \<Rightarrow> (nat, subject) request \<Rightarrow> bool" where
  "isAuthenticationRequired A r = list_ex (\<lambda>c. constraint_check A c r) (au_constraints A)"

definition isAuthorized :: "authenticator \<Rightarrow> (nat, subject) request \<Rightarrow> bool" where
  "isAuthorized A r =
     (let subject = getSubject anonymousSubject r
      in \<not> list_ex (\<lambda>c. constraint_check A c r \<and> \<not> hasPrincipal (au_hash A) (sc_role c) subject) (au_constraints A))"

definition isAuthenticated :: "authenticator \<Rightarrow> ('l, 'h) auth_state \<Rightarrow> ('l, 'h, bool) auth_run" where
  "isAuthenticated A s =
     (if isAnonymous (getSubject anonymousSubject (ts_request s)) then
        with_session A (\<lambda>ref s.
          case session_at ref s of
            Some session \<Rightarrow>
              (let subject = se_getSubject anonymousSubject session in
               if \<not> isAnonymous subject then
                 rbind (request_do (setSubject isAnonymous subject (ts_request s)) s) (\<lambda>(_, s). Inr (\<not> isAnonymous subject, s))
               else Inr (\<not> isAnonymous (getSubject anonymousSubject (ts_request s)), s))
          | None \<Rightarrow> Inr (\<not> isAnonymous (getSubject anonymousSubject (ts_request s)), s)) s
      else Inr (True, s))"

text \<open>\<^verbatim>\<open>doFilter\<close>, with the virtual operations as arguments.\<close>

definition doFilter :: "authenticator \<Rightarrow> (('l, 'h) auth_state \<Rightarrow> ('l, 'h, bool) auth_run) \<Rightarrow> (('l, 'h) auth_state \<Rightarrow> ('l, 'h, bool) auth_run) \<Rightarrow>
    (('l, 'h) auth_state \<Rightarrow> (thrown \<times> ('l, 'h) auth_state) + ('l, 'h) auth_state) \<Rightarrow> ('l, 'h) auth_state \<Rightarrow>
    (thrown \<times> ('l, 'h) auth_state) + ('l, 'h) auth_state" where
  "doFilter A required authenticate continue s =
     rbind (required s) (\<lambda>(b, s).
       if \<not> b then continue s
       else
         rbind (rbind (isAuthenticated A s) (\<lambda>(a, s). if a then Inr (True, s) else authenticate s)) (\<lambda>(a, s).
           if a then
             if isAuthorized A (ts_request s) then
               rbind (continue s) (\<lambda>s.
                 rbind (request_do (setSubject isAnonymous anonymousSubject (ts_request s)) s) (\<lambda>(_, s). Inr s))
             else
               rbind (request_do (setSubject isAnonymous anonymousSubject (ts_request s)) s) (\<lambda>(_, s). Inl (Unauthorized, s))
           else if \<not> rq_processed (ts_request s) then Inl (Forbidden, s)
           else Inr s))"

section \<open>Ways to authenticate\<close>

text \<open>The constraints of the configuration.\<close>

fun init_constraints :: "xml_config \<Rightarrow> string \<Rightarrow> string list \<Rightarrow> security_constraint list \<Rightarrow> security_constraint list result" where
  "init_constraints cfg url_prefix [] cs = Inr cs"
| "init_constraints cfg url_prefix (k # v) cs =
     rbind (cfg_asString_default cfg (k @ ''/@url'') ''/'') (\<lambda>url_filter.
     rbind (cfg_asString_default cfg (k @ ''/@role'') []) (\<lambda>role_name.
       init_constraints cfg url_prefix v
         (if url_filter \<noteq> [] \<and> role_name \<noteq> []
          then cs @ [\<lparr>sc_regex = url_filter, sc_prefix = url_prefix, sc_role = role_name\<rparr>] else cs)))"

definition initConstraints :: "xml_config \<Rightarrow> authenticator \<Rightarrow> authenticator result" where
  "initConstraints cfg A =
     rbind (cfg_asString_default cfg ''/fastcgi/handlers/@urlPrefix'' []) (\<lambda>url_prefix.
     rbind (cfg_subKeys cfg ''/fastcgi/security-constraints/constraint'') (\<lambda>v.
     rbind (init_constraints cfg url_prefix v (au_constraints A)) (\<lambda>cs. Inr (A\<lparr>au_constraints := cs\<rparr>))))"

definition abstract_required :: "authenticator \<Rightarrow> ('l, 'h) auth_state \<Rightarrow> ('l, 'h, bool) auth_run" where
  "abstract_required A s = Inr (isAuthenticationRequired A (ts_request s), s)"

text \<open>Basic authentication.\<close>

definition basic_credentials :: "(nat, subject) request \<Rightarrow> (string \<times> string) option result" where
  "basic_credentials r =
     (if hasHeader r ''Authorization'' then
        let h = split (getHeader r ''Authorization'') (CHR '' '') [] in
        if length h = 2 then
          rbind (base64_decode (h ! 1)) (\<lambda>text.
            let credentials = split text (CHR '':'') [] in
            Inr (if length credentials = 2 then Some (credentials ! 0, credentials ! 1) else None))
        else Inr None
      else Inr None)"

definition basic_authenticate :: "authenticator \<Rightarrow> ('l, 'h) auth_state \<Rightarrow> ('l, 'h, bool) auth_run" where
  "basic_authenticate A s =
     (case basic_credentials (ts_request s) of
        Inl e \<Rightarrow> Inl (Std e, s)
      | Inr (Some (username, password)) \<Rightarrow> doLogin A username password s
      | Inr None \<Rightarrow>
          (case au_realm A of
             None \<Rightarrow> Inl (Std NullPointer, s)
           | Some realm \<Rightarrow>
               rbind (request_do (setHeader ''WWW-Authenticate'' (''Basic realm='' @ [CHR 0x22] @ rl_name realm @ [CHR 0x22]) (ts_request s)) s) (\<lambda>(_, s).
               rbind (request_do (setStatus 401 (ts_request s)) s) (\<lambda>(_, s).
                 Inr (False, s\<lparr>ts_request := markAsProcessed (ts_request s)\<rparr>)))))"

text \<open>Authentication by the web server.\<close>

definition delegated_authenticate :: "authenticator \<Rightarrow> ('l, 'h) auth_state \<Rightarrow> ('l, 'h, bool) auth_run" where
  "delegated_authenticate A s =
     (let username = getRemoteUser (ts_request s) in
      case au_realm A of
        None \<Rightarrow> Inr (False, s)
      | Some realm \<Rightarrow>
          if username = [] then Inr (False, s)
          else
            let password = getRemotePassword (ts_request s) in
            if password = [] then
              (case rl_getSubject realm username of
                 None \<Rightarrow> Inr (False, s)
               | Some subject \<Rightarrow> rbind (au_setSubject A subject s) (\<lambda>(_, s). Inr (\<not> isAnonymous subject, s)))
            else doLogin A username password s)"

text \<open>Authentication with a form.\<close>

record form_authenticator =
  fa_base :: authenticator
  fa_urlPrefix :: string
  fa_securityCheckUrl :: string
  fa_formAction :: string
  fa_storeRequest :: bool
  fa_createFileBuffer :: "string \<Rightarrow> data_buffer result"
  fa_rewrite :: "string \<Rightarrow> string \<Rightarrow> string"

definition FORM_USERNAME :: string where "FORM_USERNAME = ''j_username''"
definition FORM_PASSWORD :: string where "FORM_PASSWORD = ''j_password''"
definition PARAM_NAME_STORED_REQUEST :: string where "PARAM_NAME_STORED_REQUEST = ''auth-stored-request''"
definition PARAM_NAME_STORED_REQUEST_URI :: string where "PARAM_NAME_STORED_REQUEST_URI = ''auth-stored-request-uri''"

definition form_required :: "form_authenticator \<Rightarrow> ('l, 'h) auth_state \<Rightarrow> ('l, 'h, bool) auth_run" where
  "form_required F s =
     (if fa_formAction F \<noteq> [] \<and> endsWith (getScriptName (ts_request s)) (fa_formAction F) then Inr (False, s)
      else if hasArg (ts_request s) FORM_USERNAME \<and> hasArg (ts_request s) FORM_PASSWORD
      then rbind (au_setSubject (fa_base F) anonymousSubject s) (\<lambda>(_, s). Inr (True, s))
      else abstract_required (fa_base F) s)"

fun any_string :: "session_any \<Rightarrow> string result" where
  "any_string (AnyString x) = Inr x"
| "any_string (AnyBuffer _) = Inl (LogicError ''bad any cast'')"

fun any_buffer :: "session_any \<Rightarrow> data_buffer result" where
  "any_buffer (AnyBuffer x) = Inr x"
| "any_buffer (AnyString _) = Inl (LogicError ''bad any cast'')"

definition session_has :: "string \<Rightarrow> (session_any, 'l, subject) session option \<Rightarrow> bool" where
  "session_has name x = (case x of None \<Rightarrow> False | Some session \<Rightarrow> hasAttribute name (se_attributes session))"

text \<open>Removing an attribute of the session, and setting one.\<close>

definition session_remove :: "nat option \<Rightarrow> string \<Rightarrow> ('l, 'h) auth_state \<Rightarrow> ('l, 'h, unit) auth_run" where
  "session_remove ref name s =
     (case session_at ref s of
        None \<Rightarrow> Inl (Std NullPointer, s)
      | Some session \<Rightarrow>
          (case removeAttribute name (se_attributes session) of
             Inl e \<Rightarrow> Inl (Std e, s)
           | Inr a \<Rightarrow> Inr ((), session_do ref (\<lambda>x. x\<lparr>se_attributes := a\<rparr>) s)))"

definition session_set :: "nat option \<Rightarrow> string \<Rightarrow> session_any \<Rightarrow> ('l, 'h) auth_state \<Rightarrow> ('l, 'h) auth_state" where
  "session_set ref name x = session_do ref (\<lambda>session. session\<lparr>se_attributes := fst (setAttribute name (Some x) (se_attributes session))\<rparr>)"

definition lift_result :: "'x result \<Rightarrow> ('l, 'h) auth_state \<Rightarrow> ('l, 'h, 'x) auth_run" where
  "lift_result x s = (case x of Inl e \<Rightarrow> Inl (Std e, s) | Inr v \<Rightarrow> Inr (v, s))"

text \<open>After a successful login: the stored request is dispatched, or the stored address is redirected to.\<close>

definition form_success :: "form_authenticator \<Rightarrow> ('l, 'h) auth_state \<Rightarrow> ('l, 'h, bool) auth_run" where
  "form_success F =
     with_session (fa_base F) (\<lambda>ref s.
       case session_at ref s of
         None \<Rightarrow> Inr (False, s)
       | Some session \<Rightarrow>
           if hasAttribute PARAM_NAME_STORED_REQUEST (se_attributes session) then
             rbind (lift_result (getAttribute_as any_buffer PARAM_NAME_STORED_REQUEST (se_attributes session)) s) (\<lambda>(buffer, s).
             rbind (session_remove ref PARAM_NAME_STORED_REQUEST s) (\<lambda>(_, s). Inl (Dispatch FORWARD [] buffer, s)))
           else if hasAttribute PARAM_NAME_STORED_REQUEST_URI (se_attributes session) then
             rbind (lift_result (getAttribute_as any_string PARAM_NAME_STORED_REQUEST_URI (se_attributes session)) s) (\<lambda>(url, s).
             rbind (session_remove ref PARAM_NAME_STORED_REQUEST_URI s) (\<lambda>(_, s).
             rbind (request_do (redirectToPath url (ts_request s)) s) (\<lambda>(_, s).
               Inr (False, s\<lparr>ts_request := markAsProcessed (ts_request s)\<rparr>))))
           else Inr (False, s))"

definition to_login_form :: "form_authenticator \<Rightarrow> ('l, 'h) auth_state \<Rightarrow> ('l, 'h, bool) auth_run" where
  "to_login_form F s =
     (let s = s\<lparr>ts_request := markAsProcessed (ts_request s)\<rparr>
      in rbind (request_do (redirectToPath (fa_urlPrefix F @ fa_formAction F) (ts_request s)) s) (\<lambda>(_, s). Inr (False, s)))"

definition form_failure :: "form_authenticator \<Rightarrow> ('l, 'h) auth_state \<Rightarrow> ('l, 'h, bool) auth_run" where
  "form_failure F =
     with_session (fa_base F) (\<lambda>ref s.
       if session_has PARAM_NAME_STORED_REQUEST (session_at ref s) \<or> session_has PARAM_NAME_STORED_REQUEST_URI (session_at ref s)
       then to_login_form F s else Inr (False, s))"

text \<open>Without credentials: the request, or its address, is stored, and the client is sent to the form.\<close>

definition form_store :: "form_authenticator \<Rightarrow> nat option \<Rightarrow> (session_any, 'l, subject) session \<Rightarrow> ('l, 'h) auth_state \<Rightarrow> ('l, 'h, unit) auth_run" where
  "form_store F ref session s =
     (let r = ts_request s in
      if \<not> fa_storeRequest F \<and> ''POST'' \<noteq> getRequestMethod r \<and> countRemoteFiles r = 0
      then Inr ((), session_set ref PARAM_NAME_STORED_REQUEST_URI (AnyString (getURI r)) s)
      else
        rbind (lift_result (fa_createFileBuffer F (se_id session)) s) (\<lambda>(buffer, s).
          if \<not> db_isNil buffer then
            rbind (lift_result (serialize r buffer) s) (\<lambda>(buffer, s).
              Inr ((), session_set ref PARAM_NAME_STORED_REQUEST_URI (AnyString (getURI r))
                (session_set ref PARAM_NAME_STORED_REQUEST (AnyBuffer buffer) s)))
          else Inr ((), s)))"

definition form_challenge :: "form_authenticator \<Rightarrow> ('l, 'h) auth_state \<Rightarrow> ('l, 'h, bool) auth_run" where
  "form_challenge F =
     with_session (fa_base F) (\<lambda>ref s.
       case session_at ref s of
         None \<Rightarrow> Inr (False, s)
       | Some session \<Rightarrow> rbind (form_store F ref session s) (\<lambda>(_, s). to_login_form F s))"

definition form_authenticate :: "form_authenticator \<Rightarrow> ('l, 'h) auth_state \<Rightarrow> ('l, 'h, bool) auth_run" where
  "form_authenticate F s =
     (let r = ts_request s in
      if hasArg r FORM_USERNAME \<and> hasArg r FORM_PASSWORD then
        rbind (doLogin (fa_base F) (getArg r FORM_USERNAME) (getArg r FORM_PASSWORD) s) (\<lambda>(ok, s).
          if ok then form_success F s else form_failure F s)
      else form_challenge F s)"

text \<open>After the login page: the target of its form becomes the stored address.\<close>

definition form_rewrite :: "form_authenticator \<Rightarrow> ('l, 'h) auth_state \<Rightarrow> ('l, 'h, unit) auth_run" where
  "form_rewrite F s =
     (if endsWith (getScriptName (ts_request s)) (fa_formAction F) then
        with_session (fa_base F) (\<lambda>ref s.
          case session_at ref s of
            None \<Rightarrow> Inr ((), s)
          | Some session \<Rightarrow>
              if hasAttribute PARAM_NAME_STORED_REQUEST (se_attributes session) \<and>
                 hasAttribute PARAM_NAME_STORED_REQUEST_URI (se_attributes session)
              then
                let loginForm = ts_stream s; s = stream_reset s in
                rbind (lift_result (getAttribute_as any_string PARAM_NAME_STORED_REQUEST_URI (se_attributes session)) s) (\<lambda>(url, s).
                  Inr ((), s\<lparr>ts_stream := ts_stream s @ fa_rewrite F url loginForm\<rparr>))
              else Inr ((), s)) s
      else Inr ((), s))"

definition form_doFilter :: "form_authenticator \<Rightarrow> (('l, 'h) auth_state \<Rightarrow> (thrown \<times> ('l, 'h) auth_state) + ('l, 'h) auth_state) \<Rightarrow>
    ('l, 'h) auth_state \<Rightarrow> (thrown \<times> ('l, 'h) auth_state) + ('l, 'h) auth_state" where
  "form_doFilter F continue s =
     rbind (doFilter (fa_base F) (form_required F) (form_authenticate F) continue s) (\<lambda>s.
       rbind (form_rewrite F s) (\<lambda>(_, s). Inr s))"

definition getSecurityCheckUrl :: "form_authenticator \<Rightarrow> ('l, 'h) auth_state \<Rightarrow> ('l, 'h, string) auth_run" where
  "getSecurityCheckUrl F =
     with_session (fa_base F) (\<lambda>ref s.
       if session_has PARAM_NAME_STORED_REQUEST (session_at ref s) \<and> session_has PARAM_NAME_STORED_REQUEST_URI (session_at ref s)
       then (case session_at ref s of
               None \<Rightarrow> Inl (Std NullPointer, s)
             | Some session \<Rightarrow> lift_result (getAttribute_as any_string PARAM_NAME_STORED_REQUEST_URI (se_attributes session)) s)
       else Inr (fa_securityCheckUrl F, s))"

section \<open>Who gets through\<close>

text \<open>
  A request may pass if it is exempt, if no constraint is about its address, or if it has a subject
  that is not anonymous and has, for every constraint about its address, a principal with the hash
  code of the required role.
\<close>

definition may_pass :: "authenticator \<Rightarrow> ((nat, subject) request \<Rightarrow> bool) \<Rightarrow> (nat, subject) request \<Rightarrow> bool" where
  "may_pass A exempt r \<longleftrightarrow>
     exempt r \<or> (\<forall>c \<in> set (au_constraints A). \<not> constraint_check A c r) \<or>
     (\<exists>subject. rq_subject r = Some subject \<and> \<not> isAnonymous subject \<and>
        (\<forall>c \<in> set (au_constraints A). constraint_check A c r \<longrightarrow>
           (\<exists>p \<in> set (sj_principals subject). principal_eq (au_hash A) p (sc_role c))))"

text \<open>What \<open>doFilter\<close> relies on: when no authentication is required, and what a successful one achieves.\<close>

locale authentication =
  fixes A :: authenticator
    and required :: "('l, 'h) auth_state \<Rightarrow> ('l, 'h, bool) auth_run"
    and authenticate :: "('l, 'h) auth_state \<Rightarrow> ('l, 'h, bool) auth_run"
    and exempt :: "(nat, subject) request \<Rightarrow> bool"
  assumes not_required: "required s = Inr (False, s') \<Longrightarrow>
      s' = s \<and> (exempt (ts_request s) \<or> \<not> isAuthenticationRequired A (ts_request s))"
    and authenticate_yes: "authenticate s = Inr (True, s') \<Longrightarrow> \<not> isAnonymous (getSubject anonymousSubject (ts_request s'))"
begin

lemma passes_unprotected: "required s = Inr (False, s') \<Longrightarrow> may_pass A exempt (ts_request s')"
  using not_required [of s s'] by (auto simp: may_pass_def isAuthenticationRequired_def list_ex_iff)

lemma passes_authorized:
  assumes "\<not> isAnonymous (getSubject anonymousSubject (ts_request s))" "isAuthorized A (ts_request s)"
  shows "may_pass A exempt (ts_request s)"
proof -
  obtain subject where s: "rq_subject (ts_request s) = Some subject"
    using assms(1) by (cases "rq_subject (ts_request s)") (simp_all add: getSubject_def)
  then show ?thesis
    using assms by (fastforce simp: may_pass_def isAuthorized_def getSubject_def list_ex_iff hasPrincipal_def hasPrincipal_hash_def principal_eq_def)
qed

lemma isAuthenticated_yes:
  assumes "isAuthenticated A s = Inr (True, s')"
  shows "\<not> isAnonymous (getSubject anonymousSubject (ts_request s'))"
  using assms
  by (auto simp: isAuthenticated_def with_session_def request_do_def setSubject_def getSubject_def leave_def Let_def
    split: if_splits sum.splits option.splits)

lemma guarded:
  assumes "\<And>s'. may_pass A exempt (ts_request s') \<Longrightarrow> k s' = k' s'"
  shows "doFilter A required authenticate k s = doFilter A required authenticate k' s"
proof -
  have "rbind (isAuthenticated A s1) (\<lambda>(a, s). if a then Inr (True, s) else authenticate s) = Inr (True, s2) \<Longrightarrow>
      \<not> isAnonymous (getSubject anonymousSubject (ts_request s2))" for s1 s2
    using isAuthenticated_yes authenticate_yes by (auto simp: rbind_eq_Inr_conv split: if_splits)
  then have "isAuthorized A (ts_request s2) \<Longrightarrow> k s2 = k' s2"
    if "rbind (isAuthenticated A s1) (\<lambda>(a, s). if a then Inr (True, s) else authenticate s) = Inr (True, s2)" for s1 s2
    using that by (intro assms passes_authorized) blast+
  then show ?thesis
    using passes_unprotected assms unfolding doFilter_def
    by (auto split: rbind_split intro!: arg_cong2 [where f = rbind])
qed

end

lemma au_setSubject_subject:
  "au_setSubject A subject s = Inr (u, s') \<Longrightarrow> \<not> isAnonymous subject \<Longrightarrow> rq_subject (ts_request s') = Some subject"
  by (auto simp: au_setSubject_def with_session_def request_do_def setSubject_def leave_def rbind_eq_Inr_conv Let_def
    split: if_splits sum.splits)

lemma doLogin_yes: "doLogin A username credentials s = Inr (True, s') \<Longrightarrow> \<not> isAnonymous (getSubject anonymousSubject (ts_request s'))"
  by (auto simp: doLogin_def rbind_eq_Inr_conv getSubject_def dest!: au_setSubject_subject split: option.splits)

lemma with_session_not_True:
  "(\<And>ref s s'. f ref s \<noteq> Inr (True, s')) \<Longrightarrow> with_session A f s \<noteq> Inr (True, s')"
  by (auto simp: with_session_def split: sum.splits)

lemma to_login_form_not_True: "to_login_form F s \<noteq> Inr (True, s')"
  by (auto simp: to_login_form_def Let_def rbind_eq_Inr_conv)

lemma form_parts_not_True:
  "form_success F s \<noteq> Inr (True, s')" "form_failure F s \<noteq> Inr (True, s')" "form_challenge F s \<noteq> Inr (True, s')"
  unfolding form_success_def form_failure_def form_challenge_def
  by ((rule with_session_not_True; auto simp: rbind_eq_Inr_conv to_login_form_not_True split: option.splits if_splits)+)

lemma form_authenticate_no: "form_authenticate F s \<noteq> Inr (True, s')"
  by (auto simp: form_authenticate_def Let_def rbind_eq_Inr_conv form_parts_not_True split: if_splits)

interpretation basic: authentication A "abstract_required A" "basic_authenticate A" "\<lambda>_. False" for A
proof
  show "basic_authenticate A s = Inr (True, s') \<Longrightarrow> \<not> isAnonymous (getSubject anonymousSubject (ts_request s'))" for s s'
    by (auto simp: basic_authenticate_def rbind_eq_Inr_conv dest: doLogin_yes split: sum.splits option.splits)
qed (simp add: abstract_required_def)

interpretation delegated: authentication A "abstract_required A" "delegated_authenticate A" "\<lambda>_. False" for A
proof
  show "delegated_authenticate A s = Inr (True, s') \<Longrightarrow> \<not> isAnonymous (getSubject anonymousSubject (ts_request s'))" for s s'
    by (auto simp: delegated_authenticate_def Let_def rbind_eq_Inr_conv getSubject_def
      dest: doLogin_yes [unfolded getSubject_def] dest!: au_setSubject_subject split: if_splits option.splits)
qed (simp add: abstract_required_def)

definition login_page :: "form_authenticator \<Rightarrow> (nat, subject) request \<Rightarrow> bool" where
  "login_page F r \<longleftrightarrow> fa_formAction F \<noteq> [] \<and> endsWith (getScriptName r) (fa_formAction F)"

interpretation form: authentication "fa_base F" "form_required F" "form_authenticate F" "login_page F" for F
proof
  show "form_required F s = Inr (False, s') \<Longrightarrow>
      s' = s \<and> (login_page F (ts_request s) \<or> \<not> isAuthenticationRequired (fa_base F) (ts_request s))" for s s'
    by (auto simp: form_required_def abstract_required_def login_page_def rbind_eq_Inr_conv split: if_splits)
qed (simp add: form_authenticate_no)

text \<open>
  C21. The basic authenticator protects the pages behind it: what follows in the chain is only ever
  called for requests that may pass. (Two continuations that agree on these requests cannot be told
  apart.)
\<close>

theorem basic_protects:
  assumes "\<And>s'. may_pass A (\<lambda>_. False) (ts_request s') \<Longrightarrow> k s' = k' s'"
  shows "doFilter A (abstract_required A) (basic_authenticate A) k s = doFilter A (abstract_required A) (basic_authenticate A) k' s"
  using assms by (rule basic.guarded)

text \<open>
  C20. The form authenticator protects the pages behind it: what follows in the chain is only ever
  called for the login page and for requests that may pass.
\<close>

theorem form_protects:
  assumes "\<And>s'. may_pass (fa_base F) (login_page F) (ts_request s') \<Longrightarrow> k s' = k' s'"
  shows "form_doFilter F k s = form_doFilter F k' s"
  unfolding form_doFilter_def by (simp only: form.guarded [OF assms])

section \<open>Examples\<close>

text \<open>One protected page, and a user who may see it.\<close>

definition demo_realm :: realm where
  "demo_realm = \<lparr>rl_name = ''demo'', rl_authenticate = (\<lambda>u p. if u = ''bob'' \<and> p = ''x'' then Some \<lparr>sj_principals = [''user''], sj_readOnly = False\<rparr> else None),
     rl_getSubject = (\<lambda>_. None)\<rparr>"

definition demo_auth :: authenticator where
  "demo_auth = \<lparr>au_changeSessionId = False, au_realm = Some demo_realm,
     au_constraints = [\<lparr>sc_regex = ''/secret'', sc_prefix = [], sc_role = ''user''\<rparr>], au_rx = (=), au_hash = (\<lambda>s. of_nat (length s)),
     au_attached = False, au_crawler = (\<lambda>_. False), au_uuid = (\<lambda>_. []), au_now = 0\<rparr>"

definition demo_form :: form_authenticator where
  "demo_form = \<lparr>fa_base = demo_auth, fa_urlPrefix = [], fa_securityCheckUrl = ''/j_security_check'', fa_formAction = ''/login'',
     fa_storeRequest = False, fa_createFileBuffer = (\<lambda>_. Inr db_new), fa_rewrite = (\<lambda>u t. t)\<rparr>"

definition secret_request :: "(nat, subject) request" where
  "secret_request = request_new\<lparr>rq_vars := [(''SCRIPT_NAME'', ''/secret'')]\<rparr>"

definition secret_state :: "(unit, nat) auth_state" where
  "secret_state = \<lparr>ts_request = secret_request, ts_stream = [], ts_context = session_manager_new 30, ts_handlers = []\<rparr>"

text \<open>The page is not shown without credentials, by whatever continuation.\<close>

theorem basic_protects_witness:
  "doFilter demo_auth (abstract_required demo_auth) (basic_authenticate demo_auth) (\<lambda>s. Inr (s\<lparr>ts_stream := ''secret''\<rparr>)) secret_state =
   doFilter demo_auth (abstract_required demo_auth) (basic_authenticate demo_auth)
     (\<lambda>s. if may_pass demo_auth (\<lambda>_. False) (ts_request s) then Inr (s\<lparr>ts_stream := ''secret''\<rparr>) else Inl (Unknown, s)) secret_state"
  by (rule basic_protects) simp

theorem form_protects_witness:
  "form_doFilter demo_form (\<lambda>s. Inr (s\<lparr>ts_stream := ''secret''\<rparr>)) secret_state =
   form_doFilter demo_form
     (\<lambda>s. if may_pass (fa_base demo_form) (login_page demo_form) (ts_request s) then Inr (s\<lparr>ts_stream := ''secret''\<rparr>) else Inl (Unknown, s)) secret_state"
  by (rule form_protects) simp

lemma secret_not_passing: "\<not> may_pass demo_auth (\<lambda>_. False) secret_request"
  by (simp add: may_pass_def demo_auth_def constraint_check_def checkUrl_def regex_check_def secret_request_def
    getScriptName_def map_get_def request_new_def reset_def string_order.irrefl)

lemma secret_challenged:
  "\<exists>s. doFilter demo_auth (abstract_required demo_auth) (basic_authenticate demo_auth) k secret_state = Inr s \<and>
     rq_status (ts_request s) = 401 \<and> rq_processed (ts_request s) \<and> ts_stream s = []"
proof -
  have r: "isAuthenticationRequired demo_auth secret_request"
    by (simp add: isAuthenticationRequired_def demo_auth_def constraint_check_def checkUrl_def regex_check_def secret_request_def
      getScriptName_def map_get_def request_new_def reset_def string_order.irrefl)
  have c: "basic_credentials secret_request = Inr None"
    by (simp add: basic_credentials_def hasHeader_def map_has_def secret_request_def request_new_def reset_def)
  have i: "isAuthenticated demo_auth secret_state = Inr (False, secret_state)"
    by (simp add: isAuthenticated_def with_session_def getSession_def demo_auth_def secret_state_def secret_request_def
      request_new_def reset_def getSubject_def session_at_def leave_def)
  show ?thesis
    using r c by (simp add: doFilter_def abstract_required_def i)
      (simp add: secret_state_def basic_authenticate_def demo_auth_def secret_request_def request_new_def reset_def
        request_do_def setHeader_def setStatus_def markAsProcessed_def)
qed

end
