(* ===== verification/Servlets.thy ===== *)
theory Servlets
  imports Dispatch
begin

text \<open>
  Servlets (\<^verbatim>\<open>library/http_servlet.cpp\<close>, \<^verbatim>\<open>library/http_response.cpp\<close>): the choice of the operation by the request
  method, and the inclusion of other handlers in a response. The classes \<^verbatim>\<open>HttpRequest\<close> and \<^verbatim>\<open>HttpResponse\<close> forward
  all their other operations to the request.
\<close>

section \<open>Operations by method\<close>

definition HTTP_METHOD_HEAD :: u32 where "HTTP_METHOD_HEAD = 1"
definition HTTP_METHOD_GET :: u32 where "HTTP_METHOD_GET = 2"
definition HTTP_METHOD_POST :: u32 where "HTTP_METHOD_POST = 3"
definition HTTP_METHOD_PUT :: u32 where "HTTP_METHOD_PUT = 4"
definition HTTP_METHOD_DELETE :: u32 where "HTTP_METHOD_DELETE = 5"
definition HTTP_METHOD_OPTIONS :: u32 where "HTTP_METHOD_OPTIONS = 6"
definition HTTP_METHOD_TRACE :: u32 where "HTTP_METHOD_TRACE = 7"
definition HTTP_METHOD_PATCH :: u32 where "HTTP_METHOD_PATCH = 8"

lemmas http_method_defs = HTTP_METHOD_HEAD_def HTTP_METHOD_GET_def HTTP_METHOD_POST_def HTTP_METHOD_PUT_def
  HTTP_METHOD_DELETE_def HTTP_METHOD_OPTIONS_def HTTP_METHOD_TRACE_def HTTP_METHOD_PATCH_def

definition http_methods_map :: "(string \<times> u32) list" where
  "http_methods_map =
     [(''DELETE'', HTTP_METHOD_DELETE), (''GET'', HTTP_METHOD_GET), (''HEAD'', HTTP_METHOD_HEAD), (''OPTIONS'', HTTP_METHOD_OPTIONS),
      (''PATCH'', HTTP_METHOD_PATCH), (''POST'', HTTP_METHOD_POST), (''PUT'', HTTP_METHOD_PUT), (''TRACE'', HTTP_METHOD_TRACE)]"

type_synonym ('s, 'u, 'c, 'h) servlet_fun = "('s, 'u, 'c, 'h) task_state \<Rightarrow> ('s, 'u, 'c, 'h) run"

text \<open>The virtual operations of a servlet; those of the base class answer 405.\<close>

record ('s, 'u, 'c, 'h) servlet =
  doHead :: "('s, 'u, 'c, 'h) servlet_fun"
  doGet :: "('s, 'u, 'c, 'h) servlet_fun"
  doPost :: "('s, 'u, 'c, 'h) servlet_fun"
  doPut :: "('s, 'u, 'c, 'h) servlet_fun"
  doDelete :: "('s, 'u, 'c, 'h) servlet_fun"
  doOptions :: "('s, 'u, 'c, 'h) servlet_fun"
  doTrace :: "('s, 'u, 'c, 'h) servlet_fun"
  doPatch :: "('s, 'u, 'c, 'h) servlet_fun"

definition not_allowed :: "('s, 'u, 'c, 'h) servlet_fun" where
  "not_allowed s = on_request s (sendError 405 (ts_request s))"

definition servlet_base :: "('s, 'u, 'c, 'h) servlet" where
  "servlet_base = \<lparr>doHead = not_allowed, doGet = not_allowed, doPost = not_allowed, doPut = not_allowed,
     doDelete = not_allowed, doOptions = not_allowed, doTrace = not_allowed, doPatch = not_allowed\<rparr>"

definition servlet_handleRequest :: "('s, 'u, 'c, 'h) servlet \<Rightarrow> ('s, 'u, 'c, 'h) servlet_fun" where
  "servlet_handleRequest sl s =
     (case om_find string_lt (getRequestMethod (ts_request s)) http_methods_map of
        None \<Rightarrow> not_allowed s
      | Some m \<Rightarrow>
          if m = HTTP_METHOD_GET then doGet sl s
          else if m = HTTP_METHOD_POST then doPost sl s
          else if m = HTTP_METHOD_HEAD then doHead sl s
          else if m = HTTP_METHOD_PUT then doPut sl s
          else if m = HTTP_METHOD_DELETE then doDelete sl s
          else if m = HTTP_METHOD_OPTIONS then doOptions sl s
          else if m = HTTP_METHOD_PATCH then doPatch sl s
          else if m = HTTP_METHOD_TRACE then doTrace sl s
          else not_allowed s)"

section \<open>Inclusion\<close>

text \<open>The handlers of another path run in turn until the request is processed.\<close>

definition includePath :: "regex \<Rightarrow> ('h, 'f) handler_set \<Rightarrow> ('s, 'u, 'c, 'h) handler_fun \<Rightarrow> string \<Rightarrow> ('s, 'u, 'c, 'h) servlet_fun" where
  "includePath rx hs exec path s =
     (case findURIHandler_url rx hs path of
        None \<Rightarrow> Inl (NotFound, s)
      | Some d \<Rightarrow> if hd_handlers d = [] then Inl (NotFound, s) else run_handlers exec (hd_handlers d) s)"

text \<open>The components by name, with the handler that they are, if they are one.\<close>

definition includeComponent :: "(string \<Rightarrow> 'h option option) \<Rightarrow> ('s, 'u, 'c, 'h) handler_fun \<Rightarrow> string \<Rightarrow> ('s, 'u, 'c, 'h) servlet_fun" where
  "includeComponent components exec name s =
     (if rq_processed (ts_request s) then Inr s
      else case components name of
             None \<Rightarrow> Inl (Std (RuntimeError (''Cannot find component: '' @ name)), s)
           | Some None \<Rightarrow> Inl (Std (RuntimeError (''Component '' @ name @ '' does not implement interface Handler'')), s)
           | Some (Some h) \<Rightarrow> exec h s)"

section \<open>Every method has its operation\<close>

text \<open>The operation of a method; none for an unknown method.\<close>

definition operation_of :: "('s, 'u, 'c, 'h) servlet \<Rightarrow> string \<Rightarrow> ('s, 'u, 'c, 'h) servlet_fun option" where
  "operation_of sl = map_of [(''HEAD'', doHead sl), (''GET'', doGet sl), (''POST'', doPost sl), (''PUT'', doPut sl),
     (''DELETE'', doDelete sl), (''OPTIONS'', doOptions sl), (''TRACE'', doTrace sl), (''PATCH'', doPatch sl)]"

lemma methods_sorted: "om_sorted string_lt http_methods_map"
  by (simp add: http_methods_map_def om_sorted_def string_lt_def byte_lt_def)

lemma find_method: "om_find string_lt m http_methods_map = map_of http_methods_map m"
proof -
  have d: "distinct (map fst http_methods_map)" by (simp add: http_methods_map_def)
  have "om_find string_lt m http_methods_map = Some v \<longleftrightarrow> map_of http_methods_map m = Some v" for v
    by (simp only: string_find_iff [OF methods_sorted] map_of_eq_Some_iff [OF d])
  then show ?thesis by (metis not_None_eq)
qed

text \<open>The operation of the method is called, and 405 is the answer to every other method.\<close>

theorem servlet_dispatch:
  "servlet_handleRequest sl s = (case operation_of sl (getRequestMethod (ts_request s)) of Some f \<Rightarrow> f s | None \<Rightarrow> not_allowed s)"
  by (simp add: servlet_handleRequest_def find_method operation_of_def) (simp add: http_methods_map_def http_method_defs)

text \<open>
  A servlet that implements nothing answers every request with the error page 405, whatever its method
  is, when nothing was sent before.
\<close>

theorem servlet_base_answers:
  assumes "\<not> rq_headers_sent (ts_request s)"
  shows "\<exists>r. servlet_handleRequest servlet_base s = Inr (s\<lparr>ts_request := r\<rparr>) \<and> rq_status r = 405 \<and> rq_headers_sent r \<and>
    rq_stream r = map_option (\<lambda>st. st\<lparr>io_out := io_out st @ error_page 405\<rparr>) (rq_stream (ts_request s))"
proof -
  have "servlet_handleRequest servlet_base s = not_allowed s"
    by (simp add: servlet_dispatch operation_of_def servlet_base_def split: option.split)
  moreover obtain r where "sendError 405 (ts_request s) = Inr r" "rq_status r = 405" "rq_headers_sent r"
    "rq_stream r = map_option (\<lambda>st. st\<lparr>io_out := io_out st @ error_page 405\<rparr>) (rq_stream (ts_request s))"
    by (rule sendError_page [OF assms, of 405])
  ultimately show ?thesis by (auto simp: not_allowed_def on_request_def)
qed

section \<open>The objects of a servlet\<close>

text \<open>The constructor asks for the globals of its context, and \<^verbatim>\<open>handleRequest\<close> gives the response the two ways to find handlers.\<close>

definition servlet_new :: "'g option \<Rightarrow> 'g result" where
  "servlet_new impl = (case impl of None \<Rightarrow> Inl (RuntimeError ''cannot fetch globals in request cache'') | Some g \<Rightarrow> Inr g)"

definition servlet_handlers :: "regex \<Rightarrow> ('h, 'f) handler_set \<Rightarrow> string \<Rightarrow> thrown + 'h list" where
  "servlet_handlers rx hs uri =
     (case findURIHandler_url rx hs uri of
        None \<Rightarrow> Inl NotFound
      | Some d \<Rightarrow> if hd_handlers d = [] then Inl NotFound else Inr (hd_handlers d))"

definition servlet_component :: "(string \<Rightarrow> 'h option option) \<Rightarrow> string \<Rightarrow> thrown + 'h" where
  "servlet_component components name =
     (case components name of
        None \<Rightarrow> Inl (Std (RuntimeError (''Cannot find component: '' @ name)))
      | Some None \<Rightarrow> Inl (Std (RuntimeError (''Component '' @ name @ '' does not implement interface Handler'')))
      | Some (Some h) \<Rightarrow> Inr h)"

text \<open>The inclusion of a path and of a component are these searches, followed by the handlers they find.\<close>

lemma include_by_search:
  "includePath rx hs exec path s =
     (case servlet_handlers rx hs path of Inl e \<Rightarrow> Inl (e, s) | Inr handlers \<Rightarrow> run_handlers exec handlers s)"
  "includeComponent components exec name s =
     (if rq_processed (ts_request s) then Inr s
      else case servlet_component components name of Inl e \<Rightarrow> Inl (e, s) | Inr h \<Rightarrow> exec h s)"
  by (auto simp: includePath_def servlet_handlers_def includeComponent_def servlet_component_def split: option.splits)

end
