(* ===== verification/FileCaches.thy ===== *)
theory FileCaches
  imports RequestCodec HashUtils Configs
begin

text \<open>
  The request cache (\<^verbatim>\<open>request-cache/file_cache.cpp\<close>): a request whose handler asked to be tried again
  is written to a file and served once more after a delay, a limited number of times.

  The directory of the cache is a map from paths to contents. A file buffer removes its file when it
  is destroyed; a stored request lives on under a second link.
\<close>

section \<open>State\<close>

record key_id =
  ki_id :: u32
  ki_last :: int

text \<open>What the operations read from outside: the digest, the thread, the time in seconds and the clock.\<close>

record cache_env =
  ce_md5 :: "string \<Rightarrow> string"
  ce_thread :: string
  ce_time :: int
  ce_now :: int

record file_cache =
  fc_dir :: string
  fc_window :: u64
  fc_page_size :: u64
  fc_max_retries :: u32
  fc_min_post_size :: u32
  fc_waiting :: "(int \<times> string \<times> int) list"
  fc_active :: "(string \<times> int) list"
  fc_key_id :: "key_id option"
  fc_files :: "string \<Rightarrow> string option"

section \<open>Keys\<close>

definition key_get :: "cache_env \<Rightarrow> key_id \<Rightarrow> string \<times> key_id" where
  "key_get env k =
     (let now = ce_time env;
          k = (if now = ki_last k then k\<lparr>ki_id := ki_id k + 1\<rparr> else \<lparr>ki_id = 0, ki_last = now\<rparr>);
          result = le_digits 4 (unat (ki_id k)) @ '':'' @ le_bytes (word_of_int (ki_last k)) @ '':'' @ ce_thread env
      in (hexMD5 (ce_md5 env) result, k))"

definition generateUniqueKey :: "cache_env \<Rightarrow> file_cache \<Rightarrow> string \<times> file_cache" where
  "generateUniqueKey env fc =
     (let (key, k) = key_get env (case fc_key_id fc of Some k \<Rightarrow> k | None \<Rightarrow> \<lparr>ki_id = 0, ki_last = ce_time env\<rparr>)
      in (key, fc\<lparr>fc_key_id := Some k\<rparr>))"

section \<open>Files\<close>

definition open_path :: "string \<Rightarrow> file_cache \<Rightarrow> data_buffer \<times> file_cache" where
  "open_path path fc =
     (let content = (case fc_files fc path of Some c \<Rightarrow> c | None \<Rightarrow> [])
      in (db_create_impl (FileImpl (fb_new path content (fc_window fc) (fc_page_size fc))),
          fc\<lparr>fc_files := (fc_files fc)(path \<mapsto> content)\<rparr>))"

definition createFileBuffer :: "string \<Rightarrow> file_cache \<Rightarrow> data_buffer \<times> file_cache" where
  "createFileBuffer key fc = open_path (fc_dir fc @ key) fc"

definition fc_create :: "cache_env \<Rightarrow> file_cache \<Rightarrow> data_buffer \<times> file_cache" where
  "fc_create env fc =
     (let (key, fc) = generateUniqueKey env fc;
          (buffer, fc) = createFileBuffer key fc
      in (buffer, if \<not> db_isNil buffer then fc\<lparr>fc_active := fst (om_insert string_lt key 0 (fc_active fc))\<rparr> else fc))"

text \<open>The file that holds the body of a request, and its name in the cache.\<close>

definition body_filename :: "('s, 'u) request \<Rightarrow> string" where
  "body_filename r = (case db_data (rq_body r) of Some (FileImpl b) \<Rightarrow> fb_filename b | _ \<Rightarrow> [])"

definition in_cache_dir :: "file_cache \<Rightarrow> string \<Rightarrow> bool" where
  "in_cache_dir fc filename \<longleftrightarrow> filename \<noteq> [] \<and> take (length (fc_dir fc)) filename = fc_dir fc"

definition getStoredKey :: "('s, 'u) request \<Rightarrow> file_cache \<Rightarrow> string" where
  "getStoredKey r fc =
     (let filename = body_filename r in if in_cache_dir fc filename then drop (length (fc_dir fc)) filename else [])"

definition getKey :: "cache_env \<Rightarrow> ('s, 'u) request \<Rightarrow> file_cache \<Rightarrow> string \<times> file_cache" where
  "getKey env r fc =
     (let key = getStoredKey r fc in if key = [] then generateUniqueKey env fc else (key, fc))"

text \<open>\<^verbatim>\<open>link\<close> fails when there is no such file or the new name is taken.\<close>

definition createHardLink :: "cache_env \<Rightarrow> string \<Rightarrow> file_cache \<Rightarrow> string \<times> file_cache" where
  "createHardLink env key fc =
     (let path = fc_dir fc @ key;
          (new_key, fc) = generateUniqueKey env fc;
          new_path = fc_dir fc @ new_key
      in case fc_files fc path of
           None \<Rightarrow> ([], fc)
         | Some content \<Rightarrow>
             if fc_files fc new_path \<noteq> None then ([], fc)
             else (new_key, fc\<lparr>fc_files := (fc_files fc)(new_path \<mapsto> content)\<rparr>))"

text \<open>
  A request whose body is not in a file of the cache is written to a new file first. The buffer covers
  the whole file, so that its text is the content of the file; the file goes with the buffer.
\<close>

definition write_request :: "('s, 'u) request \<Rightarrow> string \<Rightarrow> file_cache \<Rightarrow> file_cache result" where
  "write_request r key fc =
     (let (buffer, fc) = createFileBuffer key fc
      in rbind (serialize r buffer) (\<lambda>buffer. Inr (fc\<lparr>fc_files := (fc_files fc)(fc_dir fc @ key \<mapsto> db_text buffer)\<rparr>)))"

definition unlink :: "string \<Rightarrow> file_cache \<Rightarrow> file_cache" where
  "unlink path fc = fc\<lparr>fc_files := (fc_files fc)(path := None)\<rparr>"

definition saveRequest :: "cache_env \<Rightarrow> ('s, 'u) request \<Rightarrow> string \<Rightarrow> file_cache \<Rightarrow> (string \<times> file_cache) result" where
  "saveRequest env r key fc =
     (if \<not> in_cache_dir fc (body_filename r) then
        rbind (write_request r key fc) (\<lambda>fc.
          let (new_key, fc) = createHardLink env key fc in Inr (new_key, unlink (fc_dir fc @ key) fc))
      else Inr (createHardLink env key fc))"

section \<open>Saving and serving again\<close>

definition eraseActive :: "string \<Rightarrow> file_cache \<Rightarrow> file_cache" where
  "eraseActive key fc = fc\<lparr>fc_active := om_erase string_lt key (fc_active fc)\<rparr>"

text \<open>The delay in the ticks of the clock; the waiting tasks are a multimap by time.\<close>

definition insertWaiting :: "cache_env \<Rightarrow> int \<Rightarrow> string \<Rightarrow> int \<Rightarrow> file_cache \<Rightarrow> file_cache" where
  "insertWaiting env delay key retries fc =
     fc\<lparr>fc_waiting := mm_insert (<) (ce_now env + delay * 1000000) (key, retries) (fc_waiting fc)\<rparr>"

definition fc_save :: "cache_env \<Rightarrow> ('s, 'u) request \<Rightarrow> int \<Rightarrow> file_cache \<Rightarrow> file_cache result" where
  "fc_save env r delay fc =
     (if delay = 0 \<or> fc_max_retries fc \<le> 0 then
        let key = getStoredKey r fc in Inr (if key \<noteq> [] then eraseActive key fc else fc)
      else
        let (key, fc) = getKey env r fc in
        (case om_find string_lt key (fc_active fc) of
           None \<Rightarrow>
             rbind (saveRequest env r key fc) (\<lambda>(new_key, fc).
               Inr (if new_key = [] then fc else insertWaiting env delay new_key 1 fc))
         | Some retries \<Rightarrow>
             if (word_of_int retries :: u32) \<ge> fc_max_retries fc then Inr (eraseActive key fc)
             else
               rbind (saveRequest env r key fc) (\<lambda>(new_key, fc).
                 Inr (if new_key = [] then eraseActive key fc
                      else insertWaiting env delay new_key (sint (word_of_int retries + 1 :: u32)) (eraseActive key fc)))))"

text \<open>\<^verbatim>\<open>Request::saveToCache\<close>: the delay is the one of the request whose operation is called, the saved request is the argument.\<close>

definition saveToCache :: "cache_env \<Rightarrow> ('s, 'u) request \<Rightarrow> ('s, 'u) request \<Rightarrow> file_cache option \<Rightarrow> file_cache option result" where
  "saveToCache env request r cache =
     (case cache of None \<Rightarrow> Inr None | Some fc \<Rightarrow> rbind (fc_save env request (rq_delay r) fc) (\<lambda>fc. Inr (Some fc)))"

text \<open>One round of the thread that serves the waiting requests: the next one whose time has come.\<close>

definition fc_handle :: "cache_env \<Rightarrow> file_cache \<Rightarrow> (('s, 'u) outcome \<times> file_cache) option" where
  "fc_handle env fc =
     (case fc_waiting fc of
        [] \<Rightarrow> None
      | (time, key, retries) # rest \<Rightarrow>
          if time > ce_now env then None
          else
            let (buffer, fc) = createFileBuffer key (fc\<lparr>fc_waiting := rest\<rparr>);
                fc = (if db_isNil buffer then fc else fc\<lparr>fc_active := fst (om_insert string_lt key retries (fc_active fc))\<rparr>)
            in Some (parse_request buffer request_new, fc))"

section \<open>The number of retries is bounded\<close>

definition file_cache_new :: "string \<Rightarrow> u64 \<Rightarrow> u64 \<Rightarrow> u32 \<Rightarrow> u32 \<Rightarrow> (string \<Rightarrow> string option) \<Rightarrow> file_cache" where
  "file_cache_new dir window page_size max_retries min_post_size files =
     \<lparr>fc_dir = dir, fc_window = window, fc_page_size = page_size, fc_max_retries = max_retries, fc_min_post_size = min_post_size,
      fc_waiting = [], fc_active = [], fc_key_id = None, fc_files = files\<rparr>"

text \<open>
  The configuration of the component. The directory ends with a slash; \<^verbatim>\<open>prepare\<close> creates it and
  checks that it can be written to.
\<close>

definition cache_directory :: "string \<Rightarrow> string" where
  "cache_directory s =
     (let dir = (if s = [] then ''/tmp/fastcgi3-container/cache/request-cache/'' else s)
      in if last dir \<noteq> CHR ''/'' then dir @ ''/'' else dir)"

definition file_cache_load ::
    "(string \<Rightarrow> unit result) \<Rightarrow> u64 \<Rightarrow> (string \<Rightarrow> string option) \<Rightarrow> xml_config \<Rightarrow> string \<Rightarrow> file_cache result" where
  "file_cache_load prepare page_size files cfg path =
     rbind (cfg_asString_default cfg (path @ ''/cache-dir'') []) (\<lambda>s.
     let dir = cache_directory s in
     rbind (prepare dir) (\<lambda>_.
     rbind (cfg_asInt_default cfg (path @ ''/file-window'') (1024 * 1024)) (\<lambda>window.
     rbind (cfg_asInt_default cfg (path @ ''/max-retries'') 2) (\<lambda>max_retries.
     rbind (cfg_asInt_default cfg (path @ ''/min-post-size'') (1024 * 1024)) (\<lambda>min_post_size.
     Inr (file_cache_new dir (word_of_int window) page_size (word_of_int max_retries) (word_of_int min_post_size) files))))))"

text \<open>The operations of the cache in any order, for any requests.\<close>

inductive cache_step :: "file_cache \<Rightarrow> file_cache \<Rightarrow> bool" where
  create: "fc_create env fc = (buffer, fc') \<Longrightarrow> cache_step fc fc'"
| save: "fc_save env (r :: (nat, nat) request) delay fc = Inr fc' \<Longrightarrow> cache_step fc fc'"
| handle: "fc_handle env fc = Some (x :: (nat, nat) outcome, fc') \<Longrightarrow> cache_step fc fc'"

inductive cache_reachable :: "u32 \<Rightarrow> file_cache \<Rightarrow> bool" for n where
  init: "cache_reachable n (file_cache_new dir window page_size n min_post_size files)"
| load: "file_cache_load prepare page_size files cfg path = Inr fc \<Longrightarrow> n = fc_max_retries fc \<Longrightarrow> cache_reachable n fc"
| step: "cache_reachable n fc \<Longrightarrow> cache_step fc fc' \<Longrightarrow> cache_reachable n fc'"

definition fc_bounded :: "file_cache \<Rightarrow> bool" where
  "fc_bounded fc \<longleftrightarrow>
     (\<forall>(k, v) \<in> set (fc_active fc). (word_of_int v :: u32) \<le> fc_max_retries fc) \<and>
     (\<forall>(t, k, v) \<in> set (fc_waiting fc). 1 \<le> (word_of_int v :: u32) \<and> (word_of_int v :: u32) \<le> fc_max_retries fc)"

text \<open>The parts of the state that the bound is about.\<close>

definition fc_counts :: "file_cache \<Rightarrow> u32 \<times> (int \<times> string \<times> int) list \<times> (string \<times> int) list" where
  "fc_counts fc = (fc_max_retries fc, fc_waiting fc, fc_active fc)"

lemma bounded_counts: "fc_counts fc' = fc_counts fc \<Longrightarrow> fc_bounded fc' = fc_bounded fc"
  by (simp add: fc_counts_def fc_bounded_def)

lemma generateUniqueKey_counts: "generateUniqueKey env fc = (key, fc') \<Longrightarrow> fc_counts fc' = fc_counts fc \<and> fc_files fc' = fc_files fc \<and> fc_dir fc' = fc_dir fc"
  by (auto simp: generateUniqueKey_def fc_counts_def split: prod.splits)

lemma createFileBuffer_counts: "createFileBuffer key fc = (buffer, fc') \<Longrightarrow> fc_counts fc' = fc_counts fc"
  by (auto simp: createFileBuffer_def open_path_def fc_counts_def Let_def)

lemma createHardLink_counts: "createHardLink env key fc = (new_key, fc') \<Longrightarrow> fc_counts fc' = fc_counts fc"
  by (auto simp: createHardLink_def Let_def split: prod.splits option.splits if_splits dest!: generateUniqueKey_counts)
    (simp_all add: fc_counts_def)

lemma write_request_counts: "write_request r key fc = Inr fc' \<Longrightarrow> fc_counts fc' = fc_counts fc"
  by (cases "createFileBuffer key fc") (auto simp: write_request_def rbind_eq_Inr_conv fc_counts_def dest!: createFileBuffer_counts)

lemma unlink_counts [simp]: "fc_counts (unlink path fc) = fc_counts fc"
  by (simp add: unlink_def fc_counts_def)

lemma saveRequest_counts:
  assumes "saveRequest env r key fc = Inr (new_key, fc')"
  shows "fc_counts fc' = fc_counts fc"
proof (cases "in_cache_dir fc (body_filename r)")
  case True
  then show ?thesis using assms createHardLink_counts by (auto simp: saveRequest_def)
next
  case False
  then obtain fc1 where w: "write_request r key fc = Inr fc1" using assms by (auto simp: saveRequest_def rbind_eq_Inr_conv)
  obtain k fc2 where "createHardLink env key fc1 = (k, fc2)" by (cases "createHardLink env key fc1")
  then show ?thesis using assms False w write_request_counts [OF w] createHardLink_counts [of env key fc1 k fc2]
    by (auto simp: saveRequest_def)
qed

lemma getKey_counts: "getKey env r fc = (key, fc') \<Longrightarrow> fc_counts fc' = fc_counts fc"
  by (auto simp: getKey_def Let_def split: if_splits dest: generateUniqueKey_counts)

lemma eraseActive_bounded: "fc_bounded fc \<Longrightarrow> fc_bounded (eraseActive key fc)"
  using set_om_erase [of string_lt key "fc_active fc"] by (fastforce simp: fc_bounded_def eraseActive_def)

lemma set_mm_insert: "set (mm_insert lt k v m) = insert (k, v) (set m)"
  by (induction lt k v m rule: mm_insert.induct) auto

lemma insertWaiting_bounded:
  "fc_bounded fc \<Longrightarrow> 1 \<le> (word_of_int n :: u32) \<Longrightarrow> (word_of_int n :: u32) \<le> fc_max_retries fc \<Longrightarrow> fc_bounded (insertWaiting env delay key n fc)"
  by (auto simp: fc_bounded_def insertWaiting_def set_mm_insert)

lemma insert_active_bounded:
  "fc_bounded fc \<Longrightarrow> (word_of_int n :: u32) \<le> fc_max_retries fc \<Longrightarrow>
   fc_bounded (fc\<lparr>fc_active := fst (om_insert string_lt key n (fc_active fc))\<rparr>)"
  using set_om_insert [of string_lt key n "fc_active fc"] by (fastforce simp: fc_bounded_def)

lemma eraseActive_sel [simp]: "fc_max_retries (eraseActive key fc) = fc_max_retries fc"
  by (simp add: eraseActive_def)

lemma unat_add_1_below: "w < (x :: u32) \<Longrightarrow> unat (w + 1) = unat w + 1"
  using unsigned_less [of x, where 'a = nat] by (subst unat_add_lem [THEN iffD1]) (simp_all add: word_less_nat_alt)

lemma fc_save_bounded:
  assumes "fc_save env r delay fc = Inr fc'" "fc_bounded fc"
  shows "fc_bounded fc'"
proof (cases "delay = 0 \<or> fc_max_retries fc \<le> 0")
  case True
  then show ?thesis using assms by (auto simp: fc_save_def Let_def eraseActive_bounded split: if_splits)
next
  case False
  obtain key fc1 where k: "getKey env r fc = (key, fc1)" by (cases "getKey env r fc")
  have b1: "fc_bounded fc1" "fc_max_retries fc1 = fc_max_retries fc"
    using getKey_counts [OF k] bounded_counts [of fc1 fc] assms(2) by (simp_all add: fc_counts_def)
  have b2: "fc_bounded fc2 \<and> fc_max_retries fc2 = fc_max_retries fc" if "saveRequest env r key fc1 = Inr (new_key, fc2)" for new_key fc2
    using saveRequest_counts [OF that] bounded_counts [of fc2 fc1] b1 by (simp add: fc_counts_def)
  have one: "(1 :: u32) \<le> fc_max_retries fc" using False by (simp add: word_le_nat_alt unat_gt_0 Suc_le_eq word_neq_0_conv)
  show ?thesis
  proof (cases "om_find string_lt key (fc_active fc1)")
    case None
    then show ?thesis
      using assms(1) False b2 one by (auto simp: fc_save_def k rbind_eq_Inr_conv intro!: insertWaiting_bounded split: if_splits)
  next
    case (Some v)
    show ?thesis
    proof (cases "(word_of_int v :: u32) \<ge> fc_max_retries fc")
      case True
      then show ?thesis using assms(1) False Some b1 by (auto simp: fc_save_def k eraseActive_bounded)
    next
      case lt: False
      let ?w = "word_of_int v + 1 :: u32"
      have "unat ?w = unat (word_of_int v :: u32) + 1"
        using lt by (intro unat_add_1_below) (simp add: not_le)
      then have w: "1 \<le> ?w" "?w \<le> fc_max_retries fc"
        using lt by (simp_all add: not_le word_le_nat_alt word_less_nat_alt)
      then show ?thesis
        using assms(1) False Some lt b1 b2
        by (auto simp: fc_save_def k rbind_eq_Inr_conv intro!: insertWaiting_bounded eraseActive_bounded split: if_splits)
    qed
  qed
qed

lemma fc_create_bounded: "fc_create env fc = (buffer, fc') \<Longrightarrow> fc_bounded fc \<Longrightarrow> fc_bounded fc'"
proof -
  assume c: "fc_create env fc = (buffer, fc')" and b: "fc_bounded fc"
  obtain key fc1 where k: "generateUniqueKey env fc = (key, fc1)" by (cases "generateUniqueKey env fc")
  obtain d fc2 where d: "createFileBuffer key fc1 = (d, fc2)" by (cases "createFileBuffer key fc1")
  have "fc_bounded fc2"
    using generateUniqueKey_counts [OF k] createFileBuffer_counts [OF d] bounded_counts [of fc2 fc] b by simp
  then show "fc_bounded fc'" using c insert_active_bounded [of fc2 0 key] by (auto simp: fc_create_def k d split: if_splits)
qed

lemma fc_handle_bounded:
  assumes "fc_handle env fc = Some (x, fc')" "fc_bounded fc" shows "fc_bounded fc'"
proof -
  obtain t key n rest where w: "fc_waiting fc = (t, key, n) # rest" "\<not> t > ce_now env"
    using assms(1) by (auto simp: fc_handle_def split: list.splits if_splits)
  obtain d fc2 where d: "createFileBuffer key (fc\<lparr>fc_waiting := rest\<rparr>) = (d, fc2)" by (cases "createFileBuffer key (fc\<lparr>fc_waiting := rest\<rparr>)")
  have b: "fc_bounded (fc\<lparr>fc_waiting := rest\<rparr>)" "(word_of_int n :: u32) \<le> fc_max_retries fc"
    using assms(2) w(1) by (auto simp: fc_bounded_def)
  then have "fc_bounded fc2" "fc_max_retries fc2 = fc_max_retries fc"
    using createFileBuffer_counts [OF d] bounded_counts [of fc2 "fc\<lparr>fc_waiting := rest\<rparr>"] by (simp_all add: fc_counts_def)
  then show ?thesis using assms(1) w b(2) insert_active_bounded [of fc2 n key] by (auto simp: fc_handle_def d split: if_splits)
qed

lemma cache_step_bounded: "cache_step fc fc' \<Longrightarrow> fc_bounded fc \<Longrightarrow> fc_bounded fc'"
  by (induction rule: cache_step.induct) (blast intro: fc_create_bounded fc_save_bounded fc_handle_bounded)+

lemma cache_step_max: "cache_step fc fc' \<Longrightarrow> fc_max_retries fc' = fc_max_retries fc"
proof (induction rule: cache_step.induct)
  case (create env fc buffer fc')
  then show ?case
    by (auto simp: fc_create_def fc_counts_def split: prod.splits if_splits dest!: generateUniqueKey_counts createFileBuffer_counts)
next
  case (save env r delay fc fc')
  then show ?case
    by (auto simp: fc_save_def fc_counts_def Let_def insertWaiting_def rbind_eq_Inr_conv split: prod.splits if_splits option.splits
      dest!: getKey_counts saveRequest_counts)
next
  case (handle env fc x fc')
  then show ?case
    by (auto simp: fc_handle_def fc_counts_def Let_def split: list.splits prod.splits if_splits dest!: createFileBuffer_counts)
qed


text \<open>A cache whose digest is the last sixteen bytes of the key text: two requests in one second have different keys.\<close>

definition small_cache :: file_cache where
  "small_cache = file_cache_new ''/c/'' 1048576 4096 2 1048576 (\<lambda>_. None)"

definition small_env :: cache_env where
  "small_env = \<lparr>ce_md5 = (\<lambda>s. take 16 (s @ replicate 16 CHR 0x00)), ce_thread = ''t'', ce_time = 0, ce_now = 0\<rparr>"


section \<open>A deferred request is served as it was\<close>

lemma length_hexMD5 [simp]: "length (hexMD5 md5 key) = 32"
  by (simp add: hexMD5_def length_concat comp_def Let_def sum_list_triv)

lemma length_key_get: "length (fst (key_get env k)) = 32"
  by (simp add: key_get_def Let_def)

lemma generateUniqueKey_nonempty: "generateUniqueKey env fc = (key, fc') \<Longrightarrow> key \<noteq> []"
  unfolding generateUniqueKey_def using length_key_get [of env "case fc_key_id fc of Some k \<Rightarrow> k | None \<Rightarrow> \<lparr>ki_id = 0, ki_last = ce_time env\<rparr>"]
  by (auto split: prod.splits)

lemma generateUniqueKey_key: "generateUniqueKey env fc = (key, fc') \<Longrightarrow> \<exists>k. fc' = fc\<lparr>fc_key_id := k\<rparr>"
  by (auto simp: generateUniqueKey_def split: prod.splits)

text \<open>Opening a file of the cache.\<close>

lemma open_path_ok:
  assumes "fc_page_size fc \<noteq> 0" "unat (fc_page_size fc) < 2 ^ 32" "unat (fc_window fc) < 2 ^ 60"
    and "content = (case fc_files fc path of Some c \<Rightarrow> c | None \<Rightarrow> [])" "length content < 2 ^ 62"
  shows "db_ok (fst (open_path path fc))" "db_data (fst (open_path path fc)) \<noteq> None" "db_text (fst (open_path path fc)) = content"
    "db_begin (fst (open_path path fc)) = 0" "snd (open_path path fc) = fc\<lparr>fc_files := (fc_files fc)(path \<mapsto> content)\<rparr>"
proof -
  let ?b = "fb_new path content (fc_window fc) (fc_page_size fc)"
  have b: "fb_ok ?b" "fb_bytes ?b = content" using fb_new_ok [OF assms(1,2,3,5), of path] by simp_all
  have sz: "unat (fb_size ?b) = length content"
    using b by (simp add: fb_ok_def fb_size_def mm_ok_def fb_bytes_def)
  have o: "open_path path fc = (db_create_impl (FileImpl ?b), fc\<lparr>fc_files := (fc_files fc)(path \<mapsto> content)\<rparr>)"
    using assms(4) by (simp add: open_path_def Let_def)
  show "db_ok (fst (open_path path fc))" "db_data (fst (open_path path fc)) \<noteq> None" "db_text (fst (open_path path fc)) = content"
    "db_begin (fst (open_path path fc)) = 0" "snd (open_path path fc) = fc\<lparr>fc_files := (fc_files fc)(path \<mapsto> content)\<rparr>"
    using b sz by (simp_all add: o db_create_impl_def db_new_def db_ok_def db_text_def slice_def)
qed

lemma generateUniqueKey_files:
  "generateUniqueKey env fc = (key, fc') \<Longrightarrow> generateUniqueKey env (fc\<lparr>fc_files := f\<rparr>) = (key, fc'\<lparr>fc_files := f\<rparr>)"
  by (auto simp: generateUniqueKey_def split: prod.splits)

lemma restore_new: "parse_request buffer request_new = restore buffer request_new"
  by (simp add: restore_def request_new_def reset_def)

text \<open>Storing a request whose body is not in the cache: it is under the second key, and only there.\<close>

lemma saveRequest_stores:
  assumes "db_ok (rq_body r)" "length (request_code r) < 2 ^ 62"
    and "fc_page_size fc \<noteq> 0" "unat (fc_page_size fc) < 2 ^ 32" "unat (fc_window fc) < 2 ^ 60"
    and "\<not> in_cache_dir fc (body_filename r)" "generateUniqueKey env fc = (key2, fc2)" "key \<noteq> key2"
    and "fc_files fc (fc_dir fc @ key) = None" "fc_files fc (fc_dir fc @ key2) = None"
  shows "saveRequest env r key fc = Inr (key2, fc2\<lparr>fc_files := (fc_files fc)(fc_dir fc @ key2 \<mapsto> request_code r)\<rparr>)"
proof -
  let ?p = "fc_dir fc @ key" and ?p2 = "fc_dir fc @ key2"
  note o = open_path_ok [OF assms(3-5), of "[]" ?p]
  have o': "db_ok (fst (open_path ?p fc))" "db_data (fst (open_path ?p fc)) \<noteq> None" "db_begin (fst (open_path ?p fc)) = 0"
    "snd (open_path ?p fc) = fc\<lparr>fc_files := (fc_files fc)(?p \<mapsto> [])\<rparr>" using o assms(9) by simp_all
  obtain b where b: "serialize r (fst (open_path ?p fc)) = Inr b" "db_text b = request_code r"
    by (rule serialize_text [OF o'(1,2) assms(1)]) (use assms(2) o'(3) in simp_all)
  let ?f = "(fc_files fc)(?p \<mapsto> request_code r)"
  have w: "write_request r key fc = Inr (fc\<lparr>fc_files := ?f\<rparr>)"
    using b o'(4) by (simp add: write_request_def createFileBuffer_def case_prod_unfold)
  have g: "generateUniqueKey env (fc\<lparr>fc_files := ?f\<rparr>) = (key2, fc2\<lparr>fc_files := ?f\<rparr>)"
    by (rule generateUniqueKey_files [OF assms(7)])
  have d: "fc_dir fc2 = fc_dir fc" using generateUniqueKey_counts [OF assms(7)] by simp
  have "createHardLink env key (fc\<lparr>fc_files := ?f\<rparr>) = (key2, fc2\<lparr>fc_files := ?f(?p2 \<mapsto> request_code r)\<rparr>)"
    using assms(8,10) by (simp add: createHardLink_def g d)
  then show ?thesis using assms(6,8,9) w by (simp add: saveRequest_def unlink_def d fun_upd_twist fun_upd_idem)
qed

lemma fc_handle_first:
  assumes "fc_waiting fc = (time, key, n) # rest" "time \<le> ce_now env"
    and "createFileBuffer key (fc\<lparr>fc_waiting := rest\<rparr>) = (d, fc3)"
  obtains fc'' where "fc_handle env fc = Some (restore d request_new, fc'')"
  using assms by (auto simp: fc_handle_def restore_new)


lemma le_digits_4: "le_digits 4 v = char_of (v mod 256) # le_digits 3 (v div 256)"
  using le_digits.simps(2) [of 3 v] by simp

lemma hexMD5_second: "hexMD5 md5 s ! Suc 0 = alpha ! (byte (md5 s ! 0) AND 0xf)"
  by (simp add: hexMD5_def upt_conv_Cons Let_def)


end
