(* ===== verification/ComponentLoads.thy ===== *)
theory ComponentLoads
  imports Security Statistics Servlets FileCaches ComponentSets Directories
begin

text \<open>
  What the components of the distribution do when they are created and loaded: their configuration, and their \<^verbatim>\<open>onLoad\<close> as
  the trees of \<^theory_text>\<open>ComponentSets\<close>. A component that is loaded has found the components it needs, with the interfaces it
  needs (\<open>loaded_has_logger\<close>).

  The interfaces a component implements are predicates on components. An exception of the configuration ends a load with its
  message; a configuration whose variables refer to each other without end is not considered here.
\<close>

section \<open>Looking up components\<close>

fun what_text :: "cpp_error \<Rightarrow> string" where
  "what_text (RuntimeError s) = s"
| "what_text (LogicError s) = s"
| "what_text (OutOfRange s) = s"
| "what_text (LengthError s) = s"
| "what_text (InvalidArgument s) = s"
| "what_text _ = []"

definition configured :: "string result \<Rightarrow> (string \<Rightarrow> 'c onload) \<Rightarrow> 'c onload" where
  "configured m k = (case m of Inl e \<Rightarrow> LoadThrow (what_text e) | Inr s \<Rightarrow> k s)"

text \<open>\<^verbatim>\<open>findComponent<T>\<close> and the test of its result.\<close>

definition need :: "('c \<Rightarrow> bool) \<Rightarrow> string \<Rightarrow> string \<Rightarrow> 'c onload \<Rightarrow> 'c onload" where
  "need implements name message k =
     LoadFind name (\<lambda>c. case c of
       None \<Rightarrow> LoadThrow message
     | Some c \<Rightarrow> if implements c then k else LoadThrow message)"

section \<open>Loading\<close>

definition servlet_onLoad :: "('c \<Rightarrow> bool) \<Rightarrow> xml_config \<Rightarrow> string \<Rightarrow> 'c onload" where
  "servlet_onLoad is_logger cfg path =
     configured (cfg_asString cfg (path @ ''/logger'')) (\<lambda>loggerComponentName.
       need is_logger loggerComponentName (''cannot get component '' @ loggerComponentName) LoadDone)"

definition authenticator_onLoad :: "('c \<Rightarrow> bool) \<Rightarrow> ('c \<Rightarrow> bool) \<Rightarrow> xml_config \<Rightarrow> string \<Rightarrow> 'c onload" where
  "authenticator_onLoad is_logger is_realm cfg path =
     configured (cfg_asString cfg (path @ ''/logger'')) (\<lambda>loggerComponentName.
       need is_logger loggerComponentName (''cannot get component '' @ loggerComponentName)
         (configured (cfg_asString cfg (path @ ''/realm'')) (\<lambda>realmComponentName.
            need is_realm realmComponentName (''cannot get component '' @ realmComponentName) LoadDone)))"

definition session_manager_onLoad :: "('c \<Rightarrow> bool) \<Rightarrow> xml_config \<Rightarrow> string \<Rightarrow> 'c onload" where
  "session_manager_onLoad is_logger cfg path =
     configured (cfg_asString cfg (path @ ''/logger'')) (\<lambda>loggerComponentName.
       need is_logger loggerComponentName (''Cannot get component '' @ loggerComponentName) LoadDone)"

definition ATTACHED :: string where
  "ATTACHED = ''session[@attach='' @ [CHR 0x22] @ ''1'' @ [CHR 0x22] @ '' or @attach='' @ [CHR 0x22] @ ''true'' @ [CHR 0x22] @ '']''"

text \<open>The expression for the session manager of the component has no slash before its attribute.\<close>

definition cache_onLoad :: "('c \<Rightarrow> bool) \<Rightarrow> ('c \<Rightarrow> bool) \<Rightarrow> xml_config \<Rightarrow> string \<Rightarrow> 'c onload" where
  "cache_onLoad is_logger is_manager cfg path =
     configured (cfg_asString cfg (path @ ''/logger'')) (\<lambda>loggerComponentName.
       need is_logger loggerComponentName (''cannot get component '' @ loggerComponentName)
         (configured
           (rbind (cfg_asString_default cfg (''/fastcgi[count(session)=1]/'' @ ATTACHED @ ''/@component'') [])
              (\<lambda>dflt. cfg_asString_default cfg (path @ ''/'' @ ATTACHED @ ''@component'') dflt))
           (\<lambda>managerComponentName.
              if managerComponentName \<noteq> [] then
                LoadFind managerComponentName (\<lambda>c. case c of
                  None \<Rightarrow> LoadThrow (''cannot get component '' @ managerComponentName)
                | Some c \<Rightarrow>
                    if is_manager c then LoadDone
                    else LoadThrow (''Component '' @ managerComponentName @ '' does not implement SessionManager interface''))
              else LoadDone)))"

section \<open>Configuration\<close>

definition servlet_getParam :: "xml_config \<Rightarrow> string \<Rightarrow> string \<Rightarrow> string result" where
  "servlet_getParam cfg path name = cfg_asString cfg (path @ name)"

definition servlet_getParam_default :: "xml_config \<Rightarrow> string \<Rightarrow> string \<Rightarrow> string \<Rightarrow> string result" where
  "servlet_getParam_default cfg path name defValue = cfg_asString_default cfg (path @ name) defValue"

definition default_crawlers_agents :: string where
  "default_crawlers_agents = ''.*(bot|Crawler|Google|Rambler|Yahoo|Yandex|accoona|ASPSeek|Lycos|Scooter|AltaVista|eStyle|Scrubby|Bench).*''"

text \<open>
  The session manager: the time of the global configuration before that of the component, in minutes, and the expression for
  crawlers, which stays empty when it is not a regular expression.
\<close>

definition simple_session_manager_load :: "(string \<Rightarrow> bool) \<Rightarrow> xml_config \<Rightarrow> string \<Rightarrow>
    (('a, 'l, 'u) session_manager \<times> string option) result" where
  "simple_session_manager_load is_regex cfg path =
     rbind (cfg_asInt_default cfg (path @ ''/timeout'') 30) (\<lambda>dflt.
     rbind (cfg_asInt_default cfg (''/fastcgi[count(session)=1]/'' @ ATTACHED @ ''/timeout'') dflt) (\<lambda>sessionTimeout.
     rbind (cfg_asString_default cfg (''/fastcgi[count(session)=1]/'' @ ATTACHED @ ''/crawlerUserAgents'') default_crawlers_agents) (\<lambda>agents.
     Inr (session_manager_new sessionTimeout, if is_regex agents then Some agents else None))))"

text \<open>
  \<^verbatim>\<open>stop\<close>: the thread is joined, then the sessions are removed. The flag says whether the thread can be joined; joining it
  again throws.
\<close>

definition simple_session_manager_stop :: "bool \<Rightarrow> ('a, 'l, 'u) session_manager \<Rightarrow> (bool \<times> ('a, 'l, 'u) session_manager) result" where
  "simple_session_manager_stop joinable m =
     (if joinable then Inr (False, invalidateAll m) else Inl (RuntimeError ''Invalid argument''))"

text \<open>What a component with a directory of its own asks of the operating system.\<close>

record dir_env =
  de_refused :: "string list \<Rightarrow> string \<Rightarrow> nat"
  de_writable :: "string list \<Rightarrow> string \<Rightarrow> bool"
  de_strerror :: "nat \<Rightarrow> string"

definition prepare_cache_dir :: "dir_env \<Rightarrow> string \<Rightarrow> string list \<Rightarrow> string list result" where
  "prepare_cache_dir env dir ds =
     (case createDirectories (de_refused env) dir ds of
        Inl errno \<Rightarrow> Inl (RuntimeError (de_strerror env errno))
      | Inr ds \<Rightarrow> if de_writable env ds dir then Inr ds else Inl (RuntimeError ''Permission denied''))"

definition slash_first :: "string \<Rightarrow> string" where
  "slash_first s = (if take 1 s \<noteq> ''/'' then ''/'' @ s else s)"

definition form_cache_directory :: "string \<Rightarrow> string" where
  "form_cache_directory s =
     (let dir = (if s = [] then ''/tmp/fastcgi3-container/cache/form-auth-cache/'' else s)
      in if last dir \<noteq> CHR ''/'' then dir @ ''/'' else dir)"

text \<open>
  The form authenticator. \<open>base\<close> is the part of the abstract authenticator, \<open>files\<close> are the files there are, and \<open>rewrite\<close>
  replaces, for the address of the check, the action in the text of the form.
\<close>

definition form_createFileBuffer :: "dir_env \<Rightarrow> (string \<Rightarrow> string option) \<Rightarrow> u64 \<Rightarrow> string \<Rightarrow> u64 \<Rightarrow> string list \<Rightarrow> string \<Rightarrow> data_buffer result" where
  "form_createFileBuffer env files page_size cache_dir window ds key =
     (let path = c_str (cache_dir @ key) in
      case createDirectories (de_refused env) cache_dir ds of
        Inl errno \<Rightarrow> Inl (RuntimeError (de_strerror env errno))
      | Inr _ \<Rightarrow>
          Inr (db_create_impl (FileImpl (fb_new path (case files path of Some c \<Rightarrow> c | None \<Rightarrow> []) window page_size))))"

definition form_authenticator_load ::
    "dir_env \<Rightarrow> (string \<Rightarrow> string option) \<Rightarrow> u64 \<Rightarrow> (string \<Rightarrow> string \<Rightarrow> string \<Rightarrow> string) \<Rightarrow> authenticator \<Rightarrow> xml_config \<Rightarrow> string \<Rightarrow>
     string list \<Rightarrow> (form_authenticator \<times> string list) result" where
  "form_authenticator_load env files page_size rewrite base cfg path ds =
     rbind (cfg_asString_default cfg ''/fastcgi/handlers/@urlPrefix'' []) (\<lambda>urlPrefix.
     rbind (cfg_asString_default cfg (path @ ''/security-check-url'') ''/j_security_check'') (\<lambda>check.
     rbind (cfg_asString_default cfg (path @ ''/form-page'') ''/login'') (\<lambda>form.
     rbind (cfg_asString_default cfg (path @ ''/cache-dir'') []) (\<lambda>cache_dir.
     rbind (prepare_cache_dir env (form_cache_directory cache_dir) ds) (\<lambda>ds.
     rbind (cfg_asInt_default cfg (path @ ''/file-window'') (1024 * 1024)) (\<lambda>window.
     rbind (cfg_asString_default cfg (path @ ''/store-request'') ''false'') (\<lambda>store.
     Inr (\<lparr>fa_base = base, fa_urlPrefix = urlPrefix, fa_securityCheckUrl = slash_first check, fa_formAction = slash_first form,
       fa_storeRequest = (''true'' = store),
       fa_createFileBuffer = form_createFileBuffer env files page_size (form_cache_directory cache_dir) (word_of_int window) ds,
       fa_rewrite = rewrite (slash_first check)\<rparr>, ds))))))))"

definition abstract_authenticator_load :: "authenticator \<Rightarrow> xml_config \<Rightarrow> string \<Rightarrow> authenticator result" where
  "abstract_authenticator_load A cfg path =
     rbind (cfg_asString_default cfg (path @ ''/changeSessionIdOnAuthentication'') ''true'') (\<lambda>c.
       initConstraints cfg (A\<lparr>au_changeSessionId := (''true'' = c), au_realm := None, au_constraints := []\<rparr>))"

section \<open>What a loaded component has\<close>

lemma load_succeeds_need [simp]:
  "load_succeeds D (need implements name message k) \<longleftrightarrow> (\<exists>c. D name = Some c \<and> implements c) \<and> load_succeeds D k"
  by (auto simp: need_def split: option.split)

lemma lookups_need [simp]: "set (lookups D (need implements name message k)) =
    insert name (if \<exists>c. D name = Some c \<and> implements c then set (lookups D k) else {})"
  by (auto simp: need_def split: option.split)

lemma load_succeeds_configured: "load_succeeds D (configured m k) \<longleftrightarrow> (\<exists>s. m = Inr s \<and> load_succeeds D (k s))"
  by (cases m) (simp_all add: configured_def)

text \<open>The place of a component in the order of loading, with what it looked up before it.\<close>

lemma loaded_after:
  assumes "in_order D onLoad stack" and "n \<in> set stack" and "D n = Some c"
  shows "\<exists>before after. stack = before @ n # after \<and> load_succeeds D (onLoad c) \<and>
    (\<forall>name \<in> set (lookups D (onLoad c)). D name \<noteq> None \<longrightarrow> name \<in> set before)"
proof -
  obtain i where i: "i < length stack" "stack ! i = n" using assms(2) by (auto simp: in_set_conv_nth)
  then have "stack = take i stack @ n # drop (Suc i) stack" using id_take_nth_drop [of i stack] by simp
  moreover have "load_succeeds D (onLoad c) \<and> (\<forall>name \<in> set (lookups D (onLoad c)). D name \<noteq> None \<longrightarrow> name \<in> set (take i stack))"
    using assms(1,3) i by (simp add: in_order_def)
  ultimately show ?thesis by blast
qed

lemma component_loaded_after:
  assumes "fresh_set s" and "sendOnLoadToComponents onLoad s = Inr s'" and "component_of s n = Some c"
  shows "\<exists>before after. cs_loadingStack s' = before @ n # after \<and> load_succeeds (component_of s) (onLoad c) \<and>
    (\<forall>name \<in> set (lookups (component_of s) (onLoad c)). component_of s name \<noteq> None \<longrightarrow> name \<in> set before)"
proof (rule loaded_after)
  have r: "set (cs_loadingStack s') = set (map fst (cs_components s))" "in_order (component_of s) onLoad (cs_loadingStack s')"
    using components_load_in_order' [OF assms(1), of onLoad] assms(2) by simp_all
  show "in_order (component_of s) onLoad (cs_loadingStack s')" by (rule r(2))
  show "n \<in> set (cs_loadingStack s')"
    using assms(1,3) component_names [of s] r(1) by (auto simp: fresh_set_def)
qed (rule assms(3))

text \<open>
  An authenticator is loaded only with its logger and its realm: when the components of the container are loaded, the
  components that its configuration names are there, implement these interfaces and were loaded before it.
\<close>

theorem authenticator_loaded:
  assumes "fresh_set s" and "sendOnLoadToComponents onLoad s = Inr s'" and "component_of s n = Some c"
    and "onLoad c = authenticator_onLoad is_logger is_realm cfg path"
  shows "\<exists>before after log_name realm_name log realm. cs_loadingStack s' = before @ n # after \<and>
    cfg_asString cfg (path @ ''/logger'') = Inr log_name \<and> component_of s log_name = Some log \<and> is_logger log \<and> log_name \<in> set before \<and>
    cfg_asString cfg (path @ ''/realm'') = Inr realm_name \<and> component_of s realm_name = Some realm \<and> is_realm realm \<and>
    realm_name \<in> set before"
proof -
  obtain before after where o: "cs_loadingStack s' = before @ n # after"
    "load_succeeds (component_of s) (authenticator_onLoad is_logger is_realm cfg path)"
    "\<forall>name \<in> set (lookups (component_of s) (authenticator_onLoad is_logger is_realm cfg path)). component_of s name \<noteq> None \<longrightarrow> name \<in> set before"
    using component_loaded_after [OF assms(1-3)] unfolding assms(4) by blast
  then show ?thesis
    by (auto simp: authenticator_onLoad_def load_succeeds_configured configured_def split: sum.splits)
qed

text \<open>An authenticator \<open>a\<close> with the logger \<open>l\<close> and the realm \<open>r\<close>.\<close>

definition secured_doc :: xml_doc where
  "secured_doc key = Inr (if key = ''/a/logger'' then [Some ''l''] else if key = ''/a/realm'' then [Some ''r''] else [])"

definition secured_cfg :: xml_config where
  "secured_cfg = \<lparr>xc_doc = secured_doc, xc_vars = []\<rparr>"

definition secured_components :: "nat component_set" where
  "secured_components = \<lparr>cs_components = [(''a'', \<lparr>cc_component = 1, cc_isLoadingStarted = False\<rparr>),
     (''l'', \<lparr>cc_component = 2, cc_isLoadingStarted = False\<rparr>), (''r'', \<lparr>cc_component = 3, cc_isLoadingStarted = False\<rparr>)],
     cs_loadingStack = []\<rparr>"

definition secured_onLoad :: "nat \<Rightarrow> nat onload" where
  "secured_onLoad c = (if c = 1 then authenticator_onLoad (\<lambda>c. c = 2) (\<lambda>c. c = 3) secured_cfg ''/a'' else LoadDone)"

lemma secured_values: "cfg_asString secured_cfg ''/a/logger'' = Inr ''l''" "cfg_asString secured_cfg ''/a/realm'' = Inr ''r''"
proof -
  have r: "CHR ''$'' \<notin> set v \<Longrightarrow> resolveVariables [] v = Some (Inr v)" for v
    by (subst resolveVariables.simps) (simp add: search_variable_none)
  show "cfg_asString secured_cfg ''/a/logger'' = Inr ''l''" "cfg_asString secured_cfg ''/a/realm'' = Inr ''r''"
    by (simp_all add: cfg_asString_def secured_cfg_def secured_doc_def r)
qed

theorem authenticator_loaded_witness:
  "\<exists>s' before after. sendOnLoadToComponents secured_onLoad secured_components = Inr s' \<and>
     cs_loadingStack s' = before @ ''a'' # after \<and> ''l'' \<in> set before \<and> ''r'' \<in> set before"
proof -
  have lt: "string_lt ''a'' ''l''" "string_lt ''a'' ''r''" "string_lt ''l'' ''r''"
    "\<not> string_lt ''l'' ''a''" "\<not> string_lt ''r'' ''a''" "\<not> string_lt ''r'' ''l''" by (simp_all add: string_lt_def byte_lt_def)
  have fr: "fresh_set secured_components" by (simp add: fresh_set_def secured_components_def lt)
  have "\<exists>s'. sendOnLoadToComponents secured_onLoad secured_components = Inr s'"
    by (simp add: sendOnLoadToComponents_def secured_components_def sendOnLoad_def sendOnLoad_with_def isComponentLoaded_def
      secured_onLoad_def authenticator_onLoad_def configured_def need_def secured_values lt string_order.irrefl)
  then obtain s' where s': "sendOnLoadToComponents secured_onLoad secured_components = Inr s'" ..
  have c: "component_of secured_components ''a'' = Some 1"
    by (simp add: component_of_def secured_components_def lt string_order.irrefl)
  have "secured_onLoad 1 = authenticator_onLoad (\<lambda>c. c = 2) (\<lambda>c. c = 3) secured_cfg ''/a''" by (simp add: secured_onLoad_def)
  from authenticator_loaded [OF fr s' c this] show ?thesis
    using s' by (auto simp: secured_values)
qed

end
