(* ===== verification/RequestTypes.thy ===== *)
theory RequestTypes
  imports RequestAttach Dispatch
begin

text \<open>
  The type of a request: its maps are ordered by their comparison objects, as \<^verbatim>\<open>std::map\<close> keeps them. The operations of
  \<^verbatim>\<open>library/request.cpp\<close> and \<^verbatim>\<open>library/parser.cpp\<close> keep it, also when they end in an exception, so that every request a handler
  or the cache gets has it.
\<close>

section \<open>Results with requests of the type\<close>

definition typed :: "('a \<Rightarrow> ('s, 'u) request) \<Rightarrow> (cpp_error \<times> ('s, 'u) request) + 'a \<Rightarrow> bool" where
  "typed sel x \<longleftrightarrow> (case x of Inl (e, r) \<Rightarrow> rq_ok r | Inr a \<Rightarrow> rq_ok (sel a))"

lemma typed_simps [simp]: "typed sel (Inl (e, r)) = rq_ok r" "typed sel (Inr a) = rq_ok (sel a)"
  by (simp_all add: typed_def)

lemma typed_rbind: "typed f x \<Longrightarrow> (\<And>a. rq_ok (f a) \<Longrightarrow> typed g (k a)) \<Longrightarrow> typed g (rbind x k)"
  by (cases x) (auto simp: typed_def)

lemma typed_at: "rq_ok r \<Longrightarrow> (\<And>a. typed g (k a)) \<Longrightarrow> typed g (rbind (at_state r m) k)"
  by (cases m) simp_all

lemma typed_at_only: "rq_ok r \<Longrightarrow> (\<And>a. m = Inr a \<Longrightarrow> rq_ok (g a)) \<Longrightarrow> typed g (at_state r m)"
  by (cases m) simp_all

text \<open>Updates of fields that the type does not mention, and of the maps.\<close>

lemma rq_ok_updates [simp]:
  "rq_ok (r\<lparr>rq_stream := a\<rparr>) = rq_ok r" "rq_ok (r\<lparr>rq_args := b\<rparr>) = rq_ok r" "rq_ok (r\<lparr>rq_body := c\<rparr>) = rq_ok r"
  "rq_ok (r\<lparr>rq_status := d\<rparr>) = rq_ok r" "rq_ok (r\<lparr>rq_headers_sent := e\<rparr>) = rq_ok r" "rq_ok (r\<lparr>rq_processed := f\<rparr>) = rq_ok r"
  "rq_ok (r\<lparr>rq_delay := g\<rparr>) = rq_ok r" "rq_ok (r\<lparr>rq_subject := h\<rparr>) = rq_ok r" "rq_ok (r\<lparr>rq_session := i\<rparr>) = rq_ok r"
  by (simp_all add: rq_ok_def)

lemma rq_ok_maps:
  "rq_ok r \<Longrightarrow> om_sorted string_lt m \<Longrightarrow> rq_ok (r\<lparr>rq_vars := m\<rparr>)"
  "rq_ok r \<Longrightarrow> om_sorted string_lt m \<Longrightarrow> rq_ok (r\<lparr>rq_cookies := m\<rparr>)"
  "rq_ok r \<Longrightarrow> om_sorted string_lt f \<Longrightarrow> rq_ok (r\<lparr>rq_files := f\<rparr>)"
  "rq_ok r \<Longrightarrow> om_sorted StringCILess m \<Longrightarrow> rq_ok (r\<lparr>rq_headers := m\<rparr>)"
  "rq_ok r \<Longrightarrow> om_sorted StringCILess m \<Longrightarrow> rq_ok (r\<lparr>rq_out_headers := m\<rparr>)"
  "rq_ok r \<Longrightarrow> om_sorted string_lt c \<Longrightarrow> rq_ok (r\<lparr>rq_out_cookies := c\<rparr>)"
  by (simp_all add: rq_ok_def)

lemma rq_ok_sorted:
  "rq_ok r \<Longrightarrow> om_sorted string_lt (rq_vars r)" "rq_ok r \<Longrightarrow> om_sorted string_lt (rq_cookies r)"
  "rq_ok r \<Longrightarrow> om_sorted string_lt (rq_files r)" "rq_ok r \<Longrightarrow> om_sorted StringCILess (rq_headers r)"
  "rq_ok r \<Longrightarrow> om_sorted StringCILess (rq_out_headers r)" "rq_ok r \<Longrightarrow> om_sorted string_lt (rq_out_cookies r)"
  by (simp_all add: rq_ok_def)

lemmas map_types = rq_ok_maps rq_ok_sorted string_order.sorted_assign string_order.sorted_insert ci_order.sorted_assign ci_order.sorted_insert

section \<open>The response\<close>

lemma setCookie_typed: "rq_ok r \<Longrightarrow> typed id (setCookie c r)"
  by (simp add: setCookie_def map_types)

lemma setStatus_typed: "rq_ok r \<Longrightarrow> typed id (setStatus n r)"
  by (simp add: setStatus_def)

lemma setHeader_typed: "rq_ok r \<Longrightarrow> typed id (setHeader name val r)"
  by (simp add: setHeader_def map_types)

lemma send_headers_loop_ok [simp]: "rq_ok (send_headers_loop hs r) = rq_ok r"
  by (induction hs r rule: send_headers_loop.induct) simp_all

lemma send_cookies_loop_typed: "rq_ok r \<Longrightarrow> typed id (send_cookies_loop cs r)"
  by (induction cs r rule: send_cookies_loop.induct) (auto simp: Let_def intro!: typed_at)

lemma sendHeadersInternal_typed: "rq_ok r \<Longrightarrow> typed id (sendHeadersInternal r)"
  unfolding sendHeadersInternal_def Let_def
  by (auto intro!: typed_rbind [where f = id] send_cookies_loop_typed map_types)

lemma sendError_typed: "rq_ok r \<Longrightarrow> typed id (sendError n r)"
  unfolding sendError_def by (auto intro!: typed_rbind [where f = id] sendHeadersInternal_typed map_types)

lemma request_write_typed: "rq_ok r \<Longrightarrow> typed id (request_write buf r)"
  unfolding request_write_def sendHeaders_def by (auto intro!: typed_rbind [where f = id] sendHeadersInternal_typed)

lemma request_write_stream_typed: "rq_ok r \<Longrightarrow> typed id (request_write_stream buf r)"
  unfolding request_write_stream_def sendHeaders_def by (auto intro!: typed_rbind [where f = id] sendHeadersInternal_typed)

lemma redirectToPath_typed: "rq_ok r \<Longrightarrow> typed id (redirectToPath path r)"
  unfolding redirectToPath_def by (auto intro!: typed_rbind [where f = id] setStatus_typed setHeader_typed)

lemma setSubject_typed: "rq_ok r \<Longrightarrow> typed id (setSubject anonymous s r)"
  by (simp add: setSubject_def)

section \<open>Reading a request\<close>

lemma parseCookies_loop_ok: "rq_ok r \<Longrightarrow> rq_ok (parseCookies_loop r tmp)"
proof (induction r tmp rule: parseCookies_loop.induct)
  case (1 r tmp)
  have "rq_ok (addCookie r h)" for h using 1(2) by (simp add: addCookie_def Let_def map_types split: prod.split)
  then show ?case using 1 by (subst parseCookies_loop.simps) (auto split: prod.split)
qed

lemma parse_env_entry_ok: "rq_ok r \<Longrightarrow> rq_ok (parse_env_entry r e)"
  by (simp add: parse_env_entry_def parseCookies_def addHeader_def Let_def map_types parseCookies_loop_ok split: prod.split)

lemma parse_env_ok: "rq_ok r \<Longrightarrow> rq_ok (parse_env r env)"
  unfolding parse_env_def by (induction env arbitrary: r) (simp_all add: parse_env_entry_ok)

lemma stream_read_ok_type: "rq_ok r \<Longrightarrow> stream_read n r = (d, r') \<Longrightarrow> rq_ok r'"
  by (auto simp: stream_read_def Let_def split: option.splits)

lemma read_segments_typed: "rq_ok r \<Longrightarrow> typed (\<lambda>(n, b, r). r) (read_segments cs body pos rsz r)"
proof (induction cs arbitrary: body pos rsz r)
  case (Cons c cs)
  obtain d r1 where s: "stream_read (of_nat (length c)) r = (d, r1)" by (cases "stream_read (of_nat (length c)) r")
  have "rq_ok r1" using stream_read_ok_type [OF Cons.prems s] .
  then show ?case using Cons.IH by (auto simp: s intro!: typed_at split: prod.split)
qed simp

lemma attach_body_typed: "rq_ok r \<Longrightarrow> typed snd (attach_body cache r)"
  unfolding attach_body_def Let_def
  by (intro typed_at) (auto intro!: typed_at typed_rbind [OF read_segments_typed] split: prod.split)

lemma parsePart_typed: "rq_ok r \<Longrightarrow> typed id (parsePart r part)"
  unfolding parsePart_def by (auto intro!: typed_at simp: map_types split: prod.split)

lemma parseMultipart_loop_typed:
  assumes "parseMultipart_loop r data boundary = Some x"
  shows "rq_ok r \<longrightarrow> typed id x"
proof (rule parseMultipart_loop.raw_induct [where P = "\<lambda>r data boundary x. rq_ok r \<longrightarrow> typed id x", OF _ assms], intro impI)
  fix loop r data boundary x
  assume ih: "\<And>r data boundary x. loop r data boundary = Some x \<Longrightarrow> rq_ok r \<longrightarrow> typed id x"
    and r: "rq_ok r"
    and body: "(if db_empty data then Some (Inr r)
      else case db_split data boundary of Inl e \<Rightarrow> Some (Inl (e, r))
           | Inr (found, head, tail) \<Rightarrow>
               case if found \<and> \<not> db_empty head then strip_part head else Inr head of
               Inl e \<Rightarrow> Some (Inl (e, r))
               | Inr head \<Rightarrow>
                   case if \<not> db_empty head then parsePart r head else Inr r of
                   Inl e \<Rightarrow> Some (Inl e)
                   | Inr req \<Rightarrow>
                       case db_startsWith tail ''--'' of
                       Inl e \<Rightarrow> Some (Inl (e, req))
                       | Inr finished \<Rightarrow> if finished then Some (Inr req) else loop req tail boundary) = Some x"
  have part: "rq_ok q" if "parsePart r h = Inr q" for h q using parsePart_typed [OF r, of h] that by simp
  have step: "typed id x" if "loop q t b = Some x" "rq_ok q" for q t b using ih [OF that(1)] that(2) by blast
  have fail: "rq_ok (snd e)" if "parsePart r h = Inl e" for h e using parsePart_typed [OF r, of h] that by (cases e) simp
  show "typed id x"
    using body r by (auto split: if_split_asm sum.split_asm prod.split_asm dest: part fail intro: step parsePart_typed [OF r])
qed

lemma attach_args_typed: "rq_ok r \<Longrightarrow> typed id (attach_args r)"
proof -
  assume r: "rq_ok r"
  have multi: "rq_ok q \<Longrightarrow> typed id (parseMultipart q data boundary)" for q :: "('a, 'b) request" and data boundary
    using parseMultipart_loop_typed by (auto simp: parseMultipart_def split: option.split)
  show ?thesis using r unfolding attach_args_def Let_def by (auto intro!: typed_at multi)
qed

lemma share_impl_ok: "rq_ok r \<Longrightarrow> rq_ok (share_impl im r)"
  by (auto simp: share_impl_def rq_ok_def om_sorted_def sorted_wrt_map)

lemma attach_store_typed: "rq_ok r \<Longrightarrow> typed snd (attach_store post r)"
  by (auto simp: attach_store_def Let_def rbind_eq_Inr_conv intro!: typed_at_only share_impl_ok)

lemma attach_typed: "rq_ok r \<Longrightarrow> typed snd (attach cache stream env r)"
  unfolding attach_def Let_def
  by (auto split: option.split prod.split intro!: parse_env_ok typed_rbind [OF attach_body_typed] typed_rbind [OF attach_args_typed]
    attach_store_typed)

section \<open>A request read from a buffer\<close>

text \<open>A property of the container being filled holds at the end, also when the reading stops early.\<close>

definition filled_with :: "('m \<Rightarrow> bool) \<Rightarrow> (cpp_error \<times> 'm) + (u64 \<times> 'm) \<Rightarrow> bool" where
  "filled_with P x \<longleftrightarrow> (case x of Inl (e, m) \<Rightarrow> P m | Inr (pos, m) \<Rightarrow> P m)"

lemma filled_with_simps [simp]: "filled_with P (Inl (e, m)) = P m" "filled_with P (Inr (pos, m)) = P m"
  by (simp_all add: filled_with_def)

lemma parse_pairs_filled:
  assumes "parse_pairs ins buffer pos pos_end m = Some x" and ins: "\<And>n v m. P m \<Longrightarrow> P (ins n v m)"
  shows "P m \<longrightarrow> filled_with P x"
proof (rule parse_pairs.raw_induct [where P = "\<lambda>i b pos pe m x. i = ins \<longrightarrow> P m \<longrightarrow> filled_with P x",
      OF _ assms(1), THEN mp, OF _ refl], intro impI)
  fix loop i buffer pos pos_end m x
  assume ih: "\<And>i b pos pe m x. loop i b pos pe m = Some x \<Longrightarrow> i = ins \<longrightarrow> P m \<longrightarrow> filled_with P x"
    and body: "(if pos < pos_end then
        (case parseString buffer pos of
           Inl e \<Rightarrow> Some (Inl (e, m))
         | Inr (pos, name) \<Rightarrow>
             (case parseString buffer pos of
                Inl e \<Rightarrow> Some (Inl (e, m))
              | Inr (pos, val) \<Rightarrow> loop i buffer pos pos_end (i name val m)))
      else Some (Inr (pos, m))) = Some x" and i: "i = ins" and m: "P m"
  have step: "filled_with P x" if "loop ins b p pe (ins n v m) = Some x" for b p pe n v
    using ih [OF that] ins [OF m] by blast
  show "filled_with P x" using body m unfolding i by (auto split: if_split_asm sum.split_asm prod.split_asm dest: step)
qed

lemma parse_section_filled: "P m \<Longrightarrow> (\<And>n v m. P m \<Longrightarrow> P (ins n v m)) \<Longrightarrow> filled_with P (parse_section msg ins buffer pos m)"
  using parse_pairs_filled [of ins buffer _ _ m _ P]
  by (auto simp: parse_section_def Let_def split: sum.split prod.split option.split)

lemma parse_files_filled:
  assumes "parse_files body buffer pos pos_end m = Some x"
  shows "om_sorted string_lt m \<longrightarrow> filled_with (om_sorted string_lt) x"
proof (rule parse_files.raw_induct [where P = "\<lambda>b b' pos pe m x. om_sorted string_lt m \<longrightarrow> filled_with (om_sorted string_lt) x",
      OF _ assms], intro impI)
  fix loop bd buffer pos pos_end m x
  assume ih: "\<And>b b' pos pe m x. loop b b' pos pe m = Some x \<Longrightarrow> om_sorted string_lt m \<longrightarrow> filled_with (om_sorted string_lt) x"
    and body: "(if pos < pos_end then
        (case parse_file bd buffer pos of
           Inl e \<Rightarrow> Some (Inl (e, m))
         | Inr (pos, name, f) \<Rightarrow> loop bd buffer pos pos_end (map_insert string_lt name f m))
      else Some (Inr (pos, m))) = Some x" and m: "om_sorted string_lt m"
  have step: "filled_with (om_sorted string_lt) x" if "loop b b' p pe (map_insert string_lt n f m) = Some x" for b b' p pe n f
    using ih [OF that] m by (simp add: map_insert_def string_order.sorted_insert)
  show "filled_with (om_sorted string_lt) x" using body m by (auto split: if_split_asm sum.split_asm prod.split_asm dest: step)
qed

lemma typed_in_field: "filled_with P x \<Longrightarrow> (\<And>m. P m \<Longrightarrow> rq_ok (upd m)) \<Longrightarrow> typed snd (in_field upd x)"
  by (auto simp: in_field_def filled_with_def split: sum.splits)

lemma sections_typed:
  assumes r: "rq_ok r"
  shows "typed snd (parseHeaders b pos r)" "typed snd (parseCookieMap b pos r)" "typed snd (parseVars b pos r)"
    "typed snd (parseBody b pos r)" "typed snd (parseFiles b pos r)" "typed snd (parseArgs b pos r)"
proof -
  note fill = typed_in_field [OF parse_section_filled]
  show "typed snd (parseHeaders b pos r)" unfolding parseHeaders_def
    by (rule fill [where P = "om_sorted StringCILess"]) (simp_all add: map_insert_def map_types r)
  show "typed snd (parseCookieMap b pos r)" unfolding parseCookieMap_def
    by (rule fill [where P = "om_sorted string_lt"]) (simp_all add: map_insert_def map_types r)
  show "typed snd (parseVars b pos r)" unfolding parseVars_def
    by (rule fill [where P = "om_sorted string_lt"]) (simp_all add: map_insert_def map_types r)
  show "typed snd (parseArgs b pos r)" unfolding parseArgs_def
    by (rule fill [where P = "\<lambda>_. True"]) (simp_all add: r)
  show "typed snd (parseBody b pos r)" using r by (auto simp: parseBody_def Let_def split: sum.split)
  show "typed snd (parseFiles b pos r)" using r
    by (auto simp: parseFiles_def Let_def split: sum.split option.split
      intro!: typed_in_field [where P = "om_sorted string_lt"] parse_files_filled [THEN mp] map_types)
qed

lemma restore_typed: "rq_ok r \<Longrightarrow> typed id (restore buffer r)"
proof -
  assume r: "rq_ok r"
  let ?e = "r\<lparr>rq_args := [], rq_vars := [], rq_files := [], rq_cookies := [], rq_headers := [], rq_out_headers := []\<rparr>"
  have ok: "rq_ok ?e" using r by (simp add: rq_ok_def)
  show ?thesis unfolding restore_def parse_request_def
    by (rule typed_rbind [OF sections_typed(1) [OF ok]], clarsimp)
      (auto intro!: typed_rbind [OF sections_typed(2)] typed_rbind [OF sections_typed(3)] typed_rbind [OF sections_typed(4)]
        typed_rbind [OF sections_typed(5)] typed_rbind [OF sections_typed(6)])
qed

section \<open>Every request of the program\<close>

text \<open>The request that an operation leaves behind, whether it returns or throws.\<close>

definition after :: "('a \<Rightarrow> ('s, 'u) request) \<Rightarrow> (cpp_error \<times> ('s, 'u) request) + 'a \<Rightarrow> ('s, 'u) request" where
  "after sel x = (case x of Inl (e, r) \<Rightarrow> r | Inr a \<Rightarrow> sel a)"

lemma after_ok [simp]: "rq_ok (after sel x) = typed sel x"
  by (auto simp: after_def typed_def split: sum.splits)

text \<open>
  The operations of \<^verbatim>\<open>Request\<close> that change it, in any order and each with any arguments: the constructor, \<^verbatim>\<open>attach\<close>, \<^verbatim>\<open>restore\<close> and
  \<^verbatim>\<open>reset\<close>, the setters of the response and its output, and the marks that the server and the filters leave on it.
\<close>

inductive request_reachable :: "('s, 'u) request \<Rightarrow> bool" where
  created: "request_reachable request_new"
| cleared: "request_reachable r \<Longrightarrow> request_reachable (reset r)"
| attached: "request_reachable r \<Longrightarrow> request_reachable (after snd (attach cache stream env r))"
| restored: "request_reachable r \<Longrightarrow> request_reachable (after id (restore buffer r))"
| renamed: "request_reachable r \<Longrightarrow> request_reachable (set_script_name url r)"
| status_set: "request_reachable r \<Longrightarrow> request_reachable (after id (setStatus n r))"
| header_set: "request_reachable r \<Longrightarrow> request_reachable (after id (setHeader name val r))"
| cookie_set: "request_reachable r \<Longrightarrow> request_reachable (after id (setCookie c r))"
| cookie_deleted: "request_reachable r \<Longrightarrow> request_reachable (after id (deleteCookie name r))"
| headers_sent: "request_reachable r \<Longrightarrow> request_reachable (after id (sendHeaders r))"
| error_sent: "request_reachable r \<Longrightarrow> request_reachable (after id (sendError n r))"
| written: "request_reachable r \<Longrightarrow> request_reachable (after id (request_write buf r))"
| copied: "request_reachable r \<Longrightarrow> request_reachable (after id (request_write_stream buf r))"
| redirected: "request_reachable r \<Longrightarrow> request_reachable (after id (redirectToPath path r))"
| subject_set: "request_reachable r \<Longrightarrow> request_reachable (after id (setSubject anonymous s r))"
| marked: "request_reachable r \<Longrightarrow> request_reachable (markAsProcessed r)"
| delayed: "request_reachable r \<Longrightarrow> request_reachable (tryAgain delay r)"

lemmas operations_typed = attach_typed restore_typed setStatus_typed setHeader_typed setCookie_typed sendError_typed
  request_write_typed request_write_stream_typed redirectToPath_typed setSubject_typed sendHeadersInternal_typed

lemma request_reachable_ok: "request_reachable r \<Longrightarrow> rq_ok r"
  by (induction rule: request_reachable.induct)
    (simp_all add: operations_typed deleteCookie_def sendHeaders_def markAsProcessed_def tryAgain_def set_script_name_def map_types)

context strict_weak_order
begin

lemma find_member: "om_sorted lt m \<Longrightarrow> (k, v) \<in> set m \<Longrightarrow> eqv q k \<Longrightarrow> om_find lt q m = Some v"
proof (induction m)
  case (Cons kv m)
  obtain k' v' where kv: "kv = (k', v')" by (cases kv)
  have "om_find lt q (kv # m) = Some v" if "(k, v) \<in> set m"
  proof -
    have "lt k' q" using Cons.prems(1,3) that kv eqv_lt_right [of q k] by auto
    then show ?thesis using Cons that kv by simp
  qed
  moreover have "om_find lt q (kv # m) = Some v" if "kv = (k, v)" using that Cons.prems(3) by (simp add: eqv_def)
  ultimately show ?case using Cons.prems(2) by auto
qed simp

end


definition typed_request :: "(unit, unit) request" where
  "typed_request = after id (setHeader ''X-Id'' ''7'' (after snd (attach None (Some \<lparr>io_in = [], io_out = []\<rparr>)
     (Some [''REQUEST_METHOD=GET'', ''HTTP_HOST=example'', ''HTTP_COOKIE=a=b'']) request_new)))"


end
