(* ===== verification/HttpObjects.thy ===== *)
theory HttpObjects
  imports Servlets Security RequestTypes
begin

text \<open>
  The objects that a servlet works with: \<^verbatim>\<open>HttpRequest\<close> (\<^verbatim>\<open>library/http_request.cpp\<close>) and \<^verbatim>\<open>HttpResponse\<close>
  (\<^verbatim>\<open>library/http_response.cpp\<close>). Both hold pointers to the request and to the context of the task; the model gives them the state
  of the task. The context is an \<^verbatim>\<open>AttributesHolder\<close> without listeners (\<^verbatim>\<open>HandlerContextImpl\<close>). The theorem says what a servlet
  can change through them.
\<close>

section \<open>\<^verbatim>\<open>HttpRequest\<close>\<close>

definition http_getEnvVariable :: "('s, 'u, 'c, 'h) task_state \<Rightarrow> string \<Rightarrow> string" where
  "http_getEnvVariable s name = getEnvVariable (ts_request s) name"

definition http_getServerPort :: "('s, 'u, 'c, 'h) task_state \<Rightarrow> u16 result" where
  "http_getServerPort s = getServerPort (ts_request s)"

definition http_getHost :: "('s, 'u, 'c, 'h) task_state \<Rightarrow> string" where
  "http_getHost s = getHost (ts_request s)"

definition http_getServerAddr :: "('s, 'u, 'c, 'h) task_state \<Rightarrow> string" where
  "http_getServerAddr s = getServerAddr (ts_request s)"

definition http_getPathInfo :: "('s, 'u, 'c, 'h) task_state \<Rightarrow> string" where
  "http_getPathInfo s = getPathInfo (ts_request s)"

definition http_getPathTranslated :: "('s, 'u, 'c, 'h) task_state \<Rightarrow> string" where
  "http_getPathTranslated s = getPathTranslated (ts_request s)"

definition http_getScriptName :: "('s, 'u, 'c, 'h) task_state \<Rightarrow> string" where
  "http_getScriptName s = getScriptName (ts_request s)"

definition http_getScriptFilename :: "('s, 'u, 'c, 'h) task_state \<Rightarrow> string" where
  "http_getScriptFilename s = getScriptFilename (ts_request s)"

definition http_getDocumentRoot :: "('s, 'u, 'c, 'h) task_state \<Rightarrow> string" where
  "http_getDocumentRoot s = getDocumentRoot (ts_request s)"

definition http_getRemoteUser :: "('s, 'u, 'c, 'h) task_state \<Rightarrow> string" where
  "http_getRemoteUser s = getRemoteUser (ts_request s)"

definition http_getRemoteAddr :: "('s, 'u, 'c, 'h) task_state \<Rightarrow> string" where
  "http_getRemoteAddr s = getRemoteAddr (ts_request s)"

definition http_getQueryString :: "('s, 'u, 'c, 'h) task_state \<Rightarrow> string" where
  "http_getQueryString s = getQueryString (ts_request s)"

definition http_getRequestMethod :: "('s, 'u, 'c, 'h) task_state \<Rightarrow> string" where
  "http_getRequestMethod s = getRequestMethod (ts_request s)"

definition http_getRequestId :: "('s, 'u, 'c, 'h) task_state \<Rightarrow> string" where
  "http_getRequestId s = getRequestId (ts_request s)"

definition http_getContentLength :: "('s, 'u, 'c, 'h) task_state \<Rightarrow> int result" where
  "http_getContentLength s = getContentLength (ts_request s)"

definition http_getContentType :: "('s, 'u, 'c, 'h) task_state \<Rightarrow> string" where
  "http_getContentType s = getContentType (ts_request s)"

definition http_getURI :: "('s, 'u, 'c, 'h) task_state \<Rightarrow> string" where
  "http_getURI s = getURI (ts_request s)"

definition http_getUrl :: "('s, 'u, 'c, 'h) task_state \<Rightarrow> string" where
  "http_getUrl s = getUrl (ts_request s)"

definition http_countArgs :: "('s, 'u, 'c, 'h) task_state \<Rightarrow> nat" where
  "http_countArgs s = countArgs (ts_request s)"

definition http_hasArg :: "('s, 'u, 'c, 'h) task_state \<Rightarrow> string \<Rightarrow> bool" where
  "http_hasArg s name = hasArg (ts_request s) name"

definition http_getArg :: "('s, 'u, 'c, 'h) task_state \<Rightarrow> string \<Rightarrow> string" where
  "http_getArg s name = getArg (ts_request s) name"

definition http_getArgs :: "('s, 'u, 'c, 'h) task_state \<Rightarrow> string \<Rightarrow> string list" where
  "http_getArgs s name = getArgs (ts_request s) name"

definition http_argNames :: "('s, 'u, 'c, 'h) task_state \<Rightarrow> string list" where
  "http_argNames s = argNames (ts_request s)"

definition http_countHeaders :: "('s, 'u, 'c, 'h) task_state \<Rightarrow> nat" where
  "http_countHeaders s = countHeaders (ts_request s)"

definition http_hasHeader :: "('s, 'u, 'c, 'h) task_state \<Rightarrow> string \<Rightarrow> bool" where
  "http_hasHeader s name = hasHeader (ts_request s) name"

definition http_getHeader :: "('s, 'u, 'c, 'h) task_state \<Rightarrow> string \<Rightarrow> string" where
  "http_getHeader s name = getHeader (ts_request s) name"

definition http_headerNames :: "('s, 'u, 'c, 'h) task_state \<Rightarrow> string list" where
  "http_headerNames s = headerNames (ts_request s)"

definition http_countCookie :: "('s, 'u, 'c, 'h) task_state \<Rightarrow> nat" where
  "http_countCookie s = countCookie (ts_request s)"

definition http_hasCookie :: "('s, 'u, 'c, 'h) task_state \<Rightarrow> string \<Rightarrow> bool" where
  "http_hasCookie s name = hasCookie (ts_request s) name"

definition http_getCookie :: "('s, 'u, 'c, 'h) task_state \<Rightarrow> string \<Rightarrow> string" where
  "http_getCookie s name = getCookie (ts_request s) name"

definition http_cookieNames :: "('s, 'u, 'c, 'h) task_state \<Rightarrow> string list" where
  "http_cookieNames s = cookieNames (ts_request s)"

definition http_countRemoteFiles :: "('s, 'u, 'c, 'h) task_state \<Rightarrow> nat" where
  "http_countRemoteFiles s = countRemoteFiles (ts_request s)"

definition http_hasRemoteFile :: "('s, 'u, 'c, 'h) task_state \<Rightarrow> string \<Rightarrow> bool" where
  "http_hasRemoteFile s name = hasRemoteFile (ts_request s) name"

definition http_hasFile :: "('s, 'u, 'c, 'h) task_state \<Rightarrow> string \<Rightarrow> bool" where
  "http_hasFile s name = hasFile (ts_request s) name"

definition http_remoteFiles :: "('s, 'u, 'c, 'h) task_state \<Rightarrow> string list" where
  "http_remoteFiles s = remoteFiles (ts_request s)"

definition http_remoteFileName :: "('s, 'u, 'c, 'h) task_state \<Rightarrow> string \<Rightarrow> string" where
  "http_remoteFileName s name = remoteFileName (ts_request s) name"

definition http_remoteFileType :: "('s, 'u, 'c, 'h) task_state \<Rightarrow> string \<Rightarrow> string" where
  "http_remoteFileType s name = remoteFileType (ts_request s) name"

definition http_remoteFile :: "('s, 'u, 'c, 'h) task_state \<Rightarrow> string \<Rightarrow> data_buffer result" where
  "http_remoteFile s name = remoteFile (ts_request s) name"

definition http_isSecure :: "('s, 'u, 'c, 'h) task_state \<Rightarrow> bool" where
  "http_isSecure s = isSecure (ts_request s)"

definition http_requestBody :: "('s, 'u, 'c, 'h) task_state \<Rightarrow> data_buffer" where
  "http_requestBody s = rq_body (ts_request s)"

definition http_getSubject :: "('s, subject, 'c, 'h) task_state \<Rightarrow> subject" where
  "http_getSubject s = getSubject anonymousSubject (ts_request s)"

definition http_isUserInRole :: "hash \<Rightarrow> string \<Rightarrow> ('s, subject, 'c, 'h) task_state \<Rightarrow> bool" where
  "http_isUserInRole hash roleName s = isUserInRole hash roleName (ts_request s)"

definition http_createSession :: "bool \<Rightarrow> (string \<Rightarrow> bool) \<Rightarrow> (nat \<Rightarrow> string) \<Rightarrow> int \<Rightarrow> (nat, 'u, 'c, 'h) task_state \<Rightarrow>
    ('a, 'l, 'u) session_manager \<Rightarrow> (nat option \<times> (nat, 'u, 'c, 'h) task_state \<times> ('a, 'l, 'u) session_manager) result" where
  "http_createSession attached crawler uuid now s m =
     rbind (createSession attached crawler uuid now (ts_request s) m) (\<lambda>(ref, r, m). Inr (ref, s\<lparr>ts_request := r\<rparr>, m))"

definition http_getSession :: "bool \<Rightarrow> (string \<Rightarrow> bool) \<Rightarrow> (nat \<Rightarrow> string) \<Rightarrow> int \<Rightarrow> (nat, 'u, 'c, 'h) task_state \<Rightarrow>
    ('a, 'l, 'u) session_manager \<Rightarrow> (nat option \<times> (nat, 'u, 'c, 'h) task_state \<times> ('a, 'l, 'u) session_manager) result" where
  "http_getSession attached crawler uuid now s m =
     rbind (getSession attached crawler uuid now (ts_request s) m) (\<lambda>(ref, r, m). Inr (ref, s\<lparr>ts_request := r\<rparr>, m))"

text \<open>Attributes live in the context of the task, which has no listeners to call.\<close>

definition context_new :: "('a, 'l) attributes" where
  "context_new = attributes_new False"

definition context_getParam :: "string \<Rightarrow> ('a, 'l) attributes \<Rightarrow> 'a option" where
  "context_getParam name c = getAttribute name c"

definition context_setParam :: "string \<Rightarrow> 'a option \<Rightarrow> ('a, 'l) attributes \<Rightarrow> ('a, 'l) attributes" where
  "context_setParam name val c = fst (setAttribute name val c)"

definition http_setAttribute :: "string \<Rightarrow> 'a option \<Rightarrow> ('s, 'u, ('a, 'l) attributes, 'h) task_state \<Rightarrow>
    ('s, 'u, ('a, 'l) attributes, 'h) task_state" where
  "http_setAttribute name val s = s\<lparr>ts_context := fst (setAttribute name val (ts_context s))\<rparr>"

definition http_getAttribute :: "string \<Rightarrow> ('s, 'u, ('a, 'l) attributes, 'h) task_state \<Rightarrow> 'a option" where
  "http_getAttribute name s = getAttribute name (ts_context s)"

definition http_getAttribute_as :: "('a \<Rightarrow> 't result) \<Rightarrow> string \<Rightarrow> ('s, 'u, ('a, 'l) attributes, 'h) task_state \<Rightarrow> 't result" where
  "http_getAttribute_as any_cast name s =
     (case http_getAttribute name s of Some attr \<Rightarrow> any_cast attr | None \<Rightarrow> Inl (RuntimeError ''Attribute not found''))"

definition http_hasAttribute :: "string \<Rightarrow> ('s, 'u, ('a, 'l) attributes, 'h) task_state \<Rightarrow> bool" where
  "http_hasAttribute name s = hasAttribute name (ts_context s)"

definition http_removeAttribute :: "string \<Rightarrow> ('s, 'u, ('a, 'l) attributes, 'h) task_state \<Rightarrow> ('s, 'u, ('a, 'l) attributes, 'h) run" where
  "http_removeAttribute name s =
     (case removeAttribute name (ts_context s) of Inl e \<Rightarrow> Inl (Std e, s) | Inr c \<Rightarrow> Inr (s\<lparr>ts_context := c\<rparr>))"

definition http_removeAllAttributes :: "('s, 'u, ('a, 'l) attributes, 'h) task_state \<Rightarrow> ('s, 'u, ('a, 'l) attributes, 'h) task_state" where
  "http_removeAllAttributes s = s\<lparr>ts_context := removeAllAttributes (ts_context s)\<rparr>"

section \<open>\<^verbatim>\<open>HttpResponse\<close>\<close>

definition http_setCookie :: "cookie \<Rightarrow> ('s, 'u, 'c, 'h) servlet_fun" where
  "http_setCookie c s = on_request s (setCookie c (ts_request s))"

definition http_setStatus :: "u16 \<Rightarrow> ('s, 'u, 'c, 'h) servlet_fun" where
  "http_setStatus status s = on_request s (setStatus status (ts_request s))"

definition http_sendError :: "u16 \<Rightarrow> ('s, 'u, 'c, 'h) servlet_fun" where
  "http_sendError status s = on_request s (sendError status (ts_request s))"

definition http_setHeader :: "string \<Rightarrow> string \<Rightarrow> ('s, 'u, 'c, 'h) servlet_fun" where
  "http_setHeader name val s = on_request s (setHeader name val (ts_request s))"

definition http_write_stream :: "string \<Rightarrow> ('s, 'u, 'c, 'h) servlet_fun" where
  "http_write_stream buf s = on_request s (request_write_stream buf (ts_request s))"

definition http_write :: "string \<Rightarrow> ('s, 'u, 'c, 'h) servlet_fun" where
  "http_write buf s = on_request s (request_write buf (ts_request s))"

definition http_outputHeader :: "string \<Rightarrow> ('s, 'u, 'c, 'h) task_state \<Rightarrow> string" where
  "http_outputHeader name s = outputHeader (ts_request s) name"

definition http_redirectBack :: "('s, 'u, 'c, 'h) servlet_fun" where
  "http_redirectBack s = on_request s (redirectBack (ts_request s))"

definition http_redirectToPath :: "string \<Rightarrow> ('s, 'u, 'c, 'h) servlet_fun" where
  "http_redirectToPath path s = on_request s (redirectToPath path (ts_request s))"

definition http_forwardToPath :: "string \<Rightarrow> ('s, 'u, 'c, 'h) servlet_fun" where
  "http_forwardToPath path s = Inl (forwardToPath path, s)"

definition http_setContentType :: "string \<Rightarrow> ('s, 'u, 'c, 'h) servlet_fun" where
  "http_setContentType type s = on_request s (setContentType type (ts_request s))"

definition http_setContentEncoding :: "string \<Rightarrow> ('s, 'u, 'c, 'h) servlet_fun" where
  "http_setContentEncoding encoding s = on_request s (setContentEncoding encoding (ts_request s))"

text \<open>The output operator of the response stream.\<close>

definition stream_put :: "string \<Rightarrow> ('s, 'u, 'c, 'h) task_state \<Rightarrow> ('s, 'u, 'c, 'h) task_state" where
  "stream_put t s = s\<lparr>ts_stream := ts_stream s @ t\<rparr>"

section \<open>What a servlet does\<close>

text \<open>The state after a call, also when it throws: a servlet may catch the exception and go on.\<close>

definition left :: "('s, 'u, 'c, 'h) run \<Rightarrow> ('s, 'u, 'c, 'h) task_state" where
  "left x = (case x of Inl (e, s) \<Rightarrow> s | Inr s \<Rightarrow> s)"

text \<open>One call; the session calls work with whatever state the manager has at that time.\<close>

inductive servlet_call :: "(nat, 'u, ('a, 'l) attributes, 'h) task_state \<Rightarrow> (nat, 'u, ('a, 'l) attributes, 'h) task_state \<Rightarrow> bool" where
  "servlet_call s (left (http_setCookie c s))"
| "servlet_call s (left (http_setStatus status s))"
| "servlet_call s (left (http_sendError status s))"
| "servlet_call s (left (http_setHeader name val s))"
| "servlet_call s (left (http_write_stream buf s))"
| "servlet_call s (left (http_write buf s))"
| "servlet_call s (left (http_redirectBack s))"
| "servlet_call s (left (http_redirectToPath path s))"
| "servlet_call s (left (http_forwardToPath path s))"
| "servlet_call s (left (http_setContentType type s))"
| "servlet_call s (left (http_setContentEncoding encoding s))"
| "servlet_call s (stream_put t s)"
| "servlet_call s (stream_reset s)"
| "servlet_call s (left (stream_flush s))"
| "servlet_call s (http_setAttribute name attr s)"
| "servlet_call s (left (http_removeAttribute name s))"
| "servlet_call s (http_removeAllAttributes s)"
| "http_createSession attached crawler uuid now s (m :: ('a, 'l, 'u) session_manager) = Inr (ref, s', m') \<Longrightarrow> servlet_call s s'"
| "http_getSession attached crawler uuid now s (m :: ('a, 'l, 'u) session_manager) = Inr (ref, s', m') \<Longrightarrow> servlet_call s s'"

definition servlet_runs :: "(nat, 'u, ('a, 'l) attributes, 'h) task_state \<Rightarrow> (nat, 'u, ('a, 'l) attributes, 'h) task_state \<Rightarrow> bool" where
  "servlet_runs = servlet_call\<^sup>*\<^sup>*"

section \<open>What it cannot change\<close>

definition response_only :: "('s, 'u) request \<Rightarrow> ('s, 'u) request \<Rightarrow> bool" where
  "response_only r r' \<longleftrightarrow>
     rq_vars r' = rq_vars r \<and> rq_headers r' = rq_headers r \<and> rq_cookies r' = rq_cookies r \<and> rq_args r' = rq_args r \<and>
     rq_files r' = rq_files r \<and> rq_body r' = rq_body r \<and> rq_subject r' = rq_subject r \<and> rq_processed r' = rq_processed r \<and>
     rq_delay r' = rq_delay r \<and>
     (rq_headers_sent r \<longrightarrow> rq_headers_sent r' \<and> rq_status r' = rq_status r \<and> rq_out_headers r' = rq_out_headers r \<and>
        rq_out_cookies r' = rq_out_cookies r) \<and>
     (\<exists>t. rq_stream r' = map_option (\<lambda>st. st\<lparr>io_out := io_out st @ t\<rparr>) (rq_stream r))"

lemma response_only_refl [simp]: "response_only r r"
  by (auto simp: response_only_def option.map_ident intro: exI [of _ "[]"])

lemma response_only_trans: "response_only r r' \<Longrightarrow> response_only r' r'' \<Longrightarrow> response_only r r''"
  unfolding response_only_def by (auto simp: option.map_comp comp_def)

lemma response_only_stream [simp]: "response_only r (stream_write t r)"
  by (cases "rq_stream r") (auto simp: response_only_def stream_write_def)

text \<open>Before the headers are sent, the response itself is free to change.\<close>

lemma response_only_open:
  "\<not> rq_headers_sent r \<Longrightarrow> response_only r (r\<lparr>rq_status := a, rq_out_headers := b, rq_out_cookies := c\<rparr>)"
  "\<not> rq_headers_sent r \<Longrightarrow> response_only r (r\<lparr>rq_status := a\<rparr>)"
  "\<not> rq_headers_sent r \<Longrightarrow> response_only r (r\<lparr>rq_out_headers := b\<rparr>)"
  "\<not> rq_headers_sent r \<Longrightarrow> response_only r (r\<lparr>rq_out_cookies := c\<rparr>)"
  "response_only r (r\<lparr>rq_headers_sent := True\<rparr>)" "response_only r (r\<lparr>rq_session := ss\<rparr>)"
  by (auto simp: response_only_def option.map_ident intro: exI [of _ "[]"])

definition keeps :: "('s, 'u) request \<Rightarrow> ('s, 'u) outcome \<Rightarrow> bool" where
  "keeps r x \<longleftrightarrow> response_only r (after id x)"

lemma keeps_simps [simp]: "keeps r (Inl (e, r')) = response_only r r'" "keeps r (Inr r') = response_only r r'"
  by (simp_all add: keeps_def after_def)

lemma keeps_rbind: "keeps r x \<Longrightarrow> (\<And>r'. x = Inr r' \<Longrightarrow> response_only r r' \<Longrightarrow> keeps r (f r')) \<Longrightarrow> keeps r (rbind x f)"
  by (cases x) auto

lemma keeps_trans: "response_only r r' \<Longrightarrow> keeps r' x \<Longrightarrow> keeps r x"
  unfolding keeps_def by (rule response_only_trans)

lemma keeps_sent: "keeps r x \<Longrightarrow> keeps r (rbind x (\<lambda>r. Inr (r\<lparr>rq_headers_sent := True\<rparr>)))"
  by (auto intro!: keeps_rbind dest: response_only_trans [OF _ response_only_open(5)])

lemma send_cookies_keeps: "keeps r (send_cookies_loop cs r)"
proof (induction cs r rule: send_cookies_loop.induct)
  case (2 k c cs r)
  show ?case
  proof (cases "cookie_toString c")
    case (Inr t)
    have "keeps r (send_cookies_loop cs (stream_write (t @ [CHR 0x0D, CHR 0x0A]) (stream_write ''Set-Cookie: '' r)))"
      by (rule keeps_trans [OF _ 2 [OF refl]]) (simp add: stream_write_append)
    then show ?thesis using Inr by simp
  qed simp
qed simp

lemma sendHeadersInternal_keeps: "keeps r (sendHeadersInternal r)"
proof (cases "rq_headers_sent r")
  case False
  let ?r = "r\<lparr>rq_out_headers := om_assign StringCILess ''Status'' (status_line (rq_status r)) (rq_out_headers r)\<rparr>"
  have r: "response_only r ?r" using False by (rule response_only_open)
  have "keeps ?r (if rq_stream ?r \<noteq> None then rbind (send_cookies_loop (rq_out_cookies ?r) (send_headers_loop (rq_out_headers ?r) ?r))
      (\<lambda>r. Inr (stream_write [CHR 0x0D, CHR 0x0A] r)) else Inr ?r)"
    by (auto intro!: keeps_rbind keeps_trans [OF _ send_cookies_keeps] simp: send_headers_loop_eq
      dest: response_only_trans [OF _ response_only_stream])
  then have "keeps ?r (sendHeadersInternal r)"
    unfolding sendHeadersInternal_def Let_def if_not_P [OF False] by (rule keeps_sent)
  then show ?thesis by (rule keeps_trans [OF r])
qed (simp add: sendHeadersInternal_def)

lemma setters_keep: "keeps r (setCookie c r)" "keeps r (setStatus n r)" "keeps r (setHeader name val r)"
  by (simp_all add: setCookie_def setStatus_def setHeader_def response_only_open)

lemma redirect_keeps: "keeps r (redirectToPath path r)"
  unfolding redirectToPath_def by (auto intro!: keeps_rbind setters_keep intro: keeps_trans [OF _ setters_keep(3)])

lemma sendError_keeps: "keeps r (sendError n r)"
proof (cases "rq_headers_sent r")
  case False
  let ?r = "r\<lparr>rq_out_cookies := [], rq_status := n, rq_out_headers := fst (om_insert StringCILess ''Content-type'' ''text/html'' [])\<rparr>"
  have "response_only r ?r" using False by (auto simp: response_only_def option.map_ident intro: exI [of _ "[]"])
  then have "keeps r (sendHeadersInternal ?r)" by (rule keeps_trans [OF _ sendHeadersInternal_keeps])
  then show ?thesis using False unfolding sendError_def
    by (auto intro!: keeps_rbind dest: response_only_trans [OF _ response_only_stream])
qed (simp add: sendError_def)

lemma write_keeps: "keeps r (request_write buf r)" "keeps r (request_write_stream buf r)"
  unfolding request_write_def request_write_stream_def sendHeaders_def
  by (auto intro!: keeps_rbind sendHeadersInternal_keeps dest: response_only_trans [OF _ response_only_stream])

lemma start_session_keeps:
  "case start_session crawler uuid now r m of Inl (e, r', m') \<Rightarrow> response_only r r' | Inr (ref, r', m') \<Rightarrow> response_only r r'"
  using setters_keep(1) [of r] by (auto simp: start_session_def split: option.split sum.split prod.split) (metis keeps_simps)+

lemma start_session_typed:
  "rq_ok r \<Longrightarrow> case start_session crawler uuid now r m of Inl (e, r', m') \<Rightarrow> rq_ok r' | Inr (ref, r', m') \<Rightarrow> rq_ok r'"
  using setCookie_typed [of r] by (auto simp: start_session_def split: option.split sum.split prod.split) (metis typed_simps id_apply)+

section \<open>Every call\<close>

text \<open>The request after a call differs in its response only, and has the type when it had it before.\<close>

definition harmless :: "('s, 'u) request \<Rightarrow> ('s, 'u) request \<Rightarrow> bool" where
  "harmless r r' \<longleftrightarrow> response_only r r' \<and> (rq_ok r \<longrightarrow> rq_ok r')"

lemma harmless_refl [simp]: "harmless r r"
  by (simp add: harmless_def)

lemma harmless_trans: "harmless r r' \<Longrightarrow> harmless r' r'' \<Longrightarrow> harmless r r''"
  unfolding harmless_def using response_only_trans by blast

lemma harmless_outcome: "keeps r x \<Longrightarrow> (rq_ok r \<Longrightarrow> typed id x) \<Longrightarrow> harmless r (after id x)"
  by (auto simp: harmless_def keeps_def)

lemma left_on_request: "left (on_request s x) = s\<lparr>ts_request := after id x\<rparr>"
  by (auto simp: left_def on_request_def after_def split: sum.split prod.split)

lemma left_Inl [simp]: "left (Inl (e, s)) = s"
  by (simp add: left_def)

lemma harmless_session: "harmless r q \<Longrightarrow> harmless r (q\<lparr>rq_session := v\<rparr>)"
  by (erule harmless_trans) (simp add: harmless_def response_only_open(6))

lemma assign_session_harmless:
  "case x of Inl (e, r', m') \<Rightarrow> harmless r r' | Inr (ref, r', m') \<Rightarrow> harmless r r' \<Longrightarrow> assign_session x old = Inr (r'', m'') \<Longrightarrow> harmless r r''"
  by (auto simp: assign_session_def split: sum.splits prod.splits if_splits intro: harmless_session)

lemma start_session_harmless:
  "case start_session crawler uuid now r m of Inl (e, r', m') \<Rightarrow> harmless r r' | Inr (ref, r', m') \<Rightarrow> harmless r r'"
  using start_session_keeps [where r = r and crawler = crawler and uuid = uuid and now = now and m = m] start_session_typed [where r = r and crawler = crawler and uuid = uuid and now = now and m = m]
  by (auto simp: harmless_def split: sum.splits prod.splits)

lemma manager_harmless:
  "case sm_create crawler uuid now r m of Inl (e, r', m') \<Rightarrow> harmless r r' | Inr (ref, r', m') \<Rightarrow> harmless r r'"
  "case sm_get crawler uuid now r m of Inl (e, r', m') \<Rightarrow> harmless r r' | Inr (ref, r', m') \<Rightarrow> harmless r r'"
  by (simp_all add: sm_create_def sm_get_def Let_def start_session_harmless split: option.split)

lemma session_calls_harmless:
  "createSession attached crawler uuid now r m = Inr (ref, r', m') \<Longrightarrow> harmless r r'"
  "getSession attached crawler uuid now r m = Inr (ref, r', m') \<Longrightarrow> harmless r r'"
  by (auto simp: createSession_def getSession_def rbind_eq_Inr_conv split: if_splits
    dest: assign_session_harmless [OF manager_harmless(1)] assign_session_harmless [OF manager_harmless(2)])

lemma servlet_call_harmless:
  "servlet_call s s' \<Longrightarrow> harmless (ts_request s) (ts_request s') \<and> ts_handlers s' = ts_handlers s"
proof (induction rule: servlet_call.induct)
  case (18 attached crawler uuid now s m ref s' m')
  then show ?case by (auto simp: http_createSession_def rbind_eq_Inr_conv dest: session_calls_harmless)
next
  case (19 attached crawler uuid now s m ref s' m')
  then show ?case by (auto simp: http_getSession_def rbind_eq_Inr_conv dest: session_calls_harmless)
next
  case (14 s)
  then show ?case
    by (simp add: stream_flush_def left_on_request harmless_outcome write_keeps request_write_stream_typed) (simp add: left_def)
next
  case (16 name s)
  then show ?case by (simp add: http_removeAttribute_def left_def split: sum.split)
qed (simp_all add: http_setCookie_def http_setStatus_def http_sendError_def http_setHeader_def http_write_stream_def http_write_def
  http_redirectBack_def http_redirectToPath_def http_setContentType_def http_setContentEncoding_def left_on_request
  redirectBack_def setContentType_def setContentEncoding_def harmless_outcome write_keeps sendError_keeps redirect_keeps setters_keep
  operations_typed http_forwardToPath_def stream_put_def stream_reset_def http_setAttribute_def http_removeAllAttributes_def)

lemma servlet_runs_harmless:
  assumes "servlet_runs s s'"
  shows "harmless (ts_request s) (ts_request s')" "ts_handlers s' = ts_handlers s"
  using assms unfolding servlet_runs_def
  by (induction rule: rtranclp_induct) (auto dest: servlet_call_harmless intro: harmless_trans)


definition servlet_start :: "(nat, unit, (unit, unit) attributes, nat) task_state" where
  "servlet_start = \<lparr>ts_request = request_new\<lparr>rq_stream := Some \<lparr>io_in = ''x'', io_out = []\<rparr>, rq_args := [(''q'', ''1'')]\<rparr>,
     ts_stream = [], ts_context = context_new, ts_handlers = []\<rparr>"


end
