(* ===== verification/ExampleApp.thy ===== *)
theory ExampleApp
  imports ComponentLoads HttpObjects
begin

text \<open>
  The example application (\<^verbatim>\<open>example/example.cpp\<close>): two handlers, a servlet, a filter and a realm, written against
  the interfaces of the library. The output to the console is left out.

  The locale states what a realm with passwords promises to the authenticators of the theory Security; the
  realm of the library, which knows nobody, and the realm of the example are interpretations of it.
\<close>

section \<open>The realm\<close>

record user_data =
  ud_password :: string
  ud_roles :: "string list"

fun realm_roles :: "xml_config \<Rightarrow> string list \<Rightarrow> string list \<Rightarrow> string list result" where
  "realm_roles cfg [] roles = Inr roles"
| "realm_roles cfg (r # rs) roles =
     rbind (cfg_asString_default cfg (r @ ''/@name'') []) (\<lambda>name. realm_roles cfg rs (roles @ [name]))"

text \<open>The \<^verbatim>\<open>unordered_map\<close> of the users: an insertion under a name that is there already has no effect.\<close>

fun realm_users :: "xml_config \<Rightarrow> string list \<Rightarrow> (string \<times> user_data) list \<Rightarrow> (string \<times> user_data) list result" where
  "realm_users cfg [] users = Inr users"
| "realm_users cfg (u # us) users =
     rbind (cfg_asString_default cfg (u @ ''/@name'') []) (\<lambda>username.
     rbind (cfg_asString_default cfg (u @ ''/@password'') []) (\<lambda>password.
     rbind (rbind (cfg_subKeys cfg (u @ ''/role[count(@name)=1]'')) (\<lambda>ks. realm_roles cfg ks [])) (\<lambda>roles.
       realm_users cfg us
         (if map_of users username = None then users @ [(username, \<lparr>ud_password = password, ud_roles = roles\<rparr>)]
          else users))))"

definition example_realm_new :: "xml_config \<Rightarrow> string \<Rightarrow> (string \<times> user_data) list result" where
  "example_realm_new cfg path =
     rbind (cfg_subKeys cfg (path @ ''/users/user[count(@name)=1]'')) (\<lambda>users. realm_users cfg users [])"

fun add_roles :: "hash \<Rightarrow> string list \<Rightarrow> subject \<Rightarrow> subject result" where
  "add_roles hash [] s = Inr s"
| "add_roles hash (r # rs) s = rbind (setPrincipal hash r s) (add_roles hash rs)"

text \<open>The result with the line for the log, if the login succeeds.\<close>

definition login_line :: "string \<Rightarrow> subject \<Rightarrow> string" where
  "login_line username subject =
     ''User '' @ c_str username @ '' is logged in as '' @
     c_str (concat (map (\<lambda>p. p @ '' '') (getPrincipals subject []))) @ [CHR 0x0A]"

definition example_authenticate :: "hash \<Rightarrow> (string \<times> user_data) list \<Rightarrow> string \<Rightarrow> string \<Rightarrow>
    (subject option \<times> string option) result" where
  "example_authenticate hash users username credentials =
     (case map_of users username of
        Some d \<Rightarrow>
          if credentials = ud_password d then
            rbind (add_roles hash (ud_roles d) subject_new) (\<lambda>subject.
              let subject = setReadOnly subject in Inr (Some subject, Some (login_line username subject)))
          else Inr (None, None)
      | None \<Rightarrow> Inr (None, None))"

definition example_getSubject :: "hash \<Rightarrow> (string \<times> user_data) list \<Rightarrow> string \<Rightarrow> subject option result" where
  "example_getSubject hash users username =
     (case map_of users username of
        Some d \<Rightarrow> rbind (add_roles hash (ud_roles d) subject_new) (\<lambda>subject. Inr (Some (setReadOnly subject)))
      | None \<Rightarrow> Inr None)"

section \<open>Loading\<close>

definition realm_onLoad :: "('c \<Rightarrow> bool) \<Rightarrow> xml_config \<Rightarrow> string \<Rightarrow> 'c onload" where
  "realm_onLoad is_logger cfg path =
     configured (cfg_asString cfg (path @ ''/logger'')) (\<lambda>loggerComponentName.
       if loggerComponentName = [] then LoadThrow ''logger is not configured''
       else need is_logger loggerComponentName (''cannot get component '' @ loggerComponentName) LoadDone)"

definition realm_name :: "xml_config \<Rightarrow> string \<Rightarrow> string result" where
  "realm_name cfg path = cfg_asString_default cfg (path @ ''/name'') ''ExampleRealm''"

definition example_onLoad :: "('c \<Rightarrow> bool) \<Rightarrow> xml_config \<Rightarrow> string \<Rightarrow> 'c onload" where
  "example_onLoad is_logger cfg path =
     configured (cfg_asString cfg (path @ ''/logger'')) (\<lambda>loggerComponentName.
       need is_logger loggerComponentName (''cannot get component '' @ loggerComponentName) LoadDone)"

section \<open>The handlers\<close>

text \<open>
  The first handler. Its state is that of the authenticators, whose context is the session manager; the
  parameters of the handler context are a second part of it. Every \<^verbatim>\<open>req->getSession()\<close> is a reference of its
  own, which ends with the expression.
\<close>

definition list_pairs :: "string \<Rightarrow> (string \<times> string) list \<Rightarrow> string" where
  "list_pairs kind xs = concat (map (\<lambda>(n, v). kind @ '' '' @ n @ '' has value '' @ v @ [CHR 0x0A]) xs)"

definition example_listing :: "('s, 'u) request \<Rightarrow> string" where
  "example_listing r =
     list_pairs ''arg'' (map (\<lambda>i. (i, getArg r i)) (argNames r)) @
     list_pairs ''header'' (map (\<lambda>i. (i, getHeader r i)) (headerNames r)) @
     list_pairs ''cookie'' (map (\<lambda>i. (i, getCookie r i)) (cookieNames r)) @
     ''Remote User: '' @ getRemoteUser r @ [CHR 0x0A] @ ''ExampleHandler: test ok 222'' @ [CHR 0x0A]"

definition html_source :: string where
  "html_source =
     [CHR 0x0A] @ ''<table border='' @ [CHR 0x22] @ ''1'' @ [CHR 0x22] @ ''>'' @ [CHR 0x0A, CHR 0x09] @
     ''<tr><td>1</td><td>2</td></tr>'' @ [CHR 0x0A, CHR 0x09] @
     ''<tr><td>a</td><td>b</td></tr>'' @ [CHR 0x0A] @ ''</table>'' @ [CHR 0x0A]"

definition example_session :: "authenticator \<Rightarrow> ('l, 'h) auth_state \<Rightarrow> ('l, 'h, unit) auth_run" where
  "example_session A s =
     rbind (with_session A (\<lambda>ref s.
       case session_at ref s of
         None \<Rightarrow> Inl (Std NullPointer, s)
       | Some x \<Rightarrow> Inr ((), stream_put (''session_id='' @ se_id x @ [CHR 0x0A]) s)) s) (\<lambda>(_, s).
     rbind (if hasArg (ts_request s) ''a1''
            then with_session A (\<lambda>ref s.
              case session_at ref s of
                None \<Rightarrow> Inl (Std NullPointer, s)
              | Some _ \<Rightarrow> Inr ((), session_set ref ''a1'' (AnyString (getArg (ts_request s) ''a1'')) s)) s
            else Inr ((), s)) (\<lambda>(_, s).
     rbind (with_session A (\<lambda>ref s.
       case session_at ref s of
         None \<Rightarrow> Inl (Std NullPointer, s)
       | Some x \<Rightarrow> Inr (hasAttribute ''a1'' (se_attributes x), s)) s) (\<lambda>(b, s).
     if b then
       with_session A (\<lambda>ref s.
         case session_at ref s of
           None \<Rightarrow> Inl (Std NullPointer, s)
         | Some x \<Rightarrow>
             rbind (lift_result (getAttribute_as any_string ''a1'' (se_attributes x)) s) (\<lambda>(v, s).
               Inr ((), stream_put (''session attribute a1='' @ v) s))) s
     else Inr ((), s))))"

definition example_handleRequest :: "authenticator \<Rightarrow> (session_any, 'p) attributes \<Rightarrow> ('l, 'h) auth_state \<Rightarrow>
    ('l, 'h, (session_any, 'p) attributes) auth_run" where
  "example_handleRequest A params s =
     (let s = stream_put (example_listing (ts_request s)) s in
      rbind (with_session A (\<lambda>ref s. Inr (ref \<noteq> None, s)) s) (\<lambda>(b, s).
      rbind (if b then example_session A s
             else Inr ((), stream_put (''session is not supported in current configuration'' @ [CHR 0x0A]) s)) (\<lambda>(_, s).
      let s = stream_put html_source s in
      rbind (request_do (setStatus 200 (ts_request s)) s) (\<lambda>(_, s).
      Inr (context_setParam ''param1'' (Some (AnyString ''hi!'')) params, s)))))"

definition example2_handleRequest :: "('s, 'u, 'c, 'h) task_state \<Rightarrow> ('s, 'u, 'c, 'h) run" where
  "example2_handleRequest s =
     (let s = stream_put (''ExampleHandler2: OK'' @ [CHR 0x0A]) s; r = ts_request s
      in if getScriptName r = ''/upload'' \<and> getRequestMethod r = ''POST'' then
           (case rbind (remoteFile r ''file'') db_toString of
              Inl e \<Rightarrow> Inl (Std e, s)
            | Inr _ \<Rightarrow> Inr s)
         else Inr s)"

section \<open>The servlet and the filter\<close>

definition example_doGet :: "regex \<Rightarrow> ('h, 'f) handler_set \<Rightarrow> ('s, 'u, 'c, 'h) handler_fun \<Rightarrow> ('s, 'u, 'c, 'h) servlet_fun" where
  "example_doGet rx hs exec s =
     includePath rx hs exec ''/test'' (stream_put ([CHR 0x0A] @ ''test ok 33 (servlet)'' @ [CHR 0x0A]) s)"

definition example_servlet :: "regex \<Rightarrow> ('h, 'f) handler_set \<Rightarrow> ('s, 'u, 'c, 'h) handler_fun \<Rightarrow> ('s, 'u, 'c, 'h) servlet" where
  "example_servlet rx hs exec = servlet_base\<lparr>doGet := example_doGet rx hs exec\<rparr>"

text \<open>The header is set after the rest of the chain; an exception of \<^verbatim>\<open>setHeader\<close> is caught, one of the chain is not.\<close>

definition example_doFilter :: "(('s, 'u, 'c, 'h) task_state \<Rightarrow> ('s, 'u, 'c, 'h) run) \<Rightarrow> ('s, 'u, 'c, 'h) task_state \<Rightarrow>
    ('s, 'u, 'c, 'h) run" where
  "example_doFilter continue s =
     rbind (continue s) (\<lambda>s.
       case on_request s (setHeader ''X-TestHeader'' ''TestValue'' (ts_request s)) of
         Inl (_, s) \<Rightarrow> Inr s
       | Inr s \<Rightarrow> Inr s)"

section \<open>Realms with passwords\<close>

text \<open>
  What an authenticator may rely on: a realm gives a subject only for a user it knows and the password of this user, with
  the roles of the user as principals.
\<close>

locale password_realm =
  fixes R :: realm
    and users :: "string \<Rightarrow> (string \<times> string list) option"
  assumes authenticate_known: "rl_authenticate R u c = Some subject \<Longrightarrow> users u = Some (c, sj_principals subject)"
begin

lemma login_refused: "au_realm A = Some R \<Longrightarrow> (\<And>roles. users u \<noteq> Some (c, roles)) \<Longrightarrow> doLogin A u c s = Inr (False, s)"
  using authenticate_known by (auto simp: doLogin_def split: option.splits)

lemma login_grants:
  assumes "au_realm A = Some R" "doLogin A u c s = Inr (True, s')"
  shows "\<exists>roles. users u = Some (c, roles) \<and> anonymous \<notin> set roles \<and>
    (\<forall>role. isUserInRole (au_hash A) role (ts_request s') \<longleftrightarrow> au_hash A role \<in> au_hash A ` set roles)"
proof -
  obtain subject x where a: "rl_authenticate R u c = Some subject" "\<not> isAnonymous subject"
      "au_setSubject A subject s = Inr (x, s')"
    using assms by (auto simp: doLogin_def rbind_eq_Inr_conv split: option.splits)
  then have "rq_subject (ts_request s') = Some subject" by (blast intro: au_setSubject_subject)
  then show ?thesis
    using authenticate_known [OF a(1)] a(2)
    by (auto simp: isUserInRole_def getSubject_def hasPrincipal_def hasPrincipal_hash_def isAnonymous_def)
qed

end

interpretation library_realm: password_realm "realm_default name" "\<lambda>_. None"
  by unfold_locales (simp add: realm_default_def)

section \<open>The realm of the example\<close>

lemma add_roles_append:
  "add_roles hash rs s = Inr s' \<Longrightarrow> sj_principals s' = sj_principals s @ rs \<and> sj_readOnly s' = sj_readOnly s"
  by (induction rs arbitrary: s) (auto simp: rbind_eq_Inr_conv setPrincipal_def split: if_splits)

lemma add_roles_distinct:
  "\<not> sj_readOnly s \<Longrightarrow> distinct (map hash (sj_principals s)) \<Longrightarrow>
   add_roles hash rs s =
     (if distinct (map hash (sj_principals s @ rs)) then Inr (s\<lparr>sj_principals := sj_principals s @ rs\<rparr>)
      else Inl (RuntimeError ''Duplicate principal''))"
proof (induction rs arbitrary: s)
  case (Cons r rs)
  show ?case
  proof (cases "hash r \<in> hash ` set (sj_principals s)")
    case True
    then have "hasPrincipal_hash hash (hash r) s" by (auto simp: hasPrincipal_hash_def)
    then show ?thesis using True Cons.prems by (auto simp: setPrincipal_def)
  next
    case False
    then have "\<not> hasPrincipal_hash hash (hash r) s" by (auto simp: hasPrincipal_hash_def)
    then show ?thesis using False Cons.prems Cons.IH [of "s\<lparr>sj_principals := sj_principals s @ [r]\<rparr>"]
      by (simp add: setPrincipal_def)
  qed
qed simp

lemma add_roles_new:
  "add_roles hash rs subject_new =
     (if distinct (map hash rs) then Inr \<lparr>sj_principals = rs, sj_readOnly = False\<rparr>
      else Inl (RuntimeError ''Duplicate principal''))"
  using add_roles_distinct [of subject_new hash rs] by (simp add: subject_new_def)

text \<open>
  The realm as the authenticators see it, for users whose roles have different hash codes; for others, both operations
  throw (\<open>duplicate_role_locks_out\<close>).
\<close>

definition example_realm :: "hash \<Rightarrow> string \<Rightarrow> (string \<times> user_data) list \<Rightarrow> realm" where
  "example_realm hash name users =
     \<lparr>rl_name = name,
      rl_authenticate = (\<lambda>u c. case example_authenticate hash users u c of Inr (x, _) \<Rightarrow> x | Inl _ \<Rightarrow> None),
      rl_getSubject = (\<lambda>u. case example_getSubject hash users u of Inr x \<Rightarrow> x | Inl _ \<Rightarrow> None)\<rparr>"

definition user_table :: "(string \<times> user_data) list \<Rightarrow> string \<Rightarrow> (string \<times> string list) option" where
  "user_table users u = map_option (\<lambda>d. (ud_password d, ud_roles d)) (map_of users u)"

interpretation example: password_realm "example_realm hash name users" "user_table users"
  by unfold_locales
    (auto simp: example_realm_def example_authenticate_def user_table_def rbind_eq_Inr_conv setReadOnly_def
      subject_new_def Let_def dest!: add_roles_append split: sum.splits option.splits if_splits)

section \<open>Properties of the realm\<close>

lemma au_setSubject_plain:
  "\<not> au_attached A \<Longrightarrow> rq_session (ts_request s) = None \<Longrightarrow> rq_subject (ts_request s) = None \<Longrightarrow> \<not> isAnonymous subject \<Longrightarrow>
   au_setSubject A subject s = Inr ((), s\<lparr>ts_request := (ts_request s)\<lparr>rq_subject := Some subject\<rparr>\<rparr>)"
  by (simp add: au_setSubject_def with_session_def getSession_def request_do_def setSubject_def leave_def)

lemma duplicate_role_locks_out:
  assumes "map_of users u = Some d" "\<not> distinct (map hash (ud_roles d))"
  shows "example_authenticate hash users u (ud_password d) = Inl (RuntimeError ''Duplicate principal'') \<and>
    example_getSubject hash users u = Inl (RuntimeError ''Duplicate principal'')"
  using assms by (simp add: example_authenticate_def example_getSubject_def add_roles_new)


section \<open>Properties of the handlers\<close>

lemma drop_hold: "ref \<in> set (sm_held m) \<Longrightarrow> drop_ref ref (hold ref m) = m"
  by (simp add: drop_ref_def hold_def referenced_def)

lemma drop_update_hold:
  "ref \<in> set (sm_held m) \<Longrightarrow> drop_ref ref (sm_update ref f (hold ref m)) = sm_update ref f m"
  by (simp add: drop_ref_def hold_def referenced_def sm_update_def)

lemma with_own_session:
  assumes "rq_session (ts_request s) = Some ref"
  shows "with_session A f s =
    (case f (Some ref) (s\<lparr>ts_context := hold ref (ts_context s)\<rparr>) of
       Inl (e, s) \<Rightarrow> Inl (e, leave (Some ref) s)
     | Inr (x, s) \<Rightarrow> Inr (x, leave (Some ref) s))"
  using assms by (simp add: with_session_def getSession_def)

lemma setAttribute_found:
  "getAttribute name (fst (setAttribute name (Some v) h)) = Some v" if "om_sorted string_lt (at_values h)"
  using that by (simp add: getAttribute_def setAttribute_def string_order.find_assign)

lemma example_session_run:
  assumes "rq_session (ts_request s) = Some ref" "ref \<in> set (sm_held (ts_context s))" "sm_objects (ts_context s) ref = Some x"
    and "om_sorted string_lt (at_values (se_attributes x))" "hasArg (ts_request s) ''a1''"
  defines "v \<equiv> getArg (ts_request s) ''a1''"
  defines "attrs \<equiv> fst (setAttribute ''a1'' (Some (AnyString v)) (se_attributes x))"
  shows "example_session A s =
    Inr ((), s\<lparr>ts_context := sm_update ref (\<lambda>x. x\<lparr>se_attributes := attrs\<rparr>) (ts_context s),
      ts_stream := ts_stream s @ ''session_id='' @ se_id x @ [CHR 0x0A] @ ''session attribute a1='' @ v\<rparr>)"
proof -
  let ?set = "\<lambda>y. y\<lparr>se_attributes := fst (setAttribute ''a1'' (Some (AnyString v)) (se_attributes y))\<rparr>"
  let ?m' = "sm_update ref (\<lambda>x. x\<lparr>se_attributes := attrs\<rparr>) (ts_context s)"
  have att: "getAttribute ''a1'' attrs = Some (AnyString v)"
    using setAttribute_found [OF assms(4)] by (simp add: attrs_def)
  then have has: "hasAttribute ''a1'' attrs" by (auto simp: getAttribute_def hasAttribute_def split: option.splits)
  have upd: "drop_ref ref (sm_update ref ?set (hold ref (ts_context s))) = ?m'"
    using assms(2,3) by (simp add: drop_update_hold) (simp add: sm_update_def attrs_def)
  have m': "sm_objects ?m' ref = Some (x\<lparr>se_attributes := attrs\<rparr>)" "ref \<in> set (sm_held ?m')"
    using assms(2,3) by (simp_all add: sm_update_def)
  have h: "sm_objects (hold ref y) = sm_objects y" for y :: "(session_any, 'a, subject) session_manager"
    by (simp add: hold_def)
  show ?thesis
    using assms(1-3,5) has att m' upd
    by (simp add: example_session_def with_own_session session_at_def h leave_def drop_hold stream_put_def session_set_def
        session_do_def getAttribute_as_def lift_result_def flip: v_def)
qed

text \<open>
  The example handler, for a request with a session whose headers are not sent: it answers with status 200, the
  argument \<^verbatim>\<open>a1\<close> becomes the attribute \<^verbatim>\<open>a1\<close> of the session and appears in the response, which is the
  listing of the request, the identifier of the session, the attribute and the page, in this order; the parameter
  \<^verbatim>\<open>param1\<close> is set for the next handler. Nothing else of the session manager changes: every reference the
  handler took is released.
\<close>

theorem example_handler_answers:
  assumes "rq_session (ts_request s) = Some ref" "ref \<in> set (sm_held (ts_context s))" "sm_objects (ts_context s) ref = Some x"
    and "om_sorted string_lt (at_values (se_attributes x))" "hasArg (ts_request s) ''a1''"
    and "\<not> rq_headers_sent (ts_request s)"
  shows "example_handleRequest A params s =
    (let v = getArg (ts_request s) ''a1''; attrs = fst (setAttribute ''a1'' (Some (AnyString v)) (se_attributes x))
     in Inr (context_setParam ''param1'' (Some (AnyString ''hi!'')) params,
          s\<lparr>ts_request := (ts_request s)\<lparr>rq_status := 200\<rparr>,
            ts_context := sm_update ref (\<lambda>x. x\<lparr>se_attributes := attrs\<rparr>) (ts_context s),
            ts_stream := ts_stream s @ example_listing (ts_request s) @ ''session_id='' @ se_id x @ [CHR 0x0A] @
              ''session attribute a1='' @ v @ html_source\<rparr>))"
proof -
  let ?s = "stream_put (example_listing (ts_request s)) s"
  have "with_session A (\<lambda>ref s. Inr (ref \<noteq> None, s)) ?s = Inr (True, ?s)"
    using assms(1,2) by (simp add: with_own_session leave_def drop_hold stream_put_def)
  moreover note example_session_run [of ?s ref x A]
  ultimately show ?thesis
    using assms by (simp add: example_handleRequest_def stream_put_def request_do_def setStatus_def Let_def)
qed

text \<open>
  The filter of the example passes the result of the chain on and adds its header if the headers are not sent yet; an
  exception of the chain is not caught.
\<close>

lemma example_filter:
  "example_doFilter k s =
    (case k s of
       Inl e \<Rightarrow> Inl e
     | Inr s' \<Rightarrow> Inr (if rq_headers_sent (ts_request s') then s'
         else s'\<lparr>ts_request := (ts_request s')\<lparr>rq_out_headers :=
           om_assign StringCILess (normalizeOutputHeaderName ''X-TestHeader'') ''TestValue'' (rq_out_headers (ts_request s'))\<rparr>\<rparr>))"
  by (auto simp: example_doFilter_def on_request_def setHeader_def rbind_def split: sum.splits)

text \<open>A POST to the servlet, which has only \<^verbatim>\<open>doGet\<close>, is answered by the base class.\<close>

lemma example_servlet_post:
  assumes "getRequestMethod (ts_request s) = ''POST''"
  shows "servlet_handleRequest (example_servlet rx hs exec) s = servlet_handleRequest servlet_base s"
proof -
  have "om_find string_lt ''POST'' http_methods_map = Some HTTP_METHOD_POST" by code_simp
  moreover have "HTTP_METHOD_POST \<noteq> HTTP_METHOD_GET" by (simp add: HTTP_METHOD_POST_def HTTP_METHOD_GET_def)
  ultimately show ?thesis
    using assms by (simp add: servlet_handleRequest_def example_servlet_def servlet_base_def)
qed

section \<open>Examples\<close>

definition bob_users :: "(string \<times> user_data) list" where
  "bob_users = [(''bob'', \<lparr>ud_password = ''x'', ud_roles = [''user'', ''admin'']\<rparr>)]"

definition bob_auth :: authenticator where
  "bob_auth = demo_auth\<lparr>au_realm := Some (example_realm (au_hash demo_auth) ''r'' bob_users)\<rparr>"


definition session_state :: "(unit, nat) auth_state" where
  "session_state = \<lparr>ts_request = request_new\<lparr>rq_session := Some 0, rq_args := [(''a1'', ''v'')]\<rparr>, ts_stream = [],
     ts_context = (session_manager_new 30)\<lparr>sm_objects := [0 \<mapsto> session_new 0 ''sid''], sm_fresh := 1, sm_held := [0]\<rparr>,
     ts_handlers = []\<rparr>"

theorem example_handler_answers_witness:
  "\<exists>s'. example_handleRequest demo_auth (context_new :: (session_any, unit) attributes) session_state =
     Inr (context_setParam ''param1'' (Some (AnyString ''hi!'')) context_new, s') \<and> rq_status (ts_request s') = 200 \<and>
     ts_stream s' = example_listing (ts_request session_state) @ ''session_id=sid'' @ [CHR 0x0A] @
       ''session attribute a1=v'' @ html_source"
proof -
  have h: "hasArg (ts_request session_state) ''a1''" "getArg (ts_request session_state) ''a1'' = ''v''"
    by (simp_all add: session_state_def hasArg_def getArg_def)
  have s: "rq_session (ts_request session_state) = Some 0" "0 \<in> set (sm_held (ts_context session_state))"
      "sm_objects (ts_context session_state) 0 = Some (session_new 0 ''sid'')" "ts_stream session_state = []"
      "\<not> rq_headers_sent (ts_request session_state)"
    by (simp_all add: session_state_def request_new_def reset_def)
  have "om_sorted string_lt (at_values (se_attributes (session_new 0 ''sid'' :: (session_any, unit, subject) session)))"
    by (simp add: session_new_def attributes_new_def)
  from example_handler_answers [OF s(1-3) this h(1) s(5), of demo_auth "context_new :: (session_any, unit) attributes"]
  show ?thesis using h(2) s(4) by (simp add: Let_def) (simp add: session_new_def)
qed

end
