(* ===== verification/Connections.thy ===== *)
theory Connections
  imports FcgiServers
begin

text \<open>
  One connection of the FastCGI server: the object \<^verbatim>\<open>FastcgiRequest\<close> (\<^verbatim>\<open>main/fcgi_request.cpp\<close>) from its constructor to
  its destructor, the scoped counter of the endpoint (\<^verbatim>\<open>main/endpoint.cpp\<close>), and one pass through the loop of
  \<^verbatim>\<open>FCGIServer::handle\<close> (\<^verbatim>\<open>main/fcgi_server.cpp\<close>) as a function. The theory FcgiServers has the loop as steps of the threads of
  an endpoint; that the passes are sequences of these steps is proved below.

  libfcgi is not part of the repository: the numbers that \<^verbatim>\<open>FCGX_InitRequest\<close> and \<^verbatim>\<open>FCGX_Accept_r\<close> return are
  inputs of a pass, as are the clock and the answers of the stopper.
\<close>

section \<open>The scoped counter\<close>

text \<open>The flag \<^verbatim>\<open>incremented_\<close> and the endpoint; \<open>None\<close> is the failed assertion of the endpoint.\<close>

type_synonym scoped_counter = "bool \<times> endpoint"

definition sbc_increment :: "scoped_counter \<Rightarrow> scoped_counter" where
  "sbc_increment c = (if \<not> fst c then (True, incrementBusyCounter (snd c)) else c)"

definition sbc_decrement :: "scoped_counter \<Rightarrow> scoped_counter option" where
  "sbc_decrement c =
     (if fst c then map_option (\<lambda>ep. (False, ep)) (decrementBusyCounter (snd c)) else Some c)"

definition sbc_new :: "endpoint \<Rightarrow> scoped_counter" where
  "sbc_new ep = sbc_increment (False, ep)"

definition sbc_destroy :: "scoped_counter \<Rightarrow> endpoint option" where
  "sbc_destroy c = map_option snd (sbc_decrement c)"

section \<open>The request object\<close>

text \<open>\<^verbatim>\<open>accept_time_\<close> is not initialised before a request is accepted; \<open>statistics_\<close> may be null.\<close>

record 'h connection =
  co_statistics :: bool
  co_logTimes :: bool
  co_keepConnection :: u32
  co_accept_time :: "(int \<times> int) option"
  co_handler :: "'h handler_description option"

definition connection_new :: "int \<Rightarrow> bool \<Rightarrow> bool \<Rightarrow> 'h connection result" where
  "connection_new init statistics logTimes =
     (if 0 \<noteq> init then Inl (RuntimeError ''can not init fastcgi request'')
      else Inr \<lparr>co_statistics = statistics, co_logTimes = logTimes, co_keepConnection = 0, co_accept_time = None, co_handler = None\<rparr>)"

definition connection_accept :: "int \<Rightarrow> endpoint \<Rightarrow> int \<times> int \<Rightarrow> 'h connection \<Rightarrow> int \<times> 'h connection" where
  "connection_accept status ep now c =
     (status,
      if status \<ge> 0 then
        let c = c\<lparr>co_keepConnection := ep_keepConnection ep\<rparr>
        in if co_logTimes c \<or> co_statistics c then c\<lparr>co_accept_time := Some now\<rparr> else c
      else c)"

definition setHandlerDesc :: "'h handler_description option \<Rightarrow> 'h connection \<Rightarrow> 'h connection" where
  "setHandlerDesc handler c = c\<lparr>co_handler := handler\<rparr>"

definition fcgi_read :: "int \<Rightarrow> io_stream \<Rightarrow> string \<times> io_stream" where
  "fcgi_read sz io = (take (nat sz) (io_in io), io\<lparr>io_in := drop (nat sz) (io_in io)\<rparr>)"

definition fcgi_write_buf :: "string \<Rightarrow> io_stream \<Rightarrow> io_stream" where
  "fcgi_write_buf buf io = io\<lparr>io_out := io_out io @ buf\<rparr>"

text \<open>
  The destructor: what it adds to the statistics and the time it logs, in microseconds. Without an accepted
  request it reads the uninitialised time, here \<open>garbage\<close>.
\<close>

definition connection_destroy :: "int \<times> int \<Rightarrow> int \<times> int \<Rightarrow> ('s, 'u) request \<Rightarrow> 'h connection \<Rightarrow> statistics \<Rightarrow>
    statistics \<times> u64 option" where
  "connection_destroy garbage now r c data =
     (let accept_time = (case co_accept_time c of Some t \<Rightarrow> t | None \<Rightarrow> garbage)
      in (if co_statistics c then request_finish (co_handler c) r accept_time now data else data,
          if co_logTimes c then Some (microseconds accept_time now) else None))"

section \<open>One pass through the loop\<close>

text \<open>What the pass gets from its surroundings, in the order in which it asks.\<close>

record pass_input =
  pi_stopped :: bool
  pi_init :: int
  pi_status :: int
  pi_accept_time :: "int \<times> int"
  pi_stopped_after :: bool
  pi_finish_time :: "int \<times> int"
  pi_garbage :: "int \<times> int"

text \<open>
  The end of a pass: the thread returns or goes on, the endpoint and the statistics, what became of the request and whether an
  error is logged. \<open>None\<close> is the failed assertion.
\<close>

record ('s, 'u, 'h, 'f) pass_result =
  pr_returns :: bool
  pr_endpoint :: endpoint
  pr_data :: statistics
  pr_served :: "('s, 'u, 'h, 'f) served option"
  pr_error :: bool

text \<open>A request in the queue of a pool keeps the connection; otherwise its destructor runs at the end of the pass.\<close>

definition end_service :: "pass_input \<Rightarrow> 'h connection \<Rightarrow> statistics \<Rightarrow> ('s, 'u, 'h, 'f) served \<Rightarrow> statistics" where
  "end_service inp c data x =
     (case x of
        Answered r \<Rightarrow> fst (connection_destroy (pi_garbage inp) (pi_finish_time inp) r c data)
      | Raised e r \<Rightarrow> fst (connection_destroy (pi_garbage inp) (pi_finish_time inp) r c data)
      | _ \<Rightarrow> data)"

definition handle_pass :: "bool \<Rightarrow> bool \<Rightarrow> pass_input \<Rightarrow>
    (u32 \<Rightarrow> 'h handler_description option \<times> ('s, 'u, 'h, 'f) served) \<Rightarrow> ('s, 'u) request \<Rightarrow> endpoint \<Rightarrow> statistics \<Rightarrow>
    ('s, 'u, 'h, 'f) pass_result option" where
  "handle_pass stats logTimes inp serve r ep data =
     (if pi_stopped inp then Some \<lparr>pr_returns = True, pr_endpoint = ep, pr_data = data, pr_served = None, pr_error = False\<rparr>
      else
        let counter = sbc_new ep in
        case connection_new (pi_init inp) stats logTimes of
          Inl e \<Rightarrow>
            map_option (\<lambda>ep. \<lparr>pr_returns = False, pr_endpoint = ep, pr_data = data, pr_served = None, pr_error = True\<rparr>)
              (sbc_destroy counter)
        | Inr c \<Rightarrow>
            (case sbc_decrement counter of
               None \<Rightarrow> None
             | Some counter \<Rightarrow>
                 let (status, c) = connection_accept (pi_status inp) (snd counter) (pi_accept_time inp) c;
                     gone = fst (connection_destroy (pi_garbage inp) (pi_finish_time inp) r c data)
                 in if pi_stopped_after inp then
                      map_option (\<lambda>ep. \<lparr>pr_returns = True, pr_endpoint = ep, pr_data = gone, pr_served = None, pr_error = False\<rparr>)
                        (sbc_destroy counter)
                    else if status < 0 then
                      map_option (\<lambda>ep. \<lparr>pr_returns = False, pr_endpoint = ep, pr_data = gone, pr_served = None, pr_error = True\<rparr>)
                        (sbc_destroy counter)
                    else
                      let counter = sbc_increment counter;
                          (handler, x) = serve (co_keepConnection c);
                          c = setHandlerDesc handler c
                      in map_option (\<lambda>ep. \<lparr>pr_returns = False, pr_endpoint = ep, pr_data = end_service inp c data x,
                                           pr_served = Some x, pr_error = (case x of Raised _ _ \<Rightarrow> True | _ \<Rightarrow> False)\<rparr>)
                           (sbc_destroy counter)))"

section \<open>The passes are steps of the threads\<close>

lemma thread_to_to [simp]: "thread_to i t ep (thread_to i t' ep' es) = thread_to i t ep es"
  by (simp add: thread_to_def)

lemma thread_at_to [simp]: "thread_at i es t \<Longrightarrow> thread_at i (thread_to i t' ep es) t'' \<longleftrightarrow> t' = t''"
  by (auto simp: thread_at_def thread_to_def)

lemma thread_to_stopped [simp]:
  "es_stopped (thread_to i t ep es) = es_stopped es"
  "(thread_to i t ep es)\<lparr>es_stopped := b\<rparr> = thread_to i t ep (es\<lparr>es_stopped := b\<rparr>)"
  "thread_at i (es\<lparr>es_stopped := b\<rparr>) t = thread_at i es t"
  by (simp_all add: thread_to_def thread_at_def)

lemma decrement_increment: "0 \<le> ep_busy_count ep \<Longrightarrow> decrementBusyCounter (incrementBusyCounter ep) = Some ep"
  by (simp add: decrementBusyCounter_def incrementBusyCounter_def)

lemma sbc_simps:
  "sbc_new ep = (True, incrementBusyCounter ep)"
  "0 \<le> ep_busy_count ep \<Longrightarrow> sbc_decrement (True, incrementBusyCounter ep) = Some (False, ep)"
  "0 \<le> ep_busy_count ep \<Longrightarrow> sbc_destroy (True, incrementBusyCounter ep) = Some ep"
  "sbc_destroy (False, ep) = Some ep"
  "sbc_increment (False, ep) = (True, incrementBusyCounter ep)"
  by (simp_all add: sbc_new_def sbc_increment_def sbc_decrement_def sbc_destroy_def decrement_increment)

text \<open>The positions a thread goes through, from one start of the loop to the next.\<close>

lemma pass_prepared:
  assumes "endpoint_reachable ep0 es" "thread_at i es LoopStart" "\<not> es_stopped es" "0 \<le> ep_busy_count (es_endpoint es)"
  shows "endpoint_reachable ep0 (thread_to i Accepting (es_endpoint es) es)"
    and "endpoint_reachable ep0 (thread_to i LoopStart (es_endpoint es) es)"
proof -
  let ?es = "thread_to i Preparing (incrementBusyCounter (es_endpoint es)) es"
  have p: "endpoint_reachable ep0 ?es" "thread_at i ?es Preparing"
    using assms by (auto intro: endpoint_reachable.thread thread_step.prepare)
  have d: "decrementBusyCounter (es_endpoint ?es) = Some (es_endpoint es)" using assms(4) by (simp add: decrement_increment)
  show "endpoint_reachable ep0 (thread_to i Accepting (es_endpoint es) es)"
    using endpoint_reachable.thread [OF p(1) thread_step.prepared [OF p(2) d]] by simp
  show "endpoint_reachable ep0 (thread_to i LoopStart (es_endpoint es) es)"
    using endpoint_reachable.thread [OF p(1) thread_step.prepare_failed [OF p(2) d]] by simp
qed

lemma pass_stopped:
  assumes "endpoint_reachable ep0 es" "thread_at i es Accepting"
  shows "endpoint_reachable ep0 (thread_to i Finished (es_endpoint es) (es\<lparr>es_stopped := True\<rparr>))"
proof -
  let ?es = "es\<lparr>es_stopped := True\<rparr>"
  have "thread_step ?es (thread_to i Finished (es_endpoint ?es) ?es)"
    by (rule thread_step.accept_stop) (use assms(2) in simp_all)
  with endpoint_reachable.stop [OF assms(1)] show ?thesis
    using endpoint_reachable.thread by fastforce
qed

lemma pass_served:
  assumes "endpoint_reachable ep0 es" "thread_at i es Accepting" "\<not> es_stopped es" "0 \<le> ep_busy_count (es_endpoint es)"
  shows "endpoint_reachable ep0 (thread_to i LoopStart (es_endpoint es) es)"
proof -
  let ?es = "thread_to i Serving (incrementBusyCounter (es_endpoint es)) es"
  have p: "endpoint_reachable ep0 ?es" "thread_at i ?es Serving"
    using assms by (auto intro: endpoint_reachable.thread thread_step.accepted)
  have d: "decrementBusyCounter (es_endpoint ?es) = Some (es_endpoint es)" using assms(4) by (simp add: decrement_increment)
  show ?thesis using endpoint_reachable.thread [OF p(1) thread_step.served [OF p(2) d]] by simp
qed

lemma pass_accept_failed:
  "endpoint_reachable ep0 es \<Longrightarrow> thread_at i es Accepting \<Longrightarrow> \<not> es_stopped es \<Longrightarrow>
   endpoint_reachable ep0 (thread_to i LoopStart (es_endpoint es) es)"
  by (blast intro: endpoint_reachable.thread thread_step.accept_failed)

lemma reachable_counter:
  assumes "endpoint_reachable ep es" "ep_busy_count ep = 0" shows "0 \<le> ep_busy_count (es_endpoint es)"
  using reachable_ok [OF assms] by (simp add: endpoint_ok_def)

text \<open>What a pass comes to, once the counter is evaluated.\<close>

lemma handle_pass_eq:
  assumes "0 \<le> ep_busy_count ep"
  shows "handle_pass stats logTimes inp serve r ep data =
    Some (if pi_stopped inp then \<lparr>pr_returns = True, pr_endpoint = ep, pr_data = data, pr_served = None, pr_error = False\<rparr>
      else if pi_init inp \<noteq> 0 then \<lparr>pr_returns = False, pr_endpoint = ep, pr_data = data, pr_served = None, pr_error = True\<rparr>
      else
        let c = snd (connection_accept (pi_status inp) ep (pi_accept_time inp)
                  \<lparr>co_statistics = stats, co_logTimes = logTimes, co_keepConnection = 0, co_accept_time = None, co_handler = None\<rparr>);
            gone = fst (connection_destroy (pi_garbage inp) (pi_finish_time inp) r c data);
            (handler, x) = serve (co_keepConnection c)
        in if pi_stopped_after inp \<or> pi_status inp < 0
           then \<lparr>pr_returns = pi_stopped_after inp, pr_endpoint = ep, pr_data = gone, pr_served = None,
                 pr_error = (\<not> pi_stopped_after inp)\<rparr>
           else \<lparr>pr_returns = False, pr_endpoint = ep, pr_data = end_service inp (setHandlerDesc handler c) data x,
                 pr_served = Some x, pr_error = (case x of Raised _ _ \<Rightarrow> True | _ \<Rightarrow> False)\<rparr>)"
  using assms
  by (simp add: handle_pass_def sbc_simps connection_new_def connection_accept_def Let_def split_beta)


text \<open>
  A connection that never had a request counts as one. When statistics are on, a failed accept, or an accept that ends
  because the server stops, adds a request of the daemon itself with the status of the unused request object, 200, to the
  statistics, although nothing was served; after a failed accept the time it adds is computed from memory that
  was never initialised.
\<close>

theorem failed_accept_counted:
  assumes "0 \<le> ep_busy_count ep" "\<not> pi_stopped inp" "pi_init inp = 0" "pi_status inp < 0" "stat_ok data"
  shows "\<exists>p. handle_pass True logTimes inp serve (request_new :: ('s, 'u) request) ep data = Some p \<and> pr_served p = None \<and>
    lookup_counter DAEMON_STRING 200 (pr_data p) =
      Some (counter_add (microseconds (pi_garbage inp) (pi_finish_time inp))
        (case lookup_counter DAEMON_STRING 200 data of Some c \<Rightarrow> c | None \<Rightarrow> counter_new))"
  using assms(2-5)
  by (simp add: handle_pass_eq [OF assms(1)] connection_accept_def connection_destroy_def request_finish_def Let_def split_beta
      lookup_add request_new_def reset_def)


section \<open>Examples\<close>

definition demo_endpoint :: endpoint where
  "demo_endpoint = \<lparr>ep_busy_count = 0, ep_threads = 1, ep_socket_path = ''/s'', ep_socket_port = [], ep_keepConnection = 0\<rparr>"

definition failing_accept :: pass_input where
  "failing_accept = \<lparr>pi_stopped = False, pi_init = 0, pi_status = -9, pi_accept_time = (0, 0), pi_stopped_after = False,
     pi_finish_time = (100, 0), pi_garbage = (7, 0)\<rparr>"


theorem failed_accept_counted_witness:
  "\<exists>p. handle_pass True False failing_accept (\<lambda>_. (None, NoPool)) (request_new :: (unit, unit) request) demo_endpoint [] = Some p \<and>
     pr_served p = None \<and> lookup_counter DAEMON_STRING 200 (pr_data p) = Some (counter_add 93000000 counter_new)"
  using failed_accept_counted [of demo_endpoint failing_accept "[]" False "\<lambda>_. (None, NoPool)"]
  by (simp add: demo_endpoint_def failing_accept_def stat_ok_def lookup_counter_def microseconds_def)

end
