(* ===== verification/XmlHandles.thy ===== *)
theory XmlHandles
  imports Prelude
begin

text \<open>
  \<^verbatim>\<open>Helper\<close> (\<^verbatim>\<open>include/fastcgi3/helpers.h\<close>), the owner of a pointer of libxml2: a copy takes the pointer away from the
  original, and the destructor gives it to the \<^verbatim>\<open>clean\<close> of its class (\<^verbatim>\<open>library/xml.cpp\<close>, which calls \<^verbatim>\<open>xmlFreeDoc\<close>,
  \<^verbatim>\<open>xmlFreeNode\<close>, \<^verbatim>\<open>xmlXPathFreeObject\<close> or \<^verbatim>\<open>xmlXPathFreeContext\<close>).

  The state has the helper objects by their addresses, the resources that are allocated, and the resources that the
  client owns itself. Freeing a resource that is not allocated is an error (\<^const>\<open>OutOfBounds\<close>).
\<close>

section \<open>The helper\<close>

record 'p handles =
  ho_tptr :: "nat \<Rightarrow> 'p option option"
  ho_live :: "'p set"
  ho_client :: "'p set"

definition xml_clean :: "'p \<Rightarrow> 'p handles \<Rightarrow> 'p handles result" where
  "xml_clean p st = (if p \<in> ho_live st then Inr (st\<lparr>ho_live := ho_live st - {p}\<rparr>) else Inl OutOfBounds)"

definition set_tptr :: "nat \<Rightarrow> 'p option \<Rightarrow> 'p handles \<Rightarrow> 'p handles" where
  "set_tptr a q st = st\<lparr>ho_tptr := (ho_tptr st)(a := Some q)\<rparr>"

definition helper_get :: "nat \<Rightarrow> 'p handles \<Rightarrow> 'p option" where
  "helper_get a st = (case ho_tptr st a of Some q \<Rightarrow> q | None \<Rightarrow> None)"

text \<open>The arrow asserts that the pointer is not null.\<close>

definition helper_arrow :: "nat \<Rightarrow> 'p handles \<Rightarrow> 'p result" where
  "helper_arrow a st = (case helper_get a st of Some p \<Rightarrow> Inr p | None \<Rightarrow> Inl NullPointer)"

definition helper_default :: "nat \<Rightarrow> 'p handles \<Rightarrow> 'p handles" where
  "helper_default a st = set_tptr a None st"

definition helper_new :: "nat \<Rightarrow> 'p option \<Rightarrow> 'p handles \<Rightarrow> 'p handles" where
  "helper_new a q st = set_tptr a q st"

definition helper_copy :: "nat \<Rightarrow> nat \<Rightarrow> 'p handles \<Rightarrow> 'p handles" where
  "helper_copy a b st = (let q = helper_get b st in set_tptr b None (set_tptr a q st))"

definition helper_reset :: "nat \<Rightarrow> 'p option \<Rightarrow> 'p handles \<Rightarrow> 'p handles result" where
  "helper_reset a q st =
     rbind (case helper_get a st of Some p \<Rightarrow> xml_clean p st | None \<Rightarrow> Inr st) (\<lambda>st. Inr (set_tptr a q st))"

definition helper_release :: "nat \<Rightarrow> 'p handles \<Rightarrow> 'p option \<times> 'p handles" where
  "helper_release a st = (helper_get a st, set_tptr a None st)"

definition helper_assign :: "nat \<Rightarrow> nat \<Rightarrow> 'p handles \<Rightarrow> 'p handles result" where
  "helper_assign a b st =
     (if b \<noteq> a then let (q, st) = helper_release b st in helper_reset a q st else Inr st)"

definition helper_destroy :: "nat \<Rightarrow> 'p handles \<Rightarrow> 'p handles result" where
  "helper_destroy a st =
     rbind (helper_reset a None st) (\<lambda>st. Inr (st\<lparr>ho_tptr := (ho_tptr st)(a := None)\<rparr>))"

section \<open>Programs with helpers\<close>

text \<open>
  A program gets resources from the library, makes helpers for resources it owns, copies, assigns, resets and destroys
  them, takes resources out of them and frees resources it owns itself.
\<close>

definition client_takes :: "'p option \<Rightarrow> 'p handles \<Rightarrow> 'p handles" where
  "client_takes q st = st\<lparr>ho_client := ho_client st \<union> set_option q\<rparr>"

definition client_gives :: "'p option \<Rightarrow> 'p handles \<Rightarrow> 'p handles" where
  "client_gives q st = st\<lparr>ho_client := ho_client st - set_option q\<rparr>"

inductive helper_step :: "'p handles \<Rightarrow> 'p handles result \<Rightarrow> bool" where
  acquire: "p \<notin> ho_live st \<Longrightarrow> helper_step st (Inr (client_takes (Some p) (st\<lparr>ho_live := insert p (ho_live st)\<rparr>)))"
| default: "ho_tptr st a = None \<Longrightarrow> helper_step st (Inr (helper_default a st))"
| new: "ho_tptr st a = None \<Longrightarrow> set_option q \<subseteq> ho_client st \<Longrightarrow> helper_step st (Inr (client_gives q (helper_new a q st)))"
| copy: "ho_tptr st a = None \<Longrightarrow> ho_tptr st b \<noteq> None \<Longrightarrow> helper_step st (Inr (helper_copy a b st))"
| assign: "ho_tptr st a \<noteq> None \<Longrightarrow> ho_tptr st b \<noteq> None \<Longrightarrow> helper_step st (helper_assign a b st)"
| release: "ho_tptr st a \<noteq> None \<Longrightarrow> helper_release a st = (q, st') \<Longrightarrow> helper_step st (Inr (client_takes q st'))"
| reset: "ho_tptr st a \<noteq> None \<Longrightarrow> set_option q \<subseteq> ho_client st \<Longrightarrow> helper_step st (helper_reset a q (client_gives q st))"
| destroy: "ho_tptr st a \<noteq> None \<Longrightarrow> helper_step st (helper_destroy a st)"
| free: "p \<in> ho_client st \<Longrightarrow> helper_step st (xml_clean p (client_gives (Some p) st))"

inductive helper_reach :: "'p handles \<Rightarrow> bool" where
  start: "helper_reach \<lparr>ho_tptr = (\<lambda>_. None), ho_live = {}, ho_client = {}\<rparr>"
| step: "helper_reach st \<Longrightarrow> helper_step st (Inr st') \<Longrightarrow> helper_reach st'"

text \<open>Every resource has exactly one owner: the client or one helper.\<close>

definition held :: "'p handles \<Rightarrow> nat \<Rightarrow> 'p \<Rightarrow> bool" where
  "held st a p \<longleftrightarrow> ho_tptr st a = Some (Some p)"

definition handles_ok :: "'p handles \<Rightarrow> bool" where
  "handles_ok st \<longleftrightarrow>
     ho_live st = ho_client st \<union> {p. \<exists>a. held st a p} \<and>
     (\<forall>a p. held st a p \<longrightarrow> p \<notin> ho_client st) \<and>
     (\<forall>p a b. held st a p \<longrightarrow> held st b p \<longrightarrow> a = b)"

lemma held_fun: "held st a p \<Longrightarrow> held st a q \<Longrightarrow> p = q"
  by (simp add: held_def)

lemma held_set_tptr [simp]: "held (set_tptr a q st) b p \<longleftrightarrow> (if b = a then q = Some p else held st b p)"
  by (simp add: held_def set_tptr_def)

lemma held_fields [simp]:
  "held (st\<lparr>ho_live := L\<rparr>) = held st" "held (st\<lparr>ho_client := C\<rparr>) = held st"
  by (simp_all add: held_def fun_eq_iff)

lemma set_tptr_fields [simp]:
  "ho_live (set_tptr a q st) = ho_live st" "ho_client (set_tptr a q st) = ho_client st"
  by (simp_all add: set_tptr_def)

lemma helper_get_held: "helper_get a st = Some p \<longleftrightarrow> held st a p"
  by (simp add: helper_get_def held_def split: option.split)

lemma helper_get_None: "helper_get a st = None \<Longrightarrow> \<not> held st a p"
  by (simp add: helper_get_def held_def split: option.splits)

section \<open>Every resource has one owner\<close>

text \<open>A pointer on its way from one owner to another: counted as the client's until it arrives.\<close>

definition in_transit :: "'p option \<Rightarrow> 'p handles \<Rightarrow> bool" where
  "in_transit q st \<longleftrightarrow> handles_ok (client_takes q st) \<and> set_option q \<inter> ho_client st = {}"

lemma in_transit_None: "in_transit None st \<longleftrightarrow> handles_ok st"
  by (simp add: in_transit_def client_takes_def)

lemma transit_given: "handles_ok st \<Longrightarrow> set_option q \<subseteq> ho_client st \<Longrightarrow> in_transit q (client_gives q st)"
  by (simp add: in_transit_def client_takes_def client_gives_def handles_ok_def Un_absorb2)

lemma transit_released: "handles_ok st \<Longrightarrow> ho_tptr st a \<noteq> None \<Longrightarrow> in_transit (helper_get a st) (set_tptr a None st)"
  by (cases "helper_get a st")
    (auto simp: in_transit_def client_takes_def handles_ok_def helper_get_held dest: helper_get_None held_fun)

lemma transit_arrives:
  "in_transit q st \<Longrightarrow> helper_get a st = None \<Longrightarrow> handles_ok (set_tptr a q st)"
  by (cases q) (auto simp: in_transit_def client_takes_def handles_ok_def dest: helper_get_None)

lemma transit_clean:
  assumes "in_transit q st" "held st a p"
  shows "\<exists>st'. xml_clean p st = Inr st' \<and> in_transit q (set_tptr a None st') \<and> ho_tptr st' = ho_tptr st"
proof -
  have "p \<in> ho_live st" using assms by (auto simp: in_transit_def client_takes_def handles_ok_def)
  moreover have "in_transit q (set_tptr a None (st\<lparr>ho_live := ho_live st - {p}\<rparr>))"
    using assms by (cases q) (auto simp: in_transit_def client_takes_def handles_ok_def dest: held_fun)
  ultimately show ?thesis by (simp add: xml_clean_def)
qed

lemma set_tptr_twice [simp]: "set_tptr a q (set_tptr a q' st) = set_tptr a q st"
  by (simp add: set_tptr_def)

lemma helper_get_set [simp]: "helper_get a (set_tptr a q st) = q"
  by (simp add: helper_get_def set_tptr_def)

lemma helper_reset_ok:
  assumes "in_transit q st"
  shows "\<exists>st'. helper_reset a q st = Inr (set_tptr a q st') \<and> handles_ok (set_tptr a q st')"
proof (cases "helper_get a st")
  case None
  then show ?thesis using transit_arrives [OF assms None] by (auto simp: helper_reset_def)
next
  case (Some p)
  then obtain st' where st': "xml_clean p st = Inr st'" "in_transit q (set_tptr a None st')"
    using transit_clean [OF assms] by (auto simp: helper_get_held)
  then have "handles_ok (set_tptr a q st')" using transit_arrives [OF st'(2), of a] by simp
  then show ?thesis using Some st'(1) by (auto simp: helper_reset_def)
qed

lemma handles_ok_cong:
  "(\<And>b p. held s b p = held t b p) \<Longrightarrow> ho_live s = ho_live t \<Longrightarrow> ho_client s = ho_client t \<Longrightarrow> handles_ok s = handles_ok t"
  by (simp add: handles_ok_def)

lemma handles_ok_gone:
  "handles_ok (set_tptr a None st) \<Longrightarrow>
   handles_ok ((set_tptr a None st)\<lparr>ho_tptr := (ho_tptr (set_tptr a None st))(a := None)\<rparr>)"
  by (erule handles_ok_cong [THEN iffD1, rotated -1]) (simp_all add: held_def set_tptr_def)

lemma helper_step_ok:
  assumes "helper_step st x" "handles_ok st"
  shows "\<exists>st'. x = Inr st' \<and> handles_ok st'"
  using assms
proof (induction rule: helper_step.induct)
  case (acquire p st)
  then show ?case by (auto simp: client_takes_def handles_ok_def)
next
  case (default st a)
  then have "in_transit None st" "helper_get a st = None" by (simp_all add: in_transit_None helper_get_def)
  then show ?case using transit_arrives [of None st a] by (simp add: helper_default_def)
next
  case (new st a q)
  have "in_transit q (client_gives q st)" using new by (intro transit_given)
  moreover have "helper_get a (client_gives q st) = None" using new by (simp add: helper_get_def client_gives_def)
  ultimately have "handles_ok (set_tptr a q (client_gives q st))" by (rule transit_arrives)
  then show ?case by (cases st) (simp add: helper_new_def client_gives_def set_tptr_def)
next
  case (copy st a b)
  then have ne: "a \<noteq> b" by auto
  have "in_transit (helper_get b st) (set_tptr b None st)" using copy by (intro transit_released)
  moreover have "helper_get a (set_tptr b None st) = None" using copy ne by (simp add: helper_get_def set_tptr_def)
  ultimately have "handles_ok (set_tptr a (helper_get b st) (set_tptr b None st))" by (rule transit_arrives)
  moreover have "set_tptr a (helper_get b st) (set_tptr b None st) = helper_copy a b st"
    using ne by (simp add: helper_copy_def set_tptr_def Let_def fun_upd_twist)
  ultimately show ?case by simp
next
  case (assign st a b)
  then have "in_transit (helper_get b st) (set_tptr b None st)" by (intro transit_released)
  from helper_reset_ok [OF this, of a] show ?case
    using assign by (auto simp: helper_assign_def helper_release_def)
next
  case (release st a q st')
  then show ?case using transit_released [of st a] by (auto simp: helper_release_def in_transit_def)
next
  case (reset st a q)
  then show ?case using helper_reset_ok [OF transit_given] by blast
next
  case (destroy st a)
  then have "in_transit None st" by (simp add: in_transit_None)
  then obtain st' where st': "helper_reset a None st = Inr (set_tptr a None st')" "handles_ok (set_tptr a None st')"
    using helper_reset_ok by blast
  have "handles_ok ((set_tptr a None st')\<lparr>ho_tptr := (ho_tptr (set_tptr a None st'))(a := None)\<rparr>)"
    using st'(2) by (rule handles_ok_gone)
  with st'(1) show ?case by (simp add: helper_destroy_def)
next
  case (free p st)
  then show ?case by (auto simp: xml_clean_def client_gives_def handles_ok_def)
qed

lemma helper_reach_ok: "helper_reach st \<Longrightarrow> handles_ok st"
proof (induction rule: helper_reach.induct)
  case start
  then show ?case by (simp add: handles_ok_def held_def)
next
  case (step st st')
  then show ?case using helper_step_ok by fastforce
qed

text \<open>
  C13. Helpers free every resource exactly once. In a program that hands only resources it owns to helpers, no operation
  ever frees a resource that is not allocated, whatever is copied, assigned, reset and destroyed in whatever order; every
  allocated resource belongs to the client or to exactly one helper; so when no helper is left and the client owns nothing,
  nothing is leaked.
\<close>

theorem helpers_free_once:
  assumes "helper_reach st"
  shows "(\<forall>x. helper_step st x \<longrightarrow> (\<exists>st'. x = Inr st')) \<and>
    ho_live st = ho_client st \<union> {p. \<exists>a. helper_get a st = Some p} \<and>
    (\<forall>a b p. helper_get a st = Some p \<and> helper_get b st = Some p \<longrightarrow> a = b \<and> p \<notin> ho_client st) \<and>
    ((\<forall>a. ho_tptr st a = None) \<and> ho_client st = {} \<longrightarrow> ho_live st = {})"
proof (intro conjI)
  have ok: "handles_ok st" by (rule helper_reach_ok [OF assms])
  show "\<forall>x. helper_step st x \<longrightarrow> (\<exists>st'. x = Inr st')" using helper_step_ok [OF _ ok] by blast
  show "ho_live st = ho_client st \<union> {p. \<exists>a. helper_get a st = Some p}" using ok by (simp add: handles_ok_def helper_get_held)
  show "\<forall>a b p. helper_get a st = Some p \<and> helper_get b st = Some p \<longrightarrow> a = b \<and> p \<notin> ho_client st"
    using ok unfolding handles_ok_def helper_get_held by blast
  show "(\<forall>a. ho_tptr st a = None) \<and> ho_client st = {} \<longrightarrow> ho_live st = {}"
    using ok by (auto simp: handles_ok_def held_def)
qed


theorem helpers_free_once_witness:
  "\<exists>st. helper_reach st \<and> ho_tptr st = [0 \<mapsto> None, 1 \<mapsto> Some (7::nat)] \<and>
     ho_live st = ho_client st \<union> {p. \<exists>a. helper_get a st = Some p} \<and> ho_live st = {7}"
proof -
  let ?s0 = "\<lparr>ho_tptr = (\<lambda>_. None), ho_live = {}, ho_client = {}\<rparr> :: nat handles"
  let ?s1 = "\<lparr>ho_tptr = (\<lambda>_. None), ho_live = {7}, ho_client = {7}\<rparr> :: nat handles"
  let ?s2 = "\<lparr>ho_tptr = [0 \<mapsto> Some 7], ho_live = {7}, ho_client = {}\<rparr> :: nat handles"
  let ?s3 = "\<lparr>ho_tptr = [0 \<mapsto> None, 1 \<mapsto> Some 7], ho_live = {7}, ho_client = {}\<rparr> :: nat handles"
  have "helper_step ?s0 (Inr ?s1)"
    using acquire [of 7 ?s0] by (simp add: client_takes_def)
  with start have r1: "helper_reach ?s1" by (rule step)
  have "helper_step ?s1 (Inr ?s2)"
    using new [of ?s1 0 "Some 7"] by (simp add: client_gives_def helper_new_def set_tptr_def)
  with r1 have r2: "helper_reach ?s2" by (rule step)
  have "helper_copy 1 0 ?s2 = ?s3"
    by (simp add: helper_copy_def helper_get_def set_tptr_def fun_upd_twist)
  then have "helper_step ?s2 (Inr ?s3)" using copy [of ?s2 1 0] by simp
  with r2 have r3: "helper_reach ?s3" by (rule step)
  then show ?thesis using helpers_free_once [OF r3] by (intro exI [of _ ?s3]) (simp del: One_nat_def)
qed

text \<open>
  What the hypothesis excludes: a helper that is reset to its own pointer frees it and keeps it, since \<^verbatim>\<open>reset\<close> does not
  compare the pointers; its destructor then frees the resource a second time.
\<close>

lemma self_reset_frees_twice:
  assumes "handles_ok st" "helper_get a st = Some p"
  shows "\<exists>st'. helper_reset a (helper_get a st) st = Inr st' \<and> helper_get a st' = Some p \<and> p \<notin> ho_live st' \<and>
    helper_destroy a st' = Inl OutOfBounds"
proof -
  have "p \<in> ho_live st" using assms by (auto simp: handles_ok_def helper_get_held)
  then show ?thesis
    using assms(2) by (simp add: helper_reset_def helper_destroy_def xml_clean_def)
qed

end
