(* ===== verification/TimedThreads.thy ===== *)
theory TimedThreads
  imports Prelude
begin

text \<open>
  The two threads that wait with a time limit: the thread that removes expired sessions
  (\<^verbatim>\<open>SimpleSessionManager::checkSessionTimeout\<close>, every 30 seconds) and the thread of the request cache (\<^verbatim>\<open>FileRequestCache::handle\<close>,
  every second), with the operations that stop them. What a round does is in the theories Sessions and FileCaches; here it is
  one place in the loop, so that the interleavings with \<^verbatim>\<open>stop\<close> are the steps of a relation.

  Neither \<^verbatim>\<open>stop\<close> sets its flag under the mutex of the condition, and the session manager notifies without it: a notification can
  come after the test of the flag and before the wait, where it is lost.
\<close>

section \<open>The thread and its stop\<close>

text \<open>
  The places of the thread: before the test of the flag, in its round, waiting with some seconds left, and at its end; and
  of the call of \<^verbatim>\<open>stop\<close>: not made, with the flag set, with the notification sent, and returned from the join.
\<close>

datatype timed_place = TestFlag | Round | Wait nat | ThreadOver

datatype stop_place = NotCalled | FlagSet | Notified | Returned

record timed_thread =
  tt_place :: timed_place
  tt_stopped :: bool
  tt_stop :: stop_place

definition timed_new :: timed_thread where
  "timed_new = \<lparr>tt_place = TestFlag, tt_stopped = False, tt_stop = NotCalled\<rparr>"

definition check_session_timeout_sec :: nat where
  "check_session_timeout_sec = 30"

definition cache_wait_sec :: nat where
  "cache_wait_sec = 1"

text \<open>\<^verbatim>\<open>notify_all\<close>: a thread that waits goes back to its test; nobody else notices.\<close>

fun notified :: "timed_place \<Rightarrow> timed_place" where
  "notified (Wait n) = TestFlag"
| "notified p = p"

text \<open>
  The steps of the loop. A round leads to the wait, or, after an exception or (in the cache) a task that was handled, to the next
  test. A wait ends when its time is over, or earlier without a reason.
\<close>

inductive round_step :: "nat \<Rightarrow> timed_thread \<Rightarrow> timed_thread \<Rightarrow> bool" for limit where
  stop_seen: "tt_place t = TestFlag \<Longrightarrow> tt_stopped t \<Longrightarrow> round_step limit t (t\<lparr>tt_place := ThreadOver\<rparr>)"
| begin_round: "tt_place t = TestFlag \<Longrightarrow> \<not> tt_stopped t \<Longrightarrow> round_step limit t (t\<lparr>tt_place := Round\<rparr>)"
| begin_wait: "tt_place t = Round \<Longrightarrow> round_step limit t (t\<lparr>tt_place := Wait limit\<rparr>)"
| again: "tt_place t = Round \<Longrightarrow> round_step limit t (t\<lparr>tt_place := TestFlag\<rparr>)"
| second: "tt_place t = Wait (Suc n) \<Longrightarrow> round_step limit t (t\<lparr>tt_place := Wait n\<rparr>)"
| wake: "tt_place t = Wait n \<Longrightarrow> round_step limit t (t\<lparr>tt_place := TestFlag\<rparr>)"

inductive stop_step :: "timed_thread \<Rightarrow> timed_thread \<Rightarrow> bool" where
  set_flag: "tt_stop t = NotCalled \<Longrightarrow> stop_step t (t\<lparr>tt_stopped := True, tt_stop := FlagSet\<rparr>)"
| notify: "tt_stop t = FlagSet \<Longrightarrow> stop_step t (t\<lparr>tt_place := notified (tt_place t), tt_stop := Notified\<rparr>)"
| join: "tt_stop t = Notified \<Longrightarrow> tt_place t = ThreadOver \<Longrightarrow> stop_step t (t\<lparr>tt_stop := Returned\<rparr>)"

definition timed_step :: "nat \<Rightarrow> timed_thread \<Rightarrow> timed_thread \<Rightarrow> bool" where
  "timed_step limit t t' \<longleftrightarrow> round_step limit t t' \<or> stop_step t t'"

definition timed_reachable :: "nat \<Rightarrow> timed_thread \<Rightarrow> bool" where
  "timed_reachable limit t \<longleftrightarrow> (timed_step limit)\<^sup>*\<^sup>* timed_new t"

section \<open>Every stop returns\<close>

definition timed_ok :: "nat \<Rightarrow> timed_thread \<Rightarrow> bool" where
  "timed_ok limit t \<longleftrightarrow> (tt_stopped t \<longleftrightarrow> tt_stop t \<noteq> NotCalled) \<and> (tt_place t = ThreadOver \<longrightarrow> tt_stopped t) \<and>
     (\<forall>n. tt_place t = Wait n \<longrightarrow> n \<le> limit) \<and> (tt_stop t = Returned \<longrightarrow> tt_place t = ThreadOver)"

lemma notified_cases: "notified p = (case p of Wait n \<Rightarrow> TestFlag | _ \<Rightarrow> p)"
  by (cases p) simp_all

lemma timed_step_ok: "timed_step limit t t' \<Longrightarrow> timed_ok limit t \<Longrightarrow> timed_ok limit t'"
  unfolding timed_step_def
  by (auto elim!: round_step.cases stop_step.cases simp: timed_ok_def notified_cases split: timed_place.splits)

lemma timed_reachable_ok: "timed_reachable limit t \<Longrightarrow> timed_ok limit t"
  unfolding timed_reachable_def
  by (induction rule: rtranclp_induct) (auto intro: timed_step_ok, simp add: timed_ok_def timed_new_def)

text \<open>What is left to do once the flag is set.\<close>

fun place_left :: "nat \<Rightarrow> timed_place \<Rightarrow> nat" where
  "place_left limit ThreadOver = 0"
| "place_left limit TestFlag = 1"
| "place_left limit (Wait n) = n + 2"
| "place_left limit Round = limit + 3"

fun stop_left :: "stop_place \<Rightarrow> nat" where
  "stop_left NotCalled = 3"
| "stop_left FlagSet = 2"
| "stop_left Notified = 1"
| "stop_left Returned = 0"

definition steps_left :: "nat \<Rightarrow> timed_thread \<Rightarrow> nat" where
  "steps_left limit t = place_left limit (tt_place t) + stop_left (tt_stop t)"

lemma timed_step_decreases:
  "timed_step limit t t' \<Longrightarrow> tt_stopped t \<Longrightarrow> timed_ok limit t \<Longrightarrow> steps_left limit t' < steps_left limit t \<and> tt_stopped t'"
  unfolding timed_step_def
  by (auto elim!: round_step.cases stop_step.cases simp: steps_left_def timed_ok_def notified_cases split: timed_place.splits)

lemma timed_run_bounded:
  assumes "(timed_step limit ^^ k) t t'" "tt_stopped t" "timed_ok limit t"
  shows "k + steps_left limit t' \<le> steps_left limit t \<and> tt_stopped t' \<and> timed_ok limit t'"
  using assms(1)
proof (induction k arbitrary: t')
  case (Suc k)
  then obtain u where u: "(timed_step limit ^^ k) t u" "timed_step limit u t'" by auto
  then show ?case using Suc.IH [OF u(1)] timed_step_decreases [OF u(2)] timed_step_ok [OF u(2)] by auto
qed (use assms(2,3) in simp)

lemma timed_progress:
  assumes "timed_ok limit t" "tt_stopped t" "tt_stop t \<noteq> Returned"
  shows "\<exists>t'. timed_step limit t t'"
proof (cases "tt_place t")
  case TestFlag
  then show ?thesis using assms(2) unfolding timed_step_def by (blast intro: stop_seen)
next
  case Round
  then show ?thesis unfolding timed_step_def by (blast intro: begin_wait)
next
  case (Wait n)
  then show ?thesis unfolding timed_step_def by (blast intro: wake)
next
  case ThreadOver
  have "tt_stop t = FlagSet \<or> tt_stop t = Notified" using assms by (cases "tt_stop t") (auto simp: timed_ok_def)
  then show ?thesis using ThreadOver unfolding timed_step_def by (blast intro: notify join)
qed

lemma steps_left_bound: "timed_ok limit t \<Longrightarrow> tt_stopped t \<Longrightarrow> steps_left limit t \<le> limit + 5"
  by (cases "tt_place t"; cases "tt_stop t") (auto simp: steps_left_def timed_ok_def)

text \<open>
  C14. Stopping a timed thread ends. Once \<^verbatim>\<open>stop\<close> has set its flag, in whatever place the thread is and however their
  steps are interleaved, at most \<open>limit + 5\<close> steps remain, where \<open>limit\<close> is the number of seconds of the wait; the run can only
  end with the thread over and the join returned.
\<close>

theorem timed_stop_returns:
  assumes "timed_reachable limit t" "tt_stopped t"
  shows "(\<forall>k t'. (timed_step limit ^^ k) t t' \<longrightarrow> k \<le> limit + 5) \<and>
    (\<forall>t'. (timed_step limit)\<^sup>*\<^sup>* t t' \<and> (\<nexists>u. timed_step limit t' u) \<longrightarrow>
      tt_stop t' = Returned \<and> tt_place t' = ThreadOver)"
proof (intro conjI allI impI)
  have ok: "timed_ok limit t" by (rule timed_reachable_ok [OF assms(1)])
  show "k \<le> limit + 5" if "(timed_step limit ^^ k) t t'" for k t'
    using timed_run_bounded [OF that assms(2) ok] steps_left_bound [OF ok assms(2)] by simp
  fix t'
  assume r: "(timed_step limit)\<^sup>*\<^sup>* t t' \<and> (\<nexists>u. timed_step limit t' u)"
  then obtain k where "(timed_step limit ^^ k) t t'" by (auto simp: rtranclp_power)
  then have ok': "tt_stopped t'" "timed_ok limit t'" using timed_run_bounded assms(2) ok by blast+
  then show ret: "tt_stop t' = Returned" using timed_progress r by blast
  then show "tt_place t' = ThreadOver" using ok'(2) by (simp add: timed_ok_def)
qed

text \<open>The state in which the notification came too early: everything of \<^verbatim>\<open>stop\<close> but the join is done, and the full wait begins.\<close>

definition lost_notification :: "nat \<Rightarrow> timed_thread" where
  "lost_notification limit = \<lparr>tt_place = Wait limit, tt_stopped = True, tt_stop = Notified\<rparr>"

lemma lost_notification_reachable: "timed_reachable limit (lost_notification limit)"
proof -
  let ?s = "timed_step limit"
  let ?round = "\<lambda>b p. \<lparr>tt_place = Round, tt_stopped = b, tt_stop = p\<rparr>"
  have a: "?s timed_new (?round False NotCalled)"
    using begin_round [of timed_new limit] by (simp add: timed_step_def timed_new_def)
  have b: "?s (?round False NotCalled) (?round True FlagSet)"
    using set_flag [of "?round False NotCalled"] by (simp add: timed_step_def)
  have c: "?s (?round True FlagSet) (?round True Notified)"
    using notify [of "?round True FlagSet"] by (simp add: timed_step_def)
  have d: "?s (?round True Notified) (lost_notification limit)"
    using begin_wait [of "?round True Notified" limit] by (simp add: timed_step_def lost_notification_def)
  have "?s\<^sup>*\<^sup>* (?round True Notified) (lost_notification limit)" using d by (rule r_into_rtranclp)
  with c have "?s\<^sup>*\<^sup>* (?round True FlagSet) (lost_notification limit)" by (rule converse_rtranclp_into_rtranclp)
  with b have "?s\<^sup>*\<^sup>* (?round False NotCalled) (lost_notification limit)" by (rule converse_rtranclp_into_rtranclp)
  with a have "?s\<^sup>*\<^sup>* timed_new (lost_notification limit)" by (rule converse_rtranclp_into_rtranclp)
  then show ?thesis by (simp add: timed_reachable_def)
qed

theorem timed_stop_returns_witness:
  "timed_reachable check_session_timeout_sec (lost_notification check_session_timeout_sec) \<and>
   (\<nexists>t'. (timed_step check_session_timeout_sec ^^ 36) (lost_notification check_session_timeout_sec) t') \<and>
   (\<nexists>t'. (timed_step check_session_timeout_sec)\<^sup>*\<^sup>* (lost_notification check_session_timeout_sec) t' \<and>
      (\<nexists>u. timed_step check_session_timeout_sec t' u) \<and> tt_stop t' \<noteq> Returned)"
proof -
  have "tt_stopped (lost_notification check_session_timeout_sec)" by (simp add: lost_notification_def)
  note stop = timed_stop_returns [OF lost_notification_reachable this]
  have "\<not> 36 \<le> check_session_timeout_sec + 5" by (simp add: check_session_timeout_sec_def)
  then show ?thesis using stop lost_notification_reachable by blast
qed

text \<open>
  A notification of \<^verbatim>\<open>stop\<close> can be lost: there is a run in which the flag is set and the notification sent while the thread is between
  its test and its wait. Then the thread waits for its full time, 30 seconds in the session manager and one in
  the cache, before it sees the flag, and the join waits with it: no step but the passing of the time, or a wake-up without
  a reason, is possible.
\<close>

theorem stop_notification_lost:
  "timed_reachable check_session_timeout_sec (lost_notification check_session_timeout_sec) \<and>
   timed_reachable cache_wait_sec (lost_notification cache_wait_sec) \<and>
   (\<forall>limit t'. timed_step limit (lost_notification limit) t' \<longrightarrow>
      tt_stop t' = Notified \<and> (tt_place t' = TestFlag \<or> (\<exists>n. limit = Suc n \<and> tt_place t' = Wait n)))"
proof (intro conjI allI impI)
  fix limit t'
  assume "timed_step limit (lost_notification limit) t'"
  then show "tt_stop t' = Notified" "tt_place t' = TestFlag \<or> (\<exists>n. limit = Suc n \<and> tt_place t' = Wait n)"
    by (auto simp: timed_step_def lost_notification_def elim!: round_step.cases stop_step.cases)
qed (rule lost_notification_reachable)+

end
