(* ===== verification/Spec2Isabelle.thy ===== *)
theory Spec2Isabelle
  imports HashUtils HttpDates PageCompilers Shutdowns CookieObjects MappedFiles Log4cxxLoggers SystemUtils
    ExampleApp Connections XmlHandles TimedThreads
begin

text \<open>
  A verification library for Fastcgi Container, a framework for FastCGI applications in C++: a daemon
  that accepts requests from a web server, routes them to components, and sends their answers back.

  \<^bold>\<open>The program.\<close> \<^verbatim>\<open>main/\<close> opens the endpoints and accepts requests. \<^verbatim>\<open>library/\<close> holds the container: the request
  object with its parsers and buffers, the configuration, the component set, the handler set that
  routes a request, the pools whose threads run the filters and handlers, sessions and security.
  \<^verbatim>\<open>request-cache/\<close>, \<^verbatim>\<open>session-manager/\<close>, \<^verbatim>\<open>authenticator/\<close>, \<^verbatim>\<open>statistics/\<close>, \<^verbatim>\<open>file-logger/\<close>, \<^verbatim>\<open>syslog/\<close> and \<^verbatim>\<open>logging/\<close>
  are components, and \<^verbatim>\<open>example/\<close> is an application made of them.
  \<^verbatim>\<open>page-compiler/\<close> is a separate program that turns server pages into servlets.

  The program starts like this (\<open>Daemons.daemon_main\<close>). It changes its group and user and becomes a daemon, reads its configuration
  (\<open>ConfigFiles.config_create\<close>), loads the modules with their factories (\<open>Loaders.loader_init\<close>), makes the components and lets each
  look up those that it needs (\<open>ComponentSets\<close>, \<open>ComponentLoads\<close>), builds the handler set and the pools (\<open>Globals\<close>), and starts the
  server (\<open>FcgiServers.server_start\<close>). It ends by a signal (\<open>Shutdowns\<close>): a thread stops the server and the pools, the workers come to
  their ends, and \<^verbatim>\<open>join\<close> returns to \<^verbatim>\<open>main\<close>.

  A request travels like this. A thread of an endpoint accepts it (\<open>FcgiServers.thread_step\<close>) and attaches it
  (\<open>FcgiServers.serve_request\<close>, \<open>RequestAttach.attach\<close>): the parser fills its headers, cookies and variables from the CGI
  environment, its body is read into a buffer, and its arguments and files are parsed. The server
  looks for its filters and its handler (\<open>HandlerSets\<close>) and queues it in the pool of the handler (\<open>Dispatch\<close>,
  \<open>ThreadPools\<close>). A worker of the pool runs the chain of filters around the handlers and turns every exception
  into an error page. A servlet is a handler that works with the objects of \<open>HttpObjects\<close>. A handler may ask for a later retry, and the request cache stores the binary
  form of the request (\<open>RequestCodec\<close>) in a file and serves it again (\<open>FileCaches\<close>).

  \<^bold>\<open>Conventions.\<close> A function of the source is a function here, under its name where it is free; a class is
  a record, whose operations take and return it. Exceptions are values of \<open>Prelude.cpp_error\<close> in a sum type; an
  outcome of a request operation carries the state of the request at the throw. Null pointers,
  accesses outside of an object and endless loops are errors of the same type, so that a theorem
  about success excludes them. Machine integers are words of their width; \<^verbatim>\<open>std::map\<close> is a list sorted by its
  comparison object (\<open>OMaps\<close>); shared buffers are views of an explicit implementation value. Concurrency
  is an inductive step relation whose steps are the critical sections of the code.

  \<^bold>\<open>Theories.\<close>

  \<^item> \<open>Prelude\<close>: words, errors, sequencing of fallible computations, character classes, slices.
  \<^item> \<open>OMaps\<close> (\<^verbatim>\<open>functors.h\<close>, \<^verbatim>\<open>std::map\<close>): the locale \<open>strict_weak_order\<close> with the laws of ordered containers, interpreted for the
    orders of strings, of case-insensitive header names and of status codes.
  \<^item> \<open>Ranges\<close> (\<^verbatim>\<open>range.h\<close>), \<open>StringUtils\<close>, \<open>HashUtils\<close>, \<open>Dates\<close> (\<^verbatim>\<open>util.cpp\<close>): URL coding, form data, splitting, paths, base64 with its
    32-bit accumulator, HTTP dates. Coding round trips; base64 equals its specification.
  \<^item> \<open>StringBuffers\<close>, \<open>FileBuffers\<close>, \<open>DataBuffers\<close> (\<^verbatim>\<open>string_buffer.cpp\<close>, \<^verbatim>\<open>file_buffer.cpp\<close>, \<^verbatim>\<open>mmap_file.cpp\<close>, \<^verbatim>\<open>data_buffer.cpp\<close>): bytes in memory and
    behind a window over a mapped file. The file buffer refines the string buffer; iteration ends.
    \<open>MappedFiles\<close> is \<^verbatim>\<open>mmap_file.cpp\<close> once more, over a system that may refuse each of its calls, with the descriptors and
    mappings that a process holds.
  \<^item> \<open>Cookies\<close>, \<open>HeaderNames\<close>, \<open>Requests\<close>, \<open>Parsers\<close> (\<^verbatim>\<open>cookie.cpp\<close>, \<^verbatim>\<open>parser.cpp\<close>, \<^verbatim>\<open>request.cpp\<close>): the request, its accessors, the state machine
    of its output, the parsers of environment, cookies and multipart forms.
  \<^item> \<open>RequestCodec\<close>, \<open>RequestAttach\<close> (\<^verbatim>\<open>request.cpp\<close>): the binary form of a request and its restoration; reading a request from
    its stream.
  \<^item> \<open>Configs\<close> (\<^verbatim>\<open>config.cpp\<close>), \<open>HandlerSets\<close> (\<^verbatim>\<open>handlerset.cpp\<close>, \<^verbatim>\<open>request_filter.cpp\<close>), \<open>ComponentSets\<close> (\<^verbatim>\<open>componentset.cpp\<close>), \<open>Globals\<close> (\<^verbatim>\<open>globals.cpp\<close>):
    configuration with variables, routing, loading of components in the order of their
    dependencies, pools and start-up.
  \<^item> \<open>ThreadPools\<close> (\<^verbatim>\<open>thread_pool.h\<close>), \<open>Dispatch\<close> (\<^verbatim>\<open>request_thread_pool.cpp\<close>, \<^verbatim>\<open>server.cpp\<close>, \<^verbatim>\<open>except.cpp\<close>): workers, queue and condition variable;
    running a task and routing a request to its pool.
  \<^item> \<open>Sessions\<close> (\<^verbatim>\<open>session.cpp\<close>, \<^verbatim>\<open>session_manager.cpp\<close>, \<^verbatim>\<open>simple_session_manager.cpp\<close>, \<^verbatim>\<open>attributes_holder.cpp\<close>): the table of sessions with
    the life time of the session objects.
  \<^item> \<open>Security\<close> (\<^verbatim>\<open>security_*.cpp\<close>, \<^verbatim>\<open>authenticator/\<close>): subjects, constraints, and the basic, delegated and form
    authenticators as interpretations of the locale \<open>authentication\<close>.
  \<^item> \<open>FileCaches\<close> (\<^verbatim>\<open>request-cache/file_cache.cpp\<close>), \<open>Statistics\<close> (\<^verbatim>\<open>statistics/response_time_handler.cpp\<close>), \<open>Servlets\<close> (\<^verbatim>\<open>http_servlet.cpp\<close>,
    \<^verbatim>\<open>http_response.cpp\<close>), \<open>FcgiServers\<close> (\<^verbatim>\<open>main/fcgi_server.cpp\<close>, \<^verbatim>\<open>fcgi_request.cpp\<close>, \<^verbatim>\<open>endpoint.cpp\<close>).
  \<^item> \<open>PageReaders\<close>, \<open>CodeWriters\<close>, \<open>PageCompilers\<close> (\<^verbatim>\<open>page-compiler/\<close>): reading of pages, generation of code and configuration, the
    command line and the files that the compiler writes.
  \<^item> \<open>RequestTypes\<close> (\<^verbatim>\<open>request.cpp\<close>, \<^verbatim>\<open>parser.cpp\<close>): every operation on a request, in any order, keeps the order of its maps.
  \<^item> \<open>HttpObjects\<close> (\<^verbatim>\<open>http_request.cpp\<close>, \<^verbatim>\<open>http_response.cpp\<close>, \<^verbatim>\<open>handler.cpp\<close>): the objects that a servlet gets, and all that it can change
    through them. \<open>CookieObjects\<close> (\<^verbatim>\<open>cookie.cpp\<close>): cookie objects that own their data, refining plain values.
  \<^item> \<open>Directories\<close>, \<open>HttpDates\<close> (\<^verbatim>\<open>util.cpp\<close>): creation of directories; parsing of HTTP dates with the conversions of \<^verbatim>\<open>strptime\<close> that
    its formats use.
  \<^item> \<open>Loggers\<close> (\<^verbatim>\<open>logger.cpp\<close>, \<^verbatim>\<open>file_logger.cpp\<close>, \<^verbatim>\<open>syslog-logger.cpp\<close>): levels, the queue of the file logger and its writing thread as
    a step relation, the lines of the syslog logger. \<open>Log4cxxLoggers\<close> (\<^verbatim>\<open>logging/logger.cpp\<close>): the logger on top of log4cxx.
  \<^item> \<open>ConfigFiles\<close> (\<^verbatim>\<open>config.cpp\<close>, \<^verbatim>\<open>xml.cpp\<close>), \<open>Loaders\<close> (\<^verbatim>\<open>loader.cpp\<close>, \<^verbatim>\<open>globals.cpp\<close>), \<open>ComponentLoads\<close> (the constructors and \<^verbatim>\<open>onLoad\<close>
    operations of the components), \<open>Daemons\<close> (\<^verbatim>\<open>main.cpp\<close>, \<^verbatim>\<open>fcgi_server.cpp\<close>, \<^verbatim>\<open>fcgi_request.cpp\<close>, \<^verbatim>\<open>endpoint.cpp\<close>): the start of the program.
    \<open>Shutdowns\<close> (the same files): its end, as a step relation of the threads of the whole program.
  \<^item> \<open>Connections\<close> (\<^verbatim>\<open>fcgi_server.cpp\<close>, \<^verbatim>\<open>fcgi_request.cpp\<close>, \<^verbatim>\<open>endpoint.cpp\<close>): one pass through the loop of an accepting thread, with the
    request that counts its connection and gives the count back.
  \<^item> \<open>XmlHandles\<close> (\<^verbatim>\<open>helpers.h\<close>, \<^verbatim>\<open>xml.cpp\<close>): the owners of the objects of libxml2, whose copies take the object away from the original.
    \<open>TimedThreads\<close> (\<^verbatim>\<open>simple_session_manager.cpp\<close>, \<^verbatim>\<open>file_cache.cpp\<close>): the threads that work at intervals and their \<^verbatim>\<open>stop\<close>, as step relations.
    \<open>SystemUtils\<close> (\<^verbatim>\<open>util.cpp\<close>): the functions that ask the system (\<^verbatim>\<open>sprintf\<close>, \<^verbatim>\<open>error\<close>, \<^verbatim>\<open>isWritable\<close>, \<^verbatim>\<open>getNewId\<close>).
  \<^item> \<open>ExampleApp\<close> (\<^verbatim>\<open>example.cpp\<close>): the components of the example application, its handler, filter, servlet and security realm.

  \<^bold>\<open>What is shown.\<close>

  \<^item> Answers: the headers are sent once and before the body; a task that ends without an exception has
    sent its headers; an exception becomes exactly its error page; every accepted request is queued
    or answered; after the headers nothing of the head changes; a servlet changes nothing but the
    response and the attributes of its context.
  \<^item> Routing: the handler and the filters are the specified ones; the pools that routing needs exist;
    the chain of filters is the nested application of the filters.
  \<^item> Concurrency: the counters of a pool account for every accepted task, no wake-up is lost, stop ends
    every worker; the busy counter of an endpoint is exact, and a pass of an accepting thread refines
    its steps; stopping a timed thread returns, though its notification may be lost; the file logger writes its messages in
    order, but its destructor may find messages left.
  \<^item> Data: round trips for URL coding, base64, form data, cookies, dates, multipart forms, stored
    requests, deferred requests and the markup of a page; requests keep their type; cookie objects
    refine values; file buffers refine string buffers; the statistics
    refine the list of the recorded times.
  \<^item> Resources: while no call is refused, a mapped file is its content, whatever windows it is read
    through; one refused mapping makes the file unusable for good; file buffers leave neither
    descriptors nor files behind; helpers of libxml2 objects free each object exactly once.
  \<^item> Sessions and security: the session table is consistent with the live objects, a session is found
    again, the timeout removes exactly the expired ones; behind an authenticator only authorised
    requests are handled; the realm of the example grants a login exactly for the
    password of a configured user.
  \<^item> Start-up: the group and user of the command line are in force before the configuration is read;
    components are made by the factories of the loaded modules and load after their dependencies;
    the loop ends, the numbers of the pools are bounded; a program that serves has done all of it.
  \<^item> End: after a signal the threads make a bounded number of steps until \<^verbatim>\<open>main\<close> returns; the accepting
    threads are never joined, so that the program does not end well.

  \<^bold>\<open>Bounds and fuel.\<close> Sizes of buffers and files are below \<^verbatim>\<open>2^62\<close>, so that the 64-bit sums of the code do
  not wrap; the theorems state it. \<open>PageReaders.read_page\<close> has fuel for the depth of the inclusion of pages, since
  a page may include itself (\<open>PageReaders.self_include_loops\<close>). Loops that may not end are option-valued partial functions.

  \<^bold>\<open>Parameters.\<close> The digest of OpenSSL, the parser and the XPath evaluation of libxml2, regular expressions, random
  identifiers, clocks, the system calls for processes, users, sockets and modules, the text that \<^verbatim>\<open>vsnprintf\<close>
  makes, and the FastCGI library are arguments of the definitions; the file system of the cache and
  of the page compiler is a map from paths to contents, that of the directories a list of paths.

  \<^bold>\<open>Not modelled.\<close> Help texts and progress messages of the programs; the initialisation of libraries, which the
  sources only call; the declarations of the public headers that have no body; the
  tests.
\<close>

end
